(* ===== verification/Prelude.thy ===== *)
theory Prelude
  imports Main "HOL-Library.Word"
begin

text \<open>
  Shared vocabulary of the development: the machine integer types of the C code, the
  big-endian byte layouts every wire format of the repository uses, the collections of
  simplification rules the component theories add to, and the generic list and word
  lemmas they share.

  Conventions used in all theories: a C \<open>int\<close> return code is an \<open>int\<close> (0 or -1 as in
  the source); \<open>uint8_t\<close> to \<open>uint64_t\<close> values whose wrap-around matters are words;
  \<open>size_t\<close> values are \<open>nat\<close>, with the bound that excludes wrap-around proved where a
  computation could reach it; a pointer that the code tests against NULL is an \<open>option\<close>;
  C strings are HOL strings without the closing NUL; the clock, the kernel and the
  allocator appear as explicit arguments that hold their answers.
\<close>

unbundle bit_operations_syntax

type_synonym u8 = "8 word"
type_synonym u16 = "16 word"
type_synonym u32 = "32 word"
type_synonym u64 = "64 word"

text \<open>Rules that evaluate byte layouts, and rules that unfold the small accessors.\<close>

named_theorems bytes_simps
named_theorems model_simps

section \<open>Big-endian layouts\<close>

text \<open>The reads written out in the source as shifted bytes joined by bitwise or.\<close>

definition be32 :: "u8 \<Rightarrow> u8 \<Rightarrow> u8 \<Rightarrow> u8 \<Rightarrow> u32" where
  "be32 b0 b1 b2 b3 =
     push_bit 24 (ucast b0) OR push_bit 16 (ucast b1) OR push_bit 8 (ucast b2) OR ucast b3"

definition be16 :: "u8 \<Rightarrow> u8 \<Rightarrow> u16" where
  "be16 b0 b1 = push_bit 8 (ucast b0) OR ucast b1"

text \<open>The writes: byte \<open>i\<close> of a value, as \<open>(uint8_t)(x >> s)\<close>.\<close>

definition byte_at :: "nat \<Rightarrow> 'a::len word \<Rightarrow> u8" where
  "byte_at s x = ucast (drop_bit s x)"

text \<open>The same write with an explicit mask, as \<open>(uint8_t)((x >> s) & 0xFF)\<close>.\<close>

definition masked_byte_at :: "nat \<Rightarrow> 'a::len word \<Rightarrow> u8" where
  "masked_byte_at s x = ucast (drop_bit s x AND 0xFF)"

definition put_be32 :: "'a::len word \<Rightarrow> u8 list" where
  "put_be32 x = [byte_at 24 x, byte_at 16 x, byte_at 8 x, byte_at 0 x]"

lemma mask_255: "(0xFF :: 'a::len word) = mask 8"
  by (simp add: mask_eq_exp_minus_1)

lemma masked_byte_at_eq [bytes_simps]: "masked_byte_at s x = byte_at s x"
  unfolding masked_byte_at_def byte_at_def mask_255
  by (rule bit_word_eqI) (auto simp: bit_simps dest: bit_imp_le_length)

lemma be32_byte_at [bytes_simps]:
  fixes x :: u32
  shows "be32 (byte_at 24 x) (byte_at 16 x) (byte_at 8 x) (byte_at 0 x) = x"
proof (rule bit_word_eqI)
  fix n
  assume "n < LENGTH(32)"
  then show "bit (be32 (byte_at 24 x) (byte_at 16 x) (byte_at 8 x) (byte_at 0 x)) n = bit x n"
    by (cases "n < 8"; cases "n < 16"; cases "n < 24")
      (auto simp: be32_def byte_at_def bit_simps not_less)
qed

lemma be32_byte_at_64 [bytes_simps]:
  fixes x :: u64
  shows "be32 (byte_at 24 x) (byte_at 16 x) (byte_at 8 x) (byte_at 0 x) = ucast x"
proof (rule bit_word_eqI)
  fix n
  assume "n < LENGTH(32)"
  then show "bit (be32 (byte_at 24 x) (byte_at 16 x) (byte_at 8 x) (byte_at 0 x)) n =
    bit (ucast x :: u32) n"
    by (cases "n < 8"; cases "n < 16"; cases "n < 24")
      (auto simp: be32_def byte_at_def bit_simps not_less)
qed

lemma be16_byte_at [bytes_simps]:
  fixes x :: u16
  shows "be16 (byte_at 8 x) (byte_at 0 x) = x"
proof (rule bit_word_eqI)
  fix n
  assume "n < LENGTH(16)"
  then show "bit (be16 (byte_at 8 x) (byte_at 0 x)) n = bit x n"
    by (auto simp: be16_def byte_at_def bit_simps not_less)
qed

lemma byte_at_be32:
  "byte_at 24 (be32 a b c d) = a" "byte_at 16 (be32 a b c d) = b"
  "byte_at 8 (be32 a b c d) = c" "byte_at 0 (be32 a b c d) = d"
  by (rule bit_word_eqI, auto simp: be32_def byte_at_def bit_simps dest: bit_imp_le_length)+

lemma byte_at_be16:
  "byte_at 8 (be16 a b) = a" "byte_at 0 (be16 a b) = b"
  by (rule bit_word_eqI, auto simp: be16_def byte_at_def bit_simps dest: bit_imp_le_length)+

lemma length_put_be32 [simp]: "length (put_be32 x) = 4"
  by (simp add: put_be32_def)

section \<open>Little-endian layouts\<close>

text \<open>
  Packed structs copied with \<open>memcpy\<close> have the host's byte order; the development fixes the
  little-endian order of the x86-64 and AArch64 hosts the repository is built for.
\<close>

definition le16 :: "u8 \<Rightarrow> u8 \<Rightarrow> u16" where
  "le16 b0 b1 = be16 b1 b0"

definition le32 :: "u8 \<Rightarrow> u8 \<Rightarrow> u8 \<Rightarrow> u8 \<Rightarrow> u32" where
  "le32 b0 b1 b2 b3 = be32 b3 b2 b1 b0"

definition le64 :: "u32 \<Rightarrow> u32 \<Rightarrow> u64" where
  "le64 lo hi = push_bit 32 (ucast hi) OR ucast lo"

definition put_le16 :: "u16 \<Rightarrow> u8 list" where
  "put_le16 x = [byte_at 0 x, byte_at 8 x]"

definition put_le32 :: "u32 \<Rightarrow> u8 list" where
  "put_le32 x = [byte_at 0 x, byte_at 8 x, byte_at 16 x, byte_at 24 x]"

definition put_le64 :: "u64 \<Rightarrow> u8 list" where
  "put_le64 x = put_le32 (ucast x) @ put_le32 (ucast (drop_bit 32 x))"

lemma le64_split [bytes_simps]:
  fixes x :: u64
  shows "le64 (ucast x) (ucast (drop_bit 32 x)) = x"
proof (rule bit_word_eqI)
  fix n
  assume "n < LENGTH(64)"
  then show "bit (le64 (ucast x) (ucast (drop_bit 32 x))) n = bit x n"
    by (auto simp: le64_def bit_simps not_less)
qed

section \<open>Generic lemmas\<close>

lemma ex_ge_Suc: "(\<exists>j\<ge>i. P j) \<longleftrightarrow> P i \<or> (\<exists>j\<ge>Suc i. P j)"
  by (metis Suc_leD Suc_leI le_eq_less_or_eq order_refl)

section \<open>Word bounds\<close>

lemma ucast_of_nat_32:
  "n < 2 ^ 32 \<Longrightarrow> (ucast (of_nat n :: u64) :: u32) = of_nat n"
  by (simp add: word_unat_eq_iff unat_of_nat unsigned_ucast_eq take_bit_eq_mod mod_mod_cancel)

lemma unat_of_nat_32: "n < 4294967296 \<Longrightarrow> unat (of_nat n :: u32) = n"
  by (simp add: unat_of_nat take_bit_eq_mod)

lemma unat_of_nat_64: "n < 18446744073709551616 \<Longrightarrow> unat (of_nat n :: u64) = n"
  by (simp add: unat_of_nat take_bit_eq_mod)

end
