(* ===== verification/Protocol.thy ===== *)
theory Protocol
  imports Prelude
begin

text \<open>
  The TLV wire protocol between \<open>ml_worker\<close> and \<open>stream_server\<close>
  (\<open>stream_server/src/protocol.c\<close>, \<open>stream_server/include/protocol.h\<close>): the packet
  header, the stream information carried by STREAM_START, their parsers and the header
  builder. A buffer argument is a byte list behind an option (None is the NULL pointer);
  the header parser reads seven bytes, which every caller provides.
\<close>

section \<open>Constants and data\<close>

definition TCP_MSG_TYPE_VIDEO_DATA :: u8 where "TCP_MSG_TYPE_VIDEO_DATA = 0x01"
definition TCP_MSG_TYPE_HEARTBEAT :: u8 where "TCP_MSG_TYPE_HEARTBEAT = 0x02"
definition TCP_MSG_TYPE_STREAM_START :: u8 where "TCP_MSG_TYPE_STREAM_START = 0x03"
definition TCP_MSG_TYPE_STREAM_STOP :: u8 where "TCP_MSG_TYPE_STREAM_STOP = 0x04"

definition TCP_HEADER_SIZE :: nat where "TCP_HEADER_SIZE = 7"
definition TCP_MAX_PACKET_SIZE :: nat where "TCP_MAX_PACKET_SIZE = 10 * 1024 * 1024"
definition MAX_STREAMS :: nat where "MAX_STREAMS = 256"
definition DEFAULT_MAX_STREAMS :: nat where "DEFAULT_MAX_STREAMS = 20"
definition DEFAULT_LISTEN_PORT :: nat where "DEFAULT_LISTEN_PORT = 9000"

lemmas protocol_consts =
  TCP_MSG_TYPE_VIDEO_DATA_def TCP_MSG_TYPE_HEARTBEAT_def TCP_MSG_TYPE_STREAM_START_def
  TCP_MSG_TYPE_STREAM_STOP_def TCP_HEADER_SIZE_def TCP_MAX_PACKET_SIZE_def MAX_STREAMS_def
  DEFAULT_MAX_STREAMS_def DEFAULT_LISTEN_PORT_def

record StreamInfo =
  si_width :: u32
  si_height :: u32
  si_fps :: u32
  si_bitrate :: u32
  si_codec :: u32
  si_chroma :: u32
  si_bitdepth :: u32
  si_video_format :: u32
  si_color_space :: u32
  si_color_range :: u32

record PacketHeader =
  ph_length :: u32
  ph_type :: u8
  ph_stream_id :: u16

section \<open>Operations\<close>

text \<open>The bytes at \<open>i .. i+3\<close> of a buffer read as a big-endian \<open>uint32_t\<close>.\<close>

definition read_be32 :: "u8 list \<Rightarrow> nat \<Rightarrow> u32" where
  "read_be32 buf i = be32 (buf ! i) (buf ! (i + 1)) (buf ! (i + 2)) (buf ! (i + 3))"

definition protocol_parse_header :: "u8 list option \<Rightarrow> PacketHeader option" where
  "protocol_parse_header b = (case b of None \<Rightarrow> None | Some buf \<Rightarrow>
     let header = \<lparr> ph_length = read_be32 buf 0,
                    ph_type = buf ! 4,
                    ph_stream_id = be16 (buf ! 5) (buf ! 6) \<rparr>
     in if ph_length header < of_nat TCP_HEADER_SIZE
           \<or> ph_length header > of_nat TCP_MAX_PACKET_SIZE then None
        else if ph_type header < TCP_MSG_TYPE_VIDEO_DATA
           \<or> ph_type header > TCP_MSG_TYPE_STREAM_STOP then None
        else if ph_stream_id header = 0
           \<or> unat (ph_stream_id header) > MAX_STREAMS then None
        else Some header)"

text \<open>
  The stream information parser accepts three payload generations: 16 bytes (geometry
  only), 32 bytes (codec fields) and 40 bytes (color fields). The absent fields take the
  source's defaults.
\<close>

definition protocol_parse_stream_info :: "u8 list option \<Rightarrow> nat \<Rightarrow> StreamInfo option" where
  "protocol_parse_stream_info b len = (case b of None \<Rightarrow> None | Some buf \<Rightarrow>
     if len < 16 then None
     else
       let info = \<lparr> si_width = read_be32 buf 0, si_height = read_be32 buf 4,
                    si_fps = read_be32 buf 8, si_bitrate = read_be32 buf 12,
                    si_codec = 0, si_chroma = 0, si_bitdepth = 0, si_video_format = 0,
                    si_color_space = 0, si_color_range = 0 \<rparr>
       in if len \<ge> 32 then
            let info = info \<lparr> si_codec := read_be32 buf 16, si_chroma := read_be32 buf 20,
                              si_bitdepth := read_be32 buf 24,
                              si_video_format := read_be32 buf 28 \<rparr>
            in if len \<ge> 40 then
                 Some (info \<lparr> si_color_space := read_be32 buf 32,
                              si_color_range := read_be32 buf 36 \<rparr>)
               else Some (info \<lparr> si_color_space := 0, si_color_range := 0 \<rparr>)
          else Some (info \<lparr> si_codec := 0, si_chroma := 0, si_bitdepth := 8,
                            si_video_format := 0, si_color_space := 0, si_color_range := 0 \<rparr>))"

text \<open>The seven bytes the builder stores; the 32-bit length addition wraps as in C.\<close>

definition protocol_build_header :: "u8 \<Rightarrow> u16 \<Rightarrow> u32 \<Rightarrow> u8 list" where
  "protocol_build_header type stream_id payload_len =
     (let total_len = of_nat TCP_HEADER_SIZE + payload_len
      in [byte_at 24 total_len, byte_at 16 total_len, byte_at 8 total_len, byte_at 0 total_len,
          type, byte_at 8 stream_id, byte_at 0 stream_id])"

section \<open>Lemmas\<close>

lemma read_be32_put_be32 [bytes_simps]:
  fixes x :: u32
  shows "length xs = i \<Longrightarrow> read_be32 (xs @ put_be32 x @ ys) i = x"
  by (auto simp: read_be32_def put_be32_def nth_append be32_byte_at)

lemma length_protocol_build_header [simp]:
  "length (protocol_build_header t sid n) = TCP_HEADER_SIZE"
  by (simp add: protocol_build_header_def Let_def TCP_HEADER_SIZE_def)

text \<open>What the parser decides, as one equivalence over the seven header bytes.\<close>

definition header_ok :: "PacketHeader \<Rightarrow> bool" where
  "header_ok h \<longleftrightarrow>
     TCP_HEADER_SIZE \<le> unat (ph_length h) \<and> unat (ph_length h) \<le> TCP_MAX_PACKET_SIZE \<and>
     1 \<le> unat (ph_type h) \<and> unat (ph_type h) \<le> 4 \<and>
     1 \<le> unat (ph_stream_id h) \<and> unat (ph_stream_id h) \<le> MAX_STREAMS"

definition header_bytes :: "PacketHeader \<Rightarrow> u8 list" where
  "header_bytes h = put_be32 (ph_length h) @
     [ph_type h, byte_at 8 (ph_stream_id h), byte_at 0 (ph_stream_id h)]"

lemma length_header_bytes [simp]: "length (header_bytes h) = TCP_HEADER_SIZE"
  by (simp add: header_bytes_def put_be32_def TCP_HEADER_SIZE_def)

lemma parse_header_bytes:
  "protocol_parse_header (Some (header_bytes h @ rest)) = (if header_ok h then Some h else None)"
proof -
  have read: "read_be32 (header_bytes h @ rest) 0 = ph_length h"
    by (simp add: header_bytes_def put_be32_def read_be32_def be32_byte_at)
  have nth: "(header_bytes h @ rest) ! 4 = ph_type h"
    "be16 ((header_bytes h @ rest) ! 5) ((header_bytes h @ rest) ! 6) = ph_stream_id h"
    by (simp_all add: header_bytes_def put_be32_def be16_byte_at)
  have zero: "unat (ph_stream_id h) \<noteq> 0 \<longleftrightarrow> ph_stream_id h \<noteq> 0"
    by (simp add: unat_eq_0)
  have eta: "\<lparr>ph_length = ph_length h, ph_type = ph_type h, ph_stream_id = ph_stream_id h\<rparr> = h"
    by simp
  show ?thesis
    unfolding protocol_parse_header_def option.case Let_def read nth eta header_ok_def
    using zero by (auto simp: protocol_consts word_less_nat_alt unat_of_nat take_bit_eq_mod)
qed

lemma build_header_bytes:
  "protocol_build_header t sid n =
     header_bytes \<lparr>ph_length = of_nat TCP_HEADER_SIZE + n, ph_type = t, ph_stream_id = sid\<rparr>"
  by (simp add: protocol_build_header_def header_bytes_def put_be32_def Let_def)

lemma parse_header_surj:
  assumes "protocol_parse_header (Some buf) = Some h" and "TCP_HEADER_SIZE \<le> length buf"
  shows "header_ok h" and "take TCP_HEADER_SIZE buf = header_bytes h"
proof -
  obtain a b c d e f g rest where buf: "buf = a # b # c # d # e # f # g # rest"
    using assms(2) by (auto simp: TCP_HEADER_SIZE_def Suc_le_length_iff numeral_eq_Suc)
  let ?h = "\<lparr>ph_length = be32 a b c d, ph_type = e, ph_stream_id = be16 f g\<rparr>"
  have bytes: "header_bytes ?h = [a, b, c, d, e, f, g]"
    by (simp add: header_bytes_def put_be32_def byte_at_be32 byte_at_be16)
  have "protocol_parse_header (Some (header_bytes ?h @ rest)) = Some h"
    using assms(1) by (simp add: buf bytes)
  then have h: "header_ok ?h" "h = ?h"
    by (simp_all only: parse_header_bytes split: if_splits) simp_all
  then show "header_ok h" by simp
  show "take TCP_HEADER_SIZE buf = header_bytes h"
    using h bytes by (simp add: buf TCP_HEADER_SIZE_def numeral_eq_Suc)
qed

text \<open>The 40-byte payload a sender of the current generation writes.\<close>

definition stream_info_bytes :: "StreamInfo \<Rightarrow> u8 list" where
  "stream_info_bytes si =
     put_be32 (si_width si) @ put_be32 (si_height si) @ put_be32 (si_fps si) @
     put_be32 (si_bitrate si) @ put_be32 (si_codec si) @ put_be32 (si_chroma si) @
     put_be32 (si_bitdepth si) @ put_be32 (si_video_format si) @
     put_be32 (si_color_space si) @ put_be32 (si_color_range si)"

lemma length_stream_info_bytes [simp]: "length (stream_info_bytes si) = 40"
  by (simp add: stream_info_bytes_def)

lemma parse_stream_info_bytes:
  "protocol_parse_stream_info (Some (stream_info_bytes si @ rest)) (40 + n) = Some si"
  by (simp add: protocol_parse_stream_info_def stream_info_bytes_def read_be32_def put_be32_def
      be32_byte_at Let_def)

end
