(* ===== verification/TcpSender.thy ===== *)
theory TcpSender
  imports Protocol
begin

text \<open>
  The TLV producer of \<open>ml_worker\<close> (\<open>src/tcp_sender.c\<close>, \<open>include/tcp_sender.h\<close>). The
  kernel's answers to \<open>send\<close> are a list consumed in order; an operation that runs out of
  answers has not returned yet and its result is None. The bytes the kernel accepted on
  the current connection and the descriptors that were closed are recorded in \<open>net\<close>.
  Log lines and the socket options have no effect on the state and are left out; object
  pointers are never NULL here, so the \<open>!sender\<close> tests have no counterpart.
\<close>

section \<open>The kernel interface\<close>

datatype send_answer = SendN nat | SendEINTR | SendEAGAIN | SendFail

record net =
  net_out :: "u8 list"
  net_answers :: "send_answer list"
  net_closed :: "int list"

definition SEND_MAX_RETRIES :: nat where "SEND_MAX_RETRIES = 100"

text \<open>
  The loop of \<open>send_all\<close>: \<open>sent\<close> and \<open>retry\<close> are its locals, \<open>out\<close> the bytes accepted so far.
\<close>

fun send_loop ::
  "send_answer list \<Rightarrow> u8 list \<Rightarrow> nat \<Rightarrow> nat \<Rightarrow> u8 list \<Rightarrow> (int \<times> u8 list \<times> send_answer list) option"
where
  "send_loop [] data sent retry out =
     (if sent < length data \<and> retry < SEND_MAX_RETRIES then None
      else Some (if sent < length data then - 1 else 0, out, []))"
| "send_loop (a # as) data sent retry out =
     (if sent < length data \<and> retry < SEND_MAX_RETRIES then
        (case a of
           SendEINTR \<Rightarrow> send_loop as data sent retry out
         | SendEAGAIN \<Rightarrow> send_loop as data sent (retry + 1) out
         | SendFail \<Rightarrow> Some (- 1, out, as)
         | SendN n \<Rightarrow>
             if n = 0 then Some (- 1, out, as)
             else send_loop as data (sent + n) 0 (out @ take n (drop sent data)))
      else Some (if sent < length data then - 1 else 0, out, a # as))"

definition send_all :: "u8 list \<Rightarrow> net \<Rightarrow> (int \<times> net) option" where
  "send_all data w =
     (case send_loop (net_answers w) data 0 0 (net_out w) of
        None \<Rightarrow> None
      | Some (rc, out, rest) \<Rightarrow> Some (rc, w\<lparr>net_out := out, net_answers := rest\<rparr>))"

definition close_fd :: "int \<Rightarrow> net \<Rightarrow> net" where
  "close_fd fd w = w\<lparr>net_closed := net_closed w @ [fd]\<rparr>"

section \<open>The sender object\<close>

datatype TcpSenderState =
  TCP_STATE_DISCONNECTED | TCP_STATE_CONNECTING | TCP_STATE_CONNECTED | TCP_STATE_ERROR

datatype TcpError =
  TCP_ERR_NONE | TCP_ERR_INVALID_ARG | TCP_ERR_NO_MEMORY | TCP_ERR_SOCKET_CREATE
  | TCP_ERR_CONNECT | TCP_ERR_SEND | TCP_ERR_NOT_CONNECTED | TCP_ERR_PACKET_TOO_LARGE

record TcpSenderConfig =
  tc_host :: string
  tc_port :: u16
  tc_stream_id :: u16
  tc_width :: u32
  tc_height :: u32
  tc_fps :: u32
  tc_bitrate :: u32
  tc_codec :: u32
  tc_chroma :: u32
  tc_bitdepth :: u32
  tc_video_format :: u32
  tc_color_space :: u32
  tc_color_range :: u32

record TcpSender =
  ts_sock_fd :: int
  ts_state :: TcpSenderState
  ts_config :: TcpSenderConfig
  ts_packets_sent :: u64
  ts_bytes_sent :: u64
  ts_last_heartbeat_ns :: u64
  ts_connect_time_ns :: u64
  ts_last_error :: TcpError
  ts_has_buffer :: bool
  ts_send_buffer_size :: nat

definition empty_config :: TcpSenderConfig where
  "empty_config = \<lparr>tc_host = [], tc_port = 0, tc_stream_id = 0, tc_width = 0, tc_height = 0,
     tc_fps = 0, tc_bitrate = 0, tc_codec = 0, tc_chroma = 0, tc_bitdepth = 0,
     tc_video_format = 0, tc_color_space = 0, tc_color_range = 0\<rparr>"

text \<open>The object after \<open>memset(sender, 0, ...)\<close> and \<open>sock_fd = -1\<close>.\<close>

definition zero_sender :: TcpSender where
  "zero_sender = \<lparr>ts_sock_fd = - 1, ts_state = TCP_STATE_DISCONNECTED, ts_config = empty_config,
     ts_packets_sent = 0, ts_bytes_sent = 0, ts_last_heartbeat_ns = 0, ts_connect_time_ns = 0,
     ts_last_error = TCP_ERR_NONE, ts_has_buffer = False, ts_send_buffer_size = 0\<rparr>"

definition DEFAULT_SEND_BUFFER_SIZE :: nat where
  "DEFAULT_SEND_BUFFER_SIZE = 2 * 1024 * 1024"

definition HEARTBEAT_INTERVAL_NS :: u64 where
  "HEARTBEAT_INTERVAL_NS = 5 * 1000000000"

text \<open>The doubling loop; from a size of at least one it reaches every bound.\<close>

function double_until :: "nat \<Rightarrow> nat \<Rightarrow> nat" where
  "double_until new_size needed =
     (if 0 < new_size \<and> new_size < needed then double_until (new_size * 2) needed else new_size)"
  by pat_completeness auto
termination
  by (relation "measure (\<lambda>(s, n). n - s)") auto

declare double_until.simps [simp del]

definition ensure_buffer_size :: "bool \<Rightarrow> nat \<Rightarrow> TcpSender \<Rightarrow> int \<times> TcpSender" where
  "ensure_buffer_size alloc_ok needed s =
     (if ts_send_buffer_size s \<ge> needed then (0, s)
      else
        let start = (if ts_send_buffer_size s = 0 then DEFAULT_SEND_BUFFER_SIZE
                     else ts_send_buffer_size s);
            new_size = double_until start needed
        in if \<not> alloc_ok then (- 1, s\<lparr>ts_last_error := TCP_ERR_NO_MEMORY\<rparr>)
           else (0, s\<lparr>ts_has_buffer := True, ts_send_buffer_size := new_size\<rparr>))"

definition tcp_sender_init :: "bool \<Rightarrow> TcpSenderConfig \<Rightarrow> TcpSender \<Rightarrow> int \<times> TcpSender" where
  "tcp_sender_init alloc_ok config s =
     (if tc_port config = 0 \<or> tc_host config = [] then (- 1, s)
      else if tc_stream_id config = 0 then (- 1, s)
      else
        let s' = zero_sender\<lparr>ts_config := config\<rparr>
        in if \<not> alloc_ok then (- 1, s'\<lparr>ts_last_error := TCP_ERR_NO_MEMORY\<rparr>)
           else (0, s'\<lparr>ts_has_buffer := True, ts_send_buffer_size := DEFAULT_SEND_BUFFER_SIZE\<rparr>))"

text \<open>The seven header bytes as the four send operations write them.\<close>

definition sender_header :: "u64 \<Rightarrow> u8 \<Rightarrow> u16 \<Rightarrow> u8 list" where
  "sender_header total_size type stream_id =
     [masked_byte_at 24 total_size, masked_byte_at 16 total_size,
      masked_byte_at 8 total_size, masked_byte_at 0 total_size,
      type, masked_byte_at 8 stream_id, masked_byte_at 0 stream_id]"

definition put_field :: "u32 \<Rightarrow> u8 list" where
  "put_field x = [masked_byte_at 24 x, masked_byte_at 16 x, masked_byte_at 8 x, masked_byte_at 0 x]"

definition stream_start_payload :: "TcpSenderConfig \<Rightarrow> u8 list" where
  "stream_start_payload c =
     put_field (tc_width c) @ put_field (tc_height c) @ put_field (tc_fps c) @
     put_field (tc_bitrate c) @ put_field (tc_codec c) @ put_field (tc_chroma c) @
     put_field (tc_bitdepth c) @ put_field (tc_video_format c) @
     put_field (tc_color_space c) @ put_field (tc_color_range c)"

text \<open>Every operation from here on returns its code, the object and the network, or None.\<close>

type_synonym sender_result = "(int \<times> TcpSender \<times> net) option"

definition tcp_sender_send_video ::
  "bool \<Rightarrow> u8 list option \<Rightarrow> int \<Rightarrow> TcpSender \<Rightarrow> net \<Rightarrow> sender_result" where
  "tcp_sender_send_video alloc_ok data frame_type s w =
     (case data of None \<Rightarrow> Some (- 1, s, w) | Some d \<Rightarrow>
      if length d = 0 then Some (- 1, s, w)
      else if ts_state s \<noteq> TCP_STATE_CONNECTED then
        Some (- 1, s\<lparr>ts_last_error := TCP_ERR_NOT_CONNECTED\<rparr>, w)
      else if length d > TCP_MAX_PACKET_SIZE then
        Some (- 1, s\<lparr>ts_last_error := TCP_ERR_PACKET_TOO_LARGE\<rparr>, w)
      else
        let total_size = TCP_HEADER_SIZE + length d in
        case ensure_buffer_size alloc_ok total_size s of (rc, s1) \<Rightarrow>
        if rc < 0 then Some (- 1, s1, w)
        else
          let buf = sender_header (of_nat total_size) TCP_MSG_TYPE_VIDEO_DATA
                      (tc_stream_id (ts_config s1)) @ d in
          case send_all buf w of
            None \<Rightarrow> None
          | Some (rc, w') \<Rightarrow>
              if rc < 0 then
                Some (- 1, s1\<lparr>ts_last_error := TCP_ERR_SEND, ts_state := TCP_STATE_ERROR\<rparr>, w')
              else
                Some (0, s1\<lparr>ts_packets_sent := ts_packets_sent s1 + 1,
                            ts_bytes_sent := ts_bytes_sent s1 + of_nat total_size\<rparr>, w'))"

definition tcp_sender_send_heartbeat :: "u64 \<Rightarrow> TcpSender \<Rightarrow> net \<Rightarrow> sender_result" where
  "tcp_sender_send_heartbeat now s w =
     (if ts_state s \<noteq> TCP_STATE_CONNECTED then Some (- 1, s, w)
      else
        let buf = sender_header (of_nat TCP_HEADER_SIZE) TCP_MSG_TYPE_HEARTBEAT
                    (tc_stream_id (ts_config s)) in
        case send_all buf w of
          None \<Rightarrow> None
        | Some (rc, w') \<Rightarrow>
            if rc < 0 then
              Some (- 1, s\<lparr>ts_last_error := TCP_ERR_SEND, ts_state := TCP_STATE_ERROR\<rparr>, w')
            else Some (0, s\<lparr>ts_last_heartbeat_ns := now\<rparr>, w'))"

definition tcp_sender_send_stream_start :: "bool \<Rightarrow> TcpSender \<Rightarrow> net \<Rightarrow> sender_result" where
  "tcp_sender_send_stream_start alloc_ok s w =
     (if ts_state s \<noteq> TCP_STATE_CONNECTED then Some (- 1, s, w)
      else
        let total_size = TCP_HEADER_SIZE + 40 in
        case ensure_buffer_size alloc_ok total_size s of (rc, s1) \<Rightarrow>
        if rc < 0 then Some (- 1, s1, w)
        else
          let buf = sender_header (of_nat total_size) TCP_MSG_TYPE_STREAM_START
                      (tc_stream_id (ts_config s1)) @ stream_start_payload (ts_config s1) in
          case send_all buf w of
            None \<Rightarrow> None
          | Some (rc, w') \<Rightarrow>
              if rc < 0 then
                Some (- 1, s1\<lparr>ts_last_error := TCP_ERR_SEND, ts_state := TCP_STATE_ERROR\<rparr>, w')
              else Some (0, s1, w'))"

definition tcp_sender_send_stream_stop :: "TcpSender \<Rightarrow> net \<Rightarrow> sender_result" where
  "tcp_sender_send_stream_stop s w =
     (if ts_state s \<noteq> TCP_STATE_CONNECTED then Some (- 1, s, w)
      else
        let buf = sender_header (of_nat TCP_HEADER_SIZE) TCP_MSG_TYPE_STREAM_STOP
                    (tc_stream_id (ts_config s)) in
        case send_all buf w of
          None \<Rightarrow> None
        | Some (rc, w') \<Rightarrow> if rc < 0 then Some (- 1, s, w') else Some (0, s, w'))"

definition tcp_sender_check_heartbeat :: "u64 \<Rightarrow> u64 \<Rightarrow> TcpSender \<Rightarrow> net \<Rightarrow> sender_result" where
  "tcp_sender_check_heartbeat now interval_ns s w =
     (if ts_state s \<noteq> TCP_STATE_CONNECTED then Some (0, s, w)
      else if now - ts_last_heartbeat_ns s \<ge> interval_ns then tcp_sender_send_heartbeat now s w
      else Some (0, s, w))"

text \<open>
  What the system calls of \<open>tcp_sender_connect\<close> answer: the descriptor of \<open>socket\<close>,
  whether \<open>inet_pton\<close> or else the name lookup yields an address, the outcomes of
  \<open>connect\<close>, \<open>select\<close> and \<open>SO_ERROR\<close>, the clock, and whether the allocator succeeds.
\<close>

datatype connect_answer = ConnOk | ConnInProgress | ConnErr

record connect_env =
  ce_socket :: int
  ce_pton :: int
  ce_dns :: bool
  ce_connect :: connect_answer
  ce_select :: int
  ce_so_error :: int
  ce_now :: u64
  ce_alloc_ok :: bool

definition connect_failed :: "TcpSender \<Rightarrow> net \<Rightarrow> sender_result" where
  "connect_failed s w =
     Some (- 1, s\<lparr>ts_sock_fd := - 1, ts_last_error := TCP_ERR_CONNECT,
                  ts_state := TCP_STATE_ERROR\<rparr>,
           close_fd (ts_sock_fd s) w)"

definition tcp_sender_connect :: "connect_env \<Rightarrow> TcpSender \<Rightarrow> net \<Rightarrow> sender_result" where
  "tcp_sender_connect e s w =
     (if ts_state s = TCP_STATE_CONNECTED then Some (0, s, w)
      else
        let (s1, w1) = (if ts_sock_fd s \<ge> 0
                        then (s\<lparr>ts_sock_fd := - 1\<rparr>, close_fd (ts_sock_fd s) w) else (s, w));
            s2 = s1\<lparr>ts_state := TCP_STATE_CONNECTING, ts_last_error := TCP_ERR_NONE,
                    ts_sock_fd := ce_socket e\<rparr>
        in
        if ce_socket e < 0 then
          Some (- 1, s2\<lparr>ts_last_error := TCP_ERR_SOCKET_CREATE, ts_state := TCP_STATE_ERROR\<rparr>, w1)
        else if ce_pton e \<le> 0 \<and> \<not> ce_dns e then connect_failed s2 w1
        else if ce_connect e = ConnErr then connect_failed s2 w1
        else if ce_connect e = ConnInProgress \<and> ce_select e \<le> 0 then connect_failed s2 w1
        else if ce_connect e = ConnInProgress \<and> ce_so_error e \<noteq> 0 then connect_failed s2 w1
        else
          let s3 = s2\<lparr>ts_state := TCP_STATE_CONNECTED, ts_connect_time_ns := ce_now e,
                      ts_last_heartbeat_ns := ce_now e, ts_packets_sent := 0, ts_bytes_sent := 0\<rparr>;
              w2 = w1\<lparr>net_out := []\<rparr>
          in case tcp_sender_send_stream_start (ce_alloc_ok e) s3 w2 of
               None \<Rightarrow> None
             | Some (_, s4, w3) \<Rightarrow> Some (0, s4, w3))"

definition tcp_sender_disconnect :: "TcpSender \<Rightarrow> net \<Rightarrow> (TcpSender \<times> net) option" where
  "tcp_sender_disconnect s w =
     (case (if ts_state s = TCP_STATE_CONNECTED then tcp_sender_send_stream_stop s w
            else Some (0, s, w)) of
        None \<Rightarrow> None
      | Some (_, s1, w1) \<Rightarrow>
          let (s2, w2) = (if ts_sock_fd s1 \<ge> 0
                          then (s1\<lparr>ts_sock_fd := - 1\<rparr>, close_fd (ts_sock_fd s1) w1)
                          else (s1, w1))
          in Some (s2\<lparr>ts_state := TCP_STATE_DISCONNECTED\<rparr>, w2))"

definition tcp_sender_destroy :: "TcpSender \<Rightarrow> net \<Rightarrow> (TcpSender \<times> net) option" where
  "tcp_sender_destroy s w =
     (case tcp_sender_disconnect s w of
        None \<Rightarrow> None
      | Some (s1, w1) \<Rightarrow> Some (zero_sender, w1))"

definition tcp_sender_state_str :: "TcpSender \<Rightarrow> string" where
  "tcp_sender_state_str s = (case ts_state s of
     TCP_STATE_DISCONNECTED \<Rightarrow> ''disconnected''
   | TCP_STATE_CONNECTING \<Rightarrow> ''connecting''
   | TCP_STATE_CONNECTED \<Rightarrow> ''connected''
   | TCP_STATE_ERROR \<Rightarrow> ''error'')"

definition tcp_sender_last_error_str :: "TcpSender \<Rightarrow> string" where
  "tcp_sender_last_error_str s = (case ts_last_error s of
     TCP_ERR_NONE \<Rightarrow> ''no error''
   | TCP_ERR_INVALID_ARG \<Rightarrow> ''invalid argument''
   | TCP_ERR_NO_MEMORY \<Rightarrow> ''out of memory''
   | TCP_ERR_SOCKET_CREATE \<Rightarrow> ''socket creation failed''
   | TCP_ERR_CONNECT \<Rightarrow> ''connection failed''
   | TCP_ERR_SEND \<Rightarrow> ''send failed''
   | TCP_ERR_NOT_CONNECTED \<Rightarrow> ''not connected''
   | TCP_ERR_PACKET_TOO_LARGE \<Rightarrow> ''packet too large'')"

section \<open>The send loop\<close>

text \<open>Result 0 means every byte was accepted; -1 that only a proper prefix was.\<close>

lemma send_loop_result:
  assumes "send_loop as data sent retry out = Some (rc, out', rest)"
  shows "(rc = 0 \<and> out' = out @ drop sent data) \<or>
         (rc = - 1 \<and> (\<exists>k. sent \<le> k \<and> k < length data \<and>
            out' = out @ take (k - sent) (drop sent data)))"
  using assms
proof (induction as data sent retry out rule: send_loop.induct)
  case (1 data sent retry out)
  then show ?case by (auto split: if_splits intro: exI [of _ sent])
next
  case (2 a as data sent retry out)
  show ?case
  proof (cases "sent < length data \<and> retry < SEND_MAX_RETRIES")
    case False
    with 2 show ?thesis by (auto split: if_splits intro: exI [of _ sent])
  next
    case True
    show ?thesis
    proof (cases a)
      case (SendN n)
      show ?thesis
      proof (cases "n = 0")
        case True
        with 2 \<open>sent < length data \<and> _\<close> SendN show ?thesis by (auto intro: exI [of _ sent])
      next
        case False
        let ?out = "out @ take n (drop sent data)"
        have "send_loop as data (sent + n) 0 ?out = Some (rc, out', rest)"
          using "2.prems" True SendN False by simp
        then have IH: "(rc = 0 \<and> out' = ?out @ drop (sent + n) data) \<or>
          (rc = - 1 \<and> (\<exists>k. sent + n \<le> k \<and> k < length data \<and>
             out' = ?out @ take (k - (sent + n)) (drop (sent + n) data)))"
          using "2.IH"(1) True SendN False by blast
        have join: "take n (drop sent data) @ take (k - (sent + n)) (drop (sent + n) data) =
            take (k - sent) (drop sent data)" if "sent + n \<le> k" for k
          using that take_add [of n "k - (sent + n)" "drop sent data"]
          by (simp add: add.commute)
        have all: "take n (drop sent data) @ drop (sent + n) data = drop sent data"
          using append_take_drop_id [of n "drop sent data"] by (simp add: add.commute)
        from IH show ?thesis
        proof
          assume "rc = 0 \<and> out' = ?out @ drop (sent + n) data"
          then show ?thesis by (simp add: all)
        next
          assume "rc = - 1 \<and> (\<exists>k. sent + n \<le> k \<and> k < length data \<and>
             out' = ?out @ take (k - (sent + n)) (drop (sent + n) data))"
          then obtain k where k: "rc = - 1" "sent + n \<le> k" "k < length data"
            "out' = out @ take (k - sent) (drop sent data)"
            using join by auto
          then show ?thesis by (intro disjI2 conjI exI [of _ k]) simp_all
        qed
      qed
    qed (use 2 True in \<open>auto intro: exI [of _ sent]\<close>)
  qed
qed

text \<open>
  The loop returns: unless the kernel keeps interrupting the call, every answer either
  counts as a retry or makes progress, so 101 answers for each byte and 100 more suffice.
\<close>

lemma send_loop_returns:
  assumes "SendEINTR \<notin> set as" and "sent \<le> length data" and "retry \<le> SEND_MAX_RETRIES"
    and "(length data - sent) * 101 + (SEND_MAX_RETRIES - retry) \<le> length as"
  shows "send_loop as data sent retry out \<noteq> None"
  using assms
proof (induction as data sent retry out rule: send_loop.induct)
  case (1 data sent retry out)
  then show ?case by (auto simp: SEND_MAX_RETRIES_def)
next
  case (2 a as data sent retry out)
  show ?case
  proof (cases "sent < length data \<and> retry < SEND_MAX_RETRIES")
    case False
    then show ?thesis by auto
  next
    case True
    show ?thesis
    proof (cases a)
      case (SendN n)
      show ?thesis
      proof (cases "n = 0 \<or> length data < sent + n")
        case False
        then have "(length data - (sent + n)) * 101 + SEND_MAX_RETRIES \<le> length as"
          using "2.prems"(4) True by (auto simp: SEND_MAX_RETRIES_def)
        then show ?thesis
          using "2.IH"(1) [of n] "2.prems" True False SendN by (simp add: SEND_MAX_RETRIES_def)
      next
        case overrun: True
        then show ?thesis
          using True SendN by (cases as) (auto simp: SEND_MAX_RETRIES_def)
      qed
    next
      case SendEAGAIN
      then show ?thesis
        using "2.IH"(3) "2.prems" True by (auto simp: SEND_MAX_RETRIES_def)
    qed (use 2 True in auto)
  qed
qed

lemma send_all_ok:
  assumes "send_all data w = Some (rc, w')" and "\<not> rc < 0"
  shows "rc = 0" "net_out w' = net_out w @ data" "net_closed w' = net_closed w"
  using assms send_loop_result by (fastforce simp: send_all_def split: option.splits)+

lemma send_all_frame:
  "send_all data w = Some (rc, w') \<Longrightarrow> net_closed w' = net_closed w \<and> (rc = 0 \<or> rc = - 1)"
  using send_loop_result by (fastforce simp: send_all_def split: option.splits)

section \<open>Buffer growth\<close>

lemma double_until_ge: "0 < sz \<Longrightarrow> needed \<le> double_until sz needed"
proof (induction sz needed rule: double_until.induct)
  case (1 sz needed)
  then show ?case
    by (cases "sz < needed") (auto simp: double_until.simps [of sz needed])
qed

lemma double_until_bound:
  "0 < sz \<Longrightarrow> double_until sz needed \<le> max sz (2 * needed)"
proof (induction sz needed rule: double_until.induct)
  case (1 sz needed)
  then show ?case
    by (cases "sz < needed") (auto simp: double_until.simps [of sz needed])
qed

lemma ensure_buffer_size_cases:
  assumes "ensure_buffer_size ok needed s = (rc, s')"
  shows "(rc = 0 \<and> needed \<le> ts_send_buffer_size s' \<or> rc = - 1 \<and> \<not> ok) \<and>
    ts_state s' = ts_state s \<and> ts_config s' = ts_config s \<and> ts_sock_fd s' = ts_sock_fd s"
  using assms double_until_ge
  by (auto simp: ensure_buffer_size_def Let_def DEFAULT_SEND_BUFFER_SIZE_def split: if_splits)

text \<open>No doubling of the sizes this program reaches leaves the range of \<open>size_t\<close>.\<close>

lemma ensure_buffer_size_no_wrap:
  assumes "ensure_buffer_size ok needed s = (rc, s')"
    and "needed \<le> TCP_HEADER_SIZE + TCP_MAX_PACKET_SIZE"
    and "ts_send_buffer_size s \<le> 2 * (TCP_HEADER_SIZE + TCP_MAX_PACKET_SIZE)"
  shows "ts_send_buffer_size s' \<le> 2 * (TCP_HEADER_SIZE + TCP_MAX_PACKET_SIZE)"
  using assms double_until_bound [of DEFAULT_SEND_BUFFER_SIZE needed]
    double_until_bound [of "ts_send_buffer_size s" needed]
  by (auto simp: ensure_buffer_size_def Let_def DEFAULT_SEND_BUFFER_SIZE_def protocol_consts
      split: if_splits)

section \<open>Frames\<close>

text \<open>A complete frame of a stream, and what the server reads out of it.\<close>

definition frame :: "u16 \<Rightarrow> u8 \<Rightarrow> u8 list \<Rightarrow> u8 list" where
  "frame sid t payload = sender_header (of_nat (TCP_HEADER_SIZE + length payload)) t sid @ payload"

lemma sender_header_bytes:
  assumes "n < 2 ^ 32"
  shows "sender_header (of_nat n) t sid =
     header_bytes \<lparr>ph_length = of_nat n, ph_type = t, ph_stream_id = sid\<rparr>"
proof -
  have "be32 (byte_at 24 (of_nat n :: u64)) (byte_at 16 (of_nat n :: u64))
      (byte_at 8 (of_nat n :: u64)) (byte_at 0 (of_nat n :: u64)) = (of_nat n :: u32)"
    using assms by (simp only: be32_byte_at_64 ucast_of_nat_32)
  then have "byte_at k (of_nat n :: u64) = byte_at k (of_nat n :: u32)" if "k \<in> {0, 8, 16, 24}" for k
    using that byte_at_be32 by (metis empty_iff insert_iff)
  then show ?thesis
    by (simp add: sender_header_def header_bytes_def put_be32_def masked_byte_at_eq)
qed

lemma stream_start_payload_bytes:
  "stream_start_payload c = stream_info_bytes
     \<lparr>si_width = tc_width c, si_height = tc_height c, si_fps = tc_fps c, si_bitrate = tc_bitrate c,
      si_codec = tc_codec c, si_chroma = tc_chroma c, si_bitdepth = tc_bitdepth c,
      si_video_format = tc_video_format c, si_color_space = tc_color_space c,
      si_color_range = tc_color_range c\<rparr>"
  by (simp add: stream_start_payload_def stream_info_bytes_def put_field_def put_be32_def
      masked_byte_at_eq)

lemma length_stream_start_payload [simp]: "length (stream_start_payload c) = 40"
  by (simp add: stream_start_payload_bytes)

section \<open>Runs of the sender\<close>

text \<open>
  The calls \<open>video_callbacks.c\<close> makes on a sender that was initialised. A run never calls
  \<open>tcp_sender_send_stream_stop\<close> on its own: it is reached through disconnect only.
\<close>

inductive sender_step :: "TcpSender \<times> net \<Rightarrow> TcpSender \<times> net \<Rightarrow> bool" where
  connect: "tcp_sender_connect e s w = Some (rc, s', w') \<Longrightarrow> sender_step (s, w) (s', w')"
| disconnect: "tcp_sender_disconnect s w = Some (s', w') \<Longrightarrow> sender_step (s, w) (s', w')"
| video: "tcp_sender_send_video ok data ft s w = Some (rc, s', w') \<Longrightarrow> sender_step (s, w) (s', w')"
| heartbeat: "tcp_sender_check_heartbeat now iv s w = Some (rc, s', w') \<Longrightarrow> sender_step (s, w) (s', w')"

inductive sender_reachable :: "TcpSenderConfig \<Rightarrow> TcpSender \<times> net \<Rightarrow> bool" for c where
  init: "tcp_sender_init True c s0 = (0, s) \<Longrightarrow> sender_reachable c (s, w)"
| step: "sender_reachable c p \<Longrightarrow> sender_step p q \<Longrightarrow> sender_reachable c q"

inductive_cases sender_stepE: "sender_step p q"

text \<open>The abstract view of the wire: the messages sent since the connection was made.\<close>

definition ok_msg :: "u8 \<times> u8 list \<Rightarrow> bool" where
  "ok_msg m \<longleftrightarrow> 1 \<le> unat (fst m) \<and> unat (fst m) \<le> 4 \<and> length (snd m) \<le> TCP_MAX_PACKET_SIZE"

definition frames_of :: "u16 \<Rightarrow> (u8 \<times> u8 list) list \<Rightarrow> u8 list" where
  "frames_of sid msgs = concat (map (\<lambda>m. frame sid (fst m) (snd m)) msgs)"

definition framed :: "TcpSenderConfig \<Rightarrow> u8 list \<Rightarrow> bool" where
  "framed c out \<longleftrightarrow> (\<exists>msgs. out = frames_of (tc_stream_id c)
      ((TCP_MSG_TYPE_STREAM_START, stream_start_payload c) # msgs) \<and> list_all ok_msg msgs)"

lemma framed_start: "framed c (frame (tc_stream_id c) TCP_MSG_TYPE_STREAM_START (stream_start_payload c))"
  unfolding framed_def by (rule exI [of _ "[]"]) (simp add: frames_of_def)

lemma framed_append:
  assumes "framed c out" and "ok_msg (t, p)"
  shows "framed c (out @ frame (tc_stream_id c) t p)"
proof -
  obtain msgs where "out = frames_of (tc_stream_id c)
      ((TCP_MSG_TYPE_STREAM_START, stream_start_payload c) # msgs)" "list_all ok_msg msgs"
    using assms(1) by (auto simp: framed_def)
  then show ?thesis
    unfolding framed_def using assms(2) by (intro exI [of _ "msgs @ [(t, p)]"]) (simp add: frames_of_def)
qed

definition sender_inv :: "TcpSenderConfig \<Rightarrow> TcpSender \<times> net \<Rightarrow> bool" where
  "sender_inv c p \<longleftrightarrow> (case p of (s, w) \<Rightarrow>
     ts_config s = c \<and> TCP_HEADER_SIZE + 40 \<le> ts_send_buffer_size s \<and>
     (ts_state s = TCP_STATE_CONNECTED \<longrightarrow> 0 \<le> ts_sock_fd s \<and> framed c (net_out w)))"

lemma ok_msg_types [simp]:
  "ok_msg (TCP_MSG_TYPE_HEARTBEAT, [])" "ok_msg (TCP_MSG_TYPE_STREAM_STOP, [])"
  "length d \<le> TCP_MAX_PACKET_SIZE \<Longrightarrow> ok_msg (TCP_MSG_TYPE_VIDEO_DATA, d)"
  by (simp_all add: ok_msg_def protocol_consts)

lemma frame_nil: "frame sid t [] = sender_header (of_nat TCP_HEADER_SIZE) t sid"
  by (simp add: frame_def)

lemma ensure_buffer_size_mono:
  assumes "ensure_buffer_size ok needed s = (rc, s')"
  shows "ts_send_buffer_size s \<le> ts_send_buffer_size s'"
  using assms double_until_ge [of DEFAULT_SEND_BUFFER_SIZE needed]
    double_until_ge [of "ts_send_buffer_size s" needed]
  by (auto simp: ensure_buffer_size_def Let_def DEFAULT_SEND_BUFFER_SIZE_def split: if_splits)

lemma ensure_buffer_size_id:
  "needed \<le> ts_send_buffer_size s \<Longrightarrow> ensure_buffer_size ok needed s = (0, s)"
  by (simp add: ensure_buffer_size_def)

lemma send_video_inv:
  assumes "tcp_sender_send_video ok data ft s w = Some (rc, s', w')" and "sender_inv c (s, w)"
  shows "sender_inv c (s', w')"
proof (cases "\<exists>d. data = Some d \<and> d \<noteq> [] \<and> ts_state s = TCP_STATE_CONNECTED \<and>
    length d \<le> TCP_MAX_PACKET_SIZE")
  case False
  then show ?thesis
    using assms by (auto simp: tcp_sender_send_video_def sender_inv_def split: option.splits if_splits)
next
  case True
  then obtain d where d: "data = Some d" "d \<noteq> []" "ts_state s = TCP_STATE_CONNECTED"
    "length d \<le> TCP_MAX_PACKET_SIZE" by auto
  obtain r1 s1 where e: "ensure_buffer_size ok (TCP_HEADER_SIZE + length d) s = (r1, s1)"
    by force
  note ec = ensure_buffer_size_cases [OF e] ensure_buffer_size_mono [OF e]
  let ?buf = "frame (tc_stream_id c) TCP_MSG_TYPE_VIDEO_DATA d"
  have c: "ts_config s = c" "ts_config s1 = c"
    using assms(2) ec by (simp_all add: sender_inv_def)
  show ?thesis
  proof (cases "r1 < 0")
    case True
    then show ?thesis
      using assms d e ec by (auto simp: tcp_sender_send_video_def sender_inv_def)
  next
    case False
    then obtain r2 w2 where send: "send_all ?buf w = Some (r2, w2)"
      using assms(1) d e c by (auto simp: tcp_sender_send_video_def frame_def Let_def split: option.splits)
    have fr: "framed c (net_out w)" using assms(2) d by (simp add: sender_inv_def)
    show ?thesis
    proof (cases "r2 < 0")
      case True
      then show ?thesis
        using assms d e c ec send False
        by (auto simp: tcp_sender_send_video_def sender_inv_def frame_def Let_def)
    next
      case ok: False
      have "framed c (net_out w2)"
        using send_all_ok(2) [OF send ok] framed_append [OF fr, of TCP_MSG_TYPE_VIDEO_DATA d] d(4)
        by simp
      then show ?thesis
        using assms d e c ec send False ok
        by (auto simp: tcp_sender_send_video_def sender_inv_def frame_def Let_def)
    qed
  qed
qed

lemma send_heartbeat_inv:
  assumes "tcp_sender_send_heartbeat now s w = Some (rc, s', w')" and "sender_inv c (s, w)"
  shows "sender_inv c (s', w')"
proof -
  let ?buf = "frame (tc_stream_id c) TCP_MSG_TYPE_HEARTBEAT []"
  have "framed c (net_out w2)"
    if "send_all ?buf w = Some (r2, w2)" "\<not> r2 < 0" "ts_state s = TCP_STATE_CONNECTED" for r2 w2
    using that send_all_ok(2) [OF that(1,2)] assms(2) framed_append [of c "net_out w"]
    by (simp add: sender_inv_def)
  then show ?thesis
    using assms
    by (auto simp: tcp_sender_send_heartbeat_def sender_inv_def Let_def frame_nil
        split: option.splits if_splits)
qed

lemma check_heartbeat_inv:
  assumes "tcp_sender_check_heartbeat now iv s w = Some (rc, s', w')" and "sender_inv c (s, w)"
  shows "sender_inv c (s', w')"
  using assms send_heartbeat_inv by (auto simp: tcp_sender_check_heartbeat_def split: if_splits)

lemma connect_inv:
  assumes "tcp_sender_connect e s w = Some (rc, s', w')" and "sender_inv c (s, w)"
  shows "sender_inv c (s', w')"
proof -
  have start: "sender_inv c (s4, w4)"
    if s3: "ts_config s3 = c" "TCP_HEADER_SIZE + 40 \<le> ts_send_buffer_size s3"
      "0 \<le> ts_sock_fd s3" "net_out w3 = []"
      "tcp_sender_send_stream_start ok s3 w3 = Some (r, s4, w4)"
      "ts_state s3 = TCP_STATE_CONNECTED" for ok s3 w3 r s4 w4
  proof -
    let ?buf = "frame (tc_stream_id c) TCP_MSG_TYPE_STREAM_START (stream_start_payload c)"
    have "framed c (net_out w2)"
      if "send_all ?buf w3 = Some (r2, w2)" "\<not> r2 < 0" for r2 w2
      using that send_all_ok(2) [OF that(1,2)] s3(4) framed_start by simp
    then show ?thesis
      using s3 by (auto simp: tcp_sender_send_stream_start_def sender_inv_def Let_def frame_def
          ensure_buffer_size_id split: option.splits if_splits)
  qed
  show ?thesis
  proof (cases "ts_state s = TCP_STATE_CONNECTED")
    case True
    then show ?thesis using assms by (simp add: tcp_sender_connect_def)
  next
    case False
    then show ?thesis
      using assms
      by (auto simp: tcp_sender_connect_def Let_def connect_failed_def sender_inv_def
          split: if_splits option.splits dest!: start [rotated 4])
  qed
qed

lemma disconnect_inv:
  assumes "tcp_sender_disconnect s w = Some (s', w')" and "sender_inv c (s, w)"
  shows "sender_inv c (s', w')"
  using assms
  by (auto simp: tcp_sender_disconnect_def tcp_sender_send_stream_stop_def sender_inv_def Let_def
      split: option.splits if_splits)

lemma sender_step_inv: "sender_step p q \<Longrightarrow> sender_inv c p \<Longrightarrow> sender_inv c q"
  by (induction rule: sender_step.induct)
    (auto intro: connect_inv disconnect_inv send_video_inv check_heartbeat_inv)

lemma sender_reachable_inv: "sender_reachable c p \<Longrightarrow> sender_inv c p"
proof (induction rule: sender_reachable.induct)
  case (init s0 s w)
  then show ?case
    by (auto simp: tcp_sender_init_def sender_inv_def zero_sender_def Let_def protocol_consts
        DEFAULT_SEND_BUFFER_SIZE_def split: if_splits)
next
  case (step p q)
  then show ?case by (blast intro: sender_step_inv)
qed

end
