(* ===== verification/SenderWire.thy ===== *)
theory SenderWire
  imports TcpSender
begin

text \<open>
  What the sender of \<open>ml_worker\<close> puts on the wire: the round trips of the two formats
  of \<open>protocol.c\<close> and \<open>tcp_sender.c\<close>, the termination of the send loop, and the bytes of
  a connection as a sequence of frames.
\<close>

section \<open>The wire format\<close>

text \<open>a header that the builder writes is read back by the parser, or refused exactly when
  a field is out of the range the protocol allows; the length is the 32-bit sum.\<close>

theorem header_roundtrip:
  "protocol_parse_header (Some (protocol_build_header t sid n @ rest)) =
     (if 7 \<le> unat (7 + n) \<and> unat (7 + n) \<le> 10485760 \<and> 1 \<le> unat t \<and> unat t \<le> 4 \<and>
         1 \<le> unat sid \<and> unat sid \<le> 256
      then Some \<lparr>ph_length = 7 + n, ph_type = t, ph_stream_id = sid\<rparr> else None)"
  unfolding build_header_bytes parse_header_bytes
  by (simp add: header_ok_def TCP_HEADER_SIZE_def TCP_MAX_PACKET_SIZE_def MAX_STREAMS_def)

text \<open>the payload of STREAM_START is read back field by field by the server.\<close>

theorem stream_start_roundtrip:
  "protocol_parse_stream_info (Some (stream_start_payload c)) (length (stream_start_payload c)) = Some
     \<lparr>si_width = tc_width c, si_height = tc_height c, si_fps = tc_fps c, si_bitrate = tc_bitrate c,
      si_codec = tc_codec c, si_chroma = tc_chroma c, si_bitdepth = tc_bitdepth c,
      si_video_format = tc_video_format c, si_color_space = tc_color_space c,
      si_color_range = tc_color_range c\<rparr>"
  using parse_stream_info_bytes [of _ "[]" 0] by (simp add: stream_start_payload_bytes)

text \<open>C32: the send loop ends: as long as the call is not interrupted, 101 answers of the kernel
  for each byte and 100 more are enough, and the result is 0 exactly when every byte went out.\<close>

theorem send_all_returns:
  assumes "SendEINTR \<notin> set (net_answers w)" and "length data * 101 + 100 \<le> length (net_answers w)"
  shows "\<exists>rc w'. send_all data w = Some (rc, w') \<and> net_closed w' = net_closed w \<and>
    (rc = 0 \<and> net_out w' = net_out w @ data \<or>
     rc = - 1 \<and> (\<exists>k < length data. net_out w' = net_out w @ take k data))"
proof -
  have "send_loop (net_answers w) data 0 0 (net_out w) \<noteq> None"
    using assms by (intro send_loop_returns) (simp_all add: SEND_MAX_RETRIES_def)
  then obtain rc out rest where l: "send_loop (net_answers w) data 0 0 (net_out w) = Some (rc, out, rest)"
    by auto
  show ?thesis using send_loop_result [OF l] l by (auto simp: send_all_def)
qed

theorem send_all_returns_witness:
  "\<exists>rc w'. send_all [7 :: u8] \<lparr>net_out = [], net_answers = replicate 201 SendEAGAIN, net_closed = []\<rparr> = Some (rc, w') \<and>
     net_closed w' = []"
  using send_all_returns [of "\<lparr>net_out = [], net_answers = replicate 201 SendEAGAIN, net_closed = []\<rparr>" "[7]"]
  by auto

section \<open>The sender\<close>

lemma connect_wire:
  assumes "tcp_sender_connect e s w = Some (rc, s', w')" and "ts_state s \<noteq> TCP_STATE_CONNECTED"
    and "ts_state s' = TCP_STATE_CONNECTED" and "TCP_HEADER_SIZE + 40 \<le> ts_send_buffer_size s"
  shows "net_out w' = frame (tc_stream_id (ts_config s)) TCP_MSG_TYPE_STREAM_START
            (stream_start_payload (ts_config s))"
    and "ts_config s' = ts_config s"
proof -
  have start: "net_out w4 = frame (tc_stream_id (ts_config s3)) TCP_MSG_TYPE_STREAM_START
        (stream_start_payload (ts_config s3)) \<and> ts_config s4 = ts_config s3"
    if "tcp_sender_send_stream_start ok s3 w3 = Some (r, s4, w4)" "net_out w3 = []"
      "TCP_HEADER_SIZE + 40 \<le> ts_send_buffer_size s3" "ts_state s3 = TCP_STATE_CONNECTED"
      "ts_state s4 = TCP_STATE_CONNECTED" for ok s3 w3 r s4 w4
  proof -
    let ?buf = "frame (tc_stream_id (ts_config s3)) TCP_MSG_TYPE_STREAM_START
        (stream_start_payload (ts_config s3))"
    have "net_out w2 = ?buf" if "send_all ?buf w3 = Some (r2, w2)" "\<not> r2 < 0" for r2 w2
      using send_all_ok(2) [OF that] \<open>net_out w3 = []\<close> by simp
    then show ?thesis using that
      by (auto simp: tcp_sender_send_stream_start_def Let_def frame_def ensure_buffer_size_id
          split: option.splits if_splits)
  qed
  have "net_out w' = frame (tc_stream_id (ts_config s)) TCP_MSG_TYPE_STREAM_START
            (stream_start_payload (ts_config s)) \<and> ts_config s' = ts_config s"
    using assms
    by (auto simp: tcp_sender_connect_def Let_def connect_failed_def
        split: if_splits option.splits dest!: start)
  then show "net_out w' = frame (tc_stream_id (ts_config s)) TCP_MSG_TYPE_STREAM_START
            (stream_start_payload (ts_config s))" "ts_config s' = ts_config s" by simp_all
qed

lemma send_video_wire:
  assumes "tcp_sender_send_video ok (Some d) ft s w = Some (0, s', w')"
  shows "net_out w' = net_out w @ frame (tc_stream_id (ts_config s)) TCP_MSG_TYPE_VIDEO_DATA d"
    and "ts_config s' = ts_config s" and "ts_state s' = TCP_STATE_CONNECTED"
proof -
  obtain r1 s1 where e: "ensure_buffer_size ok (TCP_HEADER_SIZE + length d) s = (r1, s1)" by force
  note ec = ensure_buffer_size_cases [OF e]
  have "net_out w' = net_out w @ frame (tc_stream_id (ts_config s)) TCP_MSG_TYPE_VIDEO_DATA d \<and>
      ts_config s' = ts_config s \<and> ts_state s' = TCP_STATE_CONNECTED"
    using assms e ec send_all_ok(2)
    by (auto simp: tcp_sender_send_video_def Let_def frame_def split: if_splits option.splits)
  then show "net_out w' = net_out w @ frame (tc_stream_id (ts_config s)) TCP_MSG_TYPE_VIDEO_DATA d"
    "ts_config s' = ts_config s" "ts_state s' = TCP_STATE_CONNECTED" by simp_all
qed

text \<open>Frames sent one after the other, each call answered with 0.\<close>

fun send_videos :: "u8 list list \<Rightarrow> TcpSender \<Rightarrow> net \<Rightarrow> (TcpSender \<times> net) option" where
  "send_videos [] s w = Some (s, w)"
| "send_videos (d # ds) s w =
     (case tcp_sender_send_video True (Some d) 0 s w of
        Some (rc, s', w') \<Rightarrow> if rc = 0 then send_videos ds s' w' else None
      | None \<Rightarrow> None)"

lemma send_videos_wire:
  assumes "send_videos ds s w = Some (s', w')"
  shows "net_out w' = net_out w @
    frames_of (tc_stream_id (ts_config s)) (map (Pair TCP_MSG_TYPE_VIDEO_DATA) ds)"
  using assms
proof (induction ds arbitrary: s w)
  case (Cons d ds)
  obtain s1 w1 where 1: "tcp_sender_send_video True (Some d) 0 s w = Some (0, s1, w1)"
    "send_videos ds s1 w1 = Some (s', w')"
    using Cons.prems by (auto split: option.splits if_splits)
  show ?case
    using Cons.IH [OF 1(2)] send_video_wire [OF 1(1)] by (simp add: frames_of_def)
qed (simp add: frames_of_def)

text \<open>C19: on a live connection everything the kernel took since the connection was made is a
  sequence of whole frames of this sender's stream, the first one STREAM_START with its
  configuration; a failed or partial send ends the connection's use.\<close>

theorem sender_wire_framed:
  assumes "sender_reachable c (s, w)" and "ts_state s = TCP_STATE_CONNECTED"
  shows "0 \<le> ts_sock_fd s \<and> (\<exists>msgs. list_all ok_msg msgs \<and>
    net_out w = frames_of (tc_stream_id c) ((TCP_MSG_TYPE_STREAM_START, stream_start_payload c) # msgs))"
  using sender_reachable_inv [OF assms(1)] assms(2) by (auto simp: sender_inv_def framed_def)

definition ex_config :: TcpSenderConfig where
  "ex_config = empty_config\<lparr>tc_host := ''127.0.0.1'', tc_port := 9000, tc_stream_id := 3\<rparr>"

definition ex_connect_env :: connect_env where
  "ex_connect_env = \<lparr>ce_socket = 5, ce_pton = 1, ce_dns = False, ce_connect = ConnOk, ce_select = 0,
     ce_so_error = 0, ce_now = 1000, ce_alloc_ok = True\<rparr>"

definition ex_sender :: TcpSender where
  "ex_sender = zero_sender\<lparr>ts_config := ex_config, ts_has_buffer := True,
     ts_send_buffer_size := DEFAULT_SEND_BUFFER_SIZE\<rparr>"

definition ex_connected :: TcpSender where
  "ex_connected = ex_sender\<lparr>ts_sock_fd := 5, ts_state := TCP_STATE_CONNECTED,
     ts_connect_time_ns := 1000, ts_last_heartbeat_ns := 1000\<rparr>"

definition net_of :: "u8 list \<Rightarrow> send_answer list \<Rightarrow> net" where
  "net_of out as = \<lparr>net_out = out, net_answers = as, net_closed = []\<rparr>"

lemma send_all_at_once:
  assumes "d \<noteq> []"
  shows "send_all d (net_of out (SendN (length d) # as)) = Some (0, net_of (out @ d) as)"
  using assms by (cases as) (simp_all add: send_all_def net_of_def SEND_MAX_RETRIES_def)

lemma ex_init: "tcp_sender_init True ex_config s0 = (0, ex_sender)"
  by (simp add: tcp_sender_init_def ex_sender_def ex_config_def)

lemma ex_connect:
  "tcp_sender_connect ex_connect_env ex_sender (net_of [] (SendN 47 # as)) =
     Some (0, ex_connected, net_of (frame 3 TCP_MSG_TYPE_STREAM_START (stream_start_payload ex_config)) as)"
proof -
  let ?f = "frame 3 TCP_MSG_TYPE_STREAM_START (stream_start_payload ex_config)"
  have len: "length ?f = 47" by (simp add: frame_def sender_header_def)
  have "?f \<noteq> []" using len by force
  from send_all_at_once [OF this, of "[]" as]
  have send: "send_all ?f (net_of [] (SendN 47 # as)) = Some (0, net_of ?f as)" by (simp add: len)
  have up: "net_of [] (SendN 47 # as)\<lparr>net_out := []\<rparr> = net_of [] (SendN 47 # as)"
    by (simp add: net_of_def)
  show ?thesis
    using send up
    by (simp add: tcp_sender_connect_def ex_connect_env_def ex_sender_def zero_sender_def Let_def
        tcp_sender_send_stream_start_def ensure_buffer_size_id DEFAULT_SEND_BUFFER_SIZE_def
        TCP_HEADER_SIZE_def frame_def ex_connected_def ex_config_def)
qed

theorem sender_wire_framed_witness:
  "\<exists>w. sender_reachable ex_config (ex_connected, w) \<and>
     (\<exists>msgs. net_out w = frames_of 3 ((TCP_MSG_TYPE_STREAM_START, stream_start_payload ex_config) # msgs))"
proof -
  let ?w = "net_of (frame 3 TCP_MSG_TYPE_STREAM_START (stream_start_payload ex_config)) []"
  have r: "sender_reachable ex_config (ex_connected, ?w)"
    by (rule sender_reachable.step [OF sender_reachable.init [OF ex_init] sender_step.connect [OF ex_connect]])
  have "ts_state ex_connected = TCP_STATE_CONNECTED" by (simp add: ex_connected_def)
  from sender_wire_framed [OF r this] show ?thesis
    using r by (auto simp: ex_config_def)
qed

text \<open>the sender's size limit is seven bytes too large: a payload in the last seven bytes
  of the allowance is sent as a whole and reported as success, and the header on the wire is
  one that the server's parser refuses.\<close>

theorem oversize_frame_refused:
  assumes "tcp_sender_send_video ok (Some d) ft s w = Some (0, s', w')"
    and "TCP_MAX_PACKET_SIZE < TCP_HEADER_SIZE + length d"
  shows "\<exists>out. net_out w' = net_out w @ out \<and> protocol_parse_header (Some out) = None"
proof -
  have "length d \<le> TCP_MAX_PACKET_SIZE"
    using assms(1) by (auto simp: tcp_sender_send_video_def split: if_splits)
  then have l: "TCP_HEADER_SIZE + length d < 2 ^ 32" by (simp add: protocol_consts)
  then have "unat (of_nat (TCP_HEADER_SIZE + length d) :: u32) = TCP_HEADER_SIZE + length d"
    by (intro unat_of_nat_32) simp
  then have "protocol_parse_header (Some (frame (tc_stream_id (ts_config s)) TCP_MSG_TYPE_VIDEO_DATA d)) = None"
    using assms(2) unfolding frame_def sender_header_bytes [OF l] parse_header_bytes
    by (simp add: header_ok_def)
  then show ?thesis using send_video_wire(1) [OF assms(1)] by blast
qed

lemma send_video_at_once:
  assumes "ts_state s = TCP_STATE_CONNECTED" "d \<noteq> []" "length d \<le> TCP_MAX_PACKET_SIZE"
  shows "\<exists>s'. tcp_sender_send_video True (Some d) ft s (net_of out (SendN (7 + length d) # as)) =
    Some (0, s', net_of (out @ frame (tc_stream_id (ts_config s)) TCP_MSG_TYPE_VIDEO_DATA d) as)"
proof -
  obtain r1 s1 where e: "ensure_buffer_size True (TCP_HEADER_SIZE + length d) s = (r1, s1)" by force
  note ec = ensure_buffer_size_cases [OF e]
  let ?f = "frame (tc_stream_id (ts_config s)) TCP_MSG_TYPE_VIDEO_DATA d"
  have f: "?f \<noteq> []" "length ?f = 7 + length d" by (simp_all add: frame_def sender_header_def)
  show ?thesis
    using assms e ec send_all_at_once [OF f(1), of out as] f(2)
    by (auto simp: tcp_sender_send_video_def Let_def frame_def)
qed

theorem oversize_frame_refused_witness:
  "\<exists>d s' w' out. length d = 10 * 1024 * 1024 \<and>
     tcp_sender_send_video True (Some d) 0 ex_connected (net_of [] [SendN (7 + 10 * 1024 * 1024)]) = Some (0, s', w') \<and>
     net_out w' = out \<and> protocol_parse_header (Some out) = None"
proof -
  define d where "d = replicate (10 * 1024 * 1024) (0 :: u8)"
  have l: "length d = 10 * 1024 * 1024" by (simp only: d_def length_replicate)
  then have "d \<noteq> []" by auto
  then obtain s' where r: "tcp_sender_send_video True (Some d) 0 ex_connected
      (net_of [] [SendN (7 + 10 * 1024 * 1024)]) = Some (0, s', net_of ([] @ frame 3 TCP_MSG_TYPE_VIDEO_DATA d) [])"
    using send_video_at_once [of ex_connected d 0 "[]" "[]"] l
    by (auto simp: ex_connected_def ex_sender_def ex_config_def TCP_MAX_PACKET_SIZE_def)
  from oversize_frame_refused [OF r] l
  have "\<exists>out. net_out (net_of (frame 3 TCP_MSG_TYPE_VIDEO_DATA d) []) = net_out (net_of [] [SendN (7 + 10 * 1024 * 1024)]) @ out \<and>
      protocol_parse_header (Some out) = None"
    by (auto simp: TCP_MAX_PACKET_SIZE_def TCP_HEADER_SIZE_def)
  with r l show ?thesis by (auto simp: net_of_def)
qed

end
