(* ===== verification/Worker.thy ===== *)
theory Worker
  imports TcpSender
begin

text \<open>
  The video side of \<open>ml_worker\<close> (\<open>src/video_callbacks.c\<close>, \<open>src/connection_callbacks.c\<close>,
  \<open>include/video_callbacks.h\<close>, \<open>include/worker_defs.h\<close>): format negotiation, the decode
  unit callback that gathers the fragments of a frame and pushes them to the sender, the
  reconnect throttle and the counters. The file's globals are the record \<open>worker\<close>; clock
  readings, allocator and connection answers are the record \<open>worker_env\<close>.
\<close>

section \<open>Fatal codes and configuration\<close>

definition WORKER_FATAL_NONE :: int where "WORKER_FATAL_NONE = 0"
definition WORKER_FATAL_CONNECTION_TERMINATED :: int where "WORKER_FATAL_CONNECTION_TERMINATED = 1"
definition WORKER_FATAL_TCP_CONNECT :: int where "WORKER_FATAL_TCP_CONNECT = 5"
definition WORKER_FATAL_TCP_SEND :: int where "WORKER_FATAL_TCP_SEND = 6"
definition WORKER_FATAL_NEGOTIATION_MISMATCH :: int where "WORKER_FATAL_NEGOTIATION_MISMATCH = 8"

lemmas worker_fatal_defs = WORKER_FATAL_NONE_def WORKER_FATAL_CONNECTION_TERMINATED_def
  WORKER_FATAL_TCP_CONNECT_def WORKER_FATAL_TCP_SEND_def WORKER_FATAL_NEGOTIATION_MISMATCH_def

text \<open>\<open>fatal_code\<close> is a pointer: None when it is NULL, else the value it points to.\<close>

record WorkerRenderConfig =
  wc_tcp_host :: string
  wc_tcp_port :: u16
  wc_stream_id :: u16
  wc_width :: u32
  wc_height :: u32
  wc_fps :: u32
  wc_bitrate :: u32
  wc_video_format :: u32
  wc_codec :: u32
  wc_chroma :: u32
  wc_bitdepth :: u32
  wc_color_space :: u32
  wc_color_range :: u32
  wc_fatal_code :: "int option"

record worker =
  w_sender :: TcpSender
  w_net :: net
  w_tcp_initialized :: bool
  w_cfg :: "WorkerRenderConfig option"
  w_frame_buffer_size :: nat
  w_stats_last_ns :: u64
  w_frames_received :: u64
  w_frames_sent :: u64
  w_bytes_sent :: u64
  w_total_delay_ns :: u64
  w_max_delay_ns :: u64
  w_delay_samples :: u64
  w_last_reconnect_ns :: u64

record worker_env =
  en_receive_time :: u64
  en_heartbeat_now :: u64
  en_reconnect_now :: u64
  en_connect :: connect_env
  en_connect_failed_now :: u64
  en_frame_alloc_ok :: bool
  en_send_alloc_ok :: bool
  en_send_complete_time :: u64
  en_report_now :: u64

section \<open>Format negotiation\<close>

definition VIDEO_FORMAT_H264 :: int where "VIDEO_FORMAT_H264 = 0x0001"
definition VIDEO_FORMAT_H264_HIGH8_444 :: int where "VIDEO_FORMAT_H264_HIGH8_444 = 0x0004"
definition VIDEO_FORMAT_H265 :: int where "VIDEO_FORMAT_H265 = 0x0100"
definition VIDEO_FORMAT_H265_MAIN10 :: int where "VIDEO_FORMAT_H265_MAIN10 = 0x0200"
definition VIDEO_FORMAT_H265_REXT8_444 :: int where "VIDEO_FORMAT_H265_REXT8_444 = 0x0400"
definition VIDEO_FORMAT_H265_REXT10_444 :: int where "VIDEO_FORMAT_H265_REXT10_444 = 0x0800"
definition VIDEO_FORMAT_AV1_MAIN8 :: int where "VIDEO_FORMAT_AV1_MAIN8 = 0x1000"
definition VIDEO_FORMAT_AV1_MAIN10 :: int where "VIDEO_FORMAT_AV1_MAIN10 = 0x2000"
definition VIDEO_FORMAT_AV1_HIGH8_444 :: int where "VIDEO_FORMAT_AV1_HIGH8_444 = 0x4000"
definition VIDEO_FORMAT_AV1_HIGH10_444 :: int where "VIDEO_FORMAT_AV1_HIGH10_444 = 0x8000"

definition VIDEO_FORMAT_MASK_H264 :: int where "VIDEO_FORMAT_MASK_H264 = 0x000F"
definition VIDEO_FORMAT_MASK_H265 :: int where "VIDEO_FORMAT_MASK_H265 = 0x0F00"
definition VIDEO_FORMAT_MASK_AV1 :: int where "VIDEO_FORMAT_MASK_AV1 = 0xF000"
definition VIDEO_FORMAT_MASK_10BIT :: int where "VIDEO_FORMAT_MASK_10BIT = 0xAA00"
definition VIDEO_FORMAT_MASK_YUV444 :: int where "VIDEO_FORMAT_MASK_YUV444 = 0xCC04"

lemmas video_format_defs =
  VIDEO_FORMAT_H264_def VIDEO_FORMAT_H264_HIGH8_444_def VIDEO_FORMAT_H265_def
  VIDEO_FORMAT_H265_MAIN10_def VIDEO_FORMAT_H265_REXT8_444_def VIDEO_FORMAT_H265_REXT10_444_def
  VIDEO_FORMAT_AV1_MAIN8_def VIDEO_FORMAT_AV1_MAIN10_def VIDEO_FORMAT_AV1_HIGH8_444_def
  VIDEO_FORMAT_AV1_HIGH10_444_def VIDEO_FORMAT_MASK_H264_def VIDEO_FORMAT_MASK_H265_def
  VIDEO_FORMAT_MASK_AV1_def VIDEO_FORMAT_MASK_10BIT_def VIDEO_FORMAT_MASK_YUV444_def

definition video_format_name :: "int \<Rightarrow> string" where
  "video_format_name videoFormat =
     (if videoFormat = VIDEO_FORMAT_H264 then ''h264''
      else if videoFormat = VIDEO_FORMAT_H264_HIGH8_444 then ''h264_high8_444''
      else if videoFormat = VIDEO_FORMAT_H265 then ''hevc''
      else if videoFormat = VIDEO_FORMAT_H265_MAIN10 then ''hevc_main10''
      else if videoFormat = VIDEO_FORMAT_H265_REXT8_444 then ''hevc_rext8_444''
      else if videoFormat = VIDEO_FORMAT_H265_REXT10_444 then ''hevc_rext10_444''
      else if videoFormat = VIDEO_FORMAT_AV1_MAIN8 then ''av1_main8''
      else if videoFormat = VIDEO_FORMAT_AV1_MAIN10 then ''av1_main10''
      else if videoFormat = VIDEO_FORMAT_AV1_HIGH8_444 then ''av1_high8_444''
      else if videoFormat = VIDEO_FORMAT_AV1_HIGH10_444 then ''av1_high10_444''
      else ''unknown'')"

definition stream_codec_name :: "u32 \<Rightarrow> string" where
  "stream_codec_name codec =
     (if codec = 0 then ''h264'' else if codec = 1 then ''hevc''
      else if codec = 2 then ''av1'' else ''unknown'')"

definition stream_chroma_name :: "u32 \<Rightarrow> string" where
  "stream_chroma_name chroma =
     (if chroma = 0 then ''420'' else if chroma = 1 then ''444'' else ''unknown'')"

text \<open>The result is \<open>(codec, chroma, bitdepth)\<close>, None for the error return.\<close>

definition video_format_to_stream_metadata :: "int \<Rightarrow> (u32 \<times> u32 \<times> u32) option" where
  "video_format_to_stream_metadata videoFormat =
     (if videoFormat = VIDEO_FORMAT_H264 then Some (0, 0, 8)
      else if videoFormat = VIDEO_FORMAT_H264_HIGH8_444 then Some (0, 1, 8)
      else if videoFormat = VIDEO_FORMAT_H265 then Some (1, 0, 8)
      else if videoFormat = VIDEO_FORMAT_H265_MAIN10 then Some (1, 0, 10)
      else if videoFormat = VIDEO_FORMAT_H265_REXT8_444 then Some (1, 1, 8)
      else if videoFormat = VIDEO_FORMAT_H265_REXT10_444 then Some (1, 1, 10)
      else if videoFormat = VIDEO_FORMAT_AV1_MAIN8 then Some (2, 0, 8)
      else if videoFormat = VIDEO_FORMAT_AV1_MAIN10 then Some (2, 0, 10)
      else if videoFormat = VIDEO_FORMAT_AV1_HIGH8_444 then Some (2, 1, 8)
      else if videoFormat = VIDEO_FORMAT_AV1_HIGH10_444 then Some (2, 1, 10)
      else None)"

section \<open>Callbacks\<close>

definition set_fatal_code :: "int \<Rightarrow> int option \<Rightarrow> int option" where
  "set_fatal_code code p = (case p of
     Some v \<Rightarrow> if v = WORKER_FATAL_NONE then Some code else Some v
   | None \<Rightarrow> None)"

definition set_fatal_once :: "int \<Rightarrow> worker \<Rightarrow> worker" where
  "set_fatal_once code w =
     w\<lparr>w_cfg := map_option (\<lambda>c. c\<lparr>wc_fatal_code := set_fatal_code code (wc_fatal_code c)\<rparr>) (w_cfg w)\<rparr>"

text \<open>\<open>connection_callbacks.c\<close> keeps its own pointer to the same cell.\<close>

definition connection_terminated :: "int \<Rightarrow> int option \<Rightarrow> int option" where
  "connection_terminated errorCode p = set_fatal_code WORKER_FATAL_CONNECTION_TERMINATED p"

definition ensure_frame_buffer :: "bool \<Rightarrow> nat \<Rightarrow> worker \<Rightarrow> int \<times> worker" where
  "ensure_frame_buffer alloc_ok needed w =
     (if w_frame_buffer_size w \<ge> needed then (0, w)
      else
        let start = (if w_frame_buffer_size w \<noteq> 0 then w_frame_buffer_size w else 1024 * 1024);
            new_size = double_until start needed
        in if \<not> alloc_ok then (- 1, w) else (0, w\<lparr>w_frame_buffer_size := new_size\<rparr>))"

definition maybe_report_stats :: "u64 \<Rightarrow> worker \<Rightarrow> worker" where
  "maybe_report_stats now w =
     (if w_stats_last_ns w = 0 then w\<lparr>w_stats_last_ns := now\<rparr>
      else if now - w_stats_last_ns w \<ge> 1000000000 then
        w\<lparr>w_stats_last_ns := now, w_frames_received := 0, w_frames_sent := 0,
          w_bytes_sent := 0, w_total_delay_ns := 0, w_max_delay_ns := 0, w_delay_samples := 0\<rparr>
      else w)"

definition RECONNECT_INTERVAL_NS :: u64 where
  "RECONNECT_INTERVAL_NS = 3 * 1000000000"

text \<open>The connection attempt at the end of \<open>ensure_connected\<close>.\<close>

definition try_connect :: "worker_env \<Rightarrow> worker \<Rightarrow> (int \<times> worker) option" where
  "try_connect e w =
     (case tcp_sender_connect (en_connect e) (w_sender w) (w_net w) of
        None \<Rightarrow> None
      | Some (rc, s, n) \<Rightarrow>
          let w1 = w\<lparr>w_sender := s, w_net := n\<rparr> in
          if rc < 0 then Some (- 1, w1\<lparr>w_last_reconnect_ns := en_connect_failed_now e\<rparr>)
          else Some (0, w1))"

definition ensure_connected :: "worker_env \<Rightarrow> worker \<Rightarrow> (int \<times> worker) option" where
  "ensure_connected e w =
     (if \<not> w_tcp_initialized w then Some (- 1, w)
      else if ts_state (w_sender w) = TCP_STATE_CONNECTED then
        (case tcp_sender_check_heartbeat (en_heartbeat_now e) HEARTBEAT_INTERVAL_NS
                (w_sender w) (w_net w) of
           None \<Rightarrow> None
         | Some (_, s, n) \<Rightarrow> Some (0, w\<lparr>w_sender := s, w_net := n\<rparr>))
      else if ts_state (w_sender w) = TCP_STATE_ERROR then
        (if en_reconnect_now e - w_last_reconnect_ns w < RECONNECT_INTERVAL_NS then Some (- 1, w)
         else case tcp_sender_disconnect (w_sender w) (w_net w) of
                None \<Rightarrow> None
              | Some (s, n) \<Rightarrow> try_connect e (w\<lparr>w_sender := s, w_net := n\<rparr>))
      else try_connect e w)"

definition sender_config_of :: "WorkerRenderConfig \<Rightarrow> int \<Rightarrow> u32 \<times> u32 \<times> u32 \<Rightarrow> int \<Rightarrow> int \<Rightarrow> TcpSenderConfig"
where
  "sender_config_of cfg videoFormat m width height = (case m of (codec, chroma, bitdepth) \<Rightarrow>
     \<lparr> tc_host = take 255 (if wc_tcp_host cfg \<noteq> [] then wc_tcp_host cfg else ''127.0.0.1''),
       tc_port = (if wc_tcp_port cfg \<noteq> 0 then wc_tcp_port cfg else 9000),
       tc_stream_id = (if wc_stream_id cfg \<noteq> 0 then wc_stream_id cfg else 1),
       tc_width = word_of_int width, tc_height = word_of_int height,
       tc_fps = (if wc_fps cfg \<noteq> 0 then wc_fps cfg else 60),
       tc_bitrate = (if wc_bitrate cfg \<noteq> 0 then wc_bitrate cfg else 10000),
       tc_codec = codec, tc_chroma = chroma, tc_bitdepth = bitdepth,
       tc_video_format = word_of_int videoFormat,
       tc_color_space = wc_color_space cfg, tc_color_range = wc_color_range cfg \<rparr>)"

text \<open>
  \<open>alloc_ok\<close> answers the allocation in \<open>tcp_sender_init\<close>, \<open>now\<close> the clock read at the end.
\<close>

definition worker_setup ::
  "bool \<Rightarrow> connect_env \<Rightarrow> u64 \<Rightarrow> int \<Rightarrow> int \<Rightarrow> int \<Rightarrow> WorkerRenderConfig option \<Rightarrow> worker \<Rightarrow>
   (int \<times> worker) option" where
  "worker_setup alloc_ok ce now videoFormat width height context w0 =
     (let w = w0\<lparr>w_cfg := context\<rparr> in
      case context of None \<Rightarrow> Some (- 1, w) | Some cfg \<Rightarrow>
      case video_format_to_stream_metadata videoFormat of
        None \<Rightarrow> Some (- 1, set_fatal_once WORKER_FATAL_NEGOTIATION_MISMATCH w)
      | Some (codec, chroma, bitdepth) \<Rightarrow>
          if wc_codec cfg \<noteq> codec \<or> wc_chroma cfg \<noteq> chroma \<or> wc_bitdepth cfg \<noteq> bitdepth then
            Some (- 1, set_fatal_once WORKER_FATAL_NEGOTIATION_MISMATCH w)
          else
            let tcp_config = sender_config_of cfg videoFormat (codec, chroma, bitdepth) width height;
                cfg' = cfg\<lparr>wc_width := word_of_int width, wc_height := word_of_int height,
                           wc_video_format := word_of_int videoFormat, wc_codec := codec,
                           wc_chroma := chroma, wc_bitdepth := bitdepth\<rparr>;
                w1 = w\<lparr>w_cfg := Some cfg'\<rparr>
            in case tcp_sender_init alloc_ok tcp_config (w_sender w1) of (rc, s) \<Rightarrow>
               if rc < 0 then
                 Some (- 1, set_fatal_once WORKER_FATAL_TCP_CONNECT (w1\<lparr>w_sender := s\<rparr>))
               else case tcp_sender_connect ce s (w_net w1) of
                      None \<Rightarrow> None
                    | Some (_, s', n) \<Rightarrow>
                        Some (0, w1\<lparr>w_sender := s', w_net := n, w_tcp_initialized := True,
                                    w_stats_last_ns := now, w_frames_received := 0,
                                    w_frames_sent := 0, w_bytes_sent := 0,
                                    w_last_reconnect_ns := 0\<rparr>))"

definition worker_cleanup :: "worker \<Rightarrow> worker option" where
  "worker_cleanup w =
     (case (if w_tcp_initialized w then
              (case tcp_sender_destroy (w_sender w) (w_net w) of
                 None \<Rightarrow> None
               | Some (s, n) \<Rightarrow> Some (w\<lparr>w_sender := s, w_net := n, w_tcp_initialized := False\<rparr>))
            else Some w) of
        None \<Rightarrow> None
      | Some w1 \<Rightarrow> Some (w1\<lparr>w_frame_buffer_size := 0, w_cfg := None\<rparr>))"

text \<open>The scan of \<open>is_idr_frame\<close> from position \<open>i\<close>.\<close>

function idr_scan :: "u8 list \<Rightarrow> nat \<Rightarrow> bool" where
  "idr_scan data i =
     (if i < length data - 4 then
        (if data ! i = 0 \<and> data ! (i + 1) = 0 \<and> data ! (i + 2) = 0 \<and> data ! (i + 3) = 1 then
           (if data ! (i + 4) AND 0x1F = 5 then True else idr_scan data (i + 4))
         else if i < length data - 3 \<and> data ! i = 0 \<and> data ! (i + 1) = 0 \<and> data ! (i + 2) = 1 then
           (if data ! (i + 3) AND 0x1F = 5 then True else idr_scan data (i + 3))
         else idr_scan data (i + 1))
      else False)"
  by pat_completeness auto
termination
  by (relation "measure (\<lambda>(d, i). length d - i)") auto

declare idr_scan.simps [simp del]

definition is_idr_frame :: "u8 list \<Rightarrow> int" where
  "is_idr_frame data = (if length data < 5 then 0 else if idr_scan data 0 then 1 else 0)"

text \<open>
  The decode unit: the claimed total length and the fragments of the buffer list. The
  copy loop runs before the total is compared, so fragments that exceed the buffer are
  an out-of-bounds write, the outcome \<open>Overrun\<close>.
\<close>

record decode_unit =
  du_fullLength :: int
  du_bufferList :: "u8 list list"

datatype submit_result = Blocked | Overrun | Returned int worker

definition DR_OK :: int where "DR_OK = 0"

definition worker_submit_decode_unit :: "worker_env \<Rightarrow> decode_unit \<Rightarrow> worker \<Rightarrow> submit_result" where
  "worker_submit_decode_unit e du w0 =
     (let w = w0\<lparr>w_frames_received := w_frames_received w0 + 1\<rparr>;
          report = (\<lambda>w. Returned DR_OK (maybe_report_stats (en_report_now e) w))
      in
      case ensure_connected e w of None \<Rightarrow> Blocked | Some (rc, w1) \<Rightarrow>
      if rc < 0 then report w1
      else if du_fullLength du \<le> 0 then report w1
      else case ensure_frame_buffer (en_frame_alloc_ok e) (nat (du_fullLength du)) w1 of (rc, w2) \<Rightarrow>
      if rc < 0 then report w2
      else
        let frame = concat (du_bufferList du) in
        if length frame > w_frame_buffer_size w2 then Overrun
        else
          let is_idr = is_idr_frame frame in
          case tcp_sender_send_video (en_send_alloc_ok e) (Some frame) is_idr
                 (w_sender w2) (w_net w2) of
            None \<Rightarrow> Blocked
          | Some (rc, s, n) \<Rightarrow>
              let w3 = w2\<lparr>w_sender := s, w_net := n\<rparr> in
              if rc < 0 then report (set_fatal_once WORKER_FATAL_TCP_SEND w3)
              else
                let delay_ns = en_send_complete_time e - en_receive_time e in
                report (w3\<lparr>w_total_delay_ns := w_total_delay_ns w3 + delay_ns,
                           w_delay_samples := w_delay_samples w3 + 1,
                           w_max_delay_ns := (if delay_ns > w_max_delay_ns w3 then delay_ns
                                              else w_max_delay_ns w3),
                           w_frames_sent := w_frames_sent w3 + 1,
                           w_bytes_sent := w_bytes_sent w3 + of_nat (length frame)\<rparr>))"

section \<open>Lemmas\<close>

lemma set_fatal_code_sticky:
  "set_fatal_code code (set_fatal_code c0 p) = (if c0 = WORKER_FATAL_NONE then set_fatal_code code p
     else set_fatal_code c0 p)"
  by (cases p) (auto simp: set_fatal_code_def)

text \<open>A start code with an IDR type byte at position \<open>i\<close>, in either of its two lengths.\<close>

definition idr_at :: "u8 list \<Rightarrow> nat \<Rightarrow> bool" where
  "idr_at data i \<longleftrightarrow> i + 4 < length data \<and> data ! i = 0 \<and> data ! (i + 1) = 0 \<and>
     (data ! (i + 2) = 1 \<and> data ! (i + 3) AND 0x1F = 5 \<or>
      data ! (i + 2) = 0 \<and> data ! (i + 3) = 1 \<and> data ! (i + 4) AND 0x1F = 5)"

lemma idr_scan_iff: "idr_scan data i \<longleftrightarrow> (\<exists>j\<ge>i. idr_at data j)"
proof (induction data i rule: idr_scan.induct)
  case (1 data i)
  have step: "(\<exists>j\<ge>i. idr_at data j) \<longleftrightarrow> idr_at data i \<or> (\<exists>j\<ge>i + 1. idr_at data j)"
    using ex_ge_Suc [of i] by simp
  show ?case
  proof (cases "i < length data - 4")
    case False
    then have "\<not> idr_at data j" if "i \<le> j" for j
      using that by (auto simp: idr_at_def)
    with False show ?thesis by (auto simp: idr_scan.simps [of data i])
  next
    case in_range: True
    show ?thesis
    proof (cases "data ! i = 0 \<and> data ! (i + 1) = 0 \<and> data ! (i + 2) = 0 \<and> data ! (i + 3) = 1")
      case long: True
      show ?thesis
      proof (cases "data ! (i + 4) AND 0x1F = 5")
        case True
        then have "idr_at data i" using long in_range by (simp add: idr_at_def)
        then show ?thesis using long in_range True by (auto simp: idr_scan.simps [of data i])
      next
        case False
        have "\<not> idr_at data i" "\<not> idr_at data (i + 1)" "\<not> idr_at data (i + 2)" "\<not> idr_at data (i + 3)"
          using long False by (auto simp: idr_at_def eval_nat_numeral)
        then have "(\<exists>j\<ge>i. idr_at data j) \<longleftrightarrow> (\<exists>j\<ge>i + 4. idr_at data j)"
          using ex_ge_Suc [of i] ex_ge_Suc [of "Suc i"] ex_ge_Suc [of "Suc (Suc i)"]
            ex_ge_Suc [of "Suc (Suc (Suc i))"] by (simp add: eval_nat_numeral)
        then show ?thesis
          using long in_range False "1.IH"(1) by (simp add: idr_scan.simps [of data i])
      qed
    next
      case not_long: False
      show ?thesis
      proof (cases "data ! i = 0 \<and> data ! (i + 1) = 0 \<and> data ! (i + 2) = 1")
        case short: True
        show ?thesis
        proof (cases "data ! (i + 3) AND 0x1F = 5")
          case True
          then have "idr_at data i" using short in_range by (simp add: idr_at_def)
          then show ?thesis
            using short in_range not_long True by (auto simp: idr_scan.simps [of data i])
        next
          case False
          have "\<not> idr_at data i" "\<not> idr_at data (i + 1)" "\<not> idr_at data (i + 2)"
            using short False by (auto simp: idr_at_def eval_nat_numeral)
          then have "(\<exists>j\<ge>i. idr_at data j) \<longleftrightarrow> (\<exists>j\<ge>i + 3. idr_at data j)"
            using ex_ge_Suc [of i] ex_ge_Suc [of "Suc i"] ex_ge_Suc [of "Suc (Suc i)"]
            by (simp add: eval_nat_numeral)
          then show ?thesis
            using short in_range not_long False "1.IH"(2) by (auto simp: idr_scan.simps [of data i])
        qed
      next
        case False
        then have "\<not> idr_at data i" using not_long by (auto simp: idr_at_def)
        then show ?thesis
          using in_range not_long False "1.IH"(3) step by (auto simp: idr_scan.simps [of data i])
      qed
    qed
  qed
qed

lemma ensure_frame_buffer_cases:
  assumes "ensure_frame_buffer ok needed w = (rc, w')"
  shows "w' = w\<lparr>w_frame_buffer_size := w_frame_buffer_size w'\<rparr>"
    and "\<not> rc < 0 \<Longrightarrow> needed \<le> w_frame_buffer_size w'"
  using assms double_until_ge [of "1024 * 1024" needed]
    double_until_ge [of "w_frame_buffer_size w" needed]
  by (auto simp: ensure_frame_buffer_def Let_def split: if_splits)

lemma maybe_report_stats_frame [simp]:
  "w_sender (maybe_report_stats t w) = w_sender w" "w_net (maybe_report_stats t w) = w_net w"
  "w_cfg (maybe_report_stats t w) = w_cfg w"
  "w_tcp_initialized (maybe_report_stats t w) = w_tcp_initialized w"
  by (simp_all add: maybe_report_stats_def)

lemma set_fatal_once_frame [simp]:
  "w_sender (set_fatal_once c w) = w_sender w" "w_net (set_fatal_once c w) = w_net w"
  "w_frame_buffer_size (set_fatal_once c w) = w_frame_buffer_size w"
  by (simp_all add: set_fatal_once_def)

text \<open>What sending one video packet on a live connection does to the wire and the object.\<close>

lemma send_video_connected:
  assumes "tcp_sender_send_video ok (Some d) ft s n = Some (rc, s', n')"
    and "ts_state s = TCP_STATE_CONNECTED" and "d \<noteq> []" and "length d \<le> TCP_MAX_PACKET_SIZE"
    and "ok \<or> TCP_HEADER_SIZE + length d \<le> ts_send_buffer_size s"
  shows "(rc = 0 \<and> ts_state s' = TCP_STATE_CONNECTED \<and>
            net_out n' = net_out n @ frame (tc_stream_id (ts_config s)) TCP_MSG_TYPE_VIDEO_DATA d) \<or>
         (rc = - 1 \<and> ts_state s' = TCP_STATE_ERROR \<and> ts_last_error s' = TCP_ERR_SEND)"
proof -
  obtain r1 s1 where e: "ensure_buffer_size ok (TCP_HEADER_SIZE + length d) s = (r1, s1)"
    by force
  note ec = ensure_buffer_size_cases [OF e]
  have r1: "r1 = 0" using ec assms(5) e by (auto simp: ensure_buffer_size_def split: if_splits)
  let ?buf = "frame (tc_stream_id (ts_config s)) TCP_MSG_TYPE_VIDEO_DATA d"
  obtain r2 n2 where send: "send_all ?buf n = Some (r2, n2)"
    using assms(1-4) e ec r1
    by (auto simp: tcp_sender_send_video_def frame_def Let_def split: option.splits)
  show ?thesis
    using assms(1-4) e ec r1 send send_all_ok(2) [OF send]
    by (auto simp: tcp_sender_send_video_def frame_def Let_def split: if_splits)
qed

section \<open>A concrete worker for the witnesses\<close>

definition ex_cfg :: WorkerRenderConfig where
  "ex_cfg = \<lparr>wc_tcp_host = ''10.0.0.1'', wc_tcp_port = 9000, wc_stream_id = 7, wc_width = 0,
     wc_height = 0, wc_fps = 30, wc_bitrate = 0, wc_video_format = 0, wc_codec = 1, wc_chroma = 1,
     wc_bitdepth = 8, wc_color_space = 1, wc_color_range = 1, wc_fatal_code = Some 0\<rparr>"

definition ex_connect :: connect_env where
  "ex_connect = \<lparr>ce_socket = 3, ce_pton = 1, ce_dns = False, ce_connect = ConnInProgress,
     ce_select = 1, ce_so_error = 0, ce_now = 5, ce_alloc_ok = True\<rparr>"

definition ex_env :: worker_env where
  "ex_env = \<lparr>en_receive_time = 10, en_heartbeat_now = 11, en_reconnect_now = 12,
     en_connect = ex_connect, en_connect_failed_now = 13, en_frame_alloc_ok = True,
     en_send_alloc_ok = True, en_send_complete_time = 14, en_report_now = 15\<rparr>"

definition ex_net :: net where
  "ex_net = \<lparr>net_out = [], net_answers = [SendN 4, SendEINTR, SendN 12], net_closed = []\<rparr>"

definition ex_worker :: "TcpSenderState \<Rightarrow> worker" where
  "ex_worker st = \<lparr>w_sender = zero_sender\<lparr>ts_state := st, ts_sock_fd := 3, ts_has_buffer := True,
       ts_send_buffer_size := DEFAULT_SEND_BUFFER_SIZE, ts_config := empty_config\<lparr>tc_stream_id := 7\<rparr>\<rparr>,
     w_net = ex_net, w_tcp_initialized = True, w_cfg = Some ex_cfg, w_frame_buffer_size = 1048576,
     w_stats_last_ns = 0, w_frames_received = 0, w_frames_sent = 0, w_bytes_sent = 0,
     w_total_delay_ns = 0, w_max_delay_ns = 0, w_delay_samples = 0, w_last_reconnect_ns = 2\<rparr>"

definition ex_unit :: decode_unit where
  "ex_unit = \<lparr>du_fullLength = 9, du_bufferList = [[0, 0, 0, 1, 0x65], [1, 2, 3, 4]]\<rparr>"

lemmas ex_defs = ex_cfg_def ex_connect_def ex_env_def ex_net_def ex_worker_def ex_unit_def
  zero_sender_def empty_config_def

section \<open>Properties\<close>

text \<open>The scan for an IDR frame with its skips over start codes finds exactly the payloads
  that hold, somewhere, a three- or four-byte start code followed by a NAL header of type 5.\<close>

theorem is_idr_frame_iff: "is_idr_frame data = (if \<exists>i. idr_at data i then 1 else 0)"
proof -
  have "\<not> idr_at data i" if "length data < 5" for i
    using that by (simp add: idr_at_def)
  then show ?thesis by (auto simp: is_idr_frame_def idr_scan_iff)
qed

text \<open>The metadata table of the negotiated formats agrees with the Limelight format masks:
  the bit depth is 10 exactly on the 10-bit mask, the chroma is 4:4:4 exactly on the YUV444
  mask, and the codec is the one whose mask the format lies in.\<close>

theorem metadata_agrees_with_masks:
  assumes "video_format_to_stream_metadata f = Some (codec, chroma, bitdepth)"
  shows "(bitdepth = 10 \<longleftrightarrow> f AND VIDEO_FORMAT_MASK_10BIT \<noteq> 0) \<and> bitdepth \<in> {8, 10} \<and>
    (chroma = 1 \<longleftrightarrow> f AND VIDEO_FORMAT_MASK_YUV444 \<noteq> 0) \<and> chroma \<in> {0, 1} \<and>
    (codec = 0 \<longleftrightarrow> f AND VIDEO_FORMAT_MASK_H264 \<noteq> 0) \<and>
    (codec = 1 \<longleftrightarrow> f AND VIDEO_FORMAT_MASK_H265 \<noteq> 0) \<and>
    (codec = 2 \<longleftrightarrow> f AND VIDEO_FORMAT_MASK_AV1 \<noteq> 0)"
  using assms
  by (auto simp: video_format_to_stream_metadata_def video_format_defs split: if_splits)

theorem metadata_agrees_with_masks_witness:
  "video_format_to_stream_metadata 0x0800 = Some (1, 1, 10) \<and>
   (0x0800 :: int) AND VIDEO_FORMAT_MASK_10BIT \<noteq> 0"
proof -
  have "video_format_to_stream_metadata 0x0800 = Some (1, 1, 10)"
    by (simp add: video_format_to_stream_metadata_def video_format_defs)
  with metadata_agrees_with_masks [OF this] show ?thesis by simp
qed

text \<open>C21: No silent downgrade: if setup succeeds, the negotiated format has exactly the codec,
  chroma and bit depth the configuration asked for, and the sender announces them; if the
  format is unknown or differs, setup fails before the sender or the network is touched and
  the mismatch is recorded unless an earlier fatal code stands.\<close>

theorem worker_setup_no_downgrade:
  "case worker_setup ok ce now fmt width height (Some cfg) w of
     None \<Rightarrow> True
   | Some (rc, w') \<Rightarrow>
       (if video_format_to_stream_metadata fmt = Some (wc_codec cfg, wc_chroma cfg, wc_bitdepth cfg)
        then (rc = 0 \<or> w_tcp_initialized w' = w_tcp_initialized w) \<and>
             (rc < 0 \<or> tc_codec (ts_config (w_sender w')) = wc_codec cfg \<and>
                tc_chroma (ts_config (w_sender w')) = wc_chroma cfg \<and>
                tc_bitdepth (ts_config (w_sender w')) = wc_bitdepth cfg)
        else rc = - 1 \<and> w_sender w' = w_sender w \<and> w_net w' = w_net w \<and>
             map_option wc_fatal_code (w_cfg w') =
               Some (set_fatal_code WORKER_FATAL_NEGOTIATION_MISMATCH (wc_fatal_code cfg)))"
proof (cases "video_format_to_stream_metadata fmt =
    Some (wc_codec cfg, wc_chroma cfg, wc_bitdepth cfg)")
  case False
  then show ?thesis
    by (auto simp: worker_setup_def set_fatal_once_def Let_def split: option.splits prod.splits)
next
  case True
  have keep: "ts_config s' = c" if "tcp_sender_init ok c s0 = (r, s)" "\<not> r < 0"
    "tcp_sender_connect ce s n = Some (r', s', n')" for c s0 r s n r' s' n'
  proof -
    have "ok" using that(1,2) by (auto simp: tcp_sender_init_def Let_def split: if_splits)
    then have "sender_reachable c (s, n)"
      using that(1,2) by (intro sender_reachable.init [of c s0 s n])
        (auto simp: tcp_sender_init_def Let_def split: if_splits)
    then have "sender_reachable c (s', n')"
      using that(3) by (blast intro: sender_reachable.step sender_step.connect)
    then show ?thesis using sender_reachable_inv by (fastforce simp: sender_inv_def)
  qed
  obtain c where c: "sender_config_of cfg fmt (wc_codec cfg, wc_chroma cfg, wc_bitdepth cfg)
      width height = c" by simp
  then have cf: "tc_codec c = wc_codec cfg" "tc_chroma c = wc_chroma cfg" "tc_bitdepth c = wc_bitdepth cfg"
    by (auto simp: sender_config_of_def)
  obtain r s where init: "tcp_sender_init ok c (w_sender w) = (r, s)" by force
  show ?thesis
  proof (cases "r < 0")
    case neg: True
    then show ?thesis by (simp add: worker_setup_def Let_def True c init set_fatal_once_def)
  next
    case False
    show ?thesis
      using keep [OF init False] False True cf
      by (cases "tcp_sender_connect ce s (w_net w)")
        (auto simp: worker_setup_def Let_def True c init split: prod.splits)
  qed
qed

theorem worker_setup_no_downgrade_witness:
  "video_format_to_stream_metadata VIDEO_FORMAT_H265 = Some (1, 0, 8) \<and>
   (case worker_setup True ex_connect 0 VIDEO_FORMAT_H265 640 480 (Some ex_cfg)
      (ex_worker TCP_STATE_DISCONNECTED) of
      None \<Rightarrow> False
    | Some (rc, w') \<Rightarrow> rc = - 1 \<and> w_net w' = ex_net \<and> map_option wc_fatal_code (w_cfg w') = Some (Some 8))"
proof -
  have m: "video_format_to_stream_metadata VIDEO_FORMAT_H265 = Some (1, 0, 8)"
    by (simp add: video_format_to_stream_metadata_def video_format_defs)
  then show ?thesis
    using worker_setup_no_downgrade [where ok = True and ce = ex_connect and now = 0 and
        fmt = VIDEO_FORMAT_H265 and width = 640 and height = 480 and cfg = ex_cfg and
        w = "ex_worker TCP_STATE_DISCONNECTED"]
    by (simp add: worker_setup_def Let_def ex_defs set_fatal_code_def worker_fatal_defs
        split: option.splits prod.splits)
qed

text \<open>In the error state a frame that arrives less than three seconds after the last failed
  connection attempt is counted and dropped: no reconnect, no bytes, no change of the sender.\<close>

theorem submit_throttled:
  assumes "w_tcp_initialized w" and "ts_state (w_sender w) = TCP_STATE_ERROR"
    and "en_reconnect_now e - w_last_reconnect_ns w < RECONNECT_INTERVAL_NS"
  shows "worker_submit_decode_unit e du w =
    Returned DR_OK (maybe_report_stats (en_report_now e)
      (w\<lparr>w_frames_received := w_frames_received w + 1\<rparr>))"
  using assms by (simp add: worker_submit_decode_unit_def ensure_connected_def)

theorem submit_throttled_witness:
  "worker_submit_decode_unit ex_env ex_unit (ex_worker TCP_STATE_ERROR) =
    Returned DR_OK (maybe_report_stats (en_report_now ex_env)
      (ex_worker TCP_STATE_ERROR\<lparr>w_frames_received := w_frames_received (ex_worker TCP_STATE_ERROR) + 1\<rparr>))"
  by (rule submit_throttled) (simp_all add: ex_defs RECONNECT_INTERVAL_NS_def)

text \<open>A decode unit whose fragments add up to no more than its stated length never writes
  past the frame buffer.\<close>

theorem submit_no_overrun:
  assumes "int (length (concat (du_bufferList du))) \<le> du_fullLength du"
  shows "worker_submit_decode_unit e du w \<noteq> Overrun"
proof -
  obtain d where d: "concat (du_bufferList du) = d" by simp
  have "\<not> w_frame_buffer_size w2 < length d"
    if "ensure_frame_buffer ok (nat (du_fullLength du)) w1 = (rc, w2)" "\<not> rc < 0" for ok w1 rc w2
    using ensure_frame_buffer_cases(2) [OF that] assms d by simp
  then show ?thesis
    by (auto simp: worker_submit_decode_unit_def Let_def d split: option.split prod.split)
qed

theorem submit_no_overrun_witness:
  "worker_submit_decode_unit ex_env ex_unit (ex_worker TCP_STATE_CONNECTED) \<noteq> Overrun"
  by (rule submit_no_overrun) (simp add: ex_defs)

text \<open>On a live connection with no heartbeat due, a decode unit of at most 10 MB puts exactly
  one VIDEO_DATA frame with the concatenated fragments on the wire, or the sender goes to the
  error state and the send failure is recorded as the fatal code if none was.\<close>

theorem submit_connected:
  assumes "w_tcp_initialized w" and "ts_state (w_sender w) = TCP_STATE_CONNECTED"
    and "en_heartbeat_now e - ts_last_heartbeat_ns (w_sender w) < HEARTBEAT_INTERVAL_NS"
    and "du_fullLength du = int (length (concat (du_bufferList du)))" and "0 < du_fullLength du"
    and "length (concat (du_bufferList du)) \<le> TCP_MAX_PACKET_SIZE"
    and "en_frame_alloc_ok e" and "en_send_alloc_ok e"
    and "worker_submit_decode_unit e du w = Returned rc w'"
  shows "rc = DR_OK \<and>
    (ts_state (w_sender w') = TCP_STATE_CONNECTED \<and>
       net_out (w_net w') = net_out (w_net w) @
         frame (tc_stream_id (ts_config (w_sender w))) TCP_MSG_TYPE_VIDEO_DATA
           (concat (du_bufferList du)) \<or>
     ts_state (w_sender w') = TCP_STATE_ERROR \<and>
       map_option wc_fatal_code (w_cfg w') =
         map_option (\<lambda>c. set_fatal_code WORKER_FATAL_TCP_SEND (wc_fatal_code c)) (w_cfg w))"
proof -
  let ?w = "w\<lparr>w_frames_received := w_frames_received w + 1\<rparr>"
  obtain d where d: "concat (du_bufferList du) = d" by simp
  have full: "du_fullLength du = int (length d)" "0 < length d" "length d \<le> TCP_MAX_PACKET_SIZE"
    using assms(4-6) by (simp_all add: d)
  have conn: "ensure_connected e ?w = Some (0, ?w)"
    using assms(1-3) by (auto simp: ensure_connected_def tcp_sender_check_heartbeat_def not_le)
  obtain r1 w2 where buf: "ensure_frame_buffer (en_frame_alloc_ok e) (length d) ?w = (r1, w2)"
    by force
  have w2: "w2 = ?w\<lparr>w_frame_buffer_size := w_frame_buffer_size w2\<rparr>" and r1: "\<not> r1 < 0"
    and len: "\<not> w_frame_buffer_size w2 < length d"
    using ensure_frame_buffer_cases [OF buf] buf assms(7)
    by (auto simp: ensure_frame_buffer_def Let_def split: if_splits)
  have same: "w_sender w2 = w_sender w" "w_net w2 = w_net w" "w_cfg w2 = w_cfg w"
    by (subst w2; simp)+
  note submit = worker_submit_decode_unit_def Let_def conn buf full d r1 len same
  obtain r2 s2 n2 where send: "tcp_sender_send_video (en_send_alloc_ok e) (Some d) (is_idr_frame d)
      (w_sender w) (w_net w) = Some (r2, s2, n2)"
    using assms(9) full(2) r1 len by (auto simp: submit split: option.splits)
  have res: "(r2 = 0 \<and> ts_state s2 = TCP_STATE_CONNECTED \<and> net_out n2 = net_out (w_net w) @
        frame (tc_stream_id (ts_config (w_sender w))) TCP_MSG_TYPE_VIDEO_DATA d) \<or>
      (r2 = - 1 \<and> ts_state s2 = TCP_STATE_ERROR \<and> ts_last_error s2 = TCP_ERR_SEND)"
    using send_video_connected [OF send assms(2) _ full(3)] full(2) assms(8) by simp
  then show ?thesis
  proof
    assume ok: "r2 = 0 \<and> ts_state s2 = TCP_STATE_CONNECTED \<and> net_out n2 = net_out (w_net w) @
        frame (tc_stream_id (ts_config (w_sender w))) TCP_MSG_TYPE_VIDEO_DATA d"
    with assms(9) full(2) r1 len send show ?thesis by (auto simp: submit)
  next
    assume "r2 = - 1 \<and> ts_state s2 = TCP_STATE_ERROR \<and> ts_last_error s2 = TCP_ERR_SEND"
    with assms(9) full(2) r1 len send show ?thesis
      by (auto simp: submit set_fatal_once_def option.map_comp o_def)
  qed
qed

lemmas worker_eval = worker_submit_decode_unit_def ensure_connected_def
  tcp_sender_check_heartbeat_def HEARTBEAT_INTERVAL_NS_def ensure_frame_buffer_def
  tcp_sender_send_video_def ensure_buffer_size_def send_all_def SEND_MAX_RETRIES_def
  sender_header_def DEFAULT_SEND_BUFFER_SIZE_def maybe_report_stats_def Let_def

lemma ex_submit:
  "\<exists>w'. worker_submit_decode_unit ex_env ex_unit (ex_worker TCP_STATE_CONNECTED) = Returned DR_OK w' \<and>
     ts_state (w_sender w') = TCP_STATE_CONNECTED"
  by (simp add: worker_eval ex_defs protocol_consts)

theorem submit_connected_witness:
  "\<exists>w'. worker_submit_decode_unit ex_env ex_unit (ex_worker TCP_STATE_CONNECTED) = Returned DR_OK w' \<and>
     net_out (w_net w') = frame 7 TCP_MSG_TYPE_VIDEO_DATA [0, 0, 0, 1, 0x65, 1, 2, 3, 4]"
proof -
  obtain w' where ret: "worker_submit_decode_unit ex_env ex_unit (ex_worker TCP_STATE_CONNECTED) =
      Returned DR_OK w'" and "ts_state (w_sender w') = TCP_STATE_CONNECTED"
    using ex_submit by blast
  moreover have "ts_state (w_sender w') = TCP_STATE_CONNECTED \<and>
       net_out (w_net w') = net_out (w_net (ex_worker TCP_STATE_CONNECTED)) @
         frame (tc_stream_id (ts_config (w_sender (ex_worker TCP_STATE_CONNECTED))))
           TCP_MSG_TYPE_VIDEO_DATA (concat (du_bufferList ex_unit))"
    using submit_connected [OF _ _ _ _ _ _ _ _ ret] calculation
    by (simp add: ex_defs HEARTBEAT_INTERVAL_NS_def TCP_MAX_PACKET_SIZE_def)
  ultimately show ?thesis by (auto simp: ex_defs)
qed

end
