(* ===== verification/CText.thy ===== *)
theory CText
  imports Prelude
begin

text \<open>
  The parts of the C library's text handling the sources rely on: character classes,
  \<open>strtol\<close>/\<open>atoi\<close>, the \<open>%d\<close> and \<open>%u\<close> conversions of \<open>sscanf\<close>, \<open>strcasecmp\<close>, \<open>snprintf\<close>
  truncation and decimal printing. Strings are lists of characters; where a buffer may hold
  a NUL byte, \<open>c_str\<close> is the string C sees.
\<close>

definition c_isspace :: "char \<Rightarrow> bool" where
  "c_isspace c \<longleftrightarrow> of_char c \<in> {32 :: nat, 9, 10, 11, 12, 13}"

definition c_isdigit :: "char \<Rightarrow> bool" where
  "c_isdigit c \<longleftrightarrow> 48 \<le> (of_char c :: nat) \<and> (of_char c :: nat) \<le> 57"

definition digit_val :: "char \<Rightarrow> nat" where
  "digit_val c = of_char c - 48"

definition c_str :: "string \<Rightarrow> string" where
  "c_str s = takeWhile (\<lambda>c. c \<noteq> CHR 0x00) s"

definition nat_of_digits :: "string \<Rightarrow> nat" where
  "nat_of_digits ds = foldl (\<lambda>n c. 10 * n + digit_val c) 0 ds"

text \<open>An optional sign, then digits: the value and the rest, None without a digit.\<close>

definition scan_signed :: "string \<Rightarrow> (int \<times> string) option" where
  "scan_signed s0 =
     (let s = dropWhile c_isspace s0;
          neg = (s \<noteq> [] \<and> hd s = CHR ''-'');
          t = (if s \<noteq> [] \<and> (hd s = CHR ''-'' \<or> hd s = CHR ''+'') then tl s else s);
          ds = takeWhile c_isdigit t
      in if ds = [] then None
         else Some (if neg then - int (nat_of_digits ds) else int (nat_of_digits ds),
                    dropWhile c_isdigit t))"

definition LONG_MAX :: int where "LONG_MAX = 2 ^ 63 - 1"

definition clamp_long :: "int \<Rightarrow> int" where
  "clamp_long v = (if v < - LONG_MAX - 1 then - LONG_MAX - 1 else if v > LONG_MAX then LONG_MAX else v)"

definition to_int32 :: "int \<Rightarrow> int" where "to_int32 v = signed_take_bit 31 v"

text \<open>\<open>strtol(s, &end, 10)\<close>: the value, \<open>end\<close>, and whether anything was consumed.\<close>

definition strtol10 :: "string \<Rightarrow> int \<times> string \<times> bool" where
  "strtol10 s = (case scan_signed s of
     None \<Rightarrow> (0, s, False) | Some (v, rest) \<Rightarrow> (clamp_long v, rest, True))"

definition atoi :: "string \<Rightarrow> int" where
  "atoi s = to_int32 (fst (strtol10 s))"

text \<open>The conversions \<open>%d\<close> and \<open>%u\<close> of \<open>sscanf\<close>.\<close>

definition scan_d :: "string \<Rightarrow> (int \<times> string) option" where
  "scan_d s = map_option (\<lambda>(v, r). (to_int32 (clamp_long v), r)) (scan_signed s)"

definition scan_u :: "string \<Rightarrow> (u32 \<times> string) option" where
  "scan_u s = map_option (\<lambda>(v, r). (word_of_int v, r)) (scan_signed s)"

text \<open>A literal of the format string that contains no white space.\<close>

fun scan_lit :: "string \<Rightarrow> string \<Rightarrow> string option" where
  "scan_lit [] s = Some s"
| "scan_lit (c # cs) [] = None"
| "scan_lit (c # cs) (x # xs) = (if c = x then scan_lit cs xs else None)"

text \<open>\<open>%63[^:]\<close> and \<open>%63s\<close>: at most \<open>n\<close> characters, at least one.\<close>

definition scan_set :: "nat \<Rightarrow> (char \<Rightarrow> bool) \<Rightarrow> string \<Rightarrow> (string \<times> string) option" where
  "scan_set n P s = (let t = takeWhile P (take n s) in
     if t = [] then None else Some (t, drop (length t) s))"

text \<open>\<open>snprintf(buf, n, "%s", s)\<close> keeps \<open>n - 1\<close> characters.\<close>

definition snprintf_s :: "nat \<Rightarrow> string \<Rightarrow> string" where
  "snprintf_s n s = take (n - 1) s"

definition c_tolower :: "char \<Rightarrow> char" where
  "c_tolower c = (let n = (of_char c :: nat) in
     if 65 \<le> n \<and> n \<le> 90 then char_of (n + 32) else c)"

definition strcaseeq :: "string \<Rightarrow> string \<Rightarrow> bool" where
  "strcaseeq a b \<longleftrightarrow> map c_tolower a = map c_tolower b"

text \<open>Decimal printing.\<close>

fun show_nat :: "nat \<Rightarrow> string" where
  "show_nat n = (if n < 10 then [char_of (48 + n)]
                 else show_nat (n div 10) @ [char_of (48 + n mod 10)])"

declare show_nat.simps [simp del]

definition show_int :: "int \<Rightarrow> string" where
  "show_int n = (if n < 0 then CHR ''-'' # show_nat (nat (- n)) else show_nat (nat n))"

definition trim_right :: "(char \<Rightarrow> bool) \<Rightarrow> string \<Rightarrow> string" where
  "trim_right P s = rev (dropWhile P (rev s))"

section \<open>Environment switches shared by the sources\<close>

text \<open>
  The same three idioms occur in several files: a boolean switch, an integer clamped into a
  range, each with a default for an absent, empty or malformed value.
\<close>

definition env_nonempty :: "string option \<Rightarrow> bool" where
  "env_nonempty v \<longleftrightarrow> (case v of None \<Rightarrow> False | Some s \<Rightarrow> s \<noteq> [])"

section \<open>Lemmas\<close>

lemma digit_char:
  assumes "d < 10"
  shows "c_isdigit (char_of (48 + d))" "digit_val (char_of (48 + d)) = d"
    "\<not> c_isspace (char_of (48 + d))" "char_of (48 + d) \<noteq> CHR ''-''" "char_of (48 + d) \<noteq> CHR ''+''"
proof -
  have n: "(of_char (char_of (48 + d) :: char) :: nat) = 48 + d"
    using assms by (simp add: of_char_of)
  then show "c_isdigit (char_of (48 + d))" "digit_val (char_of (48 + d)) = d"
    "\<not> c_isspace (char_of (48 + d))"
    using assms by (simp_all add: c_isdigit_def digit_val_def c_isspace_def)
  show "char_of (48 + d) \<noteq> CHR ''-''" "char_of (48 + d) \<noteq> CHR ''+''"
    using n by (auto dest!: arg_cong [where f = "of_char :: char \<Rightarrow> nat"])
qed

lemma nat_of_digits_append: "nat_of_digits (xs @ [c]) = 10 * nat_of_digits xs + digit_val c"
  by (simp add: nat_of_digits_def)

lemma show_nat_digits: "show_nat n \<noteq> [] \<and> list_all c_isdigit (show_nat n)"
proof (induction n rule: show_nat.induct)
  case (1 n)
  then show ?case
    by (cases "n < 10") (auto simp: show_nat.simps [of n] digit_char(1))
qed

lemma nat_of_digits_show_nat: "nat_of_digits (show_nat n) = n"
proof (induction n rule: show_nat.induct)
  case (1 n)
  show ?case
  proof (cases "n < 10")
    case True
    then show ?thesis
      by (simp add: show_nat.simps [of n] nat_of_digits_def digit_char(2))
  next
    case False
    have "nat_of_digits (show_nat n) =
        10 * nat_of_digits (show_nat (n div 10)) + digit_val (char_of (48 + n mod 10))"
      using False by (simp add: show_nat.simps [of n] nat_of_digits_append)
    also have "\<dots> = n" using 1 False digit_char(2) [of "n mod 10"] by simp
    finally show ?thesis .
  qed
qed

lemma digit_not_space: "c_isdigit c \<Longrightarrow> \<not> c_isspace c \<and> c \<noteq> CHR ''-'' \<and> c \<noteq> CHR ''+''"
  by (auto simp: c_isdigit_def c_isspace_def)

lemma takeWhile_digits:
  assumes "list_all P xs" and "ys = [] \<or> \<not> P (hd ys)"
  shows "takeWhile P (xs @ ys) = xs" "dropWhile P (xs @ ys) = ys"
  using assms by (induction xs) (auto simp: takeWhile_eq_Nil_iff dropWhile_eq_self_iff)

text \<open>Printing a number and scanning it back.\<close>

lemma scan_signed_show_nat:
  assumes "rest = [] \<or> \<not> c_isdigit (hd rest)"
  shows "scan_signed (show_nat n @ rest) = Some (int n, rest)"
proof -
  obtain c cs where c: "show_nat n = c # cs" "c_isdigit c"
    using show_nat_digits [of n] by (cases "show_nat n") auto
  have ws: "dropWhile c_isspace (show_nat n @ rest) = show_nat n @ rest"
    using c digit_not_space by simp
  have hd: "hd (show_nat n @ rest) \<noteq> CHR ''-''" "hd (show_nat n @ rest) \<noteq> CHR ''+''"
    using c digit_not_space by auto
  show ?thesis
    using takeWhile_digits [of c_isdigit "show_nat n" rest] show_nat_digits [of n] assms ws hd
    by (simp add: scan_signed_def Let_def nat_of_digits_show_nat)
qed

lemma scan_signed_shorter: "scan_signed s = Some (v, r) \<Longrightarrow> length r < length s"
proof -
  assume a: "scan_signed s = Some (v, r)"
  let ?s = "dropWhile c_isspace s"
  let ?t = "if ?s \<noteq> [] \<and> (hd ?s = CHR ''-'' \<or> hd ?s = CHR ''+'') then tl ?s else ?s"
  have r: "r = dropWhile c_isdigit ?t" "takeWhile c_isdigit ?t \<noteq> []"
    using a by (auto simp: scan_signed_def Let_def split: if_splits)
  have "length ?t = length (takeWhile c_isdigit ?t) + length r"
    unfolding r(1) by (metis length_append takeWhile_dropWhile_id)
  then have "length r < length ?t" using r(2) by (cases "takeWhile c_isdigit ?t") auto
  moreover have "length ?t \<le> length s"
    using length_dropWhile_le [of c_isspace s] by (auto intro: le_trans)
  ultimately show ?thesis by simp
qed

lemma to_int32_id: "- 2147483648 \<le> v \<Longrightarrow> v < 2147483648 \<Longrightarrow> to_int32 v = v"
  by (simp add: to_int32_def signed_take_bit_int_eq_self)

lemma clamp_long_id: "\<bar>v\<bar> \<le> 2147483648 \<Longrightarrow> clamp_long v = v"
  by (auto simp: clamp_long_def LONG_MAX_def)

lemma scan_d_show_nat:
  assumes "n < 2147483648" and "rest = [] \<or> \<not> c_isdigit (hd rest)"
  shows "scan_d (show_nat n @ rest) = Some (int n, rest)"
  using assms by (simp add: scan_d_def scan_signed_show_nat clamp_long_id to_int32_id)

lemma scan_lit_append: "scan_lit l (l @ s) = Some s"
  by (induction l) auto

lemma length_snprintf_s: "0 < n \<Longrightarrow> length (snprintf_s n s) < n"
  by (simp add: snprintf_s_def)

lemma scan_signed_space: "c_isspace c \<Longrightarrow> scan_signed (c # s) = scan_signed s"
  by (simp add: scan_signed_def)

lemma scan_d_space: "c_isspace c \<Longrightarrow> scan_d (c # s) = scan_d s"
  by (simp add: scan_d_def scan_signed_space)

lemma length_show_nat: "0 < k \<Longrightarrow> n < 10 ^ k \<Longrightarrow> length (show_nat n) \<le> k"
proof (induction n arbitrary: k rule: show_nat.induct)
  case (1 n)
  show ?case
  proof (cases "n < 10")
    case True
    then show ?thesis using 1(2) by (simp add: show_nat.simps [of n])
  next
    case False
    then obtain j where j: "k = Suc j" "0 < j" using 1(2,3) by (cases k; cases "k - 1") auto
    then have "n div 10 < 10 ^ j" using 1(3) by auto
    then show ?thesis using 1(1) [OF False, of j] False j by (simp add: show_nat.simps [of n])
  qed
qed

lemma c_str_id: "CHR 0x00 \<notin> set s \<Longrightarrow> c_str s = s"
  by (induction s) (auto simp: c_str_def)

lemma nul_not_in_show_nat: "CHR 0x00 \<notin> set (show_nat n)"
  using show_nat_digits [of n] by (auto simp: list_all_iff c_isdigit_def)

lemma trim_right_id: "s \<noteq> [] \<Longrightarrow> \<not> P (last s) \<Longrightarrow> trim_right P s = s"
  by (cases s rule: rev_cases) (simp_all add: trim_right_def)

end
