(* ===== verification/WorkerOpts.thy ===== *)
theory WorkerOpts
  imports Worker CText
begin

text \<open>
  The options of \<open>ml_worker\<close> (\<open>src/main.c\<close>): the three command lines, the choice of the
  video format, and what the accepted options guarantee to the rest of the worker.
\<close>

section \<open>Options\<close>

record StreamOptions =
  so_host :: "string option"
  so_app :: "string option"
  so_key_dir :: string
  so_width :: int
  so_height :: int
  so_fps :: int
  so_bitrate :: int
  so_packet_size :: int
  so_ll_color_space :: int
  so_ll_color_range :: int
  so_tcp_host :: string
  so_tcp_port :: u16
  so_stream_id :: u16
  so_control_bind :: string
  so_control_port :: int
  so_skip_mode_check :: bool
  so_codec :: int
  so_chroma :: int
  so_bitdepth :: int
  so_codec_explicit :: bool

record PairOptions =
  po_host :: "string option"
  po_key_dir :: string
  po_pin :: "string option"

record ListOptions =
  lo_host :: "string option"
  lo_key_dir :: string

definition STREAM_CODEC_H264 :: int where "STREAM_CODEC_H264 = 0"
definition STREAM_CODEC_HEVC :: int where "STREAM_CODEC_HEVC = 1"
definition STREAM_CODEC_AV1 :: int where "STREAM_CODEC_AV1 = 2"
definition STREAM_CHROMA_420 :: int where "STREAM_CHROMA_420 = 0"
definition STREAM_CHROMA_444 :: int where "STREAM_CHROMA_444 = 1"

definition COLORSPACE_REC_601 :: int where "COLORSPACE_REC_601 = 0"
definition COLORSPACE_REC_709 :: int where "COLORSPACE_REC_709 = 1"
definition COLOR_RANGE_LIMITED :: int where "COLOR_RANGE_LIMITED = 0"
definition COLOR_RANGE_FULL :: int where "COLOR_RANGE_FULL = 1"

lemmas option_consts = STREAM_CODEC_H264_def STREAM_CODEC_HEVC_def STREAM_CODEC_AV1_def
  STREAM_CHROMA_420_def STREAM_CHROMA_444_def COLORSPACE_REC_601_def COLORSPACE_REC_709_def
  COLOR_RANGE_LIMITED_def COLOR_RANGE_FULL_def

section \<open>Values\<close>

definition parse_codec_arg :: "string \<Rightarrow> int option" where
  "parse_codec_arg s =
     (if strcaseeq s ''h264'' then Some STREAM_CODEC_H264
      else if strcaseeq s ''h265'' \<or> strcaseeq s ''hevc'' then Some STREAM_CODEC_HEVC
      else if strcaseeq s ''av1'' then Some STREAM_CODEC_AV1 else None)"

definition parse_chroma_arg :: "string \<Rightarrow> int option" where
  "parse_chroma_arg s = (if s = ''420'' then Some STREAM_CHROMA_420
     else if s = ''444'' then Some STREAM_CHROMA_444 else None)"

definition parse_bitdepth_arg :: "string \<Rightarrow> int option" where
  "parse_bitdepth_arg s = (if s = ''8'' then Some 8 else if s = ''10'' then Some 10 else None)"

definition parse_color_space_arg :: "string \<Rightarrow> int option" where
  "parse_color_space_arg s =
     (if strcaseeq s ''709'' \<or> strcaseeq s ''bt709'' \<or> strcaseeq s ''rec709'' then Some COLORSPACE_REC_709
      else if strcaseeq s ''601'' \<or> strcaseeq s ''bt601'' \<or> strcaseeq s ''rec601'' then Some COLORSPACE_REC_601
      else None)"

definition parse_color_range_arg :: "string \<Rightarrow> int option" where
  "parse_color_range_arg s = (if strcaseeq s ''limited'' then Some COLOR_RANGE_LIMITED
     else if strcaseeq s ''full'' then Some COLOR_RANGE_FULL else None)"

definition parse_stream_id_arg :: "string \<Rightarrow> u16 option" where
  "parse_stream_id_arg v = (let id = atoi v in if id < 1 \<or> id > 65535 then None else Some (word_of_int id))"

definition is_all_digits :: "string \<Rightarrow> bool" where
  "is_all_digits s \<longleftrightarrow> s \<noteq> [] \<and> list_all c_isdigit s"

definition default_key_dir :: "string option \<Rightarrow> string" where
  "default_key_dir home = (case home of
     Some h \<Rightarrow> if h \<noteq> [] then snprintf_s 512 (h @ ''/.cache/moonlight'') else ''./keys''
   | None \<Rightarrow> ''./keys'')"

definition default_limelight_color_space :: int where
  "default_limelight_color_space = COLORSPACE_REC_709"

section \<open>The video format\<close>

definition build_supported_video_formats :: "StreamOptions \<Rightarrow> int option" where
  "build_supported_video_formats opt =
     (if so_codec opt = STREAM_CODEC_H264 then
        (if so_bitdepth opt \<noteq> 8 then None
         else Some (if so_chroma opt = STREAM_CHROMA_444 then VIDEO_FORMAT_H264_HIGH8_444 else VIDEO_FORMAT_H264))
      else if so_codec opt = STREAM_CODEC_HEVC then
        Some (if so_chroma opt = STREAM_CHROMA_444
              then (if so_bitdepth opt = 10 then VIDEO_FORMAT_H265_REXT10_444 else VIDEO_FORMAT_H265_REXT8_444)
              else (if so_bitdepth opt = 10 then VIDEO_FORMAT_H265_MAIN10 else VIDEO_FORMAT_H265))
      else if so_codec opt = STREAM_CODEC_AV1 then
        Some (if so_chroma opt = STREAM_CHROMA_444
              then (if so_bitdepth opt = 10 then VIDEO_FORMAT_AV1_HIGH10_444 else VIDEO_FORMAT_AV1_HIGH8_444)
              else (if so_bitdepth opt = 10 then VIDEO_FORMAT_AV1_MAIN10 else VIDEO_FORMAT_AV1_MAIN8))
      else None)"

definition apply_default_codec_policy :: "StreamOptions \<Rightarrow> StreamOptions" where
  "apply_default_codec_policy opt =
     (if \<not> so_codec_explicit opt \<and> so_chroma opt = STREAM_CHROMA_444 \<and> so_codec opt = STREAM_CODEC_H264
      then opt\<lparr>so_codec := STREAM_CODEC_HEVC\<rparr> else opt)"

section \<open>The command lines\<close>

definition stream_options_defaults :: "string option \<Rightarrow> StreamOptions" where
  "stream_options_defaults home =
     \<lparr>so_host = None, so_app = None, so_key_dir = default_key_dir home, so_width = 1024, so_height = 768,
      so_fps = 30, so_bitrate = 10000, so_packet_size = 1392,
      so_ll_color_space = default_limelight_color_space, so_ll_color_range = COLOR_RANGE_FULL,
      so_tcp_host = ''127.0.0.1'', so_tcp_port = 9000, so_stream_id = 1,
      so_control_bind = ''127.0.0.1'', so_control_port = 0, so_skip_mode_check = True,
      so_codec = STREAM_CODEC_HEVC, so_chroma = STREAM_CHROMA_444, so_bitdepth = 8, so_codec_explicit = False\<rparr>"

definition pair_options_defaults :: "string option \<Rightarrow> PairOptions" where
  "pair_options_defaults home = \<lparr>po_host = None, po_key_dir = default_key_dir home, po_pin = None\<rparr>"

definition list_options_defaults :: "string option \<Rightarrow> ListOptions" where
  "list_options_defaults home = \<lparr>lo_host = None, lo_key_dir = default_key_dir home\<rparr>"

text \<open>\<open>argv[i][0] != '-'\<close>; the first character of an empty argument is the null character.\<close>

definition no_dash :: "string \<Rightarrow> bool" where
  "no_dash a \<longleftrightarrow> a = [] \<or> hd a \<noteq> CHR ''-''"

text \<open>An option without value, and an option with one; None when there is no such option, or the value is bad.\<close>

definition stream_switch :: "string \<Rightarrow> StreamOptions \<Rightarrow> StreamOptions option" where
  "stream_switch a o' =
     (if a = ''--skip-mode-check'' then Some (o'\<lparr>so_skip_mode_check := True\<rparr>)
      else if a = ''--enforce-mode-check'' then Some (o'\<lparr>so_skip_mode_check := False\<rparr>) else None)"

definition stream_option :: "string \<Rightarrow> string \<Rightarrow> StreamOptions \<Rightarrow> StreamOptions option" where
  "stream_option a v o' =
     (if a = ''--host'' then Some (o'\<lparr>so_host := Some v\<rparr>)
      else if a = ''--app'' then Some (o'\<lparr>so_app := Some v\<rparr>)
      else if a = ''--key-dir'' then Some (o'\<lparr>so_key_dir := v\<rparr>)
      else if a = ''--tcp-host'' then Some (o'\<lparr>so_tcp_host := snprintf_s 256 v\<rparr>)
      else if a = ''--tcp-port'' then Some (o'\<lparr>so_tcp_port := word_of_int (atoi v)\<rparr>)
      else if a = ''--stream-id'' then map_option (\<lambda>id. o'\<lparr>so_stream_id := id\<rparr>) (parse_stream_id_arg v)
      else if a = ''--width'' then Some (o'\<lparr>so_width := atoi v\<rparr>)
      else if a = ''--height'' then Some (o'\<lparr>so_height := atoi v\<rparr>)
      else if a = ''--fps'' then Some (o'\<lparr>so_fps := atoi v\<rparr>)
      else if a = ''--bitrate'' then Some (o'\<lparr>so_bitrate := atoi v\<rparr>)
      else if a = ''--packet-size'' then Some (o'\<lparr>so_packet_size := atoi v\<rparr>)
      else if a = ''--colorspace'' then map_option (\<lambda>c. o'\<lparr>so_ll_color_space := c\<rparr>) (parse_color_space_arg v)
      else if a = ''--range'' then map_option (\<lambda>c. o'\<lparr>so_ll_color_range := c\<rparr>) (parse_color_range_arg v)
      else if a = ''--codec'' then
        map_option (\<lambda>c. o'\<lparr>so_codec := c, so_codec_explicit := True\<rparr>) (parse_codec_arg v)
      else if a = ''--chroma'' then map_option (\<lambda>c. o'\<lparr>so_chroma := c\<rparr>) (parse_chroma_arg v)
      else if a = ''--bitdepth'' then map_option (\<lambda>c. o'\<lparr>so_bitdepth := c\<rparr>) (parse_bitdepth_arg v)
      else if a = ''--control-bind'' then Some (o'\<lparr>so_control_bind := v\<rparr>)
      else if a = ''--control-port'' then Some (o'\<lparr>so_control_port := atoi v\<rparr>)
      else None)"

fun stream_args :: "string list \<Rightarrow> StreamOptions \<Rightarrow> StreamOptions option" where
  "stream_args [] o' = Some o'"
| "stream_args (a # as) o' =
     (case stream_switch a o' of Some o1 \<Rightarrow> stream_args as o1 | None \<Rightarrow>
       (case as of [] \<Rightarrow> None | v # rest \<Rightarrow>
         (case stream_option a v o' of None \<Rightarrow> None | Some o1 \<Rightarrow> stream_args rest o1)))"

definition check_stream_options :: "StreamOptions \<Rightarrow> StreamOptions option" where
  "check_stream_options o' =
     (if so_host o' = None \<or> so_app o' = None then None
      else if so_width o' \<le> 0 \<or> so_height o' \<le> 0 \<or> so_fps o' \<le> 0 \<or> so_bitrate o' \<le> 0 \<or> so_packet_size o' \<le> 0 then None
      else if so_tcp_port o' = 0 then None
      else if so_control_port o' < 0 \<or> so_control_port o' > 65535 then None
      else let o1 = apply_default_codec_policy o' in
        if build_supported_video_formats o1 = None then None else Some o1)"

text \<open>The arguments behind the program's (or command's) name.\<close>

definition parse_stream_args :: "string option \<Rightarrow> string list \<Rightarrow> StreamOptions option" where
  "parse_stream_args home args =
     (let o0 = stream_options_defaults home in
      case (if length args = 2 \<and> no_dash (args ! 0) \<and> no_dash (args ! 1)
            then Some (o0\<lparr>so_host := Some (args ! 0), so_app := Some (args ! 1)\<rparr>)
            else stream_args args o0) of
        None \<Rightarrow> None | Some o1 \<Rightarrow> check_stream_options o1)"

fun pair_args :: "string list \<Rightarrow> PairOptions \<Rightarrow> PairOptions option" where
  "pair_args [] o' = Some o'"
| "pair_args (a # as) o' =
     (if a = ''--host'' \<and> as \<noteq> [] then pair_args (tl as) (o'\<lparr>po_host := Some (hd as)\<rparr>)
      else if a = ''--key-dir'' \<and> as \<noteq> [] then pair_args (tl as) (o'\<lparr>po_key_dir := hd as\<rparr>)
      else if a = ''--pin'' \<and> as \<noteq> [] then pair_args (tl as) (o'\<lparr>po_pin := Some (hd as)\<rparr>)
      else if no_dash a \<and> po_host o' = None then pair_args as (o'\<lparr>po_host := Some a\<rparr>)
      else if no_dash a \<and> po_pin o' = None then pair_args as (o'\<lparr>po_pin := Some a\<rparr>)
      else None)"

definition parse_pair_args :: "string option \<Rightarrow> string list \<Rightarrow> PairOptions option" where
  "parse_pair_args home args = (case pair_args args (pair_options_defaults home) of None \<Rightarrow> None
   | Some o' \<Rightarrow> if po_host o' = None then None
       else (case po_pin o' of None \<Rightarrow> Some o' | Some pin \<Rightarrow>
         if \<not> is_all_digits pin \<or> length pin \<noteq> 4 then None else Some o'))"

fun list_args :: "string list \<Rightarrow> ListOptions \<Rightarrow> ListOptions option" where
  "list_args [] o' = Some o'"
| "list_args (a # as) o' =
     (if a = ''--host'' \<and> as \<noteq> [] then list_args (tl as) (o'\<lparr>lo_host := Some (hd as)\<rparr>)
      else if a = ''--key-dir'' \<and> as \<noteq> [] then list_args (tl as) (o'\<lparr>lo_key_dir := hd as\<rparr>)
      else if no_dash a \<and> lo_host o' = None then list_args as (o'\<lparr>lo_host := Some a\<rparr>)
      else None)"

definition parse_list_args :: "string option \<Rightarrow> string list \<Rightarrow> ListOptions option" where
  "parse_list_args home args = (case list_args args (list_options_defaults home) of None \<Rightarrow> None
   | Some o' \<Rightarrow> if lo_host o' = None then None else Some o')"

text \<open>What the callbacks get of the options.\<close>

definition render_config :: "StreamOptions \<Rightarrow> int \<Rightarrow> int \<Rightarrow> WorkerRenderConfig" where
  "render_config o' formats fatal_code =
     \<lparr>wc_tcp_host = so_tcp_host o', wc_tcp_port = so_tcp_port o', wc_stream_id = so_stream_id o',
      wc_width = word_of_int (so_width o'), wc_height = word_of_int (so_height o'), wc_fps = word_of_int (so_fps o'),
      wc_bitrate = word_of_int (so_bitrate o'), wc_video_format = word_of_int formats,
      wc_codec = word_of_int (so_codec o'), wc_chroma = word_of_int (so_chroma o'),
      wc_bitdepth = word_of_int (so_bitdepth o'), wc_color_space = word_of_int (so_ll_color_space o'),
      wc_color_range = word_of_int (so_ll_color_range o'), wc_fatal_code = Some fatal_code\<rparr>"

definition generate_pair_pin :: "nat \<Rightarrow> string" where
  "generate_pair_pin rand = (let pin = show_nat (rand mod 10000) in snprintf_s 5 (replicate (4 - length pin) CHR ''0'' @ pin))"

section \<open>What accepted options guarantee\<close>

lemma atoi_range: "- 2147483648 \<le> atoi s" "atoi s < 2147483648"
proof -
  have "- (2 ^ 31) \<le> signed_take_bit 31 (fst (strtol10 s))" by (rule signed_take_bit_int_greater_eq_minus_exp)
  moreover have "signed_take_bit 31 (fst (strtol10 s)) < 2 ^ 31" by (rule signed_take_bit_int_less_exp)
  ultimately show "- 2147483648 \<le> atoi s" "atoi s < 2147483648" by (simp_all add: atoi_def to_int32_def)
qed

text \<open>The ranges every option has from the defaults on, and those the final checks add.\<close>

definition options_inv :: "StreamOptions \<Rightarrow> bool" where
  "options_inv o' \<longleftrightarrow> so_codec o' \<in> {0, 1, 2} \<and> so_chroma o' \<in> {0, 1} \<and> so_bitdepth o' \<in> {8, 10} \<and>
     so_ll_color_space o' \<in> {0, 1} \<and> so_ll_color_range o' \<in> {0, 1} \<and> so_stream_id o' \<noteq> 0 \<and>
     length (so_tcp_host o') < 256 \<and>
     so_width o' < 2147483648 \<and> so_height o' < 2147483648 \<and> so_fps o' < 2147483648 \<and> so_bitrate o' < 2147483648 \<and>
     so_packet_size o' < 2147483648"

definition options_valid :: "StreamOptions \<Rightarrow> bool" where
  "options_valid o' \<longleftrightarrow> options_inv o' \<and> so_host o' \<noteq> None \<and> so_app o' \<noteq> None \<and>
     0 < so_width o' \<and> 0 < so_height o' \<and> 0 < so_fps o' \<and> 0 < so_bitrate o' \<and> 0 < so_packet_size o' \<and>
     so_tcp_port o' \<noteq> 0 \<and> 0 \<le> so_control_port o' \<and> so_control_port o' \<le> 65535 \<and>
     (so_codec o' = STREAM_CODEC_H264 \<longrightarrow> so_bitdepth o' = 8)"

text \<open>A predicate of every answer of a chain of tests.\<close>

lemma all_some:
  "pred_option P x \<Longrightarrow> pred_option P y \<Longrightarrow> pred_option P (if c then x else y)"
  "P z \<Longrightarrow> pred_option P (Some z)"
  "pred_option P None"
  "(\<And>x. p = Some x \<Longrightarrow> P (f x)) \<Longrightarrow> pred_option P (map_option f p)"
  by (auto simp: option.pred_map pred_option_def)

lemma all_some_D: "pred_option P x \<Longrightarrow> x = Some z \<Longrightarrow> P z"
  by simp

lemma parsed_ranges:
  "pred_option (\<lambda>c. c \<in> {0, 1, 2}) (parse_codec_arg s)"
  "pred_option (\<lambda>c. c \<in> {0, 1}) (parse_chroma_arg s)"
  "pred_option (\<lambda>c. c \<in> {8, 10}) (parse_bitdepth_arg s)"
  "pred_option (\<lambda>c. c \<in> {0, 1}) (parse_color_space_arg s)"
  "pred_option (\<lambda>c. c \<in> {0, 1}) (parse_color_range_arg s)"
  unfolding parse_codec_arg_def parse_chroma_arg_def parse_bitdepth_arg_def parse_color_space_arg_def
    parse_color_range_arg_def option_consts
  by (intro all_some; simp)+

lemma uint_u16_id: "0 \<le> x \<Longrightarrow> x \<le> 65535 \<Longrightarrow> uint (word_of_int x :: u16) = x"
  by (simp add: uint_word_of_int)

lemma stream_id_nonzero: "pred_option (\<lambda>i. i \<noteq> 0) (parse_stream_id_arg v)"
proof (cases "atoi v < 1 \<or> 65535 < atoi v")
  case False
  then show ?thesis using uint_u16_id [of "atoi v"] by (auto simp: parse_stream_id_arg_def Let_def)
qed (simp add: parse_stream_id_arg_def Let_def)

lemma options_inv_upd:
  assumes "options_inv o'"
  shows "options_inv (o'\<lparr>so_host := h\<rparr>)" "options_inv (o'\<lparr>so_app := h\<rparr>)" "options_inv (o'\<lparr>so_key_dir := k\<rparr>)"
    "options_inv (o'\<lparr>so_tcp_host := snprintf_s 256 k\<rparr>)" "options_inv (o'\<lparr>so_tcp_port := q\<rparr>)"
    "options_inv (o'\<lparr>so_width := atoi v\<rparr>)" "options_inv (o'\<lparr>so_height := atoi v\<rparr>)" "options_inv (o'\<lparr>so_fps := atoi v\<rparr>)"
    "options_inv (o'\<lparr>so_bitrate := atoi v\<rparr>)" "options_inv (o'\<lparr>so_packet_size := atoi v\<rparr>)"
    "options_inv (o'\<lparr>so_control_bind := k\<rparr>)" "options_inv (o'\<lparr>so_control_port := n\<rparr>)"
    "options_inv (o'\<lparr>so_skip_mode_check := b\<rparr>)"
    "i \<noteq> 0 \<Longrightarrow> options_inv (o'\<lparr>so_stream_id := i\<rparr>)"
    "c \<in> {0, 1} \<Longrightarrow> options_inv (o'\<lparr>so_ll_color_space := c\<rparr>)"
    "c \<in> {0, 1} \<Longrightarrow> options_inv (o'\<lparr>so_ll_color_range := c\<rparr>)"
    "c \<in> {0, 1, 2} \<Longrightarrow> options_inv (o'\<lparr>so_codec := c, so_codec_explicit := b\<rparr>)"
    "c \<in> {0, 1} \<Longrightarrow> options_inv (o'\<lparr>so_chroma := c\<rparr>)"
    "c \<in> {8, 10} \<Longrightarrow> options_inv (o'\<lparr>so_bitdepth := c\<rparr>)"
  using assms atoi_range [of v] length_snprintf_s [of 256 k] by (simp_all add: options_inv_def)

lemma stream_switch_inv: "options_inv o' \<Longrightarrow> pred_option options_inv (stream_switch a o')"
  unfolding stream_switch_def by (intro all_some options_inv_upd)

lemma stream_option_inv: "options_inv o' \<Longrightarrow> pred_option options_inv (stream_option a v o')"
  unfolding stream_option_def
  by (intro all_some options_inv_upd; (assumption | drule all_some_D [OF parsed_ranges(1)] all_some_D [OF parsed_ranges(2)]
      all_some_D [OF parsed_ranges(3)] all_some_D [OF parsed_ranges(4)] all_some_D [OF parsed_ranges(5)]
      all_some_D [OF stream_id_nonzero], assumption))

lemma stream_args_inv: "options_inv o' \<Longrightarrow> pred_option options_inv (stream_args as o')"
proof (induction as o' rule: stream_args.induct)
  case (2 a as o')
  show ?case
  proof (cases "stream_switch a o'")
    case (Some o1)
    then show ?thesis using 2(2) [OF Some] stream_switch_inv [OF 2(3), of a] by simp
  next
    case None
    show ?thesis
    proof (cases as)
      case (Cons v rest)
      show ?thesis
      proof (cases "stream_option a v o'")
        case (Some o1)
        then show ?thesis
          using 2(1) [OF None Cons Some] stream_option_inv [OF 2(3), of a v] None Cons by simp
      qed (simp add: None Cons)
    qed (simp add: None)
  qed
qed simp

lemma defaults_inv: "options_inv (stream_options_defaults home)"
  by (simp add: options_inv_def stream_options_defaults_def option_consts default_limelight_color_space_def)

lemma policy_inv: "options_inv o' \<Longrightarrow> options_inv (apply_default_codec_policy o')"
  using options_inv_upd(17) [of o' 1 "so_codec_explicit o'"]
  by (simp add: apply_default_codec_policy_def STREAM_CODEC_HEVC_def)

lemma policy_fields [simp]:
  "so_host (apply_default_codec_policy o') = so_host o'" "so_app (apply_default_codec_policy o') = so_app o'"
  "so_width (apply_default_codec_policy o') = so_width o'" "so_height (apply_default_codec_policy o') = so_height o'"
  "so_fps (apply_default_codec_policy o') = so_fps o'" "so_bitrate (apply_default_codec_policy o') = so_bitrate o'"
  "so_packet_size (apply_default_codec_policy o') = so_packet_size o'"
  "so_tcp_port (apply_default_codec_policy o') = so_tcp_port o'"
  "so_control_port (apply_default_codec_policy o') = so_control_port o'"
  by (simp_all add: apply_default_codec_policy_def)

lemma policy_idem [simp]: "apply_default_codec_policy (apply_default_codec_policy o') = apply_default_codec_policy o'"
  by (simp add: apply_default_codec_policy_def option_consts)

lemma formats_some:
  "options_inv o' \<Longrightarrow> build_supported_video_formats o' \<noteq> None \<longleftrightarrow> (so_codec o' = STREAM_CODEC_H264 \<longrightarrow> so_bitdepth o' = 8)"
  by (auto simp: build_supported_video_formats_def options_inv_def option_consts)

lemma check_valid:
  assumes "check_stream_options o' = Some o1" and "options_inv o'"
  shows "options_valid o1" and "build_supported_video_formats o1 \<noteq> None" and "apply_default_codec_policy o1 = o1"
proof -
  have o1: "o1 = apply_default_codec_policy o'" and b: "build_supported_video_formats o1 \<noteq> None"
    and r: "so_host o' \<noteq> None" "so_app o' \<noteq> None" "0 < so_width o'" "0 < so_height o'" "0 < so_fps o'"
      "0 < so_bitrate o'" "0 < so_packet_size o'" "so_tcp_port o' \<noteq> 0" "0 \<le> so_control_port o'" "so_control_port o' \<le> 65535"
    using assms(1) by (simp_all add: check_stream_options_def Let_def split: if_splits)
  have inv: "options_inv o1" using policy_inv [OF assms(2)] o1 by simp
  show "build_supported_video_formats o1 \<noteq> None" by (rule b)
  show "apply_default_codec_policy o1 = o1" by (simp add: o1)
  show "options_valid o1"
    using b [unfolded formats_some [OF inv]] inv r unfolding options_valid_def by (simp add: o1)
qed

lemma parse_valid:
  assumes "parse_stream_args home args = Some o1"
  shows "options_valid o1" and "build_supported_video_formats o1 \<noteq> None" and "apply_default_codec_policy o1 = o1"
proof -
  obtain o' where c: "check_stream_options o' = Some o1" and
    o': "(if length args = 2 \<and> no_dash (args ! 0) \<and> no_dash (args ! 1)
          then Some ((stream_options_defaults home)\<lparr>so_host := Some (args ! 0), so_app := Some (args ! 1)\<rparr>)
          else stream_args args (stream_options_defaults home)) = Some o'"
    using assms by (auto simp: parse_stream_args_def Let_def split: option.splits)
  have "options_inv o'"
    by (rule all_some_D [OF _ o'], intro all_some stream_args_inv defaults_inv options_inv_upd)
  from check_valid [OF c this] show "options_valid o1" "build_supported_video_formats o1 \<noteq> None"
    "apply_default_codec_policy o1 = o1" by simp_all
qed

text \<open>The format that is offered is the only one that the callbacks accept.\<close>

lemma formats_metadata:
  assumes "options_valid o'" and "build_supported_video_formats o' = Some formats"
  shows "video_format_to_stream_metadata f =
      Some (word_of_int (so_codec o'), word_of_int (so_chroma o'), word_of_int (so_bitdepth o')) \<longleftrightarrow> f = formats"
proof -
  have "so_codec o' \<in> {0, 1, 2}" "so_chroma o' \<in> {0, 1}" "so_bitdepth o' \<in> {8, 10}"
    using assms(1) by (simp_all add: options_valid_def options_inv_def)
  then show ?thesis using assms(2)
    by (elim insertE emptyE)
      (simp_all add: build_supported_video_formats_def video_format_to_stream_metadata_def video_format_defs option_consts)
qed

text \<open>C16: the options the worker accepts are usable: a host and an application are named, every number is in
  its range, the TCP port and the stream id are not 0, the control port fits its 16 bits, and
  codec, chroma and bit depth form a combination that has a video format.\<close>

theorem accepted_options_safe:
  assumes "parse_stream_args home args = Some o'"
  shows "options_valid o' \<and> build_supported_video_formats o' \<noteq> None \<and> apply_default_codec_policy o' = o'"
  using parse_valid [OF assms] by simp

lemma atoi_literals: "atoi ''1920'' = 1920" "atoi ''1080'' = 1080" "atoi ''70000'' = 70000"
  by (simp_all add: atoi_def strtol10_def scan_signed_def c_isspace_def c_isdigit_def digit_val_def nat_of_digits_def
      clamp_long_def LONG_MAX_def to_int32_id)

definition ex_args :: "string list" where
  "ex_args = [''--host'', ''pc'', ''--app'', ''1'', ''--width'', ''1920'', ''--height'', ''1080'', ''--tcp-port'', ''70000'']"

definition ex_options :: StreamOptions where
  "ex_options = (stream_options_defaults None)\<lparr>so_host := Some ''pc'', so_app := Some ''1'',
     so_width := 1920, so_height := 1080, so_tcp_port := 4464\<rparr>"

lemma ex_parse: "parse_stream_args None ex_args = Some ex_options"
proof -
  have "stream_args ex_args (stream_options_defaults None) = Some ex_options"
    by (simp add: ex_args_def ex_options_def stream_option_def stream_switch_def atoi_literals stream_options_defaults_def)
  moreover have "check_stream_options ex_options = Some ex_options"
    by (simp add: check_stream_options_def ex_options_def stream_options_defaults_def apply_default_codec_policy_def
        build_supported_video_formats_def option_consts Let_def)
  ultimately show ?thesis by (simp add: parse_stream_args_def Let_def ex_args_def)
qed

theorem accepted_options_safe_witness:
  "parse_stream_args None ex_args = Some ex_options \<and> options_valid ex_options"
  using ex_parse accepted_options_safe [OF ex_parse] by simp

section \<open>Options and the callbacks\<close>

text \<open>The configuration the main function fills is the one its callbacks check the negotiated format against.\<close>

lemma own_format:
  assumes "parse_stream_args home args = Some o'" and "build_supported_video_formats o' = Some formats"
    and "worker_setup ok ce now fmt width height (Some (render_config o' formats WORKER_FATAL_NONE)) w = Some (rc, w')"
  shows "if fmt = formats
    then map_option wc_fatal_code (w_cfg w') \<noteq> Some (Some WORKER_FATAL_NEGOTIATION_MISMATCH)
    else rc = - 1 \<and> map_option wc_fatal_code (w_cfg w') = Some (Some WORKER_FATAL_NEGOTIATION_MISMATCH)"
proof -
  let ?cfg = "render_config o' formats WORKER_FATAL_NONE"
  have "wc_fatal_code ?cfg = Some WORKER_FATAL_NONE" by (simp add: render_config_def)
  moreover have "video_format_to_stream_metadata fmt = Some (wc_codec ?cfg, wc_chroma ?cfg, wc_bitdepth ?cfg) \<longleftrightarrow>
      fmt = formats"
    using formats_metadata [OF parse_valid(1) [OF assms(1)] assms(2), of fmt] by (simp add: render_config_def)
  ultimately show ?thesis using assms(3)
    by (auto simp: worker_setup_def Let_def set_fatal_once_def set_fatal_code_def worker_fatal_defs
        split: option.splits if_splits prod.splits)
qed

text \<open>the worker takes the stream it asked for and no other: with accepted options the setup callback
  refuses every video format but the one offered to the host, with the fatal code for a failed
  negotiation, and does not refuse that one.\<close>

theorem worker_accepts_own_format:
  assumes "parse_stream_args home args = Some o'" and "build_supported_video_formats o' = Some formats"
    and "worker_setup ok ce now fmt width height (Some (render_config o' formats WORKER_FATAL_NONE)) w = Some (rc, w')"
  shows "if fmt = formats
    then map_option wc_fatal_code (w_cfg w') \<noteq> Some (Some WORKER_FATAL_NEGOTIATION_MISMATCH)
    else rc = - 1 \<and> map_option wc_fatal_code (w_cfg w') = Some (Some WORKER_FATAL_NEGOTIATION_MISMATCH)"
  using own_format [OF assms] .

lemma ex_formats: "build_supported_video_formats ex_options = Some VIDEO_FORMAT_H265_REXT8_444"
  by (simp add: build_supported_video_formats_def ex_options_def stream_options_defaults_def option_consts)

theorem worker_accepts_own_format_witness:
  "\<exists>rc w'. worker_setup True ex_connect 0 VIDEO_FORMAT_H264 640 480
      (Some (render_config ex_options VIDEO_FORMAT_H265_REXT8_444 WORKER_FATAL_NONE)) (ex_worker TCP_STATE_DISCONNECTED) =
      Some (rc, w') \<and> rc = - 1 \<and> map_option wc_fatal_code (w_cfg w') = Some (Some 8)"
proof -
  have "video_format_to_stream_metadata VIDEO_FORMAT_H264 = Some (0, 0, 8)"
    by (simp add: video_format_to_stream_metadata_def)
  then obtain rc w' where "worker_setup True ex_connect 0 VIDEO_FORMAT_H264 640 480
      (Some (render_config ex_options VIDEO_FORMAT_H265_REXT8_444 WORKER_FATAL_NONE)) (ex_worker TCP_STATE_DISCONNECTED) =
      Some (rc, w')"
    by (simp add: worker_setup_def Let_def render_config_def ex_options_def stream_options_defaults_def option_consts)
  then show ?thesis
    using worker_accepts_own_format [OF ex_parse ex_formats] by (force simp: video_format_defs worker_fatal_defs)
qed

section \<open>Printing and parsing options\<close>

definition codec_arg :: "int \<Rightarrow> string" where
  "codec_arg c = (if c = STREAM_CODEC_H264 then ''h264'' else if c = STREAM_CODEC_HEVC then ''hevc'' else ''av1'')"

definition options_line :: "string \<Rightarrow> string \<Rightarrow> StreamOptions \<Rightarrow> string list" where
  "options_line h a o' =
     [''--host'', h, ''--app'', a, ''--key-dir'', so_key_dir o', ''--tcp-host'', so_tcp_host o',
      ''--tcp-port'', show_nat (unat (so_tcp_port o')), ''--stream-id'', show_nat (unat (so_stream_id o')),
      ''--width'', show_nat (nat (so_width o')), ''--height'', show_nat (nat (so_height o')),
      ''--fps'', show_nat (nat (so_fps o')), ''--bitrate'', show_nat (nat (so_bitrate o')),
      ''--packet-size'', show_nat (nat (so_packet_size o')),
      ''--colorspace'', (if so_ll_color_space o' = COLORSPACE_REC_709 then ''709'' else ''601''),
      ''--range'', (if so_ll_color_range o' = COLOR_RANGE_FULL then ''full'' else ''limited''),
      ''--codec'', codec_arg (so_codec o'), ''--chroma'', (if so_chroma o' = STREAM_CHROMA_444 then ''444'' else ''420''),
      ''--bitdepth'', show_nat (nat (so_bitdepth o')),
      (if so_skip_mode_check o' then ''--skip-mode-check'' else ''--enforce-mode-check''),
      ''--control-bind'', so_control_bind o', ''--control-port'', show_nat (nat (so_control_port o'))]"

lemma atoi_show_nat: "n < 2147483648 \<Longrightarrow> atoi (show_nat n) = int n"
  using scan_signed_show_nat [of "[]" n] by (simp add: atoi_def strtol10_def clamp_long_id to_int32_id)

lemma atoi_show_int: "0 \<le> i \<Longrightarrow> i < 2147483648 \<Longrightarrow> atoi (show_nat (nat i)) = i"
  by (simp add: atoi_show_nat)

lemma parse_printed: "c \<in> {0, 1, 2} \<Longrightarrow> parse_codec_arg (codec_arg c) = Some c"
  by (elim insertE emptyE)
    (simp_all add: parse_codec_arg_def codec_arg_def option_consts strcaseeq_def c_tolower_def Let_def)

lemma parse_printed_colors:
  "i \<in> {0, 1} \<Longrightarrow> parse_color_space_arg (if i = COLORSPACE_REC_709 then ''709'' else ''601'') = Some i"
  "i \<in> {0, 1} \<Longrightarrow> parse_color_range_arg (if i = COLOR_RANGE_FULL then ''full'' else ''limited'') = Some i"
  "i \<in> {0, 1} \<Longrightarrow> parse_chroma_arg (if i = STREAM_CHROMA_444 then ''444'' else ''420'') = Some i"
  by (elim insertE emptyE; simp add: parse_color_space_arg_def parse_color_range_arg_def parse_chroma_arg_def option_consts
      strcaseeq_def c_tolower_def Let_def)+

lemma digit_chars: "char_of (56 :: nat) = CHR ''8''" "char_of (49 :: nat) = CHR ''1''" "char_of (48 :: nat) = CHR ''0''"
  by code_simp+

lemma unat_u16: "unat (i :: u16) < 65536"
proof -
  have "unat i < 2 ^ LENGTH(16)" by (rule unsigned_less)
  then show ?thesis by simp
qed

lemma parse_printed_bitdepth: "i \<in> {8, 10} \<Longrightarrow> parse_bitdepth_arg (show_nat (nat i)) = Some i"
  by (elim insertE emptyE; simp add: parse_bitdepth_arg_def show_nat.simps digit_chars)

lemma parse_printed_stream_id: "i \<noteq> 0 \<Longrightarrow> parse_stream_id_arg (show_nat (unat i)) = Some i"
proof -
  assume "i \<noteq> 0"
  then have "0 < int (unat i)" "int (unat i) < 65536" using unat_u16 [of i] by (simp_all add: unat_gt_0 del: of_nat_unat)
  then have "0 < uint i" "uint i < 65536" by (simp_all only: of_nat_unat)
  then show ?thesis using unat_u16 [of i] by (simp add: parse_stream_id_arg_def Let_def atoi_show_nat)
qed

text \<open>What each named option does, once its value is known.\<close>

lemma stream_option_value:
  "stream_args (''--host'' # v # as) x = stream_args as (x\<lparr>so_host := Some v\<rparr>)"
  "stream_args (''--app'' # v # as) x = stream_args as (x\<lparr>so_app := Some v\<rparr>)"
  "stream_args (''--key-dir'' # v # as) x = stream_args as (x\<lparr>so_key_dir := v\<rparr>)"
  "stream_args (''--tcp-host'' # v # as) x = stream_args as (x\<lparr>so_tcp_host := snprintf_s 256 v\<rparr>)"
  "stream_args (''--tcp-port'' # v # as) x = stream_args as (x\<lparr>so_tcp_port := word_of_int (atoi v)\<rparr>)"
  "stream_args (''--width'' # v # as) x = stream_args as (x\<lparr>so_width := atoi v\<rparr>)"
  "stream_args (''--height'' # v # as) x = stream_args as (x\<lparr>so_height := atoi v\<rparr>)"
  "stream_args (''--fps'' # v # as) x = stream_args as (x\<lparr>so_fps := atoi v\<rparr>)"
  "stream_args (''--bitrate'' # v # as) x = stream_args as (x\<lparr>so_bitrate := atoi v\<rparr>)"
  "stream_args (''--packet-size'' # v # as) x = stream_args as (x\<lparr>so_packet_size := atoi v\<rparr>)"
  "stream_args (''--control-bind'' # v # as) x = stream_args as (x\<lparr>so_control_bind := v\<rparr>)"
  "stream_args (''--control-port'' # v # as) x = stream_args as (x\<lparr>so_control_port := atoi v\<rparr>)"
  "stream_args (''--skip-mode-check'' # as) x = stream_args as (x\<lparr>so_skip_mode_check := True\<rparr>)"
  "stream_args (''--enforce-mode-check'' # as) x = stream_args as (x\<lparr>so_skip_mode_check := False\<rparr>)"
  "parse_stream_id_arg v = Some i \<Longrightarrow> stream_args (''--stream-id'' # v # as) x = stream_args as (x\<lparr>so_stream_id := i\<rparr>)"
  "parse_color_space_arg v = Some n \<Longrightarrow> stream_args (''--colorspace'' # v # as) x = stream_args as (x\<lparr>so_ll_color_space := n\<rparr>)"
  "parse_color_range_arg v = Some n \<Longrightarrow> stream_args (''--range'' # v # as) x = stream_args as (x\<lparr>so_ll_color_range := n\<rparr>)"
  "parse_codec_arg v = Some n \<Longrightarrow>
    stream_args (''--codec'' # v # as) x = stream_args as (x\<lparr>so_codec := n, so_codec_explicit := True\<rparr>)"
  "parse_chroma_arg v = Some n \<Longrightarrow> stream_args (''--chroma'' # v # as) x = stream_args as (x\<lparr>so_chroma := n\<rparr>)"
  "parse_bitdepth_arg v = Some n \<Longrightarrow> stream_args (''--bitdepth'' # v # as) x = stream_args as (x\<lparr>so_bitdepth := n\<rparr>)"
  by (simp_all add: stream_option_def stream_switch_def)

lemma skip_flag:
  "stream_args ((if b then ''--skip-mode-check'' else ''--enforce-mode-check'') # as) x =
   stream_args as (x\<lparr>so_skip_mode_check := b\<rparr>)"
  by (cases b) (simp_all only: if_True if_False stream_option_value)

text \<open>C17: options survive the command line: accepted options with an explicit codec, printed as
  arguments with every switch and number spelled out, are parsed back to exactly themselves.\<close>

theorem options_roundtrip:
  assumes "options_valid o'" and "so_host o' = Some h" and "so_app o' = Some a" and "so_codec_explicit o'"
  shows "parse_stream_args home (options_line h a o') = Some o'"
proof -
  have inv: "options_inv o'" and pos: "0 < so_width o'" "0 < so_height o'" "0 < so_fps o'" "0 < so_bitrate o'"
    "0 < so_packet_size o'" "so_tcp_port o' \<noteq> 0" "0 \<le> so_control_port o'" "so_control_port o' \<le> 65535"
    and profile: "so_codec o' = STREAM_CODEC_H264 \<longrightarrow> so_bitdepth o' = 8"
    using assms(1) by (simp_all add: options_valid_def)
  have fields: "so_codec o' \<in> {0, 1, 2}" "so_chroma o' \<in> {0, 1}" "so_bitdepth o' \<in> {8, 10}"
    "so_ll_color_space o' \<in> {0, 1}" "so_ll_color_range o' \<in> {0, 1}" "so_stream_id o' \<noteq> 0" "length (so_tcp_host o') < 256"
    "so_width o' < 2147483648" "so_height o' < 2147483648" "so_fps o' < 2147483648" "so_bitrate o' < 2147483648"
    "so_packet_size o' < 2147483648"
    using inv unfolding options_inv_def by blast+
  have port: "word_of_int (atoi (show_nat (unat (so_tcp_port o')))) = so_tcp_port o'"
    using unat_u16 [of "so_tcp_port o'"] by (simp add: atoi_show_nat)
  have host: "snprintf_s 256 (so_tcp_host o') = so_tcp_host o'" using fields(7) by (simp add: snprintf_s_def)
  have run: "stream_args (options_line h a o') (stream_options_defaults home) = Some o'"
    unfolding options_line_def
    apply (simp only: stream_option_value(1-14) skip_flag port host
        stream_option_value(15) [OF parse_printed_stream_id [OF fields(6)]]
        stream_option_value(16) [OF parse_printed_colors(1) [OF fields(4)]]
        stream_option_value(17) [OF parse_printed_colors(2) [OF fields(5)]]
        stream_option_value(18) [OF parse_printed [OF fields(1)]]
        stream_option_value(19) [OF parse_printed_colors(3) [OF fields(2)]]
        stream_option_value(20) [OF parse_printed_bitdepth [OF fields(3)]])
    using pos fields assms by (simp add: atoi_show_int stream_options_defaults_def)
  have "check_stream_options o' = Some o'"
    using pos assms formats_some [OF inv] profile
    by (simp add: check_stream_options_def Let_def apply_default_codec_policy_def)
  then show ?thesis using run by (simp add: parse_stream_args_def Let_def options_line_def)
qed

definition ex_explicit :: StreamOptions where
  "ex_explicit = ex_options\<lparr>so_codec_explicit := True\<rparr>"

theorem options_roundtrip_witness:
  "parse_stream_args None (options_line ''pc'' ''1'' ex_explicit) = Some ex_explicit"
proof (rule options_roundtrip)
  have "options_valid ex_options" by (rule parse_valid(1) [OF ex_parse])
  then show "options_valid ex_explicit" by (simp add: ex_explicit_def options_valid_def options_inv_def)
  show "so_host ex_explicit = Some ''pc''" "so_app ex_explicit = Some ''1''" "so_codec_explicit ex_explicit"
    by (simp_all add: ex_explicit_def ex_options_def)
qed

section \<open>The generated PIN\<close>

lemma digits_padded: "list_all c_isdigit (replicate k CHR ''0'' @ show_nat n)"
proof -
  have "c_isdigit CHR ''0''" by (simp add: c_isdigit_def)
  then show ?thesis using show_nat_digits [of n] by (induction k) simp_all
qed

lemma scan_signed_digits:
  assumes "list_all c_isdigit (c # cs)"
  shows "scan_signed (c # cs) = Some (int (nat_of_digits (c # cs)), [])"
proof -
  have c: "\<not> c_isspace c" "c \<noteq> CHR ''-''" "c \<noteq> CHR ''+''" "c_isdigit c"
    using assms digit_not_space [of c] by simp_all
  have w: "takeWhile c_isdigit (c # cs) = c # cs" "dropWhile c_isdigit (c # cs) = []"
    using takeWhile_digits [OF assms, of "[]"] by simp_all
  show ?thesis unfolding scan_signed_def Let_def using c w by (simp del: takeWhile_eq_all_conv dropWhile_eq_Nil_conv)
qed

text \<open>a PIN the worker makes up is one it would accept: four digits, whatever \<open>rand\<close> answers.\<close>

theorem generated_pin_accepted:
  "is_all_digits (generate_pair_pin r) \<and> length (generate_pair_pin r) = 4 \<and> atoi (generate_pair_pin r) = int (r mod 10000)"
proof -
  let ?d = "show_nat (r mod 10000)"
  let ?p = "replicate (4 - length ?d) CHR ''0'' @ ?d"
  have len: "length ?d \<le> 4" using length_show_nat [of 4 "r mod 10000"] by simp
  then have pin: "generate_pair_pin r = ?p" by (simp add: generate_pair_pin_def Let_def snprintf_s_def)
  have zeros: "nat_of_digits (replicate k CHR ''0'' @ xs) = nat_of_digits xs" for k xs
    by (induction k) (simp_all add: nat_of_digits_def digit_val_def)
  have dig: "list_all c_isdigit ?p" by (rule digits_padded)
  have ne: "?p \<noteq> []" using show_nat_digits [of "r mod 10000"] by simp
  have "scan_signed ?p = Some (int (nat_of_digits ?p), [])"
    using dig ne scan_signed_digits by (metis neq_Nil_conv)
  then have "atoi ?p = int (r mod 10000)"
    by (simp add: atoi_def strtol10_def zeros nat_of_digits_show_nat clamp_long_id to_int32_id)
  then show ?thesis using dig ne len by (simp add: pin is_all_digits_def)
qed

end
