(* ===== verification/MlCtl.thy ===== *)
theory MlCtl
  imports Prelude
begin

text \<open>
  The UDP control protocol (\<open>include/control_socket.h\<close>, copied in both servers'
  \<open>mlctl_cmd.h\<close>): the packed command header, its image in memory, and the command numbers.
\<close>

definition ML_CTRL_MAGIC :: u32 where "ML_CTRL_MAGIC = 0x4d4c4354"
definition ML_CTRL_VERSION :: u16 where "ML_CTRL_VERSION = 1"

definition ML_CTRL_CMD_MOUSE_ABS :: u16 where "ML_CTRL_CMD_MOUSE_ABS = 1"
definition ML_CTRL_CMD_MOUSE_REL :: u16 where "ML_CTRL_CMD_MOUSE_REL = 2"
definition ML_CTRL_CMD_MOUSE_BUTTON :: u16 where "ML_CTRL_CMD_MOUSE_BUTTON = 3"
definition ML_CTRL_CMD_MOUSE_CLICK :: u16 where "ML_CTRL_CMD_MOUSE_CLICK = 4"
definition ML_CTRL_CMD_MOUSE_SCROLL :: u16 where "ML_CTRL_CMD_MOUSE_SCROLL = 5"
definition ML_CTRL_CMD_MOUSE_HSCROLL :: u16 where "ML_CTRL_CMD_MOUSE_HSCROLL = 6"
definition ML_CTRL_CMD_KEYBOARD :: u16 where "ML_CTRL_CMD_KEYBOARD = 7"
definition ML_CTRL_CMD_KEY_PRESS :: u16 where "ML_CTRL_CMD_KEY_PRESS = 8"
definition ML_CTRL_CMD_TEXT :: u16 where "ML_CTRL_CMD_TEXT = 9"
definition ML_CTRL_CMD_REQ_IDR :: u16 where "ML_CTRL_CMD_REQ_IDR = 10"

lemmas mlctl_consts = ML_CTRL_MAGIC_def ML_CTRL_VERSION_def ML_CTRL_CMD_MOUSE_ABS_def
  ML_CTRL_CMD_MOUSE_REL_def ML_CTRL_CMD_MOUSE_BUTTON_def ML_CTRL_CMD_MOUSE_CLICK_def
  ML_CTRL_CMD_MOUSE_SCROLL_def ML_CTRL_CMD_MOUSE_HSCROLL_def ML_CTRL_CMD_KEYBOARD_def
  ML_CTRL_CMD_KEY_PRESS_def ML_CTRL_CMD_TEXT_def ML_CTRL_CMD_REQ_IDR_def

record MlControlCmd =
  mc_magic :: u32
  mc_version :: u16
  mc_type :: u16
  mc_a :: u32
  mc_b :: u32
  mc_c :: u32
  mc_d :: u32
  mc_seq :: u64

text \<open>The 32 bytes of the packed struct; the signed fields are held as their bit patterns.\<close>

definition sizeof_MlControlCmd :: nat where "sizeof_MlControlCmd = 32"

definition cmd_bytes :: "MlControlCmd \<Rightarrow> u8 list" where
  "cmd_bytes c = put_le32 (mc_magic c) @ put_le16 (mc_version c) @ put_le16 (mc_type c) @
     put_le32 (mc_a c) @ put_le32 (mc_b c) @ put_le32 (mc_c c) @ put_le32 (mc_d c) @
     put_le64 (mc_seq c)"

definition read_le32 :: "u8 list \<Rightarrow> nat \<Rightarrow> u32" where
  "read_le32 b i = le32 (b ! i) (b ! (i + 1)) (b ! (i + 2)) (b ! (i + 3))"

definition cmd_of_bytes :: "u8 list \<Rightarrow> MlControlCmd" where
  "cmd_of_bytes b = \<lparr>mc_magic = read_le32 b 0, mc_version = le16 (b ! 4) (b ! 5),
     mc_type = le16 (b ! 6) (b ! 7), mc_a = read_le32 b 8, mc_b = read_le32 b 12,
     mc_c = read_le32 b 16, mc_d = read_le32 b 20,
     mc_seq = le64 (read_le32 b 24) (read_le32 b 28)\<rparr>"

lemma length_cmd_bytes [simp]: "length (cmd_bytes c) = sizeof_MlControlCmd"
  by (simp add: cmd_bytes_def put_le32_def put_le16_def put_le64_def sizeof_MlControlCmd_def)

lemma cmd_of_bytes_roundtrip: "cmd_of_bytes (cmd_bytes c @ rest) = c"
  by (simp add: cmd_of_bytes_def cmd_bytes_def put_le32_def put_le16_def put_le64_def
      read_le32_def le32_def le16_def be32_byte_at be16_byte_at le64_split)

end
