(* ===== verification/ControlSocket.thy ===== *)
theory ControlSocket
  imports MlCtl
begin

text \<open>
  The control socket of \<open>ml_worker\<close> (\<open>src/control_socket.c\<close>): datagrams are validated and
  turned into Limelight input calls. The Limelight library is not modelled: the calls made
  are recorded in order as values of \<open>li_call\<close>, and the code each call returns is the
  argument \<open>li\<close>.
\<close>

section \<open>Limelight calls\<close>

datatype li_call =
    LiSendMousePositionEvent int int int int
  | LiSendMouseMoveEvent int int
  | LiSendMouseButtonEvent int int
  | LiSendScrollEvent int
  | LiSendHScrollEvent int
  | LiSendKeyboardEvent int int int
  | LiSendUtf8TextEvent "u8 list"
  | LiRequestIdrFrame

definition BUTTON_ACTION_PRESS :: int where "BUTTON_ACTION_PRESS = 7"
definition BUTTON_ACTION_RELEASE :: int where "BUTTON_ACTION_RELEASE = 8"
definition KEY_ACTION_DOWN :: int where "KEY_ACTION_DOWN = 3"
definition KEY_ACTION_UP :: int where "KEY_ACTION_UP = 4"

text \<open>The C casts to \<open>short\<close> and to (signed) \<open>char\<close>.\<close>

definition to_short :: "int \<Rightarrow> int" where "to_short v = signed_take_bit 15 v"
definition to_char :: "int \<Rightarrow> int" where "to_char v = signed_take_bit 7 v"

section \<open>Dispatch\<close>

definition clamp_int :: "int \<Rightarrow> int \<Rightarrow> int \<Rightarrow> int" where
  "clamp_int v lo hi = (if v < lo then lo else if v > hi then hi else v)"

definition clamp_short_signed :: "int \<Rightarrow> int" where
  "clamp_short_signed v =
     (if v < - 32768 then - 32768 else if v > 32767 then 32767 else to_short v)"

text \<open>Two calls in a row, the second only if the first returned 0.\<close>

definition call_twice :: "(li_call \<Rightarrow> int) \<Rightarrow> li_call \<Rightarrow> li_call \<Rightarrow> int \<times> li_call list" where
  "call_twice li p q = (let rc = li p in if rc \<noteq> 0 then (rc, [p]) else (li q, [p, q]))"

definition dispatch_cmd ::
  "(li_call \<Rightarrow> int) \<Rightarrow> MlControlCmd \<Rightarrow> u8 list \<Rightarrow> int \<Rightarrow> int \<Rightarrow> int \<times> li_call list" where
  "dispatch_cmd li cmd payload reference_width reference_height =
     (let a = sint (mc_a cmd); b = sint (mc_b cmd); c = sint (mc_c cmd); d = sint (mc_d cmd);
          call = (\<lambda>x. (li x, [x]))
      in
      if mc_type cmd = ML_CTRL_CMD_MOUSE_ABS then
        let ref_w = (if c > 0 then c else reference_width);
            ref_h = (if d > 0 then d else reference_height)
        in if ref_w \<le> 0 \<or> ref_h \<le> 0 then (- 1, [])
           else
             let x = clamp_int a 0 (ref_w - 1);
                 y = clamp_int b 0 (ref_h - 1)
             in call (LiSendMousePositionEvent (to_short x) (to_short y)
                        (to_short ref_w) (to_short ref_h))
      else if mc_type cmd = ML_CTRL_CMD_MOUSE_REL then
        call (LiSendMouseMoveEvent (clamp_short_signed a) (clamp_short_signed b))
      else if mc_type cmd = ML_CTRL_CMD_MOUSE_BUTTON then
        call (LiSendMouseButtonEvent (to_char a) b)
      else if mc_type cmd = ML_CTRL_CMD_MOUSE_CLICK then
        call_twice li (LiSendMouseButtonEvent BUTTON_ACTION_PRESS a)
                      (LiSendMouseButtonEvent BUTTON_ACTION_RELEASE a)
      else if mc_type cmd = ML_CTRL_CMD_MOUSE_SCROLL then call (LiSendScrollEvent (to_char a))
      else if mc_type cmd = ML_CTRL_CMD_MOUSE_HSCROLL then call (LiSendHScrollEvent (to_char a))
      else if mc_type cmd = ML_CTRL_CMD_KEYBOARD then
        call (LiSendKeyboardEvent (to_short a) (to_char b) (to_char c))
      else if mc_type cmd = ML_CTRL_CMD_KEY_PRESS then
        call_twice li (LiSendKeyboardEvent (to_short a) KEY_ACTION_DOWN (to_char b))
                      (LiSendKeyboardEvent (to_short a) KEY_ACTION_UP (to_char b))
      else if mc_type cmd = ML_CTRL_CMD_TEXT then
        (if sint (of_nat (length payload) :: u32) \<noteq> a then (- 1, [])
         else if length payload = 0 then (0, [])
         else call (LiSendUtf8TextEvent payload))
      else if mc_type cmd = ML_CTRL_CMD_REQ_IDR then (0, [LiRequestIdrFrame])
      else (- 1, []))"

section \<open>The socket\<close>

record ControlSocket =
  cs_fd :: int
  cs_port :: u16

text \<open>What the system calls of \<open>control_socket_open\<close> answer.\<close>

record open_env =
  oe_socket :: int
  oe_flags :: int
  oe_setfl :: int
  oe_pton :: "string \<Rightarrow> int"
  oe_bind :: int

text \<open>The result is the code, the object, and the descriptors closed on the way.\<close>

definition control_socket_open ::
  "open_env \<Rightarrow> string option \<Rightarrow> u16 \<Rightarrow> int \<times> ControlSocket \<times> int list" where
  "control_socket_open e bind_ip port =
     (let s = \<lparr>cs_fd = - 1, cs_port = 0\<rparr> in
      if port = 0 then (0, s, [])
      else
        let ip = (case bind_ip of None \<Rightarrow> ''127.0.0.1''
                  | Some i \<Rightarrow> if i = [] then ''127.0.0.1'' else i);
            fd = oe_socket e
        in if fd < 0 then (- 1, s, [])
           else if oe_flags e < 0 \<or> oe_setfl e < 0 then (- 1, s, [fd])
           else if oe_pton e ip \<noteq> 1 then (- 1, s, [fd])
           else if oe_bind e < 0 then (- 1, s, [fd])
           else (0, \<lparr>cs_fd = fd, cs_port = port\<rparr>, []))"

definition control_socket_close :: "ControlSocket \<Rightarrow> ControlSocket \<times> int list" where
  "control_socket_close s =
     (if cs_fd s \<ge> 0 then (\<lparr>cs_fd = - 1, cs_port = 0\<rparr>, [cs_fd s])
      else (s\<lparr>cs_port := 0\<rparr>, []))"

definition ML_CTRL_MAX_PACKET :: nat where "ML_CTRL_MAX_PACKET = 2048"

text \<open>The answers of \<open>recvfrom\<close>; a longer datagram is cut to the buffer by the kernel.\<close>

datatype recvfrom_answer = Datagram "u8 list" | RecvfromAgain | RecvfromError

fun control_socket_loop ::
  "(li_call \<Rightarrow> int) \<Rightarrow> int \<Rightarrow> int \<Rightarrow> recvfrom_answer list \<Rightarrow> int \<Rightarrow> li_call list \<Rightarrow>
   (int \<times> li_call list \<times> recvfrom_answer list) option" where
  "control_socket_loop li rw rh [] processed calls = None"
| "control_socket_loop li rw rh (RecvfromAgain # as) processed calls = Some (processed, calls, as)"
| "control_socket_loop li rw rh (RecvfromError # as) processed calls = Some (processed, calls, as)"
| "control_socket_loop li rw rh (Datagram d # as) processed calls =
     (let packet = take ML_CTRL_MAX_PACKET d; n = length packet in
      if n < sizeof_MlControlCmd then control_socket_loop li rw rh as processed calls
      else
        let cmd = cmd_of_bytes packet in
        if mc_magic cmd \<noteq> ML_CTRL_MAGIC then control_socket_loop li rw rh as processed calls
        else if mc_version cmd \<noteq> ML_CTRL_VERSION then
          control_socket_loop li rw rh as processed calls
        else
          let payload = drop sizeof_MlControlCmd packet in
          case dispatch_cmd li cmd payload rw rh of (rc, cs) \<Rightarrow>
            control_socket_loop li rw rh as (processed + 1) (calls @ cs))"

definition control_socket_process_all ::
  "(li_call \<Rightarrow> int) \<Rightarrow> recvfrom_answer list \<Rightarrow> ControlSocket \<Rightarrow> int \<Rightarrow> int \<Rightarrow>
   (int \<times> li_call list \<times> recvfrom_answer list) option" where
  "control_socket_process_all li as s rw rh =
     (if cs_fd s < 0 then Some (0, [], as) else control_socket_loop li rw rh as 0 [])"

section \<open>Lemmas\<close>

text \<open>The commands a datagram stands for: at most one.\<close>

definition datagram_cmds :: "u8 list \<Rightarrow> (MlControlCmd \<times> u8 list) list" where
  "datagram_cmds d =
     (let p = take ML_CTRL_MAX_PACKET d in
      if length p \<ge> sizeof_MlControlCmd \<and> mc_magic (cmd_of_bytes p) = ML_CTRL_MAGIC \<and>
         mc_version (cmd_of_bytes p) = ML_CTRL_VERSION
      then [(cmd_of_bytes p, drop sizeof_MlControlCmd p)] else [])"

text \<open>The datagrams read before the queue is empty or fails.\<close>

fun datagrams :: "recvfrom_answer list \<Rightarrow> u8 list list" where
  "datagrams (Datagram d # as) = d # datagrams as"
| "datagrams _ = []"

lemma control_socket_loop_datagram:
  "control_socket_loop li rw rh (Datagram d # as) processed calls =
     (case datagram_cmds d of
        [] \<Rightarrow> control_socket_loop li rw rh as processed calls
      | (c, p) # _ \<Rightarrow> control_socket_loop li rw rh as (processed + 1)
                         (calls @ snd (dispatch_cmd li c p rw rh)))"
  by (auto simp: datagram_cmds_def Let_def not_less split: prod.splits)

lemma control_socket_loop_eq:
  assumes "control_socket_loop li rw rh as processed calls = Some (n, cs, rest)"
  shows "n = processed + int (length (concat (map datagram_cmds (datagrams as)))) \<and>
    cs = calls @ concat (map (\<lambda>(c, p). snd (dispatch_cmd li c p rw rh))
           (concat (map datagram_cmds (datagrams as))))"
  using assms
  by (induction li rw rh as processed calls rule: control_socket_loop.induct)
    (auto simp: datagram_cmds_def Let_def not_less split: if_splits prod.splits)

lemma control_socket_loop_returns:
  "as \<noteq> [] \<Longrightarrow> last as = RecvfromAgain \<Longrightarrow> control_socket_loop li rw rh as processed calls \<noteq> None"
proof (induction li rw rh as processed calls rule: control_socket_loop.induct)
  case (4 li rw rh d as processed calls)
  then have "as \<noteq> []" "last as = RecvfromAgain"
    by (auto split: if_splits)
  with 4 show ?case by (auto simp: Let_def split: prod.splits)
qed auto

lemma dispatch_req_idr:
  "mc_type c = ML_CTRL_CMD_REQ_IDR \<Longrightarrow> dispatch_cmd li c p rw rh = (0, [LiRequestIdrFrame])"
  by (simp add: dispatch_cmd_def mlctl_consts)

lemma to_short_id: "- 32768 \<le> v \<Longrightarrow> v < 32768 \<Longrightarrow> to_short v = v"
  by (simp add: to_short_def signed_take_bit_int_eq_self)

lemma clamp_int_range: "lo \<le> hi \<Longrightarrow> lo \<le> clamp_int v lo hi \<and> clamp_int v lo hi \<le> hi"
  by (auto simp: clamp_int_def)

section \<open>Properties\<close>

text \<open>Draining the socket handles exactly the well-formed datagrams (long enough, right magic
  and version) in arrival order: the count returned is their number, and the Limelight calls
  made are those of their commands, one after the other.\<close>

theorem process_all_commands:
  assumes "control_socket_process_all li as s rw rh = Some (n, calls, rest)" and "0 \<le> cs_fd s"
  shows "n = int (length (concat (map datagram_cmds (datagrams as)))) \<and>
    calls = concat (map (\<lambda>(c, p). snd (dispatch_cmd li c p rw rh))
              (concat (map datagram_cmds (datagrams as))))"
  using assms control_socket_loop_eq [of li rw rh as 0 "[]"]
  by (simp add: control_socket_process_all_def)

definition ex_req_idr :: MlControlCmd where
  "ex_req_idr = \<lparr>mc_magic = ML_CTRL_MAGIC, mc_version = ML_CTRL_VERSION,
     mc_type = ML_CTRL_CMD_REQ_IDR, mc_a = 0, mc_b = 0, mc_c = 0, mc_d = 0, mc_seq = 77\<rparr>"

lemma datagram_cmds_cmd_bytes:
  assumes "mc_magic c = ML_CTRL_MAGIC" and "mc_version c = ML_CTRL_VERSION"
    and "length p \<le> ML_CTRL_MAX_PACKET - sizeof_MlControlCmd"
  shows "datagram_cmds (cmd_bytes c @ p) = [(c, p)]"
  using assms cmd_of_bytes_roundtrip [of c p]
  by (simp add: datagram_cmds_def Let_def ML_CTRL_MAX_PACKET_def sizeof_MlControlCmd_def)

lemma ex_datagrams:
  "datagram_cmds (cmd_bytes ex_req_idr) = [(ex_req_idr, [])]" "datagram_cmds [1, 2, 3] = []"
  using datagram_cmds_cmd_bytes [of ex_req_idr "[]"]
  by (simp_all add: ex_req_idr_def datagram_cmds_def Let_def sizeof_MlControlCmd_def
      ML_CTRL_MAX_PACKET_def)

lemma ex_req_idr_type: "mc_type ex_req_idr = ML_CTRL_CMD_REQ_IDR"
  by (simp add: ex_req_idr_def)

theorem process_all_commands_witness:
  "\<exists>n calls. control_socket_process_all (\<lambda>_. 0)
      [Datagram [1, 2, 3], Datagram (cmd_bytes ex_req_idr), RecvfromAgain]
      \<lparr>cs_fd = 4, cs_port = 30001\<rparr> 1024 768 = Some (n, calls, []) \<and> n = 1 \<and> calls = [LiRequestIdrFrame]"
proof -
  let ?as = "[Datagram [1, 2, 3], Datagram (cmd_bytes ex_req_idr), RecvfromAgain]"
  let ?s = "\<lparr>cs_fd = 4, cs_port = 30001\<rparr>"
  obtain n calls where run: "control_socket_process_all (\<lambda>_. 0) ?as ?s 1024 768 = Some (n, calls, [])"
    by (simp add: control_socket_process_all_def control_socket_loop_datagram ex_datagrams
        del: control_socket_loop.simps(4))
  from process_all_commands [OF this] have "n = 1 \<and> calls = [LiRequestIdrFrame]"
    by (simp add: ex_datagrams dispatch_req_idr [of ex_req_idr] ex_req_idr_type)
  with run show ?thesis by blast
qed

text \<open>An absolute mouse command whose reference size fits a short is sent with coordinates
  inside the reference area; without any positive reference size it is refused and nothing
  is sent.\<close>

theorem mouse_abs_in_range:
  assumes "mc_type cmd = ML_CTRL_CMD_MOUSE_ABS"
    and "sint (mc_c cmd) \<le> 32767" and "sint (mc_d cmd) \<le> 32767" and "rw \<le> 32767" and "rh \<le> 32767"
  shows "(\<exists>x y w h. dispatch_cmd li cmd p rw rh =
            (li (LiSendMousePositionEvent x y w h), [LiSendMousePositionEvent x y w h]) \<and>
            0 \<le> x \<and> x < w \<and> 0 \<le> y \<and> y < h \<and>
            w = (if 0 < sint (mc_c cmd) then sint (mc_c cmd) else rw) \<and>
            h = (if 0 < sint (mc_d cmd) then sint (mc_d cmd) else rh)) \<or>
         (dispatch_cmd li cmd p rw rh = (- 1, []) \<and>
            (sint (mc_c cmd) \<le> 0 \<and> rw \<le> 0 \<or> sint (mc_d cmd) \<le> 0 \<and> rh \<le> 0))"
proof -
  let ?w = "if 0 < sint (mc_c cmd) then sint (mc_c cmd) else rw"
  let ?h = "if 0 < sint (mc_d cmd) then sint (mc_d cmd) else rh"
  show ?thesis
  proof (cases "?w \<le> 0 \<or> ?h \<le> 0")
    case True
    then show ?thesis
      using assms(1) by (auto simp: dispatch_cmd_def Let_def split: if_splits)
  next
    case False
    let ?x = "clamp_int (sint (mc_a cmd)) 0 (?w - 1)"
    let ?y = "clamp_int (sint (mc_b cmd)) 0 (?h - 1)"
    have r: "0 \<le> ?x" "?x < ?w" "0 \<le> ?y" "?y < ?h" "?w \<le> 32767" "?h \<le> 32767"
      using False assms clamp_int_range [of 0 "?w - 1"] clamp_int_range [of 0 "?h - 1"]
      by (smt (verit))+
    then have ids: "to_short ?x = ?x" "to_short ?y = ?y" "to_short ?w = ?w" "to_short ?h = ?h"
      by (simp_all only: to_short_id)
    have "dispatch_cmd li cmd p rw rh = (li (LiSendMousePositionEvent ?x ?y ?w ?h),
        [LiSendMousePositionEvent ?x ?y ?w ?h])"
      using False assms(1) unfolding dispatch_cmd_def Let_def
      by (simp only: ids if_True if_False simp_thms)
    with r show ?thesis by blast
  qed
qed

theorem mouse_abs_in_range_witness:
  "sint (mc_c (ex_req_idr\<lparr>mc_type := ML_CTRL_CMD_MOUSE_ABS, mc_a := 5000\<rparr>)) \<le> 32767 \<and>
   dispatch_cmd (\<lambda>_. 0) (ex_req_idr\<lparr>mc_type := ML_CTRL_CMD_MOUSE_ABS, mc_a := 5000\<rparr>) [] 1024 768 \<noteq> (- 1, [])"
  using mouse_abs_in_range [of "ex_req_idr\<lparr>mc_type := ML_CTRL_CMD_MOUSE_ABS, mc_a := 5000\<rparr>" 1024 768
      "\<lambda>_. 0" "[]"]
  by (auto simp: ex_req_idr_def)

end
