(* ===== verification/WorkerMain.thy ===== *)
theory WorkerMain
  imports WorkerOpts ControlSocket "HOL-Library.Sublist"
begin

text \<open>
  The commands of \<open>ml_worker\<close> (\<open>src/main.c\<close>): pairing, listing, and the streaming session with
  its wait for the host, its retries and its main loop.

  \<open>g_running\<close> is cleared by a signal handler at any moment, so the list \<open>sn_running\<close> of a
  session holds what its reads see, in order; the answers of the ping, of the GameStream
  library and of the control socket are lists or fields beside it. A run that needs more
  answers than there are has not returned: its result is None. The calls a run makes are
  recorded as a list of \<open>main_event\<close>.
\<close>

section \<open>Error texts\<close>

text \<open>How many characters of the needle match at this place.\<close>

fun match_len :: "string \<Rightarrow> string \<Rightarrow> nat" where
  "match_len (h # hs) (n # ns) = (if c_tolower h = c_tolower n then Suc (match_len hs ns) else 0)"
| "match_len _ _ = 0"

fun contains_from :: "string \<Rightarrow> string \<Rightarrow> bool" where
  "contains_from [] needle = False"
| "contains_from (h # hs) needle =
     (if match_len (h # hs) needle = length needle then True else contains_from hs needle)"

definition contains_case_insensitive :: "string \<Rightarrow> string \<Rightarrow> bool" where
  "contains_case_insensitive haystack needle = (if needle = [] then False else contains_from haystack needle)"

definition transient_needles :: "string list" where
  "transient_needles =
     [''connection refused'', ''connect failed'', ''failed to connect'', ''could not connect'', ''unable to connect'',
      ''timed out'', ''timeout'', ''network is unreachable'', ''host is unreachable'', ''no route to host'']"

definition gs_error_is_transient_connect_failure :: "string \<Rightarrow> bool" where
  "gs_error_is_transient_connect_failure err =
     (if err = [] then False else list_ex (contains_case_insensitive err) transient_needles)"

section \<open>Waiting\<close>

definition HOST_OFFLINE_RETRY_SEC :: nat where "HOST_OFFLINE_RETRY_SEC = 30"
definition NEGOTIATION_MISMATCH_RETRY_DELAY_SEC :: nat where "NEGOTIATION_MISMATCH_RETRY_DELAY_SEC = 60"

text \<open>\<open>for (i = 0; i < n && g_running; ++i) sleep(1)\<close>: the seconds slept, and the reads left.\<close>

fun sleep_loop :: "nat \<Rightarrow> bool list \<Rightarrow> (nat \<times> bool list) option" where
  "sleep_loop 0 rs = Some (0, rs)"
| "sleep_loop (Suc n) [] = None"
| "sleep_loop (Suc n) (r # rs) = (if r then map_option (\<lambda>(k, rs'). (Suc k, rs')) (sleep_loop n rs) else Some (0, rs))"

definition delay_before_fatal_exit_if_needed :: "int \<Rightarrow> bool list \<Rightarrow> (nat \<times> bool list) option" where
  "delay_before_fatal_exit_if_needed fatal_code rs =
     (if fatal_code \<noteq> WORKER_FATAL_NEGOTIATION_MISMATCH then Some (0, rs)
      else sleep_loop NEGOTIATION_MISMATCH_RETRY_DELAY_SEC rs)"

datatype wait_status = Exited int | Signaled

text \<open>The answers of \<open>waitpid\<close>: the child, an interruption, another error, or anything else.\<close>

datatype wait_answer = WaitChild wait_status | WaitInterrupted | WaitFailed | WaitOther

fun wait_child :: "wait_answer list \<Rightarrow> bool list \<Rightarrow> (int \<times> bool list) option" where
  "wait_child [] rs = None"
| "wait_child (WaitChild st # ws) rs = Some (case st of
     Signaled \<Rightarrow> 1 | Exited code \<Rightarrow> if code = 0 then 0 else if code = 127 then 2 else 1, rs)"
| "wait_child (WaitInterrupted # ws) rs =
     (case rs of [] \<Rightarrow> None | r # rs' \<Rightarrow> if \<not> r then Some (- 1, rs') else wait_child ws rs')"
| "wait_child (WaitFailed # ws) rs = Some (2, rs)"
| "wait_child (WaitOther # ws) rs = wait_child ws rs"

text \<open>A probe is None when \<open>fork\<close> fails, else what \<open>waitpid\<close> answers.\<close>

type_synonym ping_probe = "wait_answer list option"

definition ping_host_once :: "string \<Rightarrow> ping_probe list \<Rightarrow> bool list \<Rightarrow> (int \<times> ping_probe list \<times> bool list) option" where
  "ping_host_once host ps rs =
     (if host = [] then Some (- 1, ps, rs)
      else case ps of [] \<Rightarrow> None
      | None # ps' \<Rightarrow> Some (2, ps', rs)
      | Some ws # ps' \<Rightarrow> map_option (\<lambda>(rc, rs'). (rc, ps', rs')) (wait_child ws rs))"

lemma sleep_loop_reads: "sleep_loop n rs = Some (k, rs') \<Longrightarrow> length rs' \<le> length rs"
  by (induction n rs arbitrary: k rs' rule: sleep_loop.induct) (fastforce split: if_splits)+

lemma wait_child_reads: "wait_child ws rs = Some (rc, rs') \<Longrightarrow> length rs' \<le> length rs"
  by (induction ws rs rule: wait_child.induct) (fastforce split: if_splits list.splits)+

lemma ping_reads: "ping_host_once host ps rs = Some (rc, ps', rs') \<Longrightarrow> length rs' \<le> length rs"
  by (auto simp: ping_host_once_def dest: wait_child_reads split: if_splits list.splits option.splits)

section \<open>The calls of a run\<close>

record STREAM_CONFIGURATION =
  sc_width :: int
  sc_height :: int
  sc_fps :: int
  sc_bitrate :: int
  sc_packetSize :: int
  sc_streamingRemotely :: int
  sc_audioConfiguration :: int
  sc_supportedVideoFormats :: int
  sc_clientRefreshRateX100 :: int
  sc_colorSpace :: int
  sc_colorRange :: int

text \<open>The video callbacks the library calls, with what \<open>worker_setup\<close> returned.\<close>

datatype video_call = VideoSetup int | VideoCleanup

datatype main_event =
    Slept nat
  | GsInit string bool
  | GsApplist
  | GsStartApp int STREAM_CONFIGURATION
  | SetFatalPtr bool
  | LiStart STREAM_CONFIGURATION WorkerRenderConfig int
  | VideoCalls "video_call list"
  | ControlOpen int int
  | ControlCalls "li_call list"
  | ControlClose "int list"
  | LiStop
  | GsPair string
  | Printed string

text \<open>What of \<open>SERVER_DATA\<close> decides; the rest is only printed. The library fills it, also when it fails.\<close>

record server_data =
  sd_paired :: bool

record init_answer =
  ia_rc :: int
  ia_error :: "string option"
  ia_server :: server_data

record app =
  al_id :: int
  al_name :: "string option"

definition or_null :: "string option \<Rightarrow> string" where
  "or_null s = (case s of None \<Rightarrow> ''(null)'' | Some t \<Rightarrow> t)"

definition c_string :: "string option \<Rightarrow> string" where
  "c_string s = (case s of None \<Rightarrow> [] | Some t \<Rightarrow> t)"

function wait_for_host_online ::
  "string \<Rightarrow> ping_probe list \<Rightarrow> bool list \<Rightarrow> (int \<times> main_event list \<times> ping_probe list \<times> bool list) option" where
  "wait_for_host_online host ps rs =
     (case rs of [] \<Rightarrow> None | r # rs0 \<Rightarrow>
        if \<not> r then Some (- 1, [], ps, rs0)
        else case ping_host_once host ps rs0 of None \<Rightarrow> None
        | Some (rc, ps1, rs1) \<Rightarrow>
            if rc = 0 then Some (0, [], ps1, rs1)
            else if rc < 0 then Some (- 1, [], ps1, rs1)
            else if rc > 1 then Some (0, [], ps1, rs1)
            else (case sleep_loop HOST_OFFLINE_RETRY_SEC rs1 of None \<Rightarrow> None
              | Some (n, rs2) \<Rightarrow> map_option (\<lambda>(rc', ev, ps', rs'). (rc', Slept n # ev, ps', rs'))
                  (wait_for_host_online host ps1 rs2)))"
  by pat_completeness auto
termination
  by (relation "measure (\<lambda>(host, ps, rs). length rs)")
    (auto dest!: ping_reads sleep_loop_reads)

declare wait_for_host_online.simps [simp del]

lemma wait_for_host_simps:
  "wait_for_host_online host ps [] = None"
  "wait_for_host_online host ps (False # rs) = Some (- 1, [], ps, rs)"
  "ping_host_once host ps rs = None \<Longrightarrow> wait_for_host_online host ps (True # rs) = None"
  "ping_host_once host ps rs = Some (rc, ps1, rs1) \<Longrightarrow> rc < 0 \<Longrightarrow>
     wait_for_host_online host ps (True # rs) = Some (- 1, [], ps1, rs1)"
  "ping_host_once host ps rs = Some (rc, ps1, rs1) \<Longrightarrow> rc = 0 \<or> 1 < rc \<Longrightarrow>
     wait_for_host_online host ps (True # rs) = Some (0, [], ps1, rs1)"
  "ping_host_once host ps rs = Some (rc, ps1, rs1) \<Longrightarrow> 0 < rc \<and> rc \<le> 1 \<Longrightarrow>
     wait_for_host_online host ps (True # rs) = (case sleep_loop HOST_OFFLINE_RETRY_SEC rs1 of None \<Rightarrow> None
       | Some (n, rs2) \<Rightarrow> map_option (\<lambda>(rc', ev, ps', rs'). (rc', Slept n # ev, ps', rs'))
           (wait_for_host_online host ps1 rs2))"
  by (subst wait_for_host_online.simps; auto)+

text \<open>One round of the wait: it ends here, or the host was offline and the next round answers.\<close>

lemma wait_for_host_round:
  assumes "wait_for_host_online host ps rs = Some (rc, ev, ps', rs')"
  obtains (stopped) "rs = False # rs'" "rc = - 1" "ev = []"
  | (answered) rs0 prc where "rs = True # rs0" "ping_host_once host ps rs0 = Some (prc, ps', rs')" "ev = []"
      "rc = (if prc < 0 then - 1 else 0)" "prc \<le> 0 \<or> 1 < prc"
  | (offline) rs0 prc ps1 rs1 n rs2 ev' where "rs = True # rs0" "ping_host_once host ps rs0 = Some (prc, ps1, rs1)"
      "0 < prc" "prc \<le> 1" "sleep_loop HOST_OFFLINE_RETRY_SEC rs1 = Some (n, rs2)" "ev = Slept n # ev'"
      "wait_for_host_online host ps1 rs2 = Some (rc, ev', ps', rs')"
proof (cases rs)
  case Nil
  then show ?thesis using assms by (simp add: wait_for_host_online.simps)
next
  case (Cons r rs0)
  show ?thesis
  proof (cases "r \<and> (\<exists>p. ping_host_once host ps rs0 = Some p)")
    case False
    then show ?thesis using assms Cons stopped
      by (cases r; cases "ping_host_once host ps rs0") (auto simp: wait_for_host_simps)
  next
    case True
    then obtain prc ps1 rs1 where ping: "ping_host_once host ps rs0 = Some (prc, ps1, rs1)" by auto
    have t: "rs = True # rs0" using True Cons by simp
    show ?thesis
    proof (cases "0 < prc \<and> prc \<le> 1")
      case False
      then have "prc < 0 \<or> prc = 0 \<or> 1 < prc" by auto
      then show ?thesis using assms answered [OF t] ping wait_for_host_simps(4,5) [OF ping]
        by (auto simp: t)
    next
      case on: True
      then show ?thesis using assms offline [OF t ping] wait_for_host_simps(6) [OF ping]
        by (auto simp: t split: option.splits)
    qed
  qed
qed

lemma wait_for_host_reads:
  "wait_for_host_online host ps rs = Some (rc, ev, ps', rs') \<Longrightarrow> length rs' < length rs"
proof (induction "length rs" arbitrary: ps rs rc ev rule: less_induct)
  case less
  from less.prems show ?case
  proof (cases rule: wait_for_host_round)
    case (answered rs0 prc)
    then show ?thesis using ping_reads [OF answered(2)] by simp
  next
    case (offline rs0 prc ps1 rs1 n rs2 ev')
    then have "length rs2 < length rs" using ping_reads [OF offline(2)] sleep_loop_reads [OF offline(5)] by simp
    from less.hyps [OF this offline(7)] this show ?thesis by simp
  qed simp
qed

text \<open>
  The retry loop of \<open>run_stream_command\<close>: Some code when the function returns inside it, None
  when the loop is left; then the server's data, the calls, and the reads left.
\<close>

function connect_loop ::
  "string \<Rightarrow> bool \<Rightarrow> server_data \<Rightarrow> ping_probe list \<Rightarrow> init_answer list \<Rightarrow> bool list \<Rightarrow>
   (int option \<times> server_data \<times> main_event list \<times> bool list) option" where
  "connect_loop host skip sd ps ias rs =
     (case rs of [] \<Rightarrow> None | r # rs0 \<Rightarrow>
        if \<not> r then Some (None, sd, [], rs0)
        else case wait_for_host_online host ps rs0 of None \<Rightarrow> None
        | Some (rc, ev, ps1, rs1) \<Rightarrow>
            if rc \<noteq> 0 then Some (None, sd, ev, rs1)
            else case ias of [] \<Rightarrow> None | ia # ias1 \<Rightarrow>
              if ia_rc ia \<noteq> 0 then
                (if gs_error_is_transient_connect_failure (or_null (ia_error ia)) then
                   (case sleep_loop HOST_OFFLINE_RETRY_SEC rs1 of None \<Rightarrow> None
                    | Some (n, rs2) \<Rightarrow> map_option (\<lambda>(x, sd', ev', rs'). (x, sd', ev @ [GsInit host skip, Slept n] @ ev', rs'))
                        (connect_loop host skip (ia_server ia) ps1 ias1 rs2))
                 else Some (Some 2, ia_server ia, ev @ [GsInit host skip], rs1))
              else Some (None, ia_server ia, ev @ [GsInit host skip], rs1))"
  by pat_completeness auto
termination
  by (relation "measure (\<lambda>(host, skip, sd, ps, ias, rs). length rs)")
    (auto dest!: wait_for_host_reads sleep_loop_reads)

declare connect_loop.simps [simp del]

section \<open>Applications\<close>

text \<open>\<open>idx\<close> is the number of the list's first element.\<close>

fun find_app :: "bool \<Rightarrow> int \<Rightarrow> string \<Rightarrow> int \<Rightarrow> app list \<Rightarrow> int" where
  "find_app by_index wanted name idx [] = - 1"
| "find_app by_index wanted name idx (p # ps) =
     (if by_index then (if idx = wanted then al_id p else find_app by_index wanted name (idx + 1) ps)
      else if al_name p = Some name then al_id p else find_app by_index wanted name (idx + 1) ps)"

text \<open>The list is None when \<open>gs_applist\<close> fails.\<close>

definition resolve_app_id :: "app list option \<Rightarrow> string \<Rightarrow> int" where
  "resolve_app_id apps app_arg = (case apps of None \<Rightarrow> - 1 | Some app_list \<Rightarrow>
     let by_index = is_all_digits app_arg;
         wanted_index = (if by_index then atoi app_arg else - 1)
     in find_app by_index wanted_index app_arg 1 app_list)"

fun list_lines :: "int \<Rightarrow> app list \<Rightarrow> string list" where
  "list_lines idx [] = []"
| "list_lines idx (p # ps) =
     (show_int idx @ ''. '' @ or_null (al_name p) @ '' (app_id='' @ show_int (al_id p) @ '')\<newline>'') # list_lines (idx + 1) ps"

section \<open>Pairing and listing\<close>

definition run_pair_command :: "init_answer \<Rightarrow> int \<Rightarrow> nat \<Rightarrow> PairOptions \<Rightarrow> int \<times> main_event list" where
  "run_pair_command ia pair_rc rnd opt =
     (let ev = [GsInit (c_string (po_host opt)) False] in
      if ia_rc ia \<noteq> 0 then (2, ev)
      else if sd_paired (ia_server ia) then (0, ev)
      else let pin = (case po_pin opt of None \<Rightarrow> generate_pair_pin rnd | Some p \<Rightarrow> p) in
        if pair_rc \<noteq> 0 then (3, ev @ [GsPair pin]) else (0, ev @ [GsPair pin]))"

definition run_list_command :: "init_answer \<Rightarrow> app list option \<Rightarrow> ListOptions \<Rightarrow> int \<times> main_event list" where
  "run_list_command ia apps opt =
     (let ev = [GsInit (c_string (lo_host opt)) False] in
      if ia_rc ia \<noteq> 0 then (2, ev)
      else if \<not> sd_paired (ia_server ia) then (3, ev)
      else case apps of None \<Rightarrow> (4, ev @ [GsApplist])
        | Some app_list \<Rightarrow> (0, ev @ [GsApplist] @ map Printed (list_lines 1 app_list)))"

section \<open>The streaming session\<close>

definition STREAM_CFG_AUTO :: int where "STREAM_CFG_AUTO = 2"
definition AUDIO_CONFIGURATION_STEREO :: int where "AUDIO_CONFIGURATION_STEREO = 0x302CA"
definition GS_OK :: int where "GS_OK = 0"

definition stream_config :: "StreamOptions \<Rightarrow> int \<Rightarrow> STREAM_CONFIGURATION" where
  "stream_config effective formats =
     \<lparr>sc_width = so_width effective, sc_height = so_height effective, sc_fps = so_fps effective,
      sc_bitrate = so_bitrate effective, sc_packetSize = so_packet_size effective,
      sc_streamingRemotely = STREAM_CFG_AUTO, sc_audioConfiguration = AUDIO_CONFIGURATION_STEREO,
      sc_supportedVideoFormats = formats, sc_clientRefreshRateX100 = 6000,
      sc_colorSpace = so_ll_color_space effective, sc_colorRange = so_ll_color_range effective\<rparr>"

text \<open>
  One round of the main loop: what the control socket's \<open>recvfrom\<close> answers, and the fatal codes
  the callbacks raise since the last check. The cell keeps the first (\<open>set_fatal_once\<close>).
\<close>

record tick =
  tk_recv :: "recvfrom_answer list"
  tk_codes :: "int list"

text \<open>\<open>sn_video_start\<close> and \<open>sn_video_stop\<close> are the calls of the video callbacks' setup and cleanup that
  \<open>LiStartConnection\<close> and \<open>LiStopConnection\<close> make.\<close>

record session_env =
  sn_running :: "bool list"
  sn_probes :: "ping_probe list"
  sn_inits :: "init_answer list"
  sn_apps :: "app list option"
  sn_start_app :: int
  sn_li_start :: int
  sn_start_codes :: "int list"
  sn_control :: open_env
  sn_ticks :: "tick list"
  sn_li :: "li_call \<Rightarrow> int"
  sn_video_start :: "video_call list"
  sn_video_stop :: "video_call list"

definition raise_codes :: "int list \<Rightarrow> int \<Rightarrow> int" where
  "raise_codes codes v = foldl (\<lambda>v code. the (set_fatal_code code (Some v))) v codes"

text \<open>The loop \<open>while (g_running)\<close>: the exit code, the calls and the reads left; \<open>cs\<close> is None without control.\<close>

fun stream_loop ::
  "(li_call \<Rightarrow> int) \<Rightarrow> ControlSocket option \<Rightarrow> int \<Rightarrow> int \<Rightarrow> tick list \<Rightarrow> int \<Rightarrow> bool list \<Rightarrow>
   (int \<times> main_event list \<times> bool list) option" where
  "stream_loop li cs w h ts cell [] = None"
| "stream_loop li cs w h ts cell (r # rs) =
     (if \<not> r then Some (0, [], rs)
      else case ts of [] \<Rightarrow> None | t # ts' \<Rightarrow>
        (case (case cs of None \<Rightarrow> Some []
               | Some s \<Rightarrow> map_option (\<lambda>(n, calls, _). [ControlCalls calls])
                   (control_socket_process_all li (tk_recv t) s w h)) of
           None \<Rightarrow> None
         | Some ev \<Rightarrow>
             let cell' = raise_codes (tk_codes t) cell in
             if cell' \<noteq> WORKER_FATAL_NONE then Some (100 + cell', ev, rs)
             else map_option (\<lambda>(code, ev', rs'). (code, ev @ ev', rs')) (stream_loop li cs w h ts' cell' rs)))"

text \<open>From the first frame to the end: the main loop, and what is undone after it.\<close>

definition run_streaming ::
  "session_env \<Rightarrow> StreamOptions \<Rightarrow> ControlSocket option \<Rightarrow> int \<Rightarrow> bool list \<Rightarrow> (int \<times> main_event list) option" where
  "run_streaming e effective cs cell rs =
     (case stream_loop (sn_li e) cs (so_width effective) (so_height effective) (sn_ticks e) cell rs of
        None \<Rightarrow> None
      | Some (exit_code, ev, rs1) \<Rightarrow>
          let closing = (case cs of None \<Rightarrow> [] | Some s \<Rightarrow> [ControlClose (snd (control_socket_close s))]);
              ev1 = ev @ closing @ [SetFatalPtr False, LiStop, VideoCalls (sn_video_stop e)]
          in if exit_code = 100 + WORKER_FATAL_NEGOTIATION_MISMATCH then
               map_option (\<lambda>(n, _). (exit_code, ev1 @ [Slept n]))
                 (delay_before_fatal_exit_if_needed WORKER_FATAL_NEGOTIATION_MISMATCH rs1)
             else Some (exit_code, ev1))"

text \<open>From \<open>connection_callbacks_set_fatal_code(&fatal_code)\<close> on.\<close>

definition run_connection :: "session_env \<Rightarrow> StreamOptions \<Rightarrow> int \<Rightarrow> bool list \<Rightarrow> (int \<times> main_event list) option" where
  "run_connection e effective formats rs =
     (let cell = raise_codes (sn_start_codes e) WORKER_FATAL_NONE;
          ev = [SetFatalPtr True, LiStart (stream_config effective formats)
                  (render_config effective formats WORKER_FATAL_NONE) (sn_li_start e), VideoCalls (sn_video_start e)]
      in if sn_li_start e \<noteq> 0 then
           (if cell \<noteq> WORKER_FATAL_NONE then
              map_option (\<lambda>(n, _). (100 + cell, ev @ [SetFatalPtr False, Slept n]))
                (delay_before_fatal_exit_if_needed cell rs)
            else Some (6, ev @ [SetFatalPtr False]))
         else if so_control_port effective > 0 then
           (case control_socket_open (sn_control e) (Some (so_control_bind effective))
                  (word_of_int (so_control_port effective)) of
              (rc, s, closed) \<Rightarrow>
                if rc \<noteq> 0 then Some (7, ev @ [ControlOpen rc (cs_fd s), SetFatalPtr False, LiStop, VideoCalls (sn_video_stop e)])
                else map_option (\<lambda>(code, ev'). (code, ev @ [ControlOpen rc (cs_fd s)] @ ev'))
                       (run_streaming e effective (Some s) cell rs))
         else map_option (\<lambda>(code, ev'). (code, ev @ ev')) (run_streaming e effective None cell rs))"

definition run_stream_command :: "session_env \<Rightarrow> StreamOptions \<Rightarrow> (int \<times> main_event list) option" where
  "run_stream_command e opt =
     (let effective = apply_default_codec_policy opt in
      case build_supported_video_formats effective of None \<Rightarrow> Some (1, [])
      | Some formats \<Rightarrow>
        (case connect_loop (c_string (so_host effective)) (so_skip_mode_check effective) \<lparr>sd_paired = False\<rparr>
                (sn_probes e) (sn_inits e) (sn_running e) of
           None \<Rightarrow> None
         | Some (Some rc, sd, ev, rs) \<Rightarrow> Some (rc, ev)
         | Some (None, sd, ev, []) \<Rightarrow> None
         | Some (None, sd, ev, r # rs) \<Rightarrow>
             if \<not> r then Some (0, ev)
             else if \<not> sd_paired sd then Some (3, ev)
             else
               let app_id = resolve_app_id (sn_apps e) (c_string (so_app effective)); ev1 = ev @ [GsApplist] in
               if app_id < 0 then Some (4, ev1)
               else
                 let ev2 = ev1 @ [GsStartApp app_id (stream_config effective formats)] in
                 if sn_start_app e \<noteq> GS_OK then Some (5, ev2)
                 else map_option (\<lambda>(code, ev'). (code, ev2 @ ev')) (run_connection e effective formats rs)))"

text \<open>The answers the two short commands get, and the random number of the PIN.\<close>

record command_env =
  cm_init :: init_answer
  cm_pair :: int
  cm_rand :: nat
  cm_apps :: "app list option"

text \<open>\<open>main\<close>, with the arguments behind the program's name.\<close>

definition worker_main ::
  "string option \<Rightarrow> command_env \<Rightarrow> session_env \<Rightarrow> string list \<Rightarrow> (int \<times> main_event list) option" where
  "worker_main home ce e args =
     (case args of [] \<Rightarrow> Some (1, []) | command # rest \<Rightarrow>
        if command = ''pair'' then
          (case parse_pair_args home rest of None \<Rightarrow> Some (1, [])
           | Some opt \<Rightarrow> Some (run_pair_command (cm_init ce) (cm_pair ce) (cm_rand ce) opt))
        else if command = ''list'' then
          (case parse_list_args home rest of None \<Rightarrow> Some (1, [])
           | Some opt \<Rightarrow> Some (run_list_command (cm_init ce) (cm_apps ce) opt))
        else if command = ''stream'' then
          (case parse_stream_args home rest of None \<Rightarrow> Some (1, []) | Some opt \<Rightarrow> run_stream_command e opt)
        else
          (case parse_stream_args home args of None \<Rightarrow> Some (1, []) | Some opt \<Rightarrow> run_stream_command e opt))"

section \<open>Lemmas\<close>

lemma wait_for_host_events:
  "wait_for_host_online host ps rs = Some (rc, ev, ps', rs') \<Longrightarrow> \<forall>e \<in> set ev. \<exists>n. e = Slept n"
proof (induction "length rs" arbitrary: ps rs rc ev rule: less_induct)
  case less
  from less.prems show ?case
  proof (cases rule: wait_for_host_round)
    case (offline rs0 prc ps1 rs1 n rs2 ev')
    then have "length rs2 < length rs" using ping_reads [OF offline(2)] sleep_loop_reads [OF offline(5)] by simp
    from less.hyps [OF this offline(7)] show ?thesis by (simp add: offline)
  qed simp_all
qed

lemma wait_for_host_rc: "wait_for_host_online host ps rs = Some (rc, ev, ps', rs') \<Longrightarrow> rc = 0 \<or> rc = - 1"
proof (induction "length rs" arbitrary: ps rs rc ev rule: less_induct)
  case less
  from less.prems show ?case
  proof (cases rule: wait_for_host_round)
    case (offline rs0 prc ps1 rs1 n rs2 ev')
    then have "length rs2 < length rs" using ping_reads [OF offline(2)] sleep_loop_reads [OF offline(5)] by simp
    from less.hyps [OF this offline(7)] show ?thesis .
  qed simp_all
qed

abbreviation transient_answer :: "init_answer \<Rightarrow> bool" where
  "transient_answer ia \<equiv> gs_error_is_transient_connect_failure (or_null (ia_error ia))"

lemma connect_loop_simps:
  "connect_loop host skip sd ps ias [] = None"
  "connect_loop host skip sd ps ias (False # rs) = Some (None, sd, [], rs)"
  "wait_for_host_online host ps rs = None \<Longrightarrow> connect_loop host skip sd ps ias (True # rs) = None"
  "wait_for_host_online host ps rs = Some (rc, ev, ps1, rs1) \<Longrightarrow> rc \<noteq> 0 \<Longrightarrow>
     connect_loop host skip sd ps ias (True # rs) = Some (None, sd, ev, rs1)"
  "wait_for_host_online host ps rs = Some (0, ev, ps1, rs1) \<Longrightarrow> connect_loop host skip sd ps [] (True # rs) = None"
  "wait_for_host_online host ps rs = Some (0, ev, ps1, rs1) \<Longrightarrow> ia_rc ia = 0 \<Longrightarrow>
     connect_loop host skip sd ps (ia # ias) (True # rs) = Some (None, ia_server ia, ev @ [GsInit host skip], rs1)"
  "wait_for_host_online host ps rs = Some (0, ev, ps1, rs1) \<Longrightarrow> ia_rc ia \<noteq> 0 \<Longrightarrow> \<not> transient_answer ia \<Longrightarrow>
     connect_loop host skip sd ps (ia # ias) (True # rs) = Some (Some 2, ia_server ia, ev @ [GsInit host skip], rs1)"
  "wait_for_host_online host ps rs = Some (0, ev, ps1, rs1) \<Longrightarrow> ia_rc ia \<noteq> 0 \<Longrightarrow> transient_answer ia \<Longrightarrow>
     connect_loop host skip sd ps (ia # ias) (True # rs) =
       (case sleep_loop HOST_OFFLINE_RETRY_SEC rs1 of None \<Rightarrow> None
        | Some (n, rs2) \<Rightarrow> map_option (\<lambda>(x, sd', ev', rs'). (x, sd', ev @ [GsInit host skip, Slept n] @ ev', rs'))
            (connect_loop host skip (ia_server ia) ps1 ias rs2))"
  by (subst connect_loop.simps; simp)+

text \<open>One round of the retry loop.\<close>

lemma connect_round:
  assumes "connect_loop host skip sd ps ias rs = Some (x, sd', ev, rs')"
  obtains (stopped) "rs = False # rs'" "x = None" "sd' = sd" "ev = []"
  | (offline) rs0 rc ps1 where "rs = True # rs0" "wait_for_host_online host ps rs0 = Some (rc, ev, ps1, rs')" "rc \<noteq> 0"
      "x = None" "sd' = sd"
  | (answered) rs0 ev0 ps1 ia ias1 where "rs = True # rs0" "wait_for_host_online host ps rs0 = Some (0, ev0, ps1, rs')"
      "ias = ia # ias1" "ev = ev0 @ [GsInit host skip]" "sd' = ia_server ia"
      "if ia_rc ia = 0 then x = None else \<not> transient_answer ia \<and> x = Some 2"
  | (retried) rs0 ev0 ps1 rs1 ia ias1 n rs2 ev' where "rs = True # rs0"
      "wait_for_host_online host ps rs0 = Some (0, ev0, ps1, rs1)" "ias = ia # ias1" "ia_rc ia \<noteq> 0" "transient_answer ia"
      "sleep_loop HOST_OFFLINE_RETRY_SEC rs1 = Some (n, rs2)" "ev = ev0 @ [GsInit host skip, Slept n] @ ev'"
      "connect_loop host skip (ia_server ia) ps1 ias1 rs2 = Some (x, sd', ev', rs')"
proof -
  obtain r rs0 where rs: "rs = r # rs0" using assms by (cases rs) (auto simp: connect_loop_simps)
  show ?thesis
  proof (cases "r \<and> wait_for_host_online host ps rs0 \<noteq> None")
    case False
    then show ?thesis using assms rs stopped
      by (cases r; cases "wait_for_host_online host ps rs0") (auto simp: connect_loop_simps)
  next
    case True
    then obtain rc ev0 ps1 rs1 where w: "wait_for_host_online host ps rs0 = Some (rc, ev0, ps1, rs1)" by auto
    have t: "rs = True # rs0" using True rs by simp
    show ?thesis
    proof (cases "rc = 0")
      case False
      then show ?thesis using assms offline [OF t] w connect_loop_simps(4) [OF w] by (simp add: t)
    next
      case rc: True
      note w = w [unfolded rc]
      obtain ia ias1 where ia: "ias = ia # ias1" using assms t connect_loop_simps(5) [OF w] by (cases ias) auto
      consider "ia_rc ia = 0" | "ia_rc ia \<noteq> 0" "\<not> transient_answer ia" | "ia_rc ia \<noteq> 0" "transient_answer ia" by blast
      then show ?thesis
      proof cases
        case 1
        then show ?thesis using assms answered [OF t _ ia] w connect_loop_simps(6) [OF w 1] by (simp add: t ia)
      next
        case 2
        then show ?thesis using assms answered [OF t _ ia] w connect_loop_simps(7) [OF w 2] by (simp add: t ia)
      next
        case 3
        then show ?thesis using assms retried [OF t w ia 3] connect_loop_simps(8) [OF w 3]
          by (auto simp: t ia split: option.splits)
      qed
    qed
  qed
qed

lemma connect_loop_shrinks:
  assumes "wait_for_host_online host ps rs0 = Some (rc, ev0, ps1, rs1)" "sleep_loop m rs1 = Some (n, rs2)"
  shows "length rs2 < length (r # rs0)"
  using wait_for_host_reads [OF assms(1)] sleep_loop_reads [OF assms(2)] by simp

definition idle_call :: "string \<Rightarrow> bool \<Rightarrow> main_event \<Rightarrow> bool" where
  "idle_call host skip e \<longleftrightarrow> (\<exists>n. e = Slept n) \<or> e = GsInit host skip"

lemma connect_loop_events:
  "connect_loop host skip sd ps ias rs = Some (x, sd', ev, rs') \<Longrightarrow>
   list_all (idle_call host skip) ev \<and> (x = None \<or> x = Some 2)"
proof (induction "length rs" arbitrary: sd ps ias rs ev rule: less_induct)
  case less
  have idle: "list_all (idle_call host skip) ev0" if "wait_for_host_online host ps' q = Some (rc, ev0, ps1, rs1)" for ps' q rc ev0 ps1 rs1
    using wait_for_host_events [OF that] by (auto simp: list_all_iff idle_call_def)
  from less.prems show ?case
  proof (cases rule: connect_round)
    case (offline rs0 rc ps1)
    then show ?thesis using idle by blast
  next
    case (answered rs0 ev0 ps1 ia ias1)
    then show ?thesis using idle [OF answered(2)] by (auto simp: idle_call_def split: if_splits)
  next
    case (retried rs0 ev0 ps1 rs1 ia ias1 n rs2 ev')
    from less.hyps [OF _ retried(8)] connect_loop_shrinks [OF retried(2,6)] retried(1)
    show ?thesis using idle [OF retried(2)] by (simp add: retried(7) idle_call_def)
  qed simp
qed

section \<open>The protocol of a session\<close>

text \<open>
  What a caller of Limelight must keep to: the fatal pointer points to a variable of the
  running function, so it is set before the connection starts and cleared before the function
  returns; a connection that started is stopped once; a control socket that was opened is
  closed before that. The phases, and the calls each allows.
\<close>

datatype phase = Idle | Armed | Refused | Live "int option" | Unhooked | Over

fun call_step :: "phase \<Rightarrow> main_event \<Rightarrow> phase option" where
  "call_step Idle (Slept n) = Some Idle"
| "call_step Idle (GsInit h b) = Some Idle"
| "call_step Idle GsApplist = Some Idle"
| "call_step Idle (GsStartApp i c) = Some Idle"
| "call_step Idle (SetFatalPtr b) = (if b then Some Armed else None)"
| "call_step Armed (LiStart c r err) = Some (if err = 0 then Live None else Refused)"
| "call_step Refused (VideoCalls vs) = Some Refused"
| "call_step (Live None) (VideoCalls vs) = Some (Live None)"
| "call_step Over (VideoCalls vs) = Some Over"
| "call_step Refused (SetFatalPtr b) = (if b then None else Some Over)"
| "call_step (Live None) (ControlOpen rc fd) = Some (Live (if rc = 0 then Some fd else None))"
| "call_step (Live (Some fd)) (ControlCalls cs) = Some (Live (Some fd))"
| "call_step (Live (Some fd)) (ControlClose fds) = (if fds = [fd] then Some (Live None) else None)"
| "call_step (Live None) (SetFatalPtr b) = (if b then None else Some Unhooked)"
| "call_step Unhooked LiStop = Some Over"
| "call_step Over (Slept n) = Some Over"
| "call_step _ _ = None"

fun calls_from :: "phase \<Rightarrow> main_event list \<Rightarrow> phase option" where
  "calls_from p [] = Some p"
| "calls_from p (e # es) = (case call_step p e of None \<Rightarrow> None | Some p' \<Rightarrow> calls_from p' es)"

lemma calls_from_append:
  "calls_from p (es @ fs) = (case calls_from p es of None \<Rightarrow> None | Some p' \<Rightarrow> calls_from p' fs)"
  by (induction p es rule: calls_from.induct) (auto split: option.splits)

lemma idle_calls: "list_all (idle_call host skip) es \<Longrightarrow> calls_from Idle es = Some Idle"
  by (induction es) (auto simp: idle_call_def)

lemma never_idle: "call_step p e = Some Idle \<Longrightarrow> p = Idle"
proof (cases p)
  case (Live x)
  then show "call_step p e = Some Idle \<Longrightarrow> p = Idle" by (cases x; cases e) (auto split: if_splits)
qed (cases e; simp split: if_splits)+

lemma calls_from_idle: "calls_from p es = Some Idle \<Longrightarrow> p = Idle"
proof (induction es arbitrary: p)
  case (Cons e es)
  then obtain q where q: "call_step p e = Some q" "calls_from q es = Some Idle" by (auto split: option.splits)
  then show ?case using Cons.IH never_idle [of p e] by blast
qed simp

lemma idle_each: "calls_from Idle tr = Some Idle \<Longrightarrow> e \<in> set tr \<Longrightarrow> call_step Idle e = Some Idle"
proof (induction tr)
  case (Cons a tr)
  then obtain q where q: "call_step Idle a = Some q" "calls_from q tr = Some Idle" by (auto split: option.splits)
  have "q = Idle" by (rule calls_from_idle [OF q(2)])
  then show ?case using Cons q by auto
qed simp

text \<open>The main loop itself only serves the control socket.\<close>

lemma stream_loop_events:
  "stream_loop li cs w h ts cell rs = Some (code, ev, rs') \<Longrightarrow> list_all (\<lambda>e. \<exists>calls. e = ControlCalls calls) ev"
proof (induction li cs w h ts cell rs arbitrary: code ev rs' rule: stream_loop.induct)
  case (2 li cs w h ts cell r rs)
  show ?case
  proof (cases "r \<and> ts \<noteq> []")
    case False
    then show ?thesis using 2(2) by (auto split: if_splits)
  next
    case True
    then obtain t ts' where t: "ts = t # ts'" and r: r by (cases ts) auto
    let ?proc = "case cs of None \<Rightarrow> Some []
      | Some s \<Rightarrow> map_option (\<lambda>(n, calls, _). [ControlCalls calls]) (control_socket_process_all li (tk_recv t) s w h)"
    obtain ev0 where ev0: "?proc = Some ev0" using 2(2) t r by (cases ?proc) auto
    have p: "list_all (\<lambda>e. \<exists>calls. e = ControlCalls calls) ev0" using ev0 by (cases cs) auto
    let ?cell = "raise_codes (tk_codes t) cell"
    show ?thesis
    proof (cases "?cell = WORKER_FATAL_NONE")
      case False
      then show ?thesis using 2(2) t r ev0 p by simp
    next
      case z: True
      then obtain ev' where e: "stream_loop li cs w h ts' ?cell rs = Some (code, ev', rs')" "ev = ev0 @ ev'"
        using 2(2) t r ev0 by (auto simp: Let_def)
      show ?thesis using 2(1) [of t ts' ev0 ?cell code ev' rs'] t r ev0 z e p by (simp add: e(2))
    qed
  qed
qed simp


lemma raise_codes_simps [simp]:
  "raise_codes [] v = v"
  "raise_codes (c # cs) v = raise_codes cs (if v = WORKER_FATAL_NONE then c else v)"
  by (simp_all add: raise_codes_def set_fatal_code_def)

section \<open>The pointer of the video callbacks\<close>


lemma worker_setup_keeps_cfg:
  "worker_setup ok ce now fmt width height (Some cfg) w = Some (r, w') \<Longrightarrow> w_cfg w' \<noteq> None"
  by (auto simp: worker_setup_def Let_def set_fatal_once_def split: option.splits if_splits prod.splits)

lemma worker_cleanup_drops_cfg: "worker_cleanup w = Some w' \<Longrightarrow> w_cfg w' = None"
  by (auto simp: worker_cleanup_def split: option.splits if_splits prod.splits)











section \<open>Outcomes\<close>




definition connects :: "main_event list \<Rightarrow> bool" where
  "connects tr \<longleftrightarrow> (\<exists>c r err. LiStart c r err \<in> set tr)"

lemma idle_no_start: "calls_from Idle tr = Some Idle \<Longrightarrow> \<not> connects tr \<and> LiStop \<notin> set tr"
  by (fastforce simp: connects_def dest: idle_each)

text \<open>The reads of the flag from the first one that sees it cleared: nobody sets it again.\<close>

abbreviation stays_down :: "bool list \<Rightarrow> bool" where
  "stays_down \<equiv> sorted_wrt (\<lambda>a b. b \<longrightarrow> a)"

lemma stays_down_suffix: "suffix rs' rs \<Longrightarrow> stays_down rs \<Longrightarrow> stays_down rs'"
  by (auto simp: suffix_def sorted_wrt_append)

lemma stays_down_False: "stays_down rs \<Longrightarrow> suffix (False # rs') rs \<Longrightarrow> True \<notin> set rs'"
  by (auto simp: suffix_def sorted_wrt_append)

lemma sleep_loop_suffix: "sleep_loop n rs = Some (k, rs') \<Longrightarrow> suffix rs' rs"
  by (induction n rs arbitrary: k rs' rule: sleep_loop.induct) (fastforce intro: suffix_ConsI split: if_splits)+

lemma wait_child_suffix:
  "wait_child ws rs = Some (rc, rs') \<Longrightarrow> suffix rs' rs \<and> (rc < 0 \<longrightarrow> suffix (False # rs') rs)"
proof (induction ws rs rule: wait_child.induct)
  case (2 st ws rs)
  then show ?case by (auto split: wait_status.splits if_splits)
next
  case (3 ws rs)
  then show ?case by (cases rs) (auto intro: suffix_ConsI split: if_splits)
qed auto

lemma ping_suffix:
  "ping_host_once host ps rs = Some (rc, ps', rs') \<Longrightarrow>
   suffix rs' rs \<and> (host \<noteq> [] \<longrightarrow> rc < 0 \<longrightarrow> suffix (False # rs') rs)"
  by (auto simp: ping_host_once_def dest: wait_child_suffix split: list.splits option.splits if_splits)

lemma wait_for_host_suffix:
  "wait_for_host_online host ps rs = Some (rc, ev, ps', rs') \<Longrightarrow> suffix rs' rs \<and> (host \<noteq> [] \<longrightarrow> rc \<noteq> 0 \<longrightarrow> suffix (False # rs') rs)"
proof (induction "length rs" arbitrary: ps rs rc ev rule: less_induct)
  case less
  from less.prems show ?case
  proof (cases rule: wait_for_host_round)
    case stopped
    then show ?thesis by (simp add: suffix_ConsI)
  next
    case (answered rs0 prc)
    then show ?thesis using ping_suffix [OF answered(2)] by (auto intro: suffix_ConsI split: if_splits)
  next
    case (offline rs0 prc ps1 rs1 n rs2 ev')
    have s: "suffix rs2 rs"
      using ping_suffix [OF offline(2)] sleep_loop_suffix [OF offline(5)] offline(1)
      by (metis suffix_order.trans suffix_ConsI)
    have "length rs2 < length rs" using ping_reads [OF offline(2)] sleep_loop_reads [OF offline(5)] offline(1) by simp
    from less.hyps [OF this offline(7)] s show ?thesis using suffix_order.trans by blast
  qed
qed

lemma connect_loop_suffix: "connect_loop host skip sd ps ias rs = Some (x, sd', ev, rs') \<Longrightarrow> suffix rs' rs"
proof (induction "length rs" arbitrary: sd ps ias rs ev rule: less_induct)
  case less
  from less.prems show ?case
  proof (cases rule: connect_round)
    case (retried rs0 ev0 ps1 rs1 ia ias1 n rs2 ev')
    have lt: "length rs2 < length rs" using connect_loop_shrinks [OF retried(2,6)] retried(1) by simp
    have "suffix rs' rs2" by (rule less.hyps [OF lt retried(8)])
    also have "suffix rs2 rs1" by (rule sleep_loop_suffix [OF retried(6)])
    also have "suffix rs1 rs0" using wait_for_host_suffix [OF retried(2)] by simp
    finally show ?thesis by (simp add: retried(1) suffix_ConsI)
  qed (auto simp: suffix_ConsI dest: wait_for_host_suffix)
qed

text \<open>A run ends before the connection, or with what the connection did.\<close>

lemma run_cases:
  assumes "run_stream_command e o' = Some (rc, tr)" and "build_supported_video_formats (apply_default_codec_policy o') = Some formats"
  obtains (early) "rc \<in> {0, 2, 3, 4, 5}" "calls_from Idle tr = Some Idle"
  | (connected) pre rs ev where "tr = pre @ ev" "calls_from Idle pre = Some Idle"
      "run_connection e (apply_default_codec_policy o') formats rs = Some (rc, ev)" "set rs \<subseteq> set (sn_running e)"
proof -
  let ?o = "apply_default_codec_policy o'"
  let ?host = "c_string (so_host ?o)" and ?skip = "so_skip_mode_check ?o"
  obtain x sd ev rs where c: "connect_loop ?host ?skip \<lparr>sd_paired = False\<rparr> (sn_probes e) (sn_inits e) (sn_running e) =
      Some (x, sd, ev, rs)"
    using assms by (auto simp: run_stream_command_def Let_def split: option.splits)
  have idle: "calls_from Idle ev = Some Idle" and x: "x = None \<or> x = Some 2"
    using connect_loop_events [OF c] by (auto intro: idle_calls)
  note run = assms(1) [unfolded run_stream_command_def Let_def assms(2) option.case c prod.case]
  show ?thesis
  proof (cases "x = None \<and> rs \<noteq> []")
    case False
    then show ?thesis using run x idle by (intro early) (auto split: list.splits)
  next
    case True
    then obtain r rs1 where rs: "rs = r # rs1" and n: "x = None" by (cases rs) auto
    let ?id = "resolve_app_id (sn_apps e) (c_string (so_app ?o))"
    let ?pre = "ev @ [GsApplist, GsStartApp ?id (stream_config ?o formats)]"
    have sub: "set rs1 \<subseteq> set (sn_running e)"
      using connect_loop_suffix [OF c] set_mono_suffix [of rs "sn_running e"] rs by auto
    have pre: "calls_from Idle ?pre = Some Idle" "calls_from Idle (ev @ [GsApplist]) = Some Idle"
      using idle by (simp_all add: calls_from_append)
    show ?thesis
    proof (cases "r \<and> sd_paired sd \<and> \<not> ?id < 0 \<and> sn_start_app e = GS_OK")
      case False
      then show ?thesis using run idle pre by (intro early) (auto simp: rs n split: if_splits)
    next
      case True
      then obtain ev' where "run_connection e ?o formats rs1 = Some (rc, ev')" "tr = ?pre @ ev'"
        using run by (auto simp: rs n)
      then show ?thesis using pre sub connected by blast
    qed
  qed
qed


section \<open>What the exit codes mean\<close>

text \<open>The answers of \<open>gs_init\<close> that a run asked for, and an answer that ends it.\<close>

definition is_init :: "main_event \<Rightarrow> bool" where
  "is_init ev \<longleftrightarrow> (case ev of GsInit h b \<Rightarrow> True | _ \<Rightarrow> False)"

definition asked :: "session_env \<Rightarrow> main_event list \<Rightarrow> init_answer list" where
  "asked e tr = take (length (filter is_init tr)) (sn_inits e)"

definition hard_failure :: "init_answer \<Rightarrow> bool" where
  "hard_failure ia \<longleftrightarrow> ia_rc ia \<noteq> 0 \<and> \<not> transient_answer ia"

text \<open>The codes raised while the connection starts and in the first \<open>k\<close> rounds, in order.\<close>

definition raised_until :: "session_env \<Rightarrow> nat \<Rightarrow> int list" where
  "raised_until e k =
     filter (\<lambda>c. c \<noteq> WORKER_FATAL_NONE) (sn_start_codes e @ concat (map tk_codes (take k (sn_ticks e))))"

lemma wait_no_init:
  assumes "wait_for_host_online host ps rs = Some (rc, ev, ps', rs')"
  shows "filter is_init ev = []"
  using wait_for_host_events [OF assms] by (auto simp: filter_empty_conv is_init_def)

text \<open>What the retry loop asked, and why it was left.\<close>

lemma connect_loop_asked:
  assumes "connect_loop host skip sd ps ias rs = Some (x, sd', ev, rs')" and "host \<noteq> []" and "stays_down rs"
  shows "let as = take (length (filter is_init ev)) ias in
    sd' = (if as = [] then sd else ia_server (last as)) \<and> suffix rs' rs \<and>
    (x = Some 2 \<longrightarrow> as \<noteq> [] \<and> hard_failure (last as)) \<and>
    (x \<noteq> Some 2 \<longrightarrow> x = None \<and> (as = [] \<or> \<not> hard_failure (last as)) \<and>
       (True \<in> set rs' \<longrightarrow> as \<noteq> [] \<and> ia_rc (last as) = 0))"
  using assms
proof (induction "length rs" arbitrary: sd ps ias rs ev rule: less_induct)
  case less
  note down = stays_down_suffix [OF _ less.prems(3)]
  from less.prems(1) show ?case
  proof (cases rule: connect_round)
    case stopped
    then show ?thesis using less.prems(3) by (auto intro: suffix_ConsI)
  next
    case (offline rs0 rc ps1)
    then have w: "suffix rs' rs0" "suffix (False # rs') rs"
      using wait_for_host_suffix [OF offline(2)] offline(3) less.prems(2) by (auto intro: suffix_ConsI)
    then show ?thesis
      using offline wait_no_init [OF offline(2)] stays_down_False [OF less.prems(3) w(2)]
      by (simp add: suffix_ConsI)
  next
    case (answered rs0 ev0 ps1 ia ias1)
    have w: "suffix rs' rs0" using wait_for_host_suffix [OF answered(2)] by simp
    have "take (length (filter is_init ev)) ias = [ia]"
      using wait_no_init [OF answered(2)] by (simp add: answered(3,4) is_init_def)
    then show ?thesis using answered w by (auto simp: hard_failure_def suffix_ConsI Let_def split: if_splits)
  next
    case (retried rs0 ev0 ps1 rs1 ia ias1 n rs2 ev')
    let ?as = "take (length (filter is_init ev')) ias1"
    have as: "take (length (filter is_init ev)) ias = ia # ?as"
      using wait_no_init [OF retried(2)] by (simp add: retried(3,7) is_init_def)
    have "suffix rs2 rs0"
      using wait_for_host_suffix [OF retried(2)] sleep_loop_suffix [OF retried(6)] suffix_order.trans by blast
    then have s: "suffix rs2 rs" using retried(1) by (simp add: suffix_ConsI)
    have lt: "length rs2 < length rs" using connect_loop_shrinks [OF retried(2,6)] retried(1) by simp
    have IH: "let as = ?as in sd' = (if as = [] then ia_server ia else ia_server (last as)) \<and> suffix rs' rs2 \<and>
        (x = Some 2 \<longrightarrow> as \<noteq> [] \<and> hard_failure (last as)) \<and>
        (x \<noteq> Some 2 \<longrightarrow> x = None \<and> (as = [] \<or> \<not> hard_failure (last as)) \<and>
           (True \<in> set rs' \<longrightarrow> as \<noteq> [] \<and> ia_rc (last as) = 0))"
      by (rule less.hyps [OF lt retried(8) less.prems(2) down [OF s]])
    show ?thesis
      using IH retried(4,5) suffix_order.trans [OF _ s, of rs']
      unfolding as Let_def hard_failure_def by (cases ?as) simp_all
  qed
qed

lemma connect_loop_unasked:
  "connect_loop host skip sd ps ias rs = Some (x, sd', ev, rs') \<Longrightarrow> list_all (\<lambda>ev. ev \<noteq> GsApplist) ev"
  using connect_loop_events by (fastforce simp: list_all_iff idle_call_def)

text \<open>The main loop ends when the flag is seen cleared or with the first code that was raised.\<close>

lemma raise_codes_append: "raise_codes (xs @ ys) v = raise_codes ys (raise_codes xs v)"
  by (simp add: raise_codes_def)

lemma raise_codes_first:
  "raise_codes codes v =
     (if v \<noteq> WORKER_FATAL_NONE then v
      else case filter (\<lambda>c. c \<noteq> WORKER_FATAL_NONE) codes of [] \<Rightarrow> WORKER_FATAL_NONE | c # cs \<Rightarrow> c)"
  by (induction codes arbitrary: v) auto

lemma stream_loop_ends:
  "stream_loop li cs w h ts cell rs = Some (code, ev, rs') \<Longrightarrow>
   code = 0 \<and> False \<in> set rs \<or>
   (\<exists>k < length ts. let c = raise_codes (concat (map tk_codes (take (Suc k) ts))) cell in
      c \<noteq> WORKER_FATAL_NONE \<and> code = 100 + c \<and>
      (0 < k \<longrightarrow> raise_codes (concat (map tk_codes (take k ts))) cell = WORKER_FATAL_NONE))"
proof (induction li cs w h ts cell rs arbitrary: code ev rs' rule: stream_loop.induct)
  case (2 li cs w h ts cell r rs)
  show ?case
  proof (cases "r \<and> ts \<noteq> []")
    case False
    then show ?thesis using 2(2) by (auto split: if_splits)
  next
    case True
    then obtain t ts' where t: "ts = t # ts'" and r: r by (cases ts) auto
    let ?proc = "case cs of None \<Rightarrow> Some []
      | Some s \<Rightarrow> map_option (\<lambda>(n, calls, _). [ControlCalls calls]) (control_socket_process_all li (tk_recv t) s w h)"
    obtain ev0 where ev0: "?proc = Some ev0" using 2(2) t r by (cases ?proc) auto
    let ?cell = "raise_codes (tk_codes t) cell"
    show ?thesis
    proof (cases "?cell = WORKER_FATAL_NONE")
      case False
      then have "code = 100 + ?cell" using 2(2) t r ev0 by simp
      then show ?thesis using False by (intro disjI2 exI [of _ 0]) (simp add: t)
    next
      case z: True
      then obtain ev' where e: "stream_loop li cs w h ts' ?cell rs = Some (code, ev', rs')"
        using 2(2) t r ev0 by (auto simp: Let_def)
      from 2(1) [of t ts' ev0 ?cell code ev' rs'] t r ev0 z e
      consider (stop) "code = 0" "False \<in> set rs"
        | (fatal) k where "k < length ts'" "raise_codes (concat (map tk_codes (take (Suc k) ts'))) ?cell \<noteq> WORKER_FATAL_NONE"
            "code = 100 + raise_codes (concat (map tk_codes (take (Suc k) ts'))) ?cell"
            "0 < k \<longrightarrow> raise_codes (concat (map tk_codes (take k ts'))) ?cell = WORKER_FATAL_NONE"
        by (auto simp: Let_def)
      then show ?thesis
      proof cases
        case stop
        then show ?thesis by simp
      next
        case fatal
        then show ?thesis using z
          by (intro disjI2 exI [of _ "Suc k"]) (auto simp: t raise_codes_append Let_def)
      qed
    qed
  qed
qed simp

lemma run_streaming_ends:
  assumes "run_streaming e o' cs (raise_codes (sn_start_codes e) WORKER_FATAL_NONE) rs = Some (rc, ev)"
  shows "(rc = 0 \<and> False \<in> set rs \<or>
     (\<exists>k < length (sn_ticks e). raised_until e (Suc k) \<noteq> [] \<and> (0 < k \<longrightarrow> raised_until e k = []) \<and>
        rc = 100 + hd (raised_until e (Suc k)))) \<and> (\<forall>r fd. ControlOpen r fd \<notin> set ev)"
proof -
  let ?cell = "raise_codes (sn_start_codes e) WORKER_FATAL_NONE"
  obtain code ev0 rs1 where l: "stream_loop (sn_li e) cs (so_width o') (so_height o') (sn_ticks e) ?cell rs = Some (code, ev0, rs1)"
    using assms(1) by (auto simp: run_streaming_def split: option.splits)
  have rc: "rc = code" using assms(1) by (auto simp: run_streaming_def l Let_def split: if_splits)
  have "ControlOpen r fd \<notin> set ev0" for r fd
    using stream_loop_events [OF l] by (auto simp: list_all_iff)
  then have opens: "\<forall>r fd. ControlOpen r fd \<notin> set ev"
    using assms(1) by (auto simp: run_streaming_def l Let_def split: if_splits option.splits)
  have c: "raise_codes (concat (map tk_codes (take k (sn_ticks e)))) ?cell =
      (case raised_until e k of [] \<Rightarrow> WORKER_FATAL_NONE | c # cs \<Rightarrow> c)" for k
    unfolding raise_codes_append [symmetric] raised_until_def
    by (subst raise_codes_first) simp
  have nz: "raised_until e k \<noteq> [] \<Longrightarrow> hd (raised_until e k) \<noteq> WORKER_FATAL_NONE" for k
    using hd_in_set [of "raised_until e k"] by (auto simp: raised_until_def)
  have first: "(case raised_until e k of [] \<Rightarrow> WORKER_FATAL_NONE | c # cs \<Rightarrow> c) =
      (if raised_until e k = [] then WORKER_FATAL_NONE else hd (raised_until e k))" for k
    by (cases "raised_until e k") simp_all
  show ?thesis
    using stream_loop_ends [OF l] nz opens unfolding c first rc Let_def by (auto split: if_splits)
qed

lemma run_connection_ends:
  assumes "run_connection e o' formats rs = Some (rc, ev)"
  shows "if sn_li_start e \<noteq> 0 then
      rc = (if raised_until e 0 = [] then 6 else 100 + hd (raised_until e 0))
    else if \<exists>r fd. ControlOpen r fd \<in> set ev \<and> r \<noteq> 0 then rc = 7
    else rc = 0 \<and> False \<in> set rs \<or>
      (\<exists>k < length (sn_ticks e). raised_until e (Suc k) \<noteq> [] \<and> (0 < k \<longrightarrow> raised_until e k = []) \<and>
         rc = 100 + hd (raised_until e (Suc k)))"
proof -
  let ?cell = "raise_codes (sn_start_codes e) WORKER_FATAL_NONE"
  have cell: "?cell = (if raised_until e 0 = [] then WORKER_FATAL_NONE else hd (raised_until e 0))"
    by (subst raise_codes_first) (auto simp: raised_until_def split: list.splits)
  have nz: "raised_until e 0 \<noteq> [] \<Longrightarrow> hd (raised_until e 0) \<noteq> WORKER_FATAL_NONE"
    using hd_in_set [of "raised_until e 0"] by (auto simp: raised_until_def)
  consider (failed) "sn_li_start e \<noteq> 0" | (control) "sn_li_start e = 0" "0 < so_control_port o'"
    | (plain) "sn_li_start e = 0" "\<not> 0 < so_control_port o'" by blast
  then show ?thesis
  proof cases
    case failed
    then show ?thesis using assms nz by (auto simp: run_connection_def Let_def cell split: if_splits)
  next
    case plain
    then obtain ev' where e: "run_streaming e o' None ?cell rs = Some (rc, ev')"
        "ControlOpen r fd \<in> set ev \<longleftrightarrow> ControlOpen r fd \<in> set ev'" for r fd
      using assms(1) by (auto simp: run_connection_def Let_def)
    then show ?thesis using run_streaming_ends [OF e(1)] plain by auto
  next
    case control
    obtain r s closed where o: "control_socket_open (sn_control e) (Some (so_control_bind o')) (word_of_int (so_control_port o')) =
        (r, s, closed)" by (metis prod.exhaust)
    show ?thesis
    proof (cases "r = 0")
      case False
      then show ?thesis using assms(1) control o by (auto simp: run_connection_def Let_def)
    next
      case True
      then obtain ev' where e: "run_streaming e o' (Some s) ?cell rs = Some (rc, ev')"
          "ControlOpen r1 fd \<in> set ev \<longleftrightarrow> r1 = 0 \<and> fd = cs_fd s \<or> ControlOpen r1 fd \<in> set ev'" for r1 fd
        using assms(1) control o by (auto simp: run_connection_def Let_def)
      then show ?thesis using run_streaming_ends [OF e(1)] control by auto
    qed
  qed
qed

lemma run_connection_starts:
  "run_connection e o' formats rs = Some (rc, ev) \<Longrightarrow> \<exists>c r err. LiStart c r err \<in> set ev"
  by (fastforce simp: run_connection_def Let_def split: if_splits prod.splits)

text \<open>The five ways a session ends before it starts a connection.\<close>

lemma run_early_ends:
  assumes "run_stream_command e o' = Some (rc, tr)" and "\<not> connects tr"
    and "build_supported_video_formats (apply_default_codec_policy o') = Some formats"
    and "c_string (so_host (apply_default_codec_policy o')) \<noteq> []" and "stays_down (sn_running e)"
  shows "let as = asked e tr; app = resolve_app_id (sn_apps e) (c_string (so_app (apply_default_codec_policy o'))) in
    rc = 0 \<and> False \<in> set (sn_running e) \<and> GsApplist \<notin> set tr \<and> (as = [] \<or> \<not> hard_failure (last as)) \<or>
    rc = 2 \<and> GsApplist \<notin> set tr \<and> as \<noteq> [] \<and> hard_failure (last as) \<or>
    rc = 3 \<and> GsApplist \<notin> set tr \<and> as \<noteq> [] \<and> ia_rc (last as) = 0 \<and> \<not> sd_paired (ia_server (last as)) \<or>
    as \<noteq> [] \<and> ia_rc (last as) = 0 \<and> sd_paired (ia_server (last as)) \<and>
      (rc = 4 \<and> last tr = GsApplist \<and> app < 0 \<or>
       rc = 5 \<and> 0 \<le> app \<and> (\<exists>c. last tr = GsStartApp app c) \<and> sn_start_app e \<noteq> GS_OK)"
proof -
  let ?o = "apply_default_codec_policy o'"
  let ?host = "c_string (so_host ?o)" and ?skip = "so_skip_mode_check ?o"
  let ?app = "resolve_app_id (sn_apps e) (c_string (so_app ?o))"
  obtain x sd ev rs where c: "connect_loop ?host ?skip \<lparr>sd_paired = False\<rparr> (sn_probes e) (sn_inits e) (sn_running e) =
      Some (x, sd, ev, rs)"
    using assms(1,3) by (auto simp: run_stream_command_def Let_def split: option.splits)
  let ?as = "take (length (filter is_init ev)) (sn_inits e)"
  note A = connect_loop_asked [OF c assms(4,5), unfolded Let_def]
  have no_list: "GsApplist \<notin> set ev" using connect_loop_unasked [OF c] by (auto simp: list_all_iff)
  note run = assms(1) [unfolded run_stream_command_def Let_def assms(3) option.case c prod.case]
  show ?thesis
  proof (cases "x = None")
    case False
    then have "x = Some 2" using A by auto
    then have "rc = 2" "tr = ev" using run by auto
    then show ?thesis using A \<open>x = Some 2\<close> no_list by (simp add: asked_def Let_def)
  next
    case True
    then obtain r rs1 where rs: "rs = r # rs1" using run by (cases rs) auto
    show ?thesis
    proof (cases r)
      case False
      then have "rc = 0" "tr = ev" using run True rs by auto
      moreover have "False \<in> set (sn_running e)" using A False rs by (auto simp: suffix_def)
      ultimately show ?thesis using A True no_list by (simp add: asked_def Let_def)
    next
      case r: True
      then have as: "?as \<noteq> []" "ia_rc (last ?as) = 0" "sd = ia_server (last ?as)" using A True rs by auto
      show ?thesis
      proof (cases "sd_paired sd")
        case False
        then have "rc = 3" "tr = ev" using run True rs r by auto
        then show ?thesis using as no_list False by (simp add: asked_def Let_def)
      next
        case paired: True
        show ?thesis
        proof (cases "?app < 0")
          case neg: True
          then have "rc = 4" "tr = ev @ [GsApplist]" using run True rs r paired by auto
          then show ?thesis using as neg paired by (simp add: asked_def Let_def is_init_def)
        next
          case False
          have "sn_start_app e \<noteq> GS_OK"
          proof
            assume "sn_start_app e = GS_OK"
            then obtain ev' where "run_connection e ?o formats rs1 = Some (rc, ev')"
                "tr = (ev @ [GsApplist, GsStartApp ?app (stream_config ?o formats)]) @ ev'"
              using run True rs r paired False by auto
            then show False using run_connection_starts assms(2) by (fastforce simp: connects_def)
          qed
          then have "rc = 5" "tr = ev @ [GsApplist, GsStartApp ?app (stream_config ?o formats)]"
            using run True rs r paired False by auto
          then show ?thesis using as False paired \<open>sn_start_app e \<noteq> GS_OK\<close> by (simp add: asked_def Let_def is_init_def)
        qed
      qed
    qed
  qed
qed

text \<open>C15: the exit code says how far the session came. Without a connection: 2 when the last answer of the
  host was an error that is not worth a retry, 3 when the host answered and is not paired, 4
  when the paired host does not have the application, 5 when it would not start it, and 0 only
  after a stop signal. With a connection: one that could not start gives 6, or 100 plus the
  first fatal code that the callbacks raised meanwhile; 7 is exactly a control socket that
  could not open; else the session ends by a stop signal with 0, or in the round in which
  the first fatal code was raised, with 100 plus that code.\<close>

theorem session_exit_code:
  assumes "parse_stream_args home args = Some o'" and "run_stream_command e o' = Some (rc, tr)"
    and "c_string (so_host o') \<noteq> []" and "sn_running e = replicate n True @ replicate m False"
  shows "let as = asked e tr; app = resolve_app_id (sn_apps e) (c_string (so_app o')) in
    if \<not> connects tr then
      rc = 0 \<and> 0 < m \<and> GsApplist \<notin> set tr \<and> (as = [] \<or> \<not> hard_failure (last as)) \<or>
      rc = 2 \<and> GsApplist \<notin> set tr \<and> as \<noteq> [] \<and> hard_failure (last as) \<or>
      rc = 3 \<and> GsApplist \<notin> set tr \<and> as \<noteq> [] \<and> ia_rc (last as) = 0 \<and> \<not> sd_paired (ia_server (last as)) \<or>
      as \<noteq> [] \<and> ia_rc (last as) = 0 \<and> sd_paired (ia_server (last as)) \<and>
        (rc = 4 \<and> last tr = GsApplist \<and> app < 0 \<or>
         rc = 5 \<and> 0 \<le> app \<and> (\<exists>c. last tr = GsStartApp app c) \<and> sn_start_app e \<noteq> GS_OK)
    else if sn_li_start e \<noteq> 0 then
      rc = (if raised_until e 0 = [] then 6 else 100 + hd (raised_until e 0))
    else if \<exists>r fd. ControlOpen r fd \<in> set tr \<and> r \<noteq> 0 then rc = 7
    else rc = 0 \<and> 0 < m \<or>
      (\<exists>k < length (sn_ticks e). raised_until e (Suc k) \<noteq> [] \<and> (0 < k \<longrightarrow> raised_until e k = []) \<and>
         rc = 100 + hd (raised_until e (Suc k)))"
proof -
  note valid = parse_valid [OF assms(1)]
  then obtain formats where f: "build_supported_video_formats (apply_default_codec_policy o') = Some formats" by auto
  have port: "so_control_port (apply_default_codec_policy o') \<le> 65535" using valid by (simp add: options_valid_def)
  have up: "stays_down (replicate k b)" for k b by (induction k) simp_all
  have down: "stays_down (sn_running e)" and m: "False \<in> set (sn_running e) \<longleftrightarrow> 0 < m"
    using up by (simp_all add: assms(4) sorted_wrt_append)
  show ?thesis
  proof (cases "connects tr")
    case False
    then show ?thesis
      using run_early_ends [OF assms(2) False f _ down] assms(3) by (simp only: valid(3) m Let_def not_False_eq_True if_True simp_thms)
  next
    case True
    from assms(2) f obtain pre rs ev where c: "tr = pre @ ev" "calls_from Idle pre = Some Idle"
        "run_connection e (apply_default_codec_policy o') formats rs = Some (rc, ev)" "set rs \<subseteq> set (sn_running e)"
      using True idle_no_start by (cases rule: run_cases) blast+
    have "ControlOpen r fd \<notin> set pre" for r fd using idle_each [OF c(2)] by fastforce
    then have "ControlOpen r fd \<in> set tr \<longleftrightarrow> ControlOpen r fd \<in> set ev" for r fd by (simp add: c(1))
    then show ?thesis using run_connection_ends [OF c(3)] c(4) m True by (auto simp: Let_def split: if_splits)
  qed
qed

section \<open>Applications by number\<close>

lemma find_app_index:
  "i < length apps \<Longrightarrow> find_app True (n + int i) name n apps = al_id (apps ! i)"
proof (induction apps arbitrary: n i)
  case (Cons p ps)
  show ?case
  proof (cases i)
    case (Suc j)
    then show ?thesis using Cons.IH [of j "n + 1"] Cons.prems by (simp add: add.assoc)
  qed simp
qed simp

lemma list_lines_nth:
  "i < length apps \<Longrightarrow> list_lines n apps ! i =
     show_int (n + int i) @ ''. '' @ or_null (al_name (apps ! i)) @ '' (app_id='' @ show_int (al_id (apps ! i)) @ '')\<newline>''"
proof (induction apps arbitrary: n i)
  case (Cons p ps)
  then show ?case by (cases i) (simp_all add: algebra_simps)
qed simp

lemma length_list_lines [simp]: "length (list_lines n apps) = length apps"
  by (induction apps arbitrary: n) simp_all

text \<open>the numbers that \<open>list\<close> prints are the ones \<open>stream\<close> takes: each line begins with a number, and
  that number, given as the application, resolves to the id of the same line's application.\<close>

theorem listed_number_resolves:
  assumes "ia_rc ia = 0" and "sd_paired (ia_server ia)" and "i < length apps" and "length apps < 2147483648"
  shows "\<exists>number. snd (run_list_command ia (Some apps) opt) ! (2 + i) =
      Printed (number @ ''. '' @ or_null (al_name (apps ! i)) @ '' (app_id='' @ show_int (al_id (apps ! i)) @ '')\<newline>'') \<and>
    resolve_app_id (Some apps) number = al_id (apps ! i)"
proof (intro exI conjI)
  let ?number = "show_nat (Suc i)"
  have n: "show_int (1 + int i) = ?number" by (simp add: show_int_def nat_add_distrib)
  show "snd (run_list_command ia (Some apps) opt) ! (2 + i) =
      Printed (?number @ ''. '' @ or_null (al_name (apps ! i)) @ '' (app_id='' @ show_int (al_id (apps ! i)) @ '')\<newline>'')"
    using assms list_lines_nth [OF assms(3), of 1] by (simp add: run_list_command_def Let_def n)
  have "is_all_digits ?number" using show_nat_digits [of "Suc i"] by (simp add: is_all_digits_def)
  moreover have "atoi ?number = 1 + int i" using assms atoi_show_nat [of "Suc i"] by simp
  ultimately show "resolve_app_id (Some apps) ?number = al_id (apps ! i)"
    using find_app_index [OF assms(3), of 1 ?number] by (simp add: resolve_app_id_def Let_def)
qed

section \<open>Error texts that are retried\<close>

lemma match_len_eq: "match_len hs ns = length ns \<longleftrightarrow> prefix (map c_tolower ns) (map c_tolower hs)"
  by (induction hs ns rule: match_len.induct) auto

lemma contains_from_eq: "ns \<noteq> [] \<Longrightarrow> contains_from hs ns \<longleftrightarrow> sublist (map c_tolower ns) (map c_tolower hs)"
proof (induction hs)
  case (Cons h hs)
  then show ?case using match_len_eq [of "h # hs" ns] by (auto simp: sublist_Cons_right)
qed simp

text \<open>an error is retried exactly when its text, whatever its case, contains one of the ten phrases
  that stand for a host that cannot be reached; every other error ends the session.\<close>

theorem transient_iff:
  "gs_error_is_transient_connect_failure err \<longleftrightarrow>
   (\<exists>phrase \<in> set transient_needles. sublist (map c_tolower phrase) (map c_tolower err))"
proof (cases "err = []")
  case True
  have "[] \<notin> set transient_needles" by (simp add: transient_needles_def)
  then show ?thesis using True by (auto simp: gs_error_is_transient_connect_failure_def)
next
  case False
  have ne: "[] \<notin> set transient_needles" by (simp add: transient_needles_def)
  have "contains_case_insensitive err p \<longleftrightarrow> sublist (map c_tolower p) (map c_tolower err)"
    if "p \<in> set transient_needles" for p
  proof -
    have "p \<noteq> []" using ne that by blast
    then show ?thesis by (simp add: contains_case_insensitive_def contains_from_eq)
  qed
  then show ?thesis using False by (simp add: gs_error_is_transient_connect_failure_def list_ex_iff)
qed

section \<open>Sessions\<close>

text \<open>A host that answers, one application, and a session that runs for one round; and one whose format is refused.\<close>

definition ex_session :: session_env where
  "ex_session =
     \<lparr>sn_running = replicate 4 True @ replicate 3 False, sn_probes = replicate 4 (Some [WaitChild (Exited 0)]),
      sn_inits = replicate 4 \<lparr>ia_rc = 0, ia_error = None, ia_server = \<lparr>sd_paired = True\<rparr>\<rparr>,
      sn_apps = Some [\<lparr>al_id = 881448767, al_name = Some ''Desktop''\<rparr>], sn_start_app = 0, sn_li_start = 0, sn_start_codes = [],
      sn_control = \<lparr>oe_socket = 5, oe_flags = 0, oe_setfl = 0, oe_pton = (\<lambda>_. 1), oe_bind = 0\<rparr>,
      sn_ticks = replicate 4 \<lparr>tk_recv = [RecvfromAgain], tk_codes = []\<rparr>, sn_li = (\<lambda>_. 0),
      sn_video_start = [VideoSetup 0], sn_video_stop = [VideoCleanup]\<rparr>"

definition ex_downgraded :: session_env where
  "ex_downgraded = ex_session\<lparr>sn_running := [True, True, True, False], sn_li_start := - 1, sn_start_codes := [8],
     sn_video_start := [VideoSetup (- 1)], sn_video_stop := []\<rparr>"

lemma ex_options_sel:
  "apply_default_codec_policy ex_options = ex_options" "so_host ex_options = Some ''pc''" "so_app ex_options = Some ''1''"
  "so_control_port ex_options = 0"
  using parse_valid(3) [OF ex_parse] by (simp_all add: ex_options_def stream_options_defaults_def)

lemma ex_connect_loop:
  "connect_loop ''pc'' skip sd (Some [WaitChild (Exited 0)] # ps)
     (\<lparr>ia_rc = 0, ia_error = None, ia_server = \<lparr>sd_paired = p\<rparr>\<rparr> # ias) (True # True # rs) =
     Some (None, \<lparr>sd_paired = p\<rparr>, [GsInit ''pc'' skip], rs)"
proof -
  have "ping_host_once ''pc'' (Some [WaitChild (Exited 0)] # ps) rs = Some (0, ps, rs)" by (simp add: ping_host_once_def)
  from wait_for_host_simps(5) [OF this] show ?thesis by (simp add: connect_loop_simps)
qed

lemma ex_resolve: "resolve_app_id (Some [\<lparr>al_id = 881448767, al_name = Some ''Desktop''\<rparr>]) ''1'' = 881448767"
  by (simp add: resolve_app_id_def Let_def is_all_digits_def c_isdigit_def atoi_def strtol10_def scan_signed_def c_isspace_def
      digit_val_def nat_of_digits_def clamp_long_id to_int32_id)


lemma ex_downgraded_run: "\<exists>tr. run_stream_command ex_downgraded ex_options = Some (108, tr) \<and> connects tr"
  by (simp add: run_stream_command_def Let_def ex_formats ex_options_sel c_string_def ex_session_def ex_downgraded_def ex_connect_loop
      ex_resolve GS_OK_def run_connection_def eval_nat_numeral worker_fatal_defs delay_before_fatal_exit_if_needed_def
      NEGOTIATION_MISMATCH_RETRY_DELAY_SEC_def connects_def)


definition ex_unpaired :: session_env where
  "ex_unpaired = ex_session\<lparr>sn_running := [True, True, True, False],
     sn_inits := [\<lparr>ia_rc = 0, ia_error = None, ia_server = \<lparr>sd_paired = False\<rparr>\<rparr>]\<rparr>"

lemma ex_unpaired_run:
  "run_stream_command ex_unpaired ex_options = Some (3, [GsInit ''pc'' (so_skip_mode_check ex_options)])"
  by (simp add: run_stream_command_def Let_def ex_formats ex_options_sel c_string_def ex_unpaired_def ex_session_def ex_connect_loop
      eval_nat_numeral)

theorem session_exit_code_witness:
  "(\<exists>tr. run_stream_command ex_downgraded ex_options = Some (108, tr) \<and> raised_until ex_downgraded 0 = [8] \<and>
     108 = 100 + hd (raised_until ex_downgraded 0)) \<and>
   (\<exists>tr. run_stream_command ex_unpaired ex_options = Some (3, tr) \<and> GsApplist \<notin> set tr \<and>
     asked ex_unpaired tr \<noteq> [] \<and> \<not> sd_paired (ia_server (last (asked ex_unpaired tr))))"
proof -
  have host: "c_string (so_host ex_options) \<noteq> []" by (simp add: ex_options_sel c_string_def)
  have d: "sn_running ex_downgraded = replicate 3 True @ replicate 1 False" "sn_li_start ex_downgraded \<noteq> 0"
      "raised_until ex_downgraded 0 = [8]"
    by (simp_all add: ex_downgraded_def ex_session_def eval_nat_numeral raised_until_def worker_fatal_defs)
  obtain tr where tr: "run_stream_command ex_downgraded ex_options = Some (108, tr)" "connects tr"
    using ex_downgraded_run by blast
  have 1: "108 = 100 + hd (raised_until ex_downgraded 0)"
    using session_exit_code [OF ex_parse tr(1) host d(1)] tr(2) d(2,3) by (simp add: Let_def)
  have u: "sn_running ex_unpaired = replicate 3 True @ replicate 1 False"
    by (simp add: ex_unpaired_def eval_nat_numeral)
  have n: "\<not> connects [GsInit ''pc'' skip]" for skip by (simp add: connects_def)
  have 2: "GsApplist \<notin> set [GsInit ''pc'' (so_skip_mode_check ex_options)] \<and>
      asked ex_unpaired [GsInit ''pc'' (so_skip_mode_check ex_options)] \<noteq> [] \<and>
      \<not> sd_paired (ia_server (last (asked ex_unpaired [GsInit ''pc'' (so_skip_mode_check ex_options)])))"
    using session_exit_code [OF ex_parse ex_unpaired_run host u] n unfolding Let_def by simp
  show ?thesis using tr(1) d(3) 1 2 ex_unpaired_run by blast
qed

theorem listed_number_resolves_witness:
  "\<exists>number. snd (run_list_command \<lparr>ia_rc = 0, ia_error = None, ia_server = \<lparr>sd_paired = True\<rparr>\<rparr>
        (Some [\<lparr>al_id = 881448767, al_name = Some ''Desktop''\<rparr>]) \<lparr>lo_host = Some ''pc'', lo_key_dir = []\<rparr>) ! 2 =
      Printed (number @ ''. '' @ ''Desktop'' @ '' (app_id='' @ show_int 881448767 @ '')\<newline>'') \<and>
    resolve_app_id (Some [\<lparr>al_id = 881448767, al_name = Some ''Desktop''\<rparr>]) number = 881448767"
  using listed_number_resolves [of "\<lparr>ia_rc = 0, ia_error = None, ia_server = \<lparr>sd_paired = True\<rparr>\<rparr>" 0
      "[\<lparr>al_id = 881448767, al_name = Some ''Desktop''\<rparr>]" "\<lparr>lo_host = Some ''pc'', lo_key_dir = []\<rparr>"]
  by (simp add: or_null_def)

text \<open>A connection that could not start, because a callback raised a code.\<close>

lemma sleep_loop_le: "sleep_loop m rs = Some (n, rs') \<Longrightarrow> n \<le> m"
  by (induction m rs arbitrary: n rs' rule: sleep_loop.induct) (auto split: if_splits)

lemma failed_start:
  assumes "run_connection e o' formats rs = Some (rc, ev)" and "sn_li_start e \<noteq> 0" and "sn_start_codes e = [c]"
    and "c \<noteq> WORKER_FATAL_NONE"
  shows "rc = 100 + c \<and> ev \<noteq> [] \<and> (\<exists>n \<le> NEGOTIATION_MISMATCH_RETRY_DELAY_SEC. last ev = Slept n)"
  using assms sleep_loop_le
  by (auto simp: run_connection_def Let_def delay_before_fatal_exit_if_needed_def split: if_splits)

text \<open>C14: a downgrade by the host is reported as such: when the library hands the setup callback another
  format than the one offered, the worker exits with 108, after a pause of at most a minute.\<close>

theorem mismatch_reported:
  assumes "parse_stream_args home args = Some o'" and "build_supported_video_formats o' = Some formats"
    and "worker_setup ok ce now fmt width height (Some (render_config o' formats WORKER_FATAL_NONE)) w = Some (r, w')"
    and "fmt \<noteq> formats"
    and "map_option wc_fatal_code (w_cfg w') = Some (Some code)" and "sn_start_codes e = [code]" and "sn_li_start e \<noteq> 0"
    and "run_stream_command e o' = Some (rc, tr)" and "connects tr"
  shows "rc = 108 \<and> (\<exists>n \<le> 60. last tr = Slept n)"
proof -
  have code: "code = WORKER_FATAL_NEGOTIATION_MISMATCH" using own_format [OF assms(1-3)] assms(4,5) by simp
  have pol: "apply_default_codec_policy o' = o'" by (rule parse_valid(3) [OF assms(1)])
  have f: "build_supported_video_formats (apply_default_codec_policy o') = Some formats" by (simp add: pol assms(2))
  from assms(8) f show ?thesis
  proof (cases rule: run_cases)
    case early
    then show ?thesis using idle_no_start assms(9) by blast
  next
    case (connected pre rs ev)
    from failed_start [OF connected(3) assms(7,6)] code
    show ?thesis by (simp add: worker_fatal_defs connected(1) NEGOTIATION_MISMATCH_RETRY_DELAY_SEC_def)
  qed
qed

theorem mismatch_reported_witness:
  "\<exists>r w' tr. worker_setup True ex_connect 0 VIDEO_FORMAT_H264 640 480
      (Some (render_config ex_options VIDEO_FORMAT_H265_REXT8_444 WORKER_FATAL_NONE)) (ex_worker TCP_STATE_DISCONNECTED) =
      Some (r, w') \<and> run_stream_command ex_downgraded ex_options = Some (108, tr) \<and> (\<exists>n \<le> 60. last tr = Slept n)"
proof -
  have "video_format_to_stream_metadata VIDEO_FORMAT_H264 = Some (0, 0, 8)"
    by (simp add: video_format_to_stream_metadata_def)
  then obtain r w' where su: "worker_setup True ex_connect 0 VIDEO_FORMAT_H264 640 480
      (Some (render_config ex_options VIDEO_FORMAT_H265_REXT8_444 WORKER_FATAL_NONE)) (ex_worker TCP_STATE_DISCONNECTED) =
      Some (r, w')"
    by (simp add: worker_setup_def Let_def render_config_def ex_options_def stream_options_defaults_def option_consts)
  have other: "VIDEO_FORMAT_H264 \<noteq> VIDEO_FORMAT_H265_REXT8_444" by (simp add: video_format_defs)
  then have cell: "map_option wc_fatal_code (w_cfg w') = Some (Some 8)"
    using own_format [OF ex_parse ex_formats su] by (simp add: worker_fatal_defs)
  obtain tr where tr: "run_stream_command ex_downgraded ex_options = Some (108, tr)" "connects tr" using ex_downgraded_run by blast
  have "sn_start_codes ex_downgraded = [8]" "sn_li_start ex_downgraded \<noteq> 0" by (simp_all add: ex_downgraded_def)
  from mismatch_reported [OF ex_parse ex_formats su other cell this tr] show ?thesis using su tr(1) by blast
qed

section \<open>An empty host\<close>

text \<open>the parser takes an empty host, but the session does not: it fails its own ping, leaves the retry
  loop without asking anybody, and reports a host that is not paired (exit code 3).\<close>

theorem empty_host_not_asked:
  assumes "parse_stream_args home args = Some o'" and "so_host o' = Some []" and "sn_running e = True # True # True # rs"
  shows "run_stream_command e o' = Some (3, [])"
proof -
  have pol: "apply_default_codec_policy o' = o'" by (rule parse_valid(3) [OF assms(1)])
  obtain formats where f: "build_supported_video_formats o' = Some formats" using parse_valid(2) [OF assms(1)] by auto
  have "ping_host_once [] (sn_probes e) (True # rs) = Some (- 1, sn_probes e, True # rs)" by (simp add: ping_host_once_def)
  from wait_for_host_simps(4) [OF this] have w: "wait_for_host_online [] (sn_probes e) (True # True # rs) =
      Some (- 1, [], sn_probes e, True # rs)" by simp
  have c: "connect_loop [] skip sd (sn_probes e) ias (True # True # True # rs) = Some (None, sd, [], True # rs)" for skip sd ias
    by (rule connect_loop_simps(4) [OF w]) simp
  show ?thesis using assms(2,3) by (simp add: run_stream_command_def Let_def pol f c c_string_def)
qed

theorem empty_host_not_asked_witness:
  "\<exists>o'. parse_stream_args None [''--host'', [], ''--app'', ''1''] = Some o' \<and> run_stream_command ex_session o' = Some (3, [])"
proof -
  let ?o = "(stream_options_defaults None)\<lparr>so_host := Some [], so_app := Some ''1''\<rparr>"
  have "stream_args [''--host'', [], ''--app'', ''1''] (stream_options_defaults None) = Some ?o"
    by (simp add: stream_option_def stream_switch_def)
  moreover have "check_stream_options ?o = Some ?o"
    by (simp add: check_stream_options_def stream_options_defaults_def apply_default_codec_policy_def
        build_supported_video_formats_def option_consts Let_def)
  ultimately have p: "parse_stream_args None [''--host'', [], ''--app'', ''1''] = Some ?o"
    by (simp add: parse_stream_args_def Let_def)
  have "run_stream_command ex_session ?o = Some (3, [])"
    by (rule empty_host_not_asked [OF p, of _ "True # False # False # False # []"])
      (simp_all add: ex_session_def eval_nat_numeral)
  then show ?thesis using p by blast
qed

end
