(* ===== verification/WorkerStop.thy ===== *)
theory WorkerStop
  imports WorkerMain
begin

text \<open>
  A session of \<open>ml_worker\<close> ends: once the signal handler has cleared \<open>g_running\<close>, three more
  reads of it are enough for \<open>run_stream_command\<close> to return, from whatever wait it is in.
\<close>

section \<open>Stopping\<close>

text \<open>The reads of \<open>g_running\<close> when the handler clears it after \<open>k\<close> of them: nothing sets it again.\<close>

abbreviation signals :: "nat \<Rightarrow> nat \<Rightarrow> bool list" where
  "signals k m \<equiv> replicate k True @ replicate m False"

definition wait_ends :: "wait_answer list \<Rightarrow> bool" where
  "wait_ends ws \<longleftrightarrow> list_ex (\<lambda>w. w \<noteq> WaitInterrupted \<and> w \<noteq> WaitOther) ws"

definition probes_end :: "ping_probe list \<Rightarrow> bool" where
  "probes_end ps \<longleftrightarrow> list_all (\<lambda>p. case p of None \<Rightarrow> True | Some ws \<Rightarrow> wait_ends ws) ps"

definition tick_ends :: "tick \<Rightarrow> bool" where
  "tick_ends t \<longleftrightarrow> tk_recv t \<noteq> [] \<and> last (tk_recv t) = RecvfromAgain"

lemma sleep_stops:
  "\<exists>j k' m'. sleep_loop n (signals k (Suc m)) = Some (j, signals k' m') \<and> k' \<le> k \<and> (m' = Suc m \<or> k' = 0 \<and> m' = m)"
proof (induction n arbitrary: k)
  case 0
  show ?case by (intro exI [of _ 0] exI [of _ k] exI [of _ "Suc m"]) simp
next
  case (Suc n)
  show ?case
  proof (cases k)
    case 0
    then show ?thesis by (intro exI [of _ 0] exI [of _ m]) simp
  next
    case (Suc k1)
    from Suc.IH [of k1] obtain j k' m' where "sleep_loop n (signals k1 (Suc m)) = Some (j, signals k' m')" "k' \<le> k1"
      "m' = Suc m \<or> k' = 0 \<and> m' = m" by blast
    then show ?thesis using Suc by (intro exI [of _ "Suc j"] exI [of _ k'] exI [of _ m']) auto
  qed
qed

lemma wait_child_stops:
  "wait_ends ws \<Longrightarrow> \<exists>rc k' m'. wait_child ws (signals k (Suc m)) = Some (rc, signals k' m') \<and> k' \<le> k \<and>
     (m' = Suc m \<or> k' = 0 \<and> m' = m \<and> rc = - 1)"
proof (induction ws arbitrary: k)
  case (Cons w ws)
  have here: ?case if "wait_child (w # ws) (signals k (Suc m)) = Some (rc, signals k (Suc m))" for rc
    using that by (intro exI [of _ rc] exI [of _ k] exI [of _ "Suc m"]) simp
  show ?case
  proof (cases w)
    case WaitInterrupted
    then have we: "wait_ends ws" using Cons.prems by (simp add: wait_ends_def)
    show ?thesis
    proof (cases k)
      case 0
      then show ?thesis using WaitInterrupted by (intro exI [of _ "- 1"] exI [of _ 0] exI [of _ m]) simp
    next
      case (Suc k1)
      from Cons.IH [OF we, of k1] show ?thesis using WaitInterrupted Suc by (auto intro: le_SucI)
    qed
  next
    case WaitOther
    then have "wait_ends ws" using Cons.prems by (simp add: wait_ends_def)
    from Cons.IH [OF this, of k] WaitOther show ?thesis by simp
  qed (rule here, simp)+
qed (simp add: wait_ends_def)

lemma ping_stops:
  assumes "probes_end ps" and "ps \<noteq> []"
  shows "\<exists>rc ps' k' m'. ping_host_once host ps (signals k (Suc m)) = Some (rc, ps', signals k' m') \<and> k' \<le> k \<and>
    (m' = Suc m \<or> k' = 0 \<and> m' = m \<and> rc = - 1) \<and> probes_end ps' \<and> length ps \<le> Suc (length ps')"
proof -
  obtain p ps1 where ps: "ps = p # ps1" using assms(2) by (cases ps) auto
  have end1: "probes_end ps1" using assms(1) ps by (simp add: probes_end_def)
  show ?thesis
  proof (cases "host = []")
    case True
    then show ?thesis using assms
      by (intro exI [of _ "- 1"] exI [of _ ps] exI [of _ k] exI [of _ "Suc m"]) (simp add: ping_host_once_def)
  next
    case False
    show ?thesis
    proof (cases p)
      case None
      then show ?thesis using False ps end1
        by (intro exI [of _ 2] exI [of _ ps1] exI [of _ k] exI [of _ "Suc m"]) (simp add: ping_host_once_def)
    next
      case (Some ws)
      then have "wait_ends ws" using assms(1) ps by (simp add: probes_end_def)
      from wait_child_stops [OF this, of k m] obtain rc k' m' where
        "wait_child ws (signals k (Suc m)) = Some (rc, signals k' m')" "k' \<le> k" "m' = Suc m \<or> k' = 0 \<and> m' = m \<and> rc = - 1"
        by blast
      then show ?thesis using False ps Some end1
        by (intro exI [of _ rc] exI [of _ ps1] exI [of _ k'] exI [of _ m']) (simp add: ping_host_once_def)
    qed
  qed
qed

lemma wait_stops:
  "k \<le> length ps \<Longrightarrow> probes_end ps \<Longrightarrow>
   \<exists>rc ev ps' k' m'. wait_for_host_online host ps (signals k (Suc (Suc m))) = Some (rc, ev, ps', signals k' m') \<and>
     k' \<le> length ps' \<and> probes_end ps' \<and> k' \<le> k \<and> (rc = 0 \<longrightarrow> k' < k) \<and>
     (m' = Suc (Suc m) \<or> k' = 0 \<and> m \<le> m' \<and> rc \<noteq> 0)"
proof (induction k arbitrary: ps rule: less_induct)
  case (less k)
  show ?case
  proof (cases k)
    case 0
    then show ?thesis using less.prems
      by (intro exI [of _ "- 1"] exI [of _ "[]"] exI [of _ ps] exI [of _ 0] exI [of _ "Suc m"]) (simp add: wait_for_host_simps)
  next
    case (Suc k0)
    then have "ps \<noteq> []" using less.prems by auto
    from ping_stops [OF less.prems(2) this, of host k0 "Suc m"] obtain prc ps1 k1 m1 where
      ping: "ping_host_once host ps (signals k0 (Suc (Suc m))) = Some (prc, ps1, signals k1 m1)" and k1: "k1 \<le> k0"
      and m1: "m1 = Suc (Suc m) \<or> k1 = 0 \<and> m1 = Suc m \<and> prc = - 1" and ps1: "probes_end ps1" "length ps \<le> Suc (length ps1)"
      by blast
    have len: "k0 \<le> length ps1" using less.prems(1) ps1(2) Suc by simp
    consider "prc < 0" | "prc = 0 \<or> 1 < prc" | "0 < prc \<and> prc \<le> 1" by linarith
    then show ?thesis
    proof cases
      case 1
      then show ?thesis using wait_for_host_simps(4) [OF ping 1] m1 ps1 k1 len Suc
        by (intro exI [of _ "- 1"] exI [of _ "[]"] exI [of _ ps1] exI [of _ k1] exI [of _ m1]) auto
    next
      case 2
      then have "m1 = Suc (Suc m)" using m1 by auto
      then show ?thesis using wait_for_host_simps(5) [OF ping 2] ps1 k1 len Suc
        by (intro exI [of _ 0] exI [of _ "[]"] exI [of _ ps1] exI [of _ k1] exI [of _ m1]) auto
    next
      case 3
      then have m1: "m1 = Suc (Suc m)" using m1 by auto
      from sleep_stops [of HOST_OFFLINE_RETRY_SEC k1 "Suc m"] obtain j k2 m2 where
        sleep: "sleep_loop HOST_OFFLINE_RETRY_SEC (signals k1 m1) = Some (j, signals k2 m2)" and k2: "k2 \<le> k1"
        and m2: "m2 = Suc (Suc m) \<or> k2 = 0 \<and> m2 = Suc m" unfolding m1 by blast
      have "\<exists>rc ev ps' k' m'. wait_for_host_online host ps1 (signals k2 m2) = Some (rc, ev, ps', signals k' m') \<and>
          k' \<le> length ps' \<and> probes_end ps' \<and> k' \<le> k2 \<and> (m' = Suc (Suc m) \<or> k' = 0 \<and> m \<le> m' \<and> rc \<noteq> 0)"
      proof (cases "m2 = Suc (Suc m)")
        case True
        have "k2 < k" "k2 \<le> length ps1" using k1 k2 len Suc by simp_all
        from less.IH [OF this ps1(1)] show ?thesis unfolding True by blast
      next
        case False
        then have "signals k2 m2 = False # signals 0 m" "k2 = 0" using m2 by auto
        then show ?thesis using ps1
          by (intro exI [of _ "- 1"] exI [of _ "[]"] exI [of _ ps1] exI [of _ 0] exI [of _ m]) (simp add: wait_for_host_simps)
      qed
      then obtain rc ev ps' k' m' where "wait_for_host_online host ps1 (signals k2 m2) = Some (rc, ev, ps', signals k' m')"
        "k' \<le> length ps'" "probes_end ps'" "k' \<le> k2" "m' = Suc (Suc m) \<or> k' = 0 \<and> m \<le> m' \<and> rc \<noteq> 0" by blast
      then show ?thesis using wait_for_host_simps(6) [OF ping 3] sleep k1 k2 Suc
        by (intro exI [of _ rc] exI [of _ "Slept j # ev"] exI [of _ ps'] exI [of _ k'] exI [of _ m']) auto
    qed
  qed
qed

lemma connect_stops:
  "k \<le> length ps \<Longrightarrow> probes_end ps \<Longrightarrow> k \<le> length ias \<Longrightarrow>
   \<exists>x sd' ev k' m'. connect_loop host skip sd ps ias (signals k (Suc (Suc (Suc m)))) = Some (x, sd', ev, signals k' m') \<and>
     k' \<le> k \<and> (m' = Suc (Suc (Suc m)) \<or> k' = 0 \<and> 0 < m')"
proof (induction k arbitrary: sd ps ias rule: less_induct)
  case (less k)
  show ?case
  proof (cases k)
    case 0
    then show ?thesis
      by (intro exI [of _ None] exI [of _ sd] exI [of _ "[]"] exI [of _ 0] exI [of _ "Suc (Suc m)"]) (simp add: connect_loop_simps)
  next
    case (Suc k0)
    then obtain ia ias1 where ias: "ias = ia # ias1" using less.prems(3) by (cases ias) auto
    have "k0 \<le> length ps" using less.prems(1) Suc by simp
    from wait_stops [OF this less.prems(2), of host "Suc m"] obtain rc ev ps1 k1 m1 where
      w: "wait_for_host_online host ps (signals k0 (Suc (Suc (Suc m)))) = Some (rc, ev, ps1, signals k1 m1)"
      and k1: "k1 \<le> length ps1" "probes_end ps1" "k1 \<le> k0"
      and m1: "m1 = Suc (Suc (Suc m)) \<or> k1 = 0 \<and> Suc m \<le> m1 \<and> rc \<noteq> 0" by blast
    have t: "signals k n = True # signals k0 n" for n using Suc by simp
    show ?thesis
    proof (cases "rc = 0")
      case False
      then show ?thesis using connect_loop_simps(4) [OF w False] m1 k1 t Suc
        by (intro exI [of _ None] exI [of _ sd] exI [of _ ev] exI [of _ k1] exI [of _ m1]) auto
    next
      case rc: True
      note w = w [unfolded rc]
      have m1: "m1 = Suc (Suc (Suc m))" using m1 rc by simp
      consider "ia_rc ia = 0" | "ia_rc ia \<noteq> 0" "\<not> transient_answer ia" | "ia_rc ia \<noteq> 0" "transient_answer ia" by blast
      then show ?thesis
      proof cases
        case 1
        from connect_loop_simps(6) [OF w 1, of skip sd ias1] show ?thesis using m1 k1 Suc
          by (intro exI [of _ None] exI [of _ "ia_server ia"] exI [of _ "ev @ [GsInit host skip]"] exI [of _ k1] exI [of _ m1])
            (simp add: Suc ias)
      next
        case 2
        from connect_loop_simps(7) [OF w 2, of skip sd ias1] show ?thesis using m1 k1 Suc
          by (intro exI [of _ "Some 2"] exI [of _ "ia_server ia"] exI [of _ "ev @ [GsInit host skip]"] exI [of _ k1] exI [of _ m1])
            (simp add: Suc ias)
      next
        case 3
        from sleep_stops [of HOST_OFFLINE_RETRY_SEC k1 "Suc (Suc m)"] obtain j k2 m2 where
          sleep: "sleep_loop HOST_OFFLINE_RETRY_SEC (signals k1 m1) = Some (j, signals k2 m2)" and k2: "k2 \<le> k1"
          and m2: "m2 = Suc (Suc (Suc m)) \<or> k2 = 0 \<and> m2 = Suc (Suc m)" unfolding m1 by blast
        have "\<exists>x sd' ev k' m'. connect_loop host skip (ia_server ia) ps1 ias1 (signals k2 m2) = Some (x, sd', ev, signals k' m') \<and>
            k' \<le> k \<and> (m' = Suc (Suc (Suc m)) \<or> k' = 0 \<and> 0 < m')"
        proof (cases "m2 = Suc (Suc (Suc m))")
          case True
          have "k2 < k" "k2 \<le> length ps1" "k2 \<le> length ias1" using k1 k2 less.prems(3) Suc ias by simp_all
          from less.IH [OF this(1,2) k1(2) this(3)] \<open>k2 < k\<close> show ?thesis unfolding True by (meson le_trans less_imp_le)
        next
          case False
          then have "signals k2 m2 = False # signals 0 (Suc m)" using m2 by auto
          then show ?thesis
            by (intro exI [of _ None] exI [of _ "ia_server ia"] exI [of _ "[]"] exI [of _ 0] exI [of _ "Suc m"])
              (simp add: connect_loop_simps)
        qed
        then obtain x sd' ev' k' m' where "connect_loop host skip (ia_server ia) ps1 ias1 (signals k2 m2) = Some (x, sd', ev', signals k' m')"
          "k' \<le> k" "m' = Suc (Suc (Suc m)) \<or> k' = 0 \<and> 0 < m'" by blast
        then show ?thesis using connect_loop_simps(8) [OF w 3, of skip sd ias1] sleep m1
          by (intro exI [of _ x] exI [of _ sd'] exI [of _ "ev @ [GsInit host skip, Slept j] @ ev'"] exI [of _ k'] exI [of _ m'])
            (simp add: Suc ias)
      qed
    qed
  qed
qed

lemma stream_stops:
  assumes "k \<le> length ts" and "cs \<noteq> None \<longrightarrow> list_all tick_ends ts"
  shows "\<exists>code ev k' m'. stream_loop li cs w h ts cell (signals k (Suc m)) = Some (code, ev, signals k' m') \<and>
    (m' = Suc m \<or> code = 0)"
  using assms
proof (induction k arbitrary: ts cell)
  case 0
  show ?case by (intro exI [of _ 0] exI [of _ "[]"] exI [of _ 0] exI [of _ m]) simp
next
  case (Suc k)
  then obtain t ts' where ts: "ts = t # ts'" by (cases ts) auto
  let ?proc = "case cs of None \<Rightarrow> Some []
    | Some s \<Rightarrow> map_option (\<lambda>(n, calls, _). [ControlCalls calls]) (control_socket_process_all li (tk_recv t) s w h)"
  have "control_socket_process_all li (tk_recv t) s w h \<noteq> None" if "cs = Some s" for s
    using Suc.prems(2) that control_socket_loop_returns [of "tk_recv t" li w h 0 "[]"]
    by (simp add: ts tick_ends_def control_socket_process_all_def)
  then have "?proc \<noteq> None" by (cases cs) simp_all
  then obtain ev0 where ev0: "?proc = Some ev0" by blast
  let ?cell = "raise_codes (tk_codes t) cell"
  show ?case
  proof (cases "?cell = WORKER_FATAL_NONE")
    case False
    then show ?thesis using ev0
      by (intro exI [of _ "100 + ?cell"] exI [of _ ev0] exI [of _ k] exI [of _ "Suc m"]) (simp add: ts)
  next
    case True
    from Suc.IH [of ts' ?cell] Suc.prems ts obtain code ev k' m' where
      "stream_loop li cs w h ts' ?cell (signals k (Suc m)) = Some (code, ev, signals k' m')" "m' = Suc m \<or> code = 0" by auto
    then show ?thesis using ev0 True
      by (intro exI [of _ code] exI [of _ "ev0 @ ev"] exI [of _ k'] exI [of _ m']) (simp add: ts Let_def)
  qed
qed

lemma run_streaming_stops:
  assumes "j \<le> length (sn_ticks e)" and "list_all tick_ends (sn_ticks e)"
  shows "run_streaming e o' cs cell (signals j (Suc n)) \<noteq> None"
proof -
  have "cs \<noteq> None \<longrightarrow> list_all tick_ends (sn_ticks e)" using assms(2) by simp
  from stream_stops [OF assms(1) this, of "sn_li e" "so_width o'" "so_height o'" cell n] obtain code ev k2 m2 where
    l: "stream_loop (sn_li e) cs (so_width o') (so_height o') (sn_ticks e) cell (signals j (Suc n)) =
      Some (code, ev, signals k2 m2)" and m2: "m2 = Suc n \<or> code = 0" by blast
  show ?thesis
  proof (cases "code = 100 + WORKER_FATAL_NEGOTIATION_MISMATCH")
    case True
    then have "m2 = Suc n" using m2 by (simp add: worker_fatal_defs)
    then show ?thesis using l True sleep_stops [of NEGOTIATION_MISMATCH_RETRY_DELAY_SEC k2 n]
      by (auto simp: run_streaming_def Let_def delay_before_fatal_exit_if_needed_def)
  next
    case False
    then show ?thesis using l by (simp add: run_streaming_def Let_def)
  qed
qed

lemma run_connection_stops:
  assumes "j \<le> length (sn_ticks e)" and "list_all tick_ends (sn_ticks e)"
  shows "run_connection e o' formats (signals j (Suc n)) \<noteq> None"
proof -
  have "delay_before_fatal_exit_if_needed cell (signals j (Suc n)) \<noteq> None" for cell
    using sleep_stops [of NEGOTIATION_MISMATCH_RETRY_DELAY_SEC j n]
    by (auto simp: delay_before_fatal_exit_if_needed_def)
  then show ?thesis using run_streaming_stops [OF assms] by (auto simp: run_connection_def Let_def split: prod.splits)
qed

text \<open>C11: a session ends once the signal handler has cleared the flag: if its first \<open>k\<close> reads see it set and
  the later ones cleared, three later reads are enough for the command to return, whatever the
  answers are, provided every probe ends and every receive runs dry. In particular a host that
  stays offline cannot keep it.\<close>

theorem session_stops:
  assumes "sn_running e = replicate k True @ replicate m False" and "3 \<le> m"
    and "k \<le> length (sn_probes e)" and "probes_end (sn_probes e)" and "k \<le> length (sn_inits e)"
    and "k \<le> length (sn_ticks e)" and "list_all tick_ends (sn_ticks e)"
  shows "\<exists>rc tr. run_stream_command e o' = Some (rc, tr)"
proof (cases "build_supported_video_formats (apply_default_codec_policy o')")
  case None
  then show ?thesis by (simp add: run_stream_command_def Let_def)
next
  case (Some formats)
  let ?o = "apply_default_codec_policy o'"
  let ?host = "c_string (so_host ?o)" and ?skip = "so_skip_mode_check ?o"
  obtain m0 where m: "m = Suc (Suc (Suc m0))" using assms(2) by (metis Suc_le_D numeral_3_eq_3 Suc_le_mono)
  from connect_stops [OF assms(3-5), of ?host ?skip "\<lparr>sd_paired = False\<rparr>" m0] obtain x sd ev k' m' where
    c: "connect_loop ?host ?skip \<lparr>sd_paired = False\<rparr> (sn_probes e) (sn_inits e) (sn_running e) = Some (x, sd, ev, signals k' m')"
    and k': "k' \<le> k" "m' = Suc (Suc (Suc m0)) \<or> k' = 0 \<and> 0 < m'"
    unfolding assms(1) m by blast
  show ?thesis
  proof (cases k')
    case 0
    then obtain n where "m' = Suc n" using k' by (cases m') auto
    then show ?thesis using 0 c by (cases x) (simp_all add: run_stream_command_def Let_def Some)
  next
    case (Suc j)
    then obtain rc tr where "run_connection e ?o formats (signals j m') = Some (rc, tr)"
      using run_connection_stops [of j e _ _ "Suc (Suc m0)"] assms(6,7) k' by fastforce
    then show ?thesis using Suc c by (cases x) (auto simp: run_stream_command_def Let_def Some split: if_splits)
  qed
qed

theorem session_stops_witness: "\<exists>rc tr. run_stream_command ex_session ex_options = Some (rc, tr)"
  by (rule session_stops [where k = 4 and m = 3])
    (simp_all add: ex_session_def probes_end_def wait_ends_def tick_ends_def list_all_iff)

end
