(* ===== verification/Nal.thy ===== *)
theory Nal
  imports Prelude
begin

text \<open>
  Annex B byte streams: the start code tests and NAL type scans that
  \<open>stream_server/src/h264_tap.c\<close>, its copy in \<open>strem_agent_server/src/h264_tap.c\<close>,
  \<open>stream_server/src/decoder.c\<close> and \<open>stream_server/src/compressed_recorder.c\<close> use. A payload
  pointer and its size are one list of bytes.
\<close>

section \<open>Taps: start code test and scan\<close>

definition has_start_code :: "u8 list \<Rightarrow> bool" where
  "has_start_code p \<longleftrightarrow>
     (length p \<ge> 4 \<and> p ! 0 = 0 \<and> p ! 1 = 0 \<and> p ! 2 = 0 \<and> p ! 3 = 1) \<or>
     (length p \<ge> 3 \<and> p ! 0 = 0 \<and> p ! 1 = 0 \<and> p ! 2 = 1)"

definition nal_type_of :: "u8 \<Rightarrow> nat" where
  "nal_type_of b = unat (b AND 0x1F)"

text \<open>The loop of \<open>annexb_contains_nal_type\<close> from index \<open>i\<close>.\<close>

function annexb_scan :: "u8 list \<Rightarrow> nat \<Rightarrow> nat \<Rightarrow> bool" where
  "annexb_scan p nal_type i =
     (if i + 4 < length p then
        let sc = (if p ! i = 0 \<and> p ! (i + 1) = 0 \<and> p ! (i + 2) = 1 then 3
                  else if p ! i = 0 \<and> p ! (i + 1) = 0 \<and> p ! (i + 2) = 0 \<and> p ! (i + 3) = 1 then 4
                  else 0)
        in if sc \<noteq> 0 then
             (if i + sc < length p \<and> nal_type_of (p ! (i + sc)) = nal_type then True
              else annexb_scan p nal_type (i + sc + 1))
           else annexb_scan p nal_type (i + 1)
      else False)"
  by pat_completeness auto
termination
  by (relation "measure (\<lambda>(p, t, i). length p - i)") auto

declare annexb_scan.simps [simp del]

definition annexb_contains_nal_type :: "u8 list \<Rightarrow> nat \<Rightarrow> bool" where
  "annexb_contains_nal_type p nal_type =
     (if length p < 5 then False else annexb_scan p nal_type 0)"

text \<open>The type of the first NAL of a payload that opens with a start code, else -1.\<close>

definition first_nal_type :: "u8 list \<Rightarrow> int" where
  "first_nal_type data =
     (if length data \<ge> 5 \<and> data ! 0 = 0 \<and> data ! 1 = 0 \<and> data ! 2 = 0 \<and> data ! 3 = 1
      then int (nal_type_of (data ! 4))
      else if length data \<ge> 4 \<and> data ! 0 = 0 \<and> data ! 1 = 0 \<and> data ! 2 = 1
      then int (nal_type_of (data ! 3))
      else - 1)"

section \<open>Recorder: start code search\<close>

definition start_code_len_at :: "u8 list \<Rightarrow> nat \<Rightarrow> nat" where
  "start_code_len_at data pos =
     (if pos + 3 \<le> length data \<and> data ! pos = 0 \<and> data ! (pos + 1) = 0 \<and> data ! (pos + 2) = 1 then 3
      else if pos + 4 \<le> length data \<and> data ! pos = 0 \<and> data ! (pos + 1) = 0 \<and>
              data ! (pos + 2) = 0 \<and> data ! (pos + 3) = 1 then 4
      else 0)"

text \<open>The position and the length of the next start code; None is \<open>SIZE_MAX\<close>.\<close>

function find_start_code :: "u8 list \<Rightarrow> nat \<Rightarrow> (nat \<times> nat) option" where
  "find_start_code data i =
     (if i + 3 \<le> length data then
        let n = start_code_len_at data i in
        if n > 0 then Some (i, n) else find_start_code data (i + 1)
      else None)"
  by pat_completeness auto
termination
  by (relation "measure (\<lambda>(d, i). length d - i)") auto

declare find_start_code.simps [simp del]

definition payload_has_start_code :: "u8 list \<Rightarrow> bool" where
  "payload_has_start_code data \<longleftrightarrow> find_start_code data 0 \<noteq> None"

section \<open>Specification\<close>

text \<open>\<open>sc3 p i\<close>: the three bytes of a start code are at \<open>i\<close>; its NAL header is at \<open>i + 3\<close>.\<close>

definition sc3 :: "u8 list \<Rightarrow> nat \<Rightarrow> bool" where
  "sc3 p i \<longleftrightarrow> i + 3 \<le> length p \<and> p ! i = 0 \<and> p ! (i + 1) = 0 \<and> p ! (i + 2) = 1"

text \<open>
  Headers of H.264 units are never zero: the types in use are at least 1. Without that a
  header byte could itself open the next start code.
\<close>

definition clean_annexb :: "u8 list \<Rightarrow> bool" where
  "clean_annexb p \<longleftrightarrow> (\<forall>i < length p. sc3 p i \<longrightarrow> i + 3 < length p \<longrightarrow> p ! (i + 3) \<noteq> 0)"

text \<open>
  What the scan sees: a header after a start code, except a header that is the last byte of
  the payload behind a start code of only three bytes.
\<close>

definition visible_nal :: "u8 list \<Rightarrow> nat \<Rightarrow> nat \<Rightarrow> bool" where
  "visible_nal p t i \<longleftrightarrow> sc3 p i \<and> i + 3 < length p \<and> nal_type_of (p ! (i + 3)) = t \<and>
     (i + 4 < length p \<or> 0 < i \<and> p ! (i - 1) = 0)"

lemma annexb_scan_sound:
  "annexb_scan p t i \<Longrightarrow> \<exists>j \<ge> i. visible_nal p t j"
proof (induction p t i rule: annexb_scan.induct)
  case (1 p t i)
  have lt: "i + 4 < length p" using "1.prems" by (subst (asm) annexb_scan.simps) (auto split: if_splits)
  consider (a) "p ! i = 0 \<and> p ! (i + 1) = 0 \<and> p ! (i + 2) = 1"
    | (b) "\<not> (p ! i = 0 \<and> p ! (i + 1) = 0 \<and> p ! (i + 2) = 1)"
      "p ! i = 0 \<and> p ! (i + 1) = 0 \<and> p ! (i + 2) = 0 \<and> p ! (i + 3) = 1"
    | (c) "\<not> (p ! i = 0 \<and> p ! (i + 1) = 0 \<and> p ! (i + 2) = 1)"
      "\<not> (p ! i = 0 \<and> p ! (i + 1) = 0 \<and> p ! (i + 2) = 0 \<and> p ! (i + 3) = 1)"
    by blast
  then show ?case
  proof cases
    case a
    show ?thesis
    proof (cases "nal_type_of (p ! (i + 3)) = t")
      case True
      then have "visible_nal p t i" using a lt by (simp add: visible_nal_def sc3_def)
      then show ?thesis by blast
    next
      case False
      then have "annexb_scan p t (i + 3 + 1)"
        using "1.prems" a lt by (subst (asm) annexb_scan.simps) simp
      with 1(1) [OF lt refl] a False obtain j where "i + 3 + 1 \<le> j" "visible_nal p t j" by auto
      then show ?thesis by (intro exI [of _ j]) simp
    qed
  next
    case b
    show ?thesis
    proof (cases "nal_type_of (p ! (i + 4)) = t")
      case True
      then have "visible_nal p t (i + 1)"
        using b lt by (simp add: visible_nal_def sc3_def add.commute numeral_eq_Suc)
      then show ?thesis by (intro exI [of _ "i + 1"]) simp
    next
      case False
      then have "annexb_scan p t (i + 4 + 1)"
        using "1.prems" b lt by (subst (asm) annexb_scan.simps) simp
      with 1(1) [OF lt refl] b False obtain j where "i + 4 + 1 \<le> j" "visible_nal p t j" by auto
      then show ?thesis by (intro exI [of _ j]) simp
    qed
  next
    case c
    then have "annexb_scan p t (i + 1)"
      using "1.prems" lt by (subst (asm) annexb_scan.simps) (simp split: if_splits)
    with 1(2) [OF lt refl] c obtain j where "i + 1 \<le> j" "visible_nal p t j" by auto
    then show ?thesis by (intro exI [of _ j]) simp
  qed
qed

text \<open>Positions a start code at \<open>i\<close> excludes for another one.\<close>

lemma sc3_apart:
  assumes "sc3 p i" "sc3 p j" "i < j" "p ! (i + 3) \<noteq> 0"
  shows "i + 4 \<le> j"
proof -
  have "j \<noteq> i + 1" "j \<noteq> i + 2" "j \<noteq> i + 3" using assms by (auto simp: sc3_def)
  then show ?thesis using assms(3) by linarith
qed

lemma clean_annexbD: "clean_annexb p \<Longrightarrow> sc3 p i \<Longrightarrow> i + 3 < length p \<Longrightarrow> p ! (i + 3) \<noteq> 0"
  by (simp add: clean_annexb_def)

lemma annexb_scan_complete:
  assumes "clean_annexb p" "sc3 p j" "j + 3 < length p" "nal_type_of (p ! (j + 3)) = t"
  shows "i \<le> j \<Longrightarrow> j + 4 < length p \<or> i < j \<and> p ! (j - 1) = 0 \<Longrightarrow> annexb_scan p t i"
  using assms
proof (induction p t i rule: annexb_scan.induct)
  case (1 p t i)
  have lt: "i + 4 < length p" using "1.prems" by linarith
  note j = "1.prems"(3-6)
  consider (a) "p ! i = 0 \<and> p ! (i + 1) = 0 \<and> p ! (i + 2) = 1"
    | (b) "\<not> (p ! i = 0 \<and> p ! (i + 1) = 0 \<and> p ! (i + 2) = 1)"
      "p ! i = 0 \<and> p ! (i + 1) = 0 \<and> p ! (i + 2) = 0 \<and> p ! (i + 3) = 1"
    | (c) "\<not> (p ! i = 0 \<and> p ! (i + 1) = 0 \<and> p ! (i + 2) = 1)"
      "\<not> (p ! i = 0 \<and> p ! (i + 1) = 0 \<and> p ! (i + 2) = 0 \<and> p ! (i + 3) = 1)"
    by blast
  then show ?case
  proof cases
    case a
    then have si: "sc3 p i" using lt by (simp add: sc3_def)
    have nz: "p ! (i + 3) \<noteq> 0" using clean_annexbD [OF j(1) si] lt by simp
    show ?thesis
    proof (cases "nal_type_of (p ! (i + 3)) = t")
      case True
      then show ?thesis using a lt by (subst annexb_scan.simps) simp
    next
      case False
      then have "i \<noteq> j" using j by auto
      then have ge: "i + 4 \<le> j" using sc3_apart [OF si j(2) _ nz] "1.prems"(1) by simp
      have "j + 4 < length p \<or> i + 3 + 1 < j \<and> p ! (j - 1) = 0"
      proof (cases "j = i + 4")
        case True
        then have "p ! (j - 1) \<noteq> 0" using nz by (simp add: add.commute)
        then show ?thesis using "1.prems"(2) by simp
      qed (use "1.prems"(2) ge in auto)
      then have "annexb_scan p t (i + 3 + 1)"
        using 1(1) [OF lt refl] a False ge j by simp
      then show ?thesis using a lt by (subst annexb_scan.simps) simp
    qed
  next
    case b
    then have si: "sc3 p (i + 1)" using lt by (simp add: sc3_def numeral_eq_Suc)
    have nz: "p ! (i + 4) \<noteq> 0" using clean_annexbD [OF j(1) si] lt by (simp add: numeral_eq_Suc)
    show ?thesis
    proof (cases "nal_type_of (p ! (i + 4)) = t")
      case True
      then show ?thesis using b lt by (subst annexb_scan.simps) simp
    next
      case False
      have "i \<noteq> j" using b j(2) by (auto simp: sc3_def)
      moreover have "i + 1 \<noteq> j" using False j by (auto simp: numeral_eq_Suc)
      ultimately have "i + 1 < j" using "1.prems"(1) by simp
      then have ge: "i + 5 \<le> j" using sc3_apart [OF si j(2)] nz by (simp add: numeral_eq_Suc)
      have "j + 4 < length p \<or> i + 4 + 1 < j \<and> p ! (j - 1) = 0"
      proof (cases "j = i + 5")
        case True
        then have "p ! (j - 1) \<noteq> 0" using nz by (simp add: add.commute)
        then show ?thesis using "1.prems"(2) by simp
      qed (use "1.prems"(2) ge in auto)
      then have "annexb_scan p t (i + 4 + 1)"
        using 1(1) [OF lt refl] b False ge j by simp
      then show ?thesis using b lt by (subst annexb_scan.simps) simp
    qed
  next
    case c
    have "i \<noteq> j" using c(1) j(2) by (auto simp: sc3_def)
    then have ge: "i + 1 \<le> j" using "1.prems"(1) by simp
    have "j + 4 < length p \<or> i + 1 < j \<and> p ! (j - 1) = 0"
    proof (cases "j = i + 1")
      case True
      then have "p ! (j - 1) \<noteq> 0" using c(2) j(2) by (auto simp: sc3_def numeral_eq_Suc)
      then show ?thesis using "1.prems"(2) by simp
    qed (use "1.prems"(2) ge in auto)
    then have "annexb_scan p t (i + 1)"
      using 1(2) [OF lt refl] c ge j by simp
    then show ?thesis using c lt by (subst annexb_scan.simps) (auto simp: Let_def)
  qed
qed

text \<open>
  Every payload whose first bytes are a start code is recognised by the recorder's search,
  which looks at every position.
\<close>

lemma find_start_code_Some:
  "find_start_code data i = Some (j, n) \<Longrightarrow> i \<le> j \<and> j + n \<le> length data \<and> n = start_code_len_at data j \<and> n > 0"
proof (induction data i rule: find_start_code.induct)
  case (1 data i)
  then show ?case
    by (subst (asm) (2) find_start_code.simps)
      (auto simp: Let_def start_code_len_at_def split: if_splits)
qed

lemma find_start_code_None_iff:
  "find_start_code data i = None \<longleftrightarrow> (\<forall>j. i \<le> j \<longrightarrow> j + 3 \<le> length data \<longrightarrow> start_code_len_at data j = 0)"
proof (induction data i rule: find_start_code.induct)
  case (1 data i)
  show ?case
  proof (cases "i + 3 \<le> length data \<and> start_code_len_at data i = 0")
    case True
    have "(\<forall>j. i \<le> j \<longrightarrow> j + 3 \<le> length data \<longrightarrow> start_code_len_at data j = 0) \<longleftrightarrow>
        (\<forall>j. i + 1 \<le> j \<longrightarrow> j + 3 \<le> length data \<longrightarrow> start_code_len_at data j = 0)"
      using True by (metis Suc_eq_plus1 Suc_leD le_antisym not_less_eq_eq)
    then show ?thesis using 1 True by (subst find_start_code.simps) simp
  next
    case False
    then show ?thesis by (subst find_start_code.simps) (auto simp: Let_def)
  qed
qed

lemma find_start_code_first:
  "find_start_code data i = Some (j, n) \<Longrightarrow> i \<le> k \<Longrightarrow> k < j \<Longrightarrow> start_code_len_at data k = 0"
proof (induction data i rule: find_start_code.induct)
  case (1 data i)
  show ?case
  proof (cases "i + 3 \<le> length data \<and> start_code_len_at data i = 0")
    case True
    then have "find_start_code data (i + 1) = Some (j, n)"
      using "1.prems"(1) by (subst (asm) find_start_code.simps) simp
    then show ?thesis using 1 True by (cases "k = i") auto
  next
    case False
    then show ?thesis using "1.prems" by (subst (asm) find_start_code.simps) (auto simp: Let_def split: if_splits)
  qed
qed

lemma has_start_code_sc3: "has_start_code p \<longleftrightarrow> sc3 p 0 \<or> p \<noteq> [] \<and> p ! 0 = 0 \<and> sc3 p 1"
  by (cases p) (auto simp: has_start_code_def sc3_def numeral_eq_Suc)

lemma has_start_code_prefix: "has_start_code ([0, 0, 0, 1] @ data)"
  by (simp add: has_start_code_def)

lemma first_nal_type_no_start_code: "\<not> has_start_code p \<Longrightarrow> first_nal_type p = - 1"
  by (auto simp: has_start_code_def first_nal_type_def)

lemma nal_type_of_less: "nal_type_of b < 32"
proof -
  have "nal_type_of b = take_bit 5 (unat b)"
    by (simp add: nal_type_of_def unsigned_and_eq take_bit_eq_mask mask_eq_exp_minus_1)
  also have "\<dots> < 2 ^ 5" by (rule take_bit_nat_less_exp)
  finally show ?thesis by simp
qed

section \<open>The detector interface\<close>

text \<open>
  What a client of a NAL detector relies on: it answers yes only for a unit that is there,
  and for a well-formed payload it misses none of the units its specification calls visible.
\<close>

locale nal_detector =
  fixes detect :: "u8 list \<Rightarrow> nat \<Rightarrow> bool"
    and unit_at :: "u8 list \<Rightarrow> nat \<Rightarrow> nat \<Rightarrow> bool"
    and wf :: "u8 list \<Rightarrow> bool"
  assumes detect_sound: "detect p t \<Longrightarrow> \<exists>i. unit_at p t i"
    and detect_complete: "wf p \<Longrightarrow> unit_at p t i \<Longrightarrow> detect p t"
begin

lemma detect_iff: "wf p \<Longrightarrow> detect p t \<longleftrightarrow> (\<exists>i. unit_at p t i)"
  using detect_sound detect_complete by blast

lemma detect_none: "\<nexists>i. unit_at p t i \<Longrightarrow> \<not> detect p t"
  using detect_sound by blast

end

interpretation tap_nal: nal_detector annexb_contains_nal_type visible_nal clean_annexb
proof unfold_locales
  show "\<exists>i. visible_nal p t i" if "annexb_contains_nal_type p t" for p t
    using that annexb_scan_sound [of p t 0] by (auto simp: annexb_contains_nal_type_def split: if_splits)
  show "annexb_contains_nal_type p t" if "clean_annexb p" "visible_nal p t i" for p t i
  proof -
    have "annexb_scan p t 0"
      using that by (intro annexb_scan_complete [of p i]) (auto simp: visible_nal_def)
    moreover have "\<not> length p < 5"
      using that(2) by (auto simp: visible_nal_def)
    ultimately show ?thesis by (simp add: annexb_contains_nal_type_def)
  qed
qed

lemma clean_annexb_upt:
  "clean_annexb p \<longleftrightarrow> list_all (\<lambda>i. sc3 p i \<longrightarrow> i + 3 < length p \<longrightarrow> p ! (i + 3) \<noteq> 0) [0..<length p]"
  by (auto simp: clean_annexb_def list_all_iff)

lemma visible_nal_iff:
  "visible_nal p t i \<longleftrightarrow> p ! i = 0 \<and> p ! (i + 1) = 0 \<and> p ! (i + 2) = 1 \<and> i + 3 < length p \<and>
     nal_type_of (p ! (i + 3)) = t \<and> (i + 4 < length p \<or> 0 < i \<and> p ! (i - 1) = 0)"
  by (auto simp: visible_nal_def sc3_def)

text \<open>the IDR test of the taps is exact on payloads whose NAL headers are not zero: it
  holds iff some start code is followed by a header of the type, the one exception being a
  header that is the last byte behind a three-byte start code.\<close>

theorem contains_nal_iff:
  assumes "clean_annexb p"
  shows "annexb_contains_nal_type p t \<longleftrightarrow>
    (\<exists>i. p ! i = 0 \<and> p ! (i + 1) = 0 \<and> p ! (i + 2) = 1 \<and> i + 3 < length p \<and>
         nal_type_of (p ! (i + 3)) = t \<and> (i + 4 < length p \<or> 0 < i \<and> p ! (i - 1) = 0))"
  using tap_nal.detect_iff [OF assms, of t] unfolding visible_nal_iff .

theorem contains_nal_iff_witness:
  "annexb_contains_nal_type [0, 0, 0, 1, 0x67, 1, 0, 0, 1, 0x65, 9] 5"
proof -
  let ?p = "[0, 0, 0, 1, 0x67, 1, 0, 0, 1, 0x65, 9] :: u8 list"
  have clean: "clean_annexb ?p"
    by (simp add: clean_annexb_upt sc3_def upt_rec)
  show ?thesis
    by (subst contains_nal_iff [OF clean], rule exI [of _ 6]) (simp add: nal_type_of_def)
qed

end
