(* ===== verification/TapClients.thy ===== *)
theory TapClients
  imports TcpSender Nal CText "HOL-Library.Multiset"
begin

text \<open>
  The subscriber slots of the H.264 taps. \<open>strem_agent_server/src/h264_tap.c\<close> started as a
  copy of \<open>stream_server/src/h264_tap.c\<close>; the functions that are the same in both act on any
  extension of the record \<open>TapClient\<close> and stand here, the two taps are in \<open>Tap\<close> and
  \<open>AgentTap\<close>.

  \<open>out_buf[0 .. out_len)\<close> is the list \<open>tc_out\<close>, so \<open>out_len\<close> is its length; a slot has a
  buffer iff \<open>tc_out_cap\<close> is positive. The parameter sets are None when the pointer is NULL.
  The tap's sockets are the record \<open>tap_net\<close>: the kernel's answers to \<open>send\<close> in call order,
  the chunks it accepted tagged with their descriptor, and the descriptors closed.
\<close>

record TapClient =
  tc_fd :: int
  tc_stream_id :: u16
  tc_active :: bool
  tc_out :: "u8 list"
  tc_out_cap :: nat
  tc_out_off :: nat
  tc_out_start_ns :: u64
  tc_need_idr :: bool
  tc_sps :: "u8 list option"
  tc_pps :: "u8 list option"

record tap_net =
  tn_answers :: "send_answer list"
  tn_sent :: "(int \<times> u8 list) list"
  tn_closed :: "int list"

text \<open>The bytes a descriptor was sent.\<close>

definition sent_to :: "int \<Rightarrow> tap_net \<Rightarrow> u8 list" where
  "sent_to fd w = concat (map snd (filter (\<lambda>(f, _). f = fd) (tn_sent w)))"

definition tap_close :: "int \<Rightarrow> tap_net \<Rightarrow> tap_net" where
  "tap_close fd w = (if fd \<ge> 0 then w\<lparr>tn_closed := tn_closed w @ [fd]\<rparr> else w)"

definition reset_client :: "'a TapClient_scheme \<Rightarrow> 'a TapClient_scheme" where
  "reset_client c = c\<lparr>tc_fd := - 1, tc_active := False, tc_stream_id := 0, tc_out := [],
     tc_out_cap := 0, tc_out_off := 0, tc_out_start_ns := 0, tc_need_idr := False,
     tc_sps := None, tc_pps := None\<rparr>"

definition client_close :: "'a TapClient_scheme \<Rightarrow> tap_net \<Rightarrow> 'a TapClient_scheme \<times> tap_net" where
  "client_close c w = (reset_client c, tap_close (tc_fd c) w)"

definition pending :: "'a TapClient_scheme \<Rightarrow> u8 list" where
  "pending c = drop (tc_out_off c) (tc_out c)"

section \<open>Peeking at idle clients\<close>

datatype peek = PeekData | PeekEOF | PeekEINTR | PeekEAGAIN | PeekFail

definition peek_dead :: "peek \<Rightarrow> bool" where
  "peek_dead p = (case p of PeekData \<Rightarrow> False | PeekEOF \<Rightarrow> True | PeekEINTR \<Rightarrow> False
     | PeekEAGAIN \<Rightarrow> False | PeekFail \<Rightarrow> True)"

text \<open>
  The loop over the slots from number \<open>i\<close>; \<open>cl\<close> is the tap's \<open>client_close\<close> and \<open>peek j\<close>
  what \<open>recv(MSG_PEEK)\<close> answers on slot \<open>j\<close>.
\<close>

fun prune_slots ::
  "('a TapClient_scheme \<Rightarrow> tap_net \<Rightarrow> 'a TapClient_scheme \<times> tap_net) \<Rightarrow> (nat \<Rightarrow> peek) \<Rightarrow> nat \<Rightarrow>
   'a TapClient_scheme list \<Rightarrow> tap_net \<Rightarrow> 'a TapClient_scheme list \<times> tap_net"
where
  "prune_slots cl peek i [] w = ([], w)"
| "prune_slots cl peek i (c # cs) w =
     (let (c', w1) = (if \<not> tc_active c \<or> tc_fd c < 0 then (c, w)
                      else if peek_dead (peek i) then cl c w else (c, w));
          (cs', w2) = prune_slots cl peek (i + 1) cs w1
      in (c' # cs', w2))"

section \<open>Placing a subscriber\<close>

text \<open>The first slot that is not active, filled by \<open>fill\<close>; None when all are taken.\<close>

fun place_slot ::
  "('a TapClient_scheme \<Rightarrow> 'a TapClient_scheme) \<Rightarrow> 'a TapClient_scheme list \<Rightarrow> 'a TapClient_scheme list option"
where
  "place_slot fill [] = None"
| "place_slot fill (c # cs) =
     (if \<not> tc_active c then Some (fill c # cs)
      else map_option (\<lambda>cs'. c # cs') (place_slot fill cs))"

section \<open>Parameter sets and the send buffer\<close>

definition maybe_cache_param_sets ::
  "bool \<Rightarrow> u8 list \<Rightarrow> 'a TapClient_scheme \<Rightarrow> 'a TapClient_scheme" where
  "maybe_cache_param_sets alloc_ok data c =
     (if length data = 0 then c
      else if \<not> has_start_code data then c
      else if first_nal_type data \<noteq> 7 \<and> first_nal_type data \<noteq> 8 then c
      else if \<not> alloc_ok then c
      else if first_nal_type data = 7 then c\<lparr>tc_sps := Some data\<rparr>
      else c\<lparr>tc_pps := Some data\<rparr>)"

definition ensure_out_buf :: "bool \<Rightarrow> nat \<Rightarrow> 'a TapClient_scheme \<Rightarrow> 'a TapClient_scheme" where
  "ensure_out_buf alloc_ok need c =
     (if need \<le> tc_out_cap c then c
      else
        let cap = double_until (if tc_out_cap c \<noteq> 0 then tc_out_cap c else 256 * 1024) need
        in if \<not> alloc_ok then c else c\<lparr>tc_out_cap := cap\<rparr>)"

section \<open>Flushing\<close>

datatype flush_end = Flushed | Blocked | Broken

text \<open>
  The send loop on a non-blocking socket from offset \<open>off\<close>. \<open>SendN n\<close> is the count \<open>send\<close>
  returns, at most what it was offered. The result has the new offset and the bytes sent.
\<close>

fun flush_loop ::
  "send_answer list \<Rightarrow> u8 list \<Rightarrow> nat \<Rightarrow> u8 list \<Rightarrow> (flush_end \<times> nat \<times> u8 list \<times> send_answer list) option"
where
  "flush_loop [] data off out = (if off < length data then None else Some (Flushed, off, out, []))"
| "flush_loop (a # as) data off out =
     (if off < length data then
        (case a of
           SendN n \<Rightarrow>
             let k = min n (length data - off) in
             if k > 0 then flush_loop as data (off + k) (out @ take k (drop off data))
             else Some (Broken, off, out, as)
         | SendEINTR \<Rightarrow> flush_loop as data off out
         | SendEAGAIN \<Rightarrow> Some (Blocked, off, out, as)
         | SendFail \<Rightarrow> Some (Broken, off, out, as))
      else Some (Flushed, off, out, a # as))"

text \<open>\<open>fin\<close> is what a tap does once the buffer has been sent.\<close>

definition flush_with ::
  "('a TapClient_scheme \<Rightarrow> tap_net \<Rightarrow> 'a TapClient_scheme \<times> tap_net) \<Rightarrow>
   ('a TapClient_scheme \<Rightarrow> 'a TapClient_scheme) \<Rightarrow>
   'a TapClient_scheme \<Rightarrow> tap_net \<Rightarrow> (bool \<times> 'a TapClient_scheme \<times> tap_net) option" where
  "flush_with cl fin c w =
     (if \<not> tc_active c then Some (True, c, w)
      else case flush_loop (tn_answers w) (tc_out c) (tc_out_off c) [] of
        None \<Rightarrow> None
      | Some (r, off, bytes, rest) \<Rightarrow>
          let w1 = w\<lparr>tn_answers := rest, tn_sent := tn_sent w @ [(tc_fd c, bytes)]\<rparr> in
          (case r of
             Flushed \<Rightarrow> Some (True, fin (c\<lparr>tc_out := [], tc_out_off := 0, tc_out_start_ns := 0\<rparr>), w1)
           | Blocked \<Rightarrow> Some (False, c\<lparr>tc_out_off := off\<rparr>, w1)
           | Broken \<Rightarrow> (case cl (c\<lparr>tc_out_off := off\<rparr>) w1 of (c', w2) \<Rightarrow> Some (True, c', w2))))"

section \<open>Assembling one access unit\<close>

text \<open>A send that has been stuck for longer than the threshold drops what is left of it.\<close>

definition drop_stalled :: "int \<Rightarrow> bool \<Rightarrow> u64 \<Rightarrow> 'a TapClient_scheme \<Rightarrow> 'a TapClient_scheme" where
  "drop_stalled stall_ms drop_to_idr now c =
     (if length (tc_out c) > tc_out_off c \<and> tc_out_start_ns c \<noteq> 0 then
        let stall_ns = now - tc_out_start_ns c in
        if stall_ns > word_of_int stall_ms * 1000 * 1000 then
          (let c' = c\<lparr>tc_out := [], tc_out_off := 0, tc_out_start_ns := 0\<rparr>
           in if drop_to_idr then c'\<lparr>tc_need_idr := True\<rparr> else c')
        else c
      else c)"

definition opt_bytes :: "u8 list option \<Rightarrow> u8 list" where
  "opt_bytes p = (case p of None \<Rightarrow> [] | Some d \<Rightarrow> d)"

definition unit_size :: "u8 list \<Rightarrow> 'a TapClient_scheme \<Rightarrow> nat" where
  "unit_size data c =
     (if tc_need_idr c then length (opt_bytes (tc_sps c)) + length (opt_bytes (tc_pps c)) else 0) +
     (if \<not> has_start_code data then 4 else 0) + length data"

definition unit_bytes :: "u8 list \<Rightarrow> 'a TapClient_scheme \<Rightarrow> u8 list" where
  "unit_bytes data c =
     (if tc_need_idr c then opt_bytes (tc_sps c) @ opt_bytes (tc_pps c) else []) @
     (if \<not> has_start_code data then [0, 0, 0, 1] else []) @ data"

lemma length_unit_bytes: "length (unit_bytes data c) = unit_size data c"
  by (simp add: unit_bytes_def unit_size_def)

section \<open>The subscription line\<close>

text \<open>\<open>sscanf(s, "SUB %d", &sid) == 1 || sscanf(s, "%d", &sid) == 1\<close>, clamped to \<open>[1, hi]\<close>.\<close>

definition scan_sub :: "string \<Rightarrow> int option" where
  "scan_sub s = (case Option.bind (scan_lit ''SUB'' s) scan_d of
     Some (v, _) \<Rightarrow> Some v
   | None \<Rightarrow> map_option fst (scan_d s))"

definition clamp_sid :: "int \<Rightarrow> int \<Rightarrow> u16" where
  "clamp_sid hi sid =
     (let a = (if sid < 1 then 1 else sid); b = (if a > hi then hi else a) in word_of_int b)"

section \<open>Lemmas\<close>

lemma flush_loop_result:
  assumes "flush_loop as data off out = Some (r, off', out', rest)" and "off \<le> length data"
  shows "off \<le> off' \<and> off' \<le> length data \<and> out' @ drop off' data = out @ drop off data \<and>
    (r = Flushed \<longleftrightarrow> off' = length data)"
  using assms
proof (induction as data off out rule: flush_loop.induct)
  case (2 a as data off out)
  show ?case
  proof (cases "off < length data")
    case lt: True
    show ?thesis
    proof (cases a)
      case (SendN n)
      let ?k = "min n (length data - off)"
      show ?thesis
      proof (cases "?k > 0")
        case True
        have "out' @ drop off' data = (out @ take ?k (drop off data)) @ drop (off + ?k) data \<and>
            off + ?k \<le> off' \<and> off' \<le> length data \<and> (r = Flushed \<longleftrightarrow> off' = length data)"
          using "2.IH"(1) [OF lt SendN refl True] "2.prems" lt SendN True by (simp add: Let_def)
        moreover have "take ?k (drop off data) @ drop (off + ?k) data = drop off data"
          by (metis append_take_drop_id drop_drop add.commute)
        ultimately show ?thesis by auto
      qed (use "2.prems" lt SendN in auto)
    qed (use 2 lt in auto)
  qed (use "2.prems" in auto)
qed (auto split: if_splits)

text \<open>The loop ends: an answer that is neither \<open>EINTR\<close> nor progress stops it.\<close>

lemma flush_loop_returns:
  "off \<le> length data \<Longrightarrow> length data - off < length (filter (\<lambda>a. a \<noteq> SendEINTR) as) \<Longrightarrow>
   \<exists>x. flush_loop as data off out = Some x"
proof (induction as data off out rule: flush_loop.induct)
  case (2 a as data off out)
  show ?case
  proof (cases "off < length data")
    case lt: True
    show ?thesis
    proof (cases a)
      case (SendN n)
      let ?k = "min n (length data - off)"
      show ?thesis
      proof (cases "?k > 0")
        case True
        then show ?thesis using "2.IH"(1) [OF lt SendN refl True] "2.prems" lt SendN
          by (simp add: Let_def)
      qed (use lt SendN in auto)
    qed (use 2 lt in auto)
  qed auto
qed auto

text \<open>Every slot, taken or not: the offset stays inside the pending unit, the unit in the buffer.\<close>

definition slot_ok :: "'a TapClient_scheme \<Rightarrow> bool" where
  "slot_ok c \<longleftrightarrow> tc_out_off c \<le> length (tc_out c) \<and> length (tc_out c) \<le> tc_out_cap c"

definition live :: "'a TapClient_scheme \<Rightarrow> bool" where
  "live c \<longleftrightarrow> tc_active c \<and> slot_ok c"

lemma reset_client_simps [simp]:
  "\<not> tc_active (reset_client c)" "slot_ok (reset_client c)" "tc_out (reset_client c) = []"
  "tc_need_idr (reset_client c) = False"
  by (simp_all add: reset_client_def slot_ok_def)

lemma sent_to_append [simp]:
  "sent_to fd (w\<lparr>tn_answers := as, tn_sent := tn_sent w @ [(f, bs)]\<rparr>) =
     sent_to fd w @ (if f = fd then bs else [])"
  by (simp add: sent_to_def)

lemma sent_to_closed [simp]: "sent_to fd (w\<lparr>tn_closed := x\<rparr>) = sent_to fd w"
  by (simp add: sent_to_def)

lemma sent_to_tap_close [simp]: "sent_to fd (tap_close f w) = sent_to fd w"
  by (simp add: tap_close_def)

lemma slot_ok_cache [simp]: "slot_ok (maybe_cache_param_sets ok data c) = slot_ok c"
  by (simp add: maybe_cache_param_sets_def slot_ok_def)

lemma cache_frame [simp]:
  "tc_fd (maybe_cache_param_sets ok data c) = tc_fd c"
  "tc_active (maybe_cache_param_sets ok data c) = tc_active c"
  "tc_stream_id (maybe_cache_param_sets ok data c) = tc_stream_id c"
  "tc_out (maybe_cache_param_sets ok data c) = tc_out c"
  "tc_out_off (maybe_cache_param_sets ok data c) = tc_out_off c"
  "tc_out_cap (maybe_cache_param_sets ok data c) = tc_out_cap c"
  "tc_out_start_ns (maybe_cache_param_sets ok data c) = tc_out_start_ns c"
  "tc_need_idr (maybe_cache_param_sets ok data c) = tc_need_idr c"
  by (simp_all add: maybe_cache_param_sets_def)

lemma drop_stalled_frame [simp]:
  "tc_fd (drop_stalled ms d now c) = tc_fd c" "tc_active (drop_stalled ms d now c) = tc_active c"
  "tc_stream_id (drop_stalled ms d now c) = tc_stream_id c"
  "tc_sps (drop_stalled ms d now c) = tc_sps c" "tc_pps (drop_stalled ms d now c) = tc_pps c"
  "tc_out_cap (drop_stalled ms d now c) = tc_out_cap c"
  by (simp_all add: drop_stalled_def Let_def)

lemma slot_ok_drop_stalled [simp]: "slot_ok c \<Longrightarrow> slot_ok (drop_stalled ms d now c)"
  by (simp add: drop_stalled_def slot_ok_def Let_def)

lemma ensure_out_buf_frame [simp]:
  "tc_fd (ensure_out_buf ok n c) = tc_fd c" "tc_active (ensure_out_buf ok n c) = tc_active c"
  "tc_stream_id (ensure_out_buf ok n c) = tc_stream_id c"
  "tc_out (ensure_out_buf ok n c) = tc_out c" "tc_out_off (ensure_out_buf ok n c) = tc_out_off c"
  "tc_need_idr (ensure_out_buf ok n c) = tc_need_idr c"
  "tc_sps (ensure_out_buf ok n c) = tc_sps c" "tc_pps (ensure_out_buf ok n c) = tc_pps c"
  by (simp_all add: ensure_out_buf_def Let_def)

lemma ensure_out_buf_cap:
  "tc_out_cap c \<le> tc_out_cap (ensure_out_buf ok n c)"
  "ok \<Longrightarrow> n \<le> tc_out_cap (ensure_out_buf ok n c)"
  using double_until_ge [of "if tc_out_cap c \<noteq> 0 then tc_out_cap c else 256 * 1024" n]
  by (auto simp: ensure_out_buf_def Let_def)

lemma slot_ok_ensure [simp]: "slot_ok c \<Longrightarrow> slot_ok (ensure_out_buf ok n c)"
  using ensure_out_buf_cap(1) [of c ok n] by (simp add: slot_ok_def)

lemma unit_bytes_ensure [simp]:
  "unit_bytes data (ensure_out_buf ok n c) = unit_bytes data c"
  by (simp add: unit_bytes_def)

text \<open>Every unit handed to a subscriber that is not recovering opens with a start code.\<close>

lemma unit_bytes_start_code: "\<not> tc_need_idr c \<Longrightarrow> has_start_code (unit_bytes data c)"
  using has_start_code_prefix [of data] by (simp add: unit_bytes_def)

section \<open>The sender interface\<close>

text \<open>
  What publishing relies on: as long as the subscriber is not lost, flushing moves bytes from
  the pending unit to the wire and nothing else, and reports true only when all are gone.
\<close>

locale unit_sender =
  fixes flush :: "'a TapClient_scheme \<Rightarrow> tap_net \<Rightarrow> (bool \<times> 'a TapClient_scheme \<times> tap_net) option"
  assumes flush_conserves:
      "flush c w = Some (b, c', w') \<Longrightarrow> live c \<Longrightarrow> tc_active c' \<Longrightarrow>
       live c' \<and> tc_fd c' = tc_fd c \<and> sent_to (tc_fd c) w' @ pending c' = sent_to (tc_fd c) w @ pending c"
    and flush_cleared:
      "flush c w = Some (True, c', w') \<Longrightarrow> live c \<Longrightarrow> tc_active c' \<Longrightarrow> tc_out c' = []"
    and flush_dead: "flush c w = Some (b, c', w') \<Longrightarrow> \<not> tc_active c \<Longrightarrow> c' = c \<and> w' = w"
    and flush_slot_ok: "flush c w = Some (b, c', w') \<Longrightarrow> slot_ok c \<Longrightarrow> slot_ok c'"
begin

text \<open>A subscriber is never revived by a flush.\<close>

lemma flush_active: "flush c w = Some (b, c', w') \<Longrightarrow> tc_active c' \<Longrightarrow> tc_active c"
  using flush_dead by blast

text \<open>Old data out, a new unit in, and out again.\<close>

lemma flush_offer:
  assumes "flush c w = Some (True, c1, w1)" and "live c" and "tc_active c1"
    and "flush (c2 :: 'a TapClient_scheme) w1 = Some (b, c3, w2)" and "live c2" and "tc_fd c2 = tc_fd c1" and "tc_active c3"
  shows "sent_to (tc_fd c) w2 @ pending c3 = sent_to (tc_fd c) w @ pending c @ pending c2"
proof -
  have 1: "tc_fd c1 = tc_fd c" "sent_to (tc_fd c) w1 @ pending c1 = sent_to (tc_fd c) w @ pending c"
    using flush_conserves [OF assms(1-3)] by auto
  have "pending c1 = []" using flush_cleared [OF assms(1-3)] by (simp add: pending_def)
  moreover have "sent_to (tc_fd c2) w2 @ pending c3 = sent_to (tc_fd c2) w1 @ pending c2"
    using flush_conserves [OF assms(4,5,7)] by auto
  ultimately show ?thesis using 1 assms(6) by simp
qed

end

lemma flush_with_cases:
  assumes "flush_with cl fin c w = Some (b, c', w')" and "tc_active c" and "slot_ok c"
  obtains (sent) bytes rest where "b" "bytes = pending c"
      "c' = fin (c\<lparr>tc_out := [], tc_out_off := 0, tc_out_start_ns := 0\<rparr>)"
      "w' = w\<lparr>tn_answers := rest, tn_sent := tn_sent w @ [(tc_fd c, bytes)]\<rparr>"
  | (blocked) off bytes rest where "\<not> b" "c' = c\<lparr>tc_out_off := off\<rparr>" "off < length (tc_out c)"
      "bytes @ drop off (tc_out c) = pending c"
      "w' = w\<lparr>tn_answers := rest, tn_sent := tn_sent w @ [(tc_fd c, bytes)]\<rparr>"
  | (broken) off bytes rest where "b" "off < length (tc_out c)"
      "bytes @ drop off (tc_out c) = pending c"
      "cl (c\<lparr>tc_out_off := off\<rparr>)
         (w\<lparr>tn_answers := rest, tn_sent := tn_sent w @ [(tc_fd c, bytes)]\<rparr>) = (c', w')"
proof -
  obtain r off bytes rest where fl: "flush_loop (tn_answers w) (tc_out c) (tc_out_off c) [] = Some (r, off, bytes, rest)"
    using assms(1,2) by (auto simp: flush_with_def split: option.splits)
  have le: "tc_out_off c \<le> length (tc_out c)" using assms(3) by (simp add: slot_ok_def)
  have R: "off \<le> length (tc_out c)" "bytes @ drop off (tc_out c) = pending c"
    "r = Flushed \<longleftrightarrow> off = length (tc_out c)"
    using flush_loop_result [OF fl le] by (auto simp: pending_def)
  show ?thesis
  proof (cases r)
    case Flushed
    then show ?thesis using assms(1,2) fl R by (intro sent [of bytes rest]) (auto simp: flush_with_def)
  next
    case Blocked
    then show ?thesis
      using assms(1,2) fl R by (intro blocked [of off bytes rest]) (auto simp: flush_with_def)
  next
    case Broken
    then show ?thesis
      using assms(1,2) fl R
      by (intro broken [of off bytes rest]) (auto simp: flush_with_def split: prod.splits)
  qed
qed

lemma unit_sender_flush_with:
  assumes cl: "\<And>c w c' w'. cl c w = (c', w') \<Longrightarrow> \<not> tc_active c' \<and> slot_ok c'"
    and fin: "\<And>c. tc_active (fin c) = tc_active c" "\<And>c. tc_fd (fin c) = tc_fd c"
      "\<And>c. tc_out (fin c) = tc_out c" "\<And>c. tc_out_off (fin c) = tc_out_off c"
      "\<And>c. tc_out_cap (fin c) = tc_out_cap c"
  shows "unit_sender (flush_with cl fin)"
proof
  fix c :: "'a TapClient_scheme" and w b c' w'
  assume f: "flush_with cl fin c w = Some (b, c', w')"
  show "c' = c \<and> w' = w" if "\<not> tc_active c" using f that by (simp add: flush_with_def)
  show "slot_ok c'" if ok: "slot_ok c"
  proof (cases "tc_active c")
    case True
    from f True ok show ?thesis
    proof (cases rule: flush_with_cases)
      case broken
      then show ?thesis using cl by blast
    qed (use ok in \<open>auto simp: slot_ok_def fin\<close>)
  qed (use f ok in \<open>auto simp: flush_with_def\<close>)
  assume l: "live c" and a': "tc_active c'"
  have a: "tc_active c" and ok: "slot_ok c" using l by (auto simp: live_def)
  show "live c' \<and> tc_fd c' = tc_fd c \<and> sent_to (tc_fd c) w' @ pending c' = sent_to (tc_fd c) w @ pending c"
    using f a ok
  proof (cases rule: flush_with_cases)
    case sent
    then show ?thesis using ok a by (simp add: live_def slot_ok_def pending_def fin)
  next
    case blocked
    then show ?thesis using ok a by (simp add: live_def slot_ok_def pending_def)
  next
    case broken
    then show ?thesis using cl a' by blast
  qed
next
  fix c :: "'a TapClient_scheme" and w c' w'
  assume f: "flush_with cl fin c w = Some (True, c', w')" and l: "live c" and a': "tc_active c'"
  have a: "tc_active c" and ok: "slot_ok c" using l by (auto simp: live_def)
  show "tc_out c' = []" using f a ok
  proof (cases rule: flush_with_cases)
    case broken
    then show ?thesis using cl a' by blast
  qed (simp_all add: fin)
qed

section \<open>Descriptor ownership\<close>

text \<open>An active slot owns its descriptor; closing hands it to the list of closed ones.\<close>

definition owns :: "'a TapClient_scheme \<Rightarrow> int multiset" where
  "owns c = (if tc_active c then {#tc_fd c#} else {#})"

definition owns_all :: "'a TapClient_scheme list \<Rightarrow> int multiset" where
  "owns_all cs = sum_list (map owns cs)"

definition fd_ok :: "'a TapClient_scheme \<Rightarrow> bool" where
  "fd_ok c \<longleftrightarrow> (tc_active c \<longrightarrow> 0 \<le> tc_fd c)"

definition slots_ok :: "'a TapClient_scheme list \<Rightarrow> bool" where
  "slots_ok cs \<longleftrightarrow> list_all (\<lambda>c. slot_ok c \<and> fd_ok c) cs"

lemma owns_all_simps [simp]:
  "owns_all [] = {#}" "owns_all (c # cs) = owns c + owns_all cs"
  by (simp_all add: owns_all_def)

lemma slots_ok_simps [simp]:
  "slots_ok []" "slots_ok (c # cs) \<longleftrightarrow> slot_ok c \<and> fd_ok c \<and> slots_ok cs"
  by (auto simp: slots_ok_def)

text \<open>What a tap's closing function guarantees.\<close>

locale slot_closer =
  fixes cl :: "'a TapClient_scheme \<Rightarrow> tap_net \<Rightarrow> 'a TapClient_scheme \<times> tap_net"
  assumes cl_inactive: "cl c w = (c', w') \<Longrightarrow> \<not> tc_active c' \<and> slot_ok c'"
    and cl_closes: "cl c w = (c', w') \<Longrightarrow> 0 \<le> tc_fd c \<Longrightarrow> mset (tn_closed w') = add_mset (tc_fd c) (mset (tn_closed w))"
begin

lemma cl_balance:
  assumes "cl c w = (c', w')" and "fd_ok c" and "tc_active c"
  shows "slot_ok c' \<and> fd_ok c' \<and> owns c' + mset (tn_closed w') = owns c + mset (tn_closed w)"
  using cl_inactive [OF assms(1)] cl_closes [OF assms(1)] assms(2,3)
  by (simp add: owns_def fd_ok_def)

lemma prune_slots_balance:
  "prune_slots cl peek i cs w = (cs', w') \<Longrightarrow> slots_ok cs \<Longrightarrow>
   slots_ok cs' \<and> length cs' = length cs \<and>
   owns_all cs' + mset (tn_closed w') = owns_all cs + mset (tn_closed w)"
proof (induction cs arbitrary: i w cs' w')
  case (Cons c cs)
  obtain c1 w1 where 1: "(if \<not> tc_active c \<or> tc_fd c < 0 then (c, w)
      else if peek_dead (peek i) then cl c w else (c, w)) = (c1, w1)"
    by (metis prod.exhaust)
  obtain cs2 w2 where 2: "prune_slots cl peek (i + 1) cs w1 = (cs2, w2)" by (metis prod.exhaust)
  have r: "cs' = c1 # cs2" "w' = w2" using Cons.prems(1) 1 2 by (auto split: prod.splits)
  have b: "slot_ok c1 \<and> fd_ok c1 \<and> owns c1 + mset (tn_closed w1) = owns c + mset (tn_closed w)"
    using 1 Cons.prems(2) cl_balance [of c w] by (auto split: if_splits)
  have i: "slots_ok cs2" "length cs2 = length cs"
    "owns_all cs2 + mset (tn_closed w2) = owns_all cs + mset (tn_closed w1)"
    using Cons.IH [OF 2] Cons.prems(2) by auto
  have "owns_all cs' + mset (tn_closed w') = owns c1 + (owns_all cs2 + mset (tn_closed w2))"
    by (simp add: r)
  also have "\<dots> = owns_all cs + (owns c1 + mset (tn_closed w1))" by (simp add: i(3))
  also have "\<dots> = owns_all (c # cs) + mset (tn_closed w)" using b by simp
  finally show ?case using b i r by simp
qed simp

text \<open>A flush balances as well.\<close>

lemma flush_with_balance:
  assumes "flush_with cl fin c w = Some (b, c', w')" and "slot_ok c" "fd_ok c"
    and fin: "\<And>c. tc_active (fin c) = tc_active c" "\<And>c. tc_fd (fin c) = tc_fd c"
  shows "fd_ok c' \<and> owns c' + mset (tn_closed w') = owns c + mset (tn_closed w)"
proof (cases "tc_active c")
  case True
  from assms(1) True assms(2) show ?thesis
  proof (cases rule: flush_with_cases)
    case (broken off bytes rest)
    then show ?thesis using cl_balance [OF broken(4)] True assms(3) by (simp add: fd_ok_def owns_def)
  qed (use True assms(3) fin in \<open>auto simp: fd_ok_def owns_def\<close>)
next
  case False
  then show ?thesis using assms(1,3) by (simp add: flush_with_def)
qed

end

lemma place_slot_balance:
  assumes "place_slot fill cs = Some cs'" and "slots_ok cs" and "0 \<le> fd"
    and fill: "\<And>c. tc_active (fill c)" "\<And>c. tc_fd (fill c) = fd" "\<And>c. slot_ok (fill c) = slot_ok c"
  shows "slots_ok cs' \<and> length cs' = length cs \<and> owns_all cs' = add_mset fd (owns_all cs)"
  using assms(1,2)
proof (induction cs arbitrary: cs')
  case (Cons c cs)
  then show ?case
    using fill assms(3) by (cases "tc_active c") (auto simp: fd_ok_def owns_def)
qed simp

lemma place_slot_None: "place_slot fill cs = None \<longleftrightarrow> list_all tc_active cs"
  by (induction cs) auto

end
