(* ===== verification/Tap.thy ===== *)
theory Tap
  imports TapClients
begin

text \<open>
  The H.264 tap of \<open>stream_server\<close> (\<open>stream_server/src/h264_tap.c\<close>): it publishes every
  access unit to the subscribers of its stream without ever blocking, keeps at most one unit
  pending per subscriber and, after a stall, waits for the next IDR. \<open>g_tap\<close> with the two
  configuration globals is the record \<open>tap\<close>.
\<close>

definition TAP_MAX_CLIENTS :: nat where "TAP_MAX_CLIENTS = 8"

record tap =
  tap_listen_fd :: int
  tap_running :: bool
  tap_clients :: "TapClient list"
  tap_stall_ms :: int
  tap_drop_to_idr :: bool

definition zero_client :: TapClient where
  "zero_client = \<lparr>tc_fd = 0, tc_stream_id = 0, tc_active = False, tc_out = [], tc_out_cap = 0,
     tc_out_off = 0, tc_out_start_ns = 0, tc_need_idr = False, tc_sps = None, tc_pps = None\<rparr>"

definition tap_flush_out_buf :: "TapClient \<Rightarrow> tap_net \<Rightarrow> (bool \<times> TapClient \<times> tap_net) option" where
  "tap_flush_out_buf = flush_with client_close (\<lambda>c. c)"

text \<open>\<open>read_subscribe_stream_id\<close>: what one \<open>recv\<close> returned, None for an error or nothing.\<close>

definition read_subscribe_stream_id :: "string option \<Rightarrow> u16" where
  "read_subscribe_stream_id r = (case r of
     None \<Rightarrow> 1
   | Some buf \<Rightarrow>
       if buf = [] then 1
       else (case scan_sub (c_str (take 63 buf)) of
               Some sid \<Rightarrow> clamp_sid 20 sid
             | None \<Rightarrow> 1))"

text \<open>One accepted connection: \<open>peek1\<close> and \<open>peek2\<close> answer the two rounds of pruning.\<close>

definition subscribe_slot :: "int \<Rightarrow> u16 \<Rightarrow> TapClient \<Rightarrow> TapClient" where
  "subscribe_slot fd sid c = c\<lparr>tc_fd := fd, tc_stream_id := sid, tc_active := True\<rparr>"

definition tap_accept ::
  "int \<Rightarrow> string option \<Rightarrow> (nat \<Rightarrow> peek) \<Rightarrow> (nat \<Rightarrow> peek) \<Rightarrow> tap \<Rightarrow> tap_net \<Rightarrow> tap \<times> tap_net" where
  "tap_accept fd r peek1 peek2 t w =
     (let sid = read_subscribe_stream_id r;
          (cs1, w1) = prune_slots client_close peek1 0 (tap_clients t) w
      in case place_slot (subscribe_slot fd sid) cs1 of
           Some cs2 \<Rightarrow> (t\<lparr>tap_clients := cs2\<rparr>, w1)
         | None \<Rightarrow>
             (let (cs3, w3) = prune_slots client_close peek2 0 cs1 w1
              in case place_slot (subscribe_slot fd sid) cs3 of
                   Some cs4 \<Rightarrow> (t\<lparr>tap_clients := cs4\<rparr>, w3)
                 | None \<Rightarrow> (t\<lparr>tap_clients := cs3\<rparr>, w3\<lparr>tn_closed := tn_closed w3 @ [fd]\<rparr>)))"

text \<open>Start: the environment and the answers of the system calls.\<close>

record tap_start_env =
  se_stall :: "string option"
  se_drop :: "string option"
  se_socket :: int
  se_pton :: "string \<Rightarrow> bool"
  se_bind_ok :: bool
  se_listen_ok :: bool
  se_thread_ok :: bool

definition tap_stall_config :: "string option \<Rightarrow> int \<Rightarrow> int" where
  "tap_stall_config s v0 = (case s of None \<Rightarrow> v0
     | Some s \<Rightarrow> let v = atoi s in if v \<ge> 10 \<and> v \<le> 5000 then v else v0)"

definition tap_drop_config :: "string option \<Rightarrow> bool \<Rightarrow> bool" where
  "tap_drop_config s v0 = (case s of None \<Rightarrow> v0 | Some s \<Rightarrow> atoi s > 0)"

definition h264_tap_start ::
  "tap_start_env \<Rightarrow> string option \<Rightarrow> u16 \<Rightarrow> tap \<Rightarrow> tap_net \<Rightarrow> int \<times> tap \<times> tap_net" where
  "h264_tap_start e bind_ip port t w =
     (if port = 0 then (0, t, w)
      else
        let t1 = t\<lparr>tap_listen_fd := - 1, tap_running := False,
                   tap_clients := replicate TAP_MAX_CLIENTS zero_client,
                   tap_stall_ms := tap_stall_config (se_stall e) (tap_stall_ms t),
                   tap_drop_to_idr := tap_drop_config (se_drop e) (tap_drop_to_idr t)\<rparr>;
            ip = (case bind_ip of None \<Rightarrow> ''127.0.0.1''
                    | Some s \<Rightarrow> if s = [] then ''127.0.0.1'' else s);
            fd = se_socket e;
            w_closed = w\<lparr>tn_closed := tn_closed w @ [fd]\<rparr>
        in if fd < 0 then (- 1, t1, w)
           else if \<not> se_pton e ip then (- 1, t1, w_closed)
           else if \<not> se_bind_ok e then (- 1, t1, w_closed)
           else if \<not> se_listen_ok e then (- 1, t1, w_closed)
           else if \<not> se_thread_ok e then (- 1, t1, w_closed)
           else (0, t1\<lparr>tap_listen_fd := fd, tap_running := True\<rparr>, w))"

fun close_active :: "TapClient list \<Rightarrow> tap_net \<Rightarrow> TapClient list \<times> tap_net" where
  "close_active [] w = ([], w)"
| "close_active (c # cs) w =
     (let (c', w1) = (if tc_active c then client_close c w else (c, w));
          (cs', w2) = close_active cs w1
      in (c' # cs', w2))"

definition h264_tap_stop :: "tap \<Rightarrow> tap_net \<Rightarrow> tap \<times> tap_net" where
  "h264_tap_stop t w =
     (if \<not> tap_running t then (t, w)
      else
        let (fd', w1) = (if tap_listen_fd t \<ge> 0
                         then (- 1, w\<lparr>tn_closed := tn_closed w @ [tap_listen_fd t]\<rparr>)
                         else (tap_listen_fd t, w));
            (cs, w2) = close_active (tap_clients t) w1
        in (t\<lparr>tap_running := False, tap_listen_fd := fd', tap_clients := cs\<rparr>, w2))"

section \<open>Publishing\<close>

text \<open>For one slot: the allocator's answers and the two clock readings.\<close>

record pub_env =
  pe_param_ok :: bool
  pe_now :: u64
  pe_out_ok :: bool
  pe_start :: u64

text \<open>The loop body of \<open>h264_tap_publish\<close> from the param set cache to the flush of old data.\<close>

definition tap_prepare ::
  "int \<Rightarrow> bool \<Rightarrow> pub_env \<Rightarrow> u8 list \<Rightarrow> TapClient \<Rightarrow> tap_net \<Rightarrow> (bool \<times> TapClient \<times> tap_net) option" where
  "tap_prepare stall_ms dti e data c w =
     (let c1 = maybe_cache_param_sets (pe_param_ok e) data c;
          c2 = drop_stalled stall_ms dti (pe_now e) c1
      in if length (tc_out c2) > tc_out_off c2 then tap_flush_out_buf c2 w else Some (True, c2, w))"

text \<open>The rest of the body: drop until an IDR, assemble, try to send.\<close>

definition tap_offer ::
  "pub_env \<Rightarrow> u8 list \<Rightarrow> bool \<Rightarrow> TapClient \<Rightarrow> tap_net \<Rightarrow> (TapClient \<times> tap_net) option" where
  "tap_offer e data is_idr c w =
     (if tc_need_idr c \<and> \<not> is_idr then Some (c, w)
      else
        let total = unit_size data c;
            c1 = ensure_out_buf (pe_out_ok e) total c
        in if tc_out_cap c1 < total then Some (c1, w)
           else
             let c2 = c1\<lparr>tc_out := unit_bytes data c1, tc_out_off := 0,
                         tc_out_start_ns := pe_start e\<rparr>
             in case tap_flush_out_buf c2 w of
                  None \<Rightarrow> None
                | Some (_, c3, w') \<Rightarrow>
                    Some (if tc_need_idr c3 \<and> is_idr \<and> length (tc_out c3) = 0
                          then c3\<lparr>tc_need_idr := False\<rparr> else c3, w'))"

definition tap_publish_client ::
  "int \<Rightarrow> bool \<Rightarrow> pub_env \<Rightarrow> u16 \<Rightarrow> u8 list \<Rightarrow> TapClient \<Rightarrow> tap_net \<Rightarrow> (TapClient \<times> tap_net) option"
where
  "tap_publish_client stall_ms dti e stream_id data c w =
     (if \<not> tc_active c then Some (c, w)
      else if tc_stream_id c \<noteq> stream_id then Some (c, w)
      else case tap_prepare stall_ms dti e data c w of
             None \<Rightarrow> None
           | Some (cleared, c1, w1) \<Rightarrow>
               if \<not> cleared then Some (c1, w1)
               else tap_offer e data (annexb_contains_nal_type data 5) c1 w1)"

fun tap_publish_slots ::
  "int \<Rightarrow> bool \<Rightarrow> (nat \<Rightarrow> pub_env) \<Rightarrow> u16 \<Rightarrow> u8 list \<Rightarrow> nat \<Rightarrow> TapClient list \<Rightarrow> tap_net \<Rightarrow>
   (TapClient list \<times> tap_net) option"
where
  "tap_publish_slots stall_ms dti e stream_id data i [] w = Some ([], w)"
| "tap_publish_slots stall_ms dti e stream_id data i (c # cs) w =
     (case tap_publish_client stall_ms dti (e i) stream_id data c w of
        None \<Rightarrow> None
      | Some (c', w1) \<Rightarrow>
          map_option (\<lambda>(cs', w2). (c' # cs', w2))
            (tap_publish_slots stall_ms dti e stream_id data (i + 1) cs w1))"

definition h264_tap_publish ::
  "(nat \<Rightarrow> pub_env) \<Rightarrow> u16 \<Rightarrow> u8 list option \<Rightarrow> tap \<Rightarrow> tap_net \<Rightarrow> (tap \<times> tap_net) option" where
  "h264_tap_publish e stream_id data t w =
     (case data of None \<Rightarrow> Some (t, w) | Some d \<Rightarrow>
      if \<not> tap_running t \<or> length d = 0 then Some (t, w)
      else map_option (\<lambda>(cs, w'). (t\<lparr>tap_clients := cs\<rparr>, w'))
             (tap_publish_slots (tap_stall_ms t) (tap_drop_to_idr t) e stream_id d 0 (tap_clients t) w))"

section \<open>Interfaces discharged\<close>

interpretation tap_close: slot_closer client_close
  by unfold_locales
    (auto simp: client_close_def tap_close_def reset_client_def slot_ok_def split: if_splits)

interpretation tap_send: unit_sender tap_flush_out_buf
  unfolding tap_flush_out_buf_def
  by (rule unit_sender_flush_with) (auto dest: tap_close.cl_inactive)

lemma tap_flush_balance:
  assumes "tap_flush_out_buf c w = Some (b, c', w')" and "slot_ok c" "fd_ok c"
  shows "slot_ok c' \<and> fd_ok c' \<and> owns c' + mset (tn_closed w') = owns c + mset (tn_closed w)"
  using tap_send.flush_slot_ok [OF assms(1,2)]
    tap_close.flush_with_balance [OF assms(1) [unfolded tap_flush_out_buf_def] assms(2,3)] by simp

section \<open>One subscriber\<close>

text \<open>The slot after the parameter set cache and the stall check.\<close>

definition tap_checked :: "int \<Rightarrow> bool \<Rightarrow> pub_env \<Rightarrow> u8 list \<Rightarrow> TapClient \<Rightarrow> TapClient" where
  "tap_checked stall_ms dti e data c =
     drop_stalled stall_ms dti (pe_now e) (maybe_cache_param_sets (pe_param_ok e) data c)"

lemma tap_checked_frame [simp]:
  "tc_fd (tap_checked ms dti e data c) = tc_fd c"
  "tc_active (tap_checked ms dti e data c) = tc_active c"
  "slot_ok c \<Longrightarrow> slot_ok (tap_checked ms dti e data c)"
  by (simp_all add: tap_checked_def)

lemma tap_offer_active:
  assumes "tap_offer e data idr c w = Some (c', w')" and "tc_active c'"
  shows "tc_active c"
  using assms
  by (auto simp: tap_offer_def Let_def split: if_splits option.splits dest!: tap_send.flush_active)

text \<open>The three ways in which the second half of the body leaves a subscriber.\<close>

lemma tap_offer_cases:
  assumes "tap_offer e data idr c w = Some (c', w')"
  obtains (waiting) "tc_need_idr c" "\<not> idr" "c' = c" "w' = w"
  | (oom) "\<not> (tc_need_idr c \<and> \<not> idr)" "\<not> pe_out_ok e" "c' = ensure_out_buf (pe_out_ok e) (unit_size data c) c" "w' = w"
  | (sent) b c3 where "\<not> (tc_need_idr c \<and> \<not> idr)"
      "unit_size data c \<le> tc_out_cap (ensure_out_buf (pe_out_ok e) (unit_size data c) c)"
      "tap_flush_out_buf ((ensure_out_buf (pe_out_ok e) (unit_size data c) c)
         \<lparr>tc_out := unit_bytes data c, tc_out_off := 0, tc_out_start_ns := pe_start e\<rparr>) w = Some (b, c3, w')"
      "c' = (if tc_need_idr c3 \<and> idr \<and> length (tc_out c3) = 0 then c3\<lparr>tc_need_idr := False\<rparr> else c3)"
proof -
  let ?c1 = "ensure_out_buf (pe_out_ok e) (unit_size data c) c"
  consider "tc_need_idr c \<and> \<not> idr" | "\<not> (tc_need_idr c \<and> \<not> idr)" "tc_out_cap ?c1 < unit_size data c"
    | "\<not> (tc_need_idr c \<and> \<not> idr)" "\<not> tc_out_cap ?c1 < unit_size data c" by blast
  then show ?thesis
  proof cases
    case 1
    then show ?thesis using assms by (intro waiting) (auto simp: tap_offer_def)
  next
    case 2
    have "\<not> pe_out_ok e"
    proof
      assume "pe_out_ok e"
      from ensure_out_buf_cap(2) [OF this, of "unit_size data c" c] 2(2) show False by simp
    qed
    then show ?thesis using assms 2 by (intro oom) (auto simp: tap_offer_def Let_def)
  next
    case 3
    then obtain b c3 where "tap_flush_out_buf (?c1\<lparr>tc_out := unit_bytes data c, tc_out_off := 0,
        tc_out_start_ns := pe_start e\<rparr>) w = Some (b, c3, w')"
      "c' = (if tc_need_idr c3 \<and> idr \<and> length (tc_out c3) = 0 then c3\<lparr>tc_need_idr := False\<rparr> else c3)"
      using assms by (auto simp: tap_offer_def Let_def split: option.splits prod.splits)
    then show ?thesis using 3 by (intro sent) auto
  qed
qed

lemma pending_need_idr [simp]: "pending (c\<lparr>tc_need_idr := v\<rparr>) = pending c"
  by (simp add: pending_def)

lemma tap_offer_conserves:
  assumes off: "tap_offer e data idr c w = Some (c', w')" and "live c" "tc_active c'"
  shows
    "sent_to (tc_fd c) w' @ pending c' = sent_to (tc_fd c) w @ pending c \<and>
       (tc_need_idr c \<and> \<not> idr \<or> \<not> pe_out_ok e) \<or>
     sent_to (tc_fd c) w' @ pending c' = sent_to (tc_fd c) w @ unit_bytes data c \<and>
       (tc_need_idr c \<longrightarrow> idr)"
  using off
proof (cases rule: tap_offer_cases)
  case (sent b c3)
  let ?c2 = "(ensure_out_buf (pe_out_ok e) (unit_size data c) c)
     \<lparr>tc_out := unit_bytes data c, tc_out_off := 0, tc_out_start_ns := pe_start e\<rparr>"
  have l: "live ?c2" using assms(2) sent(2) by (simp add: live_def slot_ok_def length_unit_bytes)
  have a: "tc_active c3" using assms(3) sent(4) by (auto split: if_splits)
  have "sent_to (tc_fd c) w' @ pending c3 = sent_to (tc_fd c) w @ unit_bytes data c"
    using tap_send.flush_conserves [OF sent(3) l a] by (simp add: pending_def)
  moreover have "pending c' = pending c3" using sent(4) by simp
  ultimately show ?thesis using sent(1) by simp
qed (simp_all add: pending_def)

section \<open>Publishing: what a subscriber receives\<close>

text \<open>The two halves of the loop body on a subscribed, active slot.\<close>

lemma publish_client_halves:
  assumes "tap_publish_client ms dti e sid data c w = Some (c', w')"
    and "tc_active c" "tc_stream_id c = sid"
  obtains (busy) "tap_prepare ms dti e data c w = Some (False, c', w')"
  | (offered) c1 w1 where "tap_prepare ms dti e data c w = Some (True, c1, w1)"
      "tap_offer e data (annexb_contains_nal_type data 5) c1 w1 = Some (c', w')"
  using assms
  by (auto simp: tap_publish_client_def split: option.splits if_splits prod.splits)

text \<open>A flush that reported true leaves nothing pending and the rest of the slot as it was.\<close>

lemma tap_flush_True:
  assumes "tap_flush_out_buf c w = Some (True, c', w')" and "live c" "tc_active c'"
  shows "c' = c\<lparr>tc_out := [], tc_out_off := 0, tc_out_start_ns := 0\<rparr>"
proof -
  have f: "flush_with client_close (\<lambda>c. c) c w = Some (True, c', w')" "tc_active c" "slot_ok c"
    using assms(1,2) by (simp_all add: tap_flush_out_buf_def live_def)
  from f show ?thesis
  proof (cases rule: flush_with_cases)
    case broken
    then show ?thesis using tap_close.cl_inactive assms(3) by blast
  qed simp_all
qed

lemma tap_flush_False:
  assumes "tap_flush_out_buf c w = Some (False, c', w')" and "live c"
  shows "pending c' \<noteq> []"
proof -
  have f: "flush_with client_close (\<lambda>c. c) c w = Some (False, c', w')" "tc_active c" "slot_ok c"
    using assms by (simp_all add: tap_flush_out_buf_def live_def)
  from f show ?thesis by (cases rule: flush_with_cases) (simp_all add: pending_def)
qed

lemma tap_prepare_True:
  assumes p: "tap_prepare ms dti e data c w = Some (True, c1, w1)" and "live c" "tc_active c1"
  shows "live c1" "tc_fd c1 = tc_fd c" "pending c1 = []"
    "sent_to (tc_fd c) w1 = sent_to (tc_fd c) w @ pending (tap_checked ms dti e data c)"
    "unit_bytes data c1 = unit_bytes data (tap_checked ms dti e data c)"
    "tc_need_idr c1 = tc_need_idr (tap_checked ms dti e data c)"
proof -
  let ?d = "tap_checked ms dti e data c"
  have d: "live ?d" using assms(2) by (simp add: live_def)
  have all: "live c1 \<and> tc_fd c1 = tc_fd c \<and> pending c1 = [] \<and>
    sent_to (tc_fd c) w1 = sent_to (tc_fd c) w @ pending ?d \<and>
    unit_bytes data c1 = unit_bytes data ?d \<and> tc_need_idr c1 = tc_need_idr ?d"
  proof (cases "length (tc_out ?d) > tc_out_off ?d")
    case True
    then have f: "tap_flush_out_buf ?d w = Some (True, c1, w1)"
      using p by (simp add: tap_prepare_def tap_checked_def Let_def)
    show ?thesis
      using tap_send.flush_conserves [OF f d assms(3)] tap_flush_True [OF f d assms(3)]
      by (simp add: pending_def unit_bytes_def)
  next
    case False
    then have "c1 = ?d" "w1 = w"
      using p by (auto simp: tap_prepare_def tap_checked_def Let_def split: if_splits)
    then show ?thesis using d False by (simp add: pending_def)
  qed
  then show "live c1" "tc_fd c1 = tc_fd c" "pending c1 = []"
    "sent_to (tc_fd c) w1 = sent_to (tc_fd c) w @ pending ?d"
    "unit_bytes data c1 = unit_bytes data ?d" "tc_need_idr c1 = tc_need_idr ?d"
    by blast+
qed

text \<open>C9: publishing never corrupts a subscriber's stream. As long as the subscriber is not lost,
  the bytes it was sent together with the bytes still pending grow by exactly one complete unit
  (with its start code and, when recovering, the parameter sets in front) or by nothing; the
  only bytes ever withdrawn are those of a unit that stalled. Nothing is offered only while
  older bytes are pending, while an IDR is awaited, or when memory is short.\<close>

theorem publish_conserves:
  assumes "tap_publish_client ms dti e sid data c w = Some (c', w')"
    and "tc_active c" "tc_stream_id c = sid" "slot_ok c" "tc_active c'"
  shows "let d = tap_checked ms dti e data c; idr = annexb_contains_nal_type data 5 in
    (sent_to (tc_fd c) w' @ pending c' = sent_to (tc_fd c) w @ pending d @ unit_bytes data d \<and>
       \<not> (tc_need_idr d \<and> \<not> idr)) \<or>
    (sent_to (tc_fd c) w' @ pending c' = sent_to (tc_fd c) w @ pending d \<and>
       (pending c' \<noteq> [] \<or> tc_need_idr d \<and> \<not> idr \<or> \<not> pe_out_ok e))"
proof -
  let ?d = "tap_checked ms dti e data c"
  have l: "live c" "live ?d" using assms by (simp_all add: live_def)
  from assms(1-3) show ?thesis
  proof (cases rule: publish_client_halves)
    case busy
    then have f: "tap_flush_out_buf ?d w = Some (False, c', w')"
      by (simp add: tap_prepare_def tap_checked_def Let_def split: if_splits)
    have "pending c' \<noteq> []" using tap_flush_False [OF f l(2)] .
    then show ?thesis using tap_send.flush_conserves [OF f l(2) assms(5)] by (simp add: Let_def)
  next
    case (offered c1 w1)
    have a1: "tc_active c1" using tap_offer_active [OF offered(2) assms(5)] .
    note P = tap_prepare_True [OF offered(1) l(1) a1]
    show ?thesis
      using tap_offer_conserves [OF offered(2) P(1) assms(5)] P by (auto simp: Let_def)
  qed
qed

text \<open>An example subscriber, used by the witnesses.\<close>

definition ex_tap_client :: "int \<Rightarrow> u16 \<Rightarrow> TapClient" where
  "ex_tap_client fd sid = zero_client\<lparr>tc_fd := fd, tc_stream_id := sid, tc_active := True\<rparr>"

definition ex_pub :: "u64 \<Rightarrow> pub_env" where
  "ex_pub now = \<lparr>pe_param_ok = True, pe_now = now, pe_out_ok = True, pe_start = now\<rparr>"

definition ex_tap_net :: "send_answer list \<Rightarrow> tap_net" where
  "ex_tap_net as = \<lparr>tn_answers = as, tn_sent = [], tn_closed = []\<rparr>"

lemmas tap_ex_defs = ex_tap_client_def ex_pub_def ex_tap_net_def zero_client_def

lemmas tap_eval = tap_ex_defs tap_publish_client_def tap_prepare_def tap_offer_def tap_flush_out_buf_def
  flush_with_def client_close_def reset_client_def tap_close_def maybe_cache_param_sets_def
  drop_stalled_def ensure_out_buf_def unit_size_def unit_bytes_def has_start_code_def
  first_nal_type_def opt_bytes_def nal_type_of_def annexb_contains_nal_type_def
  double_until.simps sent_to_def

theorem publish_conserves_witness:
  "let c = ex_tap_client 7 1; w = ex_tap_net [SendN 3, SendEAGAIN]; data = [0x41, 0x9a] in
   \<exists>c' w'. tap_publish_client 200 True (ex_pub 5) 1 data c w = Some (c', w') \<and>
     sent_to 7 w' @ pending c' = [0, 0, 0, 1, 0x41, 0x9a] \<and> pending c' = [1, 0x41, 0x9a]"
proof -
  let ?c = "ex_tap_client 7 1" and ?w = "ex_tap_net [SendN 3, SendEAGAIN]"
  let ?d = "[0x41, 0x9a] :: u8 list"
  obtain c' w' where e: "tap_publish_client 200 True (ex_pub 5) 1 ?d ?c ?w = Some (c', w')"
    "tc_active c'" "pending c' = [1, 0x41, 0x9a]"
    by (simp add: tap_eval pending_def)
  have "slot_ok ?c" "tc_active ?c" "tc_stream_id ?c = 1" "tc_fd ?c = 7"
    by (simp_all add: tap_eval slot_ok_def)
  moreover have "unit_bytes ?d (tap_checked 200 True (ex_pub 5) ?d ?c) = [0, 0, 0, 1, 0x41, 0x9a]"
    "pending (tap_checked 200 True (ex_pub 5) ?d ?c) = []" "sent_to 7 ?w = []"
    by (simp_all add: tap_eval tap_checked_def pending_def)
  ultimately have "sent_to 7 w' @ pending c' = [0, 0, 0, 1, 0x41, 0x9a] \<or>
      sent_to 7 w' @ pending c' = []"
    using publish_conserves [OF e(1) _ _ _ e(2)] by (auto simp: Let_def)
  then show ?thesis using e by auto
qed

lemma tap_flush_need_idr:
  assumes "tap_flush_out_buf c w = Some (b, c', w')" and "slot_ok c" "tc_active c'"
  shows "tc_need_idr c' = tc_need_idr c"
proof -
  have f: "flush_with client_close (\<lambda>c. c) c w = Some (b, c', w')" "tc_active c" "slot_ok c"
    using assms tap_send.flush_active [OF assms(1)] by (simp_all add: tap_flush_out_buf_def)
  from f show ?thesis
  proof (cases rule: flush_with_cases)
    case broken
    then show ?thesis using tap_close.cl_inactive assms(3) by blast
  qed simp_all
qed

lemma tap_prepare_need_idr:
  assumes "tap_prepare ms dti e data c w = Some (b, c1, w1)" and "slot_ok c" "tc_active c1" "tc_need_idr c"
  shows "tc_need_idr c1 \<and> slot_ok c1"
proof -
  let ?d = "tap_checked ms dti e data c"
  have d: "slot_ok ?d" "tc_need_idr ?d"
    using assms(2,4) by (simp_all add: tap_checked_def drop_stalled_def Let_def slot_ok_def)
  show ?thesis
  proof (cases "length (tc_out ?d) > tc_out_off ?d")
    case True
    then have "tap_flush_out_buf ?d w = Some (b, c1, w1)"
      using assms(1) by (simp add: tap_prepare_def tap_checked_def Let_def)
    then show ?thesis
      using tap_flush_need_idr [OF _ d(1) assms(3)] tap_send.flush_slot_ok [OF _ d(1)] d by blast
  qed (use assms(1) d in \<open>auto simp: tap_prepare_def tap_checked_def Let_def\<close>)
qed

text \<open>C25: recovery ends only with an IDR that leaves in one go: a subscriber that awaits an
  IDR still awaits it after a publish whose unit is no IDR, and also after one that sent its
  IDR only in part.\<close>

theorem recovery_persists:
  assumes "tap_publish_client ms dti e sid data c w = Some (c', w')"
    and "slot_ok c" "tc_active c'" "tc_need_idr c"
    and "\<not> annexb_contains_nal_type data 5 \<or> pending c' \<noteq> []"
  shows "tc_need_idr c'"
proof (cases "tc_active c \<and> tc_stream_id c = sid")
  case True
  then have "tc_active c" "tc_stream_id c = sid" by auto
  from assms(1) this show ?thesis
  proof (cases rule: publish_client_halves)
    case busy
    then show ?thesis using tap_prepare_need_idr assms by blast
  next
    case (offered c1 w1)
    have a1: "tc_active c1" using tap_offer_active [OF offered(2) assms(3)] .
    have c1: "tc_need_idr c1" "slot_ok c1"
      using tap_prepare_need_idr [OF offered(1) assms(2) a1 assms(4)] by auto
    from offered(2) show ?thesis
    proof (cases rule: tap_offer_cases)
      case (sent b c3)
      have ok: "slot_ok ((ensure_out_buf (pe_out_ok e) (unit_size data c1) c1)
          \<lparr>tc_out := unit_bytes data c1, tc_out_off := 0, tc_out_start_ns := pe_start e\<rparr>)"
        using sent(2) by (simp add: slot_ok_def length_unit_bytes)
      have "tc_need_idr c3"
        using tap_flush_need_idr [OF sent(3) ok] assms(3) sent(4) c1 by (auto split: if_splits)
      then show ?thesis using sent(4) assms(5) by (auto simp: pending_def split: if_splits)
    qed (use c1 in simp_all)
  qed
qed (use assms in \<open>auto simp: tap_publish_client_def split: if_splits\<close>)

text \<open>In the witness the recovery IDR is sent in two parts; the second publish sends the rest
  and drops its own unit.\<close>

theorem recovery_persists_witness:
  "let c = (ex_tap_client 7 1)\<lparr>tc_need_idr := True\<rparr>; w = ex_tap_net [SendN 3, SendEAGAIN];
       idr = [0, 0, 0, 1, 0x65, 0x88] in
   \<exists>c' w'. tap_publish_client 200 True (ex_pub 5) 1 idr c w = Some (c', w') \<and>
     annexb_contains_nal_type idr 5 \<and> tc_need_idr c'"
proof -
  let ?c = "(ex_tap_client 7 1)\<lparr>tc_need_idr := True\<rparr>" and ?w = "ex_tap_net [SendN 3, SendEAGAIN]"
  let ?d = "[0, 0, 0, 1, 0x65, 0x88] :: u8 list"
  have i: "annexb_contains_nal_type ?d 5"
    by (simp add: annexb_contains_nal_type_def annexb_scan.simps nal_type_of_def)
  obtain c' w' where e: "tap_publish_client 200 True (ex_pub 5) 1 ?d ?c ?w = Some (c', w')"
    "tc_active c'" "pending c' = [1, 0x65, 0x88]"
    by (simp add: tap_eval annexb_scan.simps pending_def)
  have "tc_need_idr c'"
    by (rule recovery_persists [OF e(1) _ e(2)]) (simp_all add: e(3), simp_all add: tap_eval slot_ok_def)
  then show ?thesis using e i by auto
qed

section \<open>Descriptors over the life of the tap\<close>

text \<open>
  The runs of the tap: it is started while it does not run, connections are accepted and units
  published while it runs, and it is stopped. The first component lists every descriptor the
  kernel handed to it (the listening socket and the accepted ones).
\<close>

inductive tap_step ::
  "int list \<times> tap \<times> tap_net \<Rightarrow> int list \<times> tap \<times> tap_net \<Rightarrow> bool"
where
  step_start: "\<not> tap_running t \<Longrightarrow> h264_tap_start e ip port t w = (rc, t', w') \<Longrightarrow>
    tap_step (opened, t, w)
      (if port \<noteq> 0 \<and> se_socket e \<ge> 0 then opened @ [se_socket e] else opened, t', w')"
| step_accept: "tap_running t \<Longrightarrow> 0 \<le> fd \<Longrightarrow> tap_accept fd r p1 p2 t w = (t', w') \<Longrightarrow>
    tap_step (opened, t, w) (opened @ [fd], t', w')"
| step_publish: "h264_tap_publish e sid data t w = Some (t', w') \<Longrightarrow>
    tap_step (opened, t, w) (opened, t', w')"
| step_stop: "h264_tap_stop t w = (t', w') \<Longrightarrow> tap_step (opened, t, w) (opened, t', w')"

definition tap_initial :: "int list \<times> tap \<times> tap_net \<Rightarrow> bool" where
  "tap_initial = (\<lambda>(opened, t, w). opened = [] \<and> \<not> tap_running t \<and>
     tap_clients t = replicate TAP_MAX_CLIENTS zero_client \<and> tn_closed w = [])"

definition tap_inv :: "int list \<times> tap \<times> tap_net \<Rightarrow> bool" where
  "tap_inv = (\<lambda>(opened, t, w). slots_ok (tap_clients t) \<and>
     length (tap_clients t) = TAP_MAX_CLIENTS \<and>
     (tap_running t \<longrightarrow> 0 \<le> tap_listen_fd t) \<and>
     (\<not> tap_running t \<longrightarrow> owns_all (tap_clients t) = {#}) \<and>
     mset opened = owns_all (tap_clients t) +
       (if tap_running t then {#tap_listen_fd t#} else {#}) + mset (tn_closed w))"

inductive tap_reachable :: "int list \<times> tap \<times> tap_net \<Rightarrow> bool" where
  reach_init: "tap_initial p \<Longrightarrow> tap_reachable p"
| reach_step: "tap_reachable p \<Longrightarrow> tap_step p q \<Longrightarrow> tap_reachable q"

lemma zero_client_simps [simp]: "slot_ok zero_client" "fd_ok zero_client" "owns zero_client = {#}"
  by (simp_all add: zero_client_def slot_ok_def fd_ok_def owns_def)

lemma zero_clients [simp]:
  "slots_ok (replicate n zero_client)" "owns_all (replicate n zero_client) = {#}"
  by (induction n) simp_all

lemma owns_frame [simp]:
  "owns (tap_checked ms dti e data c) = owns c" "fd_ok (tap_checked ms dti e data c) = fd_ok c"
  by (simp_all add: owns_def fd_ok_def)

lemma tap_offer_balance:
  assumes "tap_offer e data idr c w = Some (c', w')" and "slot_ok c" "fd_ok c"
  shows "slot_ok c' \<and> fd_ok c' \<and> owns c' + mset (tn_closed w') = owns c + mset (tn_closed w)"
  using assms(1)
proof (cases rule: tap_offer_cases)
  case oom
  then show ?thesis using assms(2,3) by (simp add: fd_ok_def owns_def)
next
  case (sent b c3)
  let ?c2 = "(ensure_out_buf (pe_out_ok e) (unit_size data c) c)
      \<lparr>tc_out := unit_bytes data c, tc_out_off := 0, tc_out_start_ns := pe_start e\<rparr>"
  have "slot_ok ?c2" using sent(2) by (simp add: slot_ok_def length_unit_bytes)
  moreover have "fd_ok ?c2" "owns ?c2 = owns c" using assms(3) by (simp_all add: fd_ok_def owns_def)
  ultimately show ?thesis
    using tap_flush_balance [OF sent(3)] sent(4) by (auto simp: slot_ok_def fd_ok_def owns_def)
qed (use assms in simp_all)

lemma tap_publish_client_balance:
  assumes "tap_publish_client ms dti e sid data c w = Some (c', w')" and "slot_ok c" "fd_ok c"
  shows "slot_ok c' \<and> fd_ok c' \<and> owns c' + mset (tn_closed w') = owns c + mset (tn_closed w)"
proof (cases "tc_active c \<and> tc_stream_id c = sid")
  case True
  let ?d = "tap_checked ms dti e data c"
  obtain b c1 w1 where p: "tap_prepare ms dti e data c w = Some (b, c1, w1)"
    using assms(1) True by (auto simp: tap_publish_client_def split: option.splits)
  have 1: "slot_ok c1 \<and> fd_ok c1 \<and> owns c1 + mset (tn_closed w1) = owns c + mset (tn_closed w)"
    using p assms(2,3) tap_flush_balance [of ?d w b c1 w1]
    by (auto simp: tap_prepare_def tap_checked_def [symmetric] Let_def split: if_splits)
  show ?thesis
    using assms(1) True p 1 tap_offer_balance [of e data _ c1 w1 c' w']
    by (auto simp: tap_publish_client_def split: if_splits)
qed (use assms in \<open>auto simp: tap_publish_client_def split: if_splits\<close>)

lemma tap_publish_slots_balance:
  "tap_publish_slots ms dti e sid data i cs w = Some (cs', w') \<Longrightarrow> slots_ok cs \<Longrightarrow>
   slots_ok cs' \<and> length cs' = length cs \<and>
   owns_all cs' + mset (tn_closed w') = owns_all cs + mset (tn_closed w)"
proof (induction cs arbitrary: i w cs' w')
  case (Cons c cs)
  obtain c1 w1 cs2 w2 where 1: "tap_publish_client ms dti (e i) sid data c w = Some (c1, w1)"
    and 2: "tap_publish_slots ms dti e sid data (i + 1) cs w1 = Some (cs2, w2)"
    and r: "cs' = c1 # cs2" "w' = w2"
    using Cons.prems(1) by (auto split: option.splits)
  have b: "slot_ok c1 \<and> fd_ok c1 \<and> owns c1 + mset (tn_closed w1) = owns c + mset (tn_closed w)"
    using tap_publish_client_balance [OF 1] Cons.prems(2) by simp
  have i: "slots_ok cs2" "length cs2 = length cs"
    "owns_all cs2 + mset (tn_closed w2) = owns_all cs + mset (tn_closed w1)"
    using Cons.IH [OF 2] Cons.prems(2) by auto
  have "owns_all cs' + mset (tn_closed w') = owns c1 + (owns_all cs2 + mset (tn_closed w2))"
    by (simp add: r)
  also have "\<dots> = owns_all cs + (owns c1 + mset (tn_closed w1))" by (simp add: i(3))
  also have "\<dots> = owns_all (c # cs) + mset (tn_closed w)" using b by simp
  finally show ?case using b i r by simp
qed simp

lemma close_active_balance:
  "close_active cs w = (cs', w') \<Longrightarrow> slots_ok cs \<Longrightarrow>
   slots_ok cs' \<and> length cs' = length cs \<and> owns_all cs' = {#} \<and>
   mset (tn_closed w') = owns_all cs + mset (tn_closed w)"
proof (induction cs arbitrary: w cs' w')
  case (Cons c cs)
  obtain c1 w1 where 1: "(if tc_active c then client_close c w else (c, w)) = (c1, w1)"
    by (metis prod.exhaust)
  obtain cs2 w2 where 2: "close_active cs w1 = (cs2, w2)" by (metis prod.exhaust)
  have b: "slot_ok c1 \<and> fd_ok c1 \<and> owns c1 = {#} \<and> mset (tn_closed w1) = owns c + mset (tn_closed w)"
    using 1 Cons.prems(2) tap_close.cl_balance [of c w c1 w1] tap_close.cl_inactive [of c w c1 w1]
    by (auto simp: owns_def split: if_splits)
  then show ?case using Cons.IH [OF 2] Cons.prems 1 2 by (auto simp: ac_simps split: prod.splits)
qed simp

lemma tap_accept_balance:
  assumes "tap_accept fd r p1 p2 t w = (t', w')" and "slots_ok (tap_clients t)" "0 \<le> fd"
  shows "slots_ok (tap_clients t') \<and> length (tap_clients t') = length (tap_clients t) \<and>
    tap_running t' = tap_running t \<and> tap_listen_fd t' = tap_listen_fd t \<and>
    owns_all (tap_clients t') + mset (tn_closed w') =
      add_mset fd (owns_all (tap_clients t) + mset (tn_closed w))"
proof -
  let ?fill = "subscribe_slot fd (read_subscribe_stream_id r)"
  have fill: "\<And>c. tc_active (?fill c)" "\<And>c. tc_fd (?fill c) = fd" "\<And>c. slot_ok (?fill c) = slot_ok c"
    by (simp_all add: subscribe_slot_def slot_ok_def)
  obtain cs1 w1 where 1: "prune_slots client_close p1 0 (tap_clients t) w = (cs1, w1)" by (metis prod.exhaust)
  obtain cs3 w3 where 3: "prune_slots client_close p2 0 cs1 w1 = (cs3, w3)" by (metis prod.exhaust)
  note B1 = tap_close.prune_slots_balance [OF 1 assms(2)]
  note B3 = tap_close.prune_slots_balance [OF 3]
  note P = place_slot_balance [of ?fill _ _ fd, OF _ _ assms(3) fill]
  show ?thesis
    using assms(1) 1 3 B1 B3 P [of cs1] P [of cs3]
    by (auto simp: tap_accept_def Let_def split: option.splits)
qed

lemma tap_start_inv:
  assumes "h264_tap_start e ip port t w = (rc, t', w')" and "\<not> tap_running t" "tap_inv (opened, t, w)"
  shows "tap_inv (if port \<noteq> 0 \<and> se_socket e \<ge> 0 then opened @ [se_socket e] else opened, t', w')"
  using assms by (auto simp: h264_tap_start_def Let_def tap_inv_def split: if_splits)

lemma tap_stop_inv:
  assumes "h264_tap_stop t w = (t', w')" and "tap_inv (opened, t, w)"
  shows "tap_inv (opened, t', w')" "mset opened = mset (tn_closed w')" "\<not> tap_running t'"
proof -
  have "tap_inv (opened, t', w') \<and> mset opened = mset (tn_closed w') \<and> \<not> tap_running t'"
  proof (cases "tap_running t")
    case True
    obtain cs w2 where c: "close_active (tap_clients t) (w\<lparr>tn_closed := tn_closed w @ [tap_listen_fd t]\<rparr>) = (cs, w2)"
      by (metis prod.exhaust)
    show ?thesis
      using assms True c close_active_balance [OF c]
      by (auto simp: h264_tap_stop_def tap_inv_def)
  qed (use assms in \<open>simp add: h264_tap_stop_def tap_inv_def\<close>)
  then show "tap_inv (opened, t', w')" "mset opened = mset (tn_closed w')" "\<not> tap_running t'" by auto
qed

lemma h264_tap_publish_cases:
  assumes "h264_tap_publish e sid data t w = Some (t', w')"
  obtains (nothing) "t' = t" "w' = w"
  | (slots) d cs where "tap_running t"
      "tap_publish_slots (tap_stall_ms t) (tap_drop_to_idr t) e sid d 0 (tap_clients t) w = Some (cs, w')"
      "t' = t\<lparr>tap_clients := cs\<rparr>"
proof (cases data)
  case None
  then show ?thesis using assms by - (rule nothing, simp_all add: h264_tap_publish_def)
next
  case (Some d)
  show ?thesis
  proof (cases "\<not> tap_running t \<or> length d = 0")
    case True
    then show ?thesis using assms Some by - (rule nothing, simp_all add: h264_tap_publish_def)
  next
    case False
    then obtain cs where "tap_publish_slots (tap_stall_ms t) (tap_drop_to_idr t) e sid d 0
        (tap_clients t) w = Some (cs, w')" "t' = t\<lparr>tap_clients := cs\<rparr>"
      using assms Some by (auto simp: h264_tap_publish_def)
    then show ?thesis using False by - (rule slots, simp_all)
  qed
qed

lemma tap_step_inv:
  assumes "tap_step p q" and "tap_inv p"
  shows "tap_inv q"
  using assms(1)
proof (cases rule: tap_step.cases)
  case (step_start t e ip port w rc t' w' opened)
  then show ?thesis using tap_start_inv assms(2) by blast
next
  case (step_accept t fd r p1 p2 w t' w' opened)
  let ?l = "{#tap_listen_fd t#}"
  have i: "slots_ok (tap_clients t)" "length (tap_clients t) = TAP_MAX_CLIENTS" "0 \<le> tap_listen_fd t"
    "mset opened = owns_all (tap_clients t) + ?l + mset (tn_closed w)"
    using assms(2) step_accept(1,3) by (simp_all add: tap_inv_def)
  obtain B: "slots_ok (tap_clients t')" "length (tap_clients t') = length (tap_clients t)"
      "tap_running t' = tap_running t" "tap_listen_fd t' = tap_listen_fd t"
      "owns_all (tap_clients t') + mset (tn_closed w') =
        add_mset fd (owns_all (tap_clients t) + mset (tn_closed w))"
    using tap_accept_balance [OF step_accept(5) i(1) step_accept(4)] by blast
  have "mset (opened @ [fd]) = add_mset fd (owns_all (tap_clients t) + mset (tn_closed w)) + ?l"
    by (simp add: i(4) add_ac)
  also have "\<dots> = owns_all (tap_clients t') + ?l + mset (tn_closed w')"
    unfolding B(5) [symmetric] by (simp add: add_ac)
  finally have E: "mset (opened @ [fd]) = owns_all (tap_clients t') + ?l + mset (tn_closed w')" .
  show ?thesis
    unfolding step_accept(2) tap_inv_def using E B(1-4) i(2,3) step_accept(3) by simp
next
  case (step_publish e sid data t w t' w' opened)
  have i: "slots_ok (tap_clients t)" using assms(2) step_publish(1) by (simp add: tap_inv_def)
  from step_publish(3) show ?thesis
  proof (cases rule: h264_tap_publish_cases)
    case (slots d cs)
    have B: "slots_ok cs" "length cs = length (tap_clients t)"
      "owns_all cs + mset (tn_closed w') = owns_all (tap_clients t) + mset (tn_closed w)"
      using tap_publish_slots_balance [OF slots(2) i] by blast+
    have "mset opened = {#tap_listen_fd t#} + (owns_all (tap_clients t) + mset (tn_closed w))"
      and I: "length (tap_clients t) = TAP_MAX_CLIENTS" "0 \<le> tap_listen_fd t"
      using assms(2) step_publish(1) slots(1) by (simp_all add: tap_inv_def)
    then have "mset opened = owns_all cs + {#tap_listen_fd t#} + mset (tn_closed w')"
      unfolding B(3) [symmetric] by simp
    then show ?thesis
      using B(1,2) I slots(1) unfolding step_publish(2) slots(3) tap_inv_def by simp
  qed (use assms(2) step_publish(1,2) in simp)
next
  case (step_stop t w t' w' opened)
  then show ?thesis using tap_stop_inv(1) assms(2) by blast
qed

lemma tap_reachable_inv: "tap_reachable p \<Longrightarrow> tap_inv p"
  by (induction rule: tap_reachable.induct)
    (auto simp: tap_initial_def tap_inv_def dest: tap_step_inv)

text \<open>C18: the tap neither leaks nor closes twice a descriptor: in every reachable state each
  descriptor the kernel handed out is owned by exactly one slot or the listener, or was closed,
  as often as it was handed out; after a stop all of them have been closed.\<close>

theorem tap_descriptors:
  assumes "tap_reachable (opened, t, w)"
  shows "mset opened = owns_all (tap_clients t) +
      (if tap_running t then {#tap_listen_fd t#} else {#}) + mset (tn_closed w) \<and>
    mset (tn_closed (snd (h264_tap_stop t w))) = mset opened"
proof -
  have i: "tap_inv (opened, t, w)" using tap_reachable_inv [OF assms] .
  obtain t' w' where "h264_tap_stop t w = (t', w')" by (metis prod.exhaust)
  then show ?thesis using tap_stop_inv(2) [OF _ i] i by (simp add: tap_inv_def)
qed

theorem tap_descriptors_witness:
  "\<exists>t w. tap_reachable ([3, 7], t, w) \<and> mset (tn_closed (snd (h264_tap_stop t w))) = {#3, 7#}"
proof -
  let ?t0 = "\<lparr>tap_listen_fd = 0, tap_running = False, tap_clients = replicate TAP_MAX_CLIENTS zero_client,
    tap_stall_ms = 200, tap_drop_to_idr = True\<rparr>" and ?w0 = "ex_tap_net []"
  let ?e = "\<lparr>se_stall = None, se_drop = None, se_socket = 3, se_pton = \<lambda>_. True, se_bind_ok = True,
    se_listen_ok = True, se_thread_ok = True\<rparr>"
  obtain rc t1 w1 where 1: "h264_tap_start ?e None 9000 ?t0 ?w0 = (rc, t1, w1)" by (metis prod.exhaust)
  have run: "tap_running t1" using 1 by (auto simp: h264_tap_start_def)
  obtain t2 w2 where 2: "tap_accept 7 (Some ''SUB 2'') (\<lambda>_. PeekEAGAIN) (\<lambda>_. PeekEAGAIN) t1 w1 = (t2, w2)"
    by (metis prod.exhaust)
  have "tap_reachable ([], ?t0, ?w0)"
    by (rule reach_init) (simp add: tap_initial_def ex_tap_net_def)
  from reach_step [OF this step_start [OF _ 1]] have "tap_reachable ([3], t1, w1)" by simp
  from reach_step [OF this step_accept [OF run _ 2]] have r: "tap_reachable ([3, 7], t2, w2)" by simp
  have "mset (tn_closed (snd (h264_tap_stop t2 w2))) = mset [3, 7]"
    using tap_descriptors [OF r] by blast
  then have "mset (tn_closed (snd (h264_tap_stop t2 w2))) = {#3, 7#}" by simp
  with r show ?thesis by blast
qed

text \<open>a slot whose subscriber is lost while old data is flushed is filled again by the same
  publish: it is inactive but keeps the unit, and the next subscriber placed in it, of whatever
  stream, starts with that unit pending.\<close>

theorem lost_slot_keeps_unit:
  assumes "tap_publish_client ms dti e sid data c w = Some (c', w')"
    and "tc_active c" "tc_stream_id c = sid"
    and "tap_prepare ms dti e data c w = Some (True, c1, w1)"
    and "\<not> tc_active c1" "\<not> tc_need_idr c1" "pe_out_ok e"
  shows "\<not> tc_active c' \<and> pending (subscribe_slot fd sid' c') = unit_bytes data c1"
proof -
  have "tap_offer e data (annexb_contains_nal_type data 5) c1 w1 = Some (c', w')"
    using assms(1-4) by (simp add: tap_publish_client_def)
  then show ?thesis
  proof (cases rule: tap_offer_cases)
    case (sent b c3)
    have "c3 = (ensure_out_buf (pe_out_ok e) (unit_size data c1) c1)
        \<lparr>tc_out := unit_bytes data c1, tc_out_off := 0, tc_out_start_ns := pe_start e\<rparr>"
      using tap_send.flush_dead [OF sent(3)] assms(5) by simp
    then show ?thesis using sent(4) assms(5,6) by (simp add: subscribe_slot_def pending_def)
  qed (use assms in simp_all)
qed

theorem lost_slot_keeps_unit_witness:
  "let c = (ex_tap_client 7 1)\<lparr>tc_out := [9, 9], tc_out_cap := 262144, tc_out_start_ns := 4\<rparr> in
   \<exists>c' w'. tap_publish_client 200 True (ex_pub 5) 1 [0, 0, 1, 0x41] c (ex_tap_net [SendFail]) = Some (c', w') \<and>
     \<not> tc_active c' \<and> pending (subscribe_slot 8 2 c') = [0, 0, 1, 0x41]"
proof -
  let ?c = "(ex_tap_client 7 1)\<lparr>tc_out := [9, 9], tc_out_cap := 262144, tc_out_start_ns := 4\<rparr>"
  let ?w = "ex_tap_net [SendFail]" and ?d = "[0, 0, 1, 0x41] :: u8 list"
  obtain c1 w1 where p: "tap_prepare 200 True (ex_pub 5) ?d ?c ?w = Some (True, c1, w1)"
      "\<not> tc_active c1" "\<not> tc_need_idr c1" "unit_bytes ?d c1 = ?d"
    by (simp add: tap_eval)
  obtain c' w' where q: "tap_publish_client 200 True (ex_pub 5) 1 ?d ?c ?w = Some (c', w')"
    by (simp add: tap_eval annexb_scan.simps)
  have "\<not> tc_active c' \<and> pending (subscribe_slot 8 2 c') = unit_bytes ?d c1"
    by (rule lost_slot_keeps_unit [OF q _ _ p(1-3)]) (simp_all add: tap_ex_defs)
  then show ?thesis using q p(4) by auto
qed

text \<open>
  The clamp as the number it yields.
\<close>

lemma clamp_sid_value:
  assumes "1 \<le> hi" "hi < 65536"
  shows "unat (clamp_sid hi v) = nat (if v < 1 then 1 else if v > hi then hi else v)"
proof -
  have "unat (word_of_int k :: u16) = nat k" if "0 \<le> k" "k < 65536" for k
    using that by (simp add: unat_eq_nat_uint uint_word_of_int)
  then show ?thesis using assms by (auto simp: clamp_sid_def Let_def)
qed

text \<open>a subscription is never for stream 0 nor above 20, and the line \<open>SUB n\<close> selects
  stream \<open>n\<close> exactly when \<open>n\<close> is in that range.\<close>

theorem subscribe_line:
  "1 \<le> unat (read_subscribe_stream_id r) \<and> unat (read_subscribe_stream_id r) \<le> 20 \<and>
   (n < 1000 \<longrightarrow> unat (read_subscribe_stream_id (Some (''SUB '' @ show_nat n @ [CHR 0x0A]))) =
      (if n < 1 then 1 else if n > 20 then 20 else n))"
proof -
  have "n < 1000 \<longrightarrow> read_subscribe_stream_id (Some (''SUB '' @ show_nat n @ [CHR 0x0A])) = clamp_sid 20 (int n)"
  proof
    assume n: "n < 1000"
    let ?s = "''SUB '' @ show_nat n @ [CHR 0x0A]"
    have "length (show_nat n) \<le> 3" using length_show_nat [of 3 n] n by simp
    then have "take 63 ?s = ?s" by simp
    moreover have "c_str ?s = ?s"
      by (rule c_str_id) (use nul_not_in_show_nat in simp)
    moreover have "scan_sub ?s = Some (int n)"
      using scan_lit_append [of "''SUB''" "CHR '' '' # show_nat n @ [CHR 0x0A]"]
        scan_d_show_nat [of n "[CHR 0x0A]"] n
      by (simp add: scan_sub_def scan_d_space c_isspace_def c_isdigit_def)
    ultimately show "read_subscribe_stream_id (Some ?s) = clamp_sid 20 (int n)"
      unfolding read_subscribe_stream_id_def by (simp del: append.simps)
  qed
  then show ?thesis
    using clamp_sid_value [of 20] by (auto simp: read_subscribe_stream_id_def split: option.split)
qed

theorem subscribe_line_witness:
  "unat (read_subscribe_stream_id (Some (''SUB '' @ show_nat 7 @ [CHR 0x0A]))) = 7"
  using subscribe_line [of None 7] by simp

end
