(* ===== verification/Sockets.thy ===== *)
theory Sockets
  imports Protocol
begin

text \<open>
  Blocking reads from a TCP connection. A connection is the bytes the peer sends before it
  closes and the schedule by which the kernel delivers them; \<open>recv_exact\<close> exists twice, in
  \<open>stream_server/src/server.c\<close> and in \<open>strem_agent_server/src/tcp_util.c\<close>. The locale
  \<open>byte_reader\<close> is what both promise their callers: the schedule is invisible, a successful
  read returns the next bytes of the stream.
\<close>

section \<open>Connections\<close>

text \<open>
  One answer of \<open>recv\<close>: \<open>Deliver k\<close> hands over at most \<open>k + 1\<close> of the pending bytes (and is
  end of file when none are left), the others are the error returns the code tells apart.
\<close>

datatype recv_event = Deliver nat | RecvEINTR | RecvTimeout | RecvFail

record conn =
  c_pending :: "u8 list"
  c_schedule :: "recv_event list"

section \<open>recv_exact of stream_server\<close>

fun recv_exact_loop ::
  "recv_event list \<Rightarrow> u8 list \<Rightarrow> nat \<Rightarrow> u8 list \<Rightarrow> (int \<times> u8 list \<times> u8 list \<times> recv_event list) option"
where
  "recv_exact_loop [] pend n got = (if length got < n then None else Some (0, got, pend, []))"
| "recv_exact_loop (ev # evs) pend n got =
     (if length got < n then
        (case ev of
           Deliver k \<Rightarrow>
             let r = min (Suc k) (min (n - length got) (length pend)) in
             if r > 0 then recv_exact_loop evs (drop r pend) n (got @ take r pend)
             else Some (- 1, got, pend, evs)
         | RecvEINTR \<Rightarrow> recv_exact_loop evs pend n got
         | RecvTimeout \<Rightarrow> Some (- 1, got, pend, evs)
         | RecvFail \<Rightarrow> Some (- 1, got, pend, evs))
      else Some (0, got, pend, ev # evs))"

definition recv_exact :: "nat \<Rightarrow> conn \<Rightarrow> (int \<times> u8 list \<times> conn) option" where
  "recv_exact n c = map_option (\<lambda>(rc, got, pend, evs). (rc, got, \<lparr>c_pending = pend, c_schedule = evs\<rparr>))
     (recv_exact_loop (c_schedule c) (c_pending c) n [])"

section \<open>recv_exact of strem_agent_server\<close>

text \<open>The agent's copy does not tell a timeout from another error.\<close>

fun agent_recv_loop ::
  "recv_event list \<Rightarrow> u8 list \<Rightarrow> nat \<Rightarrow> u8 list \<Rightarrow> (int \<times> u8 list \<times> u8 list \<times> recv_event list) option"
where
  "agent_recv_loop [] pend n got = (if length got < n then None else Some (0, got, pend, []))"
| "agent_recv_loop (ev # evs) pend n got =
     (if length got < n then
        (case ev of
           Deliver k \<Rightarrow>
             let r = min (Suc k) (min (n - length got) (length pend)) in
             if r > 0 then agent_recv_loop evs (drop r pend) n (got @ take r pend)
             else Some (- 1, got, pend, evs)
         | _ \<Rightarrow> if ev = RecvEINTR then agent_recv_loop evs pend n got
                else Some (- 1, got, pend, evs))
      else Some (0, got, pend, ev # evs))"

definition agent_recv_exact :: "nat \<Rightarrow> conn \<Rightarrow> (int \<times> u8 list \<times> conn) option" where
  "agent_recv_exact n c =
     map_option (\<lambda>(rc, got, pend, evs). (rc, got, \<lparr>c_pending = pend, c_schedule = evs\<rparr>))
       (agent_recv_loop (c_schedule c) (c_pending c) n [])"

lemma agent_recv_loop_eq: "agent_recv_loop evs pend n got = recv_exact_loop evs pend n got"
  by (induction evs pend n got rule: recv_exact_loop.induct)
    (auto simp: Let_def split: recv_event.split)

lemma recv_exact_loop_ok:
  assumes "recv_exact_loop evs pend n got = Some (rc, got', pend', evs')" and "length got \<le> n"
  shows "(rc = 0 \<and> length got' = n \<or> rc = - 1 \<and> length got' < n) \<and> got' @ pend' = got @ pend"
  using assms
proof (induction evs pend n got rule: recv_exact_loop.induct)
  case (2 ev evs pend n got)
  show ?case
  proof (cases "length got < n")
    case True
    show ?thesis
    proof (cases ev)
      case (Deliver k)
      let ?r = "min (Suc k) (min (n - length got) (length pend))"
      show ?thesis
      proof (cases "?r > 0")
        case pos: True
        then have "recv_exact_loop evs (drop ?r pend) n (got @ take ?r pend) = Some (rc, got', pend', evs')"
          using "2.prems" True Deliver by (simp add: Let_def)
        moreover have "length (got @ take ?r pend) \<le> n" using True by simp
        ultimately show ?thesis
          using "2.IH"(1) [OF True Deliver refl pos] by simp
      qed (use 2 True Deliver in \<open>auto simp: Let_def\<close>)
    qed (use 2 True in auto)
  qed (use 2 in auto)
qed (auto split: if_splits)

section \<open>The reader interface\<close>

locale byte_reader =
  fixes rd :: "nat \<Rightarrow> 's \<Rightarrow> (int \<times> u8 list \<times> 's) option"
    and pending :: "'s \<Rightarrow> u8 list"
  assumes rd_conserves: "rd n s = Some (rc, bs, s') \<Longrightarrow> pending s = bs @ pending s'"
    and rd_length: "rd n s = Some (rc, bs, s') \<Longrightarrow> rc = 0 \<and> length bs = n \<or> rc = - 1 \<and> length bs < n"
begin

lemma rd_exact:
  assumes "rd n s = Some (0, bs, s')"
  shows "bs = take n (pending s)" "pending s' = drop n (pending s)" "length bs = n"
  using rd_conserves [OF assms] rd_length [OF assms] by auto

lemma rd_prefix:
  assumes "rd n s = Some (rc, bs, s')" and "pending s = xs @ rest" and "length xs = n" and "\<not> rc < 0"
  shows "rc = 0" "bs = xs" "pending s' = rest"
  using rd_length [OF assms(1)] rd_conserves [OF assms(1)] assms(2-) by auto

text \<open>A record: a header of fixed size, then a payload whose size the header gives.\<close>

lemma rd_record:
  assumes "rd h s = Some (0, hdr, s1)" and "rd n s1 = Some (0, pl, s2)"
  shows "pending s = hdr @ pl @ pending s2" "length hdr = h" "length pl = n"
  using rd_conserves [OF assms(1)] rd_conserves [OF assms(2)] rd_length [OF assms(1)]
    rd_length [OF assms(2)] by auto

end

lemma recv_exact_laws:
  assumes "recv_exact n c = Some (rc, bs, c')"
  shows "c_pending c = bs @ c_pending c'" "rc = 0 \<and> length bs = n \<or> rc = - 1 \<and> length bs < n"
  using assms recv_exact_loop_ok [of "c_schedule c" "c_pending c" n "[]"]
  by (auto simp: recv_exact_def)

lemma agent_recv_exact_eq: "agent_recv_exact n c = recv_exact n c"
  by (simp add: agent_recv_exact_def recv_exact_def agent_recv_loop_eq)

interpretation server_read: byte_reader recv_exact c_pending
  by unfold_locales (fact recv_exact_laws)+

interpretation agent_read: byte_reader agent_recv_exact c_pending
  by unfold_locales (simp_all add: agent_recv_exact_eq recv_exact_laws)

text \<open>A connection whose schedule delivers everything; a read that fits returns, and leaves such.\<close>

definition is_Deliver :: "recv_event \<Rightarrow> bool" where
  "is_Deliver ev = (case ev of Deliver _ \<Rightarrow> True | _ \<Rightarrow> False)"

definition conn_full :: "conn \<Rightarrow> bool" where
  "conn_full c \<longleftrightarrow> length (c_pending c) \<le> length (c_schedule c) \<and> list_all is_Deliver (c_schedule c)"

lemma recv_exact_loop_returns:
  "n \<le> length got + length pend \<Longrightarrow> length pend \<le> length evs \<Longrightarrow> list_all is_Deliver evs \<Longrightarrow>
   \<exists>got' pend' evs'. recv_exact_loop evs pend n got = Some (0, got', pend', evs') \<and>
     length pend' \<le> length evs' \<and> list_all is_Deliver evs'"
proof (induction evs pend n got rule: recv_exact_loop.induct)
  case (2 ev evs pend n got)
  show ?case
  proof (cases "length got < n")
    case True
    then obtain k where k: "ev = Deliver k" using "2.prems"(3)
      by (auto simp: is_Deliver_def split: recv_event.splits)
    let ?r = "min (Suc k) (min (n - length got) (length pend))"
    have r: "?r > 0" using True "2.prems"(1) by auto
    have "\<exists>got' pend' evs'. recv_exact_loop evs (drop ?r pend) n (got @ take ?r pend) =
        Some (0, got', pend', evs') \<and> length pend' \<le> length evs' \<and> list_all is_Deliver evs'"
      using "2.IH"(1) [OF True k refl r] "2.prems" r by auto
    then show ?thesis using True k r by (simp add: Let_def)
  qed (use 2 in auto)
qed auto

lemma recv_exact_full:
  assumes "conn_full c" and "n \<le> length (c_pending c)"
  obtains c' where "recv_exact n c = Some (0, take n (c_pending c), c')" "conn_full c'"
    "c_pending c' = drop n (c_pending c)"
proof -
  obtain got pend evs where l: "recv_exact_loop (c_schedule c) (c_pending c) n [] = Some (0, got, pend, evs)"
    "length pend \<le> length evs" "list_all is_Deliver evs"
    using recv_exact_loop_returns [of n "[]" "c_pending c" "c_schedule c"] assms
    by (auto simp: conn_full_def)
  then have r: "recv_exact n c = Some (0, got, \<lparr>c_pending = pend, c_schedule = evs\<rparr>)"
    by (simp add: recv_exact_def)
  show ?thesis
    using that [of "\<lparr>c_pending = pend, c_schedule = evs\<rparr>"] r server_read.rd_exact [OF r] l(2,3)
    by (simp add: conn_full_def)
qed

end
