(* ===== verification/AgentTap.thy ===== *)
theory AgentTap
  imports Tap Sockets MlCtl
begin

text \<open>
  The H.264 tap of the agent (\<open>strem_agent_server/src/h264_tap.c\<close>). Against the tap of
  \<open>stream_server\<close> it adds the AUTH/SUB handshake, the parameter sets kept per stream for late
  joiners, the start in recovery, the IDR request sent to \<open>ml_worker\<close>, and the flag
  \<open>pending_idr\<close> that ends recovery when a recovery IDR has been sent in several parts.
\<close>

definition AGENT_MAX_STREAMS :: nat where "AGENT_MAX_STREAMS = 20"
definition AGENT_TAP_MAX_CLIENTS :: nat where "AGENT_TAP_MAX_CLIENTS = 16"

record AgentClient = TapClient +
  tc_pending_idr :: bool

record agent_tap =
  at_listen_fd :: int
  at_running :: bool
  at_clients :: "AgentClient list"
  at_sps :: "u16 \<Rightarrow> u8 list option"
  at_pps :: "u16 \<Rightarrow> u8 list option"
  at_stall_ms :: int
  at_drop_to_idr :: bool
  at_token :: string
  at_worker_ip :: string
  at_worker_port :: u16

section \<open>Configuration\<close>

definition h264_tap_set_worker_ctrl :: "string option \<Rightarrow> u16 \<Rightarrow> agent_tap \<Rightarrow> agent_tap" where
  "h264_tap_set_worker_ctrl ip port t = (case ip of
     None \<Rightarrow> t\<lparr>at_worker_ip := [], at_worker_port := 0\<rparr>
   | Some s \<Rightarrow>
       if s = [] \<or> port = 0 then t\<lparr>at_worker_ip := [], at_worker_port := 0\<rparr>
       else t\<lparr>at_worker_ip := snprintf_s 64 s, at_worker_port := port\<rparr>)"

definition h264_tap_set_token :: "string option \<Rightarrow> agent_tap \<Rightarrow> agent_tap" where
  "h264_tap_set_token token t = (case token of
     None \<Rightarrow> t\<lparr>at_token := []\<rparr> | Some s \<Rightarrow> t\<lparr>at_token := snprintf_s 256 s\<rparr>)"

text \<open>The datagram of \<open>request_idr_best_effort\<close> and its destination, if one is sent.\<close>

definition request_idr_best_effort :: "u64 \<Rightarrow> agent_tap \<Rightarrow> (string \<times> u16 \<times> u8 list) option" where
  "request_idr_best_effort now t =
     (if at_worker_ip t = [] \<or> at_worker_port t = 0 then None
      else Some (at_worker_ip t, at_worker_port t,
        cmd_bytes \<lparr>mc_magic = ML_CTRL_MAGIC, mc_version = ML_CTRL_VERSION, mc_type = 10,
          mc_a = 0, mc_b = 0, mc_c = 0, mc_d = 0, mc_seq = now\<rparr>))"

section \<open>Handshake\<close>

definition parse_sub_line :: "string \<Rightarrow> u16 option" where
  "parse_sub_line line = map_option (clamp_sid (int AGENT_MAX_STREAMS)) (scan_sub line)"

text \<open>
  The lines of the buffer, from \<open>start\<close>: refused, a subscription, or more input needed with the
  authentication state, the unfinished line, and whether a line was consumed.
\<close>

datatype hs_result = HsRefused | HsSub u16 | HsMore bool string bool

definition hs_trim :: "string \<Rightarrow> string" where
  "hs_trim = trim_right (\<lambda>c. c = CHR 0x0D \<or> c = CHR '' '' \<or> c = CHR 0x09)"

definition NL :: char where "NL = CHR 0x0A"

lemma after_line_shorter: "NL \<in> set s \<Longrightarrow> length (tl (dropWhile (\<lambda>c. c \<noteq> NL) s)) < length s"
  by (induction s) (auto simp: less_Suc_eq)

function hs_lines :: "string \<Rightarrow> bool \<Rightarrow> bool \<Rightarrow> string \<Rightarrow> hs_result" where
  "hs_lines token authed consumed s =
     (if NL \<notin> set s then HsMore authed s consumed
      else
        let line = hs_trim (takeWhile (\<lambda>c. c \<noteq> NL) s);
            rest = tl (dropWhile (\<lambda>c. c \<noteq> NL) s)
        in if \<not> authed then
             (if take 5 line \<noteq> ''AUTH '' then HsRefused
              else if drop 5 line \<noteq> token then HsRefused
              else hs_lines token True True rest)
           else (case parse_sub_line line of None \<Rightarrow> HsRefused | Some sid \<Rightarrow> HsSub sid))"
  by pat_completeness auto
termination
  by (relation "measure (\<lambda>(t, a, c, s). length s)") (simp_all add: after_line_shorter del: length_tl)

declare hs_lines.simps [simp del]

text \<open>
  \<open>do_handshake\<close>: every turn of the loop either finds the deadline passed or reads. \<open>buf\<close> is
  the buffer \<open>[0, len)\<close>, \<open>pend\<close> what the peer has still to deliver. The buffer holds 1023
  bytes; a read into a full buffer asks for none and is taken for end of file.
\<close>

datatype hs_event = HsDeadline | HsRecv recv_event

fun hs_loop :: "hs_event list \<Rightarrow> string \<Rightarrow> bool \<Rightarrow> string \<Rightarrow> string \<Rightarrow> (int \<times> u16) option" where
  "hs_loop [] token authed buf pend = None"
| "hs_loop (HsDeadline # evs) token authed buf pend = Some (- 1, 1)"
| "hs_loop (HsRecv RecvEINTR # evs) token authed buf pend = hs_loop evs token authed buf pend"
| "hs_loop (HsRecv RecvTimeout # evs) token authed buf pend = hs_loop evs token authed buf pend"
| "hs_loop (HsRecv RecvFail # evs) token authed buf pend = Some (- 1, 1)"
| "hs_loop (HsRecv (Deliver k) # evs) token authed buf pend =
     (let n = min (Suc k) (min (1023 - length buf) (length pend)) in
      if n = 0 then Some (- 1, 1)
      else
        let buf' = buf @ take n pend in
        (case hs_lines token authed False (c_str buf') of
           HsRefused \<Rightarrow> Some (- 1, 1)
         | HsSub sid \<Rightarrow> Some (0, sid)
         | HsMore authed' rest consumed \<Rightarrow>
             hs_loop evs token authed' (if consumed then rest else buf') (drop n pend)))"

definition do_handshake :: "hs_event list \<Rightarrow> string \<Rightarrow> string \<Rightarrow> (int \<times> u16) option" where
  "do_handshake evs token pend = hs_loop evs token (token = []) [] pend"

definition agent_read_subscribe_stream_id :: "hs_event list \<Rightarrow> string \<Rightarrow> string \<Rightarrow> u16 option" where
  "agent_read_subscribe_stream_id evs token pend =
     map_option (\<lambda>(rc, sid). if rc \<noteq> 0 then 0 else sid) (do_handshake evs token pend)"

section \<open>Parameter sets per stream\<close>

definition stream_known :: "u16 \<Rightarrow> bool" where
  "stream_known sid \<longleftrightarrow> \<not> (unat sid < 1 \<or> unat sid > AGENT_MAX_STREAMS)"

definition update_global_param_sets :: "bool \<Rightarrow> u16 \<Rightarrow> u8 list \<Rightarrow> agent_tap \<Rightarrow> agent_tap" where
  "update_global_param_sets alloc_ok sid data t =
     (if length data = 0 then t
      else if \<not> stream_known sid then t
      else if \<not> has_start_code data then t
      else if first_nal_type data \<noteq> 7 \<and> first_nal_type data \<noteq> 8 then t
      else if \<not> alloc_ok then t
      else if first_nal_type data = 7 then t\<lparr>at_sps := (at_sps t)(sid := Some data)\<rparr>
      else t\<lparr>at_pps := (at_pps t)(sid := Some data)\<rparr>)"

definition copy_param :: "bool \<Rightarrow> u8 list option \<Rightarrow> u8 list option \<Rightarrow> u8 list option" where
  "copy_param alloc_ok global own = (case global of
     Some d \<Rightarrow> if d \<noteq> [] \<and> alloc_ok then Some d else own | None \<Rightarrow> own)"

definition copy_global_param_sets_to_client ::
  "bool \<Rightarrow> bool \<Rightarrow> u16 \<Rightarrow> agent_tap \<Rightarrow> AgentClient \<Rightarrow> AgentClient" where
  "copy_global_param_sets_to_client sps_ok pps_ok sid t c =
     (if \<not> stream_known sid then c
      else c\<lparr>tc_sps := copy_param sps_ok (at_sps t sid) (tc_sps c),
             tc_pps := copy_param pps_ok (at_pps t sid) (tc_pps c)\<rparr>)"

section \<open>Subscribers\<close>

definition agent_zero_client :: AgentClient where
  "agent_zero_client = \<lparr>tc_fd = 0, tc_stream_id = 0, tc_active = False, tc_out = [], tc_out_cap = 0,
     tc_out_off = 0, tc_out_start_ns = 0, tc_need_idr = False, tc_sps = None, tc_pps = None,
     tc_pending_idr = False\<rparr>"

definition agent_client_close :: "AgentClient \<Rightarrow> tap_net \<Rightarrow> AgentClient \<times> tap_net" where
  "agent_client_close c w = ((reset_client c)\<lparr>tc_pending_idr := False\<rparr>, tap_close (tc_fd c) w)"

definition end_recovery :: "AgentClient \<Rightarrow> AgentClient" where
  "end_recovery c = (if tc_pending_idr c then c\<lparr>tc_pending_idr := False, tc_need_idr := False\<rparr> else c)"

definition agent_flush_out_buf ::
  "AgentClient \<Rightarrow> tap_net \<Rightarrow> (bool \<times> AgentClient \<times> tap_net) option" where
  "agent_flush_out_buf = flush_with agent_client_close end_recovery"

definition agent_prepare ::
  "int \<Rightarrow> bool \<Rightarrow> pub_env \<Rightarrow> u8 list \<Rightarrow> AgentClient \<Rightarrow> tap_net \<Rightarrow> (bool \<times> AgentClient \<times> tap_net) option"
where
  "agent_prepare stall_ms dti e data c w =
     (let c1 = maybe_cache_param_sets (pe_param_ok e) data c;
          c2 = drop_stalled stall_ms dti (pe_now e) c1
      in if length (tc_out c2) > tc_out_off c2 then agent_flush_out_buf c2 w else Some (True, c2, w))"

definition agent_offer ::
  "pub_env \<Rightarrow> u8 list \<Rightarrow> bool \<Rightarrow> AgentClient \<Rightarrow> tap_net \<Rightarrow> (AgentClient \<times> tap_net) option" where
  "agent_offer e data is_idr c w =
     (if tc_need_idr c \<and> \<not> is_idr then Some (c, w)
      else
        let total = unit_size data c;
            c1 = ensure_out_buf (pe_out_ok e) total c
        in if tc_out_cap c1 < total then Some (c1, w)
           else
             let c2 = c1\<lparr>tc_out := unit_bytes data c1, tc_out_off := 0, tc_out_start_ns := pe_start e\<rparr>;
                 c3 = (if tc_need_idr c2 \<and> is_idr then c2\<lparr>tc_pending_idr := True\<rparr> else c2)
             in map_option snd (agent_flush_out_buf c3 w))"

definition agent_publish_client ::
  "int \<Rightarrow> bool \<Rightarrow> pub_env \<Rightarrow> u16 \<Rightarrow> u8 list \<Rightarrow> AgentClient \<Rightarrow> tap_net \<Rightarrow> (AgentClient \<times> tap_net) option"
where
  "agent_publish_client stall_ms dti e stream_id data c w =
     (if \<not> tc_active c then Some (c, w)
      else if tc_stream_id c \<noteq> stream_id then Some (c, w)
      else case agent_prepare stall_ms dti e data c w of
             None \<Rightarrow> None
           | Some (cleared, c1, w1) \<Rightarrow>
               if \<not> cleared then Some (c1, w1)
               else agent_offer e data (annexb_contains_nal_type data 5) c1 w1)"

fun agent_publish_slots ::
  "int \<Rightarrow> bool \<Rightarrow> (nat \<Rightarrow> pub_env) \<Rightarrow> u16 \<Rightarrow> u8 list \<Rightarrow> nat \<Rightarrow> AgentClient list \<Rightarrow> tap_net \<Rightarrow>
   (AgentClient list \<times> tap_net) option"
where
  "agent_publish_slots stall_ms dti e stream_id data i [] w = Some ([], w)"
| "agent_publish_slots stall_ms dti e stream_id data i (c # cs) w =
     (case agent_publish_client stall_ms dti (e i) stream_id data c w of
        None \<Rightarrow> None
      | Some (c', w1) \<Rightarrow>
          map_option (\<lambda>(cs', w2). (c' # cs', w2))
            (agent_publish_slots stall_ms dti e stream_id data (i + 1) cs w1))"

definition agent_h264_tap_publish ::
  "bool \<Rightarrow> (nat \<Rightarrow> pub_env) \<Rightarrow> u16 \<Rightarrow> u8 list option \<Rightarrow> agent_tap \<Rightarrow> tap_net \<Rightarrow> (agent_tap \<times> tap_net) option"
where
  "agent_h264_tap_publish global_ok e stream_id data t w =
     (case data of None \<Rightarrow> Some (t, w) | Some d \<Rightarrow>
      if \<not> at_running t \<or> length d = 0 then Some (t, w)
      else
        let t1 = update_global_param_sets global_ok stream_id d t in
        map_option (\<lambda>(cs, w'). (t1\<lparr>at_clients := cs\<rparr>, w'))
          (agent_publish_slots (at_stall_ms t1) (at_drop_to_idr t1) e stream_id d 0 (at_clients t1) w))"

section \<open>Accepting\<close>

definition agent_fill :: "bool \<Rightarrow> bool \<Rightarrow> agent_tap \<Rightarrow> int \<Rightarrow> u16 \<Rightarrow> AgentClient \<Rightarrow> AgentClient" where
  "agent_fill sps_ok pps_ok t fd sid c =
     copy_global_param_sets_to_client sps_ok pps_ok sid t
       (c\<lparr>tc_fd := fd, tc_stream_id := sid, tc_active := True, tc_need_idr := True\<rparr>)"

record accept_env =
  ae_sps_ok :: bool
  ae_pps_ok :: bool
  ae_peek1 :: "nat \<Rightarrow> peek"
  ae_peek2 :: "nat \<Rightarrow> peek"
  ae_now :: u64

text \<open>
  A connection whose handshake ended with \<open>sid\<close>. The last component is the IDR request.
\<close>

definition agent_accept ::
  "accept_env \<Rightarrow> int \<Rightarrow> u16 \<Rightarrow> agent_tap \<Rightarrow> tap_net \<Rightarrow>
   agent_tap \<times> tap_net \<times> (string \<times> u16 \<times> u8 list) option" where
  "agent_accept e fd sid t w =
     (if sid = 0 then (t, w\<lparr>tn_closed := tn_closed w @ [fd]\<rparr>, None)
      else
        let fill = agent_fill (ae_sps_ok e) (ae_pps_ok e) t fd sid;
            (cs1, w1) = prune_slots agent_client_close (ae_peek1 e) 0 (at_clients t) w
        in case place_slot fill cs1 of
             Some cs2 \<Rightarrow> (t\<lparr>at_clients := cs2\<rparr>, w1, request_idr_best_effort (ae_now e) t)
           | None \<Rightarrow>
               (let (cs3, w3) = prune_slots agent_client_close (ae_peek2 e) 0 cs1 w1
                in case place_slot fill cs3 of
                     Some cs4 \<Rightarrow> (t\<lparr>at_clients := cs4\<rparr>, w3, request_idr_best_effort (ae_now e) t)
                   | None \<Rightarrow> (t\<lparr>at_clients := cs3\<rparr>, w3\<lparr>tn_closed := tn_closed w3 @ [fd]\<rparr>, None)))"

section \<open>Start and stop\<close>

definition agent_h264_tap_start ::
  "tap_start_env \<Rightarrow> string option \<Rightarrow> u16 \<Rightarrow> agent_tap \<Rightarrow> tap_net \<Rightarrow> int \<times> agent_tap \<times> tap_net" where
  "agent_h264_tap_start e bind_ip port t w =
     (if port = 0 then (0, t, w)
      else
        let t1 = t\<lparr>at_listen_fd := - 1, at_running := False,
                   at_clients := replicate AGENT_TAP_MAX_CLIENTS agent_zero_client,
                   at_sps := \<lambda>_. None, at_pps := \<lambda>_. None,
                   at_stall_ms := tap_stall_config (se_stall e) (at_stall_ms t),
                   at_drop_to_idr := tap_drop_config (se_drop e) (at_drop_to_idr t)\<rparr>;
            ip = (case bind_ip of None \<Rightarrow> ''127.0.0.1''
                    | Some s \<Rightarrow> if s = [] then ''127.0.0.1'' else s);
            fd = se_socket e;
            w_closed = w\<lparr>tn_closed := tn_closed w @ [fd]\<rparr>
        in if fd < 0 then (- 1, t1, w)
           else if \<not> se_pton e ip then (- 1, t1, w_closed)
           else if \<not> se_bind_ok e then (- 1, t1, w_closed)
           else if \<not> se_listen_ok e then (- 1, t1, w_closed)
           else if \<not> se_thread_ok e then (- 1, t1, w_closed)
           else (0, t1\<lparr>at_listen_fd := fd, at_running := True\<rparr>, w))"

fun agent_close_active :: "AgentClient list \<Rightarrow> tap_net \<Rightarrow> AgentClient list \<times> tap_net" where
  "agent_close_active [] w = ([], w)"
| "agent_close_active (c # cs) w =
     (let (c', w1) = (if tc_active c then agent_client_close c w else (c, w));
          (cs', w2) = agent_close_active cs w1
      in (c' # cs', w2))"

definition agent_h264_tap_stop :: "agent_tap \<Rightarrow> tap_net \<Rightarrow> agent_tap \<times> tap_net" where
  "agent_h264_tap_stop t w =
     (if \<not> at_running t then (t, w)
      else
        let (fd', w1) = (if at_listen_fd t \<ge> 0
                         then (- 1, w\<lparr>tn_closed := tn_closed w @ [at_listen_fd t]\<rparr>)
                         else (at_listen_fd t, w));
            (cs, w2) = agent_close_active (at_clients t) w1
        in (t\<lparr>at_running := False, at_listen_fd := fd', at_clients := cs\<rparr>, w2))"

section \<open>Interfaces discharged\<close>

interpretation agent_close: slot_closer agent_client_close
  by unfold_locales
    (auto simp: agent_client_close_def tap_close_def reset_client_def slot_ok_def split: if_splits)

interpretation agent_send: unit_sender agent_flush_out_buf
  unfolding agent_flush_out_buf_def
  by (rule unit_sender_flush_with) (auto simp: end_recovery_def dest: agent_close.cl_inactive)

section \<open>The handshake\<close>

lemma takeWhile_append_in: "x \<in> set s \<Longrightarrow> \<not> P x \<Longrightarrow> takeWhile P (s @ t) = takeWhile P s"
  by (simp add: takeWhile_append1)

lemma after_line_append:
  "NL \<in> set s \<Longrightarrow> tl (dropWhile (\<lambda>c. c \<noteq> NL) (s @ t)) = tl (dropWhile (\<lambda>c. c \<noteq> NL) s) @ t"
  by (induction s) auto

text \<open>Splitting the input between two reads does not change what the lines mean.\<close>

lemma hs_lines_append:
  "hs_lines token authed consumed (s @ t) = (case hs_lines token authed consumed s of
     HsRefused \<Rightarrow> HsRefused | HsSub sid \<Rightarrow> HsSub sid
   | HsMore authed' rest consumed' \<Rightarrow> hs_lines token authed' consumed' (rest @ t))"
proof (induction token authed consumed s rule: hs_lines.induct)
  case (1 token authed consumed s)
  show ?case
  proof (cases "NL \<in> set s")
    case True
    have tw: "takeWhile (\<lambda>c. c \<noteq> NL) (s @ t) = takeWhile (\<lambda>c. c \<noteq> NL) s"
      using True by (rule takeWhile_append_in) simp
    let ?line = "hs_trim (takeWhile (\<lambda>c. c \<noteq> NL) s)"
    show ?thesis
    proof (cases "\<not> authed \<and> take 5 ?line = ''AUTH '' \<and> drop 5 ?line = token")
      case auth: True
      have "hs_lines token True True (tl (dropWhile (\<lambda>c. c \<noteq> NL) s) @ t) =
        (case hs_lines token True True (tl (dropWhile (\<lambda>c. c \<noteq> NL) s)) of
           HsRefused \<Rightarrow> HsRefused | HsSub sid \<Rightarrow> HsSub sid
         | HsMore authed' rest consumed' \<Rightarrow> hs_lines token authed' consumed' (rest @ t))"
        using "1.IH" [OF _ refl refl] True auth by simp
      then show ?thesis
        using True auth tw
        by (subst (1 2) hs_lines.simps) (simp add: Let_def after_line_append del: append_Cons)
    next
      case False
      then show ?thesis
        using True tw by (subst (1 2) hs_lines.simps) (auto simp: Let_def split: option.split)
    qed
  qed (simp add: hs_lines.simps [of token authed consumed s])
qed

lemma hs_lines_consumed:
  "hs_lines token authed c s = (case hs_lines token authed False s of
     HsMore a r k \<Rightarrow> HsMore a r (k \<or> c) | x \<Rightarrow> x)"
proof (cases "NL \<in> set s")
  case True
  have "k" if "hs_lines token True True s' = HsMore a r k" for s' a r k
    using that
  proof (induction token "True" "True" s' rule: hs_lines.induct)
    case (1 token s')
    then show ?case by (subst (asm) (2) hs_lines.simps) (auto simp: Let_def split: if_splits option.splits)
  qed
  then show ?thesis
    using True by (subst (1 2) hs_lines.simps) (auto simp: Let_def split: option.split hs_result.split)
qed (simp add: hs_lines.simps [of token authed _ s])

lemma hs_lines_More:
  assumes "hs_lines token authed c s = HsMore a r k"
  shows "NL \<notin> set r" "\<exists>t. s = t @ r" "\<not> c \<Longrightarrow> \<not> k \<Longrightarrow> r = s \<and> a = authed"
proof -
  have "NL \<notin> set r \<and> (\<exists>t. s = t @ r) \<and> (c \<longrightarrow> k) \<and> (\<not> k \<longrightarrow> r = s \<and> a = authed)"
    using assms
  proof (induction token authed c s rule: hs_lines.induct)
    case (1 token authed c s)
    show ?case
    proof (cases "NL \<in> set s")
      case True
      let ?rest = "tl (dropWhile (\<lambda>c. c \<noteq> NL) s)"
      have l: "\<not> authed" "take 5 (hs_trim (takeWhile (\<lambda>c. c \<noteq> NL) s)) = ''AUTH ''"
        "drop 5 (hs_trim (takeWhile (\<lambda>c. c \<noteq> NL) s)) = token"
        "hs_lines token True True ?rest = HsMore a r k"
        using "1.prems" True
        by (subst (asm) hs_lines.simps, simp add: Let_def split: if_splits option.splits)+
      have "NL \<notin> set r \<and> (\<exists>t. ?rest = t @ r) \<and> k"
        using "1.IH" [OF _ refl refl] True l by auto
      moreover have "s = (takeWhile (\<lambda>c. c \<noteq> NL) s @ [NL]) @ ?rest"
        using True by (induction s) auto
      ultimately show ?thesis by (metis append.assoc)
    next
      case False
      then have "HsMore authed s c = HsMore a r k"
        using "1.prems" by (simp add: hs_lines.simps [of token authed c s])
      then show ?thesis using False by auto
    qed
  qed
  then show "NL \<notin> set r" "\<exists>t. s = t @ r" "\<not> c \<Longrightarrow> \<not> k \<Longrightarrow> r = s \<and> a = authed" by auto
qed

definition hs_out :: "hs_result \<Rightarrow> (int \<times> u16) option" where
  "hs_out r = (case r of HsRefused \<Rightarrow> Some (- 1, 1) | HsSub sid \<Rightarrow> Some (0, sid) | HsMore _ _ _ \<Rightarrow> None)"

definition is_deliver :: "hs_event \<Rightarrow> bool" where
  "is_deliver ev = (case ev of HsRecv (Deliver _) \<Rightarrow> True | _ \<Rightarrow> False)"

lemma is_deliver_Deliver [simp]: "is_deliver (HsRecv (Deliver k))"
  by (simp add: is_deliver_def)

definition hs_benign :: "hs_event \<Rightarrow> bool" where
  "hs_benign ev \<longleftrightarrow> ev \<noteq> HsDeadline \<and> ev \<noteq> HsRecv RecvFail"

lemma hs_loop_deliver:
  assumes "0 < min (Suc k) (min (1023 - length buf) (length pend))" (is "0 < ?n")
  shows "hs_loop (HsRecv (Deliver k) # evs) token authed buf pend =
    (case hs_lines token authed False (c_str (buf @ take ?n pend)) of
       HsRefused \<Rightarrow> Some (- 1, 1)
     | HsSub sid \<Rightarrow> Some (0, sid)
     | HsMore authed' rest consumed \<Rightarrow>
         hs_loop evs token authed' (if consumed then rest else buf @ take ?n pend) (drop ?n pend))"
proof -
  have "?n \<noteq> 0" using assms by simp
  then show ?thesis unfolding hs_loop.simps Let_def by (simp only: if_False)
qed

lemma hs_loop_segmented:
  assumes "list_all hs_benign evs" and "length pend \<le> length (filter is_deliver evs)"
    and "CHR 0x00 \<notin> set (buf @ pend)" and "length (buf @ pend) \<le> 1023"
    and "NL \<notin> set buf" and "hs_out (hs_lines token authed False (buf @ pend)) \<noteq> None"
  shows "hs_loop evs token authed buf pend = hs_out (hs_lines token authed False (buf @ pend))"
  using assms
proof (induction evs token authed buf pend rule: hs_loop.induct)
  case (1 token authed buf pend)
  then show ?case by (simp add: hs_lines.simps [of token authed False buf] hs_out_def)
next
  case (6 k evs token authed buf pend)
  have "pend \<noteq> []"
    using "6.prems"(5,6) by (auto simp: hs_lines.simps [of token authed False buf] hs_out_def)
  let ?n = "min (Suc k) (min (1023 - length buf) (length pend))"
  let ?b = "buf @ take ?n pend"
  have n: "0 < ?n" using \<open>pend \<noteq> []\<close> "6.prems"(4) by (cases pend) auto
  have split: "buf @ pend = ?b @ drop ?n pend" by simp
  have cs: "c_str ?b = ?b" by (rule c_str_id) (use "6.prems"(3) in \<open>auto dest: in_set_takeD\<close>)
  have whole: "hs_lines token authed False (buf @ pend) = (case hs_lines token authed False ?b of
       HsRefused \<Rightarrow> HsRefused | HsSub sid \<Rightarrow> HsSub sid
     | HsMore a' rest c' \<Rightarrow> hs_lines token a' c' (rest @ drop ?n pend))"
    unfolding split by (rule hs_lines_append)
  show ?case
  proof (cases "hs_lines token authed False ?b")
    case (HsMore a' rest c')
    note M = hs_lines_More [OF HsMore]
    have nb: "(if c' then rest else ?b) = rest" using M(3) by auto
    obtain t where t: "?b = t @ rest" using M(2) by blast
    have eq: "hs_out (hs_lines token authed False (buf @ pend)) =
        hs_out (hs_lines token a' False (rest @ drop ?n pend))"
      unfolding whole HsMore
      by (subst hs_lines_consumed) (auto simp: hs_out_def split: hs_result.split)
    have "hs_loop evs token a' (if c' then rest else ?b) (drop ?n pend) =
        hs_out (hs_lines token a' False ((if c' then rest else ?b) @ drop ?n pend))"
    proof (rule "6.IH" [OF refl _ refl])
      show "?n \<noteq> 0" using n by simp
      show "hs_lines token authed False (c_str ?b) = HsMore a' rest c'" using HsMore cs by simp
      show "list_all hs_benign evs" using "6.prems"(1) by simp
      show "length (drop ?n pend) \<le> length (filter is_deliver evs)"
      proof -
        have "length pend \<le> Suc (length (filter is_deliver evs))" using "6.prems"(2) by simp
        then show ?thesis unfolding length_drop using n by linarith
      qed
      have sub: "set (rest @ drop ?n pend) \<subseteq> set (buf @ pend)"
        unfolding split t by auto
      then show "CHR 0x00 \<notin> set ((if c' then rest else ?b) @ drop ?n pend)"
        unfolding nb using "6.prems"(3) by blast
      show "length ((if c' then rest else ?b) @ drop ?n pend) \<le> 1023"
        unfolding nb using "6.prems"(4) arg_cong [OF t, of length] by simp
      show "NL \<notin> set (if c' then rest else ?b)" unfolding nb by (rule M(1))
      show "hs_out (hs_lines token a' False ((if c' then rest else ?b) @ drop ?n pend)) \<noteq> None"
        unfolding nb eq [symmetric] by (rule "6.prems"(6))
    qed
    moreover have "hs_loop (HsRecv (Deliver k) # evs) token authed buf pend =
        hs_loop evs token a' (if c' then rest else ?b) (drop ?n pend)"
      unfolding hs_loop_deliver [OF n] cs HsMore by simp
    ultimately show ?thesis unfolding nb eq by simp
  qed (unfold hs_loop_deliver [OF n] cs whole, simp_all add: hs_out_def)
qed (auto simp: hs_benign_def is_deliver_def)

text \<open>What a refused or missing AUTH line excludes.\<close>

lemma hs_lines_unauthed:
  assumes "hs_lines token False False s \<noteq> HsMore False s False"
    and "hs_lines token False False s \<noteq> HsRefused"
  shows "NL \<in> set s \<and> hs_trim (takeWhile (\<lambda>c. c \<noteq> NL) s) = ''AUTH '' @ token"
proof -
  have n: "NL \<in> set s"
  proof (rule ccontr)
    assume "NL \<notin> set s"
    then have "hs_lines token False False s = HsMore False s False" by (subst hs_lines.simps) simp
    with assms(1) show False by simp
  qed
  let ?l = "hs_trim (takeWhile (\<lambda>c. c \<noteq> NL) s)"
  have "take 5 ?l = ''AUTH ''" "drop 5 ?l = token"
    using assms(2) n by (simp_all add: hs_lines.simps [of token False False s] Let_def split: if_splits)
  then show ?thesis using n append_take_drop_id [of 5 ?l] by simp
qed

lemma hs_lines_unauthed_More:
  "hs_lines token False False s = HsMore a r k \<Longrightarrow> \<not> k \<Longrightarrow> a = False \<and> r = s"
  using hs_lines_More(3) [of token False False s a r k] by auto

lemma first_line_append:
  assumes "NL \<in> set (c_str s)"
  shows "NL \<in> set (s @ t)" "takeWhile (\<lambda>c. c \<noteq> NL) (s @ t) = takeWhile (\<lambda>c. c \<noteq> NL) (c_str s)"
  using assms by (induction s) (auto simp: c_str_def NL_def)

lemma hs_loop_auth:
  assumes "hs_loop evs token False buf pend = Some (0, sid)"
  shows "NL \<in> set (buf @ pend) \<and> hs_trim (takeWhile (\<lambda>c. c \<noteq> NL) (buf @ pend)) = ''AUTH '' @ token"
  using assms
proof (induction evs arbitrary: buf pend)
  case (Cons ev evs)
  show ?case
  proof (cases "\<exists>k. ev = HsRecv (Deliver k)")
    case True
    then obtain k where k: "ev = HsRecv (Deliver k)" by blast
    let ?n = "min (Suc k) (min (1023 - length buf) (length pend))"
    let ?b = "buf @ take ?n pend"
    have n: "?n \<noteq> 0"
    proof
      assume z: "?n = 0"
      have "hs_loop (ev # evs) token False buf pend = Some (- 1, 1)"
        unfolding k hs_loop.simps Let_def z by simp
      with Cons.prems show False by simp
    qed
    have split: "buf @ pend = ?b @ drop ?n pend" by simp
    show ?thesis
    proof (cases "hs_lines token False False (c_str ?b) = HsMore False (c_str ?b) False")
      case True
      then have "hs_loop evs token False ?b (drop ?n pend) = Some (0, sid)"
        using Cons.prems k n by (simp add: Let_def)
      from Cons.IH [OF this] show ?thesis unfolding split [symmetric] .
    next
      case False
      moreover have "hs_lines token False False (c_str ?b) \<noteq> HsRefused"
        using Cons.prems k n by (auto simp: Let_def)
      ultimately have l: "NL \<in> set (c_str ?b)"
        "hs_trim (takeWhile (\<lambda>c. c \<noteq> NL) (c_str ?b)) = ''AUTH '' @ token"
        using hs_lines_unauthed by blast+
      show ?thesis
        unfolding split first_line_append(2) [OF l(1)] l(2) using first_line_append(1) [OF l(1)] by blast
    qed
  next
    case False
    then have "hs_loop evs token False buf pend = Some (0, sid)"
      using Cons.prems by (cases ev; cases "\<exists>r. ev = HsRecv r") (auto split: recv_event.splits elim: hs_loop.elims)
    then show ?thesis by (rule Cons.IH)
  qed
qed simp

lemma white_space: "c_isspace (CHR 0x0D)" "c_isspace (CHR '' '')" "c_isspace (CHR 0x09)"
  by (simp_all add: c_isspace_def)

lemma takeWhile_to_NL:
  assumes "NL \<notin> set xs"
  shows "takeWhile (\<lambda>c. c \<noteq> NL) (xs @ NL # ys) = xs" "tl (dropWhile (\<lambda>c. c \<noteq> NL) (xs @ NL # ys)) = ys"
  using assms by (induction xs) auto

text \<open>C22: no subscription without the token: when a token is configured and the handshake
  succeeds, the first line the peer sent was \<open>AUTH\<close> and the token (trailing blanks aside).\<close>

theorem handshake_requires_token:
  assumes "do_handshake evs token pend = Some (0, sid)" and "token \<noteq> []"
  shows "NL \<in> set pend \<and> hs_trim (takeWhile (\<lambda>c. c \<noteq> NL) pend) = ''AUTH '' @ token"
  using hs_loop_auth [of evs token "[]" pend sid] assms by (simp add: do_handshake_def)

theorem handshake_requires_token_witness:
  "do_handshake [HsRecv (Deliver 99)] ''k'' (''AUTH k'' @ [NL] @ ''SUB 3'' @ [NL]) = Some (0, 3) \<and>
   hs_trim (takeWhile (\<lambda>c. c \<noteq> NL) (''AUTH k'' @ [NL] @ ''SUB 3'' @ [NL])) = ''AUTH k''"
proof -
  have e: "do_handshake [HsRecv (Deliver 99)] ''k'' (''AUTH k'' @ [NL] @ ''SUB 3'' @ [NL]) = Some (0, 3)"
    by (simp add: do_handshake_def hs_lines.simps hs_trim_def trim_right_def NL_def c_str_def
        parse_sub_line_def scan_sub_def scan_d_def scan_signed_def c_isspace_def c_isdigit_def
        nat_of_digits_def digit_val_def clamp_sid_def AGENT_MAX_STREAMS_def to_int32_id clamp_long_id)
  then show ?thesis using handshake_requires_token [OF e] by simp
qed

text \<open>the handshake does not depend on how TCP cuts the stream: AUTH and SUB lines that
  arrive in any pieces, with interruptions, before the deadline subscribe to the stream.\<close>

theorem handshake_segmentation:
  assumes "list_all hs_benign evs" and "pend = ''AUTH '' @ token @ [NL] @ ''SUB '' @ show_nat n @ [NL]"
    and "length pend \<le> length (filter is_deliver evs)" and "length pend \<le> 1023"
    and "list_all (\<lambda>c. \<not> c_isspace c \<and> c \<noteq> CHR 0x00) token" and "token \<noteq> []" and "n < 1000"
  shows "do_handshake evs token pend = Some (0, clamp_sid 20 (int n))"
proof -
  let ?rest = "''SUB '' @ show_nat n @ [NL]"
  have tok': "\<forall>c \<in> set token. \<not> c_isspace c \<and> c \<noteq> CHR 0x00"
    using assms(5) by (simp add: list_all_iff)
  have sp: "c_isspace NL" by (simp add: NL_def c_isspace_def)
  have tok: "NL \<notin> set token" "CHR 0x00 \<notin> set token" using tok' sp by blast+
  have show_n: "NL \<notin> set (show_nat n)" "CHR 0x00 \<notin> set (show_nat n)"
    using show_nat_digits [of n] digit_not_space sp nul_not_in_show_nat by (auto simp: list_all_iff)
  have "hs_trim (''AUTH '' @ token) = ''AUTH '' @ token"
    unfolding hs_trim_def
  proof (rule trim_right_id)
    have "\<not> c_isspace (last token)" using tok' assms(6) by simp
    then have "last token \<noteq> CHR 0x0D" "last token \<noteq> CHR '' ''" "last token \<noteq> CHR 0x09"
      using white_space by metis+
    then show "\<not> (last (''AUTH '' @ token) = CHR 0x0D \<or> last (''AUTH '' @ token) = CHR '' '' \<or>
        last (''AUTH '' @ token) = CHR 0x09)" using assms(6) by simp
  qed simp
  moreover have "takeWhile (\<lambda>c. c \<noteq> NL) pend = ''AUTH '' @ token"
    using takeWhile_to_NL [of "''AUTH '' @ token" ?rest] tok(1) by (simp add: assms(2) NL_def)
  moreover have "tl (dropWhile (\<lambda>c. c \<noteq> NL) pend) = ?rest"
    using takeWhile_to_NL [of "''AUTH '' @ token" ?rest] tok(1) by (simp add: assms(2) NL_def)
  ultimately have 1: "hs_lines token False False pend = hs_lines token True True ?rest"
    by (subst hs_lines.simps) (simp add: Let_def assms(2))
  have "hs_trim (''SUB '' @ show_nat n) = ''SUB '' @ show_nat n"
    unfolding hs_trim_def
  proof (rule trim_right_id)
    have "c_isdigit (last (show_nat n))" using show_nat_digits [of n] by (simp add: list_all_iff)
    then have "\<not> c_isspace (last (show_nat n))" using digit_not_space by blast
    then have "last (show_nat n) \<noteq> CHR 0x0D" "last (show_nat n) \<noteq> CHR '' ''"
      "last (show_nat n) \<noteq> CHR 0x09" using white_space by metis+
    then show "\<not> (last (''SUB '' @ show_nat n) = CHR 0x0D \<or> last (''SUB '' @ show_nat n) = CHR '' '' \<or>
        last (''SUB '' @ show_nat n) = CHR 0x09)" using show_nat_digits [of n] by simp
  qed simp
  moreover have "takeWhile (\<lambda>c. c \<noteq> NL) ?rest = ''SUB '' @ show_nat n"
    using takeWhile_to_NL [of "''SUB '' @ show_nat n" "[]"] show_n(1) by (simp add: NL_def)
  moreover have "parse_sub_line (''SUB '' @ show_nat n) = Some (clamp_sid 20 (int n))"
    using scan_lit_append [of "''SUB''" "CHR '' '' # show_nat n"] scan_d_show_nat [of n "[]"] assms(7)
    by (simp add: parse_sub_line_def scan_sub_def scan_d_space c_isspace_def AGENT_MAX_STREAMS_def)
  ultimately have 2: "hs_lines token True True ?rest = HsSub (clamp_sid 20 (int n))"
    by (subst hs_lines.simps) (simp add: Let_def)
  have 3: "hs_lines token False False ([] @ pend) = HsSub (clamp_sid 20 (int n))"
    by (simp only: append_Nil 1 2)
  have "hs_loop evs token False [] pend = hs_out (hs_lines token False False ([] @ pend))"
  proof (rule hs_loop_segmented [OF assms(1,3)])
    show "CHR 0x00 \<notin> set ([] @ pend)"
      using tok(2) show_n(2) by (simp add: assms(2) NL_def)
  qed (use assms(4) in \<open>simp_all add: 3 [simplified] hs_out_def\<close>)
  then show ?thesis using assms(6) unfolding 3 by (simp add: do_handshake_def hs_out_def)
qed

theorem handshake_segmentation_witness:
  "do_handshake (replicate 20 (HsRecv (Deliver 0))) ''tok'' (''AUTH tok'' @ [NL] @ ''SUB 7'' @ [NL]) = Some (0, 7)"
proof -
  have n: "show_nat 7 = ''7''" by code_simp
  have "do_handshake (replicate 20 (HsRecv (Deliver 0))) ''tok'' (''AUTH tok'' @ [NL] @ ''SUB 7'' @ [NL]) =
      Some (0, clamp_sid 20 (int 7))"
    by (rule handshake_segmentation) (simp_all add: n hs_benign_def c_isspace_def list_all_iff)
  then show ?thesis by (simp add: clamp_sid_def)
qed

section \<open>One subscriber of the agent\<close>

lemma end_recovery_frame [simp]:
  "tc_out (end_recovery c) = tc_out c" "tc_out_off (end_recovery c) = tc_out_off c"
  "tc_active (end_recovery c) = tc_active c" "tc_fd (end_recovery c) = tc_fd c"
  "tc_sps (end_recovery c) = tc_sps c" "tc_pps (end_recovery c) = tc_pps c"
  "tc_stream_id (end_recovery c) = tc_stream_id c"
  by (simp_all add: end_recovery_def)

lemma agent_flush_True:
  assumes "agent_flush_out_buf c w = Some (True, c', w')" and "live c" "tc_active c'"
  shows "c' = end_recovery (c\<lparr>tc_out := [], tc_out_off := 0, tc_out_start_ns := 0\<rparr>)"
proof -
  have f: "flush_with agent_client_close end_recovery c w = Some (True, c', w')" "tc_active c" "slot_ok c"
    using assms(1,2) by (simp_all add: agent_flush_out_buf_def live_def)
  from f show ?thesis
  proof (cases rule: flush_with_cases)
    case broken
    then show ?thesis using agent_close.cl_inactive assms(3) by blast
  qed simp_all
qed

lemma agent_flush_False:
  assumes "agent_flush_out_buf c w = Some (False, c', w')" and "live c"
  shows "pending c' \<noteq> [] \<and> tc_need_idr c' = tc_need_idr c \<and> tc_pending_idr c' = tc_pending_idr c"
proof -
  have f: "flush_with agent_client_close end_recovery c w = Some (False, c', w')" "tc_active c" "slot_ok c"
    using assms by (simp_all add: agent_flush_out_buf_def live_def)
  from f show ?thesis by (cases rule: flush_with_cases) (simp_all add: pending_def)
qed

text \<open>The unit as it is put into the slot's buffer.\<close>

definition agent_loaded :: "pub_env \<Rightarrow> u8 list \<Rightarrow> bool \<Rightarrow> AgentClient \<Rightarrow> AgentClient" where
  "agent_loaded e data idr c =
     (let c1 = ensure_out_buf (pe_out_ok e) (unit_size data c) c;
          c2 = c1\<lparr>tc_out := unit_bytes data c1, tc_out_off := 0, tc_out_start_ns := pe_start e\<rparr>
      in if tc_need_idr c2 \<and> idr then c2\<lparr>tc_pending_idr := True\<rparr> else c2)"

lemma agent_loaded_simps:
  "tc_fd (agent_loaded e data idr c) = tc_fd c" "tc_active (agent_loaded e data idr c) = tc_active c"
  "pending (agent_loaded e data idr c) = unit_bytes data c"
  "tc_need_idr (agent_loaded e data idr c) = tc_need_idr c"
  "tc_pending_idr (agent_loaded e data idr c) = (tc_pending_idr c \<or> tc_need_idr c \<and> idr)"
  "pe_out_ok e \<Longrightarrow> slot_ok (agent_loaded e data idr c)"
proof -
  have cap: "pe_out_ok e \<Longrightarrow> unit_size data c \<le> tc_out_cap (ensure_out_buf (pe_out_ok e) (unit_size data c) c)"
    by (rule ensure_out_buf_cap(2))
  show "tc_fd (agent_loaded e data idr c) = tc_fd c" "tc_active (agent_loaded e data idr c) = tc_active c"
    "pending (agent_loaded e data idr c) = unit_bytes data c"
    "tc_need_idr (agent_loaded e data idr c) = tc_need_idr c"
    by (simp_all add: agent_loaded_def Let_def pending_def)
  show "tc_pending_idr (agent_loaded e data idr c) = (tc_pending_idr c \<or> tc_need_idr c \<and> idr)"
    by (auto simp: agent_loaded_def Let_def ensure_out_buf_def)
  show "pe_out_ok e \<Longrightarrow> slot_ok (agent_loaded e data idr c)"
    using cap by (simp add: agent_loaded_def Let_def slot_ok_def length_unit_bytes)
qed

lemma agent_offer_eq:
  assumes "pe_out_ok e" "\<not> (tc_need_idr c \<and> \<not> idr)"
  shows "agent_offer e data idr c w = map_option snd (agent_flush_out_buf (agent_loaded e data idr c) w)"
  using assms ensure_out_buf_cap(2) [of "pe_out_ok e" "unit_size data c" c]
  by (simp add: agent_offer_def agent_loaded_def Let_def not_less)

lemma agent_offer_result:
  assumes off: "agent_offer e data idr c w = Some (c', w')" and "live c" "tc_active c'" "pe_out_ok e"
    and "\<not> (tc_need_idr c \<and> \<not> idr)"
  shows "sent_to (tc_fd c) w' @ pending c' = sent_to (tc_fd c) w @ unit_bytes data c"
    and "tc_need_idr c' = (tc_need_idr c \<and> \<not> (pending c' = [] \<and> (tc_pending_idr c \<or> idr)))"
proof -
  let ?c2 = "agent_loaded e data idr c"
  have l: "live ?c2" using assms(2,4) by (simp add: live_def agent_loaded_simps)
  obtain b where f: "agent_flush_out_buf ?c2 w = Some (b, c', w')"
    using off agent_offer_eq [OF assms(4,5)] by auto
  show "sent_to (tc_fd c) w' @ pending c' = sent_to (tc_fd c) w @ unit_bytes data c"
    using agent_send.flush_conserves [OF f l assms(3)] by (simp add: agent_loaded_simps)
  show "tc_need_idr c' = (tc_need_idr c \<and> \<not> (pending c' = [] \<and> (tc_pending_idr c \<or> idr)))"
  proof (cases b)
    case True
    then have "c' = end_recovery (?c2\<lparr>tc_out := [], tc_out_off := 0, tc_out_start_ns := 0\<rparr>)"
      using agent_flush_True [of ?c2 w c' w'] f l assms(3) by simp
    then show ?thesis
      by (auto simp: end_recovery_def agent_loaded_simps pending_def)
  next
    case False
    then show ?thesis using agent_flush_False [of ?c2 w c' w'] f l by (simp add: agent_loaded_simps)
  qed
qed

lemma drop_stalled_cache:
  "drop_stalled ms dti now (maybe_cache_param_sets ok data c) =
     maybe_cache_param_sets ok data (drop_stalled ms dti now c)"
  by (simp add: drop_stalled_def maybe_cache_param_sets_def Let_def)

lemma maybe_cache_pending_idr [simp]:
  "tc_pending_idr (maybe_cache_param_sets ok data c) = tc_pending_idr c"
  by (simp add: maybe_cache_param_sets_def)

lemma agent_offer_active:
  assumes "agent_offer e data idr c w = Some (c', w')" and "tc_active c'"
  shows "tc_active c"
proof (rule ccontr)
  assume "\<not> tc_active c"
  then have "\<not> tc_active c'" using assms(1)
    by (auto simp: agent_offer_def agent_flush_out_buf_def flush_with_def Let_def split: if_splits)
  with assms(2) show False by simp
qed



text \<open>A slot that is not taken, lost ones included, awaits nothing, so the flags of the subscriber
  placed in it are those \<open>accept_loop\<close> gives it.\<close>

definition idle_clean :: "AgentClient \<Rightarrow> bool" where
  "idle_clean c \<longleftrightarrow> (\<not> tc_active c \<longrightarrow> \<not> tc_need_idr c \<and> \<not> tc_pending_idr c)"

lemma idle_clean_flush:
  "agent_flush_out_buf c w = Some (b, c', w') \<Longrightarrow> idle_clean c \<Longrightarrow> idle_clean c'"
  by (auto simp: agent_flush_out_buf_def flush_with_def idle_clean_def end_recovery_def
      agent_client_close_def reset_client_def Let_def split: option.splits flush_end.splits if_splits)

lemma idle_clean_publish:
  assumes "agent_publish_client ms dti e sid data c w = Some (c', w')" and "idle_clean c"
  shows "idle_clean c'"
proof (cases "tc_active c \<and> tc_stream_id c = sid")
  case False
  then show ?thesis using assms by (auto simp: agent_publish_client_def split: if_splits)
next
  case True
  let ?idr = "annexb_contains_nal_type data 5"
  obtain b c1 w1 where p: "agent_prepare ms dti e data c w = Some (b, c1, w1)"
    using assms True by (auto simp: agent_publish_client_def split: option.splits)
  have "idle_clean (drop_stalled ms dti (pe_now e) (maybe_cache_param_sets (pe_param_ok e) data c))"
    using True by (simp add: idle_clean_def)
  then have c1: "idle_clean c1"
    using p idle_clean_flush by (auto simp: agent_prepare_def Let_def split: if_splits)
  have l: "idle_clean (ensure_out_buf ok n c1)" for ok n
    using c1 by (simp add: idle_clean_def ensure_out_buf_def Let_def)
  have "idle_clean (agent_loaded e data ?idr c1)"
    using c1 by (simp add: idle_clean_def agent_loaded_simps)
  moreover have "c' = c1 \<or> c' = ensure_out_buf (pe_out_ok e) (unit_size data c1) c1 \<or>
      (\<exists>b'. agent_flush_out_buf (agent_loaded e data ?idr c1) w1 = Some (b', c', w'))"
    using assms True p
    by (auto simp: agent_publish_client_def agent_offer_def agent_loaded_def Let_def split: if_splits)
  ultimately show ?thesis using c1 l idle_clean_flush by blast
qed

lemma agent_fill_waits:
  assumes "idle_clean c" "\<not> tc_active c"
  shows "let j = agent_fill sps_ok pps_ok t fd sid c
    in tc_active j \<and> tc_need_idr j \<and> \<not> tc_pending_idr j \<and> pending j = pending c"
  using assms
  by (simp add: agent_fill_def copy_global_param_sets_to_client_def idle_clean_def pending_def)


text \<open>a recovery IDR that was sent in part ends recovery when the next publish gets the rest
  of it out, and that publish sends its own unit behind it.\<close>

theorem agent_recovery_resumes:
  assumes "agent_publish_client ms dti e sid data c w = Some (c', w')"
    and "tc_active c" "tc_stream_id c = sid" "slot_ok c" "tc_active c'"
    and "tc_pending_idr c" "pending c \<noteq> []" "pending c' = []" "pe_out_ok e"
    and "drop_stalled ms dti (pe_now e) c = c"
  shows "\<not> tc_need_idr c' \<and>
    sent_to (tc_fd c) w' = sent_to (tc_fd c) w @ pending c @
      (if has_start_code data then [] else [0, 0, 0, 1]) @ data"
proof -
  let ?d = "maybe_cache_param_sets (pe_param_ok e) data c"
  have d: "drop_stalled ms dti (pe_now e) ?d = ?d" using assms(10) by (simp add: drop_stalled_cache)
  have l: "live ?d" using assms(2,4) by (simp add: live_def)
  have len: "length (tc_out ?d) > tc_out_off ?d" using assms(7) by (simp add: pending_def)
  obtain b c1 w1 where p: "agent_prepare ms dti e data c w = Some (b, c1, w1)"
    using assms(1-3) by (auto simp: agent_publish_client_def split: option.splits)
  then have f: "agent_flush_out_buf ?d w = Some (b, c1, w1)"
    using d len by (simp add: agent_prepare_def Let_def)
  have b: "b"
  proof (rule ccontr)
    assume "\<not> b"
    then have "pending c1 \<noteq> []" "c' = c1"
      using f agent_flush_False [of ?d w c1 w1] l p assms(1-3) by (simp_all add: agent_publish_client_def)
    then show False using assms(8) by simp
  qed
  then have off: "agent_offer e data (annexb_contains_nal_type data 5) c1 w1 = Some (c', w')"
    using assms(1-3) p by (simp add: agent_publish_client_def)
  have a1: "tc_active c1" by (rule agent_offer_active [OF off assms(5)])
  have c1: "c1 = end_recovery (?d\<lparr>tc_out := [], tc_out_off := 0, tc_out_start_ns := 0\<rparr>)"
    using agent_flush_True [of ?d w c1 w1] f b l a1 by simp
  have need: "\<not> tc_need_idr c1" using assms(6) by (simp add: c1 end_recovery_def maybe_cache_pending_idr)
  have 1: "live c1" "tc_fd c1 = tc_fd c" "sent_to (tc_fd c) w1 = sent_to (tc_fd c) w @ pending c"
    using agent_send.flush_conserves [OF f l a1] agent_send.flush_cleared [of ?d w c1 w1] f b l a1
    by (simp_all add: pending_def)
  show ?thesis
    using agent_offer_result [OF off 1(1) assms(5,9)] need 1 assms(8) by (simp add: unit_bytes_def)
qed

definition ex_agent_client :: "int \<Rightarrow> u16 \<Rightarrow> AgentClient" where
  "ex_agent_client fd sid = agent_zero_client\<lparr>tc_fd := fd, tc_stream_id := sid, tc_active := True,
     tc_need_idr := True, tc_sps := Some [0, 0, 0, 1, 0x67, 1]\<rparr>"

lemmas agent_eval = ex_agent_client_def agent_zero_client_def ex_pub_def ex_tap_net_def
  agent_publish_client_def agent_prepare_def agent_offer_def agent_flush_out_buf_def
  flush_with_def end_recovery_def maybe_cache_param_sets_def drop_stalled_def ensure_out_buf_def
  unit_size_def unit_bytes_def has_start_code_def first_nal_type_def opt_bytes_def nal_type_of_def
  annexb_contains_nal_type_def annexb_scan.simps double_until.simps sent_to_def


text \<open>a slot whose subscriber is lost while old data is flushed is filled again by the same
  publish: the next subscriber placed in it, of whatever stream, awaits an IDR and has that unit,
  with or without an IDR, pending all the same.\<close>

theorem agent_lost_slot_keeps_unit:
  assumes "agent_publish_client ms dti e sid data c w = Some (c', w')"
    and "tc_active c" "tc_stream_id c = sid"
    and "agent_prepare ms dti e data c w = Some (True, c1, w1)"
    and "\<not> tc_active c1" "\<not> tc_need_idr c1" "pe_out_ok e"
  shows "let j = agent_fill sps_ok pps_ok t fd sid' c'
    in tc_active j \<and> tc_need_idr j \<and> pending j = unit_bytes data c1"
proof -
  let ?idr = "annexb_contains_nal_type data 5"
  have "agent_offer e data ?idr c1 w1 = Some (c', w')"
    using assms(1-4) by (simp add: agent_publish_client_def)
  then have "map_option snd (agent_flush_out_buf (agent_loaded e data ?idr c1) w1) = Some (c', w')"
    using agent_offer_eq [OF assms(7), of c1 ?idr] assms(6) by simp
  then have "c' = agent_loaded e data ?idr c1"
    using assms(5) by (auto simp: agent_flush_out_buf_def flush_with_def agent_loaded_simps)
  then have "pending c' = unit_bytes data c1" by (simp add: agent_loaded_simps)
  then show ?thesis
    by (simp add: Let_def agent_fill_def copy_global_param_sets_to_client_def pending_def)
qed

theorem agent_lost_slot_keeps_unit_witness:
  "let c = (ex_agent_client 7 1)\<lparr>tc_need_idr := False, tc_out := [9, 9], tc_out_cap := 262144, tc_out_start_ns := 4\<rparr> in
   \<exists>c' w'. agent_publish_client 200 True (ex_pub 5) 1 [0, 0, 1, 0x41] c (ex_tap_net [SendFail]) = Some (c', w') \<and>
     \<not> annexb_contains_nal_type [0, 0, 1, 0x41] 5 \<and>
     (let j = agent_fill True True t 8 2 c' in tc_need_idr j \<and> pending j = [0, 0, 1, 0x41])"
proof -
  let ?c = "(ex_agent_client 7 1)\<lparr>tc_need_idr := False, tc_out := [9, 9], tc_out_cap := 262144, tc_out_start_ns := 4\<rparr>"
  let ?w = "ex_tap_net [SendFail]" and ?d = "[0, 0, 1, 0x41] :: u8 list"
  obtain c1 w1 where p: "agent_prepare 200 True (ex_pub 5) ?d ?c ?w = Some (True, c1, w1)"
      "\<not> tc_active c1" "\<not> tc_need_idr c1" "unit_bytes ?d c1 = ?d"
    by (simp add: agent_eval agent_client_close_def reset_client_def tap_close_def)
  obtain c' w' where q: "agent_publish_client 200 True (ex_pub 5) 1 ?d ?c ?w = Some (c', w')"
    by (simp add: agent_eval agent_client_close_def reset_client_def tap_close_def)
  have "let j = agent_fill True True t 8 2 c' in tc_active j \<and> tc_need_idr j \<and> pending j = unit_bytes ?d c1"
    by (rule agent_lost_slot_keeps_unit [OF q _ _ p(1-3)]) (simp_all add: agent_eval)
  moreover have "\<not> annexb_contains_nal_type ?d 5" by (simp add: agent_eval)
  ultimately show ?thesis using q p(4) by (auto simp: Let_def)
qed

theorem agent_recovery_resumes_witness:
  "\<exists>c' w'. agent_publish_client 200 True (ex_pub 5) 1 [0x41]
       ((ex_agent_client 7 1)\<lparr>tc_out := [8, 9], tc_out_cap := 262144, tc_pending_idr := True\<rparr>)
       (ex_tap_net [SendN 2, SendN 5]) = Some (c', w') \<and>
     \<not> tc_need_idr c' \<and> sent_to 7 w' = [8, 9, 0, 0, 0, 1, 0x41]"
proof -
  let ?c = "(ex_agent_client 7 1)\<lparr>tc_out := [8, 9], tc_out_cap := 262144, tc_pending_idr := True\<rparr>"
  let ?w = "ex_tap_net [SendN 2, SendN 5]" and ?d = "[0x41] :: u8 list"
  obtain c' w' where e: "agent_publish_client 200 True (ex_pub 5) 1 ?d ?c ?w = Some (c', w')"
    "tc_active c'" "pending c' = []"
    by (simp add: agent_eval pending_def)
  have h: "tc_active ?c" "tc_stream_id ?c = 1" "slot_ok ?c" "tc_pending_idr ?c" "pending ?c \<noteq> []"
    "pe_out_ok (ex_pub 5)" "drop_stalled 200 True (pe_now (ex_pub 5)) ?c = ?c" "tc_fd ?c = 7"
    "sent_to 7 ?w = []" "\<not> has_start_code ?d" "pending ?c = [8, 9]"
    by (simp_all add: agent_eval pending_def slot_ok_def)
  have "\<not> tc_need_idr c' \<and> sent_to (tc_fd ?c) w' = sent_to (tc_fd ?c) ?w @ pending ?c @
      (if has_start_code ?d then [] else [0, 0, 0, 1]) @ ?d"
    by (rule agent_recovery_resumes [OF e(1) h(1-3) e(2) h(4,5) e(3) h(6,7)])
  then show ?thesis using e h by auto
qed

end
