(* ===== verification/Wire.thy ===== *)
theory Wire
  imports TcpSender Sockets
begin

text \<open>
  Frames on a connection: what a sender's byte stream consists of, and how the two readers,
  the server's and the agent's, take a frame off a connection that delivers everything.
\<close>

text \<open>A wire is a list of frames: stream, type, payload.\<close>

type_synonym wire_frame = "u16 \<times> u8 \<times> u8 list"

definition wire :: "wire_frame list \<Rightarrow> u8 list" where
  "wire fs = concat (map (\<lambda>(sid, t, p). frame sid t p) fs)"

lemma frame_header:
  assumes "TCP_HEADER_SIZE + length p \<le> TCP_MAX_PACKET_SIZE"
  shows "frame sid t p = header_bytes \<lparr>ph_length = of_nat (TCP_HEADER_SIZE + length p), ph_type = t,
      ph_stream_id = sid\<rparr> @ p"
    and "unat (of_nat (TCP_HEADER_SIZE + length p) :: u32) = TCP_HEADER_SIZE + length p"
    and "unat (of_nat (TCP_HEADER_SIZE + length p) - of_nat TCP_HEADER_SIZE :: u32) = length p"
proof -
  have l: "TCP_HEADER_SIZE + length p < 2 ^ 32" using assms by (simp add: protocol_consts)
  show "frame sid t p = header_bytes \<lparr>ph_length = of_nat (TCP_HEADER_SIZE + length p), ph_type = t,
      ph_stream_id = sid\<rparr> @ p"
    unfolding frame_def using sender_header_bytes [OF l] by simp
  show "unat (of_nat (TCP_HEADER_SIZE + length p) :: u32) = TCP_HEADER_SIZE + length p"
    using l by (intro unat_of_nat_32) simp
  have "(of_nat (TCP_HEADER_SIZE + length p) - of_nat TCP_HEADER_SIZE :: u32) = of_nat (length p)"
    by simp
  then show "unat (of_nat (TCP_HEADER_SIZE + length p) - of_nat TCP_HEADER_SIZE :: u32) = length p"
    using l unat_of_nat_32 [of "length p"] by simp
qed

lemma recv_full:
  assumes "conn_full c" and "c_pending c = xs @ ys" and "length xs = n"
  obtains c' where "recv_exact n c = Some (0, xs, c')" "conn_full c'" "c_pending c' = ys"
  using recv_exact_full [of c n] assms by simp blast

text \<open>At the end of the stream every read of at least one byte fails.\<close>

lemma recv_exact_end:
  assumes "c_pending c = []" and "recv_exact n c = Some (rc, bs, c')" and "0 < n"
  shows "rc < 0"
  using server_read.rd_conserves [OF assms(2)] server_read.rd_length [OF assms(2)] assms(1,3) by auto

end
