(* ===== verification/Agent.thy ===== *)
theory Agent
  imports AgentTap Wire
begin

text \<open>
  The agent around its tap (\<open>strem_agent_server/src/{main,auth,tlv_protocol,udp_forward,
  tcp_util}.c\<close>): the ingest connection from \<open>ml_worker\<close>, whose video frames are published,
  and the control connections, whose frames are forwarded as UDP datagrams to \<open>ml_worker\<close>.
  A connection is the bytes its peer sends before it closes; the process flag \<open>g_running\<close>
  is never cleared and the loops it guards are the ones below.
\<close>

section \<open>TLV header\<close>

definition tlv_parse_header :: "u8 list option \<Rightarrow> PacketHeader option" where
  "tlv_parse_header b = (case b of None \<Rightarrow> None | Some buf \<Rightarrow>
     let header = \<lparr>ph_length = read_be32 buf 0, ph_type = buf ! 4,
                   ph_stream_id = be16 (buf ! 5) (buf ! 6)\<rparr>
     in if ph_length header < of_nat TCP_HEADER_SIZE then None
        else if ph_length header > of_nat TCP_MAX_PACKET_SIZE then None
        else if unat (ph_stream_id header) < 1 \<or> unat (ph_stream_id header) > AGENT_MAX_STREAMS then None
        else Some header)"

section \<open>Ingest\<close>

text \<open>
  The inner loop of \<open>ingest_thread\<close> on one connection: the frames it publishes, in order, and
  the connection when the loop ended, None while a read still blocks. \<open>alloc i\<close> is the answer
  to the \<open>i\<close>-th allocation.
\<close>

lemma agent_recv_shorter:
  assumes "agent_recv_exact n c = Some (rc, bs, c')" and "\<not> rc < 0"
  shows "length (c_pending c') + n = length (c_pending c)"
  using agent_read.rd_conserves [OF assms(1)] agent_read.rd_length [OF assms(1)] assms(2) by auto

function agent_ingest ::
  "(nat \<Rightarrow> bool) \<Rightarrow> nat \<Rightarrow> conn \<Rightarrow> (u16 \<times> u8 list) list \<times> conn option" where
  "agent_ingest alloc i c =
     (case agent_recv_exact TCP_HEADER_SIZE c of
        None \<Rightarrow> ([], None)
      | Some (rc, hdrb, c1) \<Rightarrow>
          if rc < 0 then ([], Some c1)
          else (case tlv_parse_header (Some hdrb) of
             None \<Rightarrow> ([], Some c1)
           | Some hdr \<Rightarrow>
               let payload_len = unat (ph_length hdr - of_nat TCP_HEADER_SIZE) in
               if payload_len > TCP_MAX_PACKET_SIZE then ([], Some c1)
               else if payload_len > 0 then
                 (if \<not> alloc i then ([], Some c1)
                  else (case agent_recv_exact payload_len c1 of
                          None \<Rightarrow> ([], None)
                        | Some (rc2, payload, c2) \<Rightarrow>
                            if rc2 < 0 then ([], Some c2)
                            else (case agent_ingest alloc (i + 1) c2 of (ps, done) \<Rightarrow>
                              ((if ph_type hdr = TCP_MSG_TYPE_VIDEO_DATA
                                then (ph_stream_id hdr, payload) # ps else ps), done))))
               else agent_ingest alloc i c1))"
  by pat_completeness auto
termination
proof (relation "measure (\<lambda>(a, i, c). length (c_pending c))", goal_cases)
  case (2 alloc i c x y rc hdrb c1 hdr payload_len z x2 payload c2)
  then show ?case by (auto dest!: agent_recv_shorter simp: TCP_HEADER_SIZE_def)
next
  case (3 alloc i c x y rc hdrb c1 hdr payload_len)
  then show ?case by (auto dest!: agent_recv_shorter simp: TCP_HEADER_SIZE_def)
qed simp

declare agent_ingest.simps [simp del]

section \<open>Authentication of control connections\<close>

definition chars_of :: "u8 list \<Rightarrow> string" where
  "chars_of bs = map (\<lambda>b. char_of (unat b)) bs"

text \<open>
  One answer of the peeking \<open>recv\<close>: the bytes that have arrived so far, or an error, timeout
  or end of file.
\<close>

datatype peek_event = Arrived nat | PeekError

fun auth_loop :: "peek_event list \<Rightarrow> string \<Rightarrow> u8 list \<Rightarrow> (int \<times> u8 list) option" where
  "auth_loop [] token pend = None"
| "auth_loop (PeekError # evs) token pend = Some (- 1, pend)"
| "auth_loop (Arrived k # evs) token pend =
     (let n = min k (min 511 (length pend)) in
      if n = 0 then Some (- 1, pend)
      else
        let s = c_str (chars_of (take n pend)) in
        if NL \<notin> set s then
          (if n \<ge> 511 then Some (- 1, pend) else auth_loop evs token pend)
        else
          let line_len = length (takeWhile (\<lambda>c. c \<noteq> NL) s) + 1;
              line = chars_of (take line_len pend);
              p = dropWhile (\<lambda>c. c = CHR '' '' \<or> c = CHR 0x09 \<or> c = CHR 0x0D \<or> c = NL) line
          in if take 5 p \<noteq> ''AUTH '' then Some (- 1, drop line_len pend)
             else
               let got = take 255 (takeWhile (\<lambda>c. c \<noteq> NL \<and> c \<noteq> CHR 0x0D) (drop 5 p))
               in Some (if got = token then 0 else - 1, drop line_len pend))"

definition agent_auth_read_and_check ::
  "peek_event list \<Rightarrow> string option \<Rightarrow> u8 list \<Rightarrow> (int \<times> u8 list) option" where
  "agent_auth_read_and_check evs token pend = (case token of
     None \<Rightarrow> Some (0, pend)
   | Some t \<Rightarrow> if t = [] then Some (0, pend) else auth_loop evs t pend)"

section \<open>The optional SUB line\<close>

text \<open>
  \<open>arrived\<close> is what the peek finds. The line is read byte by byte, at most 255 of them; the
  result is the code, the stream if the line had one, and what is left of the input. A line
  whose sender pauses in the middle for longer than the timeout the authentication has set is
  not modelled: the reads would give up there and leave the rest of the line as input.
\<close>

definition ctrl_read_optional_sub :: "nat \<Rightarrow> u8 list \<Rightarrow> int \<times> u16 option \<times> u8 list" where
  "ctrl_read_optional_sub arrived pend =
     (let pfx = chars_of (take (min arrived 4) pend) in
      if length pfx < 4 then (0, None, pend)
      else if take 3 pfx \<noteq> ''SUB'' then (0, None, pend)
      else
        let cs = chars_of (take 255 pend);
            upto = takeWhile (\<lambda>c. c \<noteq> NL) cs;
            n = (if NL \<in> set cs then length upto + 1 else length cs)
        in if NL \<notin> set cs \<and> length cs < 255 then (- 1, None, [])
           else (case Option.bind (scan_lit ''SUB'' (c_str (take n cs))) scan_d of
                   None \<Rightarrow> (- 1, None, drop n pend)
                 | Some (v, _) \<Rightarrow> (1, Some (clamp_sid 65535 v), drop n pend)))"

section \<open>Forwarding\<close>

text \<open>What the calls of \<open>udp_send_to\<close> answer, and its result with the closed descriptors.\<close>

record udp_env =
  ue_socket :: int
  ue_pton :: "string \<Rightarrow> bool"
  ue_sent :: int

definition udp_send_to :: "udp_env \<Rightarrow> string option \<Rightarrow> u16 \<Rightarrow> u8 list \<Rightarrow> int \<times> (string \<times> u16 \<times> u8 list) list \<times> int list" where
  "udp_send_to e ip port data = (case ip of
     None \<Rightarrow> (- 1, [], [])
   | Some ip' \<Rightarrow>
       if length data = 0 then (- 1, [], [])
       else if ue_socket e < 0 then (- 1, [], [])
       else if \<not> ue_pton e ip' then (- 1, [], [ue_socket e])
       else (if ue_sent e = int (length data) then 0 else - 1, [(ip', port, data)], [ue_socket e]))"

text \<open>
  The forwarding loop of \<open>ctrl_client_thread\<close>: the datagrams in order, as they are handed to
  \<open>udp_send_to\<close>, whose result the code ignores.
\<close>

function ctrl_forward :: "conn \<Rightarrow> u8 list list \<times> conn option" where
  "ctrl_forward c =
     (case agent_recv_exact 4 c of
        None \<Rightarrow> ([], None)
      | Some (rc, lenb, c1) \<Rightarrow>
          if rc < 0 then ([], Some c1)
          else
            let n = unat (be32 (lenb ! 0) (lenb ! 1) (lenb ! 2) (lenb ! 3)) in
            if n = 0 \<or> n > 4096 then ([], Some c1)
            else (case agent_recv_exact n c1 of
                    None \<Rightarrow> ([], None)
                  | Some (rc2, buf, c2) \<Rightarrow>
                      if rc2 < 0 then ([], Some c2)
                      else (case ctrl_forward c2 of (ds, done) \<Rightarrow> (buf # ds, done))))"
  by pat_completeness auto
termination
  by (relation "measure (\<lambda>c. length (c_pending c))") (auto dest!: agent_recv_shorter)

declare ctrl_forward.simps [simp del]

text \<open>
  \<open>ctrl_client_thread\<close>: authentication, the optional line, the loop. The result has the
  datagrams sent to the worker and whether the thread has ended (and closed its descriptor).
\<close>

definition ctrl_client_thread ::
  "peek_event list \<Rightarrow> nat \<Rightarrow> recv_event list \<Rightarrow> string \<Rightarrow> u8 list \<Rightarrow> (u8 list list \<times> bool) option" where
  "ctrl_client_thread evs arrived schedule token pend =
     (case agent_auth_read_and_check evs (Some token) pend of
        None \<Rightarrow> None
      | Some (rc, pend1) \<Rightarrow>
          if rc \<noteq> 0 then Some ([], True)
          else (case ctrl_read_optional_sub arrived pend1 of (_, _, pend2) \<Rightarrow>
            (case ctrl_forward \<lparr>c_pending = pend2, c_schedule = schedule\<rparr> of (ds, done) \<Rightarrow>
              Some (ds, done \<noteq> None))))"

section \<open>Listening and configuration\<close>

text \<open>\<open>tcp_listen\<close>: the descriptor or -1, and the descriptors it closed.\<close>

record listen_env =
  le_socket :: int
  le_pton :: "string \<Rightarrow> bool"
  le_bind_ok :: bool
  le_listen :: "int \<Rightarrow> bool"

definition tcp_listen :: "listen_env \<Rightarrow> string option \<Rightarrow> u16 \<Rightarrow> int \<Rightarrow> int \<times> int list" where
  "tcp_listen e host port backlog =
     (let fd = le_socket e in
      if fd < 0 then (- 1, [])
      else
        let h = (case host of None \<Rightarrow> ''0.0.0.0'' | Some s \<Rightarrow> if s = [] then ''0.0.0.0'' else s) in
        if \<not> le_pton e h then (- 1, [fd])
        else if \<not> le_bind_ok e then (- 1, [fd])
        else if \<not> le_listen e (if backlog > 0 then backlog else 16) then (- 1, [fd])
        else (fd, []))"

record AgentCfg =
  ac_in_host :: string
  ac_in_port :: u16
  ac_video_bind :: string
  ac_video_port :: u16
  ac_ctrl_bind :: string
  ac_ctrl_port :: u16
  ac_worker_ctrl_ip :: string
  ac_worker_ctrl_port :: u16
  ac_token :: string

definition cfg_init :: AgentCfg where
  "cfg_init = \<lparr>ac_in_host = ''0.0.0.0'', ac_in_port = 19000, ac_video_bind = ''0.0.0.0'',
     ac_video_port = 31234, ac_ctrl_bind = ''0.0.0.0'', ac_ctrl_port = 31235,
     ac_worker_ctrl_ip = ''127.0.0.1'', ac_worker_ctrl_port = 30001, ac_token = []\<rparr>"

definition to_port :: "int \<Rightarrow> u16" where "to_port v = word_of_int v"

definition apply_opt :: "string \<Rightarrow> string \<Rightarrow> AgentCfg \<Rightarrow> AgentCfg" where
  "apply_opt name optarg c =
     (if name = ''in-host'' then c\<lparr>ac_in_host := snprintf_s 64 optarg\<rparr>
      else if name = ''in-port'' then c\<lparr>ac_in_port := to_port (atoi optarg)\<rparr>
      else if name = ''video-bind'' then c\<lparr>ac_video_bind := snprintf_s 64 optarg\<rparr>
      else if name = ''video-port'' then c\<lparr>ac_video_port := to_port (atoi optarg)\<rparr>
      else if name = ''ctrl-bind'' then c\<lparr>ac_ctrl_bind := snprintf_s 64 optarg\<rparr>
      else if name = ''ctrl-port'' then c\<lparr>ac_ctrl_port := to_port (atoi optarg)\<rparr>
      else if name = ''worker-ctrl-ip'' then c\<lparr>ac_worker_ctrl_ip := snprintf_s 64 optarg\<rparr>
      else if name = ''worker-ctrl-port'' then c\<lparr>ac_worker_ctrl_port := to_port (atoi optarg)\<rparr>
      else if name = ''token'' then c\<lparr>ac_token := snprintf_s 256 optarg\<rparr>
      else c)"

text \<open>
  The answers of \<open>getopt_long\<close>: None for a code other than 0 (an unknown option), else the
  option's name and argument. The result is the code and the configuration.
\<close>

fun parse_args :: "(string \<times> string) option list \<Rightarrow> AgentCfg \<Rightarrow> int \<times> AgentCfg" where
  "parse_args [] c = (0, c)"
| "parse_args (None # opts) c = parse_args opts c"
| "parse_args (Some (name, optarg) # opts) c =
     (if name = ''help'' then (- 1, c) else parse_args opts (apply_opt name optarg c))"

text \<open>
  The start of \<open>main\<close>: the exit code of an early return, or 0 with the tap as the accept
  thread finds it before and after the token and the worker's address are set.
\<close>

definition agent_main_start ::
  "tap_start_env \<Rightarrow> (string \<times> string) option list \<Rightarrow> agent_tap \<Rightarrow> tap_net \<Rightarrow> int \<times> agent_tap \<times> agent_tap"
where
  "agent_main_start e opts t w =
     (case parse_args opts cfg_init of (rc, cfg) \<Rightarrow>
      if rc \<noteq> 0 then (2, t, t)
      else (case agent_h264_tap_start e (Some (ac_video_bind cfg)) (ac_video_port cfg) t w of
        (rc, t1, _) \<Rightarrow>
          if rc \<noteq> 0 then (3, t1, t1)
          else (0, t1, h264_tap_set_worker_ctrl (Some (ac_worker_ctrl_ip cfg)) (ac_worker_ctrl_port cfg)
                  (h264_tap_set_token (Some (ac_token cfg)) t1))))"

section \<open>What the ingest loop publishes\<close>

definition agent_header_ok :: "PacketHeader \<Rightarrow> bool" where
  "agent_header_ok h \<longleftrightarrow>
     TCP_HEADER_SIZE \<le> unat (ph_length h) \<and> unat (ph_length h) \<le> TCP_MAX_PACKET_SIZE \<and>
     1 \<le> unat (ph_stream_id h) \<and> unat (ph_stream_id h) \<le> AGENT_MAX_STREAMS"

lemma tlv_parse_header_bytes:
  "tlv_parse_header (Some (header_bytes h @ rest)) = (if agent_header_ok h then Some h else None)"
proof -
  have read: "read_be32 (header_bytes h @ rest) 0 = ph_length h"
    by (simp add: header_bytes_def put_be32_def read_be32_def be32_byte_at)
  have nth: "(header_bytes h @ rest) ! 4 = ph_type h"
    "be16 ((header_bytes h @ rest) ! 5) ((header_bytes h @ rest) ! 6) = ph_stream_id h"
    by (simp_all add: header_bytes_def put_be32_def be16_byte_at)
  show ?thesis
    unfolding tlv_parse_header_def option.case Let_def read nth agent_header_ok_def
    by (auto simp: protocol_consts word_less_nat_alt unat_of_nat take_bit_eq_mod)
qed

definition agent_frame_ok :: "wire_frame \<Rightarrow> bool" where
  "agent_frame_ok f = (case f of (sid, t, p) \<Rightarrow>
     1 \<le> unat sid \<and> unat sid \<le> AGENT_MAX_STREAMS \<and>
     TCP_HEADER_SIZE + length p \<le> TCP_MAX_PACKET_SIZE)"

definition videos :: "wire_frame list \<Rightarrow> (u16 \<times> u8 list) list" where
  "videos fs = map (\<lambda>(sid, t, p). (sid, p))
     (filter (\<lambda>(sid, t, p). t = TCP_MSG_TYPE_VIDEO_DATA \<and> p \<noteq> []) fs)"

lemma videos_Cons:
  "videos ((sid, t, p) # fs) =
     (if t = TCP_MSG_TYPE_VIDEO_DATA \<and> p \<noteq> [] then (sid, p) # videos fs else videos fs)"
  by (simp add: videos_def)

lemma agent_recv_full:
  assumes "conn_full c" and "c_pending c = xs @ ys" and "length xs = n"
  obtains c' where "agent_recv_exact n c = Some (0, xs, c')" "conn_full c'" "c_pending c' = ys"
  using recv_exact_full [of c n] assms by (simp add: agent_recv_exact_eq) blast

text \<open>One frame through the loop on a connection that delivers.\<close>

lemma agent_ingest_frame:
  assumes c: "conn_full c" "c_pending c = frame sid t p @ rest" and ok: "agent_frame_ok (sid, t, p)"
  obtains c' i' where "conn_full c'" "c_pending c' = rest"
    "fst (agent_ingest (\<lambda>_. True) i c) = videos [(sid, t, p)] @ fst (agent_ingest (\<lambda>_. True) i' c')"
proof -
  let ?h = "\<lparr>ph_length = of_nat (TCP_HEADER_SIZE + length p), ph_type = t, ph_stream_id = sid\<rparr>"
  have len: "TCP_HEADER_SIZE + length p \<le> TCP_MAX_PACKET_SIZE" using ok by (simp add: agent_frame_ok_def)
  note F = frame_header [OF len]
  obtain c1 where 1: "agent_recv_exact TCP_HEADER_SIZE c = Some (0, header_bytes ?h, c1)"
    "conn_full c1" "c_pending c1 = p @ rest"
    using agent_recv_full [OF c(1), of "header_bytes ?h" "p @ rest" TCP_HEADER_SIZE] c(2) F(1) by auto
  have h: "tlv_parse_header (Some (header_bytes ?h)) = Some ?h"
    using tlv_parse_header_bytes [of ?h "[]"] ok F(2)
    by (simp add: agent_header_ok_def agent_frame_ok_def)
  have le: "\<not> TCP_MAX_PACKET_SIZE < length p" using len by simp
  show ?thesis
  proof (cases "p = []")
    case True
    then have "agent_ingest (\<lambda>_. True) i c = agent_ingest (\<lambda>_. True) i c1"
      using 1(1) h F(3) le by (subst agent_ingest.simps) (simp add: Let_def)
    then show ?thesis using that [OF 1(2), of i] 1(3) True by (simp add: videos_def)
  next
    case False
    obtain c2 where 2: "agent_recv_exact (length p) c1 = Some (0, p, c2)" "conn_full c2" "c_pending c2 = rest"
      using agent_recv_full [OF 1(2,3) refl] .
    have "fst (agent_ingest (\<lambda>_. True) i c) =
        (if t = TCP_MSG_TYPE_VIDEO_DATA then (sid, p) # fst (agent_ingest (\<lambda>_. True) (i + 1) c2)
         else fst (agent_ingest (\<lambda>_. True) (i + 1) c2))"
      using 1(1) h F(3) le 2(1) False
      by (subst agent_ingest.simps) (simp add: Let_def split: prod.split)
    then show ?thesis using that [OF 2(2,3), of "i + 1"] False by (simp add: videos_def)
  qed
qed

lemma agent_ingest_end:
  assumes "c_pending c = []"
  shows "fst (agent_ingest alloc i c) = []"
proof (cases "agent_recv_exact TCP_HEADER_SIZE c")
  case None
  then show ?thesis by (subst agent_ingest.simps) simp
next
  case (Some r)
  obtain rc bs c1 where r: "r = (rc, bs, c1)" by (metis prod.exhaust)
  have "bs = []" using agent_read.rd_conserves [of TCP_HEADER_SIZE c rc bs c1] Some r assms by simp
  then have "rc < 0" using agent_read.rd_length [of TCP_HEADER_SIZE c rc bs c1] Some r
    by (auto simp: TCP_HEADER_SIZE_def)
  then show ?thesis using Some r by (subst agent_ingest.simps) simp
qed

lemma agent_ingest_frames:
  assumes "c_pending c = wire fs" and "list_all agent_frame_ok fs" and "conn_full c"
  shows "fst (agent_ingest (\<lambda>_. True) i c) = videos fs"
  using assms
proof (induction fs arbitrary: c i)
  case Nil
  then show ?case by (simp add: agent_ingest_end wire_def videos_def)
next
  case (Cons f fs)
  obtain sid t p where f: "f = (sid, t, p)" by (metis prod.exhaust)
  have "c_pending c = frame sid t p @ wire fs" using Cons.prems(1) f by (simp add: wire_def)
  from agent_ingest_frame [OF Cons.prems(3) this, where i = i] obtain c' i' where
    "conn_full c'" "c_pending c' = wire fs"
    "fst (agent_ingest (\<lambda>_. True) i c) = videos [(sid, t, p)] @ fst (agent_ingest (\<lambda>_. True) i' c')"
    using Cons.prems(2) f by auto
  then show ?case using Cons.IH [of c' i'] Cons.prems(2) f by (simp add: videos_Cons videos_def)
qed

text \<open>the agent publishes exactly the video frames of the wire, each under the stream of its
  header, whole, once and in order, however the bytes arrive; empty and other frames are
  skipped without losing the framing.\<close>

theorem agent_ingest_wire:
  assumes "c_pending c = wire fs" and "list_all agent_frame_ok fs" and "conn_full c"
  shows "fst (agent_ingest (\<lambda>_. True) i c) = videos fs"
  using assms by (rule agent_ingest_frames)

theorem agent_ingest_wire_witness:
  "let fs = [(3, TCP_MSG_TYPE_HEARTBEAT, []), (3, TCP_MSG_TYPE_VIDEO_DATA, [1, 2, 3])] in
   fst (agent_ingest (\<lambda>_. True) 0 \<lparr>c_pending = wire fs, c_schedule = replicate 17 (Deliver 4)\<rparr>) =
     [(3, [1, 2, 3])]"
proof -
  let ?fs = "[(3, TCP_MSG_TYPE_HEARTBEAT, []), (3, TCP_MSG_TYPE_VIDEO_DATA, [1, 2, 3])] :: wire_frame list"
  have "fst (agent_ingest (\<lambda>_. True) 0 \<lparr>c_pending = wire ?fs, c_schedule = replicate 17 (Deliver 4)\<rparr>) = videos ?fs"
    by (rule agent_ingest_wire)
      (simp_all add: agent_frame_ok_def AGENT_MAX_STREAMS_def protocol_consts conn_full_def wire_def
        frame_def sender_header_def is_Deliver_def list_all_iff)
  then show ?thesis by (simp add: Let_def videos_def protocol_consts)
qed

section \<open>Control connections\<close>

definition bytes_of :: "string \<Rightarrow> u8 list" where
  "bytes_of s = map (\<lambda>c. of_nat (of_char c)) s"

lemma chars_of_bytes_of [simp]: "chars_of (bytes_of s) = s"
proof -
  have "char_of (unat (of_nat (of_char c) :: u8)) = c" for c :: char
    using nat_of_char_less_256 [of c] by (simp add: unat_of_nat take_bit_eq_mod)
  then show ?thesis by (simp add: chars_of_def bytes_of_def comp_def)
qed

lemma chars_of_append [simp]: "chars_of (xs @ ys) = chars_of xs @ chars_of ys"
  by (simp add: chars_of_def)

lemma length_chars_of [simp]: "length (chars_of xs) = length xs" "length (bytes_of s) = length s"
  by (simp_all add: chars_of_def bytes_of_def)

lemma chars_of_take: "chars_of (take n xs) = take n (chars_of xs)"
  by (simp add: chars_of_def take_map)

lemma takeWhile_take_neq:
  "x \<in> set (take n xs) \<Longrightarrow> takeWhile (\<lambda>c. c \<noteq> x) (take n xs) = takeWhile (\<lambda>c. c \<noteq> x) xs"
proof (induction xs arbitrary: n)
  case (Cons y ys)
  then show ?case by (cases n) auto
qed simp

definition auth_blank :: "char \<Rightarrow> bool" where
  "auth_blank c \<longleftrightarrow> c = CHR '' '' \<or> c = CHR 0x09 \<or> c = CHR 0x0D \<or> c = NL"

text \<open>What an accepted line says.\<close>

definition auth_line :: "string \<Rightarrow> string \<Rightarrow> bool" where
  "auth_line token line \<longleftrightarrow>
     (let p = dropWhile auth_blank line in
      take 5 p = ''AUTH '' \<and> take 255 (takeWhile (\<lambda>c. c \<noteq> NL \<and> c \<noteq> CHR 0x0D) (drop 5 p)) = token)"

lemma take_line: "NL \<in> set s \<Longrightarrow> take (Suc (length (takeWhile (\<lambda>c. c \<noteq> NL) s))) s = takeWhile (\<lambda>c. c \<noteq> NL) s @ [NL]"
  by (induction s) auto

lemma c_str_prefix: "take (length (c_str s)) s = c_str s" "length (c_str s) \<le> length s"
  by (induction s) (auto simp: c_str_def)

lemma line_shorter: "NL \<in> set s \<Longrightarrow> length (takeWhile (\<lambda>c. c \<noteq> NL) s) < length s"
  by (induction s) auto

lemma auth_line_at:
  assumes "NL \<in> set (c_str (chars_of (take n pend)))"
  defines "l \<equiv> takeWhile (\<lambda>c. c \<noteq> NL) (c_str (chars_of (take n pend)))"
  shows "chars_of (take (length l + 1) pend) = l @ [NL]" "NL \<notin> set l" "length l < n"
proof -
  let ?t = "chars_of (take n pend)" and ?s = "c_str (chars_of (take n pend))"
  have ll: "length l + 1 \<le> length ?s"
    using line_shorter [OF assms(1)] by (simp add: l_def)
  have sn: "length ?s \<le> n" using c_str_prefix(2) [of ?t] by simp
  have "take (length l + 1) (chars_of pend) = take (length l + 1) (take (length ?s) (take n (chars_of pend)))"
    using ll sn by (simp add: min_def)
  also have "take (length ?s) (take n (chars_of pend)) = ?s"
    using c_str_prefix(1) [of ?t] by (simp add: chars_of_take)
  also have "take (length l + 1) ?s = l @ [NL]"
    unfolding l_def using take_line [OF assms(1)] by simp
  finally show "chars_of (take (length l + 1) pend) = l @ [NL]" by (simp add: chars_of_take)
  show "NL \<notin> set l" unfolding l_def using set_takeWhileD by force
  show "length l < n" using ll sn by simp
qed

lemma auth_loop_found:
  assumes n: "n = min k (min 511 (length pend))" "0 < n"
    and nl: "NL \<in> set (c_str (chars_of (take n pend)))"
  defines "l \<equiv> takeWhile (\<lambda>c. c \<noteq> NL) (c_str (chars_of (take n pend)))"
  shows "auth_loop (Arrived k # evs) token pend =
    Some (if auth_line token (l @ [NL]) then 0 else - 1, drop (length l + 1) pend)"
proof -
  have bl: "(\<lambda>c. c = CHR '' '' \<or> c = CHR 0x09 \<or> c = CHR 0x0D \<or> c = NL) = auth_blank"
    by (simp add: fun_eq_iff auth_blank_def)
  show ?thesis
    using n(2) nl auth_line_at(1) [OF nl]
    unfolding auth_loop.simps n(1) [symmetric] Let_def bl l_def [symmetric] auth_line_def by simp
qed

lemma auth_loop_wait:
  assumes "0 < k" "k < 511" "k \<le> length pend" "NL \<notin> set (c_str (chars_of (take k pend)))"
  shows "auth_loop (Arrived k # evs) token pend = auth_loop evs token pend"
proof -
  have "min k (min 511 (length pend)) = k" using assms(2,3) by simp
  then show ?thesis using assms by simp
qed

lemma auth_loop_waits:
  assumes "list_all (\<lambda>k. 0 < k \<and> k < m) ks" "m \<le> 511" "m \<le> length pend"
    "\<And>k. k < m \<Longrightarrow> NL \<notin> set (c_str (chars_of (take k pend)))"
  shows "auth_loop (map Arrived ks @ evs) token pend = auth_loop evs token pend"
  using assms(1)
proof (induction ks)
  case (Cons k ks)
  then have "auth_loop (Arrived k # map Arrived ks @ evs) token pend = auth_loop (map Arrived ks @ evs) token pend"
    using assms(2-4) by (intro auth_loop_wait) auto
  then show ?case using Cons by simp
qed simp

lemma take_whole_prefix: "length xs = m \<Longrightarrow> m \<le> n \<Longrightarrow> take n (xs @ ys) = xs @ take (n - m) ys"
  by simp

lemma c_str_append: "CHR 0x00 \<notin> set s \<Longrightarrow> c_str (s @ t) = s @ c_str t"
  by (induction s) (auto simp: c_str_def)

lemma auth_loop_accepts:
  assumes "auth_loop evs token pend = Some (0, rest)"
  shows "\<exists>l. chars_of (take (length l + 1) pend) = l @ [NL] \<and> rest = drop (length l + 1) pend \<and>
    NL \<notin> set l \<and> length l < 511 \<and> auth_line token (l @ [NL])"
  using assms
proof (induction evs)
  case (Cons ev evs)
  show ?case
  proof (cases ev)
    case (Arrived k)
    define n where "n = min k (min 511 (length pend))"
    let ?s = "c_str (chars_of (take n pend))"
    have n0: "0 < n" using Cons.prems unfolding Arrived auth_loop.simps n_def [symmetric]
      by (simp split: if_splits)
    show ?thesis
    proof (cases "NL \<in> set ?s")
      case True
      let ?l = "takeWhile (\<lambda>c. c \<noteq> NL) ?s"
      have "auth_line token (?l @ [NL]) \<and> rest = drop (length ?l + 1) pend"
        using Cons.prems auth_loop_found [OF n_def n0 True, of evs token] Arrived
        by (simp split: if_splits)
      moreover have "n \<le> 511" by (simp add: n_def)
      ultimately show ?thesis
        using auth_line_at [OF True] by (intro exI [of _ ?l]) auto
    next
      case False
      then have "auth_loop evs token pend = Some (0, rest)"
        using Cons.prems n0 unfolding Arrived auth_loop.simps n_def [symmetric] Let_def
        by (simp split: if_splits)
      then show ?thesis by (rule Cons.IH)
    qed
  qed (use Cons.prems in simp)
qed simp

text \<open>C37: a control connection is accepted only on the first line of its input, which must be
  \<open>AUTH\<close> and the token, and exactly that line is taken from the stream, so what was sent
  behind it in the same segment is still there for the next reader.\<close>

theorem agent_auth_exact:
  assumes "agent_auth_read_and_check evs (Some token) pend = Some (0, rest)" and "token \<noteq> []"
  shows "\<exists>l. chars_of pend = l @ [NL] @ chars_of rest \<and> NL \<notin> set l \<and> length l < 511 \<and>
    auth_line token (l @ [NL])"
proof -
  obtain l where l: "chars_of (take (length l + 1) pend) = l @ [NL]" "rest = drop (length l + 1) pend"
    "NL \<notin> set l" "length l < 511" "auth_line token (l @ [NL])"
    using auth_loop_accepts [of evs token pend rest] assms by (auto simp: agent_auth_read_and_check_def)
  have "chars_of pend = chars_of (take (length l + 1) pend) @ chars_of rest"
    unfolding l(2) chars_of_append [symmetric] append_take_drop_id ..
  then show ?thesis using l by auto
qed

theorem agent_auth_exact_witness:
  "\<exists>l. chars_of (bytes_of (''AUTH '' @ ''tok'' @ [NL]) @ bytes_of ''x'') = l @ [NL] @ chars_of (bytes_of ''x'') \<and> auth_line ''tok'' (l @ [NL])"
proof -
  let ?p = "bytes_of (''AUTH '' @ ''tok'' @ [NL]) @ bytes_of ''x''"
  have t: "chars_of (take 10 ?p) = ''AUTH '' @ ''tok'' @ [NL] @ chars_of (bytes_of ''x'')"
    unfolding chars_of_take chars_of_append by simp
  have c: "c_str (chars_of (take 10 ?p)) = ''AUTH '' @ ''tok'' @ [NL] @ chars_of (bytes_of ''x'')"
    unfolding t by (rule c_str_id) (simp add: NL_def)
  have nl: "NL \<in> set (c_str (chars_of (take 10 ?p)))" unfolding c by simp
  have l: "takeWhile (\<lambda>c. c \<noteq> NL) (c_str (chars_of (take 10 ?p))) = ''AUTH '' @ ''tok''"
    unfolding c by (simp add: NL_def)
  have a: "auth_line ''tok'' ((''AUTH '' @ ''tok'') @ [NL])"
    by (simp add: auth_line_def auth_blank_def NL_def)
  have "auth_loop [Arrived 99] ''tok'' ?p = Some (0, drop (length (''AUTH '' @ ''tok'') + 1) ?p)"
    using auth_loop_found [OF _ _ nl, of 99 "[]" "''tok''"] a unfolding l
    by (simp del: auth_loop.simps)
  then have "auth_loop [Arrived 99] ''tok'' ?p = Some (0, bytes_of ''x'')" by (simp del: auth_loop.simps)
  then have "agent_auth_read_and_check [Arrived 99] (Some ''tok'') ?p = Some (0, bytes_of ''x'')"
    by (simp add: agent_auth_read_and_check_def)
  from agent_auth_exact [OF this] show ?thesis by blast
qed

text \<open>a complete correct line is accepted as soon as it has arrived, after any number of
  partial arrivals, and the rest of the stream is left alone.\<close>

theorem agent_auth_complete:
  assumes "pend = bytes_of (''AUTH '' @ token @ [NL]) @ rest"
    and "list_all (\<lambda>c. c \<noteq> NL \<and> c \<noteq> CHR 0x0D \<and> c \<noteq> CHR 0x00) token" and "token \<noteq> []" "length token \<le> 255"
    and "list_all (\<lambda>k. 0 < k \<and> k < length token + 6) ks" and "length token + 6 \<le> k"
  shows "agent_auth_read_and_check (map Arrived ks @ [Arrived k]) (Some token) pend = Some (0, rest)"
proof -
  let ?L = "''AUTH '' @ token @ [NL]"
  let ?m = "length token + 6"
  have tok: "\<forall>c \<in> set token. c \<noteq> NL \<and> c \<noteq> CHR 0x0D \<and> c \<noteq> CHR 0x00" using assms(2) by (simp add: list_all_iff)
  have nul: "CHR 0x00 \<notin> set ?L" and front: "NL \<notin> set (''AUTH '' @ token)"
    using tok by (auto simp: NL_def)
  have m: "length ?L = ?m" "?m \<le> length pend" "?m \<le> 511" using assms(1,4) by simp_all
  have cs: "chars_of pend = ?L @ chars_of rest" by (simp add: assms(1) del: append.simps)
  have wait: "NL \<notin> set (c_str (chars_of (take j pend)))" if "j < ?m" for j
  proof -
    have "chars_of (take j pend) = take j (''AUTH '' @ token)"
    proof -
      have "chars_of pend = (''AUTH '' @ token) @ NL # chars_of rest" by (simp add: cs)
      moreover have "j \<le> length (''AUTH '' @ token)" using that by simp
      ultimately show ?thesis by (simp only: chars_of_take take_append) simp
    qed
    then have "set (c_str (chars_of (take j pend))) \<subseteq> set (''AUTH '' @ token)"
      unfolding c_str_def by (metis set_take_subset set_takeWhileD subsetI subsetD)
    then show ?thesis using front by blast
  qed
  define n where "n = min k (min 511 (length pend))"
  have n: "?m \<le> n" using m assms(6) by (simp add: n_def)
  have "chars_of (take n pend) = ?L @ take (n - ?m) (chars_of rest)"
    unfolding chars_of_take cs by (rule take_whole_prefix [OF m(1) n])
  then have c: "c_str (chars_of (take n pend)) = ?L @ c_str (take (n - ?m) (chars_of rest))"
    using c_str_append [OF nul] by simp
  have nl: "NL \<in> set (c_str (chars_of (take n pend)))" unfolding c by simp
  have l: "takeWhile (\<lambda>c. c \<noteq> NL) (c_str (chars_of (take n pend))) = ''AUTH '' @ token"
    unfolding c using takeWhile_to_NL(1) [OF front, of "c_str (take (n - ?m) (chars_of rest))"] by simp
  have line: "auth_line token (''AUTH '' @ token @ [NL])"
  proof -
    have "takeWhile (\<lambda>c. c \<noteq> NL \<and> c \<noteq> CHR 0x0D) (token @ [NL]) = token"
      using tok by (subst takeWhile_append2) auto
    then show ?thesis using assms(4) by (simp add: auth_line_def auth_blank_def NL_def)
  qed
  have "auth_loop [Arrived k] token pend = Some (0, drop ?m pend)"
  proof -
    have lm: "length (''AUTH '' @ token) + 1 = ?m" and n0: "0 < n" using n by simp_all
    show ?thesis
      using auth_loop_found [OF n_def n0 nl, of "[]" token, unfolded l lm] line
      by (simp del: auth_loop.simps)
  qed
  moreover have "drop ?m pend = rest" using m(1) by (simp add: assms(1))
  ultimately show ?thesis
    using auth_loop_waits [OF assms(5) m(3,2) wait, of "[Arrived k]" token] assms(3)
    by (simp add: agent_auth_read_and_check_def)
qed

theorem agent_auth_complete_witness:
  "agent_auth_read_and_check [Arrived 3, Arrived 8, Arrived 20] (Some ''tok'')
     (bytes_of (''AUTH '' @ ''tok'' @ [NL]) @ [0, 0, 0, 1, 9]) = Some (0, [0, 0, 0, 1, 9])"
proof -
  have "agent_auth_read_and_check (map Arrived [3, 8] @ [Arrived 20]) (Some ''tok'')
     (bytes_of (''AUTH '' @ ''tok'' @ [NL]) @ [0, 0, 0, 1, 9]) = Some (0, [0, 0, 0, 1, 9])"
    by (rule agent_auth_complete [OF refl]) (simp_all add: NL_def)
  then show ?thesis by (simp only: list.map append.simps)
qed

text \<open>a peer that sends part of a line and no newline keeps the thread in the peeking loop
  for ever: the receive timeout only bounds the wait for the first byte.\<close>

theorem agent_auth_spins:
  assumes "pend \<noteq> []" "length pend < 511" "NL \<notin> set (c_str (chars_of pend))" "token \<noteq> []"
  shows "agent_auth_read_and_check (replicate n (Arrived (length pend))) (Some token) pend = None"
proof -
  have "auth_loop (Arrived (length pend) # evs) token pend = auth_loop evs token pend" for evs
    using assms by (intro auth_loop_wait) auto
  then have "auth_loop (replicate n (Arrived (length pend))) token pend = None"
    by (induction n) (simp_all del: auth_loop.simps(3))
  then show ?thesis using assms(4) by (simp add: agent_auth_read_and_check_def)
qed

theorem agent_auth_spins_witness:
  "agent_auth_read_and_check (replicate 1000 (Arrived 4)) (Some ''tok'') (bytes_of ''AUTH'') = None"
proof -
  have l: "length (bytes_of ''AUTH'') = 4" by simp
  have "agent_auth_read_and_check (replicate 1000 (Arrived (length (bytes_of ''AUTH'')))) (Some ''tok'')
      (bytes_of ''AUTH'') = None"
  proof (rule agent_auth_spins)
    show "bytes_of ''AUTH'' \<noteq> []" by (simp add: bytes_of_def)
    show "NL \<notin> set (c_str (chars_of (bytes_of ''AUTH'')))" by (simp add: c_str_def NL_def)
  qed simp_all
  then show ?thesis by (simp only: l)
qed

text \<open>The frames of the control channel: a length of 1 to 4096, then that many bytes.\<close>

definition ctrl_wire :: "u8 list list \<Rightarrow> u8 list" where
  "ctrl_wire ds = concat (map (\<lambda>d. put_be32 (of_nat (length d) :: u32) @ d) ds)"

lemma ctrl_forward_end:
  assumes "c_pending c = []"
  shows "fst (ctrl_forward c) = []"
proof (cases "agent_recv_exact 4 c")
  case None
  then show ?thesis by (subst ctrl_forward.simps) simp
next
  case (Some r)
  obtain rc bs c1 where r: "r = (rc, bs, c1)" by (metis prod.exhaust)
  have "bs = []" using agent_read.rd_conserves [of 4 c rc bs c1] Some r assms by simp
  then have "rc < 0" using agent_read.rd_length [of 4 c rc bs c1] Some r by auto
  then show ?thesis using Some r by (subst ctrl_forward.simps) simp
qed

lemma ctrl_forward_frames:
  assumes "c_pending c = ctrl_wire ds" and "list_all (\<lambda>d. d \<noteq> [] \<and> length d \<le> 4096) ds" and "conn_full c"
  shows "fst (ctrl_forward c) = ds"
  using assms
proof (induction ds arbitrary: c)
  case Nil
  then show ?case by (simp add: ctrl_forward_end ctrl_wire_def)
next
  case (Cons d ds)
  let ?len = "put_be32 (of_nat (length d) :: u32)"
  have d: "d \<noteq> []" "length d \<le> 4096" using Cons.prems(2) by auto
  have p: "c_pending c = ?len @ d @ ctrl_wire ds" using Cons.prems(1) by (simp add: ctrl_wire_def)
  obtain c1 where 1: "agent_recv_exact 4 c = Some (0, ?len, c1)" "conn_full c1"
      "c_pending c1 = d @ ctrl_wire ds"
    using agent_recv_full [OF Cons.prems(3) p] by auto
  obtain c2 where 2: "agent_recv_exact (length d) c1 = Some (0, d, c2)" "conn_full c2"
      "c_pending c2 = ctrl_wire ds"
    using agent_recv_full [OF 1(2,3) refl] .
  have n: "unat (be32 (?len ! 0) (?len ! 1) (?len ! 2) (?len ! 3)) = length d"
    using d(2) by (simp add: put_be32_def be32_byte_at unat_of_nat_32)
  have "fst (ctrl_forward c) = d # fst (ctrl_forward c2)"
    using 1(1) 2(1) d n by (subst ctrl_forward.simps) (simp add: Let_def split: prod.split)
  then show ?case using Cons.IH [OF 2(3) _ 2(2)] Cons.prems(2) by simp
qed

text \<open>the control channel forwards every frame as one datagram with the same bytes, in order,
  however TCP delivers them.\<close>

theorem ctrl_forward_wire:
  assumes "c_pending c = ctrl_wire ds" and "list_all (\<lambda>d. d \<noteq> [] \<and> length d \<le> 4096) ds" and "conn_full c"
  shows "fst (ctrl_forward c) = ds"
  using assms by (rule ctrl_forward_frames)

theorem ctrl_forward_wire_witness:
  "fst (ctrl_forward \<lparr>c_pending = ctrl_wire [[1, 2], [3]], c_schedule = replicate 20 (Deliver 0)\<rparr>) = [[1, 2], [3]]"
  by (rule ctrl_forward_wire)
    (simp_all add: conn_full_def ctrl_wire_def put_be32_def is_Deliver_def list_all_iff)

text \<open>the token is set only after the accept thread has been started: a subscriber that
  connects in between subscribes without it, whatever token is configured.\<close>

theorem agent_token_window:
  assumes "agent_main_start e opts t w = (0, t1, t2)" and "at_token t = []"
    and "parse_args opts cfg_init = (0, cfg)" and "ac_token cfg \<noteq> []"
  shows "do_handshake evs (at_token t1) pend = hs_loop evs [] True [] pend \<and> at_token t2 \<noteq> []"
proof -
  have "at_token t1 = []" using assms
    by (auto simp: agent_main_start_def agent_h264_tap_start_def Let_def split: prod.splits if_splits)
  moreover have "at_token t2 = snprintf_s 256 (ac_token cfg)"
    using assms by (auto simp: agent_main_start_def h264_tap_set_worker_ctrl_def h264_tap_set_token_def
        split: prod.splits if_splits)
  moreover have "snprintf_s 256 (ac_token cfg) \<noteq> []" using assms(4) by (simp add: snprintf_s_def)
  ultimately show ?thesis by (simp add: do_handshake_def)
qed

theorem agent_token_window_witness:
  "\<exists>(t1 :: agent_tap) (t2 :: agent_tap). do_handshake [HsRecv (Deliver 9)] (at_token t1) ''SUB 3'' =
     hs_loop [HsRecv (Deliver 9)] [] True [] ''SUB 3'' \<and> at_token t2 \<noteq> []"
proof -
  let ?e = "\<lparr>se_stall = None, se_drop = None, se_socket = 3, se_pton = \<lambda>_. True, se_bind_ok = True,
    se_listen_ok = True, se_thread_ok = True\<rparr>"
  let ?t = "\<lparr>at_listen_fd = 0, at_running = False, at_clients = [], at_sps = \<lambda>_. None, at_pps = \<lambda>_. None,
    at_stall_ms = 200, at_drop_to_idr = True, at_token = [], at_worker_ip = [], at_worker_port = 0\<rparr>"
  let ?opts = "[Some (''token'', ''s3cret'')]"
  have p: "parse_args ?opts cfg_init = (0, cfg_init\<lparr>ac_token := ''s3cret''\<rparr>)"
    by (simp add: apply_opt_def snprintf_s_def)
  obtain t1 t2 where m: "agent_main_start ?e ?opts ?t (ex_tap_net []) = (0, t1, t2)"
    unfolding agent_main_start_def p prod.case by (simp add: cfg_init_def agent_h264_tap_start_def Let_def)
  have t: "at_token ?t = []" "ac_token (cfg_init\<lparr>ac_token := ''s3cret''\<rparr>) \<noteq> []" by simp_all
  have "do_handshake [HsRecv (Deliver 9)] (at_token t1) ''SUB 3'' =
      hs_loop [HsRecv (Deliver 9)] [] True [] ''SUB 3'' \<and> at_token t2 \<noteq> []"
    using agent_token_window [OF m _ p] by simp
  then show ?thesis by blast
qed

end
