(* ===== verification/AgentThreads.thy ===== *)
theory AgentThreads
  imports Agent "HOL-Library.Multiset"
begin

text \<open>
  The two listening threads of the agent (\<open>strem_agent_server/src/main.c\<close>): the one that takes
  video connections, one after the other, and the one that starts a thread for every control
  connection. Nothing clears \<open>g_running\<close> before the endless loop of \<open>main\<close>, so its reads are
  left out; a list of answers that is used up leaves the thread in its next call.
\<close>

section \<open>Control connections\<close>

record CtrlClientArgs =
  ca_fd :: int
  ca_token :: string
  ca_worker_ctrl_ip :: string
  ca_worker_ctrl_port :: u16

record ctrl_answer =
  cn_accept :: int
  cn_calloc :: bool
  cn_thread :: bool

text \<open>The threads started, and the descriptors closed.\<close>

fun ctrl_accept_loop :: "AgentCfg \<Rightarrow> ctrl_answer list \<Rightarrow> CtrlClientArgs list \<times> int list" where
  "ctrl_accept_loop cfg [] = ([], [])"
| "ctrl_accept_loop cfg (r # rs) =
     (let cfd = cn_accept r in
      if cfd < 0 then ctrl_accept_loop cfg rs
      else if \<not> cn_calloc r then (case ctrl_accept_loop cfg rs of (ths, cl) \<Rightarrow> (ths, cfd # cl))
      else
        let a = \<lparr>ca_fd = cfd, ca_token = snprintf_s 256 (ac_token cfg),
                 ca_worker_ctrl_ip = snprintf_s 64 (ac_worker_ctrl_ip cfg), ca_worker_ctrl_port = ac_worker_ctrl_port cfg\<rparr>
        in if \<not> cn_thread r then (case ctrl_accept_loop cfg rs of (ths, cl) \<Rightarrow> (ths, cfd # cl))
           else (case ctrl_accept_loop cfg rs of (ths, cl) \<Rightarrow> (a # ths, cl)))"

definition ctrl_tcp_thread :: "listen_env \<Rightarrow> AgentCfg \<Rightarrow> ctrl_answer list \<Rightarrow> CtrlClientArgs list \<times> int list" where
  "ctrl_tcp_thread e cfg rs =
     (case tcp_listen e (Some (ac_ctrl_bind cfg)) (ac_ctrl_port cfg) 32 of (lfd, closed) \<Rightarrow>
        if lfd < 0 then ([], closed)
        else (case ctrl_accept_loop cfg rs of (ths, cl) \<Rightarrow> (ths, closed @ cl)))"

section \<open>Video connections\<close>

text \<open>What \<open>accept\<close> answers, what the connection then carries, and the answers of \<open>malloc\<close>.\<close>

record ingest_answer =
  ig_accept :: int
  ig_conn :: conn
  ig_malloc :: "nat \<Rightarrow> bool"

text \<open>
  The units published, the descriptors closed, and the answers not asked for: a connection that
  has not ended keeps the thread in \<open>recv\<close>.
\<close>

fun ingest_loop :: "ingest_answer list \<Rightarrow> (u16 \<times> u8 list) list \<times> int list \<times> ingest_answer list" where
  "ingest_loop [] = ([], [], [])"
| "ingest_loop (r # rs) =
     (if ig_accept r < 0 then ingest_loop rs
      else case agent_ingest (ig_malloc r) 0 (ig_conn r) of
        (ps, None) \<Rightarrow> (ps, [], rs)
      | (ps, Some _) \<Rightarrow> (case ingest_loop rs of (qs, cl, left) \<Rightarrow> (ps @ qs, ig_accept r # cl, left)))"

definition ingest_thread ::
  "listen_env \<Rightarrow> AgentCfg \<Rightarrow> ingest_answer list \<Rightarrow> (u16 \<times> u8 list) list \<times> int list \<times> ingest_answer list" where
  "ingest_thread e cfg rs =
     (case tcp_listen e (Some (ac_in_host cfg)) (ac_in_port cfg) 32 of (lfd, closed) \<Rightarrow>
        if lfd < 0 then ([], closed, rs)
        else (case ingest_loop rs of (ps, cl, left) \<Rightarrow> (ps, closed @ cl, left)))"

section \<open>Every control connection has one owner\<close>

definition accepted_fds :: "ctrl_answer list \<Rightarrow> int list" where
  "accepted_fds rs = filter (\<lambda>fd. 0 \<le> fd) (map cn_accept rs)"

lemma ctrl_accept_loop_owners:
  "case ctrl_accept_loop cfg rs of (ths, cl) \<Rightarrow>
     mset (accepted_fds rs) = mset (map ca_fd ths) + mset cl \<and>
     (\<forall>a \<in> set ths. ca_token a = snprintf_s 256 (ac_token cfg) \<and>
        ca_worker_ctrl_ip a = snprintf_s 64 (ac_worker_ctrl_ip cfg) \<and> ca_worker_ctrl_port a = ac_worker_ctrl_port cfg)"
proof (induction rs)
  case (Cons r rs)
  obtain ths cl where l: "ctrl_accept_loop cfg rs = (ths, cl)" by (metis prod.exhaust)
  show ?case using Cons by (auto simp: l Let_def accepted_fds_def)
qed (simp add: accepted_fds_def)

text \<open>Options and defaults fit their fields, so the copies for the threads lose nothing.\<close>

definition cfg_fits :: "AgentCfg \<Rightarrow> bool" where
  "cfg_fits c \<longleftrightarrow> length (ac_token c) < 256 \<and> length (ac_worker_ctrl_ip c) < 64"

lemma apply_opt_fits: "cfg_fits c \<Longrightarrow> cfg_fits (apply_opt name v c)"
  using length_snprintf_s [of 256 v] length_snprintf_s [of 64 v] by (simp add: apply_opt_def cfg_fits_def)

lemma parse_args_fits: "cfg_fits c \<Longrightarrow> cfg_fits (snd (parse_args opts c))"
  by (induction opts c rule: parse_args.induct) (auto simp: apply_opt_fits)

lemma cfg_init_fits: "cfg_fits cfg_init"
  by (simp add: cfg_fits_def cfg_init_def)

text \<open>every control connection the agent accepts has exactly one owner, the thread started for it or
  the listener that closes it at once, and every such thread works with exactly the token and
  the worker's address of the command line.\<close>

theorem ctrl_connections_owned:
  assumes "parse_args opts cfg_init = (0, cfg)" and "tcp_listen e (Some (ac_ctrl_bind cfg)) (ac_ctrl_port cfg) 32 = (lfd, [])"
    and "0 \<le> lfd" and "ctrl_tcp_thread e cfg rs = (ths, closed)"
  shows "mset (accepted_fds rs) = mset (map ca_fd ths) + mset closed \<and>
    (\<forall>a \<in> set ths. ca_token a = ac_token cfg \<and> ca_worker_ctrl_ip a = ac_worker_ctrl_ip cfg \<and>
       ca_worker_ctrl_port a = ac_worker_ctrl_port cfg)"
proof -
  have "cfg_fits cfg" using parse_args_fits [OF cfg_init_fits, of opts] assms(1) by simp
  then have "snprintf_s 256 (ac_token cfg) = ac_token cfg" "snprintf_s 64 (ac_worker_ctrl_ip cfg) = ac_worker_ctrl_ip cfg"
    by (simp_all add: cfg_fits_def snprintf_s_def)
  then show ?thesis using ctrl_accept_loop_owners [of rs cfg] assms(2-4)
    by (auto simp: ctrl_tcp_thread_def split: prod.splits)
qed

theorem ctrl_connections_owned_witness:
  "\<exists>cfg. parse_args [Some (''token'', ''s3cret'')] cfg_init = (0, cfg) \<and>
     (case ctrl_tcp_thread \<lparr>le_socket = 4, le_pton = \<lambda>_. True, le_bind_ok = True, le_listen = \<lambda>_. True\<rparr> cfg
        [\<lparr>cn_accept = 7, cn_calloc = True, cn_thread = True\<rparr>, \<lparr>cn_accept = - 1, cn_calloc = True, cn_thread = True\<rparr>,
         \<lparr>cn_accept = 8, cn_calloc = True, cn_thread = False\<rparr>] of (ths, closed) \<Rightarrow>
      mset [7, 8] = mset (map ca_fd ths) + mset closed \<and> (\<forall>a \<in> set ths. ca_token a = ''s3cret''))"
proof -
  let ?rs = "[\<lparr>cn_accept = 7, cn_calloc = True, cn_thread = True\<rparr>, \<lparr>cn_accept = - 1, cn_calloc = True, cn_thread = True\<rparr>,
    \<lparr>cn_accept = 8, cn_calloc = True, cn_thread = False\<rparr>]"
  let ?e = "\<lparr>le_socket = 4, le_pton = \<lambda>_. True, le_bind_ok = True, le_listen = \<lambda>_. True\<rparr>"
  let ?cfg = "cfg_init\<lparr>ac_token := ''s3cret''\<rparr>"
  have p: "parse_args [Some (''token'', ''s3cret'')] cfg_init = (0, ?cfg)"
    by (simp add: apply_opt_def snprintf_s_def)
  obtain ths closed where c: "ctrl_tcp_thread ?e ?cfg ?rs = (ths, closed)" by (metis prod.exhaust)
  have l: "tcp_listen ?e (Some (ac_ctrl_bind ?cfg)) (ac_ctrl_port ?cfg) 32 = (4, [])" by (simp add: tcp_listen_def)
  show ?thesis using ctrl_connections_owned [OF p l _ c] p c by (simp add: accepted_fds_def)
qed

section \<open>One video connection at a time\<close>

text \<open>A connection that carries whole frames and then ends.\<close>

definition serves :: "ingest_answer \<Rightarrow> wire_frame list \<Rightarrow> bool" where
  "serves r fs \<longleftrightarrow> 0 \<le> ig_accept r \<and> ig_malloc r = (\<lambda>_. True) \<and> c_pending (ig_conn r) = wire fs \<and>
     list_all agent_frame_ok fs \<and> conn_full (ig_conn r)"

definition ends :: "ingest_answer \<Rightarrow> bool" where
  "ends r \<longleftrightarrow> snd (agent_ingest (ig_malloc r) 0 (ig_conn r)) \<noteq> None"

lemma serves_published: "serves r fs \<Longrightarrow> fst (agent_ingest (ig_malloc r) 0 (ig_conn r)) = videos fs"
  using agent_ingest_frames [of "ig_conn r" fs 0] by (simp add: serves_def)

lemma ingest_served:
  assumes "serves r fs" and "ends r"
  shows "ingest_loop (r # rs) = (case ingest_loop rs of (qs, cl, left) \<Rightarrow> (videos fs @ qs, ig_accept r # cl, left))"
proof -
  obtain ps d where a: "agent_ingest (ig_malloc r) 0 (ig_conn r) = (ps, d)" by (metis prod.exhaust)
  have "ps = videos fs" "d \<noteq> None" using serves_published [OF assms(1)] assms(2) a by (simp_all add: ends_def)
  then show ?thesis using a assms(1) by (auto simp: serves_def)
qed

text \<open>A frame that arrives byte by byte, as far as the end of its connection depends on it.\<close>

lemma recv_bytewise_loop:
  "agent_recv_loop (replicate (length xs) (Deliver 0) @ evs) (xs @ ys) (length got + length xs) got =
     Some (0, got @ xs, ys, evs)"
proof (induction xs arbitrary: got)
  case Nil
  then show ?case by (cases evs) simp_all
next
  case (Cons x xs)
  then show ?case using Cons.IH [of "got @ [x]"] by simp
qed

lemma recv_bytewise:
  assumes "length xs = n"
  shows "agent_recv_exact n \<lparr>c_pending = xs @ ys, c_schedule = replicate n (Deliver 0) @ evs\<rparr> =
    Some (0, xs, \<lparr>c_pending = ys, c_schedule = evs\<rparr>)"
  using recv_bytewise_loop [of xs evs ys "[]"] assms by (simp add: agent_recv_exact_def)

lemma ingest_bytewise:
  assumes "agent_header_ok h" and "length p = unat (ph_length h - of_nat TCP_HEADER_SIZE)"
    and "0 < length p" and "length p \<le> TCP_MAX_PACKET_SIZE"
  shows "snd (agent_ingest (\<lambda>_. True) i
      \<lparr>c_pending = header_bytes h @ p @ ys, c_schedule = replicate (TCP_HEADER_SIZE + length p) (Deliver 0) @ evs\<rparr>) =
    snd (agent_ingest (\<lambda>_. True) (i + 1) \<lparr>c_pending = ys, c_schedule = evs\<rparr>)"
  using assms tlv_parse_header_bytes [of h "[]"]
    recv_bytewise [of "header_bytes h" TCP_HEADER_SIZE "p @ ys" "replicate (length p) (Deliver 0) @ evs"]
    recv_bytewise [of p "length p" ys evs]
  by (subst agent_ingest.simps)
    (simp add: Let_def replicate_add header_bytes_def put_be32_def TCP_HEADER_SIZE_def split: prod.split)

text \<open>C20: the agent serves its senders strictly one after the other: it publishes the units of every
  connection that has ended, whole and in order, closes each of them, goes on with the units
  of the one that is open, and does not look at any later one while that stays open.\<close>

theorem ingest_one_at_a_time:
  assumes "list_all2 (\<lambda>r fs. serves r fs \<and> ends r) rs fss" and "serves r fs" and "\<not> ends r"
  shows "ingest_loop (rs @ r # later) = (concat (map videos fss) @ videos fs, map ig_accept rs, later)"
  using assms(1)
proof (induction rs fss rule: list_all2_induct)
  case Nil
  obtain ps d where a: "agent_ingest (ig_malloc r) 0 (ig_conn r) = (ps, d)" by (metis prod.exhaust)
  have "ps = videos fs" "d = None" using serves_published [OF assms(2)] assms(3) a by (simp_all add: ends_def)
  then show ?case using a assms(2) by (simp add: serves_def)
next
  case (Cons r1 rs f1 fss)
  have "ingest_loop ((r1 # rs) @ r # later) =
      (case ingest_loop (rs @ r # later) of (qs, cl, left) \<Rightarrow> (videos f1 @ qs, ig_accept r1 # cl, left))"
    using ingest_served [of r1 f1 "rs @ r # later"] Cons.hyps by simp
  then show ?case using Cons.IH by simp
qed

theorem ingest_one_at_a_time_witness:
  "\<exists>a b c. a = \<lparr>ig_accept = 5, ig_conn = \<lparr>c_pending = wire [(3, TCP_MSG_TYPE_VIDEO_DATA, [1, 2])],
       c_schedule = replicate 10 (Deliver 0)\<rparr>, ig_malloc = \<lambda>_. True\<rparr> \<and>
     b = \<lparr>ig_accept = 6, ig_conn = \<lparr>c_pending = wire [(4, TCP_MSG_TYPE_VIDEO_DATA, [7])],
       c_schedule = replicate 8 (Deliver 0)\<rparr>, ig_malloc = \<lambda>_. True\<rparr> \<and>
     ingest_loop [a, b, c] = ([(3, [1, 2]), (4, [7])], [5], [c])"
proof -
  let ?f1 = "[(3, TCP_MSG_TYPE_VIDEO_DATA, [1, 2])] :: wire_frame list"
  let ?f2 = "[(4, TCP_MSG_TYPE_VIDEO_DATA, [7])] :: wire_frame list"
  let ?a = "\<lparr>ig_accept = 5, ig_conn = \<lparr>c_pending = wire ?f1, c_schedule = replicate 10 (Deliver 0)\<rparr>, ig_malloc = \<lambda>_. True\<rparr>"
  let ?b = "\<lparr>ig_accept = 6, ig_conn = \<lparr>c_pending = wire ?f2, c_schedule = replicate 8 (Deliver 0)\<rparr>, ig_malloc = \<lambda>_. True\<rparr>"
  note E = agent_frame_ok_def AGENT_MAX_STREAMS_def protocol_consts conn_full_def wire_def frame_def
    sender_header_def is_Deliver_def list_all_iff
  have s: "serves ?a ?f1" "serves ?b ?f2" by (simp_all add: serves_def E)
  let ?h1 = "\<lparr>ph_length = 9, ph_type = TCP_MSG_TYPE_VIDEO_DATA, ph_stream_id = 3\<rparr>"
  let ?h2 = "\<lparr>ph_length = 8, ph_type = TCP_MSG_TYPE_VIDEO_DATA, ph_stream_id = 4\<rparr>"
  have w: "wire ?f1 = header_bytes ?h1 @ [1, 2]" "wire ?f2 = header_bytes ?h2 @ [7]"
    by (simp_all add: wire_def frame_header protocol_consts)
  have ok: "agent_header_ok ?h1" "agent_header_ok ?h2" by (simp_all add: agent_header_ok_def AGENT_MAX_STREAMS_def protocol_consts)
  have sch: "replicate 10 (Deliver 0) = replicate (TCP_HEADER_SIZE + length [1, 2 :: u8]) (Deliver 0) @ [Deliver 0]"
    "replicate 8 (Deliver 0) = replicate (TCP_HEADER_SIZE + length [7 :: u8]) (Deliver 0) @ []"
    by (simp_all add: TCP_HEADER_SIZE_def numeral_eq_Suc)
  have "snd (agent_ingest (\<lambda>_. True) 0 (ig_conn ?a)) =
      snd (agent_ingest (\<lambda>_. True) (0 + 1) \<lparr>c_pending = [], c_schedule = [Deliver 0]\<rparr>)"
    using ingest_bytewise [OF ok(1), of "[1, 2]" 0 "[]" "[Deliver 0]"] unfolding ingest_answer.simps w sch
    by (simp add: protocol_consts)
  moreover have "snd (agent_ingest (\<lambda>_. True) 0 (ig_conn ?b)) =
      snd (agent_ingest (\<lambda>_. True) (0 + 1) \<lparr>c_pending = [], c_schedule = []\<rparr>)"
    using ingest_bytewise [OF ok(2), of "[7]" 0 "[]" "[]"] unfolding ingest_answer.simps w sch
    by (simp add: protocol_consts)
  ultimately have e: "ends ?a" "\<not> ends ?b" by (simp_all add: ends_def agent_ingest.simps agent_recv_exact_def TCP_HEADER_SIZE_def)
  have "ingest_loop ([?a] @ ?b # [?b]) = (concat (map videos [?f1]) @ videos ?f2, map ig_accept [?a], [?b])"
    by (rule ingest_one_at_a_time) (simp_all only: s e list_all2_Cons list_all2_Nil simp_thms)
  then show ?thesis by (intro exI [of _ ?a] exI [of _ ?b]) (simp add: videos_def protocol_consts)
qed

end
