(* ===== verification/Decoder.thy ===== *)
theory Decoder
  imports Protocol Nal "HOL-Library.Signed_Division"
begin

text \<open>
  The decoder of \<open>stream_server\<close> (\<open>stream_server/src/decoder.c\<close>,
  \<open>stream_server/include/decoder.h\<close>): the choice of a backend, creation, initialisation and
  destruction of a decoder, the CUDA device all decoders share, and the decode call with the
  ownership of its frames. What FFmpeg, the drivers and the allocator answer is an argument:
  the record \<open>av_env\<close> for the calls a function makes once, a list of answers for the calls in
  a loop. Times, which are doubles, and log lines are left out.
\<close>

section \<open>Data\<close>

datatype DecodeBackend =
  DECODE_BACKEND_AUTO | DECODE_BACKEND_INTEL_VA | DECODE_BACKEND_NVIDIA | DECODE_BACKEND_CPU

datatype DecodeFormat =
  DECODE_FMT_NONE | DECODE_FMT_NV12 | DECODE_FMT_YUV420P | DECODE_FMT_YUV444P | DECODE_FMT_VUYX
| DECODE_FMT_BGR24 | DECODE_FMT_BGRA | DECODE_FMT_RGB24

datatype DecodeStorage = DECODE_STORAGE_CPU | DECODE_STORAGE_HW

text \<open>The values of FFmpeg's enumerations that the source names, and the rest.\<close>

datatype AVCodecID = AV_CODEC_ID_NONE | AV_CODEC_ID_H264 | AV_CODEC_ID_HEVC | AV_CODEC_ID_AV1

datatype AVPixelFormat =
  AV_PIX_FMT_NONE | AV_PIX_FMT_NV12 | AV_PIX_FMT_YUV420P | AV_PIX_FMT_YUV444P | AV_PIX_FMT_VUYX
| AV_PIX_FMT_BGR24 | AV_PIX_FMT_BGRA | AV_PIX_FMT_RGBA | AV_PIX_FMT_RGB24
| AV_PIX_FMT_VAAPI | AV_PIX_FMT_CUDA | AV_PIX_FMT_other nat

text \<open>The enumeration constants as the integers C gives them, and the order they induce.\<close>

definition backend_value :: "DecodeBackend \<Rightarrow> nat" where
  "backend_value b = (case b of DECODE_BACKEND_AUTO \<Rightarrow> 0 | DECODE_BACKEND_INTEL_VA \<Rightarrow> 1
     | DECODE_BACKEND_NVIDIA \<Rightarrow> 2 | DECODE_BACKEND_CPU \<Rightarrow> 3)"

lemma backend_value_inj: "backend_value b = backend_value c \<longleftrightarrow> b = c"
  by (cases b; cases c) (simp_all add: backend_value_def)

instantiation DecodeBackend :: linorder
begin

definition less_eq_DecodeBackend :: "DecodeBackend \<Rightarrow> DecodeBackend \<Rightarrow> bool" where
  "less_eq_DecodeBackend b c \<longleftrightarrow> backend_value b \<le> backend_value c"

definition less_DecodeBackend :: "DecodeBackend \<Rightarrow> DecodeBackend \<Rightarrow> bool" where
  "less_DecodeBackend b c \<longleftrightarrow> backend_value b < backend_value c"

instance
  by standard (auto simp: less_eq_DecodeBackend_def less_DecodeBackend_def backend_value_inj)

end

record DecoderConfig =
  dc_backend :: DecodeBackend
  dc_codec_id :: AVCodecID
  dc_width :: int
  dc_height :: int
  dc_output_format :: DecodeFormat
  dc_thread_count :: int
  dc_va_device :: string
  dc_cuda_device_id :: int
  dc_defer_hw_download :: bool
  dc_extra_hw_frames :: int

text \<open>The fields of an \<open>AVFrame\<close> that are read; the software format is that of \<open>hw_frames_ctx\<close>.\<close>

record AVFrame =
  avf_format :: AVPixelFormat
  avf_width :: int
  avf_height :: int
  avf_pts :: int
  avf_key :: bool
  avf_data :: "u8 list option list"
  avf_linesize :: "int list"
  avf_sw_format :: AVPixelFormat

text \<open>
  A decoded frame. \<open>df_stats\<close> is the \<open>_decoder_ctx\<close> pointer: the transfer statistics the
  frame holds a reference to.
\<close>

record DecodedFrame =
  df_av_frame :: "AVFrame option"
  df_data :: "u8 list option list"
  df_linesize :: "int list"
  df_width :: int
  df_height :: int
  df_format :: DecodeFormat
  df_storage :: DecodeStorage
  df_pts :: int
  df_key_frame :: bool
  df_stats :: "nat option"

definition zero_frame :: DecodedFrame where
  "zero_frame = \<lparr>df_av_frame = None, df_data = replicate 4 None, df_linesize = replicate 4 0,
     df_width = 0, df_height = 0, df_format = DECODE_FMT_NONE, df_storage = DECODE_STORAGE_CPU,
     df_pts = 0, df_key_frame = False, df_stats = None\<rparr>"

text \<open>The fields of the \<open>AVCodecContext\<close> that the source sets.\<close>

datatype get_format_cb = FormatDefault | FormatHw | FormatVaapi

record AVCodecContext =
  cc_get_format :: get_format_cb
  cc_hw_device_ctx :: bool
  cc_extra_hw_frames :: int
  cc_thread_count :: int
  cc_slice_threads :: bool
  cc_extradata :: "u8 list"
  cc_width :: int
  cc_height :: int
  cc_low_delay :: bool
  cc_output_corrupt :: bool
  cc_show_all :: bool
  cc_timebase :: "int \<times> int"

record DecoderCtx =
  dx_config :: DecoderConfig
  dx_codec :: bool
  dx_codec_ctx :: "AVCodecContext option"
  dx_frame :: bool
  dx_packet :: bool
  dx_parser :: bool
  dx_hw_device_ctx :: bool
  dx_hw_pix_fmt :: AVPixelFormat
  dx_uses_shared_cuda_device :: bool
  dx_initialized :: bool
  dx_pts_counter :: int
  dx_nal_sps_count :: int
  dx_nal_pps_count :: int
  dx_nal_idr_count :: int
  dx_frames_decoded :: u64
  dx_frames_dropped :: u64
  dx_bytes_in :: u64
  dx_transfer_stats :: nat

text \<open>
  What all decoders share: the CUDA master device with its user count, the heap of transfer
  statistics (reference count and number of transfers), and three tallies of what the program
  owns: references to hardware devices (the one behind \<open>codec_ctx->hw_device_ctx\<close> belongs to
  FFmpeg), \<open>AVFrame\<close>s and \<open>DecodedFrame\<close>s. The tallies have no
  counterpart in the code; every call that creates or gives back such an object moves them.
\<close>

record TransferStats =
  tf_refcount :: u32
  tf_hw_transfer_count :: u64

record av_world =
  g_cuda_device_master :: bool
  g_cuda_device_id :: int
  g_cuda_device_users :: u32
  w_stats :: "nat \<Rightarrow> TransferStats option"
  w_next :: nat
  w_device_refs :: int
  w_avframes :: int
  w_frames :: int

definition av_world_init :: av_world where
  "av_world_init = \<lparr>g_cuda_device_master = False, g_cuda_device_id = - 1, g_cuda_device_users = 0,
     w_stats = (\<lambda>_. None), w_next = 0, w_device_refs = 0, w_avframes = 0, w_frames = 0\<rparr>"

text \<open>The answers of FFmpeg, the drivers and the allocator to the calls made at most once.\<close>

record av_env =
  av_va_create :: "string \<Rightarrow> bool"
  av_cuda_create :: "int option \<Rightarrow> int"
  av_buffer_ref :: bool
  av_codec_ref :: bool
  av_find_decoder :: "AVCodecID \<Rightarrow> bool"
  av_calloc_ctx :: bool
  av_calloc_stats :: bool
  av_alloc_context :: bool
  av_frame_alloc :: bool
  av_packet_alloc :: bool
  av_parser_init :: "AVCodecID \<Rightarrow> bool"
  av_mallocz :: bool
  av_open2 :: "AVCodecContext \<Rightarrow> int"

definition AVERROR_EINVAL :: int where "AVERROR_EINVAL = - 22"
definition AVERROR_ENOMEM :: int where "AVERROR_ENOMEM = - 12"
definition AVERROR_EAGAIN :: int where "AVERROR_EAGAIN = - 11"
definition AVERROR_EOF :: int where "AVERROR_EOF = - 541478725"

section \<open>Backends\<close>

definition va_devices :: "string list" where
  "va_devices = [''/dev/dri/renderD128'', ''/dev/dri/renderD129'']"

definition decoder_detect_backend :: "av_env \<Rightarrow> DecodeBackend" where
  "decoder_detect_backend e =
     (if list_ex (av_va_create e) va_devices then DECODE_BACKEND_INTEL_VA
      else if av_cuda_create e None \<ge> 0 then DECODE_BACKEND_NVIDIA
      else DECODE_BACKEND_CPU)"

definition decoder_backend_name :: "DecodeBackend \<Rightarrow> string" where
  "decoder_backend_name b = (case b of DECODE_BACKEND_INTEL_VA \<Rightarrow> ''Intel VA-API''
     | DECODE_BACKEND_NVIDIA \<Rightarrow> ''NVIDIA NVDEC''
     | DECODE_BACKEND_CPU \<Rightarrow> ''CPU (FFmpeg)''
     | DECODE_BACKEND_AUTO \<Rightarrow> ''Auto'')"

section \<open>The shared CUDA device\<close>

text \<open>
  Acquisition takes the lock twice, and a decoder of another thread may run in between. The
  first section either answers (Some, with the return code and whether \<open>out_ctx\<close> was set) or
  finds no device and leads to the creation of one.
\<close>

definition take_shared :: "bool \<Rightarrow> av_world \<Rightarrow> (int \<times> bool \<times> av_world)" where
  "take_shared ok w =
     (if ok then (0, True, w\<lparr>w_device_refs := w_device_refs w + 1, g_cuda_device_users := g_cuda_device_users w + 1\<rparr>)
      else (AVERROR_ENOMEM, False, w))"

definition drop_unused_master :: "av_world \<Rightarrow> av_world" where
  "drop_unused_master w =
     (if g_cuda_device_users w = 0 \<and> g_cuda_device_master w then
        w\<lparr>w_device_refs := w_device_refs w - 1, g_cuda_device_master := False, g_cuda_device_id := - 1\<rparr>
      else w)"

definition acquire_existing :: "bool \<Rightarrow> int \<Rightarrow> av_world \<Rightarrow> (int \<times> bool \<times> av_world) option" where
  "acquire_existing ref_ok device_id w =
     (if g_cuda_device_master w then
        Some (if g_cuda_device_id w \<noteq> device_id then (AVERROR_EINVAL, False, w) else take_shared ref_ok w)
      else None)"

text \<open>The second section, with a freshly created device in hand.\<close>

definition acquire_install :: "bool \<Rightarrow> int \<Rightarrow> av_world \<Rightarrow> (int \<times> bool \<times> av_world)" where
  "acquire_install ref_ok device_id w0 =
     (let created = w0\<lparr>w_device_refs := w_device_refs w0 + 1\<rparr>;
          unref = created\<lparr>w_device_refs := w_device_refs created - 1\<rparr> in
      if g_cuda_device_master created \<and> g_cuda_device_id created \<noteq> device_id then
        (AVERROR_EINVAL, False, unref)
      else
        let w = (if \<not> g_cuda_device_master created
                 then created\<lparr>g_cuda_device_master := True, g_cuda_device_id := device_id\<rparr>
                 else unref)
        in case take_shared ref_ok w of (rc, out, w1) \<Rightarrow>
             (rc, out, if out then w1 else drop_unused_master w1))"

definition acquire_shared_cuda_device :: "av_env \<Rightarrow> int \<Rightarrow> av_world \<Rightarrow> (int \<times> bool \<times> av_world)" where
  "acquire_shared_cuda_device e device_id w =
     (case acquire_existing (av_buffer_ref e) device_id w of
        Some r \<Rightarrow> r
      | None \<Rightarrow> let ret = av_cuda_create e (Some device_id) in
          if ret < 0 then (ret, False, w)
          else acquire_install (av_buffer_ref e) device_id w)"

definition release_shared_cuda_device :: "av_world \<Rightarrow> av_world" where
  "release_shared_cuda_device w =
     drop_unused_master (if g_cuda_device_users w > 0
       then w\<lparr>g_cuda_device_users := g_cuda_device_users w - 1\<rparr> else w)"


section \<open>Transfer statistics\<close>

definition transfer_stats_ref :: "nat option \<Rightarrow> av_world \<Rightarrow> av_world" where
  "transfer_stats_ref p w = (case p of None \<Rightarrow> w | Some a \<Rightarrow> (case w_stats w a of None \<Rightarrow> w | Some t \<Rightarrow>
     w\<lparr>w_stats := (w_stats w)(a \<mapsto> t\<lparr>tf_refcount := tf_refcount t + 1\<rparr>)\<rparr>))"

definition transfer_stats_unref :: "nat option \<Rightarrow> av_world \<Rightarrow> av_world" where
  "transfer_stats_unref p w = (case p of None \<Rightarrow> w | Some a \<Rightarrow> (case w_stats w a of None \<Rightarrow> w | Some t \<Rightarrow>
     let n = (if tf_refcount t > 0 then tf_refcount t - 1 else tf_refcount t) in
     if n = 0 then w\<lparr>w_stats := (w_stats w)(a := None)\<rparr>
     else w\<lparr>w_stats := (w_stats w)(a \<mapsto> t\<lparr>tf_refcount := n\<rparr>)\<rparr>))"

definition record_hw_transfer_time :: "nat option \<Rightarrow> av_world \<Rightarrow> av_world" where
  "record_hw_transfer_time p w = (case p of None \<Rightarrow> w | Some a \<Rightarrow> (case w_stats w a of None \<Rightarrow> w | Some t \<Rightarrow>
     w\<lparr>w_stats := (w_stats w)(a \<mapsto> t\<lparr>tf_hw_transfer_count := tf_hw_transfer_count t + 1\<rparr>)\<rparr>))"

section \<open>Creation, initialisation, destruction\<close>

definition zero_codec_ctx :: AVCodecContext where
  "zero_codec_ctx = \<lparr>cc_get_format = FormatDefault, cc_hw_device_ctx = False, cc_extra_hw_frames = 0,
     cc_thread_count = 1, cc_slice_threads = False, cc_extradata = [], cc_width = 0, cc_height = 0,
     cc_low_delay = False, cc_output_corrupt = False, cc_show_all = False, cc_timebase = (0, 1)\<rparr>"

text \<open>
  A calloc'ed context; pixel format 0 is YUV420P. Fields that this file never reads after
  creation (\<open>codec\<close>, \<open>packet\<close>, \<open>parser\<close>) are the presence of the object.
\<close>

definition fresh_ctx :: "DecoderConfig \<Rightarrow> nat \<Rightarrow> DecoderCtx" where
  "fresh_ctx config a = \<lparr>dx_config = config, dx_codec = False, dx_codec_ctx = None, dx_frame = False,
     dx_packet = False, dx_parser = False, dx_hw_device_ctx = False, dx_hw_pix_fmt = AV_PIX_FMT_YUV420P,
     dx_uses_shared_cuda_device = False, dx_initialized = False, dx_pts_counter = 0,
     dx_nal_sps_count = 0, dx_nal_pps_count = 0, dx_nal_idr_count = 0, dx_frames_decoded = 0,
     dx_frames_dropped = 0, dx_bytes_in = 0, dx_transfer_stats = a\<rparr>"

text \<open>The swscale context of the decoder is freed by \<open>decoder_destroy_sws\<close> (theory \<open>Convert\<close>).\<close>

definition decoder_destroy :: "DecoderCtx \<Rightarrow> av_world \<Rightarrow> av_world" where
  "decoder_destroy ctx w =
     (let w1 = (if dx_frame ctx then w\<lparr>w_avframes := w_avframes w - 1\<rparr> else w);
          w2 = (if dx_hw_device_ctx ctx then w1\<lparr>w_device_refs := w_device_refs w1 - 1\<rparr> else w1);
          w3 = (if dx_uses_shared_cuda_device ctx then release_shared_cuda_device w2 else w2)
      in transfer_stats_unref (Some (dx_transfer_stats ctx)) w3)"

definition decoder_create :: "av_env \<Rightarrow> DecoderConfig \<Rightarrow> av_world \<Rightarrow> DecoderCtx option \<times> av_world" where
  "decoder_create e config w =
     (if \<not> av_calloc_ctx e \<or> \<not> av_calloc_stats e then (None, w)
      else
        let a = w_next w;
            w1 = w\<lparr>w_stats := (w_stats w)(a \<mapsto> \<lparr>tf_refcount = 1, tf_hw_transfer_count = 0\<rparr>), w_next := a + 1\<rparr>;
            codec_id = (if dc_codec_id config \<noteq> AV_CODEC_ID_NONE then dc_codec_id config else AV_CODEC_ID_H264);
            backend = (if dc_backend config = DECODE_BACKEND_AUTO then decoder_detect_backend e
                       else dc_backend config);
            ctx = fresh_ctx (config\<lparr>dc_backend := backend\<rparr>) a
        in if \<not> av_find_decoder e codec_id then (None, decoder_destroy ctx w1)
           else if \<not> av_alloc_context e then (None, decoder_destroy (ctx\<lparr>dx_codec := True\<rparr>) w1)
           else
             let ctx1 = ctx\<lparr>dx_codec := True, dx_codec_ctx := Some zero_codec_ctx,
                            dx_frame := av_frame_alloc e, dx_packet := av_packet_alloc e\<rparr>;
                 w2 = (if av_frame_alloc e then w1\<lparr>w_avframes := w_avframes w1 + 1\<rparr> else w1)
             in if \<not> dx_frame ctx1 \<or> \<not> dx_packet ctx1 then (None, decoder_destroy ctx1 w2)
                else if \<not> av_parser_init e codec_id then (None, decoder_destroy ctx1 w2)
                else (Some (ctx1\<lparr>dx_parser := True\<rparr>), w2))"

definition set_codec :: "(AVCodecContext \<Rightarrow> AVCodecContext) \<Rightarrow> DecoderCtx \<Rightarrow> DecoderCtx" where
  "set_codec f ctx = ctx\<lparr>dx_codec_ctx := map_option f (dx_codec_ctx ctx)\<rparr>"

definition to_cpu :: "DecoderCtx \<Rightarrow> DecoderCtx" where
  "to_cpu ctx = ctx\<lparr>dx_config := (dx_config ctx)\<lparr>dc_backend := DECODE_BACKEND_CPU\<rparr>,
                    dx_hw_pix_fmt := AV_PIX_FMT_NONE\<rparr>"

definition init_vaapi :: "av_env \<Rightarrow> DecoderCtx \<Rightarrow> av_world \<Rightarrow> DecoderCtx \<times> av_world" where
  "init_vaapi e ctx0 w =
     (let ctx = ctx0\<lparr>dx_hw_pix_fmt := AV_PIX_FMT_VAAPI\<rparr>; cfg = dx_config ctx in
      if \<not> list_ex (av_va_create e) va_devices then (to_cpu ctx, w)
      else (set_codec (\<lambda>cc. cc\<lparr>cc_get_format := FormatVaapi, cc_hw_device_ctx := av_codec_ref e,
                cc_extra_hw_frames := (if dc_extra_hw_frames cfg > 0 then dc_extra_hw_frames cfg
                   else if dc_defer_hw_download cfg then 24 else cc_extra_hw_frames cc),
                cc_thread_count := 1\<rparr>) (ctx\<lparr>dx_hw_device_ctx := True\<rparr>),
            w\<lparr>w_device_refs := w_device_refs w + 1\<rparr>))"

definition init_cuda :: "av_env \<Rightarrow> DecoderCtx \<Rightarrow> av_world \<Rightarrow> DecoderCtx \<times> av_world" where
  "init_cuda e ctx0 w =
     (let ctx = ctx0\<lparr>dx_hw_pix_fmt := AV_PIX_FMT_CUDA, dx_uses_shared_cuda_device := False\<rparr>;
          cfg = dx_config ctx in
      case acquire_shared_cuda_device e (dc_cuda_device_id cfg) w of (ret, out, w1) \<Rightarrow>
      if ret < 0 then (to_cpu (ctx\<lparr>dx_hw_device_ctx := out\<rparr>), w1)
      else (set_codec (\<lambda>cc. cc\<lparr>cc_get_format := FormatHw, cc_hw_device_ctx := av_codec_ref e,
                cc_extra_hw_frames := (if dc_extra_hw_frames cfg > 0 then dc_extra_hw_frames cfg
                   else if dc_defer_hw_download cfg then 24 else 8),
                cc_thread_count := 1\<rparr>)
              (ctx\<lparr>dx_uses_shared_cuda_device := True, dx_hw_device_ctx := out\<rparr>), w1))"

definition decoder_init ::
  "av_env \<Rightarrow> u8 list option \<Rightarrow> DecoderCtx \<Rightarrow> av_world \<Rightarrow> int \<times> DecoderCtx \<times> av_world" where
  "decoder_init e extradata ctx w =
     (if dx_initialized ctx then (- 1, ctx, w)
      else
        case (case dc_backend (dx_config ctx) of
                DECODE_BACKEND_INTEL_VA \<Rightarrow> init_vaapi e ctx w
              | DECODE_BACKEND_NVIDIA \<Rightarrow> init_cuda e ctx w
              | _ \<Rightarrow> (ctx, w)) of (ctx1, w1) \<Rightarrow>
        let cfg = dx_config ctx1;
            ctx2 = set_codec (\<lambda>cc. cc\<lparr>
              cc_extradata := (case extradata of None \<Rightarrow> cc_extradata cc
                 | Some d \<Rightarrow> if d \<noteq> [] \<and> av_mallocz e then d else cc_extradata cc),
              cc_width := dc_width cfg, cc_height := dc_height cfg, cc_low_delay := True,
              cc_output_corrupt := True, cc_show_all := True, cc_timebase := (1, 90000)\<rparr>) ctx1;
            ctx3 = (if dc_backend cfg = DECODE_BACKEND_CPU
              then set_codec (\<lambda>cc. cc\<lparr>cc_slice_threads := True,
                cc_thread_count := (if dc_thread_count cfg > 0 then dc_thread_count cfg else 4)\<rparr>) ctx2
              else ctx2)
        in if av_open2 e (the (dx_codec_ctx ctx3)) < 0 then (- 1, ctx3, w1)
           else (0, ctx3\<lparr>dx_initialized := True\<rparr>, w1))"

section \<open>Pixel formats\<close>

definition av_format_from_decode :: "DecodeFormat \<Rightarrow> AVPixelFormat" where
  "av_format_from_decode fmt = (case fmt of DECODE_FMT_NV12 \<Rightarrow> AV_PIX_FMT_NV12
     | DECODE_FMT_YUV420P \<Rightarrow> AV_PIX_FMT_YUV420P | DECODE_FMT_YUV444P \<Rightarrow> AV_PIX_FMT_YUV444P
     | DECODE_FMT_VUYX \<Rightarrow> AV_PIX_FMT_VUYX | DECODE_FMT_BGR24 \<Rightarrow> AV_PIX_FMT_BGR24
     | DECODE_FMT_BGRA \<Rightarrow> AV_PIX_FMT_BGRA | DECODE_FMT_RGB24 \<Rightarrow> AV_PIX_FMT_RGB24
     | DECODE_FMT_NONE \<Rightarrow> AV_PIX_FMT_NONE)"

definition decode_format_from_av :: "AVPixelFormat \<Rightarrow> DecodeFormat" where
  "decode_format_from_av fmt = (case fmt of AV_PIX_FMT_NV12 \<Rightarrow> DECODE_FMT_NV12
     | AV_PIX_FMT_YUV420P \<Rightarrow> DECODE_FMT_YUV420P | AV_PIX_FMT_YUV444P \<Rightarrow> DECODE_FMT_YUV444P
     | AV_PIX_FMT_VUYX \<Rightarrow> DECODE_FMT_VUYX | AV_PIX_FMT_BGR24 \<Rightarrow> DECODE_FMT_BGR24
     | AV_PIX_FMT_RGB24 \<Rightarrow> DECODE_FMT_RGB24 | _ \<Rightarrow> DECODE_FMT_NONE)"

definition hw_frame_sw_format :: "AVFrame \<Rightarrow> AVPixelFormat" where
  "hw_frame_sw_format frame = avf_sw_format frame"

definition decode_format_from_frame :: "AVFrame \<Rightarrow> DecodeFormat" where
  "decode_format_from_frame frame =
     (let format = decode_format_from_av (avf_format frame) in
      if format \<noteq> DECODE_FMT_NONE then format else decode_format_from_av (hw_frame_sw_format frame))"

definition finalize_transferred_sw_frame :: "AVFrame \<Rightarrow> AVFrame \<Rightarrow> AVFrame" where
  "finalize_transferred_sw_frame sw hw =
     (let sw1 = (if avf_format sw = AV_PIX_FMT_NONE \<and> hw_frame_sw_format hw \<noteq> AV_PIX_FMT_NONE
                 then sw\<lparr>avf_format := hw_frame_sw_format hw\<rparr> else sw);
          sw2 = (if avf_width sw1 \<le> 0 then sw1\<lparr>avf_width := avf_width hw\<rparr> else sw1)
      in if avf_height sw2 \<le> 0 then sw2\<lparr>avf_height := avf_height hw\<rparr> else sw2)"

text \<open>
  The choice among the formats FFmpeg offers (the list before its AV_PIX_FMT_NONE end). The
  descriptor table is FFmpeg's: None for an unknown format, else whether it is an accelerator.
\<close>

fun choose_software_format :: "(AVPixelFormat \<Rightarrow> bool option) \<Rightarrow> AVPixelFormat list \<Rightarrow> AVPixelFormat" where
  "choose_software_format desc [] = AV_PIX_FMT_NONE"
| "choose_software_format desc (p # ps) =
     (case desc p of None \<Rightarrow> choose_software_format desc ps
      | Some hwaccel \<Rightarrow> if \<not> hwaccel then p else choose_software_format desc ps)"

definition get_hw_format :: "(AVPixelFormat \<Rightarrow> bool option) \<Rightarrow> DecoderCtx \<Rightarrow> AVPixelFormat list \<Rightarrow> AVPixelFormat" where
  "get_hw_format desc ctx ps =
     (if dx_hw_pix_fmt ctx \<in> set ps then dx_hw_pix_fmt ctx else choose_software_format desc ps)"

definition vaapi_get_format :: "(AVPixelFormat \<Rightarrow> bool option) \<Rightarrow> DecoderCtx \<Rightarrow> AVPixelFormat list \<Rightarrow> AVPixelFormat" where
  "vaapi_get_format desc ctx ps = get_hw_format desc ctx ps"

definition plane_height_for_pix_fmt :: "AVPixelFormat \<Rightarrow> nat \<Rightarrow> int \<Rightarrow> int" where
  "plane_height_for_pix_fmt fmt plane height = (case fmt of
       AV_PIX_FMT_NV12 \<Rightarrow> if plane = 0 then height else if plane = 1 then height sdiv 2 else 0
     | AV_PIX_FMT_YUV420P \<Rightarrow> if plane = 0 then height else if plane = 1 \<or> plane = 2 then height sdiv 2 else 0
     | AV_PIX_FMT_YUV444P \<Rightarrow> if plane \<le> 2 then height else 0
     | _ \<Rightarrow> if plane = 0 then height else 0)"

definition decode_format_bytes_per_pixel :: "DecodeFormat \<Rightarrow> nat" where
  "decode_format_bytes_per_pixel fmt = (case fmt of DECODE_FMT_BGR24 \<Rightarrow> 3 | DECODE_FMT_RGB24 \<Rightarrow> 3
     | DECODE_FMT_BGRA \<Rightarrow> 4 | _ \<Rightarrow> 0)"

section \<open>Frames\<close>

text \<open>
  Binding a frame to an \<open>AVFrame\<close>: its own (a fresh one, handed over) or a clone. A frame in
  hardware memory keeps the transfer statistics alive.
\<close>

definition decoded_frame_set_avframe ::
  "bool \<Rightarrow> DecodedFrame \<Rightarrow> nat option \<Rightarrow> AVFrame \<Rightarrow> DecodeStorage \<Rightarrow> bool \<Rightarrow> av_world \<Rightarrow>
   int \<times> DecodedFrame \<times> av_world" where
  "decoded_frame_set_avframe clone_ok frame transfer_stats avf storage take_ownership w =
     (if \<not> take_ownership \<and> \<not> clone_ok then (- 1, frame, w)
      else
        let w1 = (if take_ownership then w else w\<lparr>w_avframes := w_avframes w + 1\<rparr>);
            f = frame\<lparr>df_av_frame := Some avf, df_stats := None, df_width := avf_width avf,
                      df_height := avf_height avf, df_pts := avf_pts avf, df_key_frame := avf_key avf,
                      df_format := decode_format_from_frame avf, df_storage := storage\<rparr>
        in if storage = DECODE_STORAGE_CPU
           then (0, f\<lparr>df_data := avf_data avf, df_linesize := avf_linesize avf\<rparr>, w1)
           else (0, f\<lparr>df_stats := transfer_stats, df_data := replicate 4 None, df_linesize := replicate 4 0\<rparr>,
                 transfer_stats_ref transfer_stats w1))"

definition decoder_free_frame :: "DecodedFrame option \<Rightarrow> av_world \<Rightarrow> av_world" where
  "decoder_free_frame p w = (case p of None \<Rightarrow> w | Some frame \<Rightarrow>
     let w1 = (if df_av_frame frame \<noteq> None then w\<lparr>w_avframes := w_avframes w - 1\<rparr> else w);
         w2 = transfer_stats_unref (df_stats frame) w1
     in w2\<lparr>w_frames := w_frames w2 - 1\<rparr>)"

text \<open>The copy of the planes of a frame without \<open>AVFrame\<close>; None where an allocation fails.\<close>

fun copy_planes ::
  "(nat \<Rightarrow> bool) \<Rightarrow> AVPixelFormat \<Rightarrow> int \<Rightarrow> nat \<Rightarrow> u8 list option list \<Rightarrow> int list \<Rightarrow>
   (u8 list option list \<times> int list) option" where
  "copy_planes malloc_ok fmt height i (d # ds) (l # ls) =
     (let lines = plane_height_for_pix_fmt fmt i height;
          rest = copy_planes malloc_ok fmt height (Suc i) ds ls in
      case d of
        None \<Rightarrow> map_option (\<lambda>(ds', ls'). (None # ds', 0 # ls')) rest
      | Some bytes \<Rightarrow>
          if lines \<le> 0 then map_option (\<lambda>(ds', ls'). (None # ds', 0 # ls')) rest
          else if \<not> malloc_ok i then None
          else map_option (\<lambda>(ds', ls'). (Some (take (nat (l * lines)) bytes) # ds', l # ls')) rest)"
| "copy_planes malloc_ok fmt height i _ _ = Some ([], [])"

definition copy_cpu_frame_data :: "(nat \<Rightarrow> bool) \<Rightarrow> DecodedFrame \<Rightarrow> DecodedFrame \<Rightarrow> DecodedFrame option" where
  "copy_cpu_frame_data malloc_ok src dst =
     (let fmt = av_format_from_decode (df_format src) in
      if fmt = AV_PIX_FMT_NONE then None
      else map_option (\<lambda>(ds, ls). dst\<lparr>df_data := ds, df_linesize := ls\<rparr>)
             (copy_planes malloc_ok fmt (df_height src) 0 (df_data src) (df_linesize src)))"

definition decoder_ref_frame ::
  "bool \<Rightarrow> bool \<Rightarrow> (nat \<Rightarrow> bool) \<Rightarrow> DecodedFrame option \<Rightarrow> av_world \<Rightarrow> DecodedFrame option \<times> av_world" where
  "decoder_ref_frame calloc_ok clone_ok malloc_ok p w = (case p of None \<Rightarrow> (None, w) | Some src \<Rightarrow>
     if \<not> calloc_ok then (None, w)
     else
       let w1 = w\<lparr>w_frames := w_frames w + 1\<rparr>;
           dst = zero_frame\<lparr>df_width := df_width src, df_height := df_height src, df_pts := df_pts src,
                   df_key_frame := df_key_frame src, df_format := df_format src, df_storage := df_storage src\<rparr>
       in (case df_av_frame src of
             Some avf \<Rightarrow>
               (case decoded_frame_set_avframe clone_ok dst (df_stats src) avf (df_storage src) False w1 of
                  (rc, f, w2) \<Rightarrow> if rc \<noteq> 0 then (None, w2\<lparr>w_frames := w_frames w2 - 1\<rparr>) else (Some f, w2))
           | None \<Rightarrow> (case copy_cpu_frame_data malloc_ok src dst of
               None \<Rightarrow> (None, decoder_free_frame (Some dst) w1)
             | Some f \<Rightarrow> (Some f, w1))))"

text \<open>
  What FFmpeg and the allocator answer while one received frame is turned into an output
  frame: the return code of \<open>avcodec_receive_frame\<close> and its frame, whether \<open>calloc\<close> and
  \<open>av_frame_alloc\<close> succeed, the transfer to system memory (its code, and the frame after the
  properties are copied), and whether a clone can be made.
\<close>

record recv_ans =
  ra_rc :: int
  ra_frame :: AVFrame
  ra_calloc :: bool
  ra_tmp_alloc :: bool
  ra_xfer_rc :: int
  ra_xfer_frame :: AVFrame
  ra_clone :: bool

definition wants_hw :: "DecoderCtx \<Rightarrow> AVFrame \<Rightarrow> bool" where
  "wants_hw ctx frame \<longleftrightarrow>
     (dc_backend (dx_config ctx) = DECODE_BACKEND_NVIDIA \<or> dc_backend (dx_config ctx) = DECODE_BACKEND_INTEL_VA) \<and>
     avf_format frame = dx_hw_pix_fmt ctx"

text \<open>Once the frame structure is allocated; None when it is given up (and freed).\<close>

definition output_frame :: "recv_ans \<Rightarrow> DecoderCtx \<Rightarrow> av_world \<Rightarrow> DecodedFrame option \<times> av_world" where
  "output_frame a ctx w0 =
     (let w = w0\<lparr>w_frames := w_frames w0 + 1\<rparr>;
          give_up = (\<lambda>v. v\<lparr>w_frames := w_frames v - 1\<rparr>);
          stats = Some (dx_transfer_stats ctx);
          download = wants_hw ctx (ra_frame a) \<and> \<not> dc_defer_hw_download (dx_config ctx)
      in if download \<and> \<not> ra_tmp_alloc a then (None, give_up w)
         else if download \<and> ra_xfer_rc a < 0 then (None, give_up w)
         else
           let w1 = (if download then record_hw_transfer_time stats (w\<lparr>w_avframes := w_avframes w + 1\<rparr>) else w);
               avf = (if download then finalize_transferred_sw_frame (ra_xfer_frame a) (ra_frame a) else ra_frame a);
               storage = (if wants_hw ctx (ra_frame a) \<and> \<not> download then DECODE_STORAGE_HW else DECODE_STORAGE_CPU)
           in case decoded_frame_set_avframe (ra_clone a) zero_frame stats avf storage download w1 of (rc, f, w2) \<Rightarrow>
              if rc \<noteq> 0 then (None, give_up (if download then w2\<lparr>w_avframes := w_avframes w2 - 1\<rparr> else w2))
              else (Some f, w2))"

definition drop_frame :: "DecoderCtx \<Rightarrow> DecoderCtx" where
  "drop_frame ctx = ctx\<lparr>dx_frames_dropped := dx_frames_dropped ctx + 1\<rparr>"

record dec_run =
  dr_ctx :: DecoderCtx
  dr_world :: av_world
  dr_last :: "DecodedFrame option"
  dr_total :: nat

text \<open>One received frame: the frame kept so far is freed before the new one is built.\<close>

definition take_frame :: "recv_ans \<Rightarrow> dec_run \<Rightarrow> dec_run" where
  "take_frame a r =
     (let ctx = (dr_ctx r)\<lparr>dx_frames_decoded := dx_frames_decoded (dr_ctx r) + 1\<rparr>;
          w = decoder_free_frame (dr_last r) (dr_world r);
          r1 = r\<lparr>dr_ctx := ctx, dr_world := w, dr_last := None, dr_total := dr_total r + 1\<rparr>
      in if \<not> ra_calloc a then r1
         else (case output_frame a ctx w of
             (None, w1) \<Rightarrow> r1\<lparr>dr_ctx := drop_frame ctx, dr_world := w1\<rparr>
           | (Some f, w1) \<Rightarrow> r1\<lparr>dr_world := w1, dr_last := Some f\<rparr>))"

fun receive_loop :: "recv_ans list \<Rightarrow> dec_run \<Rightarrow> dec_run option" where
  "receive_loop [] r = None"
| "receive_loop (a # as) r =
     (if ra_rc a = AVERROR_EAGAIN \<or> ra_rc a = AVERROR_EOF then Some r
      else if ra_rc a < 0 then Some r
      else receive_loop as (take_frame a r))"

text \<open>
  One round of the parser loop: how much input the parser consumed, the packet it put out (none
  is the empty list), the codes of the first send and of the one after draining, and the
  frames received.
\<close>

record parse_ans =
  pa_parsed :: int
  pa_packet :: "u8 list"
  pa_send :: int
  pa_resend :: int
  pa_received :: "recv_ans list"

definition send_packet :: "parse_ans \<Rightarrow> dec_run \<Rightarrow> dec_run option" where
  "send_packet a r =
     (let r1 = r\<lparr>dr_ctx := (dr_ctx r)\<lparr>dx_pts_counter := dx_pts_counter (dr_ctx r) + 1\<rparr>\<rparr>;
          ret = (if pa_send a = AVERROR_EAGAIN then pa_resend a else pa_send a)
      in if ret < 0 then Some (r1\<lparr>dr_ctx := drop_frame (dr_ctx r1)\<rparr>)
         else receive_loop (pa_received a) r1)"

fun parse_loop :: "parse_ans list \<Rightarrow> int \<Rightarrow> dec_run \<Rightarrow> dec_run option" where
  "parse_loop [] remaining r = (if remaining > 0 then None else Some r)"
| "parse_loop (a # as) remaining r =
     (if remaining > 0 then
        (if pa_parsed a < 0 then Some (r\<lparr>dr_ctx := drop_frame (dr_ctx r)\<rparr>)
         else if pa_packet a = [] then parse_loop as (remaining - pa_parsed a) r
         else (case send_packet a r of None \<Rightarrow> None
               | Some r1 \<Rightarrow> parse_loop as (remaining - pa_parsed a) r1))
      else Some r)"

definition count_nal :: "u8 list \<Rightarrow> DecoderCtx \<Rightarrow> DecoderCtx" where
  "count_nal data ctx =
     (let t = first_nal_type data in
      if t = 7 then ctx\<lparr>dx_nal_sps_count := dx_nal_sps_count ctx + 1\<rparr>
      else if t = 8 then ctx\<lparr>dx_nal_pps_count := dx_nal_pps_count ctx + 1\<rparr>
      else if t = 5 then ctx\<lparr>dx_nal_idr_count := dx_nal_idr_count ctx + 1\<rparr>
      else ctx)"

definition decoder_decode ::
  "parse_ans list \<Rightarrow> u8 list \<Rightarrow> DecoderCtx \<Rightarrow> av_world \<Rightarrow>
   (int \<times> DecodedFrame option \<times> DecoderCtx \<times> av_world) option" where
  "decoder_decode ans data ctx w =
     (if \<not> dx_initialized ctx then Some (- 1, None, ctx, w)
      else (case parse_loop ans (int (length data))
                 \<lparr>dr_ctx = count_nal data ctx, dr_world = w, dr_last = None, dr_total = 0\<rparr> of
              None \<Rightarrow> None
            | Some r \<Rightarrow>
                let ctx1 = (if dr_total r > 0
                            then (dr_ctx r)\<lparr>dx_bytes_in := dx_bytes_in (dr_ctx r) + of_nat (length data)\<rparr>
                            else dr_ctx r)
                in Some (if dr_last r \<noteq> None then (0, dr_last r, ctx1, dr_world r)
                         else if dr_total r = 0 then (1, None, ctx1, dr_world r)
                         else (- 1, None, drop_frame ctx1, dr_world r))))"

text \<open>The flush takes out one frame at most.\<close>

definition decoder_flush ::
  "int \<Rightarrow> recv_ans \<Rightarrow> DecoderCtx \<Rightarrow> av_world \<Rightarrow> int \<times> DecodedFrame option \<times> av_world" where
  "decoder_flush send_rc a ctx w =
     (if \<not> dx_initialized ctx then (- 1, None, w)
      else if send_rc < 0 \<and> send_rc \<noteq> AVERROR_EOF then (- 1, None, w)
      else if ra_rc a = AVERROR_EAGAIN \<or> ra_rc a = AVERROR_EOF then (1, None, w)
      else if ra_rc a < 0 then (- 1, None, w)
      else if \<not> ra_calloc a then (- 1, None, w)
      else (case output_frame a ctx w of
          (None, w1) \<Rightarrow> (- 1, None, w1)
        | (Some f, w1) \<Rightarrow> (0, Some f, w1)))"

definition decoder_materialize_frame ::
  "recv_ans \<Rightarrow> (nat \<Rightarrow> bool) \<Rightarrow> DecodedFrame option \<Rightarrow> av_world \<Rightarrow> int \<times> DecodedFrame option \<times> av_world" where
  "decoder_materialize_frame a malloc_ok p w = (case p of None \<Rightarrow> (- 1, None, w) | Some src \<Rightarrow>
     if df_storage src = DECODE_STORAGE_CPU then
       (case decoder_ref_frame (ra_calloc a) (ra_clone a) malloc_ok p w of
          (None, w1) \<Rightarrow> (- 1, None, w1)
        | (Some f, w1) \<Rightarrow> (0, Some f, w1))
     else (case df_av_frame src of None \<Rightarrow> (- 1, None, w) | Some hw \<Rightarrow>
       if \<not> ra_tmp_alloc a then (- 1, None, w)
       else
         let w1 = w\<lparr>w_avframes := w_avframes w + 1\<rparr>;
             free_sw = (\<lambda>v. v\<lparr>w_avframes := w_avframes v - 1\<rparr>)
         in if ra_xfer_rc a < 0 then (- 1, None, free_sw w1)
            else
              let w2 = record_hw_transfer_time (df_stats src) w1;
                  sw = finalize_transferred_sw_frame (ra_xfer_frame a) hw
              in if \<not> ra_calloc a then (- 1, None, free_sw w2)
                 else
                   let w3 = w2\<lparr>w_frames := w_frames w2 + 1\<rparr> in
                   case decoded_frame_set_avframe (ra_clone a) zero_frame None sw DECODE_STORAGE_CPU True w3 of
                     (rc, f, w4) \<Rightarrow>
                       if rc \<noteq> 0 then (- 1, None, free_sw (w4\<lparr>w_frames := w_frames w4 - 1\<rparr>))
                       else (0, Some f, w4)))"

end
