(* ===== verification/Stream.thy ===== *)
theory Stream
  imports Decoder CText
begin

text \<open>
  The stream manager of \<open>stream_server\<close> (\<open>stream_server/src/stream.c\<close>,
  \<open>stream_server/include/stream.h\<close>): the slots, their states and counters, the routing of a
  stream to a decoder backend with its fallbacks, decoding, and the stress test. A slot's lock
  is held for the whole of each operation; the manager's lock is the field
  \<open>sm_locked\<close>, because one operation locks it twice. Averages and frame rates, which are
  doubles, and the printed reports are left out.
\<close>

section \<open>Data\<close>

datatype StreamState =
  STREAM_STATE_IDLE | STREAM_STATE_CONNECTING | STREAM_STATE_ACTIVE | STREAM_STATE_ERROR

record StreamDecodeStats =
  ds_frames_decoded :: u64
  ds_frames_dropped :: u64
  ds_hw_transfer_count :: u64
  ds_last_fps_calc_time :: int
  ds_last_frames_decoded :: u64

record StreamContext =
  st_stream_id :: u16
  st_name :: string
  st_state :: StreamState
  st_info :: StreamInfo
  st_info_received :: bool
  st_frames_received :: u64
  st_bytes_received :: u64
  st_packets_received :: u64
  st_connect_time :: int
  st_last_frame_time :: int
  st_decoder_ctx :: "DecoderCtx option"
  st_decode_stats :: StreamDecodeStats
  st_decoder_initialized :: bool
  st_last_frame :: "DecodedFrame option"
  st_last_idr_request_ns :: u64
  st_watchdog_last_received :: u64
  st_watchdog_last_decoded :: u64
  st_watchdog_last_decoded_change_ns :: u64
  st_decode_stall_last_idr_ns :: u64
  st_decode_stall_count :: u32

text \<open>One virtual stream of the stress test: its buffer, the room in it, and the ready flag.\<close>

record StressQueue =
  sq_data :: "u8 list"
  sq_room :: nat
  sq_ready :: bool

record StressTestConfig =
  ss_enabled :: bool
  ss_source_stream_id :: u16
  ss_num_virtual_streams :: nat
  ss_virtual_stream_ids :: "nat list"
  ss_backend :: DecodeBackend
  ss_start_time :: int
  ss_end_time :: int
  ss_queues :: "StressQueue list"
  ss_threads_running :: bool

record StreamManager =
  sm_streams :: "nat \<Rightarrow> StreamContext"
  sm_max_streams :: u16
  sm_locked :: bool
  sm_stress_test :: StressTestConfig

definition zero_info :: StreamInfo where
  "zero_info = \<lparr>si_width = 0, si_height = 0, si_fps = 0, si_bitrate = 0, si_codec = 0, si_chroma = 0,
     si_bitdepth = 0, si_video_format = 0, si_color_space = 0, si_color_range = 0\<rparr>"

definition zero_decode_stats :: StreamDecodeStats where
  "zero_decode_stats = \<lparr>ds_frames_decoded = 0, ds_frames_dropped = 0, ds_hw_transfer_count = 0,
     ds_last_fps_calc_time = 0, ds_last_frames_decoded = 0\<rparr>"

definition zero_stream_ctx :: StreamContext where
  "zero_stream_ctx = \<lparr>st_stream_id = 0, st_name = [], st_state = STREAM_STATE_IDLE, st_info = zero_info,
     st_info_received = False, st_frames_received = 0, st_bytes_received = 0, st_packets_received = 0,
     st_connect_time = 0, st_last_frame_time = 0, st_decoder_ctx = None,
     st_decode_stats = zero_decode_stats, st_decoder_initialized = False, st_last_frame = None,
     st_last_idr_request_ns = 0, st_watchdog_last_received = 0, st_watchdog_last_decoded = 0,
     st_watchdog_last_decoded_change_ns = 0, st_decode_stall_last_idr_ns = 0, st_decode_stall_count = 0\<rparr>"

definition zero_stress :: StressTestConfig where
  "zero_stress = \<lparr>ss_enabled = False, ss_source_stream_id = 0, ss_num_virtual_streams = 0,
     ss_virtual_stream_ids = [], ss_backend = DECODE_BACKEND_AUTO, ss_start_time = 0, ss_end_time = 0,
     ss_queues = [], ss_threads_running = False\<rparr>"

section \<open>Routing\<close>

definition STREAM_CODEC_H264 :: int where "STREAM_CODEC_H264 = 0"
definition STREAM_CODEC_HEVC :: int where "STREAM_CODEC_HEVC = 1"
definition STREAM_CODEC_AV1 :: int where "STREAM_CODEC_AV1 = 2"
definition ROUTE_ANY :: int where "ROUTE_ANY = - 1"

record DecodeRouteRule =
  rr_codec :: int
  rr_chroma :: int
  rr_bitdepth :: int
  rr_backend :: DecodeBackend

definition codec_id_from_stream_info :: "StreamInfo option \<Rightarrow> AVCodecID" where
  "codec_id_from_stream_info p = (case p of None \<Rightarrow> AV_CODEC_ID_H264 | Some info \<Rightarrow>
     if uint (si_codec info) = STREAM_CODEC_HEVC then AV_CODEC_ID_HEVC
     else if uint (si_codec info) = STREAM_CODEC_AV1 then AV_CODEC_ID_AV1
     else AV_CODEC_ID_H264)"

definition k_decode_route_rules :: "DecodeRouteRule list" where
  "k_decode_route_rules =
     [\<lparr>rr_codec = STREAM_CODEC_HEVC, rr_chroma = 1, rr_bitdepth = ROUTE_ANY, rr_backend = DECODE_BACKEND_INTEL_VA\<rparr>,
      \<lparr>rr_codec = ROUTE_ANY, rr_chroma = ROUTE_ANY, rr_bitdepth = ROUTE_ANY, rr_backend = DECODE_BACKEND_INTEL_VA\<rparr>]"

text \<open>The casts are from \<open>uint32_t\<close> to \<open>int\<close>.\<close>

definition route_rule_matches :: "DecodeRouteRule \<Rightarrow> StreamInfo \<Rightarrow> bool" where
  "route_rule_matches r info \<longleftrightarrow>
     \<not> (rr_codec r \<noteq> ROUTE_ANY \<and> rr_codec r \<noteq> sint (si_codec info)) \<and>
     \<not> (rr_chroma r \<noteq> ROUTE_ANY \<and> rr_chroma r \<noteq> sint (si_chroma info)) \<and>
     \<not> (rr_bitdepth r \<noteq> ROUTE_ANY \<and> rr_bitdepth r \<noteq> sint (si_bitdepth info))"

definition adjust_backend_for_stream :: "StreamInfo \<Rightarrow> DecodeBackend \<Rightarrow> DecodeBackend" where
  "adjust_backend_for_stream info backend =
     (if backend \<noteq> DECODE_BACKEND_AUTO then backend
      else case find (\<lambda>r. route_rule_matches r info) k_decode_route_rules of
          Some r \<Rightarrow> rr_backend r
        | None \<Rightarrow> backend)"

text \<open>
  The environment is read once and does not change while the server runs, so the cached
  values are functions of it.
\<close>

type_synonym c_env = "string \<Rightarrow> string option"

definition parse_bool_env_enabled :: "c_env \<Rightarrow> string \<Rightarrow> bool \<Rightarrow> bool" where
  "parse_bool_env_enabled env name default_value = (case env name of None \<Rightarrow> default_value | Some v \<Rightarrow>
     if v = [] then default_value
     else if v = ''1'' \<or> strcaseeq v ''true'' \<or> strcaseeq v ''yes'' \<or> strcaseeq v ''on'' then True
     else if v = ''0'' \<or> strcaseeq v ''false'' \<or> strcaseeq v ''no'' \<or> strcaseeq v ''off'' then False
     else default_value)"

definition stream_defer_hw_download_enabled :: "c_env \<Rightarrow> bool" where
  "stream_defer_hw_download_enabled env = parse_bool_env_enabled env ''STREAM_DEFER_HW_DOWNLOAD'' True"

definition parse_int_env_clamped :: "c_env \<Rightarrow> string \<Rightarrow> int \<Rightarrow> int \<Rightarrow> int \<Rightarrow> int" where
  "parse_int_env_clamped env name default_value min_value max_value =
     (case env name of None \<Rightarrow> default_value | Some v \<Rightarrow>
        if v = [] then default_value
        else (case strtol10 v of (parsed, rest, some) \<Rightarrow>
          if \<not> some \<or> rest \<noteq> [] then default_value
          else if parsed < min_value then min_value
          else if parsed > max_value then max_value
          else parsed))"

definition stream_nvdec_extra_hw_frames :: "c_env \<Rightarrow> int" where
  "stream_nvdec_extra_hw_frames env =
     parse_int_env_clamped env ''STREAM_NVDEC_EXTRA_HW_FRAMES''
       (if stream_defer_hw_download_enabled env then 24 else 8) 0 128"

section \<open>Slots\<close>

definition stream_manager_init :: "u16 \<Rightarrow> StreamManager option" where
  "stream_manager_init max_streams =
     (if max_streams < 1 \<or> unat max_streams > MAX_STREAMS then None
      else Some \<lparr>sm_streams = (\<lambda>i. if i < unat max_streams
                   then zero_stream_ctx\<lparr>st_stream_id := of_nat (i + 1),
                          st_name := ''stream_'' @ (if i + 1 < 10 then ''0'' else '''') @ show_nat (i + 1)\<rparr>
                   else zero_stream_ctx),
                 sm_max_streams = max_streams, sm_locked = False, sm_stress_test = zero_stress\<rparr>)"

text \<open>The index of the slot, None where the code returns NULL.\<close>

definition stream_manager_get :: "StreamManager \<Rightarrow> u16 \<Rightarrow> nat option" where
  "stream_manager_get mgr stream_id =
     (if stream_id < 1 \<or> stream_id > sm_max_streams mgr then None else Some (unat stream_id - 1))"

definition put_stream :: "nat \<Rightarrow> StreamContext \<Rightarrow> StreamManager \<Rightarrow> StreamManager" where
  "put_stream i s mgr = mgr\<lparr>sm_streams := (sm_streams mgr)(i := s)\<rparr>"

definition stream_set_state :: "int \<Rightarrow> StreamState \<Rightarrow> StreamContext \<Rightarrow> StreamContext" where
  "stream_set_state now state s =
     (if st_state s \<noteq> state then
        (let s1 = s\<lparr>st_state := state\<rparr> in
         if state = STREAM_STATE_ACTIVE then s1\<lparr>st_connect_time := now\<rparr> else s1)
      else s)"

definition stream_set_info :: "StreamInfo \<Rightarrow> StreamContext \<Rightarrow> StreamContext" where
  "stream_set_info info s = s\<lparr>st_info := info, st_info_received := True\<rparr>"

definition stream_update_stats :: "int \<Rightarrow> u32 \<Rightarrow> bool \<Rightarrow> StreamContext \<Rightarrow> StreamContext" where
  "stream_update_stats now bytes is_frame s =
     (let s1 = s\<lparr>st_packets_received := st_packets_received s + 1,
                 st_bytes_received := st_bytes_received s + ucast bytes\<rparr>
      in if is_frame then s1\<lparr>st_frames_received := st_frames_received s1 + 1, st_last_frame_time := now\<rparr>
         else s1)"

definition stream_state_str :: "StreamState \<Rightarrow> string" where
  "stream_state_str state = (case state of STREAM_STATE_IDLE \<Rightarrow> ''IDLE''
     | STREAM_STATE_CONNECTING \<Rightarrow> ''CONNECTING'' | STREAM_STATE_ACTIVE \<Rightarrow> ''ACTIVE''
     | STREAM_STATE_ERROR \<Rightarrow> ''ERROR'')"

section \<open>Decoding\<close>

definition attempted_backends :: "DecodeBackend \<Rightarrow> DecodeBackend list" where
  "attempted_backends selected =
     [selected] @ (if selected = DECODE_BACKEND_INTEL_VA then [DECODE_BACKEND_NVIDIA] else []) @
     (if selected \<noteq> DECODE_BACKEND_CPU then [DECODE_BACKEND_CPU] else [])"

definition stream_decoder_config :: "c_env \<Rightarrow> StreamInfo \<Rightarrow> DecodeBackend \<Rightarrow> DecoderConfig" where
  "stream_decoder_config env info selected =
     \<lparr>dc_backend = selected, dc_codec_id = codec_id_from_stream_info (Some info),
      dc_width = sint (si_width info), dc_height = sint (si_height info),
      dc_output_format = DECODE_FMT_NV12, dc_thread_count = 2, dc_va_device = ''/dev/dri/renderD128'',
      dc_cuda_device_id = 0, dc_defer_hw_download = stream_defer_hw_download_enabled env,
      dc_extra_hw_frames = stream_nvdec_extra_hw_frames env\<rparr>"

text \<open>The attempts in turn; attempt number \<open>i\<close> meets the environment \<open>es i\<close>.\<close>

fun try_backends ::
  "(nat \<Rightarrow> av_env) \<Rightarrow> nat \<Rightarrow> DecodeBackend list \<Rightarrow> DecoderConfig \<Rightarrow> av_world \<Rightarrow> DecoderCtx option \<times> av_world" where
  "try_backends es i [] config w = (None, w)"
| "try_backends es i (b # bs) config w =
     (case decoder_create (es i) (config\<lparr>dc_backend := b\<rparr>) w of
        (None, w1) \<Rightarrow> try_backends es (Suc i) bs config w1
      | (Some ctx, w1) \<Rightarrow>
          (case decoder_init (es i) None ctx w1 of (rc, ctx1, w2) \<Rightarrow>
             if rc = 0 then (Some ctx1, w2)
             else try_backends es (Suc i) bs config (decoder_destroy ctx1 w2)))"

definition stream_init_decoder ::
  "c_env \<Rightarrow> (nat \<Rightarrow> av_env) \<Rightarrow> int \<Rightarrow> DecodeBackend \<Rightarrow> StreamContext \<Rightarrow> av_world \<Rightarrow>
   int \<times> StreamContext \<times> av_world" where
  "stream_init_decoder env es now backend s w =
     (if st_decoder_initialized s then (0, s, w)
      else
        let selected = adjust_backend_for_stream (st_info s) backend in
        case try_backends es 0 (attempted_backends selected)
               (stream_decoder_config env (st_info s) selected) w of
          (None, w1) \<Rightarrow> (- 1, s, w1)
        | (Some ctx, w1) \<Rightarrow>
            (0, s\<lparr>st_decoder_ctx := Some ctx, st_decoder_initialized := True,
                  st_decode_stats := zero_decode_stats\<lparr>ds_last_fps_calc_time := now\<rparr>\<rparr>, w1))"

definition stream_close_decoder :: "StreamContext \<Rightarrow> av_world \<Rightarrow> StreamContext \<times> av_world" where
  "stream_close_decoder s w =
     (let w1 = decoder_free_frame (st_last_frame s) w;
          w2 = (case st_decoder_ctx s of None \<Rightarrow> w1 | Some ctx \<Rightarrow> decoder_destroy ctx w1)
      in (s\<lparr>st_last_frame := None, st_decoder_ctx := None, st_decoder_initialized := False\<rparr>, w2))"

text \<open>The counters after a decoded frame; \<open>now\<close> is \<open>time(NULL)\<close>.\<close>

definition note_decoded :: "int \<Rightarrow> StreamDecodeStats \<Rightarrow> StreamDecodeStats" where
  "note_decoded now d =
     (let d1 = d\<lparr>ds_frames_decoded := ds_frames_decoded d + 1\<rparr> in
      if now - ds_last_fps_calc_time d1 \<ge> 1
      then d1\<lparr>ds_last_frames_decoded := ds_frames_decoded d1, ds_last_fps_calc_time := now\<rparr>
      else d1)"

definition hw_transfers :: "DecoderCtx \<Rightarrow> av_world \<Rightarrow> u64" where
  "hw_transfers ctx w = (case w_stats w (dx_transfer_stats ctx) of None \<Rightarrow> 0 | Some t \<Rightarrow> tf_hw_transfer_count t)"

text \<open>An initialised slot has a context; without one the transfer count would be indeterminate.\<close>

definition stream_decode_video ::
  "parse_ans list \<Rightarrow> int \<Rightarrow> u8 list \<Rightarrow> StreamContext \<Rightarrow> av_world \<Rightarrow>
   (int \<times> StreamContext \<times> av_world) option" where
  "stream_decode_video ans now data s w =
     (if \<not> st_decoder_initialized s then Some (- 1, s, w)
      else case st_decoder_ctx s of
        None \<Rightarrow> Some (- 1, s\<lparr>st_decode_stats := (st_decode_stats s)
                     \<lparr>ds_frames_dropped := ds_frames_dropped (st_decode_stats s) + 1\<rparr>\<rparr>, w)
      | Some ctx \<Rightarrow>
          (case decoder_decode ans data ctx w of
             None \<Rightarrow> None
           | Some (ret, frame, ctx1, w1) \<Rightarrow>
               let s1 = s\<lparr>st_decoder_ctx := Some ctx1\<rparr>;
                   r = (if ret = 0 \<and> frame \<noteq> None then
                          (s1\<lparr>st_decode_stats := note_decoded now (st_decode_stats s1),
                              st_last_frame := frame\<rparr>, decoder_free_frame (st_last_frame s1) w1)
                        else if ret < 0 then
                          (s1\<lparr>st_decode_stats := (st_decode_stats s1)
                               \<lparr>ds_frames_dropped := ds_frames_dropped (st_decode_stats s1) + 1\<rparr>\<rparr>, w1)
                        else (s1, w1))
               in Some (ret, (fst r)\<lparr>st_decode_stats := (st_decode_stats (fst r))
                                \<lparr>ds_hw_transfer_count := hw_transfers ctx1 (snd r)\<rparr>\<rparr>, snd r)))"

definition stream_get_last_frame :: "StreamContext \<Rightarrow> DecodedFrame option" where
  "stream_get_last_frame s = st_last_frame s"

fun close_all :: "nat list \<Rightarrow> StreamManager \<Rightarrow> av_world \<Rightarrow> StreamManager \<times> av_world" where
  "close_all [] mgr w = (mgr, w)"
| "close_all (i # js) mgr w =
     (case stream_close_decoder (sm_streams mgr i) w of (s, w1) \<Rightarrow> close_all js (put_stream i s mgr) w1)"

section \<open>The stress test\<close>

text \<open>
  \<open>pthread_mutex_lock\<close> on the manager's lock, a default mutex: locking it twice from one
  thread never returns (None).
\<close>

definition mgr_lock :: "StreamManager \<Rightarrow> StreamManager option" where
  "mgr_lock mgr = (if sm_locked mgr then None else Some (mgr\<lparr>sm_locked := True\<rparr>))"

definition mgr_unlock :: "StreamManager \<Rightarrow> StreamManager" where
  "mgr_unlock mgr = mgr\<lparr>sm_locked := False\<rparr>"

definition set_stress :: "(StressTestConfig \<Rightarrow> StressTestConfig) \<Rightarrow> StreamManager \<Rightarrow> StreamManager" where
  "set_stress f mgr = mgr\<lparr>sm_stress_test := f (sm_stress_test mgr)\<rparr>"

fun idle_virtual :: "int \<Rightarrow> nat list \<Rightarrow> StreamManager \<Rightarrow> av_world \<Rightarrow> StreamManager \<times> av_world" where
  "idle_virtual now [] mgr w = (mgr, w)"
| "idle_virtual now (v # vs) mgr w =
     (case stream_manager_get mgr (of_nat v) of
        None \<Rightarrow> idle_virtual now vs mgr w
      | Some i \<Rightarrow> (case stream_close_decoder (sm_streams mgr i) w of (s, w1) \<Rightarrow>
          idle_virtual now vs (put_stream i (stream_set_state now STREAM_STATE_IDLE s) mgr) w1))"

text \<open>
  Between its two locked sections the operation joins the decoder threads, which end once
  \<open>ss_threads_running\<close> is cleared.
\<close>

definition stream_manager_stop_stress_test ::
  "int \<Rightarrow> StreamManager \<Rightarrow> av_world \<Rightarrow> (StreamManager \<times> av_world) option" where
  "stream_manager_stop_stress_test now mgr0 w =
     (case mgr_lock mgr0 of None \<Rightarrow> None | Some mgr \<Rightarrow>
        if \<not> ss_enabled (sm_stress_test mgr) then Some (mgr_unlock mgr, w)
        else
          let st = sm_stress_test mgr;
              ids = take (ss_num_virtual_streams st) (ss_virtual_stream_ids st);
              m1 = mgr_unlock (set_stress (\<lambda>c. c\<lparr>ss_end_time := now, ss_enabled := False,
                     ss_threads_running := False\<rparr>) mgr)
          in case mgr_lock m1 of None \<Rightarrow> None | Some m2 \<Rightarrow>
             (case idle_virtual now ids (set_stress (\<lambda>c. c\<lparr>ss_queues := []\<rparr>) m2) w of (m3, w1) \<Rightarrow>
                Some (mgr_unlock (set_stress (\<lambda>c. c\<lparr>ss_virtual_stream_ids := []\<rparr>) m3), w1)))"

text \<open>The slots for the copies: \<open>k\<close> are left, the next one has number \<open>i\<close>.\<close>

definition virtual_id :: "u16 \<Rightarrow> nat \<Rightarrow> nat" where
  "virtual_id source i = (if i + 1 \<ge> unat source then i + 2 else i + 1)"

fun start_virtual ::
  "c_env \<Rightarrow> (nat \<Rightarrow> nat \<Rightarrow> av_env) \<Rightarrow> int \<Rightarrow> DecodeBackend \<Rightarrow> u16 \<Rightarrow> nat \<Rightarrow> nat \<Rightarrow> nat \<Rightarrow>
   StreamManager \<Rightarrow> av_world \<Rightarrow> nat list \<times> StreamManager \<times> av_world" where
  "start_virtual env es now backend source src i 0 mgr w = ([], mgr, w)"
| "start_virtual env es now backend source src i (Suc k) mgr w =
     (let v = virtual_id source i in
      if v > unat (sm_max_streams mgr) then ([], mgr, w)
      else case stream_manager_get mgr (of_nat v) of
        None \<Rightarrow> start_virtual env es now backend source src (Suc i) k mgr w
      | Some j \<Rightarrow>
          let s = (sm_streams mgr j)\<lparr>st_info := st_info (sm_streams mgr src), st_info_received := True,
                    st_state := STREAM_STATE_ACTIVE\<rparr>
          in case stream_init_decoder env (es i) now backend s w of (rc, s1, w1) \<Rightarrow>
             case start_virtual env es now backend source src (Suc i) k (put_stream j s1 mgr) w1 of
               (ids, mgr2, w2) \<Rightarrow> (if rc < 0 then ids else v # ids, mgr2, w2))"

definition stream_manager_start_stress_test ::
  "c_env \<Rightarrow> (nat \<Rightarrow> nat \<Rightarrow> av_env) \<Rightarrow> int \<Rightarrow> bool \<Rightarrow> u16 \<Rightarrow> int \<Rightarrow> DecodeBackend \<Rightarrow>
   StreamManager \<Rightarrow> av_world \<Rightarrow> (int \<times> StreamManager \<times> av_world) option" where
  "stream_manager_start_stress_test env es now malloc_ok source num_copies backend mgr0 w0 =
     (if num_copies < 1 \<or> num_copies > uint (sm_max_streams mgr0) then Some (- 1, mgr0, w0)
      else case mgr_lock mgr0 of None \<Rightarrow> None | Some mgr1 \<Rightarrow>
        case (if ss_enabled (sm_stress_test mgr1) then stream_manager_stop_stress_test now mgr1 w0
              else Some (mgr1, w0)) of None \<Rightarrow> None | Some (mgr, w) \<Rightarrow>
        case stream_manager_get mgr source of
          None \<Rightarrow> Some (- 1, mgr_unlock mgr, w)
        | Some src \<Rightarrow>
            if \<not> st_info_received (sm_streams mgr src) \<or> \<not> malloc_ok then Some (- 1, mgr_unlock mgr, w)
            else case start_virtual env es now backend source src 0 (nat num_copies) mgr w of (ids, mgr2, w2) \<Rightarrow>
              if ids = [] then
                Some (- 1, mgr_unlock (set_stress (\<lambda>c. c\<lparr>ss_virtual_stream_ids := []\<rparr>) mgr2), w2)
              else
                Some (0, mgr_unlock (set_stress (\<lambda>c. \<lparr>ss_enabled = True, ss_source_stream_id = source,
                  ss_num_virtual_streams = length ids, ss_virtual_stream_ids = ids, ss_backend = backend,
                  ss_start_time = now, ss_end_time = 0,
                  ss_queues = replicate (length ids) \<lparr>sq_data = [], sq_room = 256 * 1024, sq_ready = False\<rparr>,
                  ss_threads_running = True\<rparr>) mgr2), w2))"

text \<open>What one queue does with a packet; a failed reallocation drops it.\<close>

definition stress_put :: "bool \<Rightarrow> u8 list \<Rightarrow> StressQueue \<Rightarrow> StressQueue" where
  "stress_put realloc_ok data q =
     (if length data > 256 * 1024 then
        (if \<not> realloc_ok then q
         else \<lparr>sq_data = data, sq_room = length data, sq_ready = True\<rparr>)
      else q\<lparr>sq_data := data, sq_ready := True\<rparr>)"

definition stream_stress_test_decode :: "(nat \<Rightarrow> bool) \<Rightarrow> u16 \<Rightarrow> u8 list \<Rightarrow> StreamManager \<Rightarrow> int \<times> StreamManager" where
  "stream_stress_test_decode realloc_ok source data mgr =
     (let st = sm_stress_test mgr in
      if \<not> ss_enabled st then (- 1, mgr)
      else if source \<noteq> ss_source_stream_id st then (0, mgr)
      else (0, set_stress (\<lambda>c. c\<lparr>ss_queues := map (\<lambda>(i, q). stress_put (realloc_ok i) data q)
                                  (enumerate 0 (ss_queues c))\<rparr>) mgr))"

text \<open>One turn of the decoder thread of queue \<open>k\<close>, when it is awake and the test is running.\<close>

definition stress_decode_worker ::
  "bool \<Rightarrow> parse_ans list \<Rightarrow> int \<Rightarrow> nat \<Rightarrow> StreamManager \<Rightarrow> av_world \<Rightarrow> (StreamManager \<times> av_world) option" where
  "stress_decode_worker realloc_ok ans now k mgr w =
     (let st = sm_stress_test mgr; q = ss_queues st ! k;
          m1 = set_stress (\<lambda>c. c\<lparr>ss_queues := (ss_queues c)[k := q\<lparr>sq_ready := False\<rparr>]\<rparr>) mgr
      in if \<not> ss_threads_running st \<or> \<not> k < length (ss_queues st) \<or> \<not> sq_ready q then Some (mgr, w)
         else if \<not> realloc_ok then Some (m1, w)
         else case stream_manager_get m1 (of_nat (ss_virtual_stream_ids st ! k)) of
             None \<Rightarrow> Some (m1, w)
           | Some i \<Rightarrow>
               if \<not> st_decoder_initialized (sm_streams m1 i) then Some (m1, w)
               else map_option (\<lambda>(ret, s, w1). (put_stream i s m1, w1))
                      (stream_decode_video ans now (sq_data q) (sm_streams m1 i) w))"

definition stream_manager_destroy :: "int \<Rightarrow> StreamManager \<Rightarrow> av_world \<Rightarrow> (StreamManager \<times> av_world) option" where
  "stream_manager_destroy now mgr w =
     (case (if ss_enabled (sm_stress_test mgr) then stream_manager_stop_stress_test now mgr w else Some (mgr, w)) of
        None \<Rightarrow> None
      | Some (m1, w1) \<Rightarrow> Some (close_all [0..<unat (sm_max_streams m1)] m1 w1))"

end
