(* ===== verification/DecoderFrames.thy ===== *)
theory DecoderFrames
  imports Decoder
begin

text \<open>
  What the decoder owns: no path of the decode call, of a reference, of a transfer or of a free
  loses an \<open>AVFrame\<close>, a frame structure or a reference to the transfer statistics. Every
  operation is described by the amounts it moves.
\<close>

section \<open>Amounts\<close>

definition stats_refs :: "av_world \<Rightarrow> nat \<Rightarrow> nat" where
  "stats_refs w a = (case w_stats w a of None \<Rightarrow> 0 | Some t \<Rightarrow> unat (tf_refcount t))"

text \<open>What one decoded frame owns.\<close>

definition frame_count :: "DecodedFrame option \<Rightarrow> int" where
  "frame_count p = (if p = None then 0 else 1)"

definition frame_avs :: "DecodedFrame option \<Rightarrow> int" where
  "frame_avs p = (case p of None \<Rightarrow> 0 | Some f \<Rightarrow> if df_av_frame f = None then 0 else 1)"

definition frame_refs :: "DecodedFrame option \<Rightarrow> int" where
  "frame_refs p = (case p of None \<Rightarrow> 0 | Some f \<Rightarrow> if df_stats f = None then 0 else 1)"

definition frame_of :: "nat \<Rightarrow> DecodedFrame option \<Rightarrow> bool" where
  "frame_of a p \<longleftrightarrow> (case p of None \<Rightarrow> True | Some f \<Rightarrow> df_stats f = None \<or> df_stats f = Some a)"

lemmas frame_amounts = frame_count_def frame_avs_def frame_refs_def frame_of_def

text \<open>
  \<open>moved a n v k w w'\<close>: from \<open>w\<close> to \<open>w'\<close> the program owns \<open>n\<close> more frame structures, \<open>v\<close> more
  \<open>AVFrame\<close>s and \<open>k\<close> more references to the statistics at \<open>a\<close>, and the rest is as before.
\<close>

definition moved :: "nat \<Rightarrow> int \<Rightarrow> int \<Rightarrow> int \<Rightarrow> av_world \<Rightarrow> av_world \<Rightarrow> bool" where
  "moved a n v k w w' \<longleftrightarrow>
     w_frames w' = w_frames w + n \<and> w_avframes w' = w_avframes w + v \<and>
     int (stats_refs w' a) = int (stats_refs w a) + k \<and>
     (\<forall>b. b \<noteq> a \<longrightarrow> w_stats w' b = w_stats w b) \<and>
     g_cuda_device_master w' = g_cuda_device_master w \<and> g_cuda_device_id w' = g_cuda_device_id w \<and>
     g_cuda_device_users w' = g_cuda_device_users w \<and> w_device_refs w' = w_device_refs w \<and>
     w_next w' = w_next w"

lemma moved_refl [simp]: "moved a 0 0 0 w w"
  by (simp add: moved_def)

lemma moved_trans:
  "moved a n v k w w' \<Longrightarrow> moved a n' v' k' w' w'' \<Longrightarrow> moved a (n + n') (v + v') (k + k') w w''"
  by (simp add: moved_def)

lemma moved_frames [simp]:
  "moved a n v k w (w'\<lparr>w_frames := w_frames w' + i\<rparr>) \<longleftrightarrow> moved a (n - i) v k w w'"
  "moved a n v k w (w'\<lparr>w_frames := w_frames w' - i\<rparr>) \<longleftrightarrow> moved a (n + i) v k w w'"
  "moved a n v k w (w'\<lparr>w_avframes := w_avframes w' + i\<rparr>) \<longleftrightarrow> moved a n (v - i) k w w'"
  "moved a n v k w (w'\<lparr>w_avframes := w_avframes w' - i\<rparr>) \<longleftrightarrow> moved a n (v + i) k w w'"
  by (auto simp: moved_def stats_refs_def)

lemma moved_record [simp]:
  "moved a n v k w (record_hw_transfer_time (Some a) w') \<longleftrightarrow> moved a n v k w w'"
  by (auto simp: moved_def stats_refs_def record_hw_transfer_time_def split: option.splits)

lemma moved_refs: "moved a n v k w w' \<Longrightarrow> int (stats_refs w' a) = int (stats_refs w a) + k"
  by (simp add: moved_def)

section \<open>References to the statistics\<close>

lemma transfer_stats_ref_moved:
  assumes "0 < stats_refs w a" and "stats_refs w a < 2 ^ 32 - 1"
  shows "moved a 0 0 1 w (transfer_stats_ref (Some a) w)"
proof -
  obtain t where t: "w_stats w a = Some t" using assms(1) by (auto simp: stats_refs_def split: option.splits)
  have "unat (tf_refcount t + 1) = unat (tf_refcount t) + 1"
    using assms(2) t by (simp add: stats_refs_def unat_word_ariths)
  then show ?thesis using t by (simp add: moved_def transfer_stats_ref_def stats_refs_def)
qed

lemma transfer_stats_unref_moved:
  assumes "0 < stats_refs w a"
  shows "moved a 0 0 (- 1) w (transfer_stats_unref (Some a) w)"
proof -
  obtain t where t: "w_stats w a = Some t" "0 < unat (tf_refcount t)"
    using assms by (auto simp: stats_refs_def split: option.splits)
  then have nz: "tf_refcount t \<noteq> 0" by auto
  have u: "unat (tf_refcount t - 1) = unat (tf_refcount t) - 1"
    using nz by (simp add: unat_minus_one)
  show ?thesis
  proof (cases "tf_refcount t = 1")
    case False
    then show ?thesis
      using t nz u by (simp add: moved_def transfer_stats_unref_def stats_refs_def Let_def word_gt_0)
  qed (use t in \<open>simp add: moved_def transfer_stats_unref_def stats_refs_def\<close>)
qed

text \<open>The statistics are gone exactly when the last reference is.\<close>

definition counted :: "av_world \<Rightarrow> bool" where
  "counted w \<longleftrightarrow> (\<forall>a t. w_stats w a = Some t \<longrightarrow> tf_refcount t \<noteq> 0)"

lemma counted_unref: "counted w \<Longrightarrow> counted (transfer_stats_unref p w)"
  by (auto simp: counted_def transfer_stats_unref_def Let_def split: option.splits)

section \<open>Frames\<close>

definition refs_room :: "av_world \<Rightarrow> nat \<Rightarrow> bool" where
  "refs_room w a \<longleftrightarrow> 0 < stats_refs w a \<and> stats_refs w a < 2 ^ 32 - 1"

lemma set_avframe_moved:
  assumes "decoded_frame_set_avframe ok fr (Some a) avf st own w = (rc, f, w')" and "refs_room w a"
  shows "rc \<noteq> 0 \<Longrightarrow> \<not> own \<and> w' = w"
    and "rc = 0 \<Longrightarrow> frame_of a (Some f) \<and> df_av_frame f = Some avf \<and>
      moved a 0 (if own then 0 else 1) (frame_refs (Some f)) w w'"
proof -
  let ?w = "if own then w else w\<lparr>w_avframes := w_avframes w + 1\<rparr>"
  have "moved a 0 0 1 ?w (transfer_stats_ref (Some a) ?w)"
    using assms(2) by (intro transfer_stats_ref_moved) (auto simp: refs_room_def stats_refs_def)
  moreover have "moved a 0 (if own then 0 else 1) 0 w ?w" by simp
  ultimately have m: "moved a 0 (if own then 0 else 1) 1 w (transfer_stats_ref (Some a) ?w)"
    using moved_trans by fastforce
  show "rc \<noteq> 0 \<Longrightarrow> \<not> own \<and> w' = w"
    using assms(1) by (auto simp: decoded_frame_set_avframe_def Let_def split: if_splits)
  show "rc = 0 \<Longrightarrow> frame_of a (Some f) \<and> df_av_frame f = Some avf \<and>
      moved a 0 (if own then 0 else 1) (frame_refs (Some f)) w w'"
    using assms(1) m by (auto simp: decoded_frame_set_avframe_def Let_def frame_amounts split: if_splits)
qed

lemma free_frame_moved:
  assumes "frame_of a p" and "frame_refs p \<le> int (stats_refs w a)"
  shows "moved a (- frame_count p) (- frame_avs p) (- frame_refs p) w (decoder_free_frame p w)"
proof (cases p)
  case (Some f)
  let ?w = "if df_av_frame f \<noteq> None then w\<lparr>w_avframes := w_avframes w - 1\<rparr> else w"
  have 1: "moved a 0 (- frame_avs p) 0 w ?w" using Some by (simp add: frame_amounts)
  have 2: "moved a 0 0 (- frame_refs p) ?w (transfer_stats_unref (df_stats f) ?w)"
  proof (cases "df_stats f")
    case None
    then show ?thesis using Some by (simp add: transfer_stats_unref_def frame_amounts)
  next
    case (Some b)
    then have "b = a" "0 < stats_refs ?w a"
      using assms \<open>p = Some f\<close> by (auto simp: frame_amounts stats_refs_def)
    then show ?thesis using Some \<open>p = Some f\<close> transfer_stats_unref_moved [of ?w a]
      by (simp add: frame_amounts)
  qed
  show ?thesis using moved_trans [OF 1 2] Some
    by (simp add: decoder_free_frame_def Let_def frame_count_def)
qed (simp add: decoder_free_frame_def frame_amounts)

lemma output_frame_moved:
  assumes "output_frame x ctx w = (p, w')" and "refs_room w a" and "dx_transfer_stats ctx = a"
  shows "frame_of a p" "moved a (frame_count p) (frame_avs p) (frame_refs p) w w'"
    "p \<noteq> None \<Longrightarrow> df_av_frame (the p) \<noteq> None"
proof -
  let ?dl = "wants_hw ctx (ra_frame x) \<and> \<not> dc_defer_hw_download (dx_config ctx)"
  let ?w0 = "w\<lparr>w_frames := w_frames w + 1\<rparr>"
  let ?w1 = "if ?dl then record_hw_transfer_time (Some a) (?w0\<lparr>w_avframes := w_avframes ?w0 + 1\<rparr>) else ?w0"
  let ?avf = "if ?dl then finalize_transferred_sw_frame (ra_xfer_frame x) (ra_frame x) else ra_frame x"
  let ?st = "if wants_hw ctx (ra_frame x) \<and> \<not> ?dl then DECODE_STORAGE_HW else DECODE_STORAGE_CPU"
  have m1: "moved a 1 (if ?dl then 1 else 0) 0 w ?w1"
    by (auto simp: moved_def stats_refs_def record_hw_transfer_time_def split: option.splits)
  then have room: "refs_room ?w1 a"
    using assms(2) by (auto simp: refs_room_def dest: moved_refs)
  obtain rc f w2 where set: "decoded_frame_set_avframe (ra_clone x) zero_frame (Some a) ?avf ?st ?dl ?w1 = (rc, f, w2)"
    by (metis prod_cases3)
  note laws = set_avframe_moved [OF set room]
  have "frame_of a p \<and> moved a (frame_count p) (frame_avs p) (frame_refs p) w w' \<and>
    (p \<noteq> None \<longrightarrow> df_av_frame (the p) \<noteq> None)"
  proof (cases "?dl \<and> (\<not> ra_tmp_alloc x \<or> ra_xfer_rc x < 0)")
    case True
    then have "p = None" "w' = ?w0\<lparr>w_frames := w_frames ?w0 - 1\<rparr>"
      using assms(1) by (auto simp: output_frame_def Let_def split: if_splits)
    then show ?thesis by (simp add: frame_amounts)
  next
    case False
    then have out: "(p, w') = (if rc \<noteq> 0
        then (None, (if ?dl then w2\<lparr>w_avframes := w_avframes w2 - 1\<rparr> else w2)\<lparr>w_frames := w_frames (if ?dl then w2\<lparr>w_avframes := w_avframes w2 - 1\<rparr> else w2) - 1\<rparr>)
        else (Some f, w2))"
      using assms(1,3) set unfolding output_frame_def Let_def by (auto split: if_splits)
    show ?thesis
    proof (cases "rc = 0")
      case True
      then have pf: "p = Some f" "w' = w2" using out by simp_all
      note l = laws(2) [OF True]
      have "moved a 1 1 (frame_refs p) w w'"
        using moved_trans [OF m1 conjunct2 [OF conjunct2 [OF l]]] pf by (cases ?dl) simp_all
      moreover have "frame_of a p" "df_av_frame f \<noteq> None" using l pf(1) by simp_all
      ultimately show ?thesis using pf(1) by (auto simp: frame_count_def frame_avs_def)
    next
      case False
      then show ?thesis using out laws(1) m1 by (auto simp: frame_amounts)
    qed
  qed
  then show "frame_of a p" "moved a (frame_count p) (frame_avs p) (frame_refs p) w w'"
    "p \<noteq> None \<Longrightarrow> df_av_frame (the p) \<noteq> None" by auto
qed

section \<open>The decode call\<close>

text \<open>A context up to its counters.\<close>

definition ctx_core :: "DecoderCtx \<Rightarrow> DecoderCtx" where
  "ctx_core c = c\<lparr>dx_pts_counter := 0, dx_nal_sps_count := 0, dx_nal_pps_count := 0,
     dx_nal_idr_count := 0, dx_frames_decoded := 0, dx_frames_dropped := 0, dx_bytes_in := 0\<rparr>"

lemma ctx_core_simps [simp]:
  "ctx_core (drop_frame c) = ctx_core c" "ctx_core (count_nal d c) = ctx_core c"
  "ctx_core (c\<lparr>dx_pts_counter := i\<rparr>) = ctx_core c" "ctx_core (c\<lparr>dx_frames_decoded := n\<rparr>) = ctx_core c"
  "ctx_core (c\<lparr>dx_bytes_in := n\<rparr>) = ctx_core c"
  by (simp_all add: ctx_core_def drop_frame_def count_nal_def Let_def)

lemma ctx_core_stats: "dx_transfer_stats (ctx_core c) = dx_transfer_stats c"
  "dx_initialized (ctx_core c) = dx_initialized c"
  "dx_uses_shared_cuda_device (ctx_core c) = dx_uses_shared_cuda_device c"
  "dx_hw_device_ctx (ctx_core c) = dx_hw_device_ctx c" "dx_frame (ctx_core c) = dx_frame c"
  by (simp_all add: ctx_core_def)

definition run_ok :: "av_world \<Rightarrow> DecoderCtx \<Rightarrow> dec_run \<Rightarrow> bool" where
  "run_ok w c r \<longleftrightarrow>
     (let a = dx_transfer_stats c; p = dr_last r in
      moved a (frame_count p) (frame_avs p) (frame_refs p) w (dr_world r) \<and> frame_of a p \<and>
      ctx_core (dr_ctx r) = ctx_core c \<and> (p \<noteq> None \<longrightarrow> 0 < dr_total r))"

lemma take_frame_ok:
  assumes "run_ok w c r" and "refs_room w (dx_transfer_stats c)"
  shows "run_ok w c (take_frame x r)"
proof -
  let ?a = "dx_transfer_stats c"
  let ?ctx = "(dr_ctx r)\<lparr>dx_frames_decoded := dx_frames_decoded (dr_ctx r) + 1\<rparr>"
  let ?w = "decoder_free_frame (dr_last r) (dr_world r)"
  have r: "moved ?a (frame_count (dr_last r)) (frame_avs (dr_last r)) (frame_refs (dr_last r)) w (dr_world r)"
    "frame_of ?a (dr_last r)" "ctx_core (dr_ctx r) = ctx_core c"
    using assms(1) by (simp_all add: run_ok_def Let_def)
  have "frame_refs (dr_last r) \<le> int (stats_refs (dr_world r) ?a)"
    using moved_refs [OF r(1)] by simp
  from moved_trans [OF r(1) free_frame_moved [OF r(2) this]] have m: "moved ?a 0 0 0 w ?w" by simp
  then have room: "refs_room ?w ?a" using assms(2) by (auto simp: refs_room_def dest: moved_refs)
  have a: "dx_transfer_stats ?ctx = ?a" using arg_cong [OF r(3), of dx_transfer_stats]
    by (simp add: ctx_core_stats)
  obtain p w1 where out: "output_frame x ?ctx ?w = (p, w1)" by fastforce
  note o = output_frame_moved [OF out room a]
  have "moved ?a (frame_count p) (frame_avs p) (frame_refs p) w w1"
    using moved_trans [OF m o(2)] by simp
  then show ?thesis using o(1) m r(3) out
    by (auto simp: take_frame_def Let_def run_ok_def frame_amounts split: option.splits)
qed

lemma receive_loop_ok:
  "receive_loop as r = Some r' \<Longrightarrow> run_ok w c r \<Longrightarrow> refs_room w (dx_transfer_stats c) \<Longrightarrow> run_ok w c r'"
  by (induction as r rule: receive_loop.induct) (auto simp: take_frame_ok split: if_splits)

lemma run_ok_ctx: "ctx_core c' = ctx_core (dr_ctx r) \<Longrightarrow> run_ok w c (r\<lparr>dr_ctx := c'\<rparr>) = run_ok w c r"
  by (simp add: run_ok_def Let_def)

lemma send_packet_ok:
  assumes "send_packet a r = Some r'" and "run_ok w c r" and "refs_room w (dx_transfer_stats c)"
  shows "run_ok w c r'"
proof -
  let ?r = "r\<lparr>dr_ctx := (dr_ctx r)\<lparr>dx_pts_counter := dx_pts_counter (dr_ctx r) + 1\<rparr>\<rparr>"
  have r: "run_ok w c ?r" using assms(2) by (simp add: run_ok_ctx)
  then have "run_ok w c (?r\<lparr>dr_ctx := drop_frame (dr_ctx ?r)\<rparr>)"
    by (subst run_ok_ctx) simp_all
  then show ?thesis using assms(1) receive_loop_ok [OF _ r assms(3)]
    by (auto simp: send_packet_def Let_def split: if_splits)
qed

lemma parse_loop_ok:
  "parse_loop as n r = Some r' \<Longrightarrow> run_ok w c r \<Longrightarrow> refs_room w (dx_transfer_stats c) \<Longrightarrow> run_ok w c r'"
proof (induction as n r rule: parse_loop.induct)
  case (2 a as n r)
  then show ?case
    by (auto simp: run_ok_ctx split: if_splits option.splits dest: send_packet_ok)
qed (simp split: if_splits)

lemma decoder_decode_moved:
  assumes "decoder_decode ans data ctx w = Some (rc, p, ctx', w')"
    and "refs_room w (dx_transfer_stats ctx)"
  shows "rc = 0 \<longleftrightarrow> p \<noteq> None" "rc = 0 \<or> rc = 1 \<or> rc = - 1"
    "moved (dx_transfer_stats ctx) (frame_count p) (frame_avs p) (frame_refs p) w w'"
    "frame_of (dx_transfer_stats ctx) p" "ctx_core ctx' = ctx_core ctx"
proof -
  let ?r0 = "\<lparr>dr_ctx = count_nal data ctx, dr_world = w, dr_last = None, dr_total = 0\<rparr>"
  have "(rc = 0 \<longleftrightarrow> p \<noteq> None) \<and> (rc = 0 \<or> rc = 1 \<or> rc = - 1) \<and>
    moved (dx_transfer_stats ctx) (frame_count p) (frame_avs p) (frame_refs p) w w' \<and>
    frame_of (dx_transfer_stats ctx) p \<and> ctx_core ctx' = ctx_core ctx"
  proof (cases "dx_initialized ctx")
    case True
    then obtain r where r: "parse_loop ans (int (length data)) ?r0 = Some r"
      using assms(1) by (auto simp: decoder_decode_def split: option.splits)
    have "run_ok w ctx ?r0" by (simp add: run_ok_def frame_amounts)
    from parse_loop_ok [OF r this assms(2)] have "run_ok w ctx r" .
    moreover have "p = dr_last r" "w' = dr_world r" "ctx_core ctx' = ctx_core (dr_ctx r)"
      "rc = (if dr_last r \<noteq> None then 0 else if dr_total r = 0 then 1 else - 1)"
      using assms(1) True r
      by (cases "dr_last r"; auto simp: decoder_decode_def Let_def split: if_splits)+
    ultimately show ?thesis by (auto simp: run_ok_def Let_def)
  qed (use assms in \<open>auto simp: decoder_decode_def frame_amounts\<close>)
  then show "rc = 0 \<longleftrightarrow> p \<noteq> None" "rc = 0 \<or> rc = 1 \<or> rc = - 1"
    "moved (dx_transfer_stats ctx) (frame_count p) (frame_avs p) (frame_refs p) w w'"
    "frame_of (dx_transfer_stats ctx) p" "ctx_core ctx' = ctx_core ctx" by blast+
qed

section \<open>References and transfers\<close>

lemma decoder_ref_frame_moved:
  assumes "decoder_ref_frame ca cl ml (Some src) w = (p, w')" and "frame_of a (Some src)"
    and "refs_room w a"
  shows "frame_of a p" "moved a (frame_count p) (frame_avs p) (frame_refs p) w w'"
proof -
  let ?w = "w\<lparr>w_frames := w_frames w + 1\<rparr>"
  let ?dst = "zero_frame\<lparr>df_width := df_width src, df_height := df_height src, df_pts := df_pts src,
      df_key_frame := df_key_frame src, df_format := df_format src, df_storage := df_storage src\<rparr>"
  have m0: "moved a 1 0 0 w ?w" by simp
  have room: "refs_room ?w a" using assms(3) by (simp add: refs_room_def stats_refs_def)
  have "frame_of a p \<and> moved a (frame_count p) (frame_avs p) (frame_refs p) w w'"
  proof (cases "ca \<and> (\<exists>avf. df_av_frame src = Some avf)")
    case True
    then obtain avf where avf: "ca" "df_av_frame src = Some avf" by auto
    obtain rc f w2 where set: "decoded_frame_set_avframe cl ?dst (df_stats src) avf (df_storage src) False ?w = (rc, f, w2)"
      by (metis prod_cases3)
    have pw: "(p, w') = (if rc \<noteq> 0 then (None, w2\<lparr>w_frames := w_frames w2 - 1\<rparr>) else (Some f, w2))"
      using assms(1) avf set by (simp add: decoder_ref_frame_def Let_def split: if_splits)
    show ?thesis
    proof (cases "df_stats src")
      case None
      then show ?thesis using pw set m0
        by (auto simp: decoded_frame_set_avframe_def Let_def transfer_stats_ref_def frame_amounts moved_def
            stats_refs_def split: if_splits)
    next
      case (Some b)
      then have b: "df_stats src = Some a" using assms(2) by (simp add: frame_of_def)
      note l = set_avframe_moved [OF set [unfolded b] room]
      show ?thesis
      proof (cases "rc = 0")
        case True
        then show ?thesis using pw l(2) moved_trans [OF m0, of 0 1 "frame_refs (Some f)" w2]
          by (simp add: frame_count_def frame_avs_def)
      next
        case False
        then show ?thesis using pw l(1) m0 by (simp add: frame_amounts)
      qed
    qed
  next
    case False
    then show ?thesis using assms(1) m0
      by (auto simp: decoder_ref_frame_def Let_def copy_cpu_frame_data_def frame_amounts zero_frame_def
          decoder_free_frame_def transfer_stats_unref_def split: option.splits if_splits prod.splits)
  qed
  then show "frame_of a p" "moved a (frame_count p) (frame_avs p) (frame_refs p) w w'" by auto
qed

lemma record_simps [simp]:
  "w_frames (record_hw_transfer_time p w) = w_frames w"
  "w_avframes (record_hw_transfer_time p w) = w_avframes w"
  "stats_refs (record_hw_transfer_time p w) a = stats_refs w a"
  "g_cuda_device_master (record_hw_transfer_time p w) = g_cuda_device_master w"
  "g_cuda_device_id (record_hw_transfer_time p w) = g_cuda_device_id w"
  "g_cuda_device_users (record_hw_transfer_time p w) = g_cuda_device_users w"
  "w_device_refs (record_hw_transfer_time p w) = w_device_refs w"
  "w_next (record_hw_transfer_time p w) = w_next w"
  "p \<noteq> Some b \<Longrightarrow> w_stats (record_hw_transfer_time p w) b = w_stats w b"
  by (auto simp: record_hw_transfer_time_def stats_refs_def split: option.splits)

lemma stats_refs_update [simp]:
  "stats_refs (w\<lparr>w_frames := i\<rparr>) a = stats_refs w a"
  "stats_refs (w\<lparr>w_avframes := i\<rparr>) a = stats_refs w a"
  by (simp_all add: stats_refs_def)

lemma decoder_materialize_frame_moved:
  assumes "decoder_materialize_frame x ml (Some src) w = (rc, p, w')" and "frame_of a (Some src)"
    and "refs_room w a"
  shows "frame_of a p" "moved a (frame_count p) (frame_avs p) (frame_refs p) w w'" "rc = 0 \<longleftrightarrow> p \<noteq> None"
proof -
  have st: "b \<noteq> a \<Longrightarrow> df_stats src \<noteq> Some b" for b
    using assms(2) by (auto simp: frame_of_def)
  have "frame_of a p \<and> moved a (frame_count p) (frame_avs p) (frame_refs p) w w' \<and> (rc = 0 \<longleftrightarrow> p \<noteq> None)"
  proof (cases "df_storage src")
    case DECODE_STORAGE_CPU
    obtain q w1 where q: "decoder_ref_frame (ra_calloc x) (ra_clone x) ml (Some src) w = (q, w1)" by fastforce
    then show ?thesis using assms(1) DECODE_STORAGE_CPU decoder_ref_frame_moved [OF q assms(2,3)]
      by (cases q) (auto simp: decoder_materialize_frame_def)
  next
    case DECODE_STORAGE_HW
    then show ?thesis using assms(1) st
      by (cases "df_av_frame src"; cases "ra_tmp_alloc x"; cases "ra_xfer_rc x < 0"; cases "ra_calloc x")
        (auto simp: decoder_materialize_frame_def Let_def decoded_frame_set_avframe_def frame_amounts moved_def)
  qed
  then show "frame_of a p" "moved a (frame_count p) (frame_avs p) (frame_refs p) w w'" "rc = 0 \<longleftrightarrow> p \<noteq> None"
    by auto
qed

end
