(* ===== verification/CudaShare.thy ===== *)
theory CudaShare
  imports Decoder
begin

text \<open>
  The CUDA device all decoders share, under every interleaving of the threads that create and
  destroy decoders. A step is one section under \<open>g_cuda_device_mu\<close>, with the calls around it
  that touch only the thread's own data; between its two sections an acquiring thread is in
  \<open>y_creating\<close> and others may run.
\<close>

section \<open>The device and its users\<close>

text \<open>
  The user count is \<open>n\<close>, the master exists exactly while there are users, and the references
  are the users', the master's and \<open>v\<close> others.
\<close>

definition device_ok :: "nat \<Rightarrow> int \<Rightarrow> av_world \<Rightarrow> bool" where
  "device_ok n v w \<longleftrightarrow> unat (g_cuda_device_users w) = n \<and> (g_cuda_device_master w \<longleftrightarrow> 0 < n) \<and>
     w_device_refs w = int n + (if g_cuda_device_master w then 1 else 0) + v"

definition same_device :: "nat \<Rightarrow> av_world \<Rightarrow> av_world \<Rightarrow> bool" where
  "same_device n w w' \<longleftrightarrow> (0 < n \<longrightarrow> g_cuda_device_id w' = g_cuda_device_id w)"

lemma users_zero: "unat (u :: u32) = n \<Longrightarrow> u = 0 \<longleftrightarrow> n = 0" "unat (u :: u32) = n \<Longrightarrow> 0 < u \<longleftrightarrow> 0 < n"
  by (auto simp: word_less_nat_alt unat_eq_zero)

lemma users_up: "unat (u :: u32) = n \<Longrightarrow> n < 2 ^ 32 - 1 \<Longrightarrow> unat (u + 1) = Suc n"
  by (simp add: unat_word_ariths)

lemma users_down: "unat (u :: u32) = Suc n \<Longrightarrow> unat (u - 1) = n"
  by (metis diff_Suc_1 nat.distinct(1) unat_0 unat_minus_one)

lemma acquire_existing_ok:
  assumes "device_ok n v w" and "n < 2 ^ 32 - 1" and "acquire_existing ok d w = Some (rc, out, w')"
  shows "device_ok (if out then Suc n else n) v w'" "same_device n w w'"
    "out \<Longrightarrow> g_cuda_device_id w = d \<and> 0 < n"
  using assms
  by (auto simp: device_ok_def same_device_def acquire_existing_def take_shared_def users_up split: if_splits)

lemma acquire_install_ok:
  assumes "device_ok n v w" and "n < 2 ^ 32 - 1" and "acquire_install ok d w = (rc, out, w')"
  shows "device_ok (if out then Suc n else n) v w'" "same_device n w w'"
    "out \<Longrightarrow> g_cuda_device_id w' = d"
proof -
  have "device_ok (if out then Suc n else n) v w' \<and> same_device n w w' \<and> (out \<longrightarrow> g_cuda_device_id w' = d)"
  proof (cases "0 < n")
    case True
    then show ?thesis using assms
      by (auto simp: device_ok_def same_device_def acquire_install_def Let_def take_shared_def users_up
          drop_unused_master_def split: if_splits)
  next
    case False
    then show ?thesis using assms
      by (auto simp: device_ok_def same_device_def acquire_install_def Let_def take_shared_def users_up
          drop_unused_master_def users_zero split: if_splits)
  qed
  then show "device_ok (if out then Suc n else n) v w'" "same_device n w w'"
    "out \<Longrightarrow> g_cuda_device_id w' = d" by auto
qed

text \<open>What \<open>decoder_destroy\<close> does with a shared device.\<close>

definition give_back :: "av_world \<Rightarrow> av_world" where
  "give_back w = release_shared_cuda_device (w\<lparr>w_device_refs := w_device_refs w - 1\<rparr>)"

lemma give_back_ok:
  assumes "device_ok (Suc n) v w"
  shows "device_ok n v (give_back w)" "same_device n w (give_back w)"
proof -
  have u: "unat (g_cuda_device_users w) = Suc n" and nz: "0 < g_cuda_device_users w"
    using assms users_zero by (auto simp: device_ok_def)
  note d = users_down [OF u]
  show "device_ok n v (give_back w)" "same_device n w (give_back w)"
    using assms nz d users_zero(1) [OF d]
    by (auto simp: give_back_def release_shared_cuda_device_def drop_unused_master_def device_ok_def same_device_def)
qed

section \<open>The threads and the device\<close>

record cuda_sys =
  y_world :: av_world
  y_holder :: "nat \<Rightarrow> int option"
  y_creating :: "nat \<Rightarrow> int option"

definition cuda_sys_init :: cuda_sys where
  "cuda_sys_init = \<lparr>y_world = av_world_init, y_holder = (\<lambda>_. None), y_creating = (\<lambda>_. None)\<rparr>"

definition idle_thread :: "cuda_sys \<Rightarrow> nat \<Rightarrow> bool" where
  "idle_thread y t \<longleftrightarrow> y_holder y t = None \<and> y_creating y t = None"

definition holders :: "cuda_sys \<Rightarrow> nat" where
  "holders y = card (dom (y_holder y))"

text \<open>The answer of an acquisition: \<open>out_ctx\<close> is the thread's reference.\<close>

definition answered :: "nat \<Rightarrow> int \<Rightarrow> (int \<times> bool \<times> av_world) \<Rightarrow> cuda_sys \<Rightarrow> cuda_sys" where
  "answered t d r y = (case r of (rc, out, w) \<Rightarrow>
     y\<lparr>y_world := w, y_creating := (y_creating y)(t := None),
       y_holder := (if out then (y_holder y)(t \<mapsto> d) else y_holder y)\<rparr>)"

inductive cuda_step :: "cuda_sys \<Rightarrow> cuda_sys \<Rightarrow> bool" where
  existing: "idle_thread y t \<Longrightarrow> holders y < 2 ^ 32 - 1 \<Longrightarrow>
     acquire_existing ok d (y_world y) = Some r \<Longrightarrow> cuda_step y (answered t d r y)"
| absent: "idle_thread y t \<Longrightarrow> acquire_existing ok d (y_world y) = None \<Longrightarrow>
     cuda_step y (y\<lparr>y_creating := (y_creating y)(t \<mapsto> d)\<rparr>)"
| create_failed: "y_creating y t = Some d \<Longrightarrow>
     cuda_step y (y\<lparr>y_creating := (y_creating y)(t := None)\<rparr>)"
| install: "y_creating y t = Some d \<Longrightarrow> y_holder y t = None \<Longrightarrow> holders y < 2 ^ 32 - 1 \<Longrightarrow>
     cuda_step y (answered t d (acquire_install ok d (y_world y)) y)"
| release: "y_holder y t = Some d \<Longrightarrow>
     cuda_step y (y\<lparr>y_world := give_back (y_world y), y_holder := (y_holder y)(t := None)\<rparr>)"

inductive_cases cuda_stepE: "cuda_step y y'"

inductive cuda_reachable :: "cuda_sys \<Rightarrow> bool" where
  start: "cuda_reachable cuda_sys_init"
| step: "cuda_reachable y \<Longrightarrow> cuda_step y y' \<Longrightarrow> cuda_reachable y'"

section \<open>The invariant\<close>

text \<open>All holders hold the device of the master, and each is counted once.\<close>

definition cuda_inv :: "cuda_sys \<Rightarrow> bool" where
  "cuda_inv y \<longleftrightarrow> finite (dom (y_holder y)) \<and> device_ok (holders y) 0 (y_world y) \<and>
     (\<forall>t d. y_holder y t = Some d \<longrightarrow> d = g_cuda_device_id (y_world y))"

lemma holders_add:
  "finite (dom h) \<Longrightarrow> h t = None \<Longrightarrow> card (dom (h(t \<mapsto> d))) = Suc (card (dom h))"
  by (simp add: card_insert_if domIff)

lemma holders_remove:
  assumes "finite (dom h)" and "h t = Some d"
  shows "card (dom h) = Suc (card (dom (h(t := None))))"
  using card.remove [of "dom h" t] assms by (auto simp: domI)

lemma answered_inv:
  assumes "cuda_inv y" and "y_holder y t = None" and "device_ok (if out then Suc (holders y) else holders y) 0 w"
    and "same_device (holders y) (y_world y) w" and "out \<Longrightarrow> g_cuda_device_id w = d"
  shows "cuda_inv (answered t d (rc, out, w) y)"
proof -
  have "y_holder y u = Some d' \<Longrightarrow> 0 < holders y" for u d'
    using assms(1) by (auto simp: cuda_inv_def holders_def card_gt_0_iff)
  then have ids: "y_holder y u = Some d' \<Longrightarrow> d' = g_cuda_device_id w" for u d'
    using assms(1,4) by (auto simp: cuda_inv_def same_device_def)
  show ?thesis
    using assms(1-3,5) ids holders_add [of "y_holder y" t d]
    by (cases out) (auto simp: cuda_inv_def answered_def holders_def)
qed

lemma cuda_step_inv:
  assumes "cuda_step y y'" and "cuda_inv y"
  shows "cuda_inv y'"
  using assms
proof cases
  case (existing t ok d r)
  obtain rc out w where r: "r = (rc, out, w)" by (metis prod_cases3)
  have dev: "device_ok (holders y) 0 (y_world y)" using assms(2) by (simp add: cuda_inv_def)
  note l = acquire_existing_ok [OF dev existing(3) existing(4) [unfolded r]]
  show ?thesis unfolding existing(1) r
    by (rule answered_inv) (use assms(2) existing(2) l in \<open>auto simp: idle_thread_def same_device_def\<close>)
next
  case (install t d ok)
  obtain rc out w where r: "acquire_install ok d (y_world y) = (rc, out, w)" by (metis prod_cases3)
  have dev: "device_ok (holders y) 0 (y_world y)" using assms(2) by (simp add: cuda_inv_def)
  note l = acquire_install_ok [OF dev install(4) r]
  show ?thesis unfolding install(1) r
    by (rule answered_inv) (use assms(2) install(3) l in auto)
next
  case (release t d)
  let ?n = "card (dom ((y_holder y)(t := None)))"
  have n: "holders y = Suc ?n"
    using assms(2) holders_remove [of "y_holder y" t d] release(2) by (simp add: holders_def cuda_inv_def)
  then have dev: "device_ok (Suc ?n) 0 (y_world y)" using assms(2) by (simp add: cuda_inv_def)
  have "u \<noteq> t \<Longrightarrow> y_holder y u = Some d' \<Longrightarrow> 0 < ?n" for u d'
    using assms(2) by (auto simp: cuda_inv_def card_gt_0_iff)
  then show ?thesis
    using assms(2) give_back_ok [OF dev] unfolding release(1)
    by (auto simp: cuda_inv_def holders_def same_device_def)
qed (auto simp: cuda_inv_def holders_def)

lemma cuda_reachable_inv: "cuda_reachable y \<Longrightarrow> cuda_inv y"
proof (induction rule: cuda_reachable.induct)
  case start
  show ?case by (simp add: cuda_inv_def cuda_sys_init_def av_world_init_def device_ok_def holders_def)
qed (rule cuda_step_inv)

text \<open>C33: the CUDA device is shared soundly by any number of decoders: however the threads that
  create and destroy decoders interleave, also between the two locked sections of an
  acquisition, the user count is the number of decoders holding the device, the master device
  exists exactly while there is one, all of them hold the device with the recorded identifier,
  and no reference is lost: there is one for each holder and one for the master.\<close>

theorem cuda_device_shared:
  assumes "cuda_reachable y"
  shows "unat (g_cuda_device_users (y_world y)) = holders y \<and>
    (g_cuda_device_master (y_world y) \<longleftrightarrow> (\<exists>t. y_holder y t \<noteq> None)) \<and>
    w_device_refs (y_world y) = int (holders y) + (if g_cuda_device_master (y_world y) then 1 else 0) \<and>
    (\<forall>t d. y_holder y t = Some d \<longrightarrow> d = g_cuda_device_id (y_world y))"
  using cuda_reachable_inv [OF assms]
  by (auto simp: cuda_inv_def device_ok_def holders_def card_gt_0_iff)

text \<open>Two threads find no device and both create one; the second gives its own back.\<close>

definition ex_race :: cuda_sys where
  "ex_race = answered 1 0 (acquire_install True 0 (snd (snd (acquire_install True 0 av_world_init))))
     (answered 0 0 (acquire_install True 0 av_world_init)
       (cuda_sys_init\<lparr>y_creating := [0 \<mapsto> 0, 1 \<mapsto> 0]\<rparr>))"

lemma acquire_install_first:
  "acquire_install True 0 av_world_init =
     (0, True, av_world_init\<lparr>g_cuda_device_master := True, g_cuda_device_id := 0,
        g_cuda_device_users := 1, w_device_refs := 2\<rparr>)"
  by (simp add: acquire_install_def av_world_init_def take_shared_def)

lemma acquire_install_second:
  "acquire_install True 0 (snd (snd (acquire_install True 0 av_world_init))) =
     (0, True, av_world_init\<lparr>g_cuda_device_master := True, g_cuda_device_id := 0,
        g_cuda_device_users := 2, w_device_refs := 3\<rparr>)"
  unfolding acquire_install_first
  by (simp add: acquire_install_def av_world_init_def take_shared_def)

lemma ex_race_holder: "y_holder ex_race = [0 \<mapsto> 0, 1 \<mapsto> 0]"
  unfolding ex_race_def acquire_install_second unfolding acquire_install_first
  by (simp add: answered_def cuda_sys_init_def)

lemma ex_race_reachable: "cuda_reachable ex_race"
proof -
  let ?y1 = "cuda_sys_init\<lparr>y_creating := [0 \<mapsto> 0]\<rparr>"
  let ?y2 = "cuda_sys_init\<lparr>y_creating := [0 \<mapsto> 0, 1 \<mapsto> 0]\<rparr>"
  let ?y3 = "answered 0 0 (acquire_install True 0 av_world_init) ?y2"
  have none: "acquire_existing True d av_world_init = None" for d
    by (simp add: acquire_existing_def av_world_init_def)
  have "cuda_step cuda_sys_init ?y1"
    using cuda_step.absent [of cuda_sys_init 0 True 0] none
    by (simp add: idle_thread_def cuda_sys_init_def)
  then have 1: "cuda_reachable ?y1" using cuda_reachable.start cuda_reachable.step by blast
  have "cuda_step ?y1 ?y2"
    using cuda_step.absent [of ?y1 1 True 0] none
    by (simp add: idle_thread_def cuda_sys_init_def)
  then have 2: "cuda_reachable ?y2" using 1 cuda_reachable.step by blast
  have "cuda_step ?y2 ?y3"
    using cuda_step.install [of ?y2 0 0 True] by (simp add: holders_def cuda_sys_init_def)
  then have 3: "cuda_reachable ?y3" using 2 cuda_reachable.step by blast
  have "cuda_step ?y3 ex_race"
    using cuda_step.install [of ?y3 1 0 True] unfolding ex_race_def
    by (simp add: holders_def cuda_sys_init_def answered_def acquire_install_first)
  then show ?thesis using 3 cuda_reachable.step by blast
qed

theorem cuda_device_shared_witness:
  "holders ex_race = 2 \<and> unat (g_cuda_device_users (y_world ex_race)) = 2 \<and>
   w_device_refs (y_world ex_race) = 3"
proof -
  have "holders ex_race = 2" by (simp add: holders_def ex_race_holder)
  moreover have "y_holder ex_race 0 \<noteq> None" by (simp add: ex_race_holder)
  ultimately show ?thesis using cuda_device_shared [OF ex_race_reachable] by auto
qed

end
