(* ===== verification/StreamRes.thy ===== *)
theory StreamRes
  imports Stream DecoderFrames CudaShare
begin

text \<open>
  Who owns what in the stream manager: a decoder context owns its \<open>AVFrame\<close>, its device
  reference and its reference to the transfer statistics, a slot owns its context and its last
  frame, and the tallies of the world are the sums over the slots.
\<close>

section \<open>What a decoder context owns\<close>

definition ctx_shared :: "DecoderCtx \<Rightarrow> nat" where
  "ctx_shared c = (if dx_uses_shared_cuda_device c then 1 else 0)"

definition ctx_va :: "DecoderCtx \<Rightarrow> int" where
  "ctx_va c = (if dx_hw_device_ctx c \<and> \<not> dx_uses_shared_cuda_device c then 1 else 0)"

text \<open>
  The device accounts move by \<open>k\<close> users and \<open>v\<close> other references, whatever other decoders
  hold; a run of a server holds far fewer than \<open>2 ^ 32\<close> decoders.
\<close>

definition dev_moved :: "nat \<Rightarrow> int \<Rightarrow> av_world \<Rightarrow> av_world \<Rightarrow> bool" where
  "dev_moved k v w w' \<longleftrightarrow> (\<forall>n u. n < 2 ^ 32 - 1 \<longrightarrow> device_ok n u w \<longrightarrow> device_ok (n + k) (u + v) w')"

definition fresh_world :: "av_world \<Rightarrow> bool" where
  "fresh_world w \<longleftrightarrow> (\<forall>a. w_next w \<le> a \<longrightarrow> w_stats w a = None)"

text \<open>From \<open>w\<close> to \<open>w'\<close> nothing is owned that was not, and nothing is lost.\<close>

definition restored :: "av_world \<Rightarrow> av_world \<Rightarrow> bool" where
  "restored w w' \<longleftrightarrow> w_frames w' = w_frames w \<and> w_avframes w' = w_avframes w \<and>
     w_stats w' = w_stats w \<and> w_next w \<le> w_next w' \<and> dev_moved 0 0 w w'"

text \<open>From \<open>w\<close> to \<open>w'\<close> exactly the context \<open>c\<close> was created.\<close>

definition owned :: "av_world \<Rightarrow> DecoderCtx \<Rightarrow> av_world \<Rightarrow> bool" where
  "owned w c w' \<longleftrightarrow> w_frames w' = w_frames w \<and>
     w_avframes w' = w_avframes w + (if dx_frame c then 1 else 0) \<and>
     w_next w \<le> dx_transfer_stats c \<and> dx_transfer_stats c < w_next w' \<and>
     (\<exists>t. tf_refcount t = 1 \<and> w_stats w' = (w_stats w)(dx_transfer_stats c \<mapsto> t)) \<and>
     dev_moved (ctx_shared c) (ctx_va c) w w' \<and> (dx_uses_shared_cuda_device c \<longrightarrow> dx_hw_device_ctx c)"

lemma device_ok_cong:
  "g_cuda_device_users w' = g_cuda_device_users w \<Longrightarrow> g_cuda_device_master w' = g_cuda_device_master w \<Longrightarrow>
   w_device_refs w' = w_device_refs w \<Longrightarrow> device_ok n v w' = device_ok n v w"
  by (simp add: device_ok_def)

lemma release_others:
  "w_frames (release_shared_cuda_device w) = w_frames w"
  "w_avframes (release_shared_cuda_device w) = w_avframes w"
  "w_stats (release_shared_cuda_device w) = w_stats w" "w_next (release_shared_cuda_device w) = w_next w"
  by (simp_all add: release_shared_cuda_device_def drop_unused_master_def)

lemma acquire_others:
  assumes "acquire_shared_cuda_device e d w = (rc, out, w')"
  shows "w_frames w' = w_frames w" "w_avframes w' = w_avframes w" "w_stats w' = w_stats w"
    "w_next w' = w_next w" "rc < 0 \<longleftrightarrow> \<not> out"
  using assms
  by (auto simp: acquire_shared_cuda_device_def acquire_existing_def acquire_install_def Let_def
      take_shared_def drop_unused_master_def AVERROR_EINVAL_def AVERROR_ENOMEM_def split: if_splits)

lemma acquire_device:
  assumes "acquire_shared_cuda_device e d w = (rc, out, w')" and "n < 2 ^ 32 - 1" and "device_ok n v w"
  shows "device_ok (if out then Suc n else n) v w'"
proof (cases "acquire_existing (av_buffer_ref e) d w")
  case None
  show ?thesis
  proof (cases "av_cuda_create e (Some d) < 0")
    case False
    then have "acquire_install (av_buffer_ref e) d w = (rc, out, w')"
      using assms(1) None by (simp add: acquire_shared_cuda_device_def)
    then show ?thesis by (rule acquire_install_ok(1) [OF assms(3,2)])
  qed (use assms None in \<open>auto simp: acquire_shared_cuda_device_def\<close>)
next
  case (Some r)
  then have "acquire_existing (av_buffer_ref e) d w = Some (rc, out, w')"
    using assms(1) by (simp add: acquire_shared_cuda_device_def)
  then show ?thesis by (rule acquire_existing_ok(1) [OF assms(3,2)])
qed

section \<open>Creation, initialisation, destruction\<close>

lemma unref_last:
  assumes "w_stats w a = Some t" and "tf_refcount t = 1"
  shows "transfer_stats_unref (Some a) w = w\<lparr>w_stats := (w_stats w)(a := None)\<rparr>"
  using assms by (simp add: transfer_stats_unref_def)

text \<open>What a destruction changes, for a context with one reference to its statistics.\<close>

lemma decoder_destroy_world:
  assumes "w_stats w (dx_transfer_stats c) = Some t" and "tf_refcount t = 1"
    and "dx_uses_shared_cuda_device c \<longrightarrow> dx_hw_device_ctx c"
  shows "w_frames (decoder_destroy c w) = w_frames w"
    "w_avframes (decoder_destroy c w) = w_avframes w - (if dx_frame c then 1 else 0)"
    "w_stats (decoder_destroy c w) = (w_stats w)(dx_transfer_stats c := None)"
    "w_next (decoder_destroy c w) = w_next w"
    "device_ok (n + ctx_shared c) (u + ctx_va c) w \<Longrightarrow> device_ok n u (decoder_destroy c w)"
proof -
  let ?w1 = "if dx_frame c then w\<lparr>w_avframes := w_avframes w - 1\<rparr> else w"
  let ?w2 = "if dx_hw_device_ctx c then ?w1\<lparr>w_device_refs := w_device_refs ?w1 - 1\<rparr> else ?w1"
  let ?w3 = "if dx_uses_shared_cuda_device c then release_shared_cuda_device ?w2 else ?w2"
  have "w_stats ?w3 (dx_transfer_stats c) = Some t" using assms(1) by (simp add: release_others)
  from unref_last [OF this assms(2)]
  have d: "decoder_destroy c w = ?w3\<lparr>w_stats := (w_stats ?w3)(dx_transfer_stats c := None)\<rparr>"
    by (simp add: decoder_destroy_def Let_def)
  show "w_frames (decoder_destroy c w) = w_frames w"
    "w_avframes (decoder_destroy c w) = w_avframes w - (if dx_frame c then 1 else 0)"
    "w_stats (decoder_destroy c w) = (w_stats w)(dx_transfer_stats c := None)"
    "w_next (decoder_destroy c w) = w_next w"
    unfolding d by (simp_all add: release_others)
  assume dev: "device_ok (n + ctx_shared c) (u + ctx_va c) w"
  then have dev1: "device_ok (n + ctx_shared c) (u + ctx_va c) ?w1" by (simp add: device_ok_def)
  have "device_ok n u ?w3"
  proof (cases "dx_uses_shared_cuda_device c")
    case True
    then have "?w3 = give_back ?w1" using assms(3) by (simp add: give_back_def)
    then show ?thesis using give_back_ok(1) [of n u ?w1] dev1 True
      by (simp add: ctx_shared_def ctx_va_def)
  next
    case False
    then show ?thesis using dev by (auto simp: device_ok_def ctx_shared_def ctx_va_def)
  qed
  then show "device_ok n u (decoder_destroy c w)" unfolding d by (simp add: device_ok_def)
qed

lemma decoder_destroy_owned:
  assumes "owned w c w'" and "fresh_world w"
  shows "restored w (decoder_destroy c w')"
proof -
  obtain t where t: "tf_refcount t = 1" "w_stats w' = (w_stats w)(dx_transfer_stats c \<mapsto> t)"
    using assms(1) by (auto simp: owned_def)
  have "w_stats w (dx_transfer_stats c) = None" using assms by (auto simp: owned_def fresh_world_def)
  then have "(w_stats w)(dx_transfer_stats c := None) = w_stats w" by (simp add: fun_upd_idem)
  moreover have "w_stats w' (dx_transfer_stats c) = Some t" using t(2) by simp
  note d = decoder_destroy_world [OF this t(1)]
  moreover have o: "dx_uses_shared_cuda_device c \<longrightarrow> dx_hw_device_ctx c"
    "dev_moved (ctx_shared c) (ctx_va c) w w'" "w_next w \<le> w_next w'"
    "w_frames w' = w_frames w" "w_avframes w' = w_avframes w + (if dx_frame c then 1 else 0)"
    using assms(1) by (simp_all add: owned_def)
  moreover have "dev_moved 0 0 w (decoder_destroy c w')"
    using o(2) d(5) [OF o(1)] by (simp add: dev_moved_def)
  ultimately show ?thesis using t(2) by (simp add: restored_def)
qed

lemma fresh_ctx_simps [simp]:
  "dx_transfer_stats (fresh_ctx cfg a) = a" "dx_frame (fresh_ctx cfg a) = False"
  "dx_hw_device_ctx (fresh_ctx cfg a) = False" "dx_uses_shared_cuda_device (fresh_ctx cfg a) = False"
  "dx_initialized (fresh_ctx cfg a) = False" "dx_codec_ctx (fresh_ctx cfg a) = None"
  by (simp_all add: fresh_ctx_def)

lemma dev_moved_same:
  "g_cuda_device_users w' = g_cuda_device_users w \<Longrightarrow> g_cuda_device_master w' = g_cuda_device_master w \<Longrightarrow>
   w_device_refs w' = w_device_refs w \<Longrightarrow> dev_moved 0 0 w w'"
  by (simp add: dev_moved_def device_ok_def)

lemma restored_refl [simp]: "restored w w"
  by (simp add: restored_def dev_moved_same)

lemma decoder_create_cases:
  assumes "decoder_create e cfg w = (p, w')" and "fresh_world w"
  shows "p = None \<Longrightarrow> restored w w'"
    and "p = Some c \<Longrightarrow> owned w c w' \<and> \<not> dx_initialized c \<and> \<not> dx_hw_device_ctx c \<and>
      \<not> dx_uses_shared_cuda_device c \<and> dx_frame c"
proof -
  let ?a = "w_next w"
  let ?w1 = "w\<lparr>w_stats := (w_stats w)(?a \<mapsto> \<lparr>tf_refcount = 1, tf_hw_transfer_count = 0\<rparr>), w_next := ?a + 1\<rparr>"
  let ?w2 = "if av_frame_alloc e then ?w1\<lparr>w_avframes := w_avframes ?w1 + 1\<rparr> else ?w1"
  have own: "owned w c ?w1" if "\<not> dx_frame c" "\<not> dx_hw_device_ctx c" "\<not> dx_uses_shared_cuda_device c"
      "dx_transfer_stats c = ?a" for c
    unfolding owned_def using that
    by (intro conjI exI [where x = "\<lparr>tf_refcount = 1, tf_hw_transfer_count = 0\<rparr>"])
      (simp_all add: ctx_shared_def ctx_va_def dev_moved_same)
  have own2: "owned w c ?w2" if "dx_frame c = av_frame_alloc e" "\<not> dx_hw_device_ctx c"
      "\<not> dx_uses_shared_cuda_device c" "dx_transfer_stats c = ?a" for c
    unfolding owned_def using that
    by (intro conjI exI [where x = "\<lparr>tf_refcount = 1, tf_hw_transfer_count = 0\<rparr>"])
      (simp_all add: ctx_shared_def ctx_va_def dev_moved_same)
  note gone = decoder_destroy_owned [OF own assms(2)] decoder_destroy_owned [OF own2 assms(2)]
  show "p = None \<Longrightarrow> restored w w'"
    using assms(1) gone
    by (auto simp: decoder_create_def Let_def split: if_splits)
  show "p = Some c \<Longrightarrow> owned w c w' \<and> \<not> dx_initialized c \<and> \<not> dx_hw_device_ctx c \<and>
      \<not> dx_uses_shared_cuda_device c \<and> dx_frame c"
    using assms(1) own2 by (auto simp: decoder_create_def Let_def split: if_splits)
qed

lemma set_codec_simps [simp]:
  "dx_transfer_stats (set_codec f c) = dx_transfer_stats c" "dx_frame (set_codec f c) = dx_frame c"
  "dx_hw_device_ctx (set_codec f c) = dx_hw_device_ctx c"
  "dx_uses_shared_cuda_device (set_codec f c) = dx_uses_shared_cuda_device c"
  "dx_initialized (set_codec f c) = dx_initialized c" "dx_config (set_codec f c) = dx_config c"
  "dx_transfer_stats (to_cpu c) = dx_transfer_stats c" "dx_frame (to_cpu c) = dx_frame c"
  "dx_hw_device_ctx (to_cpu c) = dx_hw_device_ctx c"
  "dx_uses_shared_cuda_device (to_cpu c) = dx_uses_shared_cuda_device c"
  "dx_initialized (to_cpu c) = dx_initialized c"
  "dc_backend (dx_config (to_cpu c)) = DECODE_BACKEND_CPU"
  by (simp_all add: set_codec_def to_cpu_def)

text \<open>A context that has no device yet gets at most one.\<close>

definition no_device :: "DecoderCtx \<Rightarrow> bool" where
  "no_device c \<longleftrightarrow> \<not> dx_hw_device_ctx c \<and> \<not> dx_uses_shared_cuda_device c"

lemma init_vaapi_owned:
  assumes "owned w0 c w" and "no_device c" and "init_vaapi e c w = (c', w')"
  shows "owned w0 c' w'" "dx_transfer_stats c' = dx_transfer_stats c" "dx_frame c' = dx_frame c"
    "dx_initialized c' = dx_initialized c"
proof -
  let ?ok = "list_ex (av_va_create e) va_devices"
  have w': "w' = (if ?ok then w\<lparr>w_device_refs := w_device_refs w + 1\<rparr> else w)"
    and c': "dx_transfer_stats c' = dx_transfer_stats c" "dx_frame c' = dx_frame c"
      "dx_initialized c' = dx_initialized c" "dx_hw_device_ctx c' = ?ok" "\<not> dx_uses_shared_cuda_device c'"
    using assms(2,3) by (auto simp: init_vaapi_def Let_def no_device_def split: if_splits)
  have "dev_moved 0 0 w0 w" using assms(1,2) by (simp add: owned_def no_device_def ctx_shared_def ctx_va_def)
  then have "dev_moved (ctx_shared c') (ctx_va c') w0 w'"
    using c'(4,5) w' by (simp add: dev_moved_def ctx_shared_def ctx_va_def device_ok_def)
  then show "owned w0 c' w'" using assms(1) c' w' by (cases ?ok) (simp_all add: owned_def)
  show "dx_transfer_stats c' = dx_transfer_stats c" "dx_frame c' = dx_frame c"
    "dx_initialized c' = dx_initialized c" by (fact c'(1-3))+
qed

lemma init_cuda_owned:
  assumes "owned w0 c w" and "no_device c" and "init_cuda e c w = (c', w')"
  shows "owned w0 c' w'" "dx_transfer_stats c' = dx_transfer_stats c" "dx_frame c' = dx_frame c"
    "dx_initialized c' = dx_initialized c"
proof -
  obtain ret out w1 where acq: "acquire_shared_cuda_device e (dc_cuda_device_id (dx_config c)) w = (ret, out, w1)"
    by (metis prod_cases3)
  note o = acquire_others [OF acq]
  have w': "w' = w1" and c': "dx_transfer_stats c' = dx_transfer_stats c" "dx_frame c' = dx_frame c"
    "dx_initialized c' = dx_initialized c" "dx_hw_device_ctx c' = out" "dx_uses_shared_cuda_device c' = out"
    using assms(3) acq o(5) by (auto simp: init_cuda_def Let_def split: if_splits)
  have "dev_moved (ctx_shared c') (ctx_va c') w0 w1"
    using assms(1,2) acquire_device [OF acq] c'(4,5)
    by (auto simp: dev_moved_def owned_def no_device_def ctx_shared_def ctx_va_def)
  then show "owned w0 c' w'" using assms(1) o(1-4) c' w' by (auto simp: owned_def)
  show "dx_transfer_stats c' = dx_transfer_stats c" "dx_frame c' = dx_frame c"
    "dx_initialized c' = dx_initialized c" by (fact c'(1-3))+
qed

lemma owned_cong:
  "dx_transfer_stats c' = dx_transfer_stats c \<Longrightarrow> dx_frame c' = dx_frame c \<Longrightarrow>
   dx_hw_device_ctx c' = dx_hw_device_ctx c \<Longrightarrow>
   dx_uses_shared_cuda_device c' = dx_uses_shared_cuda_device c \<Longrightarrow> owned w0 c' w = owned w0 c w"
  by (simp add: owned_def ctx_shared_def ctx_va_def)

lemma decoder_init_owned:
  assumes "owned w0 c w" and "no_device c" and "\<not> dx_initialized c" and "decoder_init e x c w = (rc, c', w')"
  shows "owned w0 c' w'" "dx_transfer_stats c' = dx_transfer_stats c" "dx_frame c' = dx_frame c"
    "rc = 0 \<longleftrightarrow> dx_initialized c'"
proof -
  obtain c1 w1 where sel: "(case dc_backend (dx_config c) of
      DECODE_BACKEND_INTEL_VA \<Rightarrow> init_vaapi e c w | DECODE_BACKEND_NVIDIA \<Rightarrow> init_cuda e c w
    | _ \<Rightarrow> (c, w)) = (c1, w1)" by fastforce
  then have o: "owned w0 c1 w1" "dx_transfer_stats c1 = dx_transfer_stats c" "dx_frame c1 = dx_frame c"
    "\<not> dx_initialized c1"
    using assms(1-3) init_vaapi_owned [OF assms(1,2), of e] init_cuda_owned [OF assms(1,2), of e]
    by (auto split: DecodeBackend.splits)
  have "w' = w1 \<and> dx_transfer_stats c' = dx_transfer_stats c1 \<and> dx_frame c' = dx_frame c1 \<and>
    dx_hw_device_ctx c' = dx_hw_device_ctx c1 \<and>
    dx_uses_shared_cuda_device c' = dx_uses_shared_cuda_device c1 \<and> (rc = 0 \<longleftrightarrow> dx_initialized c')"
    using assms(3,4) o(4) unfolding decoder_init_def sel Let_def prod.case
    by (auto split: if_splits)
  then show "owned w0 c' w'" "dx_transfer_stats c' = dx_transfer_stats c" "dx_frame c' = dx_frame c"
    "rc = 0 \<longleftrightarrow> dx_initialized c'"
    using o owned_cong [of c' c1 w0 w1] by simp_all
qed

lemma restored_trans: "restored w w1 \<Longrightarrow> restored w1 w2 \<Longrightarrow> restored w w2"
  by (auto simp: restored_def dev_moved_def)

lemma restored_owned: "restored w w1 \<Longrightarrow> owned w1 c w2 \<Longrightarrow> owned w c w2"
  by (auto simp: restored_def owned_def dev_moved_def)

lemma restored_fresh: "restored w w1 \<Longrightarrow> fresh_world w \<Longrightarrow> fresh_world w1"
  by (auto simp: restored_def fresh_world_def)

lemma try_backends_cases:
  assumes "try_backends es i bs cfg w = (p, w')" and "fresh_world w"
  shows "p = None \<Longrightarrow> restored w w'"
    and "p = Some c \<Longrightarrow> owned w c w' \<and> dx_initialized c \<and> dx_frame c"
proof -
  have "(p = None \<longrightarrow> restored w w') \<and> (p = Some c \<longrightarrow> owned w c w' \<and> dx_initialized c \<and> dx_frame c)"
    using assms
  proof (induction es i bs cfg w rule: try_backends.induct)
    case (2 es i b bs cfg w)
    obtain q w1 where cr: "decoder_create (es i) (cfg\<lparr>dc_backend := b\<rparr>) w = (q, w1)" by fastforce
    note created = decoder_create_cases [OF cr "2.prems"(2)]
    have again: "restored w v \<Longrightarrow> try_backends es (Suc i) bs cfg v = (p, w') \<Longrightarrow>
        (\<And>x. fresh_world v \<Longrightarrow> (p = None \<longrightarrow> restored v w') \<and>
          (p = Some c \<longrightarrow> owned v c w' \<and> dx_initialized c \<and> dx_frame c)) \<Longrightarrow> ?case" for v
      using restored_trans restored_owned restored_fresh "2.prems"(2) by blast
    show ?case
    proof (cases q)
      case None
      then have run: "try_backends es (Suc i) bs cfg w1 = (p, w')" using "2.prems"(1) cr by simp
      have "restored w w1" using created(1) None by simp
      from again [OF this run] "2.IH"(1) [OF cr [symmetric, unfolded None] refl run] cr None show ?thesis
        by (auto dest: "2.IH"(1) [OF _ _ run])
    next
      case (Some d)
      obtain rc d1 w2 where ini: "decoder_init (es i) None d w1 = (rc, d1, w2)" by (metis prod_cases3)
      have own: "owned w d w1" "no_device d" "\<not> dx_initialized d" "dx_frame d"
        using created(2) Some by (auto simp: no_device_def)
      note o = decoder_init_owned [OF own(1-3) ini]
      show ?thesis
      proof (cases "rc = 0")
        case True
        then show ?thesis using "2.prems"(1) cr Some ini o own(4) by auto
      next
        case False
        then have run: "try_backends es (Suc i) bs cfg (decoder_destroy d1 w2) = (p, w')"
          using "2.prems"(1) cr Some ini by simp
        have "restored w (decoder_destroy d1 w2)" using decoder_destroy_owned [OF o(1) "2.prems"(2)] .
        from again [OF this run] show ?thesis using "2.IH"(2) cr Some ini False run by auto
      qed
    qed
  qed (auto simp: restored_def dev_moved_def)
  then show "p = None \<Longrightarrow> restored w w'" "p = Some c \<Longrightarrow> owned w c w' \<and> dx_initialized c \<and> dx_frame c"
    by auto
qed

section \<open>Slots\<close>

definition slot_addr :: "StreamContext \<Rightarrow> nat set" where
  "slot_addr s = (case st_decoder_ctx s of None \<Rightarrow> {} | Some c \<Rightarrow> {dx_transfer_stats c})"

definition slot_shared :: "StreamContext \<Rightarrow> nat" where
  "slot_shared s = (case st_decoder_ctx s of None \<Rightarrow> 0 | Some c \<Rightarrow> ctx_shared c)"

definition slot_va :: "StreamContext \<Rightarrow> int" where
  "slot_va s = (case st_decoder_ctx s of None \<Rightarrow> 0 | Some c \<Rightarrow> ctx_va c)"

definition slot_avs :: "StreamContext \<Rightarrow> int" where
  "slot_avs s = frame_avs (st_last_frame s) + (case st_decoder_ctx s of None \<Rightarrow> 0 | Some c \<Rightarrow> 1)"

text \<open>
  A slot is initialised exactly when it has a context, which is then open; its last frame
  belongs to that context, and the context's statistics are referenced by the context and, if
  it is in hardware memory, by that frame.
\<close>

definition slot_ok :: "av_world \<Rightarrow> StreamContext \<Rightarrow> bool" where
  "slot_ok w s \<longleftrightarrow> (case st_decoder_ctx s of
     None \<Rightarrow> \<not> st_decoder_initialized s \<and> st_last_frame s = None
   | Some c \<Rightarrow> st_decoder_initialized s \<and> dx_initialized c \<and> dx_frame c \<and>
       (dx_uses_shared_cuda_device c \<longrightarrow> dx_hw_device_ctx c) \<and>
       frame_of (dx_transfer_stats c) (st_last_frame s) \<and>
       int (stats_refs w (dx_transfer_stats c)) = 1 + frame_refs (st_last_frame s))"

lemmas slot_defs = slot_ok_def slot_addr_def slot_shared_def slot_va_def slot_avs_def

text \<open>One slot changes from \<open>s\<close> to \<open>s'\<close> and the world with it; the rest stays.\<close>

definition slot_move :: "StreamContext \<Rightarrow> av_world \<Rightarrow> StreamContext \<Rightarrow> av_world \<Rightarrow> bool" where
  "slot_move s w s' w' \<longleftrightarrow> slot_ok w' s' \<and>
     w_frames w' - w_frames w = frame_count (st_last_frame s') - frame_count (st_last_frame s) \<and>
     w_avframes w' - w_avframes w = slot_avs s' - slot_avs s \<and>
     (\<forall>a. a \<notin> slot_addr s \<union> slot_addr s' \<longrightarrow> w_stats w' a = w_stats w a) \<and>
     (\<forall>a \<in> slot_addr s - slot_addr s'. w_stats w' a = None) \<and>
     (\<forall>a \<in> slot_addr s' - slot_addr s. w_next w \<le> a) \<and>
     (\<forall>a \<in> slot_addr s'. a < w_next w') \<and> w_next w \<le> w_next w' \<and>
     (\<forall>n u. n < 2 ^ 32 - 1 \<longrightarrow> device_ok (n + slot_shared s) (u + slot_va s) w \<longrightarrow>
        device_ok (n + slot_shared s') (u + slot_va s') w')"

text \<open>The addresses a slot uses are allocated.\<close>

definition slot_placed :: "av_world \<Rightarrow> StreamContext \<Rightarrow> bool" where
  "slot_placed w s \<longleftrightarrow> (\<forall>a \<in> slot_addr s. a < w_next w)"

definition same_slot :: "StreamContext \<Rightarrow> StreamContext \<Rightarrow> bool" where
  "same_slot s s' \<longleftrightarrow> st_decoder_ctx s' = st_decoder_ctx s \<and> st_last_frame s' = st_last_frame s \<and>
     st_decoder_initialized s' = st_decoder_initialized s"

lemma slot_move_same:
  assumes "same_slot s s'"
  shows "slot_move s w t w' = slot_move s' w t w'" "slot_move t w s w' = slot_move t w s' w'"
    "slot_ok w s = slot_ok w s'" "slot_placed w s = slot_placed w s'"
proof -
  note eqs = assms [unfolded same_slot_def, THEN conjunct1] assms [unfolded same_slot_def, THEN conjunct2, THEN conjunct1]
    assms [unfolded same_slot_def, THEN conjunct2, THEN conjunct2]
  show "slot_move s w t w' = slot_move s' w t w'" "slot_move t w s w' = slot_move t w s' w'"
    "slot_ok w s = slot_ok w s'" "slot_placed w s = slot_placed w s'"
    by (simp_all only: slot_move_def slot_defs slot_placed_def eqs)
qed

lemma slot_move_frame:
  assumes "slot_ok w s" and "slot_placed w s" and "same_slot s s'"
  shows "slot_move s w s' w"
  using assms(1,2) unfolding slot_move_same(2) [OF assms(3), symmetric]
  by (simp add: slot_move_def slot_placed_def)

lemma same_slot_refl [simp]: "same_slot s s"
  by (simp add: same_slot_def)

lemma same_slot_ops [simp]:
  "same_slot s (stream_set_state now st s)" "same_slot s (stream_set_info info s)"
  "same_slot s (stream_update_stats now n b s)"
  by (simp_all add: same_slot_def stream_set_state_def stream_set_info_def stream_update_stats_def Let_def)

lemma init_decoder_move:
  assumes "stream_init_decoder env es now b s w = (rc, s', w')" and "slot_ok w s" and "slot_placed w s"
    and "fresh_world w"
  shows "slot_move s w s' w'" "rc = 0 \<longleftrightarrow> st_decoder_initialized s'" "rc = 0 \<or> rc = - 1"
proof -
  have "slot_move s w s' w' \<and> (rc = 0 \<longleftrightarrow> st_decoder_initialized s') \<and> (rc = 0 \<or> rc = - 1)"
  proof (cases "st_decoder_initialized s")
    case True
    then show ?thesis using assms slot_move_frame [OF assms(2,3)]
      by (simp add: stream_init_decoder_def)
  next
    case False
    then have none: "st_decoder_ctx s = None" "st_last_frame s = None"
      using assms(2) by (auto simp: slot_ok_def split: option.splits)
    let ?sel = "adjust_backend_for_stream (st_info s) b"
    obtain p w1 where tr: "try_backends es 0 (attempted_backends ?sel)
        (stream_decoder_config env (st_info s) ?sel) w = (p, w1)" by fastforce
    note cs = try_backends_cases [OF tr assms(4)]
    show ?thesis
    proof (cases p)
      case None
      then show ?thesis using assms(1) False tr cs(1) none
        by (simp add: stream_init_decoder_def Let_def slot_move_def slot_defs restored_def dev_moved_def)
    next
      case (Some c)
      then have o: "owned w c w1" "dx_initialized c" "dx_frame c" using cs(2) by auto
      then obtain t where t: "tf_refcount t = 1" "w_stats w1 = (w_stats w)(dx_transfer_stats c \<mapsto> t)"
        by (auto simp: owned_def)
      have r: "stats_refs w1 (dx_transfer_stats c) = 1" using t by (simp add: stats_refs_def)
      have s': "rc = 0" "s' = s\<lparr>st_decoder_ctx := Some c, st_decoder_initialized := True,
          st_decode_stats := zero_decode_stats\<lparr>ds_last_fps_calc_time := now\<rparr>\<rparr>" "w' = w1"
        using assms(1) False tr Some by (simp_all add: stream_init_decoder_def Let_def)
      show ?thesis using o r t(2) none unfolding s'
        by (simp add: slot_move_def slot_defs frame_amounts owned_def dev_moved_def)
    qed
  qed
  then show "slot_move s w s' w'" "rc = 0 \<longleftrightarrow> st_decoder_initialized s'" "rc = 0 \<or> rc = - 1" by auto
qed

lemma free_last_frame:
  assumes "slot_ok w s" and "st_decoder_ctx s = Some c"
  shows "moved (dx_transfer_stats c) (- frame_count (st_last_frame s)) (- frame_avs (st_last_frame s))
    (- frame_refs (st_last_frame s)) w (decoder_free_frame (st_last_frame s) w)"
  using assms by (intro free_frame_moved) (simp_all add: slot_ok_def)

lemma refs_one: "stats_refs w a = 1 \<Longrightarrow> \<exists>t. w_stats w a = Some t \<and> tf_refcount t = 1"
  by (auto simp: stats_refs_def word_unat_eq_iff split: option.splits)

lemma moved_device: "moved a n v k w w' \<Longrightarrow> device_ok m u w' = device_ok m u w"
  by (simp add: moved_def device_ok_def)

lemma close_decoder_move:
  assumes "stream_close_decoder s w = (s', w')" and "slot_ok w s" and "slot_placed w s"
  shows "slot_move s w s' w'" "st_decoder_ctx s' = None" "\<not> st_decoder_initialized s'"
proof -
  have s': "s' = s\<lparr>st_last_frame := None, st_decoder_ctx := None, st_decoder_initialized := False\<rparr>"
    using assms(1) by (simp add: stream_close_decoder_def Let_def)
  then show "st_decoder_ctx s' = None" "\<not> st_decoder_initialized s'" by simp_all
  show "slot_move s w s' w'"
  proof (cases "st_decoder_ctx s")
    case None
    then show ?thesis using assms s'
      by (auto simp: stream_close_decoder_def Let_def slot_move_def slot_defs decoder_free_frame_def)
  next
    case (Some c)
    let ?a = "dx_transfer_stats c" and ?w = "decoder_free_frame (st_last_frame s) w"
    note m = free_last_frame [OF assms(2) Some]
    have "int (stats_refs ?w ?a) = 1" using moved_refs [OF m] assms(2) Some by (simp add: slot_ok_def)
    then obtain t where t: "w_stats ?w ?a = Some t" "tf_refcount t = 1" using refs_one by force
    have sh: "dx_uses_shared_cuda_device c \<longrightarrow> dx_hw_device_ctx c" "dx_frame c"
      using assms(2) Some by (simp_all add: slot_ok_def)
    note d = decoder_destroy_world [OF t sh(1)]
    have w': "w' = decoder_destroy c ?w" using assms(1) Some by (simp add: stream_close_decoder_def Let_def)
    have "device_ok n u w'" if "device_ok (n + ctx_shared c) (u + ctx_va c) w" for n u
      using d(5) [of n u] that moved_device [OF m] w' by simp
    moreover have "w_frames w' = w_frames w - frame_count (st_last_frame s)"
      "w_avframes w' = w_avframes w - frame_avs (st_last_frame s) - 1"
      "w_stats w' = (w_stats ?w)(?a := None)" "w_next w' = w_next w"
      "b \<noteq> ?a \<Longrightarrow> w_stats ?w b = w_stats w b" for b
      using d(1-4) m sh(2) w' by (simp_all add: moved_def)
    ultimately show ?thesis using Some s'
      by (auto simp: slot_move_def slot_defs frame_amounts)
  qed
qed

lemma decode_video_move:
  assumes "stream_decode_video ans now data s w = Some (rc, s', w')" and "slot_ok w s" and "slot_placed w s"
  shows "slot_move s w s' w'" "st_decoder_initialized s' = st_decoder_initialized s"
proof -
  have "slot_move s w s' w' \<and> st_decoder_initialized s' = st_decoder_initialized s"
  proof (cases "st_decoder_initialized s")
    case False
    then show ?thesis using assms slot_move_frame [OF assms(2,3)] by (simp add: stream_decode_video_def)
  next
    case True
    then obtain c where c: "st_decoder_ctx s = Some c" using assms(2)
      by (auto simp: slot_ok_def split: option.splits)
    obtain rc1 f c1 w1 where dec: "decoder_decode ans data c w = Some (rc1, f, c1, w1)"
      using assms(1) True c by (auto simp: stream_decode_video_def split: option.splits)
    let ?a = "dx_transfer_stats c" and ?old = "st_last_frame s"
    have ok: "dx_initialized c" "dx_frame c" "dx_uses_shared_cuda_device c \<longrightarrow> dx_hw_device_ctx c"
      "frame_of ?a ?old" "int (stats_refs w ?a) = 1 + frame_refs ?old"
      using assms(2) c by (simp_all add: slot_ok_def)
    have "frame_refs ?old \<le> 1" "0 \<le> frame_refs ?old" by (simp_all add: frame_refs_def split: option.split)
    then have "refs_room w ?a" using ok(5) by (simp add: refs_room_def)
    note d = decoder_decode_moved [OF dec this]
    have c1: "dx_transfer_stats c1 = ?a" "dx_initialized c1" "dx_frame c1"
      "dx_uses_shared_cuda_device c1 = dx_uses_shared_cuda_device c" "dx_hw_device_ctx c1 = dx_hw_device_ctx c"
      using arg_cong [OF d(5), of dx_transfer_stats] arg_cong [OF d(5), of dx_initialized]
        arg_cong [OF d(5), of dx_frame] arg_cong [OF d(5), of dx_uses_shared_cuda_device]
        arg_cong [OF d(5), of dx_hw_device_ctx] ok by (simp_all add: ctx_core_stats)
    define w2 where "w2 = (if rc1 = 0 then decoder_free_frame ?old w1 else w1)"
    define last where "last = (if rc1 = 0 then f else ?old)"
    have s': "st_decoder_ctx s' = Some c1" "st_last_frame s' = last" "st_decoder_initialized s'" "w' = w2"
      using assms(1) True c dec d(1,2) by (auto simp: stream_decode_video_def Let_def w2_def last_def)
    have m: "moved ?a (frame_count last - frame_count ?old) (frame_avs last - frame_avs ?old)
        (frame_refs last - frame_refs ?old) w w2 \<and> frame_of ?a last"
    proof (cases "rc1 = 0")
      case True
      have "frame_refs ?old \<le> int (stats_refs w1 ?a)"
        using moved_refs [OF d(3)] ok(5) by (simp add: frame_refs_def split: option.split)
      from moved_trans [OF d(3) free_frame_moved [OF ok(4) this]] show ?thesis
        using True d(4) by (simp add: w2_def last_def)
    next
      case False
      then show ?thesis using d(1,3) ok(4) by (simp add: w2_def last_def frame_amounts)
    qed
    then have "int (stats_refs w2 ?a) = 1 + frame_refs last" using ok(5) by (auto dest: moved_refs)
    moreover have "ctx_shared c1 = ctx_shared c" "ctx_va c1 = ctx_va c"
      using c1 by (simp_all add: ctx_shared_def ctx_va_def)
    ultimately show ?thesis using m c s' c1 ok(3) assms(3) True moved_device [OF conjunct1 [OF m]]
      by (auto simp: slot_move_def slot_defs slot_placed_def moved_def)
  qed
  then show "slot_move s w s' w'" "st_decoder_initialized s' = st_decoder_initialized s" by auto
qed

section \<open>The manager\<close>

text \<open>
  Every slot is in order, no two share their statistics, and the tallies are the sums over
  all slots: nothing is owned by anyone else.
\<close>

definition mgr_ok :: "StreamManager \<Rightarrow> av_world \<Rightarrow> bool" where
  "mgr_ok mgr w \<longleftrightarrow> unat (sm_max_streams mgr) \<le> MAX_STREAMS \<and>
     (\<forall>i < MAX_STREAMS. unat (sm_max_streams mgr) \<le> i \<longrightarrow> st_decoder_ctx (sm_streams mgr i) = None) \<and>
     (\<forall>i < MAX_STREAMS. slot_ok w (sm_streams mgr i) \<and> slot_placed w (sm_streams mgr i)) \<and>
     (\<forall>i < MAX_STREAMS. \<forall>j < MAX_STREAMS. i \<noteq> j \<longrightarrow> slot_addr (sm_streams mgr i) \<inter> slot_addr (sm_streams mgr j) = {}) \<and>
     (\<forall>a. w_stats w a \<noteq> None \<longrightarrow> (\<exists>i < MAX_STREAMS. a \<in> slot_addr (sm_streams mgr i))) \<and>
     w_frames w = (\<Sum>i < MAX_STREAMS. frame_count (st_last_frame (sm_streams mgr i))) \<and>
     w_avframes w = (\<Sum>i < MAX_STREAMS. slot_avs (sm_streams mgr i)) \<and>
     device_ok (\<Sum>i < MAX_STREAMS. slot_shared (sm_streams mgr i)) (\<Sum>i < MAX_STREAMS. slot_va (sm_streams mgr i)) w"

lemma mgr_ok_fresh: "mgr_ok mgr w \<Longrightarrow> fresh_world w"
  unfolding mgr_ok_def fresh_world_def slot_placed_def by (meson not_le)

lemma sum_slot:
  fixes f :: "StreamContext \<Rightarrow> 'a::comm_monoid_add"
  assumes "i < MAX_STREAMS"
  shows "(\<Sum>j < MAX_STREAMS. f ((g(i := s)) j)) = f s + (\<Sum>j \<in> {..<MAX_STREAMS} - {i}. f (g j))"
    and "(\<Sum>j < MAX_STREAMS. f (g j)) = f (g i) + (\<Sum>j \<in> {..<MAX_STREAMS} - {i}. f (g j))"
  using assms by (subst sum.remove [of _ i]; simp)+

lemma slot_shared_le: "slot_shared s \<le> 1"
  by (simp add: slot_shared_def ctx_shared_def split: option.split)

lemma other_shared: "(\<Sum>j \<in> {..<MAX_STREAMS} - {i}. slot_shared (g j)) < 2 ^ 32 - 1"
proof -
  have "(\<Sum>j \<in> {..<MAX_STREAMS} - {i}. slot_shared (g j)) \<le> (\<Sum>j \<in> {..<MAX_STREAMS} - {i}. 1)"
    by (intro sum_mono slot_shared_le)
  also have "\<dots> \<le> MAX_STREAMS" by (simp add: card_Diff_subset_Int)
  finally show ?thesis by (simp add: MAX_STREAMS_def)
qed

lemma slot_ok_elsewhere:
  assumes "slot_ok w s" and "\<And>a. a \<in> slot_addr s \<Longrightarrow> w_stats w' a = w_stats w a"
  shows "slot_ok w' s"
  using assms by (auto simp: slot_ok_def slot_addr_def stats_refs_def split: option.splits)

lemma mgr_ok_put:
  assumes "mgr_ok mgr w" and lim: "i < unat (sm_max_streams mgr)" and "slot_move (sm_streams mgr i) w s' w'"
  shows "mgr_ok (put_stream i s' mgr) w'"
proof -
  have i: "i < MAX_STREAMS" using assms(1) lim by (simp add: mgr_ok_def)
  let ?g = "sm_streams mgr" and ?s = "sm_streams mgr i"
  have s'_ok: "slot_ok w' s'"
    and delta: "w_frames w' = w_frames w + frame_count (st_last_frame s') - frame_count (st_last_frame ?s)"
      "w_avframes w' = w_avframes w + slot_avs s' - slot_avs ?s"
    and same: "\<And>a. a \<notin> slot_addr ?s \<union> slot_addr s' \<Longrightarrow> w_stats w' a = w_stats w a"
    and gone: "\<And>a. a \<in> slot_addr ?s - slot_addr s' \<Longrightarrow> w_stats w' a = None"
    and new: "\<And>a. a \<in> slot_addr s' - slot_addr ?s \<Longrightarrow> w_next w \<le> a"
    and placed: "slot_placed w' s'" and nxt: "w_next w \<le> w_next w'"
    and dv: "\<And>n u. n < 2 ^ 32 - 1 \<Longrightarrow> device_ok (n + slot_shared ?s) (u + slot_va ?s) w \<Longrightarrow>
        device_ok (n + slot_shared s') (u + slot_va s') w'"
    using assms(3) by (auto simp: slot_move_def slot_placed_def)
  have old: "slot_ok w (?g j)" "slot_placed w (?g j)" if "j < MAX_STREAMS" for j
    using assms(1) that by (auto simp: mgr_ok_def)
  have disj: "slot_addr (?g j) \<inter> slot_addr (?g k) = {}" if "j < MAX_STREAMS" "k < MAX_STREAMS" "j \<noteq> k" for j k
    using assms(1) that by (auto simp: mgr_ok_def)
  have away: "slot_addr (?g j) \<inter> (slot_addr ?s \<union> slot_addr s') = {}" if "j < MAX_STREAMS" "j \<noteq> i" for j
  proof (rule ccontr)
    note d = disj [OF that(1) i that(2)] and o = old(2) [OF that(1)]
    assume "slot_addr (?g j) \<inter> (slot_addr ?s \<union> slot_addr s') \<noteq> {}"
    then obtain a where a: "a \<in> slot_addr (?g j)" "a \<in> slot_addr s' - slot_addr ?s"
      using d by blast
    then have "a < w_next w" using o by (simp add: slot_placed_def)
    then show False using new [OF a(2)] by simp
  qed
  have ok: "slot_ok w' ((?g(i := s')) j) \<and> slot_placed w' ((?g(i := s')) j)" if j: "j < MAX_STREAMS" for j
  proof (cases "j = i")
    case True
    then show ?thesis using s'_ok placed by simp
  next
    case False
    have "slot_ok w' (?g j)"
      by (rule slot_ok_elsewhere [OF old(1) [OF j]], rule same) (use away [OF j False] in auto)
    then show ?thesis using old(2) [OF j] nxt False by (auto simp: slot_placed_def intro: less_le_trans)
  qed
  have disj': "slot_addr ((?g(i := s')) j) \<inter> slot_addr ((?g(i := s')) k) = {}"
    if "j < MAX_STREAMS" "k < MAX_STREAMS" "j \<noteq> k" for j k
    using disj [OF that] away that by (auto simp: fun_upd_def)
  have dom: "\<exists>j < MAX_STREAMS. a \<in> slot_addr ((?g(i := s')) j)" if a: "w_stats w' a \<noteq> None" for a
  proof (cases "a \<in> slot_addr ?s \<union> slot_addr s'")
    case True
    then have "a \<in> slot_addr s'" using gone [of a] a by blast
    then show ?thesis using i by (intro exI [of _ i]) simp
  next
    case False
    then have "w_stats w a \<noteq> None" using same a by auto
    then obtain j where "j < MAX_STREAMS" "a \<in> slot_addr (?g j)" using assms(1) by (auto simp: mgr_ok_def)
    then show ?thesis using False by (intro exI [of _ j]) auto
  qed
  have frames: "w_frames w' = (\<Sum>j < MAX_STREAMS. frame_count (st_last_frame ((?g(i := s')) j)))"
    using assms(1) delta sum_slot [OF i, of "\<lambda>s. frame_count (st_last_frame s)" ?g]
    by (simp add: mgr_ok_def)
  have avs: "w_avframes w' = (\<Sum>j < MAX_STREAMS. slot_avs ((?g(i := s')) j))"
    using assms(1) delta sum_slot [OF i, of slot_avs ?g] by (simp add: mgr_ok_def)
  let ?n = "\<Sum>j \<in> {..<MAX_STREAMS} - {i}. slot_shared (?g j)"
  let ?u = "\<Sum>j \<in> {..<MAX_STREAMS} - {i}. slot_va (?g j)"
  have "device_ok (?n + slot_shared ?s) (?u + slot_va ?s) w"
    using assms(1) sum_slot(2) [OF i, of slot_shared ?g] sum_slot(2) [OF i, of slot_va ?g]
    by (simp add: mgr_ok_def add.commute)
  then have "device_ok (?n + slot_shared s') (?u + slot_va s') w'" by (rule dv [OF other_shared])
  then have dev: "device_ok (\<Sum>j < MAX_STREAMS. slot_shared ((?g(i := s')) j))
      (\<Sum>j < MAX_STREAMS. slot_va ((?g(i := s')) j)) w'"
    using sum_slot(1) [OF i, of slot_shared ?g] sum_slot(1) [OF i, of slot_va ?g]
    by (simp add: add.commute)
  have "unat (sm_max_streams mgr) \<le> MAX_STREAMS"
    "\<forall>j < MAX_STREAMS. unat (sm_max_streams mgr) \<le> j \<longrightarrow> st_decoder_ctx ((?g(i := s')) j) = None"
    using assms(1) lim by (simp_all add: mgr_ok_def)
  then show ?thesis unfolding mgr_ok_def put_stream_def
    using ok disj' dom frames avs dev by simp
qed

lemma mgr_ok_slot:
  assumes "mgr_ok mgr w" and "i < unat (sm_max_streams mgr)"
  shows "slot_ok w (sm_streams mgr i)" "slot_placed w (sm_streams mgr i)" "fresh_world w"
  using assms mgr_ok_fresh by (auto simp: mgr_ok_def)

text \<open>The manager's lock and its stress test hold nothing.\<close>

lemma mgr_ok_simps [simp]:
  "mgr_ok (set_stress f mgr) w = mgr_ok mgr w" "mgr_ok (mgr_unlock mgr) w = mgr_ok mgr w"
  "mgr_ok (mgr\<lparr>sm_locked := b\<rparr>) w = mgr_ok mgr w"
  by (simp_all add: mgr_ok_def set_stress_def mgr_unlock_def)

lemma set_stress_simps [simp]:
  "sm_streams (set_stress f mgr) = sm_streams mgr" "sm_max_streams (set_stress f mgr) = sm_max_streams mgr"
  "sm_locked (set_stress f mgr) = sm_locked mgr" "sm_stress_test (set_stress f mgr) = f (sm_stress_test mgr)"
  "sm_streams (mgr_unlock mgr) = sm_streams mgr" "sm_max_streams (mgr_unlock mgr) = sm_max_streams mgr"
  "sm_locked (mgr_unlock mgr) = False" "sm_stress_test (mgr_unlock mgr) = sm_stress_test mgr"
  "sm_max_streams (put_stream i s mgr) = sm_max_streams mgr"
  "sm_stress_test (put_stream i s mgr) = sm_stress_test mgr"
  "sm_locked (put_stream i s mgr) = sm_locked mgr"
  by (simp_all add: set_stress_def mgr_unlock_def put_stream_def)

lemma mgr_lock_simps:
  assumes "mgr_lock mgr = Some m"
  shows "mgr_ok m w = mgr_ok mgr w" "sm_streams m = sm_streams mgr" "sm_max_streams m = sm_max_streams mgr"
    "sm_stress_test m = sm_stress_test mgr" "sm_locked m" "\<not> sm_locked mgr"
  using assms by (auto simp: mgr_lock_def split: if_splits)

lemma stream_manager_get_lt:
  "stream_manager_get mgr v = Some i \<Longrightarrow> i < unat (sm_max_streams mgr)"
  by (auto simp: stream_manager_get_def word_le_nat_alt word_less_nat_alt split: if_splits)

lemma stream_manager_init_ok:
  assumes "stream_manager_init n = Some mgr"
  shows "mgr_ok mgr av_world_init" "\<not> sm_locked mgr"
proof -
  have "st_decoder_ctx (sm_streams mgr i) = None" "st_last_frame (sm_streams mgr i) = None"
    "\<not> st_decoder_initialized (sm_streams mgr i)" for i
    using assms by (auto simp: stream_manager_init_def zero_stream_ctx_def split: if_splits)
  then have "frame_count (st_last_frame (sm_streams mgr i)) = 0" "slot_avs (sm_streams mgr i) = 0"
    "slot_shared (sm_streams mgr i) = 0" "slot_va (sm_streams mgr i) = 0"
    "slot_addr (sm_streams mgr i) = {}" "slot_ok av_world_init (sm_streams mgr i)"
    "st_decoder_ctx (sm_streams mgr i) = None" for i
    by (simp_all add: slot_defs frame_amounts)
  moreover have "unat (sm_max_streams mgr) \<le> MAX_STREAMS" "\<not> sm_locked mgr"
    using assms by (auto simp: stream_manager_init_def split: if_splits)
  ultimately show "mgr_ok mgr av_world_init" "\<not> sm_locked mgr"
    by (simp_all add: mgr_ok_def slot_placed_def av_world_init_def device_ok_def)
qed

lemma idle_virtual_ok:
  "idle_virtual now vs mgr w = (mgr', w') \<Longrightarrow> mgr_ok mgr w \<Longrightarrow>
   mgr_ok mgr' w' \<and> sm_max_streams mgr' = sm_max_streams mgr \<and> sm_locked mgr' = sm_locked mgr"
proof (induction now vs mgr w rule: idle_virtual.induct)
  case (2 now v vs mgr w)
  show ?case
  proof (cases "stream_manager_get mgr (of_nat v)")
    case (Some i)
    obtain s w1 where cl: "stream_close_decoder (sm_streams mgr i) w = (s, w1)" by fastforce
    let ?s = "stream_set_state now STREAM_STATE_IDLE s"
    note lt = stream_manager_get_lt [OF Some]
    have mv: "slot_move (sm_streams mgr i) w s w1"
      using close_decoder_move [OF cl] mgr_ok_slot [OF "2.prems"(2) lt] by blast
    have "slot_move (sm_streams mgr i) w ?s w1"
      using mv slot_move_same(2) [OF same_slot_ops(1)] by blast
    then have "mgr_ok (put_stream i ?s mgr) w1" using mgr_ok_put [OF "2.prems"(2) lt] by blast
    then show ?thesis using 2 Some cl by auto
  qed (use 2 in auto)
qed simp

lemma stop_stress_ok:
  assumes "stream_manager_stop_stress_test now mgr w = Some (mgr', w')" and "mgr_ok mgr w"
  shows "mgr_ok mgr' w'" "\<not> sm_locked mgr'" "sm_max_streams mgr' = sm_max_streams mgr"
proof -
  obtain m where m: "mgr_lock mgr = Some m"
    using assms(1) by (auto simp: stream_manager_stop_stress_test_def split: option.splits)
  note l = mgr_lock_simps [OF m]
  have "mgr_ok mgr' w' \<and> \<not> sm_locked mgr' \<and> sm_max_streams mgr' = sm_max_streams mgr"
  proof (cases "ss_enabled (sm_stress_test m)")
    case False
    then show ?thesis using assms m l by (auto simp: stream_manager_stop_stress_test_def)
  next
    case True
    let ?m2 = "set_stress (\<lambda>c. c\<lparr>ss_queues := []\<rparr>)
        ((mgr_unlock (set_stress (\<lambda>c. c\<lparr>ss_end_time := now, ss_enabled := False, ss_threads_running := False\<rparr>) m))
          \<lparr>sm_locked := True\<rparr>)"
    let ?ids = "take (ss_num_virtual_streams (sm_stress_test m)) (ss_virtual_stream_ids (sm_stress_test m))"
    obtain m3 w3 where iv: "idle_virtual now ?ids ?m2 w = (m3, w3)" by fastforce
    have "mgr_lock (mgr_unlock (set_stress f m)) = Some ((mgr_unlock (set_stress f m))\<lparr>sm_locked := True\<rparr>)" for f
      by (simp add: mgr_lock_def)
    then have "mgr' = mgr_unlock (set_stress (\<lambda>c. c\<lparr>ss_virtual_stream_ids := []\<rparr>) m3)" "w' = w3"
      using assms(1) m True iv by (simp_all add: stream_manager_stop_stress_test_def Let_def)
    moreover have "mgr_ok ?m2 w" using assms(2) l(1) by simp
    moreover have "sm_max_streams ?m2 = sm_max_streams mgr" using l(3) by simp
    ultimately show ?thesis using idle_virtual_ok [OF iv] by simp
  qed
  then show "mgr_ok mgr' w'" "\<not> sm_locked mgr'" "sm_max_streams mgr' = sm_max_streams mgr" by auto
qed

end
