(* ===== verification/StreamRoute.thy ===== *)
theory StreamRoute
  imports Stream
begin

text \<open>
  The routing of a stream to a decoder backend: where the automatic choice leads, and what is
  left of the documented order Intel, NVIDIA, CPU when the Intel device is missing.
\<close>

text \<open>The last rule is for any stream, so the automatic choice is always Intel.\<close>

lemma adjust_auto: "adjust_backend_for_stream info DECODE_BACKEND_AUTO = DECODE_BACKEND_INTEL_VA"
  by (simp add: adjust_backend_for_stream_def k_decode_route_rules_def route_rule_matches_def)

lemma adjust_chosen: "b \<noteq> DECODE_BACKEND_AUTO \<Longrightarrow> adjust_backend_for_stream info b = b"
  by (simp add: adjust_backend_for_stream_def)

text \<open>A context just created has the backend that was asked for, and is not initialised.\<close>

lemma created_backend:
  assumes "decoder_create e config w = (Some ctx, w1)" and "dc_backend config \<noteq> DECODE_BACKEND_AUTO"
  shows "dc_backend (dx_config ctx) = dc_backend config" "\<not> dx_initialized ctx"
  using assms by (auto simp: decoder_create_def fresh_ctx_def Let_def split: if_splits)

lemma init_vaapi_missing:
  assumes "\<not> list_ex (av_va_create e) va_devices" and "\<not> dx_initialized ctx"
    and "dc_backend (dx_config ctx) = DECODE_BACKEND_INTEL_VA" and "\<forall>cc. 0 \<le> av_open2 e cc"
  shows "\<exists>ctx1. decoder_init e extra ctx w = (0, ctx1, w) \<and> dx_initialized ctx1 \<and>
    dc_backend (dx_config ctx1) = DECODE_BACKEND_CPU \<and> dx_hw_device_ctx ctx1 = dx_hw_device_ctx ctx"
  using assms by (simp add: decoder_init_def init_vaapi_def to_cpu_def set_codec_def Let_def not_less)

text \<open>without an Intel device the automatic choice ends on the CPU: the first attempt itself
  falls back and reports success, so the NVIDIA attempt that the routing lists next is never
  made, whatever the CUDA driver would have answered, and no device reference is taken.\<close>

theorem auto_falls_back_to_cpu:
  assumes "\<not> st_decoder_initialized s"
    and "decoder_create (es 0) (stream_decoder_config env (st_info s) DECODE_BACKEND_INTEL_VA) w = (Some ctx, w1)"
    and "\<not> list_ex (av_va_create (es 0)) va_devices" and "\<forall>cc. 0 \<le> av_open2 (es 0) cc"
  shows "\<exists>s' ctx'. stream_init_decoder env es now DECODE_BACKEND_AUTO s w = (0, s', w1) \<and>
    st_decoder_initialized s' \<and> st_decoder_ctx s' = Some ctx' \<and>
    dc_backend (dx_config ctx') = DECODE_BACKEND_CPU"
proof -
  let ?config = "stream_decoder_config env (st_info s) DECODE_BACKEND_INTEL_VA"
  have cfg: "?config\<lparr>dc_backend := DECODE_BACKEND_INTEL_VA\<rparr> = ?config" "dc_backend ?config = DECODE_BACKEND_INTEL_VA"
    by (simp_all add: stream_decoder_config_def)
  note c = created_backend [OF assms(2), unfolded cfg(2), simplified]
  obtain ctx1 where i: "decoder_init (es 0) None ctx w1 = (0, ctx1, w1)" "dx_initialized ctx1"
    "dc_backend (dx_config ctx1) = DECODE_BACKEND_CPU"
    using init_vaapi_missing [OF assms(3) c(2,1) assms(4), of None w1] by blast
  have "try_backends es 0 (attempted_backends DECODE_BACKEND_INTEL_VA) ?config w = (Some ctx1, w1)"
    by (simp add: attempted_backends_def cfg assms(2) i)
  then show ?thesis using assms(1) i(3) by (simp add: stream_init_decoder_def adjust_auto)
qed

section \<open>A machine\<close>

text \<open>Everything works; the Intel devices exist or not.\<close>

definition ex_av :: "bool \<Rightarrow> av_env" where
  "ex_av va = \<lparr>av_va_create = (\<lambda>_. va), av_cuda_create = (\<lambda>_. 0), av_buffer_ref = True,
     av_codec_ref = True, av_find_decoder = (\<lambda>_. True), av_calloc_ctx = True, av_calloc_stats = True,
     av_alloc_context = True, av_frame_alloc = True, av_packet_alloc = True, av_parser_init = (\<lambda>_. True),
     av_mallocz = True, av_open2 = (\<lambda>_. 0)\<rparr>"

lemma ex_av_create:
  assumes "dc_backend config \<noteq> DECODE_BACKEND_AUTO"
  shows "decoder_create (ex_av va) config w =
    (Some ((fresh_ctx config (w_next w))\<lparr>dx_codec := True, dx_codec_ctx := Some zero_codec_ctx,
        dx_frame := True, dx_packet := True, dx_parser := True\<rparr>),
     w\<lparr>w_stats := (w_stats w)(w_next w \<mapsto> \<lparr>tf_refcount = 1, tf_hw_transfer_count = 0\<rparr>),
       w_next := w_next w + 1, w_avframes := w_avframes w + 1\<rparr>)"
  using assms by (simp add: decoder_create_def ex_av_def Let_def fresh_ctx_def)

theorem auto_falls_back_to_cpu_witness:
  "\<exists>s' ctx'. stream_init_decoder (\<lambda>_. None) (\<lambda>_. ex_av False) 0 DECODE_BACKEND_AUTO zero_stream_ctx av_world_init =
      (0, s', snd (decoder_create (ex_av False)
        (stream_decoder_config (\<lambda>_. None) zero_info DECODE_BACKEND_INTEL_VA) av_world_init)) \<and>
    st_decoder_ctx s' = Some ctx' \<and> dc_backend (dx_config ctx') = DECODE_BACKEND_CPU"
proof -
  let ?config = "stream_decoder_config (\<lambda>_. None) (st_info zero_stream_ctx) DECODE_BACKEND_INTEL_VA"
  have "dc_backend ?config \<noteq> DECODE_BACKEND_AUTO" by (simp add: stream_decoder_config_def)
  note c = ex_av_create [OF this, of False av_world_init]
  have "\<not> st_decoder_initialized zero_stream_ctx" by (simp add: zero_stream_ctx_def)
  moreover have "\<not> list_ex (av_va_create (ex_av False)) va_devices" "\<forall>cc. 0 \<le> av_open2 (ex_av False) cc"
    by (simp_all add: ex_av_def va_devices_def)
  ultimately show ?thesis
    using auto_falls_back_to_cpu [of zero_stream_ctx "\<lambda>_. ex_av False" "\<lambda>_. None", OF _ c, of 0] c
    by (auto simp: zero_stream_ctx_def)
qed

end
