(* ===== verification/Receiver.thy ===== *)
theory Receiver
  imports StreamRes StreamRoute Wire
begin

text \<open>
  The stand-alone receiver (\<open>stream_server/stream_receiver_decode.c\<close>): it takes one connection,
  reads the TLV frames with \<open>MSG_WAITALL\<close>, keeps the units in a file if one was asked for, and
  decodes them with the decoder of \<open>stream_server\<close>. Printed statistics are left out, and so is
  \<open>stream_started\<close>, which nothing reads.
\<close>

section \<open>Reads with MSG_WAITALL\<close>

text \<open>
  A read that has got something returns it when a signal, an error or the end of the stream cuts
  it short. The handler is installed by \<open>signal\<close>, which restarts calls: a signal that meets a
  read with nothing in hand leaves it waiting.
\<close>

primrec waitall_loop ::
  "recv_event list \<Rightarrow> u8 list \<Rightarrow> nat \<Rightarrow> u8 list \<Rightarrow> (int \<times> u8 list \<times> u8 list \<times> recv_event list) option"
where
  "waitall_loop [] pend n got = (if length got < n then None else Some (int (length got), got, pend, []))"
| "waitall_loop (ev # evs) pend n got =
     (if length got < n then
        (case ev of
           Deliver k \<Rightarrow>
             let r = min (Suc k) (min (n - length got) (length pend)) in
             if r > 0 then waitall_loop evs (drop r pend) n (got @ take r pend)
             else Some (int (length got), got, pend, evs)
         | RecvEINTR \<Rightarrow> if got = [] then waitall_loop evs pend n got
                        else Some (int (length got), got, pend, evs)
         | _ \<Rightarrow> Some (if got = [] then - 1 else int (length got), got, pend, evs))
      else Some (int (length got), got, pend, ev # evs))"

definition recv_waitall :: "nat \<Rightarrow> conn \<Rightarrow> (int \<times> u8 list \<times> conn) option" where
  "recv_waitall n c =
     map_option (\<lambda>(r, got, pend, evs). (r, got, \<lparr>c_pending = pend, c_schedule = evs\<rparr>))
       (waitall_loop (c_schedule c) (c_pending c) n [])"

section \<open>The receiver\<close>

record StreamReceiver =
  sr_sock_fd :: int
  sr_dump_file :: "u8 list option"
  sr_decoder :: DecoderCtx
  sr_width :: int
  sr_height :: int
  sr_frame_count :: int
  sr_start_time :: int
  sr_buffer_size :: nat

text \<open>
  What the program owns beside the decoder: open descriptors, open dump files and heap blocks.
  A dump file is its content; the receiver's decoder and buffer are there as long as it is.
\<close>

record recv_world =
  vw_av :: av_world
  vw_fds :: "int list"
  vw_files :: int
  vw_blocks :: int

record create_env =
  ce_calloc :: bool
  ce_malloc :: bool
  ce_fopen :: "string \<Rightarrow> bool"
  ce_create :: av_env
  ce_init :: av_env

definition receiver_config :: "int \<Rightarrow> int \<Rightarrow> DecoderConfig" where
  "receiver_config width height = \<lparr>dc_backend = DECODE_BACKEND_NVIDIA, dc_codec_id = AV_CODEC_ID_NONE,
     dc_width = width, dc_height = height, dc_output_format = DECODE_FMT_NV12, dc_thread_count = 1,
     dc_va_device = [], dc_cuda_device_id = 0, dc_defer_hw_download = False, dc_extra_hw_frames = 0\<rparr>"

text \<open>The file, the buffer and the receiver are given back together.\<close>

definition release_receiver :: "bool \<Rightarrow> recv_world \<Rightarrow> recv_world" where
  "release_receiver has_dump w =
     w\<lparr>vw_files := vw_files w - (if has_dump then 1 else 0), vw_blocks := vw_blocks w - 2\<rparr>"

text \<open>
  A path of \<open>receiver_create\<close> that fails gives back what it allocated before it returns; the
  model has the net effect of such a path.
\<close>

definition receiver_create ::
  "create_env \<Rightarrow> int \<Rightarrow> int \<Rightarrow> string option \<Rightarrow> recv_world \<Rightarrow> StreamReceiver option \<times> recv_world" where
  "receiver_create e width height dump_filename w =
     (if \<not> ce_calloc e then (None, w)
      else if \<not> ce_malloc e then (None, w)
      else if (case dump_filename of None \<Rightarrow> False | Some f \<Rightarrow> \<not> ce_fopen e f) then (None, w)
      else
        let has_dump = dump_filename \<noteq> None;
            w1 = w\<lparr>vw_files := vw_files w + (if has_dump then 1 else 0), vw_blocks := vw_blocks w + 2\<rparr>
        in case decoder_create (ce_create e) (receiver_config width height) (vw_av w1) of
             (None, av) \<Rightarrow> (None, release_receiver has_dump (w1\<lparr>vw_av := av\<rparr>))
           | (Some d, av) \<Rightarrow> (case decoder_init (ce_init e) None d av of (rc, d1, av1) \<Rightarrow>
               if rc < 0 then (None, release_receiver has_dump (w1\<lparr>vw_av := decoder_destroy d1 av1\<rparr>))
               else (Some \<lparr>sr_sock_fd = 0, sr_dump_file = (if has_dump then Some [] else None), sr_decoder = d1,
                       sr_width = width, sr_height = height, sr_frame_count = 0, sr_start_time = 0,
                       sr_buffer_size = 2 * 1024 * 1024\<rparr>, w1\<lparr>vw_av := av1\<rparr>)))"

definition close_fd :: "int \<Rightarrow> recv_world \<Rightarrow> recv_world" where
  "close_fd fd w = w\<lparr>vw_fds := remove1 fd (vw_fds w)\<rparr>"

definition receiver_destroy :: "StreamReceiver \<Rightarrow> recv_world \<Rightarrow> recv_world" where
  "receiver_destroy rcv w =
     (let w1 = w\<lparr>vw_av := decoder_destroy (sr_decoder rcv) (vw_av w)\<rparr>;
          w2 = (if sr_sock_fd rcv > 0 then close_fd (sr_sock_fd rcv) w1 else w1)
      in release_receiver (sr_dump_file rcv \<noteq> None) w2)"

section \<open>Packets\<close>

text \<open>
  One turn of the receive loop: the flag and the clock as its condition reads them, how much of
  the unit \<open>fwrite\<close> stores, and FFmpeg's answers.
\<close>

record recv_turn =
  tn_running :: bool
  tn_now :: int
  tn_written :: nat
  tn_parse :: "parse_ans list"

definition receive_video ::
  "recv_turn \<Rightarrow> u8 list \<Rightarrow> StreamReceiver \<Rightarrow> av_world \<Rightarrow> (StreamReceiver \<times> av_world) option" where
  "receive_video t payload rcv w =
     (let r1 = rcv\<lparr>sr_dump_file := map_option (\<lambda>f. f @ take (tn_written t) payload) (sr_dump_file rcv)\<rparr>
      in case decoder_decode (tn_parse t) payload (sr_decoder r1) w of
           None \<Rightarrow> None
         | Some (ret, decoded, d, w1) \<Rightarrow>
             let r2 = r1\<lparr>sr_decoder := d\<rparr>
             in if ret = 0 \<and> decoded \<noteq> None
                then Some (r2\<lparr>sr_frame_count := sr_frame_count r2 + 1\<rparr>, decoder_free_frame decoded w1)
                else Some (r2, w1))"

text \<open>Whether the loop goes on, what is left of the connection, and the receiver.\<close>

definition receive_packet ::
  "recv_turn \<Rightarrow> conn \<Rightarrow> StreamReceiver \<Rightarrow> av_world \<Rightarrow> (bool \<times> conn \<times> StreamReceiver \<times> av_world) option" where
  "receive_packet t c rcv w =
     (case recv_waitall TCP_HEADER_SIZE c of
        None \<Rightarrow> None
      | Some (n, hdr_buf, c1) \<Rightarrow>
          if n \<noteq> int TCP_HEADER_SIZE then Some (False, c1, rcv, w)
          else (case protocol_parse_header (Some hdr_buf) of
             None \<Rightarrow> Some (False, c1, rcv, w)
           | Some pkt_hdr \<Rightarrow>
               let payload_len = unat (ph_length pkt_hdr - of_nat TCP_HEADER_SIZE)
               in if payload_len > sr_buffer_size rcv then Some (False, c1, rcv, w)
                  else (case (if payload_len > 0 then recv_waitall payload_len c1 else Some (0, [], c1)) of
                     None \<Rightarrow> None
                   | Some (m, payload, c2) \<Rightarrow>
                       if payload_len > 0 \<and> m \<noteq> int payload_len then Some (False, c2, rcv, w)
                       else if ph_type pkt_hdr = TCP_MSG_TYPE_STREAM_START then Some (True, c2, rcv, w)
                       else if ph_type pkt_hdr = TCP_MSG_TYPE_STREAM_STOP then Some (False, c2, rcv, w)
                       else if ph_type pkt_hdr = TCP_MSG_TYPE_HEARTBEAT then Some (True, c2, rcv, w)
                       else if ph_type pkt_hdr \<noteq> TCP_MSG_TYPE_VIDEO_DATA \<or> payload_len = 0 then
                         Some (True, c2, rcv, w)
                       else map_option (Pair True \<circ> Pair c2) (receive_video t payload rcv w))))"

definition turn_due :: "int \<Rightarrow> int \<Rightarrow> recv_turn \<Rightarrow> bool" where
  "turn_due duration end_time t \<longleftrightarrow> tn_running t \<and> (duration = 0 \<or> tn_now t < end_time)"

fun receive_loop_packets ::
  "int \<Rightarrow> int \<Rightarrow> recv_turn list \<Rightarrow> conn \<Rightarrow> StreamReceiver \<Rightarrow> av_world \<Rightarrow> (StreamReceiver \<times> av_world) option" where
  "receive_loop_packets duration end_time [] c rcv w = None"
| "receive_loop_packets duration end_time (t # ts) c rcv w =
     (if \<not> turn_due duration end_time t then Some (rcv, w)
      else (case receive_packet t c rcv w of
          None \<Rightarrow> None
        | Some (go, c1, r1, w1) \<Rightarrow>
            if go then receive_loop_packets duration end_time ts c1 r1 w1 else Some (r1, w1)))"

section \<open>The run and the main program\<close>

record run_env =
  re_socket :: int
  re_bind :: "u16 \<Rightarrow> bool"
  re_listen :: bool
  re_accept :: int
  re_start :: int
  re_conn :: conn
  re_turns :: "recv_turn list"

definition receiver_end_time :: "int \<Rightarrow> int \<Rightarrow> int" where
  "receiver_end_time start duration = (if duration > 0 then start + duration else 0)"

definition receiver_run ::
  "run_env \<Rightarrow> StreamReceiver \<Rightarrow> int \<Rightarrow> int \<Rightarrow> recv_world \<Rightarrow> (int \<times> StreamReceiver \<times> recv_world) option" where
  "receiver_run e rcv listen_port duration w =
     (let r1 = rcv\<lparr>sr_sock_fd := re_socket e\<rparr>
      in if re_socket e < 0 then Some (- 1, r1, w)
         else
           let w1 = w\<lparr>vw_fds := re_socket e # vw_fds w\<rparr>
           in if \<not> re_bind e (word_of_int listen_port) then Some (- 1, r1, w1)
              else if \<not> re_listen e then Some (- 1, r1, w1)
              else if re_accept e < 0 then Some (- 1, r1, w1)
              else
                let w2 = w1\<lparr>vw_fds := re_accept e # vw_fds w1\<rparr>;
                    r2 = r1\<lparr>sr_start_time := re_start e\<rparr>;
                    end_time = receiver_end_time (re_start e) duration
                in case receive_loop_packets duration end_time (re_turns e) (re_conn e) r2 (vw_av w2) of
                     None \<Rightarrow> None
                   | Some (r3, av) \<Rightarrow> Some (0, r3, close_fd (re_accept e) (w2\<lparr>vw_av := av\<rparr>)))"

record receiver_args =
  rg_port :: int
  rg_duration :: int
  rg_width :: int
  rg_height :: int
  rg_dump_file :: "string option"

definition receiver_defaults :: receiver_args where
  "receiver_defaults = \<lparr>rg_port = 19000, rg_duration = 30, rg_width = 1280, rg_height = 720, rg_dump_file = None\<rparr>"

text \<open>The answers of \<open>getopt\<close>: option and argument.\<close>

fun receiver_opts :: "(char \<times> string) list \<Rightarrow> receiver_args \<Rightarrow> int + receiver_args" where
  "receiver_opts [] a = Inr a"
| "receiver_opts ((opt, v) # opts) a =
     (if opt = CHR ''p'' then receiver_opts opts (a\<lparr>rg_port := atoi v\<rparr>)
      else if opt = CHR ''d'' then receiver_opts opts (a\<lparr>rg_duration := atoi v\<rparr>)
      else if opt = CHR ''w'' then receiver_opts opts (a\<lparr>rg_width := atoi v\<rparr>)
      else if opt = CHR ''h'' then receiver_opts opts (a\<lparr>rg_height := atoi v\<rparr>)
      else if opt = CHR ''o'' then receiver_opts opts (a\<lparr>rg_dump_file := Some v\<rparr>)
      else Inl 1)"

text \<open>The exit code, what the dump file holds, and what is still owned.\<close>

definition receiver_main ::
  "create_env \<Rightarrow> run_env \<Rightarrow> (char \<times> string) list \<Rightarrow> recv_world \<Rightarrow> (int \<times> u8 list option \<times> recv_world) option" where
  "receiver_main ce e opts w = (case receiver_opts opts receiver_defaults of
     Inl rc \<Rightarrow> Some (rc, None, w)
   | Inr a \<Rightarrow> (case receiver_create ce (rg_width a) (rg_height a) (rg_dump_file a) w of
       (None, w1) \<Rightarrow> Some (1, None, w1)
     | (Some rcv, w1) \<Rightarrow> (case receiver_run e rcv (rg_port a) (rg_duration a) w1 of
         None \<Rightarrow> None
       | Some (ret, r1, w2) \<Rightarrow> Some (ret, sr_dump_file r1, receiver_destroy r1 w2))))"

section \<open>What a read returns\<close>

text \<open>Where every event delivers, the read is the loop of the server.\<close>

lemma waitall_loop_delivers:
  assumes "list_all is_Deliver evs" and "length got \<le> n"
    and "recv_exact_loop evs pend n got = Some (0, got', pend', evs')"
  shows "waitall_loop evs pend n got = Some (int n, got', pend', evs')"
  using assms
proof (induction evs arbitrary: pend got)
  case (Cons ev evs)
  obtain k where k: "ev = Deliver k" using Cons.prems(1) by (auto simp: is_Deliver_def split: recv_event.splits)
  show ?case
  proof (cases "length got < n")
    case True
    let ?r = "min (Suc k) (min (n - length got) (length pend))"
    have r: "?r > 0" using True Cons.prems(3) k by (auto simp: Let_def split: if_splits)
    then show ?thesis using Cons.IH [of "got @ take ?r pend" "drop ?r pend"] True k r Cons.prems by (simp add: Let_def)
  qed (use Cons.prems in auto)
qed (auto split: if_splits)

lemma waitall_full:
  assumes "conn_full c" and "c_pending c = xs @ ys" and "length xs = n"
  obtains c' where "recv_waitall n c = Some (int n, xs, c')" "conn_full c'" "c_pending c' = ys"
proof -
  obtain c' where c: "recv_exact n c = Some (0, xs, c')" "conn_full c'" "c_pending c' = ys"
    using recv_full [OF assms] .
  then have "recv_exact_loop (c_schedule c) (c_pending c) n [] = Some (0, xs, c_pending c', c_schedule c')"
    by (auto simp: recv_exact_def)
  then have "recv_waitall n c = Some (int n, xs, c')"
    using waitall_loop_delivers [of "c_schedule c" "[]" n] assms(1) by (simp add: recv_waitall_def conn_full_def)
  then show ?thesis using that c by blast
qed

lemma waitall_loop_laws:
  assumes "waitall_loop evs pend n got = Some (r, got', pend', evs')" and "length got \<le> n"
  shows "got' @ pend' = got @ pend \<and> length got' \<le> n \<and> (r = int (length got') \<or> r = - 1 \<and> length got' < n)"
  using assms
proof (induction evs arbitrary: pend got)
  case (Cons ev evs)
  show ?case
  proof (cases "length got < n")
    case True
    show ?thesis
    proof (cases ev)
      case (Deliver k)
      let ?r = "min (Suc k) (min (n - length got) (length pend))"
      show ?thesis
      proof (cases "?r > 0")
        case pos: True
        then have "waitall_loop evs (drop ?r pend) n (got @ take ?r pend) = Some (r, got', pend', evs')"
          using Cons.prems True Deliver by (simp add: Let_def)
        then show ?thesis using Cons.IH [of "drop ?r pend" "got @ take ?r pend"] True by simp
      qed (use Cons.prems True Deliver in \<open>auto simp: Let_def\<close>)
    qed (use Cons.prems Cons.IH [of pend got] True in \<open>auto split: if_splits\<close>)
  qed (use Cons.prems in auto)
qed (auto split: if_splits)

text \<open>With the code's test on the count it is a reader like the others.\<close>

definition waitall_read :: "nat \<Rightarrow> conn \<Rightarrow> (int \<times> u8 list \<times> conn) option" where
  "waitall_read n c = map_option (\<lambda>(r, bs, c'). (if r = int n then 0 else - 1, bs, c')) (recv_waitall n c)"

interpretation waitall: byte_reader waitall_read c_pending
proof unfold_locales
  fix n s rc bs s'
  assume "waitall_read n s = Some (rc, bs, s')"
  then obtain r pend evs where w: "waitall_loop (c_schedule s) (c_pending s) n [] = Some (r, bs, pend, evs)"
    "rc = (if r = int n then 0 else - 1)" "c_pending s' = pend"
    by (auto simp: waitall_read_def recv_waitall_def)
  from waitall_loop_laws [OF w(1)] w(2,3)
  show "c_pending s = bs @ c_pending s'" "rc = 0 \<and> length bs = n \<or> rc = - 1 \<and> length bs < n"
    by (auto split: if_splits)
qed

text \<open>Signals while nothing has arrived change nothing, however many there are.\<close>

theorem signal_leaves_read_waiting:
  "0 < n \<Longrightarrow> recv_waitall n \<lparr>c_pending = pend, c_schedule = replicate k RecvEINTR\<rparr> = None"
  by (induction k) (simp_all add: recv_waitall_def)

theorem signal_leaves_read_waiting_witness:
  "recv_waitall TCP_HEADER_SIZE \<lparr>c_pending = [1], c_schedule = replicate 3 RecvEINTR\<rparr> = None"
  by (rule signal_leaves_read_waiting) (simp add: TCP_HEADER_SIZE_def)

section \<open>One frame\<close>

definition recv_frame_ok :: "nat \<Rightarrow> wire_frame \<Rightarrow> bool" where
  "recv_frame_ok n f \<longleftrightarrow> (case f of (sid, t, p) \<Rightarrow> 1 \<le> unat sid \<and> unat sid \<le> MAX_STREAMS \<and>
     1 \<le> unat t \<and> unat t \<le> 4 \<and> length p \<le> n \<and> TCP_HEADER_SIZE + length p \<le> TCP_MAX_PACKET_SIZE)"

lemma receive_header:
  assumes "conn_full c" and "c_pending c = frame sid t p @ rest"
    and "1 \<le> unat sid" "unat sid \<le> MAX_STREAMS" "1 \<le> unat t" "unat t \<le> 4" "TCP_HEADER_SIZE + length p \<le> TCP_MAX_PACKET_SIZE"
  obtains hb h c1 where "recv_waitall TCP_HEADER_SIZE c = Some (int TCP_HEADER_SIZE, hb, c1)"
    "conn_full c1" "c_pending c1 = p @ rest" "protocol_parse_header (Some hb) = Some h"
    "ph_type h = t" "unat (ph_length h - of_nat TCP_HEADER_SIZE) = length p"
proof -
  let ?h = "\<lparr>ph_length = of_nat (TCP_HEADER_SIZE + length p), ph_type = t, ph_stream_id = sid\<rparr>"
  note F = frame_header [OF assms(7)]
  have "c_pending c = header_bytes ?h @ p @ rest" using assms(2) F(1) by simp
  then obtain c1 where 1: "recv_waitall TCP_HEADER_SIZE c = Some (int TCP_HEADER_SIZE, header_bytes ?h, c1)"
    "conn_full c1" "c_pending c1 = p @ rest"
    using waitall_full [OF assms(1)] length_header_bytes by metis
  have "header_ok ?h" using assms(3-7) F(2) by (simp add: header_ok_def)
  then have "protocol_parse_header (Some (header_bytes ?h)) = Some ?h" using parse_header_bytes [of ?h "[]"] by simp
  then show ?thesis using that [OF 1] F(3) by simp
qed

lemma receive_frame:
  assumes "conn_full c" and "c_pending c = frame sid t p @ rest" and "recv_frame_ok (sr_buffer_size rcv) (sid, t, p)"
  obtains c' where "conn_full c'" "c_pending c' = rest"
    "receive_packet tn c rcv w =
      (if t = TCP_MSG_TYPE_VIDEO_DATA \<and> p \<noteq> [] then map_option (Pair True \<circ> Pair c') (receive_video tn p rcv w)
       else Some (t \<noteq> TCP_MSG_TYPE_STREAM_STOP, c', rcv, w))"
proof -
  have ok: "1 \<le> unat sid" "unat sid \<le> MAX_STREAMS" "1 \<le> unat t" "unat t \<le> 4" "length p \<le> sr_buffer_size rcv"
    "TCP_HEADER_SIZE + length p \<le> TCP_MAX_PACKET_SIZE" using assms(3) by (simp_all add: recv_frame_ok_def)
  from receive_header [OF assms(1,2) ok(1-4,6)] obtain hb h c1 where
    1: "recv_waitall TCP_HEADER_SIZE c = Some (int TCP_HEADER_SIZE, hb, c1)" "conn_full c1" "c_pending c1 = p @ rest"
      "protocol_parse_header (Some hb) = Some h" "ph_type h = t" "unat (ph_length h - of_nat TCP_HEADER_SIZE) = length p" .
  obtain c2 where 2: "(if length p > 0 then recv_waitall (length p) c1 else Some (0, [], c1)) = Some (int (length p), p, c2)"
    "conn_full c2" "c_pending c2 = rest"
  proof (cases "p = []")
    case True
    then show thesis using that [of c1] 1(2,3) by simp
  next
    case False
    obtain c2 where "recv_waitall (length p) c1 = Some (int (length p), p, c2)" "conn_full c2" "c_pending c2 = rest"
      using waitall_full [OF 1(2,3) refl] .
    then show thesis using that [of c2] False by simp
  qed
  show ?thesis
    using that [OF 2(2,3)] 1(1,4-6) 2(1) ok(5)
    by (auto simp: receive_packet_def Let_def protocol_consts)
qed

section \<open>A run of frames\<close>

text \<open>
  A turn that is due, with answers enough for the decode call to return, and a disk that takes
  the unit.
\<close>

definition turn_serves :: "int \<Rightarrow> int \<Rightarrow> recv_turn \<Rightarrow> wire_frame \<Rightarrow> bool" where
  "turn_serves duration end_time t f \<longleftrightarrow> turn_due duration end_time t \<and> length (snd (snd f)) \<le> tn_written t \<and>
     (\<forall>d w. decoder_decode (tn_parse t) (snd (snd f)) d w \<noteq> None)"

definition unit_bytes :: "wire_frame list \<Rightarrow> u8 list" where
  "unit_bytes fs = concat (map (\<lambda>(sid, t, p). if t = TCP_MSG_TYPE_VIDEO_DATA then p else []) fs)"

text \<open>A parser that takes all of its input in one round lets the call return.\<close>

lemma decode_consumed:
  assumes "int (length p) \<le> pa_parsed a" and "pa_packet a = []"
  shows "decoder_decode [a] p d w \<noteq> None"
  using assms by (auto simp: decoder_decode_def Let_def split: option.splits if_splits)

lemma receive_video_some:
  assumes "\<forall>d w. decoder_decode (tn_parse t) p d w \<noteq> None" and "length p \<le> tn_written t"
  obtains r1 w1 where "receive_video t p rcv w = Some (r1, w1)"
    "sr_dump_file r1 = map_option (\<lambda>f. f @ p) (sr_dump_file rcv)" "sr_buffer_size r1 = sr_buffer_size rcv"
proof -
  obtain ret q d w1 where d: "decoder_decode (tn_parse t) p (sr_decoder rcv) w = Some (ret, q, d, w1)"
    using assms(1) by (metis not_Some_eq prod_cases4)
  show ?thesis
    by (cases "ret = 0 \<and> q \<noteq> None") (use d assms(2) that in \<open>auto simp: receive_video_def Let_def\<close>)
qed

lemma receive_frames_until:
  assumes "list_all2 (turn_serves duration end_time) ts fs" and "\<not> turn_due duration end_time t"
    and "list_all (recv_frame_ok (sr_buffer_size rcv)) fs" and "\<forall>f \<in> set fs. fst (snd f) \<noteq> TCP_MSG_TYPE_STREAM_STOP"
    and "conn_full c" and "c_pending c = wire fs @ rest"
  shows "\<exists>r1 w1. receive_loop_packets duration end_time (ts @ t # more_turns) c rcv w = Some (r1, w1) \<and>
    sr_dump_file r1 = map_option (\<lambda>f. f @ unit_bytes fs) (sr_dump_file rcv)"
  using assms
proof (induction ts fs arbitrary: c rcv w rule: list_all2_induct)
  case Nil
  then show ?case by (simp add: unit_bytes_def map_option.identity)
next
  case (Cons u ts f fs)
  obtain sid ty p where f: "f = (sid, ty, p)" by (metis prod.exhaust)
  have due: "turn_due duration end_time u" "length p \<le> tn_written u" "\<forall>d w. decoder_decode (tn_parse u) p d w \<noteq> None"
    using Cons.hyps(1) f by (simp_all add: turn_serves_def)
  have "c_pending c = frame sid ty p @ wire fs @ rest" using Cons.prems(5) f by (simp add: wire_def)
  moreover have "recv_frame_ok (sr_buffer_size rcv) (sid, ty, p)" using Cons.prems(2) f by simp
  ultimately obtain c1 where 1: "conn_full c1" "c_pending c1 = wire fs @ rest"
    "receive_packet u c rcv w =
      (if ty = TCP_MSG_TYPE_VIDEO_DATA \<and> p \<noteq> [] then map_option (Pair True \<circ> Pair c1) (receive_video u p rcv w)
       else Some (ty \<noteq> TCP_MSG_TYPE_STREAM_STOP, c1, rcv, w))"
    using receive_frame [OF Cons.prems(4), of sid ty p "wire fs @ rest" rcv u w] by blast
  obtain r1 w1 where 2: "receive_packet u c rcv w = Some (True, c1, r1, w1)"
    "sr_dump_file r1 = map_option (\<lambda>g. g @ unit_bytes [f]) (sr_dump_file rcv)" "sr_buffer_size r1 = sr_buffer_size rcv"
  proof (cases "ty = TCP_MSG_TYPE_VIDEO_DATA \<and> p \<noteq> []")
    case True
    obtain r1 w1 where "receive_video u p rcv w = Some (r1, w1)"
      "sr_dump_file r1 = map_option (\<lambda>f. f @ p) (sr_dump_file rcv)" "sr_buffer_size r1 = sr_buffer_size rcv"
      using receive_video_some [OF due(3,2)] .
    then show thesis using that 1(3) True f by (simp add: unit_bytes_def)
  next
    case False
    then have "unit_bytes [f] = []" using f by (auto simp: unit_bytes_def)
    then show thesis using that [of rcv w] 1(3) False Cons.prems(3) f by (simp add: map_option.identity)
  qed
  have "list_all (recv_frame_ok (sr_buffer_size r1)) fs" using Cons.prems(2) 2(3) by simp
  from Cons.IH [OF Cons.prems(1) this _ 1(1,2), of w1]
  obtain r2 w2 where "receive_loop_packets duration end_time (ts @ t # more_turns) c1 r1 w1 = Some (r2, w2)"
    "sr_dump_file r2 = map_option (\<lambda>f. f @ unit_bytes fs) (sr_dump_file r1)" using Cons.prems(3) by auto
  then show ?case using due(1) 2 by (simp add: unit_bytes_def option.map_comp comp_def)
qed

text \<open>A run whose socket can be had, until a turn at which the flag or the time stops it.\<close>

definition run_serves :: "run_env \<Rightarrow> int \<Rightarrow> int \<Rightarrow> wire_frame list \<Rightarrow> bool" where
  "run_serves e port duration fs \<longleftrightarrow> 0 \<le> re_socket e \<and> re_bind e (word_of_int port) \<and> re_listen e \<and> 0 \<le> re_accept e \<and>
     (\<exists>ts t more_turns. re_turns e = ts @ t # more_turns \<and>
        list_all2 (turn_serves duration (receiver_end_time (re_start e) duration)) ts fs \<and>
        \<not> turn_due duration (receiver_end_time (re_start e) duration) t)"

lemma receiver_run_until:
  assumes "run_serves e port duration fs"
    and "list_all (recv_frame_ok (sr_buffer_size rcv)) fs" and "\<forall>f \<in> set fs. fst (snd f) \<noteq> TCP_MSG_TYPE_STREAM_STOP"
    and "conn_full (re_conn e)" and "c_pending (re_conn e) = wire fs @ rest"
  shows "\<exists>r1 w2. receiver_run e rcv port duration w = Some (0, r1, w2) \<and>
    sr_dump_file r1 = map_option (\<lambda>f. f @ unit_bytes fs) (sr_dump_file rcv)"
proof -
  let ?stop = "receiver_end_time (re_start e) duration"
  let ?r = "rcv\<lparr>sr_sock_fd := re_socket e, sr_start_time := re_start e\<rparr>"
  obtain ts t more_turns where t: "re_turns e = ts @ t # more_turns" "list_all2 (turn_serves duration ?stop) ts fs"
    "\<not> turn_due duration ?stop t" using assms(1) by (auto simp: run_serves_def)
  have "list_all (recv_frame_ok (sr_buffer_size ?r)) fs" using assms(2) by simp
  from receive_frames_until [OF t(2,3) this assms(3-5), of more_turns "vw_av w"]
  obtain r1 w1 where "receive_loop_packets duration ?stop (re_turns e) (re_conn e) ?r (vw_av w) = Some (r1, w1)"
    "sr_dump_file r1 = map_option (\<lambda>f. f @ unit_bytes fs) (sr_dump_file rcv)" using t(1) by auto
  then show ?thesis using assms(1) by (simp add: receiver_run_def run_serves_def)
qed

section \<open>Who owns what\<close>

text \<open>A decode call whose frame is freed moves nothing.\<close>

lemma owned_moved:
  assumes "owned w0 d w" and "moved (dx_transfer_stats d) 0 0 0 w w'" and "ctx_core d' = ctx_core d" and "fresh_world w0"
  shows "owned w0 d' w'"
proof -
  have d: "dx_transfer_stats d' = dx_transfer_stats d" "dx_frame d' = dx_frame d"
    "dx_uses_shared_cuda_device d' = dx_uses_shared_cuda_device d" "dx_hw_device_ctx d' = dx_hw_device_ctx d"
    using arg_cong [OF assms(3), of dx_transfer_stats] arg_cong [OF assms(3), of dx_frame]
      arg_cong [OF assms(3), of dx_uses_shared_cuda_device] arg_cong [OF assms(3), of dx_hw_device_ctx]
    by (simp_all add: ctx_core_stats)
  obtain t where t: "tf_refcount t = 1" "w_stats w = (w_stats w0)(dx_transfer_stats d \<mapsto> t)"
    using assms(1) by (auto simp: owned_def)
  have "stats_refs w' (dx_transfer_stats d) = 1" using moved_refs [OF assms(2)] t by (simp add: stats_refs_def)
  then obtain t' where t': "w_stats w' (dx_transfer_stats d) = Some t'" "unat (tf_refcount t') = 1"
    by (auto simp: stats_refs_def split: option.splits)
  have "w_stats w' = (w_stats w0)(dx_transfer_stats d \<mapsto> t')"
    using assms(2) t t'(1) by (auto simp: moved_def fun_eq_iff)
  moreover have "tf_refcount t' = 1" using t'(2) by (metis unat_1 word_unat_eq_iff)
  moreover have "dev_moved (ctx_shared d) (ctx_va d) w0 w'"
    using assms(1,2) by (simp add: owned_def dev_moved_def moved_def device_ok_def)
  ultimately show ?thesis using assms(1,2) d
    by (auto simp: owned_def moved_def ctx_shared_def ctx_va_def)
qed

lemma owned_room: "owned w0 d w \<Longrightarrow> refs_room w (dx_transfer_stats d)"
  by (auto simp: owned_def refs_room_def stats_refs_def)

lemma receive_video_owned:
  assumes "receive_video t p rcv w = Some (r1, w1)" and "owned w0 (sr_decoder rcv) w" and "fresh_world w0"
  shows "owned w0 (sr_decoder r1) w1" "sr_sock_fd r1 = sr_sock_fd rcv"
    "sr_dump_file r1 = None \<longleftrightarrow> sr_dump_file rcv = None"
proof -
  let ?a = "dx_transfer_stats (sr_decoder rcv)"
  obtain ret q d w2 where d: "decoder_decode (tn_parse t) p (sr_decoder rcv) w = Some (ret, q, d, w2)"
    using assms(1) by (auto simp: receive_video_def Let_def split: option.splits)
  note m = decoder_decode_moved [OF d owned_room [OF assms(2)]]
  have "frame_refs q \<le> int (stats_refs w2 ?a)" using moved_refs [OF m(3)] by simp
  from moved_trans [OF m(3) free_frame_moved [OF m(4) this]]
  have free: "moved ?a 0 0 0 w (decoder_free_frame q w2)" by simp
  have r: "sr_decoder r1 = d" "w1 = (if ret = 0 \<and> q \<noteq> None then decoder_free_frame q w2 else w2)"
    "sr_sock_fd r1 = sr_sock_fd rcv" "sr_dump_file r1 = None \<longleftrightarrow> sr_dump_file rcv = None"
    using assms(1) d by (auto simp: receive_video_def Let_def split: if_splits)
  have "moved ?a 0 0 0 w w1"
  proof (cases "q = None")
    case True
    then show ?thesis using m(3) r(2) by (simp add: frame_amounts)
  next
    case False
    then show ?thesis using free r(2) m(1) by simp
  qed
  then show "owned w0 (sr_decoder r1) w1" using owned_moved [OF assms(2) _ m(5) assms(3)] r(1) by simp
  show "sr_sock_fd r1 = sr_sock_fd rcv" "sr_dump_file r1 = None \<longleftrightarrow> sr_dump_file rcv = None" by (fact r(3,4))+
qed

definition same_owner :: "av_world \<Rightarrow> StreamReceiver \<Rightarrow> StreamReceiver \<Rightarrow> av_world \<Rightarrow> bool" where
  "same_owner w0 rcv r1 w1 \<longleftrightarrow> owned w0 (sr_decoder r1) w1 \<and> sr_sock_fd r1 = sr_sock_fd rcv \<and>
     (sr_dump_file r1 = None \<longleftrightarrow> sr_dump_file rcv = None)"

lemma receive_packet_owned:
  assumes "receive_packet t c rcv w = Some (go, c1, r1, w1)" and "owned w0 (sr_decoder rcv) w" and "fresh_world w0"
  shows "same_owner w0 rcv r1 w1"
  using assms(1,2) receive_video_owned [OF _ assms(2,3), of t]
  by (auto simp: receive_packet_def Let_def same_owner_def split: option.splits if_splits)

lemma receive_loop_owned:
  assumes "receive_loop_packets duration end_time ts c rcv w = Some (r1, w1)" and "owned w0 (sr_decoder rcv) w"
    and "fresh_world w0"
  shows "same_owner w0 rcv r1 w1"
  using assms(1,2)
proof (induction ts arbitrary: c rcv w)
  case (Cons t ts)
  show ?case
  proof (cases "turn_due duration end_time t")
    case True
    then obtain go c2 r2 w2 where p: "receive_packet t c rcv w = Some (go, c2, r2, w2)"
      using Cons.prems(1) by (auto split: option.splits)
    note o = receive_packet_owned [OF p Cons.prems(2) assms(3)]
    show ?thesis
    proof (cases go)
      case g: True
      then have "same_owner w0 r2 r1 w1" using Cons.IH [of c2 r2 w2] Cons.prems(1) True p o by (simp add: same_owner_def)
      then show ?thesis using o by (simp add: same_owner_def)
    qed (use Cons.prems(1) True p o in simp)
  qed (use Cons.prems in \<open>simp add: same_owner_def\<close>)
qed simp

lemma release_simps [simp]:
  "vw_av (release_receiver b w) = vw_av w" "vw_fds (release_receiver b w) = vw_fds w"
  "vw_files (release_receiver b w) = vw_files w - (if b then 1 else 0)"
  "vw_blocks (release_receiver b w) = vw_blocks w - 2"
  by (simp_all add: release_receiver_def)

lemma receiver_create_cases:
  assumes "receiver_create ce width height f w = (p, w1)" and "fresh_world (vw_av w)"
  shows "vw_fds w1 = vw_fds w"
    and "p = None \<Longrightarrow> restored (vw_av w) (vw_av w1) \<and> vw_files w1 = vw_files w \<and> vw_blocks w1 = vw_blocks w"
    and "p = Some rcv \<Longrightarrow> owned (vw_av w) (sr_decoder rcv) (vw_av w1) \<and> vw_blocks w1 = vw_blocks w + 2 \<and>
      vw_files w1 = vw_files w + (if f = None then 0 else 1) \<and>
      sr_dump_file rcv = (if f = None then None else Some []) \<and> sr_buffer_size rcv = 2 * 1024 * 1024"
proof -
  let ?go = "ce_calloc ce \<and> ce_malloc ce \<and> (case f of None \<Rightarrow> True | Some n \<Rightarrow> ce_fopen ce n)"
  let ?Q = "vw_fds w1 = vw_fds w \<and>
    (p = None \<longrightarrow> restored (vw_av w) (vw_av w1) \<and> vw_files w1 = vw_files w \<and> vw_blocks w1 = vw_blocks w) \<and>
    (p = Some rcv \<longrightarrow> owned (vw_av w) (sr_decoder rcv) (vw_av w1) \<and> vw_blocks w1 = vw_blocks w + 2 \<and>
      vw_files w1 = vw_files w + (if f = None then 0 else 1) \<and>
      sr_dump_file rcv = (if f = None then None else Some []) \<and> sr_buffer_size rcv = 2 * 1024 * 1024)"
  obtain q av where c: "decoder_create (ce_create ce) (receiver_config width height) (vw_av w) = (q, av)" by fastforce
  note dc = decoder_create_cases [OF c assms(2)]
  consider "\<not> ?go" | "?go" "q = None" | d where "?go" "q = Some d" by auto
  then have ?Q
  proof cases
    case 1
    then have "p = None \<and> w1 = w"
      using assms(1) by (cases f) (auto simp: receiver_create_def split: if_splits)
    then show ?thesis by simp
  next
    case 2
    then have "p = None \<and> w1 = release_receiver (f \<noteq> None)
        (w\<lparr>vw_files := vw_files w + (if f \<noteq> None then 1 else 0), vw_blocks := vw_blocks w + 2, vw_av := av\<rparr>)"
      using assms(1) c by (cases f) (simp_all add: receiver_create_def)
    then show ?thesis using dc(1) 2 by simp
  next
    case 3
    obtain rc d1 av1 where i: "decoder_init (ce_init ce) None d av = (rc, d1, av1)" by (metis prod_cases3)
    have o: "owned (vw_av w) d av" "no_device d" "\<not> dx_initialized d" using dc(2) 3 by (simp_all add: no_device_def)
    note own = decoder_init_owned(1) [OF o i]
    show ?thesis
    proof (cases "rc < 0")
      case True
      then have "p = None \<and> w1 = release_receiver (f \<noteq> None) (w\<lparr>vw_files := vw_files w + (if f \<noteq> None then 1 else 0),
          vw_blocks := vw_blocks w + 2, vw_av := decoder_destroy d1 av1\<rparr>)"
        using assms(1) c 3 i by (cases f) (simp_all add: receiver_create_def)
      then show ?thesis using decoder_destroy_owned [OF own assms(2)] by simp
    next
      case False
      then have "(p, w1) = (Some \<lparr>sr_sock_fd = 0, sr_dump_file = (if f \<noteq> None then Some [] else None), sr_decoder = d1,
            sr_width = width, sr_height = height, sr_frame_count = 0, sr_start_time = 0,
            sr_buffer_size = 2 * 1024 * 1024\<rparr>,
          w\<lparr>vw_files := vw_files w + (if f \<noteq> None then 1 else 0), vw_blocks := vw_blocks w + 2, vw_av := av1\<rparr>)"
        using assms(1) c 3 i by (cases f) (simp_all add: receiver_create_def)
      then show ?thesis using own by auto
    qed
  qed
  then show "vw_fds w1 = vw_fds w"
    "p = None \<Longrightarrow> restored (vw_av w) (vw_av w1) \<and> vw_files w1 = vw_files w \<and> vw_blocks w1 = vw_blocks w"
    "p = Some rcv \<Longrightarrow> owned (vw_av w) (sr_decoder rcv) (vw_av w1) \<and> vw_blocks w1 = vw_blocks w + 2 \<and>
      vw_files w1 = vw_files w + (if f = None then 0 else 1) \<and>
      sr_dump_file rcv = (if f = None then None else Some []) \<and> sr_buffer_size rcv = 2 * 1024 * 1024" by auto
qed

text \<open>The run leaves the listening socket to the receiver and closes the other one.\<close>

lemma receiver_run_owned:
  assumes "receiver_run e rcv port duration w1 = Some (ret, r1, w2)" and "owned w0 (sr_decoder rcv) (vw_av w1)"
    and "fresh_world w0"
  shows "owned w0 (sr_decoder r1) (vw_av w2)" "sr_sock_fd r1 = re_socket e"
    "sr_dump_file r1 = None \<longleftrightarrow> sr_dump_file rcv = None"
    "vw_fds w2 = (if re_socket e < 0 then vw_fds w1 else re_socket e # vw_fds w1)"
    "vw_files w2 = vw_files w1" "vw_blocks w2 = vw_blocks w1"
proof -
  have "owned w0 (sr_decoder r1) (vw_av w2) \<and> sr_sock_fd r1 = re_socket e \<and>
    (sr_dump_file r1 = None \<longleftrightarrow> sr_dump_file rcv = None) \<and>
    vw_fds w2 = (if re_socket e < 0 then vw_fds w1 else re_socket e # vw_fds w1) \<and>
    vw_files w2 = vw_files w1 \<and> vw_blocks w2 = vw_blocks w1"
    using assms(1,2)
    by (auto simp: receiver_run_def Let_def close_fd_def same_owner_def split: if_splits option.splits
        dest: receive_loop_owned [OF _ _ assms(3), where rcv = "rcv\<lparr>sr_sock_fd := re_socket e, sr_start_time := re_start e\<rparr>"])
  then show "owned w0 (sr_decoder r1) (vw_av w2)" "sr_sock_fd r1 = re_socket e"
    "sr_dump_file r1 = None \<longleftrightarrow> sr_dump_file rcv = None"
    "vw_fds w2 = (if re_socket e < 0 then vw_fds w1 else re_socket e # vw_fds w1)"
    "vw_files w2 = vw_files w1" "vw_blocks w2 = vw_blocks w1" by blast+
qed

text \<open>C8: however the receiver ends, by an option it does not know, a failed allocation, a socket it cannot
  get, a signal, the end of its time or a bad packet, it has given back every frame, device
  reference and statistics block, its file, its memory and all of its descriptors.\<close>

theorem receiver_leaves_nothing:
  assumes "receiver_main ce e opts w = Some (rc, dump, w')" and "vw_av w = av_world_init" and "re_socket e \<noteq> 0"
  shows "w_frames (vw_av w') = 0 \<and> w_avframes (vw_av w') = 0 \<and> w_device_refs (vw_av w') = 0 \<and>
    (\<forall>a. w_stats (vw_av w') a = None) \<and> \<not> g_cuda_device_master (vw_av w') \<and>
    vw_fds w' = vw_fds w \<and> vw_files w' = vw_files w \<and> vw_blocks w' = vw_blocks w"
proof -
  have fresh: "fresh_world (vw_av w)" using assms(2) by (simp add: fresh_world_def av_world_init_def)
  have "restored (vw_av w) (vw_av w') \<and> vw_fds w' = vw_fds w \<and> vw_files w' = vw_files w \<and> vw_blocks w' = vw_blocks w"
  proof (cases "receiver_opts opts receiver_defaults")
    case (Inr a)
    obtain p w1 where c: "receiver_create ce (rg_width a) (rg_height a) (rg_dump_file a) w = (p, w1)" by fastforce
    note cr = receiver_create_cases [OF c fresh]
    show ?thesis
    proof (cases p)
      case None
      then show ?thesis using assms(1) Inr c cr by (simp add: receiver_main_def)
    next
      case (Some rcv)
      then obtain ret r1 w2 where r: "receiver_run e rcv (rg_port a) (rg_duration a) w1 = Some (ret, r1, w2)"
        "w' = receiver_destroy r1 w2"
        using assms(1) Inr c by (auto simp: receiver_main_def split: option.splits)
      have own: "owned (vw_av w) (sr_decoder rcv) (vw_av w1)" using cr(3) Some by simp
      note rr = receiver_run_owned [OF r(1) own fresh]
      show ?thesis using decoder_destroy_owned [OF rr(1) fresh] rr(2-) cr(1) cr(3) [OF Some] assms(3)
        by (auto simp: r(2) receiver_destroy_def Let_def close_fd_def)
    qed
  qed (use assms(1) in \<open>simp add: receiver_main_def\<close>)
  moreover from this have "device_ok 0 0 (vw_av w')"
    using assms(2) by (auto simp: restored_def dev_moved_def device_ok_def av_world_init_def
        dest!: spec [where x = 0])
  ultimately show ?thesis using assms(2)
    by (simp add: restored_def device_ok_def) (simp add: av_world_init_def)
qed

text \<open>A receiver on the graphics card.\<close>

definition ex_create :: create_env where
  "ex_create = \<lparr>ce_calloc = True, ce_malloc = True, ce_fopen = (\<lambda>_. True), ce_create = ex_av True, ce_init = ex_av True\<rparr>"

definition ex_recv_world :: recv_world where
  "ex_recv_world = \<lparr>vw_av = av_world_init, vw_fds = [0, 1, 2], vw_files = 0, vw_blocks = 0\<rparr>"

lemma ex_receiver:
  "\<exists>rcv w1. receiver_create ex_create width height f ex_recv_world = (Some rcv, w1)"
proof -
  let ?cfg = "receiver_config width height"
  have "dc_backend ?cfg \<noteq> DECODE_BACKEND_AUTO" by (simp add: receiver_config_def)
  note c = ex_av_create [OF this, of True av_world_init]
  have "fst (decoder_init (ex_av True) None ctx w) = 0" if "\<not> dx_initialized ctx" for ctx w
    using that by (auto simp: decoder_init_def Let_def ex_av_def split: prod.splits)
  then have i: "\<exists>d av. decoder_init (ex_av True) None ctx w = (0, d, av)" if "\<not> dx_initialized ctx" for ctx w
    using that by (metis prod.collapse)
  show ?thesis
    using i [of "(fresh_ctx ?cfg (w_next av_world_init))\<lparr>dx_codec := True, dx_codec_ctx := Some zero_codec_ctx,
        dx_frame := True, dx_packet := True, dx_parser := True\<rparr>"
        "av_world_init\<lparr>w_stats := (w_stats av_world_init)(w_next av_world_init \<mapsto> \<lparr>tf_refcount = 1, tf_hw_transfer_count = 0\<rparr>),
       w_next := w_next av_world_init + 1, w_avframes := w_avframes av_world_init + 1\<rparr>"]
    by (auto simp: receiver_create_def ex_create_def ex_recv_world_def c Let_def split: option.splits)
qed

theorem receiver_leaves_nothing_witness:
  "let e = \<lparr>re_socket = 3, re_bind = \<lambda>_. True, re_listen = True, re_accept = 4, re_start = 100,
      re_conn = \<lparr>c_pending = [], c_schedule = [Deliver 0]\<rparr>,
      re_turns = [\<lparr>tn_running = True, tn_now = 101, tn_written = 0, tn_parse = []\<rparr>]\<rparr> in
   \<exists>rcv w1 rc dump w'. receiver_create ex_create 1280 720 (Some ''v.h264'') ex_recv_world = (Some rcv, w1) \<and>
     receiver_main ex_create e [(CHR ''o'', ''v.h264'')] ex_recv_world = Some (rc, dump, w') \<and>
     w_avframes (vw_av w') = 0 \<and> \<not> g_cuda_device_master (vw_av w') \<and> vw_fds w' = [0, 1, 2]"
proof -
  let ?e = "\<lparr>re_socket = 3, re_bind = \<lambda>_. True, re_listen = True, re_accept = 4, re_start = 100,
      re_conn = \<lparr>c_pending = [], c_schedule = [Deliver 0]\<rparr>,
      re_turns = [\<lparr>tn_running = True, tn_now = 101, tn_written = 0, tn_parse = []\<rparr>]\<rparr>"
  obtain rcv w1 where c: "receiver_create ex_create 1280 720 (Some ''v.h264'') ex_recv_world = (Some rcv, w1)"
    using ex_receiver by blast
  have "receive_packet \<lparr>tn_running = True, tn_now = 101, tn_written = 0, tn_parse = []\<rparr>
      \<lparr>c_pending = [], c_schedule = [Deliver 0]\<rparr> r w = Some (False, \<lparr>c_pending = [], c_schedule = []\<rparr>, r, w)" for r w
    by (simp add: receive_packet_def recv_waitall_def TCP_HEADER_SIZE_def)
  then obtain rc dump w' where m: "receiver_main ex_create ?e [(CHR ''o'', ''v.h264'')] ex_recv_world = Some (rc, dump, w')"
    using c by (simp add: receiver_main_def receiver_defaults_def receiver_run_def turn_due_def receiver_end_time_def)
  have "vw_av ex_recv_world = av_world_init" by (simp add: ex_recv_world_def)
  from receiver_leaves_nothing [OF m this]
  have "w_avframes (vw_av w') = 0 \<and> \<not> g_cuda_device_master (vw_av w') \<and> vw_fds w' = [0, 1, 2]"
    by (simp add: ex_recv_world_def)
  with c m show ?thesis unfolding Let_def by blast
qed

section \<open>Large units\<close>

text \<open>a unit of more than two megabytes, which the protocol allows and the other readers take, ends
  the receiver: its buffer is smaller than a packet may be.\<close>

theorem receiver_refuses_large_unit:
  assumes "conn_full c" and "c_pending c = frame sid t p @ rest"
    and "1 \<le> unat sid" "unat sid \<le> MAX_STREAMS" "1 \<le> unat t" "unat t \<le> 4" "TCP_HEADER_SIZE + length p \<le> TCP_MAX_PACKET_SIZE"
    and "sr_buffer_size rcv < length p" and "turn_due duration end_time tn"
  shows "receive_loop_packets duration end_time (tn # ts) c rcv w = Some (rcv, w)"
proof -
  from receive_header [OF assms(1-7)] obtain hb h c1 where
    "recv_waitall TCP_HEADER_SIZE c = Some (int TCP_HEADER_SIZE, hb, c1)"
    "protocol_parse_header (Some hb) = Some h" "unat (ph_length h - of_nat TCP_HEADER_SIZE) = length p" .
  then have "receive_packet tn c rcv w = Some (False, c1, rcv, w)"
    using assms(8) by (simp add: receive_packet_def)
  then show ?thesis using assms(9) by simp
qed

theorem receiver_refuses_large_unit_witness:
  "let p = replicate 2097153 0; t = \<lparr>tn_running = True, tn_now = 0, tn_written = 0, tn_parse = []\<rparr> in
   \<exists>rcv w1. receiver_create ex_create 1280 720 None ex_recv_world = (Some rcv, w1) \<and>
     receive_loop_packets 0 0 [t] \<lparr>c_pending = frame 1 TCP_MSG_TYPE_VIDEO_DATA p, c_schedule = replicate 2097160 (Deliver 0)\<rparr>
       rcv (vw_av w1) = Some (rcv, vw_av w1)"
proof -
  let ?p = "replicate 2097153 0 :: u8 list"
  let ?t = "\<lparr>tn_running = True, tn_now = 0, tn_written = 0, tn_parse = []\<rparr>"
  let ?c = "\<lparr>c_pending = frame 1 TCP_MSG_TYPE_VIDEO_DATA ?p, c_schedule = replicate 2097160 (Deliver 0)\<rparr>"
  obtain rcv w1 where c: "receiver_create ex_create 1280 720 None ex_recv_world = (Some rcv, w1)" using ex_receiver by blast
  have "fresh_world (vw_av ex_recv_world)" by (simp add: fresh_world_def av_world_init_def ex_recv_world_def)
  then have "sr_buffer_size rcv = 2 * 1024 * 1024" using receiver_create_cases(3) [OF c] by simp
  moreover have "conn_full ?c"
    by (simp add: conn_full_def frame_def sender_header_def is_Deliver_def list_all_iff)
  ultimately have "receive_loop_packets 0 0 [?t] ?c rcv (vw_av w1) = Some (rcv, vw_av w1)"
    by (intro receiver_refuses_large_unit [of ?c 1 TCP_MSG_TYPE_VIDEO_DATA ?p "[]"])
      (simp_all add: protocol_consts turn_due_def)
  with c show ?thesis unfolding Let_def by blast
qed

end
