(* ===== verification/Nv12.thy ===== *)
theory Nv12
  imports Prelude "HOL-Library.Signed_Division"
begin

text \<open>
  The wrapper around libyuv that Python loads (\<open>python_dir/nv12_to_bgr_libyuv.c\<close>). libyuv is not
  part of the repository: its answer to a call is an argument, and what the wrapper does is the
  list of calls it makes. A pointer is an address or None, a batch fails on its first frame when
  one is None; offsets are computed in C's 32-bit
  \<open>int\<close>, whose products wrap here, as they do with the compilers in use.
\<close>

datatype YuvConstants = kYuvF709Constants | kYvuF709Constants

record yuv_planes =
  yp_y :: int
  yp_stride_y :: int
  yp_uv :: int
  yp_stride_uv :: int
  yp_dst :: int
  yp_dst_stride :: int

datatype libyuv_call =
  NV21ToRGB24Matrix yuv_planes YuvConstants int int
| NV12ToRGB24Matrix yuv_planes YuvConstants int int
| NV21ToARGBMatrix yuv_planes YuvConstants int int
| NV12ToARGBMatrix yuv_planes YuvConstants int int
| NV12ToI420 "(int \<times> int) list" int int

definition given_planes :: "int option \<Rightarrow> int \<Rightarrow> int option \<Rightarrow> int \<Rightarrow> int option \<Rightarrow> int \<Rightarrow> int \<Rightarrow> int \<Rightarrow> yuv_planes option" where
  "given_planes src_y src_stride_y src_uv src_stride_uv dst dst_stride width height =
     (case (src_y, src_uv, dst) of
        (Some y, Some uv, Some d) \<Rightarrow>
          if width \<le> 0 \<or> height \<le> 0 then None
          else Some \<lparr>yp_y = y, yp_stride_y = src_stride_y, yp_uv = uv, yp_stride_uv = src_stride_uv,
                 yp_dst = d, yp_dst_stride = dst_stride\<rparr>
      | _ \<Rightarrow> None)"

definition nv12_to_bgr_bt709_libyuv ::
  "(libyuv_call \<Rightarrow> int) \<Rightarrow> int option \<Rightarrow> int \<Rightarrow> int option \<Rightarrow> int \<Rightarrow> int option \<Rightarrow> int \<Rightarrow> int \<Rightarrow> int \<Rightarrow> bool \<Rightarrow>
   int \<times> libyuv_call list" where
  "nv12_to_bgr_bt709_libyuv yuv src_y src_stride_y src_uv src_stride_uv dst_bgr dst_stride width height output_bgr =
     (case given_planes src_y src_stride_y src_uv src_stride_uv dst_bgr dst_stride width height of
        None \<Rightarrow> (- 1, [])
      | Some p \<Rightarrow>
          let call = (if output_bgr then NV21ToRGB24Matrix p kYvuF709Constants width height
                      else NV12ToRGB24Matrix p kYuvF709Constants width height)
          in (yuv call, [call]))"

definition nv12_to_argb_bt709_libyuv ::
  "(libyuv_call \<Rightarrow> int) \<Rightarrow> int option \<Rightarrow> int \<Rightarrow> int option \<Rightarrow> int \<Rightarrow> int option \<Rightarrow> int \<Rightarrow> int \<Rightarrow> int \<Rightarrow> bool \<Rightarrow>
   int \<times> libyuv_call list" where
  "nv12_to_argb_bt709_libyuv yuv src_y src_stride_y src_uv src_stride_uv dst_argb dst_stride width height output_abgr =
     (case given_planes src_y src_stride_y src_uv src_stride_uv dst_argb dst_stride width height of
        None \<Rightarrow> (- 1, [])
      | Some p \<Rightarrow>
          let call = (if output_abgr then NV21ToARGBMatrix p kYvuF709Constants width height
                      else NV12ToARGBMatrix p kYuvF709Constants width height)
          in (yuv call, [call]))"

text \<open>The planes with their strides are passed on, unchecked.\<close>

definition nv12_to_i420_libyuv ::
  "(libyuv_call \<Rightarrow> int) \<Rightarrow> int \<times> int \<Rightarrow> int \<times> int \<Rightarrow> int \<times> int \<Rightarrow> int \<times> int \<Rightarrow> int \<times> int \<Rightarrow> int \<Rightarrow> int \<Rightarrow>
   int \<times> libyuv_call list" where
  "nv12_to_i420_libyuv yuv src_y src_uv dst_y dst_u dst_v width height =
     (let call = NV12ToI420 [src_y, src_uv, dst_y, dst_u, dst_v] width height in (yuv call, [call]))"

text \<open>The batch: frame after frame until one fails.\<close>

definition int_mul :: "int \<Rightarrow> int \<Rightarrow> int" where
  "int_mul a b = signed_take_bit 31 (a * b)"

definition nv12_frame_of_batch ::
  "(libyuv_call \<Rightarrow> int) \<Rightarrow> int option \<Rightarrow> int \<Rightarrow> int option \<Rightarrow> int \<Rightarrow> int option \<Rightarrow> int \<Rightarrow> int \<Rightarrow> int \<Rightarrow> bool \<Rightarrow> nat \<Rightarrow>
   int \<times> libyuv_call list" where
  "nv12_frame_of_batch yuv src_y src_stride_y src_uv src_stride_uv dst_bgr dst_stride width height output_bgr i =
     nv12_to_bgr_bt709_libyuv yuv
       (map_option (\<lambda>p. p + int_mul (int_mul (int i) src_stride_y) height) src_y) src_stride_y
       (map_option (\<lambda>p. p + int_mul (int_mul (int i) src_stride_uv) height sdiv 2) src_uv) src_stride_uv
       (map_option (\<lambda>p. p + int_mul (int_mul (int i) dst_stride) height) dst_bgr) dst_stride
       width height output_bgr"

fun batch_from :: "(nat \<Rightarrow> int \<times> libyuv_call list) \<Rightarrow> nat list \<Rightarrow> int \<times> libyuv_call list" where
  "batch_from conv [] = (0, [])"
| "batch_from conv (i # js) =
     (case conv i of (ret, calls) \<Rightarrow>
        if ret \<noteq> 0 then (ret, calls)
        else (case batch_from conv js of (ret1, calls1) \<Rightarrow> (ret1, calls @ calls1)))"

definition nv12_to_bgr_batch_libyuv ::
  "(libyuv_call \<Rightarrow> int) \<Rightarrow> int option \<Rightarrow> int \<Rightarrow> int option \<Rightarrow> int \<Rightarrow> int option \<Rightarrow> int \<Rightarrow> int \<Rightarrow> int \<Rightarrow> bool \<Rightarrow> int \<Rightarrow>
   int \<times> libyuv_call list" where
  "nv12_to_bgr_batch_libyuv yuv src_y src_stride_y src_uv src_stride_uv dst_bgr dst_stride width height output_bgr num_frames =
     batch_from (nv12_frame_of_batch yuv src_y src_stride_y src_uv src_stride_uv dst_bgr dst_stride width height output_bgr)
       [0..<nat num_frames]"

section \<open>What the batch converts\<close>

lemma int_mul_exact: "- (2 ^ 31) \<le> a * b \<Longrightarrow> a * b < 2 ^ 31 \<Longrightarrow> int_mul a b = a * b"
  unfolding int_mul_def by (intro signed_take_bit_int_eq_self) simp_all

lemma offset_exact:
  assumes "0 \<le> s" and "0 < h" and "int n * s * h < 2 ^ 31" and "i < n"
  shows "int_mul (int_mul (int i) s) h = int i * (s * h)"
proof -
  have "int i * s * h \<le> int n * s * h" using assms by (intro mult_right_mono) simp_all
  then have b: "int i * s * h < 2 ^ 31" using assms(3) by linarith
  have "int i * s * 1 \<le> int i * s * h" using assms(1,2) by (intro mult_left_mono) simp_all
  then have "int_mul (int i) s = int i * s" using b assms(1) by (intro int_mul_exact) (simp_all add: order_trans [of _ 0])
  moreover have "int_mul (int i * s) h = int i * s * h"
    using b assms(1,2) by (intro int_mul_exact) (simp_all add: order_trans [of _ 0])
  ultimately show ?thesis by (simp add: mult.assoc)
qed

lemma batch_from_ok: "(\<forall>i \<in> set is. conv i = (0, [f i])) \<Longrightarrow> batch_from conv is = (0, map f is)"
  by (induction "is") auto

text \<open>Frame \<open>i\<close> of three arrays of whole frames, the chroma planes of half the height.\<close>

definition frame_call :: "int \<Rightarrow> int \<Rightarrow> int \<Rightarrow> int \<Rightarrow> int \<Rightarrow> int \<Rightarrow> int \<Rightarrow> int \<Rightarrow> bool \<Rightarrow> nat \<Rightarrow> libyuv_call" where
  "frame_call y sy uv suv d ds width height output_bgr i =
     (let p = \<lparr>yp_y = y + int i * (sy * height), yp_stride_y = sy, yp_uv = uv + int i * (suv * (height div 2)),
               yp_stride_uv = suv, yp_dst = d + int i * (ds * height), yp_dst_stride = ds\<rparr>
      in if output_bgr then NV21ToRGB24Matrix p kYvuF709Constants width height
         else NV12ToRGB24Matrix p kYuvF709Constants width height)"

text \<open>a batch of frames with an even height whose arrays are below two gigabytes converts every
  frame once, in order, from its own planes to its own image.\<close>

theorem batch_converts_frames:
  assumes "0 < width" and "0 < height" and "even height" and "0 \<le> sy" and "0 \<le> suv" and "0 \<le> ds"
    and "int n * sy * height < 2 ^ 31" and "int n * suv * height < 2 ^ 31" and "int n * ds * height < 2 ^ 31"
    and "\<forall>call. yuv call = 0"
  shows "nv12_to_bgr_batch_libyuv yuv (Some y) sy (Some uv) suv (Some d) ds width height output_bgr (int n) =
    (0, map (frame_call y sy uv suv d ds width height output_bgr) [0..<n])"
proof -
  obtain k where k: "height = 2 * k" using assms(3) by (rule evenE)
  have half: "int i * (suv * height) sdiv 2 = int i * (suv * (height div 2))" for i
  proof -
    have "int i * (suv * height) = (int i * (suv * k)) * 2" using k by simp
    then show ?thesis using k assms(2,5)
      by (cases "suv = 0"; cases "i = 0") (simp_all add: signed_divide_int_def sgn_mult abs_mult)
  qed
  have "nv12_frame_of_batch yuv (Some y) sy (Some uv) suv (Some d) ds width height output_bgr i =
      (0, [frame_call y sy uv suv d ds width height output_bgr i])" if "i < n" for i
    using offset_exact [OF assms(4,2,7) that] offset_exact [OF assms(5,2,8) that] offset_exact [OF assms(6,2,9) that]
      assms(1,2,10)
    by (simp add: nv12_frame_of_batch_def nv12_to_bgr_bt709_libyuv_def given_planes_def half frame_call_def Let_def)
  then show ?thesis by (simp add: nv12_to_bgr_batch_libyuv_def batch_from_ok)
qed

theorem batch_converts_frames_witness:
  "nv12_to_bgr_batch_libyuv (\<lambda>_. 0) (Some 0) 4 (Some 1000) 4 (Some 2000) 12 4 2 True 3 =
    (0, map (frame_call 0 4 1000 4 2000 12 4 2 True) [0, 1, 2])"
  using batch_converts_frames [of 4 2 4 4 12 3 "\<lambda>_. 0" 0 1000 2000 True] by (simp add: upt_rec numeral_2_eq_2)

text \<open>with an odd height the second frame's chroma plane is read from half a row before its start.\<close>

theorem batch_odd_height:
  assumes "int_mul suv height = suv * height" and "0 < suv" and "even suv" and "0 < height" and "odd height"
    and "0 < width" and "int_mul 1 suv = suv"
  shows "\<exists>p. snd (nv12_frame_of_batch yuv (Some y) sy (Some uv) suv (Some d) ds width height True 1) =
      [NV21ToRGB24Matrix p kYvuF709Constants width height] \<and>
    yp_uv p = uv + suv * ((height + 1) div 2) - suv div 2"
proof -
  obtain k where k: "height = 2 * k + 1" using assms(5) by (rule oddE)
  obtain m where m: "suv = 2 * m" using assms(3) by (rule evenE)
  have "suv * height = (m * height) * 2" using m by simp
  then have "suv * height sdiv 2 = m * height" using assms(2,4) m
    by (simp add: signed_divide_int_def sgn_mult abs_mult)
  moreover have "m * height = suv * ((height + 1) div 2) - suv div 2" using k m by (simp add: algebra_simps)
  ultimately show ?thesis using assms
    by (simp add: nv12_frame_of_batch_def nv12_to_bgr_bt709_libyuv_def given_planes_def Let_def)
qed

theorem batch_odd_height_witness:
  "\<exists>p. snd (nv12_frame_of_batch (\<lambda>_. 0) (Some 0) 4 (Some 100) 4 (Some 200) 12 4 3 True 1) =
      [NV21ToRGB24Matrix p kYvuF709Constants 4 3] \<and> yp_uv p = 106"
  using batch_odd_height [of 4 3 4 "\<lambda>_. 0" 0 4 100 200 12] by (simp add: int_mul_exact)

text \<open>the image of frame 87 of a batch in 4K lies more than two gigabytes into the destination, and the
  conversion writes before its start.\<close>

theorem batch_offset_wraps:
  "\<exists>p. snd (nv12_frame_of_batch yuv (Some y) 3840 (Some uv) 3840 (Some d) 11520 3840 2160 True 87) =
      [NV21ToRGB24Matrix p kYvuF709Constants 3840 2160] \<and> yp_dst p < d"
  by (simp add: nv12_frame_of_batch_def nv12_to_bgr_bt709_libyuv_def given_planes_def int_mul_def
      signed_take_bit_int_eq_self signed_take_bit_eq_if_negative signed_take_bit_def Let_def mask_eq_exp_minus_1 not_int_def)

end
