(* ===== verification/RecorderStore.thy ===== *)
theory RecorderStore
  imports Protocol CText Nal
begin

text \<open>
  The segment files of the compressed recorder (\<open>stream_server/src/compressed_recorder.c\<close>):
  its objects, the storage checks, the parameter set cache, IDR requests, and opening,
  writing and closing a segment. What the file system answers while one event is processed is
  a \<open>rec_env\<close>; the disk, the open FILE handles and the IDR callbacks made are recorded next
  to the recorder itself in \<open>rec_state\<close>.
\<close>

section \<open>Constants and objects\<close>

definition DEFAULT_SEGMENT_SEC :: u32 where "DEFAULT_SEGMENT_SEC = 1800"
definition DEFAULT_IDR_INTERVAL_SEC :: u32 where "DEFAULT_IDR_INTERVAL_SEC = 30"
definition DEFAULT_QUEUE_BYTES :: nat where "DEFAULT_QUEUE_BYTES = 256 * 1024 * 1024"
definition PARAM_SET_LIMIT :: nat where "PARAM_SET_LIMIT = 1024 * 1024"
definition PERIODIC_IDR_MIN_GAP_NS :: u64 where "PERIODIC_IDR_MIN_GAP_NS = 2 * 1000 * 1000 * 1000"
definition NFS_MOUNT_CHECK_INTERVAL_NS :: u64 where "NFS_MOUNT_CHECK_INTERVAL_NS = 1000 * 1000 * 1000"
definition NFS_MOUNT_LOG_INTERVAL_NS :: u64 where "NFS_MOUNT_LOG_INTERVAL_NS = 10 * 1000 * 1000 * 1000"
definition PATH_MAX :: nat where "PATH_MAX = 4096"

definition kStartCode4 :: "u8 list" where "kStartCode4 = [0, 0, 0, 1]"

datatype RecorderEventType = REC_EVENT_STREAM_START | REC_EVENT_VIDEO | REC_EVENT_STREAM_STOP

record RecorderEvent =
  ev_type :: RecorderEventType
  ev_stream_id :: u16
  ev_wall_ms :: u64
  ev_mono_ns :: u64
  ev_info :: StreamInfo
  ev_data :: "u8 list"

text \<open>A parameter set is None while its pointer is NULL. \<open>rs_fp\<close> is the path a FILE was opened at.\<close>

record RecorderStream =
  rs_stream_id :: u16
  rs_enabled :: bool
  rs_active :: bool
  rs_codec :: u32
  rs_ext :: string
  rs_waiting_keyframe :: bool
  rs_rollover_pending :: bool
  rs_fp :: "string option"
  rs_tmp_path :: string
  rs_final_path :: string
  rs_segment_start_wall_ms :: u64
  rs_segment_start_mono_ns :: u64
  rs_bytes_written :: u64
  rs_packets_written :: u64
  rs_params :: "u8 list option list"
  rs_last_idr_request_ns :: u64
  rs_next_periodic_idr_ns :: u64
  rs_idr_request_count :: u32

definition zero_stream :: RecorderStream where
  "zero_stream = \<lparr>rs_stream_id = 0, rs_enabled = False, rs_active = False, rs_codec = 0,
     rs_ext = [], rs_waiting_keyframe = False, rs_rollover_pending = False, rs_fp = None,
     rs_tmp_path = [], rs_final_path = [], rs_segment_start_wall_ms = 0,
     rs_segment_start_mono_ns = 0, rs_bytes_written = 0, rs_packets_written = 0,
     rs_params = [None, None, None], rs_last_idr_request_ns = 0, rs_next_periodic_idr_ns = 0,
     rs_idr_request_count = 0\<rparr>"

text \<open>The linked list \<open>head .. tail\<close> of events is \<open>cr_queue\<close>; a NULL callback is False.\<close>

record CompressedRecorder =
  cr_configured :: bool
  cr_running :: bool
  cr_accepting :: bool
  cr_record_dir :: string
  cr_raw_dir :: string
  cr_max_streams :: u16
  cr_segment_sec :: u32
  cr_idr_interval_sec :: u32
  cr_queue_limit_bytes :: nat
  cr_require_nfs_mount :: bool
  cr_nfs_mounted :: bool
  cr_last_mount_check_ns :: u64
  cr_last_mount_log_ns :: u64
  cr_enabled_streams :: "nat \<Rightarrow> bool"
  cr_streams :: "nat \<Rightarrow> RecorderStream"
  cr_queue :: "RecorderEvent list"
  cr_queued_bytes :: nat
  cr_queued_events :: u64
  cr_dropped_packets :: u64
  cr_dropped_bytes :: u64
  cr_mount_skipped_packets :: u64
  cr_write_errors :: u64
  cr_segments_closed :: u64
  cr_request_idr :: bool

text \<open>The recorder and the world around it: the disk, the open handles, the callbacks made.\<close>

record rec_state = CompressedRecorder +
  rw_files :: "string \<Rightarrow> u8 list option"
  rw_open :: "string list"
  rw_idrs :: "(u16 \<times> string) list"

record tm =
  tm_year :: nat
  tm_mon :: nat
  tm_mday :: nat
  tm_hour :: nat
  tm_min :: nat
  tm_sec :: nat

text \<open>
  The answers of one event: the entries (type, directory) of \<open>/proc/mounts\<close>, whether \<open>mkdir\<close>
  makes or finds a directory, local time, whether \<open>fopen\<close> succeeds, how many bytes \<open>fwrite\<close>
  takes at a position, whether \<open>fclose\<close> fails and then what reached the disk, whether \<open>rename\<close>
  and \<open>unlink\<close> succeed, whether \<open>malloc\<close> does, and the clock read after an error.
\<close>

record rec_env =
  re_mounts :: "(string \<times> string) list"
  re_mkdir :: "string \<Rightarrow> bool"
  re_localtime :: "u64 \<Rightarrow> tm"
  re_fopen :: "string \<Rightarrow> bool"
  re_fwrite :: "nat \<Rightarrow> nat \<Rightarrow> nat"
  re_fclose :: "string \<Rightarrow> nat option"
  re_rename :: "string \<Rightarrow> bool"
  re_unlink :: "string \<Rightarrow> bool"
  re_param_ok :: bool
  re_now :: u64

abbreviation strm :: "rec_state \<Rightarrow> nat \<Rightarrow> RecorderStream" where
  "strm r i \<equiv> cr_streams r i"

definition set_strm :: "nat \<Rightarrow> RecorderStream \<Rightarrow> rec_state \<Rightarrow> rec_state" where
  "set_strm i s r = r\<lparr>cr_streams := (cr_streams r)(i := s)\<rparr>"

section \<open>Counters\<close>

definition recorder_note_write_error :: "rec_state \<Rightarrow> rec_state" where
  "recorder_note_write_error r =
     (if \<not> cr_configured r then r else r\<lparr>cr_write_errors := cr_write_errors r + 1\<rparr>)"

definition recorder_note_mount_skip :: "rec_state \<Rightarrow> rec_state" where
  "recorder_note_mount_skip r =
     (if \<not> cr_configured r then r
      else r\<lparr>cr_mount_skipped_packets := cr_mount_skipped_packets r + 1\<rparr>)"

definition recorder_note_segment_closed :: "rec_state \<Rightarrow> rec_state" where
  "recorder_note_segment_closed r =
     (if \<not> cr_configured r then r else r\<lparr>cr_segments_closed := cr_segments_closed r + 1\<rparr>)"

section \<open>Directories and mounts\<close>

text \<open>The strings \<open>mkdir_p\<close> passes to \<open>mkdir\<close> before the last: cut before each inner slash.\<close>

definition mkdir_prefixes :: "string \<Rightarrow> string list" where
  "mkdir_prefixes tmp =
     map (\<lambda>i. take i tmp) (filter (\<lambda>i. tmp ! i = CHR ''/'') [1..<length tmp])"

definition mkdir_p :: "rec_env \<Rightarrow> string \<Rightarrow> int" where
  "mkdir_p e path =
     (if path = [] then - 1
      else
        let tmp0 = snprintf_s PATH_MAX path;
            tmp = (if last tmp0 = CHR ''/'' then butlast tmp0 else tmp0)
        in if \<not> list_all (re_mkdir e) (mkdir_prefixes tmp) then - 1
           else if \<not> re_mkdir e tmp then - 1
           else 0)"

text \<open>A length without the trailing slashes, but at least one character.\<close>

fun trimmed_len :: "string \<Rightarrow> nat \<Rightarrow> nat" where
  "trimmed_len s (Suc (Suc n)) =
     (if s ! Suc n = CHR ''/'' then trimmed_len s (Suc n) else Suc (Suc n))"
| "trimmed_len s n = n"

definition path_is_under_mountpoint :: "string \<Rightarrow> string \<Rightarrow> bool" where
  "path_is_under_mountpoint path mountpoint =
     (if path = [] \<or> mountpoint = [] then False
      else
        let path_len = trimmed_len path (length path);
            mount_len = trimmed_len mountpoint (length mountpoint)
        in if mount_len = 1 \<and> mountpoint ! 0 = CHR ''/'' then path ! 0 = CHR ''/''
           else if path_len < mount_len then False
           else if take mount_len path \<noteq> take mount_len mountpoint then False
           else path_len = mount_len \<or> path ! mount_len = CHR ''/'')"

definition path_has_nfs_mount :: "rec_env \<Rightarrow> string \<Rightarrow> bool" where
  "path_has_nfs_mount e path =
     (if path = [] then False
      else list_ex (\<lambda>(typ, dir). (typ = ''nfs'' \<or> typ = ''nfs4'') \<and> path_is_under_mountpoint path dir)
             (re_mounts e))"

definition recorder_storage_available :: "rec_env \<Rightarrow> u64 \<Rightarrow> rec_state \<Rightarrow> bool \<times> rec_state" where
  "recorder_storage_available e now_ns r =
     (if \<not> cr_require_nfs_mount r then (True, r)
      else if cr_nfs_mounted r then (True, r)
      else
        let r1 = (if cr_last_mount_check_ns r = 0 \<or>
                     now_ns - cr_last_mount_check_ns r \<ge> NFS_MOUNT_CHECK_INTERVAL_NS
                  then r\<lparr>cr_last_mount_check_ns := now_ns,
                         cr_nfs_mounted := path_has_nfs_mount e (cr_record_dir r)\<rparr>
                  else r)
        in (cr_nfs_mounted r1, r1))"

definition recorder_skip_unmounted :: "nat \<Rightarrow> u64 \<Rightarrow> rec_state \<Rightarrow> rec_state" where
  "recorder_skip_unmounted i now_ns r =
     (let r1 = recorder_note_mount_skip r;
          r2 = set_strm i (strm r1 i\<lparr>rs_waiting_keyframe := True, rs_rollover_pending := False\<rparr>) r1
      in if \<not> cr_require_nfs_mount r2 then r2
         else if cr_last_mount_log_ns r2 = 0 \<or>
                 now_ns - cr_last_mount_log_ns r2 \<ge> NFS_MOUNT_LOG_INTERVAL_NS
         then r2\<lparr>cr_last_mount_log_ns := now_ns\<rparr>
         else r2)"

definition recorder_recheck_mount_after_error :: "u64 \<Rightarrow> rec_state \<Rightarrow> rec_state" where
  "recorder_recheck_mount_after_error now_ns r =
     (if \<not> cr_require_nfs_mount r then r
      else r\<lparr>cr_last_mount_check_ns := now_ns, cr_nfs_mounted := False\<rparr>)"

section \<open>Codecs and parameter sets\<close>

definition codec_supported :: "u32 \<Rightarrow> bool" where
  "codec_supported codec \<longleftrightarrow> codec = 0 \<or> codec = 1"

definition codec_ext :: "u32 \<Rightarrow> string" where
  "codec_ext codec = (if codec = 0 then ''h264'' else if codec = 1 then ''hevc'' else ''bin'')"

definition free_param_sets :: "RecorderStream \<Rightarrow> RecorderStream" where
  "free_param_sets s = s\<lparr>rs_params := [None, None, None]\<rparr>"

definition reset_stream_file_state :: "RecorderStream \<Rightarrow> RecorderStream" where
  "reset_stream_file_state s = s\<lparr>rs_fp := None, rs_tmp_path := [], rs_final_path := [],
     rs_segment_start_wall_ms := 0, rs_segment_start_mono_ns := 0, rs_bytes_written := 0,
     rs_packets_written := 0, rs_waiting_keyframe := True, rs_rollover_pending := False,
     rs_last_idr_request_ns := 0, rs_next_periodic_idr_ns := 0, rs_idr_request_count := 0\<rparr>"

text \<open>The length of a parameter set; NULL has length 0.\<close>

definition param_len :: "RecorderStream \<Rightarrow> nat \<Rightarrow> nat" where
  "param_len s i = (case rs_params s ! i of None \<Rightarrow> 0 | Some d \<Rightarrow> length d)"

definition params_ready :: "RecorderStream \<Rightarrow> bool" where
  "params_ready s =
     (if rs_codec s = 0 then param_len s 0 > 0 \<and> param_len s 1 > 0
      else if rs_codec s = 1 then param_len s 0 > 0 \<and> param_len s 1 > 0 \<and> param_len s 2 > 0
      else False)"

definition cache_param_set :: "bool \<Rightarrow> nat \<Rightarrow> u8 list \<Rightarrow> RecorderStream \<Rightarrow> RecorderStream" where
  "cache_param_set alloc_ok index nal s =
     (if index \<ge> 3 \<or> length nal = 0 \<or> length nal > PARAM_SET_LIMIT then s
      else if rs_params s ! index = Some (kStartCode4 @ nal) then s
      else if \<not> alloc_ok then s
      else s\<lparr>rs_params := (rs_params s)[index := Some (kStartCode4 @ nal)]\<rparr>)"

text \<open>
  \<open>analyze_nal\<close> and \<open>analyze_payload\<close>: the stream with the parameter sets cached, and
  \<open>has_keyframe\<close>.
\<close>

definition analyze_nal :: "bool \<Rightarrow> u8 list \<Rightarrow> RecorderStream \<times> bool \<Rightarrow> RecorderStream \<times> bool" where
  "analyze_nal alloc_ok nal p = (case p of (s, key) \<Rightarrow>
     if length nal = 0 then (s, key)
     else if rs_codec s = 0 then
       let nal_type = nal ! 0 AND 0x1F in
       if nal_type = 7 then (cache_param_set alloc_ok 0 nal s, key)
       else if nal_type = 8 then (cache_param_set alloc_ok 1 nal s, key)
       else if nal_type = 5 then (s, True)
       else (s, key)
     else if rs_codec s = 1 \<and> length nal \<ge> 2 then
       let nal_type = drop_bit 1 (nal ! 0) AND 0x3F in
       if nal_type = 32 then (cache_param_set alloc_ok 0 nal s, key)
       else if nal_type = 33 then (cache_param_set alloc_ok 1 nal s, key)
       else if nal_type = 34 then (cache_param_set alloc_ok 2 nal s, key)
       else if (nal_type \<ge> 16 \<and> nal_type \<le> 18) \<or> nal_type = 19 \<or> nal_type = 20 \<or> nal_type = 21
       then (s, True)
       else (s, key)
     else (s, key))"

text \<open>The zero bytes at the end of a NAL are cut off.\<close>

definition cut_zeros :: "u8 list \<Rightarrow> u8 list" where
  "cut_zeros nal = rev (dropWhile (\<lambda>b. b = 0) (rev nal))"

lemma find_start_code_bounds:
  "find_start_code data i = Some (pos, n) \<Longrightarrow> i \<le> pos \<and> 3 \<le> n \<and> pos + n \<le> length data"
proof (induction data i rule: find_start_code.induct)
  case (1 data i)
  show ?case
  proof (cases "i + 3 \<le> length data")
    case True
    show ?thesis
    proof (cases "start_code_len_at data i > 0")
      case pos: True
      then show ?thesis
        using 1(2) True by (subst (asm) find_start_code.simps)
          (auto simp: start_code_len_at_def split: if_splits)
    next
      case False
      then have "find_start_code data (i + 1) = Some (pos, n)"
        using 1(2) True by (subst (asm) find_start_code.simps) simp
      then show ?thesis using 1(1) [OF True refl False] by simp
    qed
  next
    case False
    then show ?thesis using 1(2) by (subst (asm) find_start_code.simps) simp
  qed
qed

text \<open>The loop of \<open>analyze_payload\<close>, from the first byte behind a start code.\<close>

function analyze_from ::
  "bool \<Rightarrow> u8 list \<Rightarrow> nat \<Rightarrow> RecorderStream \<times> bool \<Rightarrow> RecorderStream \<times> bool" where
  "analyze_from alloc_ok data nal_start p =
     (let nxt = find_start_code data nal_start;
          nal_end = (case nxt of None \<Rightarrow> length data | Some (n, _) \<Rightarrow> n);
          nal = cut_zeros (take (nal_end - nal_start) (drop nal_start data));
          p1 = (if nal \<noteq> [] then analyze_nal alloc_ok nal p else p)
      in case nxt of
           None \<Rightarrow> p1
         | Some (n, next_sc_len) \<Rightarrow> analyze_from alloc_ok data (n + next_sc_len) p1)"
  by pat_completeness auto
termination
proof (relation "measure (\<lambda>(a, d, st, p). Suc (length d) - st)", goal_cases)
  case (2 alloc_ok data nal_start p nxt nal_end nal p1 x n l)
  then have "find_start_code data nal_start = Some (n, l)" by simp
  from find_start_code_bounds [OF this] show ?case by simp linarith
qed simp

declare analyze_from.simps [simp del]

definition analyze_payload :: "bool \<Rightarrow> u8 list \<Rightarrow> RecorderStream \<Rightarrow> RecorderStream \<times> bool" where
  "analyze_payload alloc_ok data s =
     (if length data = 0 then (s, False)
      else case find_start_code data 0 of
             None \<Rightarrow> analyze_nal alloc_ok data (s, False)
           | Some (pos, sc_len) \<Rightarrow> analyze_from alloc_ok data (pos + sc_len) (s, False))"

section \<open>Writing\<close>

definition file_at :: "rec_state \<Rightarrow> string \<Rightarrow> u8 list" where
  "file_at r path = (case rw_files r path of None \<Rightarrow> [] | Some c \<Rightarrow> c)"

text \<open>\<open>fwrite\<close> appends what it takes; the result is the number of bytes taken.\<close>

definition fwrite :: "rec_env \<Rightarrow> string \<Rightarrow> u8 list \<Rightarrow> rec_state \<Rightarrow> nat \<times> rec_state" where
  "fwrite e path data r =
     (let c = file_at r path;
          k = min (re_fwrite e (length c) (length data)) (length data)
      in (k, r\<lparr>rw_files := (rw_files r)(path \<mapsto> c @ take k data)\<rparr>))"

definition write_all :: "rec_env \<Rightarrow> string option \<Rightarrow> u8 list \<Rightarrow> rec_state \<Rightarrow> int \<times> rec_state" where
  "write_all e fp data r = (case fp of None \<Rightarrow> (0, r) | Some path \<Rightarrow>
     if length data = 0 then (0, r)
     else (case fwrite e path data r of (k, r') \<Rightarrow> (if k = length data then 0 else - 1, r')))"

definition write_payload_annexb :: "rec_env \<Rightarrow> string option \<Rightarrow> u8 list \<Rightarrow> rec_state \<Rightarrow> int \<times> rec_state" where
  "write_payload_annexb e fp data r =
     (if fp = None \<or> length data = 0 then (0, r)
      else if payload_has_start_code data then write_all e fp data r
      else (case write_all e fp kStartCode4 r of (rc, r1) \<Rightarrow>
              if rc < 0 then (- 1, r1) else write_all e fp data r1))"

fun write_sets :: "rec_env \<Rightarrow> string option \<Rightarrow> u8 list option list \<Rightarrow> rec_state \<Rightarrow> int \<times> rec_state" where
  "write_sets e fp [] r = (0, r)"
| "write_sets e fp (None # ps) r = write_sets e fp ps r"
| "write_sets e fp (Some d # ps) r =
     (if length d > 0 then
        (case write_all e fp d r of (rc, r1) \<Rightarrow> if rc < 0 then (- 1, r1) else write_sets e fp ps r1)
      else write_sets e fp ps r)"

definition write_param_sets :: "rec_env \<Rightarrow> string option \<Rightarrow> RecorderStream \<Rightarrow> rec_state \<Rightarrow> int \<times> rec_state" where
  "write_param_sets e fp s r =
     (if fp = None then (- 1, r)
      else write_sets e fp (take (if rs_codec s = 1 then 3 else 2) (rs_params s)) r)"

section \<open>Segments\<close>

text \<open>\<open>%02u\<close>, and the stamp \<open>strftime\<close> makes of a broken-down time.\<close>

definition pad2 :: "nat \<Rightarrow> string" where
  "pad2 n = (if n < 10 then ''0'' @ show_nat n else show_nat n)"

definition stamp :: "tm \<Rightarrow> string" where
  "stamp t = show_nat (tm_year t) @ pad2 (tm_mon t) @ pad2 (tm_mday t) @ ''_'' @
     pad2 (tm_hour t) @ pad2 (tm_min t) @ pad2 (tm_sec t)"

definition format_segment_paths ::
  "rec_env \<Rightarrow> string \<Rightarrow> u64 \<Rightarrow> RecorderStream \<Rightarrow> int \<times> RecorderStream" where
  "format_segment_paths e raw_dir wall_ms s =
     (let dir = raw_dir @ ''/s'' @ pad2 (unat (rs_stream_id s)) in
      if length dir \<ge> PATH_MAX then (- 1, s)
      else if mkdir_p e dir \<noteq> 0 then (- 1, s)
      else
        let final = dir @ ''/'' @ stamp (re_localtime e (wall_ms div 1000)) @ ''.'' @ rs_ext s;
            cleared = s\<lparr>rs_final_path := [], rs_tmp_path := []\<rparr>
        in if length final \<ge> PATH_MAX then (- 1, cleared)
           else if length (final @ ''.tmp'') \<ge> PATH_MAX then (- 1, cleared)
           else (0, s\<lparr>rs_final_path := final, rs_tmp_path := final @ ''.tmp''\<rparr>))"

text \<open>
  \<open>fclose\<close> that fails leaves \<open>k\<close> bytes on the disk. Whether \<open>rename\<close> and \<open>unlink\<close> succeed is
  the environment's answer for the path.
\<close>

definition fclose :: "rec_env \<Rightarrow> string \<Rightarrow> rec_state \<Rightarrow> int \<times> rec_state" where
  "fclose e path r =
     (let r1 = r\<lparr>rw_open := remove1 path (rw_open r)\<rparr> in
      case re_fclose e path of
        None \<Rightarrow> (0, r1)
      | Some k \<Rightarrow> (- 1, r1\<lparr>rw_files := (rw_files r1)(path \<mapsto> take k (file_at r1 path))\<rparr>))"

definition rename_file :: "string \<Rightarrow> string \<Rightarrow> rec_state \<Rightarrow> rec_state" where
  "rename_file old new r =
     r\<lparr>rw_files := ((rw_files r)(new := rw_files r old))(old := None)\<rparr>"

definition close_segment :: "rec_env \<Rightarrow> nat \<Rightarrow> bool \<Rightarrow> rec_state \<Rightarrow> int \<times> rec_state" where
  "close_segment e i finalize r =
     (let s = strm r i in
      case rs_fp s of None \<Rightarrow> (0, r) | Some path \<Rightarrow>
        (case fclose e path r of (rc0, r0) \<Rightarrow>
         let (rc, r1) =
           (if finalize \<and> rs_tmp_path s \<noteq> [] \<and> rs_final_path s \<noteq> [] then
              (if \<not> re_rename e (rs_tmp_path s) then
                 (- 1, recorder_recheck_mount_after_error (re_now e) (recorder_note_write_error r0))
               else (rc0, recorder_note_segment_closed
                            (rename_file (rs_tmp_path s) (rs_final_path s) r0)))
            else if \<not> finalize \<and> rs_tmp_path s \<noteq> [] \<and> re_unlink e (rs_tmp_path s) then
              (rc0, r0\<lparr>rw_files := (rw_files r0)(rs_tmp_path s := None)\<rparr>)
            else (rc0, r0))
         in (rc, set_strm i (s\<lparr>rs_fp := None, rs_tmp_path := [], rs_final_path := [],
                   rs_segment_start_wall_ms := 0, rs_segment_start_mono_ns := 0,
                   rs_next_periodic_idr_ns := 0, rs_bytes_written := 0,
                   rs_packets_written := 0\<rparr>) r1)))"

section \<open>IDR requests\<close>

definition recorder_backoff_ns :: "bool \<Rightarrow> u32 \<Rightarrow> u64" where
  "recorder_backoff_ns force count =
     (if force then 0 else if count = 0 then 0
      else if count = 1 then 2 * 1000 * 1000 * 1000
      else if count = 2 then 5 * 1000 * 1000 * 1000
      else 10 * 1000 * 1000 * 1000)"

definition recorder_request_idr :: "nat \<Rightarrow> string \<Rightarrow> u64 \<Rightarrow> bool \<Rightarrow> rec_state \<Rightarrow> rec_state" where
  "recorder_request_idr i reason now_ns force r =
     (let s = strm r i in
      if \<not> cr_request_idr r then r
      else if \<not> force \<and> rs_last_idr_request_ns s \<noteq> 0 \<and>
              now_ns - rs_last_idr_request_ns s < recorder_backoff_ns force (rs_idr_request_count s)
      then r
      else set_strm i (s\<lparr>rs_last_idr_request_ns := now_ns,
                         rs_idr_request_count := rs_idr_request_count s + 1\<rparr>)
             (r\<lparr>rw_idrs := rw_idrs r @ [(rs_stream_id s, reason)]\<rparr>))"

definition recorder_idr_request_recent :: "RecorderStream \<Rightarrow> u64 \<Rightarrow> u64 \<Rightarrow> bool" where
  "recorder_idr_request_recent s now_ns gap_ns \<longleftrightarrow>
     rs_last_idr_request_ns s \<noteq> 0 \<and> now_ns \<ge> rs_last_idr_request_ns s \<and>
     now_ns - rs_last_idr_request_ns s < gap_ns"

definition recorder_idr_interval_ns :: "u32 \<Rightarrow> u64" where
  "recorder_idr_interval_ns idr_interval_sec =
     (if idr_interval_sec = 0 then 0 else ucast idr_interval_sec * 1000 * 1000 * 1000)"

definition recorder_periodic_idr_offset_ns :: "u32 \<Rightarrow> u16 \<Rightarrow> u16 \<Rightarrow> u64" where
  "recorder_periodic_idr_offset_ns idr_interval_sec max_streams stream_id =
     (let interval_ns = recorder_idr_interval_ns idr_interval_sec in
      if interval_ns = 0 then 0
      else
        let spread = (if max_streams > 0 then max_streams else 1);
            index = (if stream_id > 0 then stream_id - 1 else 0)
        in (ucast index * interval_ns) div ucast spread)"

text \<open>
  The loops that step a deadline by whole intervals, over the values as numbers; the bounds
  below show that with a clock under \<open>2 ^ 63\<close> ns no addition leaves 64 bits.
\<close>

function step_until :: "nat \<Rightarrow> nat \<Rightarrow> nat \<Rightarrow> nat" where
  "step_until interval bound nxt =
     (if 0 < interval \<and> nxt < bound then step_until interval bound (nxt + interval) else nxt)"
  by pat_completeness auto
termination
  by (relation "measure (\<lambda>(i, b, n). b - n)") auto

declare step_until.simps [simp del]

definition recorder_next_periodic_idr_ns :: "u32 \<Rightarrow> u16 \<Rightarrow> u16 \<Rightarrow> u64 \<Rightarrow> u64" where
  "recorder_next_periodic_idr_ns idr_interval_sec max_streams stream_id now_ns =
     (let interval_ns = recorder_idr_interval_ns idr_interval_sec in
      if interval_ns = 0 then 0
      else
        let offset_ns = recorder_periodic_idr_offset_ns idr_interval_sec max_streams stream_id;
            base_ns = (now_ns div interval_ns) * interval_ns;
            next_ns = base_ns + offset_ns;
            min_next_ns = now_ns + PERIODIC_IDR_MIN_GAP_NS
        in of_nat (step_until (unat interval_ns) (unat min_next_ns) (unat next_ns)))"

abbreviation next_periodic :: "rec_state \<Rightarrow> RecorderStream \<Rightarrow> u64 \<Rightarrow> u64" where
  "next_periodic r s now_ns \<equiv>
     recorder_next_periodic_idr_ns (cr_idr_interval_sec r) (cr_max_streams r) (rs_stream_id s) now_ns"

definition recorder_maybe_request_periodic_idr :: "nat \<Rightarrow> u64 \<Rightarrow> rec_state \<Rightarrow> rec_state" where
  "recorder_maybe_request_periodic_idr i now_ns r =
     (let interval_ns = recorder_idr_interval_ns (cr_idr_interval_sec r); s = strm r i in
      if interval_ns = 0 \<or> rs_fp s = None \<or> rs_waiting_keyframe s \<or> rs_rollover_pending s then r
      else
        let s1 = (if rs_next_periodic_idr_ns s = 0
                  then s\<lparr>rs_next_periodic_idr_ns := next_periodic r s now_ns\<rparr> else s);
            r1 = set_strm i s1 r
        in if rs_next_periodic_idr_ns s1 = 0 \<or> now_ns < rs_next_periodic_idr_ns s1 then r1
           else if recorder_idr_request_recent s1 now_ns PERIODIC_IDR_MIN_GAP_NS then
             set_strm i (s1\<lparr>rs_next_periodic_idr_ns := next_periodic r1 s1 now_ns\<rparr>) r1
           else
             let r2 = recorder_request_idr i ''record_periodic'' now_ns True r1;
                 s2 = strm r2 i
             in set_strm i (s2\<lparr>rs_next_periodic_idr_ns :=
                  of_nat (step_until (unat interval_ns) (unat now_ns + 1)
                            (unat (rs_next_periodic_idr_ns s2) + unat interval_ns))\<rparr>) r2)"

section \<open>Opening a segment and writing to it\<close>

definition open_segment :: "rec_env \<Rightarrow> nat \<Rightarrow> u64 \<Rightarrow> u64 \<Rightarrow> rec_state \<Rightarrow> int \<times> rec_state" where
  "open_segment e i wall_ms mono_ns r =
     (case format_segment_paths e (cr_raw_dir r) wall_ms (strm r i) of (rc, s1) \<Rightarrow>
      let r1 = set_strm i s1 r in
      if rc \<noteq> 0 then
        (- 1, recorder_recheck_mount_after_error mono_ns (recorder_note_write_error r1))
      else if \<not> re_fopen e (rs_tmp_path s1) then
        (- 1, recorder_recheck_mount_after_error mono_ns
                (recorder_note_write_error (set_strm i (s1\<lparr>rs_fp := None\<rparr>) r1)))
      else
        (0, set_strm i (s1\<lparr>rs_fp := Some (rs_tmp_path s1), rs_segment_start_wall_ms := wall_ms,
               rs_segment_start_mono_ns := mono_ns, rs_bytes_written := 0,
               rs_packets_written := 0, rs_waiting_keyframe := False,
               rs_rollover_pending := False,
               rs_next_periodic_idr_ns := next_periodic r s1 mono_ns,
               rs_idr_request_count := 0\<rparr>)
             (r1\<lparr>rw_files := (rw_files r1)(rs_tmp_path s1 \<mapsto> []),
                 rw_open := rs_tmp_path s1 # rw_open r1\<rparr>)))"

definition write_segment_packet :: "rec_env \<Rightarrow> nat \<Rightarrow> u8 list \<Rightarrow> rec_state \<Rightarrow> int \<times> rec_state" where
  "write_segment_packet e i data r =
     (let s = strm r i in
      if rs_fp s = None then (- 1, r)
      else (case write_payload_annexb e (rs_fp s) data r of (rc, r1) \<Rightarrow>
        if rc < 0 then
          (- 1, recorder_recheck_mount_after_error (re_now e) (recorder_note_write_error r1))
        else
          (0, set_strm i (s\<lparr>rs_bytes_written := rs_bytes_written s + of_nat (length data) +
                    (if payload_has_start_code data then 0 else 4),
                  rs_packets_written := rs_packets_written s + 1\<rparr>) r1)))"

definition should_rollover :: "u32 \<Rightarrow> RecorderStream \<Rightarrow> u64 \<Rightarrow> bool" where
  "should_rollover segment_sec s wall_ms =
     (if rs_fp s = None \<or> segment_sec = 0 \<or> rs_segment_start_wall_ms s = 0 then False
      else wall_ms - rs_segment_start_wall_ms s \<ge> ucast segment_sec * 1000)"

section \<open>What the analysis depends on\<close>

text \<open>The parameter sets and the keyframe flag depend on the codec and the sets alone.\<close>

definition probe :: "u32 \<Rightarrow> u8 list option list \<Rightarrow> RecorderStream" where
  "probe codec ps = zero_stream\<lparr>rs_codec := codec, rs_params := ps\<rparr>"

lemma probe_simps [simp]: "rs_codec (probe c ps) = c" "rs_params (probe c ps) = ps"
  by (simp_all add: probe_def)

definition on_params :: "(RecorderStream \<times> bool \<Rightarrow> RecorderStream \<times> bool) \<Rightarrow> bool" where
  "on_params f \<longleftrightarrow> (\<forall>s k. f (s, k) =
     (s\<lparr>rs_params := rs_params (fst (f (probe (rs_codec s) (rs_params s), k)))\<rparr>,
      snd (f (probe (rs_codec s) (rs_params s), k))) \<and>
     length (rs_params (fst (f (s, k)))) = length (rs_params s))"

lemma cache_param_set_params:
  "cache_param_set ok n nal s =
     s\<lparr>rs_params := rs_params (cache_param_set ok n nal (probe (rs_codec s) (rs_params s)))\<rparr>"
  "length (rs_params (cache_param_set ok n nal s)) = length (rs_params s)"
  by (auto simp: cache_param_set_def)

text \<open>The set a NAL unit is cached in, if any, and whether it is a keyframe slice.\<close>

definition nal_action :: "u32 \<Rightarrow> u8 list \<Rightarrow> nat option \<times> bool" where
  "nal_action codec nal =
     (if nal = [] then (None, False)
      else if codec = 0 then
        (let t = unat (nal ! 0 AND 0x1F) in
         (if t = 7 then Some 0 else if t = 8 then Some 1 else None, t = 5))
      else if codec = 1 \<and> length nal \<ge> 2 then
        (let t = unat (drop_bit 1 (nal ! 0) AND 0x3F) in
         (if t = 32 then Some 0 else if t = 33 then Some 1 else if t = 34 then Some 2 else None,
          16 \<le> t \<and> t \<le> 21))
      else (None, False))"

lemma analyze_nal_action:
  "analyze_nal ok nal (s, k) = (case nal_action (rs_codec s) nal of (idx, key) \<Rightarrow>
     (case idx of None \<Rightarrow> s | Some n \<Rightarrow> cache_param_set ok n nal s, k \<or> key))"
proof -
  consider "nal = []" | "nal \<noteq> []" "rs_codec s = 0" | "nal \<noteq> []" "rs_codec s = 1" "length nal \<ge> 2"
    | "nal \<noteq> []" "rs_codec s \<noteq> 0" "\<not> (rs_codec s = 1 \<and> length nal \<ge> 2)" by blast
  then show ?thesis
  proof cases
    case 2
    define t where "t = nal ! 0 AND 0x1F"
    have num: "t = 7 \<longleftrightarrow> unat t = 7" "t = 8 \<longleftrightarrow> unat t = 8" "t = 5 \<longleftrightarrow> unat t = 5"
      by (simp_all add: word_unat_eq_iff)
    show ?thesis
      using 2 by (simp add: analyze_nal_def nal_action_def Let_def num flip: t_def)
  next
    case 3
    define t where "t = drop_bit (Suc 0) (nal ! 0) AND 0x3F"
    have num: "t = 32 \<longleftrightarrow> unat t = 32" "t = 33 \<longleftrightarrow> unat t = 33" "t = 34 \<longleftrightarrow> unat t = 34"
      "t = 19 \<longleftrightarrow> unat t = 19" "t = 20 \<longleftrightarrow> unat t = 20" "t = 21 \<longleftrightarrow> unat t = 21"
      "16 \<le> t \<longleftrightarrow> 16 \<le> unat t" "t \<le> 18 \<longleftrightarrow> unat t \<le> 18"
      by (simp_all add: word_unat_eq_iff word_le_nat_alt)
    have "(16 \<le> u \<and> u \<le> 18 \<or> u = 19 \<or> u = 20 \<or> u = 21) = (16 \<le> u \<and> u \<le> 21)" for u :: nat
      by arith
    then show ?thesis
      using 3 by (simp add: analyze_nal_def nal_action_def Let_def num flip: t_def) blast
  next
    case 4
    then have "\<not> (rs_codec s = 1 \<and> 2 \<le> length nal)" by blast
    then show ?thesis using 4 unfolding analyze_nal_def nal_action_def by (simp only: if_False prod.case) simp
  qed (simp_all add: analyze_nal_def nal_action_def)
qed

lemma analyze_nal_on_params: "on_params (analyze_nal ok nal)"
  unfolding on_params_def
proof (intro allI conjI)
  fix s :: RecorderStream and k
  obtain idx key where a: "nal_action (rs_codec s) nal = (idx, key)" by force
  show "analyze_nal ok nal (s, k) =
     (s\<lparr>rs_params := rs_params (fst (analyze_nal ok nal (probe (rs_codec s) (rs_params s), k)))\<rparr>,
      snd (analyze_nal ok nal (probe (rs_codec s) (rs_params s), k)))"
  proof (cases idx)
    case None
    then show ?thesis by (simp add: analyze_nal_action a)
  next
    case (Some n)
    have "cache_param_set ok n nal s =
       s\<lparr>rs_params := rs_params (cache_param_set ok n nal (probe (rs_codec s) (rs_params s)))\<rparr>"
      by (rule cache_param_set_params)
    then show ?thesis unfolding analyze_nal_action probe_simps a Some prod.case option.case by simp
  qed
  show "length (rs_params (fst (analyze_nal ok nal (s, k)))) = length (rs_params s)"
    by (simp add: analyze_nal_action a cache_param_set_params(2) split: option.split)
qed

lemma on_params_comp:
  assumes "on_params f" and "on_params g"
  shows "on_params (\<lambda>p. g (f p))"
proof -
  have F: "f (s, k) = (s\<lparr>rs_params := rs_params (fst (f (probe (rs_codec s) (rs_params s), k)))\<rparr>,
      snd (f (probe (rs_codec s) (rs_params s), k)))"
    and L: "length (rs_params (fst (f (s, k)))) = length (rs_params s)" for s :: RecorderStream and k
    using assms(1) unfolding on_params_def by blast+
  have G: "g (s, k) = (s\<lparr>rs_params := rs_params (fst (g (probe (rs_codec s) (rs_params s), k)))\<rparr>,
      snd (g (probe (rs_codec s) (rs_params s), k)))"
    and M: "length (rs_params (fst (g (s, k)))) = length (rs_params s)" for s :: RecorderStream and k
    using assms(2) unfolding on_params_def by blast+
  show ?thesis
    unfolding on_params_def
  proof (intro allI conjI)
    fix s :: RecorderStream and k
    let ?pr = "probe (rs_codec s) (rs_params s)"
    obtain t b where fp: "f (?pr, k) = (t, b)" by force
    have t: "t = ?pr\<lparr>rs_params := rs_params t\<rparr>" using F [of ?pr k] fp by simp
    have pt: "probe (rs_codec s) (rs_params t) = t"
      using t by (simp add: probe_def)
    have fs: "f (s, k) = (s\<lparr>rs_params := rs_params t\<rparr>, b)" using F [of s k] fp by simp
    show "g (f (s, k)) = (s\<lparr>rs_params := rs_params (fst (g (f (?pr, k))))\<rparr>, snd (g (f (?pr, k))))"
      using G [of "s\<lparr>rs_params := rs_params t\<rparr>" b] fs fp pt by simp
    show "length (rs_params (fst (g (f (s, k))))) = length (rs_params s)"
      using M [of "s\<lparr>rs_params := rs_params t\<rparr>" b] L [of s k] fs by simp
  qed
qed

section \<open>The analysis as a walk over NAL units\<close>

function nals_from :: "u8 list \<Rightarrow> nat \<Rightarrow> u8 list list" where
  "nals_from data st =
     (case find_start_code data st of
        None \<Rightarrow> filter (\<lambda>n. n \<noteq> []) [cut_zeros (drop st data)]
      | Some (n, l) \<Rightarrow>
          filter (\<lambda>n. n \<noteq> []) [cut_zeros (take (n - st) (drop st data))] @ nals_from data (n + l))"
  by pat_completeness auto
termination
proof (relation "measure (\<lambda>(d, st). Suc (length d) - st)", goal_cases)
  case (2 data st x n l)
  then have "find_start_code data st = Some (n, l)" by simp
  from find_start_code_bounds [OF this] show ?case by simp linarith
qed simp

declare nals_from.simps [simp del]

text \<open>The NAL units of a payload; one without any start code is a single unit.\<close>

definition nal_units :: "u8 list \<Rightarrow> u8 list list" where
  "nal_units data = (if data = [] then [] else case find_start_code data 0 of
     None \<Rightarrow> [data] | Some (pos, l) \<Rightarrow> nals_from data (pos + l))"

lemma analyze_from_fold: "analyze_from ok data st p = fold (analyze_nal ok) (nals_from data st) p"
proof (induction data st arbitrary: p rule: nals_from.induct)
  case (1 data st)
  show ?case
    using 1 by (subst analyze_from.simps, subst nals_from.simps)
      (auto simp: Let_def split: option.splits prod.splits)
qed

lemma analyze_payload_fold:
  "analyze_payload ok data s = fold (analyze_nal ok) (nal_units data) (s, False)"
  by (auto simp: analyze_payload_def nal_units_def analyze_from_fold split: option.split)

lemma on_params_fold: "on_params (fold (analyze_nal ok) ns)"
proof (induction ns)
  case Nil
  then show ?case by (simp add: on_params_def)
next
  case (Cons n ns)
  have "fold (analyze_nal ok) (n # ns) = (\<lambda>p. fold (analyze_nal ok) ns (analyze_nal ok n p))"
    by (simp add: fun_eq_iff)
  then show ?case using on_params_comp [OF analyze_nal_on_params Cons.IH, of ok n] by simp
qed

lemma analyze_payload_params:
  "analyze_payload ok data s =
     (s\<lparr>rs_params := rs_params (fst (analyze_payload ok data (probe (rs_codec s) (rs_params s))))\<rparr>,
      snd (analyze_payload ok data (probe (rs_codec s) (rs_params s))))"
  "length (rs_params (fst (analyze_payload ok data s))) = length (rs_params s)"
  using on_params_fold [of ok "nal_units data"] unfolding on_params_def analyze_payload_fold by blast+

lemma analyze_payload_frame:
  assumes "analyze_payload ok data s = (s1, key)"
  shows "s1 = s\<lparr>rs_params := rs_params s1\<rparr>" "length (rs_params s1) = length (rs_params s)"
    "analyze_payload ok data (probe (rs_codec s) (rs_params s)) = (probe (rs_codec s) (rs_params s1), key)"
proof -
  let ?p = "probe (rs_codec s) (rs_params s)"
  obtain t b where t: "analyze_payload ok data ?p = (t, b)" by force
  have "t = ?p\<lparr>rs_params := rs_params t\<rparr>"
    using analyze_payload_params(1) [of ok data ?p] t by auto
  then have "t = probe (rs_codec s) (rs_params t)" by (simp add: probe_def)
  moreover have s1: "s1 = s\<lparr>rs_params := rs_params t\<rparr>" "key = b"
    using analyze_payload_params(1) [of ok data s] t assms by simp_all
  ultimately show "analyze_payload ok data ?p = (probe (rs_codec s) (rs_params s1), key)" using t by simp
  show "s1 = s\<lparr>rs_params := rs_params s1\<rparr>" using s1 by simp
  show "length (rs_params s1) = length (rs_params s)"
    using analyze_payload_params(2) [of ok data s] assms by simp
qed

end
