(* ===== verification/Recorder.thy ===== *)
theory Recorder
  imports RecorderStore
begin

text \<open>
  The compressed recorder as a whole (\<open>stream_server/src/compressed_recorder.c\<close>): the handlers
  of the three events, the bounded queue between the server threads and the writer thread,
  the stream selection, start and stop.
\<close>

section \<open>Event handlers\<close>

definition known_stream :: "rec_state \<Rightarrow> u16 \<Rightarrow> bool" where
  "known_stream r sid \<longleftrightarrow> sid \<noteq> 0 \<and> sid \<le> cr_max_streams r"

definition process_stream_start :: "rec_env \<Rightarrow> RecorderEvent \<Rightarrow> rec_state \<Rightarrow> rec_state" where
  "process_stream_start e ev r =
     (if \<not> known_stream r (ev_stream_id ev) then r
      else
        let i = unat (ev_stream_id ev);
            r1 = snd (close_segment e i True r);
            codec = si_codec (ev_info ev);
            s = reset_stream_file_state (zero_stream\<lparr>rs_stream_id := ev_stream_id ev,
                  rs_enabled := cr_enabled_streams r1 i, rs_codec := codec, rs_ext := codec_ext codec\<rparr>)
        in if \<not> rs_enabled s then set_strm i s r1
           else if \<not> codec_supported codec then set_strm i (s\<lparr>rs_enabled := False\<rparr>) r1
           else recorder_request_idr i ''record_start'' (ev_mono_ns ev) True
                  (set_strm i (s\<lparr>rs_active := True\<rparr>) r1))"

definition process_stream_stop :: "rec_env \<Rightarrow> RecorderEvent \<Rightarrow> rec_state \<Rightarrow> rec_state" where
  "process_stream_stop e ev r =
     (if \<not> known_stream r (ev_stream_id ev) then r
      else
        let i = unat (ev_stream_id ev);
            r1 = snd (close_segment e i True r)
        in set_strm i (zero_stream\<lparr>rs_stream_id := ev_stream_id ev\<rparr>) r1)"

text \<open>
  The parameter sets and the packet behind a fresh \<open>open_segment\<close>, as both callers write
  them: a failure discards the segment.
\<close>

definition write_first :: "rec_env \<Rightarrow> nat \<Rightarrow> u8 list \<Rightarrow> rec_state \<Rightarrow> rec_state" where
  "write_first e i data r =
     (case write_param_sets e (rs_fp (strm r i)) (strm r i) r of (rc1, r1) \<Rightarrow>
      case (if rc1 < 0 then (rc1, r1) else write_segment_packet e i data r1) of (rc2, r2) \<Rightarrow>
      if rc2 < 0 then
        (let r3 = snd (close_segment e i False r2)
         in set_strm i (strm r3 i\<lparr>rs_waiting_keyframe := True\<rparr>) r3)
      else r2)"

text \<open>What follows when no segment is opened by this packet.\<close>

definition write_next :: "rec_env \<Rightarrow> nat \<Rightarrow> RecorderEvent \<Rightarrow> rec_state \<Rightarrow> rec_state" where
  "write_next e i ev r =
     (let r1 = recorder_maybe_request_periodic_idr i (ev_mono_ns ev) r in
      if rs_fp (strm r1 i) = None then r1
      else (case write_segment_packet e i (ev_data ev) r1 of (rc, r2) \<Rightarrow>
        if rc < 0 then
          (let r3 = snd (close_segment e i False r2);
               r4 = set_strm i (strm r3 i\<lparr>rs_waiting_keyframe := True\<rparr>) r3
           in recorder_request_idr i ''record_write_error'' (ev_mono_ns ev) True r4)
        else r2))"

text \<open>The branch of a stream that waits for a keyframe.\<close>

definition await_keyframe :: "rec_env \<Rightarrow> nat \<Rightarrow> RecorderEvent \<Rightarrow> bool \<Rightarrow> rec_state \<Rightarrow> rec_state" where
  "await_keyframe e i ev key r =
     (let ready = params_ready (strm r i) in
      if \<not> key \<or> \<not> ready then
        recorder_request_idr i (if ready then ''record_wait_keyframe'' else ''record_wait_params'')
          (ev_mono_ns ev) False r
      else (case open_segment e i (ev_wall_ms ev) (ev_mono_ns ev) r of (rc, r1) \<Rightarrow>
              if rc \<noteq> 0 then r1 else write_first e i (ev_data ev) r1))"

text \<open>A segment that has reached its length is marked, and an IDR asked for.\<close>

definition mark_rollover :: "nat \<Rightarrow> RecorderEvent \<Rightarrow> bool \<Rightarrow> rec_state \<Rightarrow> rec_state" where
  "mark_rollover i ev key r =
     (let s = strm r i in
      if \<not> rs_rollover_pending s \<and> should_rollover (cr_segment_sec r) s (ev_wall_ms ev) then
        (let r1 = set_strm i (s\<lparr>rs_rollover_pending := True\<rparr>) r in
         if (\<not> key \<or> \<not> params_ready s) \<and>
            \<not> recorder_idr_request_recent s (ev_mono_ns ev) PERIODIC_IDR_MIN_GAP_NS
         then recorder_request_idr i ''record_rollover'' (ev_mono_ns ev) True r1 else r1)
      else r)"

definition process_video :: "rec_env \<Rightarrow> RecorderEvent \<Rightarrow> rec_state \<Rightarrow> rec_state" where
  "process_video e ev r =
     (if \<not> known_stream r (ev_stream_id ev) \<or> length (ev_data ev) = 0 then r
      else
        let i = unat (ev_stream_id ev); s = strm r i in
        if \<not> rs_active s \<or> \<not> rs_enabled s \<or> \<not> codec_supported (rs_codec s) then r
        else
          case analyze_payload (re_param_ok e) (ev_data ev) s of (s1, key) \<Rightarrow>
          let ready = params_ready s1; r1 = set_strm i s1 r in
          case recorder_storage_available e (ev_mono_ns ev) r1 of (avail, r2) \<Rightarrow>
          if \<not> avail then recorder_skip_unmounted i (ev_mono_ns ev) r2
          else if rs_waiting_keyframe s1 then await_keyframe e i ev key r2
          else
            let r3 = mark_rollover i ev key r2 in
            if rs_rollover_pending (strm r3 i) then
              (if key \<and> ready then
                 (let r4 = snd (close_segment e i True r3) in
                  case open_segment e i (ev_wall_ms ev) (ev_mono_ns ev) r4 of (rc, r5) \<Rightarrow>
                  if rc \<noteq> 0 then set_strm i (strm r5 i\<lparr>rs_waiting_keyframe := True\<rparr>) r5
                  else write_first e i (ev_data ev) r5)
               else write_next e i ev (recorder_request_idr i
                      (if ready then ''record_wait_rollover_keyframe'' else ''record_wait_rollover_params'')
                      (ev_mono_ns ev) False r3))
            else write_next e i ev r3)"

definition process_event :: "rec_env \<Rightarrow> RecorderEvent \<Rightarrow> rec_state \<Rightarrow> rec_state" where
  "process_event e ev r = (case ev_type ev of
     REC_EVENT_STREAM_START \<Rightarrow> process_stream_start e ev r
   | REC_EVENT_VIDEO \<Rightarrow> process_video e ev r
   | REC_EVENT_STREAM_STOP \<Rightarrow> process_stream_stop e ev r)"

section \<open>The queue\<close>

definition event_bytes :: "RecorderEvent \<Rightarrow> nat" where
  "event_bytes ev = (if ev_type ev = REC_EVENT_VIDEO then length (ev_data ev) else 0)"

definition enqueue_event :: "RecorderEvent \<Rightarrow> rec_state \<Rightarrow> rec_state" where
  "enqueue_event ev r =
     (if \<not> cr_configured r \<or> \<not> cr_accepting r then r
      else if ev_type ev = REC_EVENT_VIDEO \<and>
              cr_queued_bytes r + length (ev_data ev) > cr_queue_limit_bytes r then
        r\<lparr>cr_dropped_packets := cr_dropped_packets r + 1,
          cr_dropped_bytes := cr_dropped_bytes r + of_nat (length (ev_data ev))\<rparr>
      else r\<lparr>cr_queue := cr_queue r @ [ev], cr_queued_events := cr_queued_events r + 1,
             cr_queued_bytes := cr_queued_bytes r + event_bytes ev\<rparr>)"

text \<open>The part of the writer thread's loop that runs under the lock; None when it waits or ends.\<close>

definition dequeue_event :: "rec_state \<Rightarrow> (RecorderEvent \<times> rec_state) option" where
  "dequeue_event r = (case cr_queue r of [] \<Rightarrow> None | ev # evs \<Rightarrow>
     Some (ev, r\<lparr>cr_queue := evs, cr_queued_events := cr_queued_events r - 1,
                 cr_queued_bytes := cr_queued_bytes r - event_bytes ev\<rparr>))"

text \<open>One turn of the loop; after \<open>running\<close> is cleared the thread empties the queue.\<close>

definition recorder_turn :: "rec_env \<Rightarrow> rec_state \<Rightarrow> rec_state" where
  "recorder_turn e r = (case dequeue_event r of None \<Rightarrow> r | Some (ev, r1) \<Rightarrow> process_event e ev r1)"

primrec recorder_drain :: "(nat \<Rightarrow> rec_env) \<Rightarrow> nat \<Rightarrow> rec_state \<Rightarrow> rec_state" where
  "recorder_drain envs 0 r = r"
| "recorder_drain envs (Suc n) r = recorder_drain envs n (recorder_turn (envs n) r)"

definition close_stream :: "rec_env \<Rightarrow> nat \<Rightarrow> rec_state \<Rightarrow> rec_state" where
  "close_stream e i r = (let r1 = snd (close_segment e i True r)
     in set_strm i (free_param_sets (strm r1 i)) r1)"

definition close_streams :: "rec_env \<Rightarrow> rec_state \<Rightarrow> rec_state" where
  "close_streams e r = fold (close_stream e) [1..<Suc (unat (cr_max_streams r))] r"

text \<open>The thread from the moment \<open>running\<close> is false to its return.\<close>

definition recorder_thread_end :: "(nat \<Rightarrow> rec_env) \<Rightarrow> rec_env \<Rightarrow> rec_state \<Rightarrow> rec_state" where
  "recorder_thread_end envs e r = close_streams e (recorder_drain envs (length (cr_queue r)) r)"

section \<open>Configuration, start and stop\<close>

record CompressedRecorderConfig =
  rc_record_dir :: string
  rc_streams_spec :: string
  rc_max_streams :: u16
  rc_segment_sec :: u32
  rc_idr_interval_sec :: u32
  rc_queue_bytes :: nat
  rc_require_nfs_mount :: bool

definition compressed_recorder_config_defaults :: CompressedRecorderConfig where
  "compressed_recorder_config_defaults = \<lparr>rc_record_dir = [], rc_streams_spec = [],
     rc_max_streams = of_nat DEFAULT_MAX_STREAMS, rc_segment_sec = DEFAULT_SEGMENT_SEC,
     rc_idr_interval_sec = DEFAULT_IDR_INTERVAL_SEC, rc_queue_bytes = DEFAULT_QUEUE_BYTES,
     rc_require_nfs_mount = False\<rparr>"

text \<open>\<open>g_recorder\<close> before anything ran, and after \<open>memset(&g_recorder, 0, ...)\<close>: the world stays.\<close>

definition no_recorder :: rec_state where
  "no_recorder = \<lparr>cr_configured = False, cr_running = False, cr_accepting = False,
     cr_record_dir = [], cr_raw_dir = [], cr_max_streams = 0, cr_segment_sec = 0,
     cr_idr_interval_sec = 0, cr_queue_limit_bytes = 0, cr_require_nfs_mount = False,
     cr_nfs_mounted = False, cr_last_mount_check_ns = 0, cr_last_mount_log_ns = 0,
     cr_enabled_streams = \<lambda>_. False, cr_streams = \<lambda>_. zero_stream, cr_queue = [],
     cr_queued_bytes = 0, cr_queued_events = 0, cr_dropped_packets = 0, cr_dropped_bytes = 0,
     cr_mount_skipped_packets = 0, cr_write_errors = 0, cr_segments_closed = 0,
     cr_request_idr = False, rw_files = \<lambda>_. None, rw_open = [], rw_idrs = []\<rparr>"

definition zero_recorder :: "rec_state \<Rightarrow> rec_state" where
  "zero_recorder r = no_recorder\<lparr>rw_files := rw_files r, rw_open := rw_open r, rw_idrs := rw_idrs r\<rparr>"

definition enable_all_streams :: "u16 \<Rightarrow> nat \<Rightarrow> bool" where
  "enable_all_streams max_streams = (\<lambda>i. 1 \<le> i \<and> i \<le> unat max_streams)"

text \<open>\<open>strtok_r(copy, ",", ...)\<close>: the non-empty pieces between the commas.\<close>

fun split_at :: "char \<Rightarrow> string \<Rightarrow> string list" where
  "split_at d [] = [[]]"
| "split_at d (c # cs) = (if c = d then [] # split_at d cs
     else (case split_at d cs of [] \<Rightarrow> [[c]] | p # ps \<Rightarrow> (c # p) # ps))"

definition strtok_comma :: "string \<Rightarrow> string list" where
  "strtok_comma s = filter (\<lambda>t. t \<noteq> []) (split_at CHR '','' s)"

definition apply_spec_item :: "u16 \<Rightarrow> string \<Rightarrow> (nat \<Rightarrow> bool) \<Rightarrow> nat \<Rightarrow> bool" where
  "apply_spec_item max_streams item0 enabled =
     (let item = dropWhile c_isspace item0; m = unat max_streams in
      if item = [] then enabled
      else (case scan_u item of
        None \<Rightarrow> enabled
      | Some (a, rest) \<Rightarrow>
          (case Option.bind (scan_lit ''-'' rest) scan_u of
             Some (b, _) \<Rightarrow>
               (let lo = min (unat a) (unat b); hi = min (max (unat a) (unat b)) m
                in (\<lambda>i. enabled i \<or> lo \<le> i \<and> i \<le> hi \<and> i > 0))
           | None \<Rightarrow>
               (if unat a > 0 \<and> unat a \<le> m then enabled(unat a := True) else enabled))))"

definition parse_streams_spec :: "u16 \<Rightarrow> string \<Rightarrow> nat \<Rightarrow> bool" where
  "parse_streams_spec max_streams spec =
     (if spec = [] \<or> spec = ''all'' \<or> spec = ''*'' then enable_all_streams max_streams
      else fold (apply_spec_item max_streams) (strtok_comma (snprintf_s 256 spec)) (\<lambda>_. False))"

definition compressed_recorder_start ::
  "rec_env \<Rightarrow> bool \<Rightarrow> CompressedRecorderConfig option \<Rightarrow> bool \<Rightarrow> rec_state \<Rightarrow> int \<times> rec_state" where
  "compressed_recorder_start e thread_ok config request_idr g =
     (case config of None \<Rightarrow> (0, g) | Some cfg \<Rightarrow>
      if rc_record_dir cfg = [] then (0, g)
      else if cr_running g then (0, g)
      else
        let z = zero_recorder g in
        if length (rc_record_dir cfg) \<ge> 512 then (- 1, z)
        else if length (rc_record_dir cfg @ ''/raw'') \<ge> 512 then (- 1, z)
        else
          let max_streams = (if rc_max_streams cfg < 1 \<or> unat (rc_max_streams cfg) > MAX_STREAMS
                             then of_nat DEFAULT_MAX_STREAMS else rc_max_streams cfg);
              g1 = z\<lparr>cr_record_dir := rc_record_dir cfg, cr_raw_dir := rc_record_dir cfg @ ''/raw'',
                cr_max_streams := max_streams,
                cr_segment_sec := (if rc_segment_sec cfg \<noteq> 0 then rc_segment_sec cfg else DEFAULT_SEGMENT_SEC),
                cr_idr_interval_sec := rc_idr_interval_sec cfg,
                cr_queue_limit_bytes := (if rc_queue_bytes cfg \<noteq> 0 then rc_queue_bytes cfg else DEFAULT_QUEUE_BYTES),
                cr_require_nfs_mount := rc_require_nfs_mount cfg,
                cr_nfs_mounted := (\<not> rc_require_nfs_mount cfg \<or> path_has_nfs_mount e (rc_record_dir cfg)),
                cr_last_mount_check_ns := re_now e,
                cr_request_idr := request_idr,
                cr_enabled_streams := parse_streams_spec max_streams (rc_streams_spec cfg)\<rparr>
          in if cr_nfs_mounted g1 \<and> mkdir_p e (cr_raw_dir g1) \<noteq> 0 then (- 1, zero_recorder g1)
             else if \<not> thread_ok then (- 1, zero_recorder g1)
             else (0, g1\<lparr>cr_running := True, cr_accepting := True, cr_configured := True\<rparr>))"

definition compressed_recorder_set_request_idr_callback :: "bool \<Rightarrow> rec_state \<Rightarrow> rec_state" where
  "compressed_recorder_set_request_idr_callback request_idr g =
     (if \<not> cr_configured g then g else g\<lparr>cr_request_idr := request_idr\<rparr>)"

definition compressed_recorder_stop :: "(nat \<Rightarrow> rec_env) \<Rightarrow> rec_env \<Rightarrow> rec_state \<Rightarrow> rec_state" where
  "compressed_recorder_stop envs e g =
     (if \<not> cr_configured g then g
      else zero_recorder (recorder_thread_end envs e (g\<lparr>cr_accepting := False, cr_running := False\<rparr>)))"

definition compressed_recorder_is_enabled :: "rec_state \<Rightarrow> bool" where
  "compressed_recorder_is_enabled g \<longleftrightarrow> cr_configured g \<and> cr_accepting g"

text \<open>The three producers; \<open>alloc_ok\<close> covers the event and its copy of the payload.\<close>

definition empty_info :: StreamInfo where
  "empty_info = \<lparr>si_width = 0, si_height = 0, si_fps = 0, si_bitrate = 0, si_codec = 0, si_chroma = 0,
     si_bitdepth = 0, si_video_format = 0, si_color_space = 0, si_color_range = 0\<rparr>"

definition compressed_recorder_on_stream_start ::
  "bool \<Rightarrow> u64 \<Rightarrow> u64 \<Rightarrow> u16 \<Rightarrow> StreamInfo option \<Rightarrow> rec_state \<Rightarrow> rec_state" where
  "compressed_recorder_on_stream_start alloc_ok wall mono_ns sid info g =
     (case info of None \<Rightarrow> g | Some si \<Rightarrow>
      if \<not> cr_configured g \<or> \<not> cr_accepting g \<or> \<not> alloc_ok then g
      else enqueue_event \<lparr>ev_type = REC_EVENT_STREAM_START, ev_stream_id = sid, ev_wall_ms = wall,
             ev_mono_ns = mono_ns, ev_info = si, ev_data = []\<rparr> g)"

definition compressed_recorder_on_video ::
  "bool \<Rightarrow> u64 \<Rightarrow> u64 \<Rightarrow> u16 \<Rightarrow> u8 list option \<Rightarrow> rec_state \<Rightarrow> rec_state" where
  "compressed_recorder_on_video alloc_ok wall mono_ns sid data g =
     (case data of None \<Rightarrow> g | Some d \<Rightarrow>
      if length d = 0 \<or> \<not> cr_configured g \<or> \<not> cr_accepting g \<or> \<not> alloc_ok then g
      else enqueue_event \<lparr>ev_type = REC_EVENT_VIDEO, ev_stream_id = sid, ev_wall_ms = wall,
             ev_mono_ns = mono_ns, ev_info = empty_info, ev_data = d\<rparr> g)"

definition compressed_recorder_on_stream_stop ::
  "bool \<Rightarrow> u64 \<Rightarrow> u64 \<Rightarrow> u16 \<Rightarrow> rec_state \<Rightarrow> rec_state" where
  "compressed_recorder_on_stream_stop alloc_ok wall mono_ns sid g =
     (if \<not> cr_configured g \<or> \<not> cr_accepting g \<or> \<not> alloc_ok then g
      else enqueue_event \<lparr>ev_type = REC_EVENT_STREAM_STOP, ev_stream_id = sid, ev_wall_ms = wall,
             ev_mono_ns = mono_ns, ev_info = empty_info, ev_data = []\<rparr> g)"

end
