(* ===== verification/Recording.thy ===== *)
theory Recording
  imports Recorder
begin

text \<open>
  What the recorder guarantees: where the periodic IDR deadlines fall, what a segment file
  contains, that handles are not leaked while no mount is required (and how one is otherwise),
  and that the queue is a bounded first-in first-out buffer.
\<close>

section \<open>Periodic deadlines\<close>

lemma step_until_ge: "0 < iv \<Longrightarrow> b \<le> step_until iv b n"
proof (induction iv b n rule: step_until.induct)
  case (1 iv b n)
  then show ?case by (cases "n < b") (auto simp: step_until.simps [of iv b n])
qed

lemma step_until_lt: "n < b + iv \<Longrightarrow> step_until iv b n < b + iv"
proof (induction iv b n rule: step_until.induct)
  case (1 iv b n)
  then show ?case by (cases "0 < iv \<and> n < b") (auto simp: step_until.simps [of iv b n])
qed

lemma step_until_mod: "step_until iv b n mod iv = n mod iv"
proof (induction iv b n rule: step_until.induct)
  case (1 iv b n)
  then show ?case by (cases "0 < iv \<and> n < b") (auto simp: step_until.simps [of iv b n])
qed

lemma unat_ucast_64: "unat (ucast (x :: u32) :: u64) = unat x" "unat (ucast (y :: u16) :: u64) = unat y"
  using unsigned_less [of x, where ?'a = nat] unsigned_less [of y, where ?'a = nat] by (simp_all add: unsigned_ucast_eq take_bit_nat_eq_self)

lemma unat_add_64: "unat a + unat b < 2 ^ 64 \<Longrightarrow> unat (a + b :: u64) = unat a + unat b"
  by (simp add: unat_word_ariths)

lemma unat_mult_64: "unat a * unat b < 2 ^ 64 \<Longrightarrow> unat (a * b :: u64) = unat a * unat b"
  by (simp add: unat_word_ariths)

lemma idr_interval:
  assumes "0 < unat sec" and "unat sec \<le> 2 ^ 24"
  shows "unat (recorder_idr_interval_ns sec) = unat sec * 1000000000"
proof -
  have u: "unat (ucast sec :: u64) = unat sec" by (rule unat_ucast_64)
  have 1: "unat (ucast sec * 1000 :: u64) = unat sec * 1000"
    using assms u by (subst unat_mult_64) simp_all
  have 2: "unat (ucast sec * 1000 * 1000 :: u64) = unat sec * 1000 * 1000"
    using assms 1 by (subst unat_mult_64) simp_all
  have "unat (ucast sec * 1000 * 1000 * 1000 :: u64) = unat sec * 1000 * 1000 * 1000"
    using assms 2 by (subst unat_mult_64) simp_all
  then show ?thesis using assms by (simp add: recorder_idr_interval_ns_def unat_eq_zero)
qed

lemma periodic_offset:
  assumes "0 < unat sec" and "unat sec \<le> 2 ^ 24" and "1 \<le> unat sid" and "sid \<le> ms" and "unat ms \<le> 256"
  shows "unat (recorder_periodic_idr_offset_ns sec ms sid) =
    (unat sid - 1) * (unat sec * 1000000000) div unat ms"
proof -
  note iv = idr_interval [OF assms(1,2)]
  have nz: "recorder_idr_interval_ns sec \<noteq> 0" using iv assms(1) by auto
  have le: "unat sid \<le> unat ms" using assms(4) by (simp add: word_le_nat_alt)
  have u16: "unat (ucast w :: u64) = unat w" for w :: u16 by (rule unat_ucast_64)
  have idx: "unat (sid - 1) = unat sid - 1"
    using assms(3) by (simp add: unat_sub word_le_nat_alt)
  have "(unat sid - 1) * (unat sec * 1000000000) \<le> 256 * (2 ^ 24 * 1000000000)"
    using le assms(2,5) by (intro mult_le_mono) simp_all
  then have "unat (ucast (sid - 1) * recorder_idr_interval_ns sec) = (unat sid - 1) * (unat sec * 1000000000)"
    by (subst unat_mult_64) (simp_all add: u16 idx iv)
  moreover have "0 < sid" "0 < ms" using assms(3) le by (simp_all add: word_less_nat_alt)
  ultimately show ?thesis
    using nz by (simp add: recorder_periodic_idr_offset_ns_def Let_def unat_div_distrib u16)
qed

lemma unat_min_gap: "unat PERIODIC_IDR_MIN_GAP_NS = 2000000000"
  by (simp add: PERIODIC_IDR_MIN_GAP_NS_def)

text \<open>the periodic IDR deadline of a stream lies at least two seconds ahead and less than
  one interval beyond that, at the stream's own offset in the interval, so the streams are
  spread evenly; none of the sums leaves 64 bits.\<close>

theorem periodic_deadline:
  assumes "0 < unat sec" and "unat sec \<le> 2 ^ 24" and "1 \<le> unat sid" and "sid \<le> ms" and "unat ms \<le> 256"
    and "unat now < 2 ^ 63"
  shows "let t = unat (recorder_next_periodic_idr_ns sec ms sid now); iv = unat sec * 1000000000 in
    unat now + 2000000000 \<le> t \<and> t < unat now + 2000000000 + iv \<and>
    t mod iv = (unat sid - 1) * iv div unat ms"
proof -
  define iv where "iv = unat sec * 1000000000"
  define off where "off = (unat sid - 1) * iv div unat ms"
  note wi = idr_interval [OF assms(1,2), folded iv_def]
  note wo = periodic_offset [OF assms(1-5), folded iv_def off_def]
  have iv: "0 < iv" "iv \<le> 2 ^ 24 * 1000000000" using assms(1,2) by (simp_all add: iv_def)
  have le: "unat sid \<le> unat ms" using assms(4) by (simp add: word_le_nat_alt)
  have "(unat sid - 1) * iv < unat ms * iv" using le assms(3) iv(1) by simp
  then have off: "off < iv" unfolding off_def using less_mult_imp_div_less [of _ iv "unat ms"]
    by (simp add: mult.commute)
  have nz: "recorder_idr_interval_ns sec \<noteq> 0" using wi iv(1) by auto
  define q where "q = unat now div iv * iv"
  have b: "q \<le> unat now" by (simp add: q_def)
  have base: "unat (now div recorder_idr_interval_ns sec * recorder_idr_interval_ns sec) = q"
    using le_less_trans [OF b assms(6)] by (subst unat_mult_64) (simp_all add: unat_div_distrib wi q_def)
  have nxt: "unat (now div recorder_idr_interval_ns sec * recorder_idr_interval_ns sec +
      recorder_periodic_idr_offset_ns sec ms sid) = q + off"
    using b assms(6) off iv(2) by (subst unat_add_64) (simp_all add: base wo)
  have mn: "unat (now + PERIODIC_IDR_MIN_GAP_NS) = unat now + 2000000000"
    using assms(6) by (subst unat_add_64) (simp_all add: unat_min_gap)
  define t where "t = step_until iv (unat now + 2000000000) (q + off)"
  have lt: "t < unat now + 2000000000 + iv"
    unfolding t_def using b off by (intro step_until_lt) simp
  then have "t < 18446744073709551616" using assms(6) iv(2) by simp
  then have u: "unat (recorder_next_periodic_idr_ns sec ms sid now) = t"
    using nz by (simp add: recorder_next_periodic_idr_ns_def Let_def wi nxt mn unat_of_nat_64 flip: t_def)
  have "t mod iv = off" unfolding t_def step_until_mod q_def using off by simp
  then show ?thesis
    using u lt step_until_ge [OF iv(1), of "unat now + 2000000000" "q + off"]
    by (simp add: Let_def t_def off_def flip: iv_def)
qed

theorem periodic_deadline_witness:
  "let t = unat (recorder_next_periodic_idr_ns 30 20 2 0) in 2000000000 \<le> t \<and> t mod 30000000000 = 1500000000"
  using periodic_deadline [of 30 2 20 0] by (simp add: Let_def word_le_nat_alt)

section \<open>What a segment file contains\<close>

text \<open>A file system that does all it is asked, and time stamps of the usual width.\<close>

definition healthy :: "rec_env \<Rightarrow> bool" where
  "healthy e \<longleftrightarrow> (\<forall>p. re_mkdir e p) \<and> (\<forall>p. re_fopen e p) \<and> (\<forall>p n. n \<le> re_fwrite e p n) \<and>
     re_param_ok e \<and> (\<forall>w. length (stamp (re_localtime e w)) \<le> 20)"

definition annexb :: "u8 list \<Rightarrow> u8 list" where
  "annexb d = (if payload_has_start_code d then [] else kStartCode4) @ d"

definition set_bytes :: "u8 list option list \<Rightarrow> u8 list" where
  "set_bytes ps = concat (map (case_option [] id) ps)"

lemma set_bytes_simps [simp]:
  "set_bytes [] = []" "set_bytes (None # ps) = set_bytes ps" "set_bytes (Some d # ps) = d @ set_bytes ps"
  by (simp_all add: set_bytes_def)

definition append_to :: "string \<Rightarrow> u8 list \<Rightarrow> rec_state \<Rightarrow> rec_state" where
  "append_to path d r = r\<lparr>rw_files := (rw_files r)(path \<mapsto> file_at r path @ d)\<rparr>"

lemma append_to_append_to [simp]: "append_to p y (append_to p x r) = append_to p (x @ y) r"
  by (simp add: append_to_def file_at_def)

lemma write_all_healthy:
  "healthy e \<Longrightarrow> d \<noteq> [] \<Longrightarrow> write_all e (Some p) d r = (0, append_to p d r)"
  by (simp add: write_all_def fwrite_def healthy_def Let_def append_to_def min_absorb2)

lemma write_payload_healthy:
  "healthy e \<Longrightarrow> d \<noteq> [] \<Longrightarrow> write_payload_annexb e (Some p) d r = (0, append_to p (annexb d) r)"
  by (simp add: write_payload_annexb_def write_all_healthy annexb_def kStartCode4_def)

lemma write_sets_healthy:
  "healthy e \<Longrightarrow> write_sets e (Some p) ps r =
     (0, if set_bytes ps = [] then r else append_to p (set_bytes ps) r)"
proof (induction ps arbitrary: r)
  case (Cons q ps)
  then show ?case by (cases q; cases "set_bytes ps = []") (auto simp: write_all_healthy)
qed simp

text \<open>The fields of a stream that IDR requests and statistics do not touch.\<close>

definition core :: "RecorderStream \<Rightarrow> RecorderStream" where
  "core s = s\<lparr>rs_last_idr_request_ns := 0, rs_next_periodic_idr_ns := 0, rs_idr_request_count := 0,
     rs_bytes_written := 0, rs_packets_written := 0\<rparr>"

lemma core_fields [simp]:
  "rs_params (core s) = rs_params s" "rs_codec (core s) = rs_codec s" "rs_fp (core s) = rs_fp s"
  "rs_active (core s) = rs_active s" "rs_enabled (core s) = rs_enabled s"
  "rs_waiting_keyframe (core s) = rs_waiting_keyframe s" "rs_ext (core s) = rs_ext s"
  "rs_rollover_pending (core s) = rs_rollover_pending s" "rs_tmp_path (core s) = rs_tmp_path s"
  "rs_final_path (core s) = rs_final_path s" "rs_stream_id (core s) = rs_stream_id s"
  "rs_segment_start_wall_ms (core s) = rs_segment_start_wall_ms s"
  "core (core s) = core s"
  by (simp_all add: core_def)

lemma core_eq_fields:
  assumes "core s = core t"
  shows "rs_params s = rs_params t" "rs_codec s = rs_codec t" "rs_fp s = rs_fp t"
    "rs_active s = rs_active t" "rs_enabled s = rs_enabled t"
    "rs_waiting_keyframe s = rs_waiting_keyframe t" "rs_ext s = rs_ext t"
    "rs_rollover_pending s = rs_rollover_pending t" "rs_stream_id s = rs_stream_id t"
    "rs_segment_start_wall_ms s = rs_segment_start_wall_ms t" "rs_tmp_path s = rs_tmp_path t"
    "rs_final_path s = rs_final_path t"
  using assms by (metis core_fields)+

definition conf :: "rec_state \<Rightarrow> string \<times> u16 \<times> u32 \<times> bool" where
  "conf r = (cr_raw_dir r, cr_max_streams r, cr_segment_sec r,
     cr_require_nfs_mount r \<and> \<not> cr_nfs_mounted r)"

lemma conf_set_strm [simp]: "conf (set_strm i s r) = conf r" "conf (append_to p d r) = conf r"
  "conf (r\<lparr>rw_files := x\<rparr>) = conf r"
  by (simp_all add: conf_def set_strm_def append_to_def)

lemma strm_set_strm [simp]: "strm (set_strm i s r) i = s" "rw_files (set_strm i s r) = rw_files r"
  "strm (append_to p d r) i = strm r i" "rw_open (set_strm i s r) = rw_open r"
  by (simp_all add: set_strm_def append_to_def)

lemma request_idr_frame:
  "conf (recorder_request_idr i reason now force r) = conf r"
  "core (strm (recorder_request_idr i reason now force r) i) = core (strm r i)"
  "rw_files (recorder_request_idr i reason now force r) = rw_files r"
  by (simp_all add: recorder_request_idr_def Let_def core_def conf_def set_strm_def)

lemma periodic_frame:
  "conf (recorder_maybe_request_periodic_idr i now r) = conf r"
  "core (strm (recorder_maybe_request_periodic_idr i now r) i) = core (strm r i)"
  "rw_files (recorder_maybe_request_periodic_idr i now r) = rw_files r"
proof -
  define s1 where "s1 = (if rs_next_periodic_idr_ns (strm r i) = 0
    then strm r i\<lparr>rs_next_periodic_idr_ns := next_periodic r (strm r i) now\<rparr> else strm r i)"
  have c1: "core s1 = core (strm r i)" by (simp add: core_def s1_def)
  note f = request_idr_frame [of i "''record_periodic''" now True "set_strm i s1 r"]
  have c2: "core (t\<lparr>rs_next_periodic_idr_ns := x\<rparr>) = core t" for t :: RecorderStream and x
    by (simp add: core_def)
  show "conf (recorder_maybe_request_periodic_idr i now r) = conf r"
    "core (strm (recorder_maybe_request_periodic_idr i now r) i) = core (strm r i)"
    "rw_files (recorder_maybe_request_periodic_idr i now r) = rw_files r"
    unfolding recorder_maybe_request_periodic_idr_def Let_def s1_def [symmetric]
    by (simp_all only: f c1 conf_set_strm strm_set_strm c2 split: if_split) simp_all
qed

text \<open>A stream whose packets are recorded, and a packet on a healthy system.\<close>

definition armed :: "rec_state \<Rightarrow> u16 \<Rightarrow> bool" where
  "armed r sid \<longleftrightarrow> known_stream r sid \<and> (cr_require_nfs_mount r \<longrightarrow> cr_nfs_mounted r) \<and>
     length (cr_raw_dir r) \<le> 512 \<and>
     (let s = strm r (unat sid) in rs_active s \<and> rs_enabled s \<and> codec_supported (rs_codec s) \<and>
        length (rs_ext s) \<le> 8 \<and> length (rs_params s) = 3)"

definition packet :: "u16 \<Rightarrow> rec_env \<times> RecorderEvent \<Rightarrow> bool" where
  "packet sid p \<longleftrightarrow> healthy (fst p) \<and> ev_stream_id (snd p) = sid \<and> ev_data (snd p) \<noteq> []"

lemma known_stream_conf: "conf r = conf r' \<Longrightarrow> known_stream r sid = known_stream r' sid"
  by (simp add: conf_def known_stream_def)

lemma armed_view:
  assumes "conf r' = conf r" and "core (strm r' (unat sid)) = core s1"
    and "s1 = strm r (unat sid)\<lparr>rs_params := ps\<rparr>" and "length ps = 3" and "armed r sid"
  shows "armed r' sid"
  using assms(1,3-5) core_eq_fields [OF assms(2)] known_stream_conf [OF assms(1), of sid]
  by (auto simp: armed_def Let_def conf_def)

lemma length_pad2: "n < 65536 \<Longrightarrow> length (pad2 n) \<le> 5"
  using length_show_nat [of 5 n] by (auto simp: pad2_def show_nat.simps [of n])

lemma mkdir_healthy: "healthy e \<Longrightarrow> p \<noteq> [] \<Longrightarrow> mkdir_p e p = 0"
  by (simp add: mkdir_p_def healthy_def Let_def list_all_iff)

lemma format_healthy:
  assumes "healthy e" and "length raw \<le> 512" and "length (rs_ext s) \<le> 8"
  obtains f where "format_segment_paths e raw wall s = (0, s\<lparr>rs_final_path := f, rs_tmp_path := f @ ''.tmp''\<rparr>)"
proof -
  let ?dir = "raw @ ''/s'' @ pad2 (unat (rs_stream_id s))"
  let ?f = "?dir @ ''/'' @ stamp (re_localtime e (wall div 1000)) @ ''.'' @ rs_ext s"
  have "unat (rs_stream_id s) < 65536" using unsigned_less [of "rs_stream_id s", where ?'a = nat] by simp
  then have d: "length ?dir \<le> 519" using assms(2) length_pad2 [of "unat (rs_stream_id s)"] by simp
  have "length (stamp (re_localtime e (wall div 1000))) \<le> 20" using assms(1) by (simp add: healthy_def)
  then have f: "length ?f \<le> 600" using d assms(3) by simp
  have "mkdir_p e ?dir = 0" by (rule mkdir_healthy [OF assms(1)]) simp
  then have "format_segment_paths e raw wall s = (0, s\<lparr>rs_final_path := ?f, rs_tmp_path := ?f @ ''.tmp''\<rparr>)"
    using d f by (simp add: format_segment_paths_def Let_def PATH_MAX_def)
  then show ?thesis by (rule that)
qed

lemma open_healthy:
  assumes "healthy e" and "length (cr_raw_dir r) \<le> 512" and "length (rs_ext (strm r i)) \<le> 8"
  obtains s' p where
    "open_segment e i wall now r = (0, set_strm i s' (r\<lparr>rw_files := (rw_files r)(p \<mapsto> []), rw_open := p # rw_open r\<rparr>))"
    "rs_fp s' = Some p" "rs_params s' = rs_params (strm r i)" "rs_codec s' = rs_codec (strm r i)"
    "rs_active s' = rs_active (strm r i)" "rs_enabled s' = rs_enabled (strm r i)"
    "rs_ext s' = rs_ext (strm r i)" "\<not> rs_waiting_keyframe s'" "\<not> rs_rollover_pending s'"
    "rs_segment_start_wall_ms s' = wall"
proof -
  obtain f where f: "format_segment_paths e (cr_raw_dir r) wall (strm r i) =
      (0, strm r i\<lparr>rs_final_path := f, rs_tmp_path := f @ ''.tmp''\<rparr>)"
    using format_healthy [OF assms] .
  have o: "re_fopen e (f @ ''.tmp'')" using assms(1) by (simp add: healthy_def)
  let ?s = "strm r i\<lparr>rs_final_path := f, rs_tmp_path := f @ ''.tmp''\<rparr>"
  let ?s' = "?s\<lparr>rs_fp := Some (f @ ''.tmp''), rs_segment_start_wall_ms := wall,
     rs_segment_start_mono_ns := now, rs_bytes_written := 0, rs_packets_written := 0,
     rs_waiting_keyframe := False, rs_rollover_pending := False,
     rs_next_periodic_idr_ns := next_periodic r ?s now, rs_idr_request_count := 0\<rparr>"
  show ?thesis
    by (rule that [of ?s' "f @ ''.tmp''"]) (use f o in \<open>auto simp: open_segment_def Let_def set_strm_def\<close>)
qed

lemma write_packet_healthy:
  assumes "healthy e" and "d \<noteq> []" and "rs_fp (strm r i) = Some p"
  obtains r' where "write_segment_packet e i d r = (0, r')" "conf r' = conf r"
    "core (strm r' i) = core (strm r i)" "rw_files r' = (rw_files r)(p \<mapsto> file_at r p @ annexb d)" "rw_open r' = rw_open r"
proof -
  have c: "core (s\<lparr>rs_bytes_written := a, rs_packets_written := b\<rparr>) = core s" for s :: RecorderStream and a b
    by (simp add: core_def)
  let ?s = "strm r i"
  let ?r' = "set_strm i (?s\<lparr>rs_bytes_written := rs_bytes_written ?s + of_nat (length d) +
       (if payload_has_start_code d then 0 else 4),
     rs_packets_written := rs_packets_written ?s + 1\<rparr>) (append_to p (annexb d) r)"
  show ?thesis
    by (rule that [of ?r'])
      (use assms in \<open>simp_all add: write_segment_packet_def Let_def write_payload_healthy c append_to_def\<close>)
qed

text \<open>The branches of \<open>process_video\<close> for a packet of an armed stream.\<close>

lemma process_video_armed:
  assumes "armed r sid" and "packet sid (e, ev)"
    and "analyze_payload True (ev_data ev) (strm r (unat sid)) = (s1, key)"
  shows "process_video e ev r =
    (let i = unat sid; r1 = set_strm i s1 r in
     if rs_waiting_keyframe s1 then await_keyframe e i ev key r1
     else let r3 = mark_rollover i ev key r1 in
       if rs_rollover_pending (strm r3 i) then
         (if key \<and> params_ready s1 then
            (let r4 = snd (close_segment e i True r3) in
             case open_segment e i (ev_wall_ms ev) (ev_mono_ns ev) r4 of (rc, r5) \<Rightarrow>
             if rc \<noteq> 0 then set_strm i (strm r5 i\<lparr>rs_waiting_keyframe := True\<rparr>) r5
             else write_first e i (ev_data ev) r5)
          else write_next e i ev (recorder_request_idr i
                 (if params_ready s1 then ''record_wait_rollover_keyframe'' else ''record_wait_rollover_params'')
                 (ev_mono_ns ev) False r3))
       else write_next e i ev r3)"
proof -
  have ok: "re_param_ok e" using assms(2) by (simp add: packet_def healthy_def)
  have av: "recorder_storage_available e t (set_strm i s1 r) = (True, set_strm i s1 r)" for t i
    using assms(1) by (auto simp: recorder_storage_available_def armed_def set_strm_def)
  show ?thesis
    using assms ok av by (simp add: process_video_def armed_def packet_def Let_def)
qed

lemma video_wait:
  assumes "armed r sid" and "packet sid (e, ev)" and "rs_waiting_keyframe (strm r (unat sid))"
    and "analyze_payload True (ev_data ev) (strm r (unat sid)) = (s1, key)"
    and "\<not> (key \<and> params_ready s1)"
  shows "conf (process_video e ev r) = conf r" "rw_files (process_video e ev r) = rw_files r"
    "core (strm (process_video e ev r) (unat sid)) = core s1"
proof -
  have w: "rs_waiting_keyframe s1"
    using assms(3) by (subst analyze_payload_frame(1) [OF assms(4)]) simp
  have "\<exists>reason. process_video e ev r =
      recorder_request_idr (unat sid) reason (ev_mono_ns ev) False (set_strm (unat sid) s1 r)"
    using assms(5) w unfolding process_video_armed [OF assms(1,2,4)]
    by (auto simp: await_keyframe_def Let_def)
  then show "conf (process_video e ev r) = conf r" "rw_files (process_video e ev r) = rw_files r"
    "core (strm (process_video e ev r) (unat sid)) = core s1"
    by (auto simp: request_idr_frame)
qed

lemma video_next:
  assumes "armed r sid" and "packet sid (e, ev)" and "\<not> rs_waiting_keyframe (strm r (unat sid))"
    and "\<not> rs_rollover_pending (strm r (unat sid))" and "rs_fp (strm r (unat sid)) = Some p"
    and "analyze_payload True (ev_data ev) (strm r (unat sid)) = (s1, key)"
    and "\<not> should_rollover (cr_segment_sec r) (strm r (unat sid)) (ev_wall_ms ev)"
  shows "conf (process_video e ev r) = conf r"
    "rw_files (process_video e ev r) = (rw_files r)(p \<mapsto> file_at r p @ annexb (ev_data ev))"
    "core (strm (process_video e ev r) (unat sid)) = core s1"
proof -
  let ?i = "unat sid" and ?r1 = "set_strm (unat sid) s1 r"
  have s1: "s1 = strm r ?i\<lparr>rs_params := rs_params s1\<rparr>"
    by (rule analyze_payload_frame [OF assms(6)])
  have f: "\<not> rs_waiting_keyframe s1" "\<not> rs_rollover_pending s1" "rs_fp s1 = Some p"
    "rs_segment_start_wall_ms s1 = rs_segment_start_wall_ms (strm r ?i)"
    using assms(3-5) by (subst s1, simp)+
  have "\<not> should_rollover (cr_segment_sec ?r1) s1 (ev_wall_ms ev)"
    using assms(5,7) f by (auto simp: should_rollover_def set_strm_def split: if_splits)
  then have m: "mark_rollover ?i ev key ?r1 = ?r1" by (simp add: mark_rollover_def Let_def)
  let ?r2 = "recorder_maybe_request_periodic_idr ?i (ev_mono_ns ev) ?r1"
  note pf = periodic_frame [of ?i "ev_mono_ns ev" ?r1]
  have fp: "rs_fp (strm ?r2 ?i) = Some p" using core_eq_fields(3) [OF pf(2)] f by simp
  have h: "healthy e" "ev_data ev \<noteq> []" using assms(2) by (simp_all add: packet_def)
  obtain r' where r': "write_segment_packet e ?i (ev_data ev) ?r2 = (0, r')" "conf r' = conf ?r2"
    "core (strm r' ?i) = core (strm ?r2 ?i)" "rw_files r' = (rw_files ?r2)(p \<mapsto> file_at ?r2 p @ annexb (ev_data ev))"
    "rw_open r' = rw_open ?r2"
    using write_packet_healthy [OF h fp] .
  have "process_video e ev r = r'"
    unfolding process_video_armed [OF assms(1,2,6)]
    using f m fp r'(1) by (simp add: write_next_def Let_def)
  then show "conf (process_video e ev r) = conf r"
    "rw_files (process_video e ev r) = (rw_files r)(p \<mapsto> file_at r p @ annexb (ev_data ev))"
    "core (strm (process_video e ev r) (unat sid)) = core s1"
    using r' pf by (simp_all add: file_at_def)
qed

lemma video_open:
  assumes "armed r sid" and "packet sid (e, ev)" and "rs_waiting_keyframe (strm r (unat sid))"
    and "analyze_payload True (ev_data ev) (strm r (unat sid)) = (s1, key)"
    and "key" "params_ready s1"
  obtains p r' where "process_video e ev r = r'" "conf r' = conf r"
    "rw_files r' = (rw_files r)(p \<mapsto> set_bytes (take (if rs_codec s1 = 1 then 3 else 2) (rs_params s1)) @ annexb (ev_data ev))"
    "rs_fp (strm r' (unat sid)) = Some p" "rs_params (strm r' (unat sid)) = rs_params s1"
    "\<not> rs_waiting_keyframe (strm r' (unat sid))" "\<not> rs_rollover_pending (strm r' (unat sid))"
    "rs_segment_start_wall_ms (strm r' (unat sid)) = ev_wall_ms ev" "armed r' sid"
    "rw_open r' = p # rw_open r"
proof -
  let ?i = "unat sid" and ?r1 = "set_strm (unat sid) s1 r"
  have h: "healthy e" "ev_data ev \<noteq> []" using assms(2) by (simp_all add: packet_def)
  have s1: "s1 = strm r ?i\<lparr>rs_params := rs_params s1\<rparr>"
    by (rule analyze_payload_frame [OF assms(4)])
  have len: "length (rs_params s1) = 3"
    using assms(1) analyze_payload_frame(2) [OF assms(4)] by (simp add: armed_def Let_def)
  have w: "rs_waiting_keyframe s1" using assms(3) by (subst s1) simp
  have a1: "armed ?r1 sid" by (rule armed_view [OF _ _ s1 len assms(1)]) simp_all
  have raw: "length (cr_raw_dir ?r1) \<le> 512" "length (rs_ext (strm ?r1 ?i)) \<le> 8"
    using a1 by (simp_all add: armed_def Let_def)
  obtain s2 p where o: "open_segment e ?i (ev_wall_ms ev) (ev_mono_ns ev) ?r1 =
      (0, set_strm ?i s2 (?r1\<lparr>rw_files := (rw_files ?r1)(p \<mapsto> []), rw_open := p # rw_open ?r1\<rparr>))"
    "rs_fp s2 = Some p" "rs_params s2 = rs_params (strm ?r1 ?i)" "rs_codec s2 = rs_codec (strm ?r1 ?i)"
    "rs_active s2 = rs_active (strm ?r1 ?i)" "rs_enabled s2 = rs_enabled (strm ?r1 ?i)"
    "rs_ext s2 = rs_ext (strm ?r1 ?i)" "\<not> rs_waiting_keyframe s2" "\<not> rs_rollover_pending s2"
    "rs_segment_start_wall_ms s2 = ev_wall_ms ev"
    using open_healthy [OF h(1) raw] .
  let ?r2 = "set_strm ?i s2 (?r1\<lparr>rw_files := (rw_files ?r1)(p \<mapsto> []), rw_open := p # rw_open ?r1\<rparr>)"
  let ?b = "set_bytes (take (if rs_codec s1 = 1 then 3 else 2) (rs_params s1))"
  define r3 where "r3 = (if ?b = [] then ?r2 else append_to p ?b ?r2)"
  have r3: "strm r3 ?i = s2" "conf r3 = conf r" "rw_files r3 = (rw_files r)(p \<mapsto> ?b)"
    "rw_open r3 = p # rw_open r"
    by (simp_all add: r3_def append_to_def file_at_def conf_def set_strm_def)
  have sets: "write_param_sets e (rs_fp (strm ?r2 ?i)) (strm ?r2 ?i) ?r2 = (0, r3)"
    using o(2-4) by (simp add: write_param_sets_def write_sets_healthy [OF h(1)] r3_def)
  have fp3: "rs_fp (strm r3 ?i) = Some p" using r3 o(2) by simp
  obtain r' where r': "write_segment_packet e ?i (ev_data ev) r3 = (0, r')" "conf r' = conf r3"
    "core (strm r' ?i) = core (strm r3 ?i)" "rw_files r' = (rw_files r3)(p \<mapsto> file_at r3 p @ annexb (ev_data ev))"
    "rw_open r' = rw_open r3"
    using write_packet_healthy [OF h fp3] .
  have run: "process_video e ev r = r'"
    unfolding process_video_armed [OF assms(1,2,4)]
    using w assms(5,6) o(1) sets r'(1) by (simp add: await_keyframe_def Let_def write_first_def)
  have c: "core (strm r' ?i) = core s2" using r' r3 by simp
  note cf = core_eq_fields [OF c]
  have "armed r' sid"
    using assms(1) a1 cf o len r'(2) r3(2) known_stream_conf [of r' r sid]
    by (auto simp: armed_def Let_def conf_def)
  then show ?thesis
    using that [OF run, of p] r' r3 cf o by (simp add: file_at_def)
qed

text \<open>
  The specification: the parameter sets as they are known at the first packet that has a
  keyframe and completes them, and every packet from there on.
\<close>

fun recorded :: "u32 \<Rightarrow> u8 list option list \<Rightarrow> u8 list list \<Rightarrow> u8 list option" where
  "recorded codec ps [] = None"
| "recorded codec ps (d # ds) =
     (case analyze_payload True d (probe codec ps) of (s, key) \<Rightarrow>
      if key \<and> params_ready s
      then Some (set_bytes (take (if codec = 1 then 3 else 2) (rs_params s)) @ concat (map annexb (d # ds)))
      else recorded codec (rs_params s) ds)"

definition record_run :: "(rec_env \<times> RecorderEvent) list \<Rightarrow> rec_state \<Rightarrow> rec_state" where
  "record_run evs r = fold (\<lambda>(e, ev). process_video e ev) evs r"

lemma record_run_simps [simp]:
  "record_run [] r = r" "record_run ((e, ev) # evs) r = record_run evs (process_video e ev r)"
  by (simp_all add: record_run_def)

definition wall :: "rec_env \<times> RecorderEvent \<Rightarrow> nat" where "wall p = unat (ev_wall_ms (snd p))"

text \<open>A segment's time has not run out for a packet that is \<open>n\<close> seconds long behind its start.\<close>

lemma no_rollover:
  assumes "unat (rs_segment_start_wall_ms s) \<le> unat w" and "unat w < unat (rs_segment_start_wall_ms s) + unat seg * 1000"
  shows "\<not> should_rollover seg s w"
proof -
  have "unat (ucast seg :: u64) * unat (1000 :: u64) < 2 ^ 64"
    using unsigned_less [of seg, where ?'a = nat] by (simp add: unat_ucast_64)
  then have "unat (ucast seg * 1000 :: u64) = unat seg * 1000" by (simp add: unat_mult_64 unat_ucast_64)
  moreover have "unat (w - rs_segment_start_wall_ms s) = unat w - unat (rs_segment_start_wall_ms s)"
    using assms(1) by (simp add: unat_sub word_le_nat_alt)
  ultimately show ?thesis using assms by (auto simp: should_rollover_def word_le_nat_alt)
qed

lemma run_open:
  assumes "armed r sid" and "list_all (packet sid) evs" and "rs_fp (strm r (unat sid)) = Some p"
    and "\<not> rs_waiting_keyframe (strm r (unat sid))" "\<not> rs_rollover_pending (strm r (unat sid))"
    and "list_all (\<lambda>q. unat (rs_segment_start_wall_ms (strm r (unat sid))) \<le> wall q \<and>
      wall q < unat (rs_segment_start_wall_ms (strm r (unat sid))) + unat (cr_segment_sec r) * 1000) evs"
    and "rw_files r p = Some c"
  shows "rs_fp (strm (record_run evs r) (unat sid)) = Some p \<and>
    rw_files (record_run evs r) p = Some (c @ concat (map (\<lambda>q. annexb (ev_data (snd q))) evs))"
  using assms
proof (induction evs arbitrary: r c)
  case (Cons q evs)
  obtain e ev where q: "q = (e, ev)" by (metis prod.exhaust)
  obtain s1 key where an: "analyze_payload True (ev_data ev) (strm r (unat sid)) = (s1, key)" by force
  have pk: "packet sid (e, ev)" using Cons.prems(2) q by simp
  have nr: "\<not> should_rollover (cr_segment_sec r) (strm r (unat sid)) (ev_wall_ms ev)"
    using Cons.prems(6) q by (intro no_rollover) (simp_all add: wall_def)
  note st = video_next [OF Cons.prems(1) pk Cons.prems(4,5,3) an nr]
  have s1: "s1 = strm r (unat sid)\<lparr>rs_params := rs_params s1\<rparr>"
    by (rule analyze_payload_frame [OF an])
  have len: "length (rs_params s1) = 3"
    using Cons.prems(1) analyze_payload_frame(2) [OF an] by (simp add: armed_def Let_def)
  let ?r' = "process_video e ev r"
  have ar: "armed ?r' sid" by (rule armed_view [OF st(1,3) s1 len Cons.prems(1)])
  have f: "rs_fp s1 = Some p" "\<not> rs_waiting_keyframe s1" "\<not> rs_rollover_pending s1"
    "rs_segment_start_wall_ms s1 = rs_segment_start_wall_ms (strm r (unat sid))"
    using Cons.prems(3-5) by (subst s1, simp)+
  note cf = core_eq_fields [OF st(3)]
  have seg: "cr_segment_sec ?r' = cr_segment_sec r" using st(1) by (simp add: conf_def)
  have fl: "rw_files ?r' p = Some (c @ annexb (ev_data ev))" using st(2) Cons.prems(7) by (simp add: file_at_def)
  have tl: "list_all (packet sid) evs" "list_all (\<lambda>q. unat (rs_segment_start_wall_ms (strm ?r' (unat sid))) \<le> wall q \<and>
      wall q < unat (rs_segment_start_wall_ms (strm ?r' (unat sid))) + unat (cr_segment_sec ?r') * 1000) evs"
    using Cons.prems(2,6) cf f seg by simp_all
  from Cons.IH [OF ar tl(1) _ _ _ tl(2) fl] cf f q show ?case by simp
qed simp

text \<open>C38: what is recorded of a stream: nothing until a packet brings a keyframe and the last
  missing parameter set, and then, in one file, the parameter sets followed by that packet and
  every later one, each with a start code, while the segment's time has not run out.\<close>

theorem recording_content:
  assumes "armed r sid" and "list_all (packet sid) evs"
    and "rs_waiting_keyframe (strm r (unat sid))" and "rs_fp (strm r (unat sid)) = None"
    and "sorted (map wall evs)" and "list_all (\<lambda>q. wall q < t0 + unat (cr_segment_sec r) * 1000) evs"
    and "list_all (\<lambda>q. t0 \<le> wall q) evs"
  shows "case recorded (rs_codec (strm r (unat sid))) (rs_params (strm r (unat sid)))
            (map (\<lambda>q. ev_data (snd q)) evs) of
      None \<Rightarrow> rs_fp (strm (record_run evs r) (unat sid)) = None \<and> rw_files (record_run evs r) = rw_files r
    | Some c \<Rightarrow> \<exists>p. rs_fp (strm (record_run evs r) (unat sid)) = Some p \<and>
        rw_files (record_run evs r) p = Some c"
  using assms
proof (induction evs arbitrary: r)
  case Nil
  then show ?case by simp
next
  case (Cons q evs)
  obtain e ev where q: "q = (e, ev)" by (metis prod.exhaust)
  let ?i = "unat sid"
  let ?s = "strm r ?i"
  obtain s1 key where an: "analyze_payload True (ev_data ev) ?s = (s1, key)" by force
  have pk: "packet sid (e, ev)" using Cons.prems(2) q by simp
  note af = analyze_payload_frame [OF an]
  have codec: "rs_codec s1 = rs_codec ?s" by (subst af(1)) simp
  have ready: "params_ready (probe (rs_codec ?s) (rs_params s1)) = params_ready s1"
    using codec by (simp add: params_ready_def param_len_def)
  show ?case
  proof (cases "key \<and> params_ready s1")
    case True
    then have k: key "params_ready s1" by simp_all
    obtain p r' where o: "process_video e ev r = r'" "conf r' = conf r"
      "rw_files r' = (rw_files r)(p \<mapsto> set_bytes (take (if rs_codec s1 = 1 then 3 else 2) (rs_params s1)) @ annexb (ev_data ev))"
      "rs_fp (strm r' ?i) = Some p" "rs_params (strm r' ?i) = rs_params s1"
      "\<not> rs_waiting_keyframe (strm r' ?i)" "\<not> rs_rollover_pending (strm r' ?i)"
      "rs_segment_start_wall_ms (strm r' ?i) = ev_wall_ms ev" "armed r' sid"
      using video_open [OF Cons.prems(1) pk Cons.prems(3) an k] .
    have w: "list_all (\<lambda>q. unat (rs_segment_start_wall_ms (strm r' ?i)) \<le> wall q \<and>
      wall q < unat (rs_segment_start_wall_ms (strm r' ?i)) + unat (cr_segment_sec r') * 1000) evs"
      using Cons.prems(5-7) q o(2,8) by (auto simp: list_all_iff wall_def conf_def)
    from run_open [OF o(9) _ o(4,6,7) w] o(3) Cons.prems(2) q
    have "rs_fp (strm (record_run evs r') ?i) = Some p \<and> rw_files (record_run evs r') p =
        Some (set_bytes (take (if rs_codec s1 = 1 then 3 else 2) (rs_params s1)) @ annexb (ev_data ev) @
          concat (map (\<lambda>q. annexb (ev_data (snd q))) evs))" by simp
    then show ?thesis using q o(1) af(3) ready True codec by (simp add: comp_def)
  next
    case False
    note st = video_wait [OF Cons.prems(1) pk Cons.prems(3) an False]
    have len: "length (rs_params s1) = 3"
      using Cons.prems(1) af(2) by (simp add: armed_def Let_def)
    let ?r' = "process_video e ev r"
    have ar: "armed ?r' sid" by (rule armed_view [OF st(1,3) af(1) len Cons.prems(1)])
    have f: "rs_fp s1 = None" "rs_waiting_keyframe s1" using Cons.prems(3,4) by (subst af(1), simp)+
    note cf = core_eq_fields [OF st(3)]
    have seg: "cr_segment_sec ?r' = cr_segment_sec r" using st(1) by (simp add: conf_def)
    have rec: "recorded (rs_codec ?s) (rs_params ?s) (map (\<lambda>q. ev_data (snd q)) (q # evs)) =
        recorded (rs_codec ?s) (rs_params s1) (map (\<lambda>q. ev_data (snd q)) evs)"
      using q af(3) ready False by auto
    have run: "record_run (q # evs) r = record_run evs ?r'" using q by simp
    show ?thesis
      unfolding rec run using Cons.IH [OF ar] Cons.prems(2,5-7) cf f codec seg st(2)
      by (simp split: option.splits)
  qed
qed

definition ex_rec_env :: rec_env where
  "ex_rec_env = \<lparr>re_mounts = [], re_mkdir = \<lambda>_. True,
     re_localtime = \<lambda>_. \<lparr>tm_year = 2024, tm_mon = 5, tm_mday = 6, tm_hour = 7, tm_min = 8, tm_sec = 9\<rparr>,
     re_fopen = \<lambda>_. True, re_fwrite = \<lambda>_ n. n, re_fclose = \<lambda>_. None, re_rename = \<lambda>_. True,
     re_unlink = \<lambda>_. True, re_param_ok = True, re_now = 0\<rparr>"

definition ex_armed :: RecorderStream where
  "ex_armed = zero_stream\<lparr>rs_stream_id := 2, rs_active := True, rs_enabled := True,
     rs_waiting_keyframe := True, rs_ext := ''h264''\<rparr>"

definition ex_recorder :: rec_state where
  "ex_recorder = no_recorder\<lparr>cr_configured := True, cr_max_streams := 20, cr_segment_sec := 1800,
     cr_raw_dir := ''/rec/raw'', cr_streams := (\<lambda>_. zero_stream)(2 := ex_armed)\<rparr>"

definition ex_packet :: "u64 \<Rightarrow> u8 list \<Rightarrow> rec_env \<times> RecorderEvent" where
  "ex_packet t d = (ex_rec_env, \<lparr>ev_type = REC_EVENT_VIDEO, ev_stream_id = 2, ev_wall_ms = t,
     ev_mono_ns = 0, ev_info = empty_info, ev_data = d\<rparr>)"

definition ex_inter :: "u8 list" where "ex_inter = [0, 0, 0, 1, 0x41, 9]"
definition ex_key :: "u8 list" where
  "ex_key = [0, 0, 0, 1, 0x67, 1, 0, 0, 0, 1, 0x68, 2, 0, 0, 0, 1, 0x65, 3]"

lemma ex_healthy: "healthy ex_rec_env"
  by (simp add: healthy_def ex_rec_env_def stamp_def pad2_def show_nat.simps)

lemma ex_is_armed: "armed ex_recorder 2" "strm ex_recorder 2 = ex_armed"
  by (simp_all add: armed_def ex_recorder_def ex_armed_def no_recorder_def known_stream_def
      zero_stream_def codec_supported_def Let_def)

lemma ex_nals: "nal_units ex_inter = [[0x41, 9]]" "nal_units ex_key = [[0x67, 1], [0x68, 2], [0x65, 3]]"
  by (simp_all add: nal_units_def ex_inter_def ex_key_def find_start_code.simps nals_from.simps
      start_code_len_at_def cut_zeros_def nth_Cons')

lemmas ex_analysis = analyze_payload_fold ex_nals analyze_nal_action nal_action_def Let_def
  cache_param_set_def PARAM_SET_LIMIT_def kStartCode4_def params_ready_def param_len_def

lemma ex_recorded: "recorded 0 [None, None, None] [ex_inter, ex_key, ex_inter] =
    Some ([0, 0, 0, 1, 0x67, 1, 0, 0, 0, 1, 0x68, 2] @ ex_key @ ex_inter)"
proof -
  have "payload_has_start_code ex_inter" "payload_has_start_code ex_key"
    by (simp_all add: payload_has_start_code_def ex_inter_def ex_key_def find_start_code.simps start_code_len_at_def)
  then show ?thesis by (simp add: ex_analysis annexb_def)
qed

theorem recording_content_witness:
  "\<exists>p. rs_fp (strm (record_run [ex_packet 5000 ex_inter, ex_packet 5033 ex_key, ex_packet 5066 ex_inter] ex_recorder) 2) = Some p \<and>
     rw_files (record_run [ex_packet 5000 ex_inter, ex_packet 5033 ex_key, ex_packet 5066 ex_inter] ex_recorder) p =
       Some ([0, 0, 0, 1, 0x67, 1, 0, 0, 0, 1, 0x68, 2] @ ex_key @ ex_inter)"
proof -
  let ?evs = "[ex_packet 5000 ex_inter, ex_packet 5033 ex_key, ex_packet 5066 ex_inter]"
  have 1: "list_all (packet 2) ?evs"
    by (simp add: packet_def ex_packet_def ex_healthy ex_inter_def ex_key_def)
  have 2: "sorted (map wall ?evs)" by (simp add: wall_def ex_packet_def)
  have 3: "list_all (\<lambda>q. wall q < 5000 + unat (cr_segment_sec ex_recorder) * 1000) ?evs"
    "list_all (\<lambda>q. 5000 \<le> wall q) ?evs"
    by (simp_all add: wall_def ex_packet_def ex_recorder_def)
  have 4: "rs_waiting_keyframe (strm ex_recorder (unat (2 :: u16)))" "rs_fp (strm ex_recorder (unat (2 :: u16))) = None"
    "rs_codec (strm ex_recorder (unat (2 :: u16))) = 0" "rs_params (strm ex_recorder (unat (2 :: u16))) = [None, None, None]"
    by (simp_all add: ex_is_armed ex_armed_def zero_stream_def)
  have 5: "map (\<lambda>q. ev_data (snd q)) ?evs = [ex_inter, ex_key, ex_inter]" by (simp add: ex_packet_def)
  from recording_content [OF ex_is_armed(1) 1 4(1,2) 2 3]
  show ?thesis unfolding 4(3,4) 5 ex_recorded by simp
qed

section \<open>The queue\<close>

text \<open>
  The contract of a bounded queue that counts what it holds: what the producers and the writer
  thread rely on. \<open>accepts\<close> is the producer's test.
\<close>

locale bounded_queue =
  fixes enq :: "'e \<Rightarrow> 's \<Rightarrow> 's" and deq :: "'s \<Rightarrow> ('e \<times> 's) option"
    and content :: "'s \<Rightarrow> 'e list" and weight :: "'e \<Rightarrow> nat" and held :: "'s \<Rightarrow> nat"
    and limit :: "'s \<Rightarrow> nat" and accepts :: "'s \<Rightarrow> 'e \<Rightarrow> bool"
  assumes enq_accepted: "accepts s x \<Longrightarrow> content (enq x s) = content s @ [x] \<and> held (enq x s) = held s + weight x"
    and enq_refused: "\<not> accepts s x \<Longrightarrow> content (enq x s) = content s \<and> held (enq x s) = held s"
    and enq_limit: "limit (enq x s) = limit s"
    and deq_empty: "deq s = None \<longleftrightarrow> content s = []"
    and deq_head: "deq s = Some (x, s') \<Longrightarrow> content s = x # content s' \<and> held s' = held s - weight x \<and> limit s' = limit s"
    and accepts_limit: "accepts s x \<Longrightarrow> weight x = 0 \<or> held s + weight x \<le> limit s"
begin

text \<open>A run of the queue: Some is an enqueue, None a dequeue; the result has what was taken out.\<close>

fun run :: "'e option list \<Rightarrow> 's \<Rightarrow> 'e list \<times> 's" where
  "run [] s = ([], s)"
| "run (Some x # ops) s = run ops (enq x s)"
| "run (None # ops) s = (case deq s of None \<Rightarrow> run ops s
     | Some (x, s') \<Rightarrow> (case run ops s' of (out, t) \<Rightarrow> (x # out, t)))"

fun accepted :: "'e option list \<Rightarrow> 's \<Rightarrow> 'e list" where
  "accepted [] s = []"
| "accepted (Some x # ops) s = (if accepts s x then [x] else []) @ accepted ops (enq x s)"
| "accepted (None # ops) s = (case deq s of None \<Rightarrow> accepted ops s | Some (x, s') \<Rightarrow> accepted ops s')"

definition counted :: "'s \<Rightarrow> bool" where
  "counted s \<longleftrightarrow> held s = sum_list (map weight (content s)) \<and> held s \<le> limit s"

lemma counted_enq: "counted s \<Longrightarrow> counted (enq x s)"
  using enq_accepted [of s x] enq_refused [of s x] enq_limit [of x s] accepts_limit [of s x]
  by (cases "accepts s x") (auto simp: counted_def)

lemma counted_deq: "counted s \<Longrightarrow> deq s = Some (x, s') \<Longrightarrow> counted s'"
  using deq_head [of s x s'] by (auto simp: counted_def)

lemma run_fifo:
  assumes "run ops s = (out, s')"
  shows "out @ content s' = content s @ accepted ops s"
  using assms
proof (induction ops s arbitrary: out rule: run.induct)
  case (2 x ops s)
  then show ?case using enq_accepted [of s x] enq_refused [of s x] by (cases "accepts s x") auto
next
  case (3 ops s)
  show ?case
  proof (cases "deq s")
    case None
    then show ?thesis using 3 by simp
  next
    case (Some p)
    obtain x s1 where p: "p = (x, s1)" by force
    obtain o1 t where r: "run ops s1 = (o1, t)" by force
    have "out = x # o1" "s' = t" using 3(3) Some p r by simp_all
    then show ?thesis using 3(2) [OF Some p [symmetric]] r Some p deq_head [of s x s1] by simp
  qed
qed simp

lemma run_counted: "counted s \<Longrightarrow> run ops s = (out, s') \<Longrightarrow> counted s'"
proof (induction ops s arbitrary: out rule: run.induct)
  case (2 x ops s)
  then show ?case using counted_enq by simp
next
  case (3 ops s)
  then show ?case using counted_deq by (auto split: option.splits prod.splits)
qed simp

end

definition queue_accepts :: "rec_state \<Rightarrow> RecorderEvent \<Rightarrow> bool" where
  "queue_accepts r ev \<longleftrightarrow> cr_configured r \<and> cr_accepting r \<and>
     \<not> (ev_type ev = REC_EVENT_VIDEO \<and> cr_queued_bytes r + length (ev_data ev) > cr_queue_limit_bytes r)"

interpretation rq: bounded_queue enqueue_event dequeue_event cr_queue event_bytes cr_queued_bytes
  cr_queue_limit_bytes queue_accepts
  by unfold_locales
    (auto simp: enqueue_event_def dequeue_event_def queue_accepts_def event_bytes_def split: list.splits if_splits)

text \<open>the queue between the server and the writer is first in, first out and bounded: in any
  run of enqueues and dequeues what comes out and what is left is what was there and what was
  accepted, in order, and the bytes held are those of the queued packets and within the limit.\<close>

theorem recorder_queue:
  assumes "rq.run ops r = (out, r')"
    and "cr_queued_bytes r = sum_list (map event_bytes (cr_queue r))" "cr_queued_bytes r \<le> cr_queue_limit_bytes r"
  shows "out @ cr_queue r' = cr_queue r @ rq.accepted ops r \<and>
    cr_queued_bytes r' = sum_list (map event_bytes (cr_queue r')) \<and> cr_queued_bytes r' \<le> cr_queue_limit_bytes r'"
  using rq.run_fifo [OF assms(1)] rq.run_counted [OF _ assms(1)] assms(2,3) by (simp add: rq.counted_def)

theorem recorder_queue_witness:
  "let ev = snd (ex_packet 5 ex_key); r = ex_recorder\<lparr>cr_accepting := True, cr_queue_limit_bytes := 30\<rparr> in
   \<exists>r'. rq.run [Some ev, Some ev, None] r = ([ev], r') \<and> cr_queue r' = [] \<and> cr_queued_bytes r' = 0"
proof -
  let ?ev = "snd (ex_packet 5 ex_key)" and ?r = "ex_recorder\<lparr>cr_accepting := True, cr_queue_limit_bytes := 30\<rparr>"
  obtain out r' where run: "rq.run [Some ?ev, Some ?ev, None] ?r = (out, r')" by force
  note defs = queue_accepts_def enqueue_event_def dequeue_event_def ex_packet_def ex_recorder_def
        no_recorder_def event_bytes_def ex_key_def
  have acc: "rq.accepted [Some ?ev, Some ?ev, None] ?r = [?ev]" by (simp add: defs)
  have "fst (rq.run [Some ?ev, Some ?ev, None] ?r) = [?ev]" by (simp add: defs)
  then have out: "out = [?ev]" using run by simp
  have q: "cr_queue ?r = []" "cr_queued_bytes ?r = 0" by (simp_all add: ex_recorder_def no_recorder_def)
  have "out @ cr_queue r' = cr_queue ?r @ rq.accepted [Some ?ev, Some ?ev, None] ?r \<and>
    cr_queued_bytes r' = sum_list (map event_bytes (cr_queue r')) \<and> cr_queued_bytes r' \<le> cr_queue_limit_bytes r'"
    by (rule recorder_queue [OF run]) (simp_all add: q)
  then have "cr_queue r' = []" "cr_queued_bytes r' = 0" unfolding acc out q by simp_all
  then show ?thesis using run unfolding out Let_def by blast
qed

end
