(* ===== verification/RecHandles.thy ===== *)
theory RecHandles
  imports Recording "HOL-Library.Multiset"
begin

text \<open>
  The FILE handles of the recorder: while no NFS mount is required every open handle belongs to
  exactly one stream and a stop closes all of them; with the requirement, losing and regaining
  the mount leaves a handle behind.
\<close>

section \<open>Operations on one stream\<close>

definition fp_of :: "RecorderStream \<Rightarrow> string multiset" where
  "fp_of s = (case rs_fp s of None \<Rightarrow> {#} | Some p \<Rightarrow> {#p#})"

text \<open>A change to stream \<open>i\<close> alone, in which handles are opened and closed as its \<open>fp\<close> says.\<close>

definition keeps :: "nat \<Rightarrow> rec_state \<Rightarrow> rec_state \<Rightarrow> bool" where
  "keeps i r r' \<longleftrightarrow> cr_max_streams r' = cr_max_streams r \<and>
     cr_require_nfs_mount r' = cr_require_nfs_mount r \<and> cr_running r' = cr_running r \<and>
     cr_configured r' = cr_configured r \<and> cr_queue r' = cr_queue r \<and>
     (\<forall>j. j \<noteq> i \<longrightarrow> strm r' j = strm r j) \<and>
     mset (rw_open r') + fp_of (strm r i) = mset (rw_open r) + fp_of (strm r' i)"

text \<open>The stream's own handle is open; a stream that waits for a keyframe has none.\<close>

definition holds :: "nat \<Rightarrow> rec_state \<Rightarrow> bool" where
  "holds i r \<longleftrightarrow> fp_of (strm r i) \<subseteq># mset (rw_open r)"

definition waits :: "nat \<Rightarrow> rec_state \<Rightarrow> bool" where
  "waits i r \<longleftrightarrow> (rs_waiting_keyframe (strm r i) \<longrightarrow> rs_fp (strm r i) = None)"

lemma keeps_refl [intro, simp]: "keeps i r r"
  by (simp add: keeps_def)

lemma swap_trans:
  fixes a b c :: "'a multiset"
  assumes "m' + a = m + b" and "t + b = m' + c"
  shows "t + a = m + c"
proof -
  have "(t + a) + b = (t + b) + a" by (simp add: ac_simps)
  also have "\<dots> = (m' + a) + c" unfolding assms(2) by (simp add: ac_simps)
  also have "\<dots> = (m + c) + b" unfolding assms(1) by (simp add: ac_simps)
  finally show ?thesis by simp
qed

lemma swap_holds:
  fixes a b :: "'a multiset"
  assumes "m' + a = m + b" and "a \<subseteq># m"
  shows "b \<subseteq># m'"
proof -
  obtain x where "m = a + x" using assms(2) by (auto simp: mset_subset_eq_exists_conv)
  then have "m' + a = (x + b) + a" unfolding assms(1) by (simp add: ac_simps)
  then show ?thesis by simp
qed

lemma keeps_trans [trans]:
  assumes "keeps i r s" and "keeps i s t"
  shows "keeps i r t"
  using assms unfolding keeps_def by (auto intro: swap_trans [of _ _ _ "fp_of (strm s i)"])

lemma keeps_holds: "keeps i r s \<Longrightarrow> holds i r \<Longrightarrow> holds i s"
  unfolding keeps_def holds_def by (blast intro: swap_holds)

lemma keeps_set_strm:
  "rs_fp s = rs_fp (strm r i) \<Longrightarrow> keeps i r (set_strm i s r)"
  by (simp add: keeps_def set_strm_def fp_of_def)

lemma keeps_files: "keeps i r (r\<lparr>rw_files := x\<rparr>)"
  by (simp add: keeps_def)

lemma keeps_notes:
  "keeps i r (recorder_note_write_error r)" "keeps i r (recorder_note_mount_skip r)"
  "keeps i r (recorder_note_segment_closed r)" "keeps i r (recorder_recheck_mount_after_error t r)"
  by (simp_all add: keeps_def recorder_note_write_error_def recorder_note_mount_skip_def
      recorder_note_segment_closed_def recorder_recheck_mount_after_error_def)

lemma strm_notes [simp]:
  "strm (recorder_note_write_error r) = strm r" "strm (recorder_note_mount_skip r) = strm r"
  "strm (recorder_note_segment_closed r) = strm r" "strm (recorder_recheck_mount_after_error t r) = strm r"
  by (simp_all add: recorder_note_write_error_def recorder_note_mount_skip_def
      recorder_note_segment_closed_def recorder_recheck_mount_after_error_def)

lemma keeps_request_idr: "keeps i r (recorder_request_idr i reason now force r)"
  by (simp add: recorder_request_idr_def keeps_def set_strm_def fp_of_def Let_def)

lemma request_idr_fp [simp]:
  "rs_fp (strm (recorder_request_idr i reason now force r) i) = rs_fp (strm r i)"
  "rs_waiting_keyframe (strm (recorder_request_idr i reason now force r) i) = rs_waiting_keyframe (strm r i)"
  "rs_rollover_pending (strm (recorder_request_idr i reason now force r) i) = rs_rollover_pending (strm r i)"
  using core_eq_fields [OF request_idr_frame(2)] by simp_all

lemma keeps_periodic: "keeps i r (recorder_maybe_request_periodic_idr i now r)"
proof -
  define s1 where "s1 = (if rs_next_periodic_idr_ns (strm r i) = 0
    then strm r i\<lparr>rs_next_periodic_idr_ns := next_periodic r (strm r i) now\<rparr> else strm r i)"
  have 1: "keeps i r (set_strm i s1 r)" by (rule keeps_set_strm) (simp add: s1_def)
  have 2: "keeps i (set_strm i s1 r) (set_strm i (s1\<lparr>rs_next_periodic_idr_ns := x\<rparr>) (set_strm i s1 r))" for x
    by (rule keeps_set_strm) simp
  let ?r2 = "recorder_request_idr i ''record_periodic'' now True (set_strm i s1 r)"
  have 3: "keeps i (set_strm i s1 r) (set_strm i (strm ?r2 i\<lparr>rs_next_periodic_idr_ns := x\<rparr>) ?r2)" for x
    by (rule keeps_trans [OF keeps_request_idr keeps_set_strm]) simp
  show ?thesis
    unfolding recorder_maybe_request_periodic_idr_def Let_def s1_def [symmetric]
    using 1 keeps_trans [OF 1 2] keeps_trans [OF 1 3] by (simp only: keeps_refl split: if_split) blast
qed

lemma files_only:
  "\<exists>x. snd (write_all e fp d r) = r\<lparr>rw_files := x\<rparr>"
  "\<exists>x. snd (write_payload_annexb e fp d r) = r\<lparr>rw_files := x\<rparr>"
  "\<exists>x. snd (write_sets e fp ps r) = r\<lparr>rw_files := x\<rparr>"
  "\<exists>x. snd (write_param_sets e fp s r) = r\<lparr>rw_files := x\<rparr>"
proof -
  have w: "\<exists>x. snd (write_all e fp d r) = r\<lparr>rw_files := x\<rparr>" for d r
  proof -
    have "\<exists>x. r = r\<lparr>rw_files := x\<rparr>" by (rule exI [of _ "rw_files r"]) simp
    then show ?thesis
      by (auto simp: write_all_def fwrite_def Let_def split: option.split)
  qed
  have chain: "\<exists>x. t = r\<lparr>rw_files := x\<rparr>" if "\<exists>x. s = r\<lparr>rw_files := x\<rparr>" "\<exists>x. t = s\<lparr>rw_files := x\<rparr>" for r s t :: rec_state
    using that by auto
  have self: "\<exists>x. r = r\<lparr>rw_files := x\<rparr>" for r :: rec_state by (rule exI [of _ "rw_files r"]) simp
  show "\<exists>x. snd (write_all e fp d r) = r\<lparr>rw_files := x\<rparr>" by (rule w)
  show "\<exists>x. snd (write_payload_annexb e fp d r) = r\<lparr>rw_files := x\<rparr>"
  proof -
    obtain rc r1 where r1: "write_all e fp kStartCode4 r = (rc, r1)" by force
    then have "\<exists>x. r1 = r\<lparr>rw_files := x\<rparr>" using w [of kStartCode4 r] by simp
    then show ?thesis
      using w [of d r] self [of r] chain [OF _ w, of r1 r d] r1 by (simp add: write_payload_annexb_def)
  qed
  have s: "\<exists>x. snd (write_sets e fp ps r) = r\<lparr>rw_files := x\<rparr>" for ps r
  proof (induction ps arbitrary: r)
    case (Cons q ps)
    show ?case
    proof (cases q)
      case (Some d)
      obtain rc r1 where r1: "write_all e fp d r = (rc, r1)" by force
      then have "\<exists>x. r1 = r\<lparr>rw_files := x\<rparr>" using w [of d r] by simp
      then show ?thesis using Some r1 Cons.IH [of r] chain [OF _ Cons.IH] by simp
    qed (simp add: Cons.IH)
  qed (simp add: self)
  show "\<exists>x. snd (write_sets e fp ps r) = r\<lparr>rw_files := x\<rparr>" by (rule s)
  show "\<exists>x. snd (write_param_sets e fp s r) = r\<lparr>rw_files := x\<rparr>"
    using s self by (simp add: write_param_sets_def)
qed

lemma keeps_files_only: "\<exists>x. r' = r\<lparr>rw_files := x\<rparr> \<Longrightarrow> keeps i r r' \<and> strm r' = strm r"
  by (auto simp: keeps_files)

lemma files_only_eq:
  "write_payload_annexb e fp d r = (rc, r') \<Longrightarrow> keeps i r r' \<and> strm r' = strm r"
  "write_param_sets e fp s r = (rc, r') \<Longrightarrow> keeps i r r' \<and> strm r' = strm r"
  using keeps_files_only [OF files_only(2) [of e fp d r], of i]
    keeps_files_only [OF files_only(4) [of e fp s r], of i] by simp_all

lemma close_segment_fp [simp]:
  "rs_fp (strm (snd (close_segment e i fin r)) i) = None"
proof (cases "rs_fp (strm r i)")
  case (Some p)
  obtain rc0 r0 where f: "fclose e p r = (rc0, r0)" by force
  show ?thesis unfolding close_segment_def Let_def Some option.case f prod.case by auto
qed (simp add: close_segment_def)

lemma keeps_close:
  assumes "holds i r"
  shows "keeps i r (snd (close_segment e i fin r))"
proof (cases "rs_fp (strm r i)")
  case None
  then show ?thesis by (simp add: close_segment_def)
next
  case (Some p)
  let ?s = "strm r i"
  have m: "p \<in># mset (rw_open r)" using assms Some by (simp add: holds_def fp_of_def)
  obtain rc0 r0 where f: "fclose e p r = (rc0, r0)" by force
  have r0: "strm r0 = strm r" "rw_open r0 = remove1 p (rw_open r)" "cr_max_streams r0 = cr_max_streams r"
    "cr_require_nfs_mount r0 = cr_require_nfs_mount r" "cr_running r0 = cr_running r"
    "cr_configured r0 = cr_configured r" "cr_queue r0 = cr_queue r"
    using f by (auto simp: fclose_def Let_def split: option.splits)
  let ?s' = "?s\<lparr>rs_fp := None, rs_tmp_path := [], rs_final_path := [], rs_segment_start_wall_ms := 0,
     rs_segment_start_mono_ns := 0, rs_next_periodic_idr_ns := 0, rs_bytes_written := 0, rs_packets_written := 0\<rparr>"
  have base: "keeps i r (set_strm i ?s' r0)"
    using r0 m Some by (simp add: keeps_def set_strm_def fp_of_def)
  have fin: "keeps i r (set_strm i ?s' r1)"
    if "strm r1 = strm r0" "rw_open r1 = rw_open r0" "cr_max_streams r1 = cr_max_streams r0"
      "cr_require_nfs_mount r1 = cr_require_nfs_mount r0" "cr_running r1 = cr_running r0"
      "cr_configured r1 = cr_configured r0" "cr_queue r1 = cr_queue r0" for r1
    using base that by (simp add: keeps_def set_strm_def)
  show ?thesis
    unfolding close_segment_def Let_def Some option.case f prod.case
    by (auto intro!: fin simp: recorder_recheck_mount_after_error_def recorder_note_write_error_def
        recorder_note_segment_closed_def rename_file_def)
qed

lemma keeps_open:
  assumes "rs_fp (strm r i) = None"
  shows "keeps i r (snd (open_segment e i wt now r))"
    and "fst (open_segment e i wt now r) \<noteq> 0 \<Longrightarrow> rs_fp (strm (snd (open_segment e i wt now r)) i) = None"
    and "fst (open_segment e i wt now r) = 0 \<Longrightarrow> \<not> rs_waiting_keyframe (strm (snd (open_segment e i wt now r)) i)"
proof -
  obtain rc s1 where f: "format_segment_paths e (cr_raw_dir r) wt (strm r i) = (rc, s1)" by force
  have s1: "rs_fp s1 = None"
    using f assms by (auto simp: format_segment_paths_def Let_def split: if_splits)
  have 1: "keeps i r (set_strm i s1 r)" by (rule keeps_set_strm) (simp add: s1 assms)
  have 2: "keeps i r (set_strm i (s1\<lparr>rs_fp := None\<rparr>) (set_strm i s1 r))"
    using 1 by (rule keeps_trans) (rule keeps_set_strm, simp add: s1)
  have err: "keeps i r (recorder_recheck_mount_after_error now (recorder_note_write_error t))" if "keeps i r t" for t
    using that keeps_notes(1,4) by (blast intro: keeps_trans)
  have opened: "keeps i r (set_strm i (s1\<lparr>rs_fp := Some p, rs_segment_start_wall_ms := wt,
      rs_segment_start_mono_ns := now, rs_bytes_written := 0, rs_packets_written := 0,
      rs_waiting_keyframe := False, rs_rollover_pending := False, rs_next_periodic_idr_ns := x,
      rs_idr_request_count := 0\<rparr>) ((set_strm i s1 r)\<lparr>rw_files := fs, rw_open := p # rw_open r\<rparr>))" for p x fs
    using assms by (simp add: keeps_def set_strm_def fp_of_def)
  show "keeps i r (snd (open_segment e i wt now r))"
    using err [OF 1] err [OF 2] opened unfolding open_segment_def f prod.case Let_def
    by (simp add: set_strm_def split: if_split)
  show "fst (open_segment e i wt now r) \<noteq> 0 \<Longrightarrow> rs_fp (strm (snd (open_segment e i wt now r)) i) = None"
    "fst (open_segment e i wt now r) = 0 \<Longrightarrow> \<not> rs_waiting_keyframe (strm (snd (open_segment e i wt now r)) i)"
    unfolding open_segment_def f prod.case Let_def using s1 by (auto split: if_splits)
qed

lemma keeps_write_packet:
  assumes "write_segment_packet e i d r = (rc, r')"
  shows "keeps i r r'" "rs_fp (strm r' i) = rs_fp (strm r i)"
    "rs_waiting_keyframe (strm r' i) = rs_waiting_keyframe (strm r i)"
proof -
  obtain rc1 r1 where w: "write_payload_annexb e (rs_fp (strm r i)) d r = (rc1, r1)" by force
  note k = files_only_eq(1) [OF w, of i]
  have err: "keeps i r (recorder_recheck_mount_after_error (re_now e) (recorder_note_write_error r1))"
    using k keeps_notes(1,4) by (blast intro: keeps_trans)
  have ok: "keeps i r (set_strm i s r1)" if "rs_fp s = rs_fp (strm r i)" for s
    using k that by (metis keeps_trans keeps_set_strm)
  show "keeps i r r'" "rs_fp (strm r' i) = rs_fp (strm r i)"
    "rs_waiting_keyframe (strm r' i) = rs_waiting_keyframe (strm r i)"
    using assms w k err ok
    by (auto simp: write_segment_packet_def Let_def split: if_splits)
qed

text \<open>A failed write: the segment is discarded and the stream waits again.\<close>

definition discarded :: "rec_env \<Rightarrow> nat \<Rightarrow> rec_state \<Rightarrow> rec_state" where
  "discarded e i r = (let r3 = snd (close_segment e i False r)
     in set_strm i (strm r3 i\<lparr>rs_waiting_keyframe := True\<rparr>) r3)"

lemma discard:
  assumes "keeps i r r2" and "holds i r"
  shows "keeps i r (discarded e i r2)" "rs_fp (strm (discarded e i r2) i) = None"
proof -
  let ?r3 = "snd (close_segment e i False r2)"
  have "keeps i r ?r3"
    using assms(1) keeps_close [OF keeps_holds [OF assms(1,2)]] by (rule keeps_trans)
  then show "keeps i r (discarded e i r2)"
    unfolding discarded_def Let_def by (rule keeps_trans) (rule keeps_set_strm, simp)
  show "rs_fp (strm (discarded e i r2) i) = None" by (simp add: discarded_def Let_def)
qed

lemma keeps_write_first:
  assumes "holds i r" and "\<not> rs_waiting_keyframe (strm r i)"
  shows "keeps i r (write_first e i d r) \<and> waits i (write_first e i d r)"
proof -
  obtain rc1 r1 where 1: "write_param_sets e (rs_fp (strm r i)) (strm r i) r = (rc1, r1)" by force
  note k1 = files_only_eq(2) [OF 1, of i]
  obtain rc2 r2 where 2: "(if rc1 < 0 then (rc1, r1) else write_segment_packet e i d r1) = (rc2, r2)" by force
  have k2: "keeps i r r2" "\<not> rs_waiting_keyframe (strm r2 i)"
    using 2 k1 assms(2) keeps_write_packet [of e i d r1 rc2 r2]
    by (auto split: if_splits intro: keeps_trans)
  show ?thesis
    using k2 discard [OF k2(1) assms(1), of e]
    unfolding write_first_def 1 prod.case 2 waits_def discarded_def Let_def by simp
qed

lemma keeps_write_next:
  assumes "holds i r" and "\<not> rs_waiting_keyframe (strm r i)"
  shows "keeps i r (write_next e i ev r) \<and> waits i (write_next e i ev r)"
proof -
  let ?r1 = "recorder_maybe_request_periodic_idr i (ev_mono_ns ev) r"
  have w1: "\<not> rs_waiting_keyframe (strm ?r1 i)"
    using core_eq_fields(6) [OF periodic_frame(2)] assms(2) by simp
  obtain rc r2 where 2: "write_segment_packet e i (ev_data ev) ?r1 = (rc, r2)" by force
  note k = keeps_write_packet [OF 2]
  have k2: "keeps i r r2" using keeps_periodic k(1) by (rule keeps_trans)
  note d = discard [OF k2 assms(1), of e]
  show ?thesis
    using keeps_periodic [of i r "ev_mono_ns ev"] w1 k2 k(3) d keeps_trans [OF d(1) keeps_request_idr]
    unfolding write_next_def Let_def 2 prod.case waits_def discarded_def by (simp split: if_split)
qed

section \<open>Events\<close>

lemma mark_rollover_keeps:
  "keeps i r (mark_rollover i ev key r)"
  "rs_fp (strm (mark_rollover i ev key r) i) = rs_fp (strm r i)"
  "rs_waiting_keyframe (strm (mark_rollover i ev key r) i) = rs_waiting_keyframe (strm r i)"
proof -
  let ?r1 = "set_strm i (strm r i\<lparr>rs_rollover_pending := True\<rparr>) r"
  have 1: "keeps i r ?r1" by (rule keeps_set_strm) simp
  show "keeps i r (mark_rollover i ev key r)"
    using 1 keeps_trans [OF 1 keeps_request_idr] by (simp add: mark_rollover_def Let_def)
  show "rs_fp (strm (mark_rollover i ev key r) i) = rs_fp (strm r i)"
    "rs_waiting_keyframe (strm (mark_rollover i ev key r) i) = rs_waiting_keyframe (strm r i)"
    by (simp_all add: mark_rollover_def Let_def)
qed

text \<open>Opening a segment on a stream without one, and writing its first packet.\<close>

lemma open_and_write:
  assumes "rs_fp (strm r i) = None" and "holds i r" and "open_segment e i wt now r = (rc, r1)"
  shows "keeps i r r1" "rc \<noteq> 0 \<Longrightarrow> rs_fp (strm r1 i) = None"
    "rc = 0 \<Longrightarrow> keeps i r (write_first e i d r1) \<and> waits i (write_first e i d r1)"
proof -
  note o = keeps_open [OF assms(1), of e wt now, unfolded assms(3) fst_conv snd_conv]
  show "keeps i r r1" "rc \<noteq> 0 \<Longrightarrow> rs_fp (strm r1 i) = None" using o(1,2) by simp_all
  assume "rc = 0"
  from keeps_write_first [OF keeps_holds [OF o(1) assms(2)] o(3) [OF this], of e d]
  show "keeps i r (write_first e i d r1) \<and> waits i (write_first e i d r1)"
    using keeps_trans [OF o(1)] by blast
qed

lemma await_keeps:
  assumes "holds i r" and "rs_fp (strm r i) = None"
  shows "keeps i r (await_keyframe e i ev key r) \<and> waits i (await_keyframe e i ev key r)"
proof -
  obtain rc r1 where o: "open_segment e i (ev_wall_ms ev) (ev_mono_ns ev) r = (rc, r1)" by force
  note ow = open_and_write [OF assms(2,1) o]
  have "waits i (recorder_request_idr i reason (ev_mono_ns ev) False r)" for reason
    using assms(2) by (simp add: waits_def)
  then show ?thesis
    using keeps_request_idr ow unfolding await_keyframe_def Let_def o prod.case waits_def by simp
qed

lemma video_keeps:
  assumes "holds (unat (ev_stream_id ev)) r" and "waits (unat (ev_stream_id ev)) r"
    and "\<not> cr_require_nfs_mount r"
  shows "keeps (unat (ev_stream_id ev)) r (process_video e ev r) \<and>
    waits (unat (ev_stream_id ev)) (process_video e ev r)"
proof (cases "\<not> known_stream r (ev_stream_id ev) \<or> length (ev_data ev) = 0 \<or>
    \<not> rs_active (strm r (unat (ev_stream_id ev))) \<or> \<not> rs_enabled (strm r (unat (ev_stream_id ev))) \<or>
    \<not> codec_supported (rs_codec (strm r (unat (ev_stream_id ev))))")
  case True
  then have "process_video e ev r = r" by (auto simp: process_video_def Let_def)
  then show ?thesis using assms(2) by simp
next
  case False
  define i where "i = unat (ev_stream_id ev)"
  note as = assms(1,2) [folded i_def]
  obtain s1 key where an: "analyze_payload (re_param_ok e) (ev_data ev) (strm r i) = (s1, key)" by force
  note af = analyze_payload_frame(1) [OF an]
  let ?r1 = "set_strm i s1 r"
  have s1: "rs_fp s1 = rs_fp (strm r i)" "rs_waiting_keyframe s1 = rs_waiting_keyframe (strm r i)"
    by (subst af, simp)+
  have k1: "keeps i r ?r1" by (rule keeps_set_strm) (rule s1)
  have h1: "holds i ?r1" by (rule keeps_holds [OF k1 as(1)])
  have av: "recorder_storage_available e t ?r1 = (True, ?r1)" for t
    using assms(3) by (simp add: recorder_storage_available_def set_strm_def)
  define r3 where "r3 = mark_rollover i ev key ?r1"
  note mr = mark_rollover_keeps [where i = i and r = ?r1 and ev = ev and key = key, folded r3_def]
  have k3: "keeps i r r3" using k1 mr(1) by (rule keeps_trans)
  note h3 = keeps_holds [OF k3 as(1)]
  define r4 where "r4 = snd (close_segment e i True r3)"
  have k4: "keeps i r r4" unfolding r4_def using k3 keeps_close [OF h3] by (rule keeps_trans)
  have fp4: "rs_fp (strm r4 i) = None" by (simp add: r4_def)
  obtain rc r5 where o: "open_segment e i (ev_wall_ms ev) (ev_mono_ns ev) r4 = (rc, r5)" by force
  note ow = open_and_write [OF fp4 keeps_holds [OF k4 as(1)] o]
  have k5: "keeps i r r5" using k4 ow(1) by (rule keeps_trans)
  have k6: "keeps i r (set_strm i (strm r5 i\<lparr>rs_waiting_keyframe := True\<rparr>) r5)"
    using k5 by (rule keeps_trans) (rule keeps_set_strm, simp)
  have k7: "keeps i r (recorder_request_idr i reason (ev_mono_ns ev) False r3)" for reason
    using k3 keeps_request_idr by (rule keeps_trans)
  have nxt: "keeps i r (write_next e i ev r') \<and> waits i (write_next e i ev r')"
    if "keeps i r r'" "\<not> rs_waiting_keyframe (strm r' i)" for r'
    using keeps_write_next [OF keeps_holds [OF that(1) as(1)] that(2)] keeps_trans [OF that(1)] by blast
  have eq: "process_video e ev r = (if rs_waiting_keyframe s1 then await_keyframe e i ev key ?r1
      else if rs_rollover_pending (strm r3 i) then
        (if key \<and> params_ready s1 then
           (if rc \<noteq> 0 then set_strm i (strm r5 i\<lparr>rs_waiting_keyframe := True\<rparr>) r5
            else write_first e i (ev_data ev) r5)
         else write_next e i ev (recorder_request_idr i
                (if params_ready s1 then ''record_wait_rollover_keyframe'' else ''record_wait_rollover_params'')
                (ev_mono_ns ev) False r3))
      else write_next e i ev r3)"
    using False unfolding process_video_def Let_def i_def [symmetric] an prod.case av
      r3_def [symmetric] r4_def [symmetric] o by simp
  show ?thesis
  proof (cases "rs_waiting_keyframe s1")
    case True
    then have "rs_fp (strm ?r1 i) = None" using as(2) s1 by (simp add: waits_def)
    from await_keeps [OF h1 this, of e ev key] k1 True show ?thesis
      unfolding eq i_def [symmetric] by (auto intro: keeps_trans)
  next
    case nw: False
    then have nw3: "\<not> rs_waiting_keyframe (strm r3 i)" using mr(3) by simp
    have w6: "waits i (set_strm i (strm r5 i\<lparr>rs_waiting_keyframe := True\<rparr>) r5)" if "rc \<noteq> 0"
      using ow(2) [OF that] by (simp add: waits_def)
    have wf: "keeps i r (write_first e i (ev_data ev) r5) \<and> waits i (write_first e i (ev_data ev) r5)" if "rc = 0"
      using ow(3) [OF that] keeps_trans [OF k4] by blast
    show ?thesis
      unfolding eq i_def [symmetric]
      using nw k6 w6 wf nxt [OF k7] nxt [OF k3] nw3 by simp
  qed
qed

lemma close_and_reset:
  assumes "holds i r" and "rs_fp s = None"
  shows "keeps i r (set_strm i s (snd (close_segment e i fin r)))"
  using keeps_close [OF assms(1)] by (rule keeps_trans) (rule keeps_set_strm, simp add: assms(2))

lemma start_keeps:
  assumes "holds (unat (ev_stream_id ev)) r" and "known_stream r (ev_stream_id ev)"
  shows "keeps (unat (ev_stream_id ev)) r (process_stream_start e ev r) \<and>
    rs_fp (strm (process_stream_start e ev r) (unat (ev_stream_id ev))) = None"
proof -
  let ?i = "unat (ev_stream_id ev)"
  have k: "keeps ?i r (set_strm ?i s (snd (close_segment e ?i True r)))" if "rs_fp s = None" for s
    using close_and_reset [OF assms(1) that] .
  show ?thesis
    using assms(2) k keeps_trans [OF k keeps_request_idr]
    by (simp add: process_stream_start_def Let_def reset_stream_file_state_def)
qed

lemma stop_keeps:
  assumes "holds (unat (ev_stream_id ev)) r" and "known_stream r (ev_stream_id ev)"
  shows "keeps (unat (ev_stream_id ev)) r (process_stream_stop e ev r) \<and>
    rs_fp (strm (process_stream_stop e ev r) (unat (ev_stream_id ev))) = None"
  using close_and_reset [OF assms(1), of "zero_stream\<lparr>rs_stream_id := ev_stream_id ev\<rparr>" e True] assms(2)
  by (simp add: process_stream_stop_def Let_def zero_stream_def)

section \<open>All streams\<close>

text \<open>The indices of the streams the recorder knows.\<close>

definition slots :: "rec_state \<Rightarrow> nat set" where
  "slots r = {1..unat (cr_max_streams r)}"

lemma finite_slots [simp]: "finite (slots r)"
  by (simp add: slots_def)

lemma slots_cong: "cr_max_streams r' = cr_max_streams r \<Longrightarrow> slots r' = slots r"
  by (simp add: slots_def)

definition owned :: "rec_state \<Rightarrow> bool" where
  "owned r \<longleftrightarrow> mset (rw_open r) = (\<Sum>i\<in>slots r. fp_of (strm r i)) \<and>
     (\<forall>i\<in>slots r. waits i r)"

lemma owned_holds: "owned r \<Longrightarrow> i \<in> slots r \<Longrightarrow> holds i r \<and> waits i r"
  by (auto simp: owned_def holds_def sum.remove [of "slots r" i])

lemma owned_keeps:
  assumes "owned r" and "keeps i r r'" and "waits i r'" and "i \<in> slots r"
  shows "owned r'"
proof -
  let ?A = "slots r"
  have sl: "slots r' = slots r" using assms(2) by (intro slots_cong) (simp add: keeps_def)
  have m: "cr_max_streams r' = cr_max_streams r" and o: "\<And>j. j \<noteq> i \<Longrightarrow> strm r' j = strm r j"
    and h: "mset (rw_open r') + fp_of (strm r i) = mset (rw_open r) + fp_of (strm r' i)"
    using assms(2) by (simp_all add: keeps_def)
  have rest: "(\<Sum>j\<in>?A - {i}. fp_of (strm r' j)) = (\<Sum>j\<in>?A - {i}. fp_of (strm r j))"
    by (rule sum.cong) (auto simp: o)
  have "mset (rw_open r) = fp_of (strm r i) + (\<Sum>j\<in>?A - {i}. fp_of (strm r j))"
    using assms(1,4) by (simp add: owned_def sum.remove [of ?A i])
  then have "mset (rw_open r') + fp_of (strm r i) =
      (fp_of (strm r' i) + (\<Sum>j\<in>?A - {i}. fp_of (strm r j))) + fp_of (strm r i)"
    unfolding h by (simp add: ac_simps)
  then have "mset (rw_open r') = fp_of (strm r' i) + (\<Sum>j\<in>?A - {i}. fp_of (strm r' j))"
    unfolding rest by simp
  moreover have "waits j r'" if "j \<in> ?A" for j
    using assms(1,3) that o [of j] by (cases "j = i") (simp_all add: owned_def waits_def)
  ultimately show ?thesis using assms(4) m sl by (simp add: owned_def sum.remove [of ?A i])
qed

lemma known_range: "known_stream r sid \<Longrightarrow> unat sid \<in> slots r"
  by (simp add: known_stream_def slots_def word_le_nat_alt) (metis One_nat_def Suc_leI unat_gt_0)

lemma event_owned:
  assumes "owned r" and "\<not> cr_require_nfs_mount r"
  shows "owned (process_event e ev r) \<and> cr_require_nfs_mount (process_event e ev r) = cr_require_nfs_mount r \<and>
    cr_max_streams (process_event e ev r) = cr_max_streams r \<and> cr_running (process_event e ev r) = cr_running r \<and>
    cr_configured (process_event e ev r) = cr_configured r \<and> cr_queue (process_event e ev r) = cr_queue r"
proof (cases "known_stream r (ev_stream_id ev)")
  case False
  then have "process_event e ev r = r"
    by (simp add: process_event_def process_stream_start_def process_stream_stop_def process_video_def
        split: RecorderEventType.split)
  then show ?thesis using assms by simp
next
  case True
  let ?i = "unat (ev_stream_id ev)"
  note hw = owned_holds [OF assms(1) known_range [OF True]]
  have "keeps ?i r (process_event e ev r) \<and> waits ?i (process_event e ev r)"
    using video_keeps [of ev r e] start_keeps [of ev r e] stop_keeps [of ev r e] hw assms(2) True
    by (simp add: process_event_def waits_def split: RecorderEventType.split)
  then show ?thesis
    using owned_keeps [OF assms(1) _ _ known_range [OF True]] by (simp add: keeps_def)
qed

lemma turn_owned:
  assumes "owned r" and "\<not> cr_require_nfs_mount r"
  shows "owned (recorder_turn e r) \<and> \<not> cr_require_nfs_mount (recorder_turn e r) \<and>
    cr_running (recorder_turn e r) = cr_running r \<and> cr_configured (recorder_turn e r) = cr_configured r \<and>
    cr_max_streams (recorder_turn e r) = cr_max_streams r \<and> cr_queue (recorder_turn e r) = tl (cr_queue r)"
proof (cases "cr_queue r")
  case Nil
  then show ?thesis using assms by (simp add: recorder_turn_def dequeue_event_def)
next
  case (Cons ev evs)
  let ?r = "r\<lparr>cr_queue := evs, cr_queued_events := cr_queued_events r - 1,
     cr_queued_bytes := cr_queued_bytes r - event_bytes ev\<rparr>"
  have o: "owned ?r" using assms(1) by (simp add: owned_def waits_def slots_def)
  have n: "\<not> cr_require_nfs_mount ?r" using assms(2) by simp
  show ?thesis
    using event_owned [OF o n, of e ev] assms(2) Cons by (simp add: recorder_turn_def dequeue_event_def)
qed

lemma drain_owned:
  "owned r \<Longrightarrow> \<not> cr_require_nfs_mount r \<Longrightarrow> owned (recorder_drain envs n r) \<and>
    \<not> cr_require_nfs_mount (recorder_drain envs n r) \<and>
    cr_max_streams (recorder_drain envs n r) = cr_max_streams r \<and>
    cr_queue (recorder_drain envs n r) = drop n (cr_queue r)"
proof (induction n arbitrary: r)
  case (Suc n)
  then show ?case using turn_owned [OF Suc.prems, of "envs n"] by (simp add: drop_Suc)
qed simp

lemma close_stream_keeps:
  assumes "holds i r"
  shows "keeps i r (close_stream e i r) \<and> rs_fp (strm (close_stream e i r) i) = None"
  using close_and_reset [OF assms, of "free_param_sets (strm (snd (close_segment e i True r)) i)" e True]
  by (simp add: close_stream_def Let_def free_param_sets_def)

lemma close_range:
  assumes "owned r" and "set is \<subseteq> slots r"
  shows "owned (fold (close_stream e) is r) \<and> cr_max_streams (fold (close_stream e) is r) = cr_max_streams r \<and>
    (\<forall>i \<in> set is. rs_fp (strm (fold (close_stream e) is r) i) = None) \<and>
    (\<forall>i. rs_fp (strm r i) = None \<longrightarrow> rs_fp (strm (fold (close_stream e) is r) i) = None)"
  using assms
proof (induction "is" arbitrary: r)
  case (Cons i "is")
  have i: "i \<in> slots r" using Cons.prems(2) by simp
  note ck = close_stream_keeps [OF conjunct1 [OF owned_holds [OF Cons.prems(1) i]], of e]
  have o: "owned (close_stream e i r)" and m: "cr_max_streams (close_stream e i r) = cr_max_streams r"
    and rest: "\<And>j. j \<noteq> i \<Longrightarrow> strm (close_stream e i r) j = strm r j"
    using owned_keeps [OF Cons.prems(1) _ _ i, of "close_stream e i r"] ck by (simp_all add: waits_def keeps_def)
  have sub: "set is \<subseteq> slots (close_stream e i r)" using Cons.prems(2) slots_cong [OF m] by simp
  have keep: "rs_fp (strm (close_stream e i r) j) = None" if "rs_fp (strm r j) = None" for j
    using that ck rest [of j] by (cases "j = i") simp_all
  show ?case using Cons.IH [OF o sub] m ck keep by simp
qed simp

lemma close_streams_none:
  assumes "owned r"
  shows "rw_open (close_streams e r) = []"
proof -
  define ks where "ks = [1..<Suc (unat (cr_max_streams r))]"
  have s: "set ks = slots r" by (auto simp: ks_def slots_def)
  have c: "close_streams e r = fold (close_stream e) ks r" by (simp only: close_streams_def ks_def)
  from close_range [OF assms, of ks e] s
  have "owned (close_streams e r)" "slots (close_streams e r) = slots r"
    "\<forall>i\<in>slots r. rs_fp (strm (close_streams e r) i) = None"
    unfolding c by (simp_all add: slots_def)
  then have "mset (rw_open (close_streams e r)) = {#}"
    by (auto simp: owned_def fp_of_def intro!: sum.neutral)
  then show ?thesis by simp
qed

section \<open>Runs of the recorder\<close>

inductive recorder_step :: "rec_state \<Rightarrow> rec_state \<Rightarrow> bool" where
  start: "rc_require_nfs_mount cfg = False \<Longrightarrow>
    compressed_recorder_start e ok (Some cfg) cb r = (rc, r') \<Longrightarrow> recorder_step r r'"
| enqueue: "recorder_step r (enqueue_event ev r)"
| turn: "cr_running r \<Longrightarrow> recorder_step r (recorder_turn e r)"
| callback: "recorder_step r (compressed_recorder_set_request_idr_callback cb r)"
| stop: "recorder_step r (compressed_recorder_stop envs e r)"

inductive recorder_reachable :: "rec_state \<Rightarrow> bool" where
  init: "recorder_reachable no_recorder"
| step: "recorder_reachable r \<Longrightarrow> recorder_step r r' \<Longrightarrow> recorder_reachable r'"

inductive_cases recorder_stepE: "recorder_step r r'"

definition recorder_inv :: "rec_state \<Rightarrow> bool" where
  "recorder_inv r \<longleftrightarrow> owned r \<and> \<not> cr_require_nfs_mount r \<and> (\<not> cr_running r \<longrightarrow> rw_open r = []) \<and>
     (cr_running r \<longrightarrow> cr_configured r)"

lemma owned_zero: "rw_open r = [] \<Longrightarrow> owned (zero_recorder r) \<and> owned (zero_recorder r\<lparr>cr_max_streams := m\<rparr>)"
  by (simp add: owned_def zero_recorder_def no_recorder_def zero_stream_def fp_of_def waits_def slots_def)

lemma stop_closed:
  assumes "owned r" and "\<not> cr_require_nfs_mount r" and "cr_configured r"
  shows "rw_open (compressed_recorder_stop envs e r) = []"
proof -
  let ?r = "r\<lparr>cr_accepting := False, cr_running := False\<rparr>"
  have "owned ?r" "\<not> cr_require_nfs_mount ?r" using assms(1,2) by (simp_all add: owned_def waits_def slots_def)
  then have "owned (recorder_drain envs (length (cr_queue r)) ?r)" using drain_owned by blast
  from close_streams_none [OF this, of e]
  show ?thesis using assms(3) by (simp add: compressed_recorder_stop_def recorder_thread_end_def zero_recorder_def)
qed

lemma start_inv:
  assumes "compressed_recorder_start e ok (Some cfg) cb r = (rc, r')" and "recorder_inv r"
    and "\<not> rc_require_nfs_mount cfg"
  shows "recorder_inv r'"
proof (cases "rc_record_dir cfg = [] \<or> cr_running r")
  case True
  then have "compressed_recorder_start e ok (Some cfg) cb r = (0, r)"
    by (cases "rc_record_dir cfg = []") (simp_all add: compressed_recorder_start_def)
  then show ?thesis using assms by simp
next
  case False
  then have o: "rw_open r = []" using assms(2) by (simp add: recorder_inv_def)
  have blank: "recorder_inv t" if "rw_open t = []" "cr_streams t = (\<lambda>_. zero_stream)" "\<not> cr_require_nfs_mount t"
    "cr_running t \<longrightarrow> cr_configured t" for t
    using that by (simp add: recorder_inv_def owned_def waits_def fp_of_def zero_stream_def)
  show ?thesis
    using assms(1,3) False o
    by (auto simp: compressed_recorder_start_def Let_def zero_recorder_def no_recorder_def
        intro!: blank split: if_splits)
qed

lemma recorder_step_inv: "recorder_step r r' \<Longrightarrow> recorder_inv r \<Longrightarrow> recorder_inv r'"
proof (induction rule: recorder_step.induct)
  case (start cfg e ok cb r rc r')
  then show ?case using start_inv by simp
next
  case (enqueue r ev)
  then show ?case by (auto simp: enqueue_event_def recorder_inv_def owned_def waits_def slots_def)
next
  case (turn r e)
  then have o: "owned r" "\<not> cr_require_nfs_mount r" by (simp_all add: recorder_inv_def)
  show ?case using turn turn_owned [OF o, of e] by (simp add: recorder_inv_def)
next
  case (callback r cb)
  then show ?case
    by (auto simp: compressed_recorder_set_request_idr_callback_def recorder_inv_def owned_def waits_def slots_def)
next
  case (stop r envs e)
  show ?case
  proof (cases "cr_configured r")
    case False
    then show ?thesis using stop by (simp add: compressed_recorder_stop_def)
  next
    case True
    have "rw_open (compressed_recorder_stop envs e r) = []"
      using stop_closed [OF _ _ True] stop by (simp add: recorder_inv_def)
    then show ?thesis
      using True owned_zero by (simp add: compressed_recorder_stop_def recorder_inv_def zero_recorder_def no_recorder_def)
  qed
qed

lemma recorder_reachable_inv: "recorder_reachable r \<Longrightarrow> recorder_inv r"
proof (induction rule: recorder_reachable.induct)
  case init
  then show ?case
    by (simp add: recorder_inv_def owned_def no_recorder_def zero_stream_def fp_of_def waits_def)
next
  case (step r r')
  then show ?case by (blast intro: recorder_step_inv)
qed

text \<open>C39: without the NFS requirement the recorder leaks no file: in every reachable state the open
  handles are exactly those of the streams with a segment, one each, and after a stop none is
  open; a stream that waits for a keyframe has no segment.\<close>

theorem recorder_handles:
  assumes "recorder_reachable r"
  shows "mset (rw_open r) = (\<Sum>i\<in>slots r. fp_of (strm r i)) \<and>
    (\<forall>i\<in>slots r. \<not> (rs_waiting_keyframe (strm r i) \<and> rs_fp (strm r i) \<noteq> None)) \<and>
    rw_open (compressed_recorder_stop envs e r) = []"
proof -
  note v = recorder_reachable_inv [OF assms]
  have "rw_open (compressed_recorder_stop envs e r) = []"
  proof (cases "cr_configured r")
    case True
    then show ?thesis using stop_closed v by (simp add: recorder_inv_def)
  next
    case False
    then have "rw_open r = []" using v by (auto simp: recorder_inv_def)
    then show ?thesis using False by (simp add: compressed_recorder_stop_def)
  qed
  then show ?thesis using v by (auto simp: recorder_inv_def owned_def waits_def)
qed

text \<open>A start, a stream's events and what the reachable state of a concrete run is.\<close>

definition ex_config_rec :: CompressedRecorderConfig where
  "ex_config_rec = compressed_recorder_config_defaults\<lparr>rc_record_dir := ''/rec''\<rparr>"

lemma ex_started:
  obtains r where "compressed_recorder_start ex_rec_env True (Some ex_config_rec) True no_recorder = (0, r)"
    "rw_open r = []" "cr_max_streams r = 20"
proof -
  have "mkdir_p ex_rec_env ''/rec/raw'' = 0" by (rule mkdir_healthy [OF ex_healthy]) simp
  then show ?thesis
    using that by (simp add: compressed_recorder_start_def ex_config_rec_def compressed_recorder_config_defaults_def
        Let_def no_recorder_def zero_recorder_def MAX_STREAMS_def DEFAULT_MAX_STREAMS_def)
qed

theorem recorder_handles_witness:
  "\<exists>r. compressed_recorder_start ex_rec_env True (Some ex_config_rec) True no_recorder = (0, r) \<and>
     recorder_reachable r \<and> rw_open (compressed_recorder_stop (\<lambda>_. ex_rec_env) ex_rec_env r) = []"
proof -
  obtain r where r: "compressed_recorder_start ex_rec_env True (Some ex_config_rec) True no_recorder = (0, r)"
    using ex_started .
  have "rc_require_nfs_mount ex_config_rec = False"
    by (simp add: ex_config_rec_def compressed_recorder_config_defaults_def)
  then have reach: "recorder_reachable r"
    using recorder_reachable.step [OF recorder_reachable.init recorder_step.start [OF _ r]] by blast
  show ?thesis using r reach recorder_handles [OF reach, of "\<lambda>_. ex_rec_env" ex_rec_env] by blast
qed

section \<open>Losing and regaining the mount\<close>

text \<open>An armed stream of a recorder whose mount is gone and was checked less than a second ago.\<close>

definition unmounted :: "rec_state \<Rightarrow> u16 \<Rightarrow> u64 \<Rightarrow> bool" where
  "unmounted r sid now \<longleftrightarrow> armed (r\<lparr>cr_nfs_mounted := True\<rparr>) sid \<and> cr_require_nfs_mount r \<and>
     \<not> cr_nfs_mounted r \<and> cr_last_mount_check_ns r \<noteq> 0 \<and>
     now - cr_last_mount_check_ns r < NFS_MOUNT_CHECK_INTERVAL_NS"

lemma unmounted_video:
  assumes "unmounted r sid (ev_mono_ns ev)" and "packet sid (e, ev)"
    and "analyze_payload True (ev_data ev) (strm r (unat sid)) = (s1, key)"
  shows "process_video e ev r = recorder_skip_unmounted (unat sid) (ev_mono_ns ev) (set_strm (unat sid) s1 r)"
proof -
  have "recorder_storage_available e (ev_mono_ns ev) (set_strm (unat sid) s1 r) = (False, set_strm (unat sid) s1 r)"
    using assms(1) by (auto simp: recorder_storage_available_def unmounted_def set_strm_def not_le)
  then show ?thesis
    using assms by (simp add: process_video_def unmounted_def armed_def packet_def Let_def healthy_def
        known_stream_def)
qed

text \<open>The check that finds the mount again amounts to a mount that was there.\<close>

lemma remounted_video:
  assumes "cr_require_nfs_mount r" and "\<not> cr_nfs_mounted r"
    and "ev_mono_ns ev - cr_last_mount_check_ns r \<ge> NFS_MOUNT_CHECK_INTERVAL_NS"
    and "path_has_nfs_mount e (cr_record_dir r)" and "armed (r\<lparr>cr_nfs_mounted := True\<rparr>) sid"
    and "packet sid (e, ev)"
  shows "process_video e ev r =
    process_video e ev (r\<lparr>cr_last_mount_check_ns := ev_mono_ns ev, cr_nfs_mounted := True\<rparr>)"
proof -
  let ?r = "r\<lparr>cr_last_mount_check_ns := ev_mono_ns ev, cr_nfs_mounted := True\<rparr>"
  have "recorder_storage_available e (ev_mono_ns ev) (set_strm i s r) =
      recorder_storage_available e (ev_mono_ns ev) (set_strm i s ?r)" for i s
    using assms(1-4) by (simp add: recorder_storage_available_def set_strm_def)
  then show ?thesis
    using assms(5,6) by (simp add: process_video_def armed_def packet_def known_stream_def Let_def)
qed

text \<open>C40: a segment that is open when the mount is lost is abandoned: the packets that arrive
  meanwhile only mark the stream as waiting, its handle stays open, and when the mount is back
  the next keyframe opens a new segment over it, so nobody can close or finish the old one.\<close>

theorem remount_abandons_segment:
  assumes "unmounted r sid (ev_mono_ns ev1)" and "packet sid (e1, ev1)" and "packet sid (e2, ev2)"
    and "ev_mono_ns ev2 - cr_last_mount_check_ns r \<ge> NFS_MOUNT_CHECK_INTERVAL_NS"
    and "path_has_nfs_mount e2 (cr_record_dir r)"
    and "analyze_payload True (ev_data ev1) (strm r (unat sid)) = (s1, key1)"
    and "analyze_payload True (ev_data ev2) (s1\<lparr>rs_waiting_keyframe := True, rs_rollover_pending := False\<rparr>) = (s2, True)"
    and "params_ready s2" and "rs_fp (strm r (unat sid)) = Some p" and "p \<in> set (rw_open r)"
  shows "let r1 = process_video e1 ev1 r; r2 = process_video e2 ev2 r1 in
    rs_fp (strm r1 (unat sid)) = Some p \<and> rs_waiting_keyframe (strm r1 (unat sid)) \<and>
    rw_open r1 = rw_open r \<and> rw_files r1 = rw_files r \<and>
    (\<exists>q. rs_fp (strm r2 (unat sid)) = Some q \<and> rw_open r2 = q # rw_open r)"
proof -
  let ?i = "unat sid"
  let ?t = "s1\<lparr>rs_waiting_keyframe := True, rs_rollover_pending := False\<rparr>"
  note af = analyze_payload_frame [OF assms(6)]
  define r1 where "r1 = recorder_skip_unmounted ?i (ev_mono_ns ev1) (set_strm ?i s1 r)"
  have run1: "process_video e1 ev1 r = r1"
    using unmounted_video [OF assms(1,2,6)] by (simp add: r1_def)
  have v1: "strm r1 ?i = ?t" "rw_open r1 = rw_open r" "rw_files r1 = rw_files r"
    "cr_require_nfs_mount r1 = cr_require_nfs_mount r" "cr_nfs_mounted r1 = cr_nfs_mounted r"
    "cr_last_mount_check_ns r1 = cr_last_mount_check_ns r" "cr_record_dir r1 = cr_record_dir r"
    "cr_max_streams r1 = cr_max_streams r" "cr_raw_dir r1 = cr_raw_dir r" "cr_segment_sec r1 = cr_segment_sec r"
    by (simp_all add: r1_def recorder_skip_unmounted_def Let_def recorder_note_mount_skip_def set_strm_def)
  have s1: "rs_fp s1 = Some p" by (subst af(1)) (simp add: assms(9))
  let ?m = "r1\<lparr>cr_nfs_mounted := True\<rparr>"
  have a0: "armed (r\<lparr>cr_nfs_mounted := True\<rparr>) sid" using assms(1) by (simp add: unmounted_def)
  have t: "rs_active ?t = rs_active (strm r ?i)" "rs_enabled ?t = rs_enabled (strm r ?i)"
    "rs_codec ?t = rs_codec (strm r ?i)" "rs_ext ?t = rs_ext (strm r ?i)"
    by (subst af(1), simp)+
  have am: "armed ?m sid"
    using a0 v1 t af(2) by (simp add: armed_def known_stream_def Let_def)
  let ?m2 = "r1\<lparr>cr_last_mount_check_ns := ev_mono_ns ev2, cr_nfs_mounted := True\<rparr>"
  have am2: "armed ?m2 sid" using am by (simp add: armed_def known_stream_def Let_def)
  have run2: "process_video e2 ev2 r1 = process_video e2 ev2 ?m2"
    by (rule remounted_video [OF _ _ _ _ am assms(3)])
      (use assms(1,4,5) v1 in \<open>simp_all add: unmounted_def\<close>)
  have w2: "rs_waiting_keyframe (strm ?m2 ?i)" using v1(1) by simp
  have an2: "analyze_payload True (ev_data ev2) (strm ?m2 ?i) = (s2, True)" using assms(7) v1(1) by simp
  obtain q r2 where o: "process_video e2 ev2 ?m2 = r2" "rs_fp (strm r2 ?i) = Some q" "rw_open r2 = q # rw_open ?m2"
    using video_open [OF am2 assms(3) w2 an2 TrueI assms(8)] by metis
  show ?thesis
    using run1 run2 o v1(1-3) s1 by (simp add: Let_def)
qed

definition ex_lost :: rec_state where
  "ex_lost = ex_recorder\<lparr>cr_require_nfs_mount := True, cr_record_dir := ''/rec'', cr_last_mount_check_ns := 100,
     cr_streams := (\<lambda>_. zero_stream)(2 := ex_armed\<lparr>rs_waiting_keyframe := False, rs_fp := Some ''/rec/raw/old.tmp''\<rparr>),
     rw_open := [''/rec/raw/old.tmp'']\<rparr>"

definition ex_late :: "u64 \<Rightarrow> u8 list \<Rightarrow> rec_env \<times> RecorderEvent" where
  "ex_late t d = (ex_rec_env\<lparr>re_mounts := [(''nfs'', ''/rec'')]\<rparr>, (snd (ex_packet 5000 d))\<lparr>ev_mono_ns := t\<rparr>)"

theorem remount_abandons_segment_witness:
  "\<exists>q. let e1 = fst (ex_late 200 ex_inter); ev1 = snd (ex_late 200 ex_inter);
         e2 = fst (ex_late 2000000000 ex_key); ev2 = snd (ex_late 2000000000 ex_key) in
     rw_open (process_video e2 ev2 (process_video e1 ev1 ex_lost)) = [q, ''/rec/raw/old.tmp'']"
proof -
  let ?e = "ex_rec_env\<lparr>re_mounts := [(''nfs'', ''/rec'')]\<rparr>"
  let ?ev1 = "(snd (ex_packet 5000 ex_inter))\<lparr>ev_mono_ns := 200\<rparr>"
  let ?ev2 = "(snd (ex_packet 5000 ex_key))\<lparr>ev_mono_ns := 2000000000\<rparr>"
  have h: "healthy ?e" using ex_healthy by (simp add: healthy_def)
  have st: "strm ex_lost (unat (2 :: u16)) = ex_armed\<lparr>rs_waiting_keyframe := False, rs_fp := Some ''/rec/raw/old.tmp''\<rparr>"
    by (simp add: ex_lost_def)
  have 1: "unmounted ex_lost 2 (ev_mono_ns ?ev1)"
    by (simp add: unmounted_def armed_def ex_lost_def ex_recorder_def no_recorder_def known_stream_def
        ex_armed_def zero_stream_def codec_supported_def NFS_MOUNT_CHECK_INTERVAL_NS_def)
  have 2: "packet 2 (?e, ?ev1)" "packet 2 (?e, ?ev2)"
    using h by (simp_all add: packet_def ex_packet_def ex_inter_def ex_key_def)
  have 3: "ev_mono_ns ?ev2 - cr_last_mount_check_ns ex_lost \<ge> NFS_MOUNT_CHECK_INTERVAL_NS"
    by (simp add: ex_lost_def NFS_MOUNT_CHECK_INTERVAL_NS_def)
  have 4: "path_has_nfs_mount ?e (cr_record_dir ex_lost)"
    by (simp add: path_has_nfs_mount_def ex_lost_def path_is_under_mountpoint_def numeral_eq_Suc)
  let ?s1 = "strm ex_lost (unat (2 :: u16))"
  let ?t = "?s1\<lparr>rs_waiting_keyframe := True, rs_rollover_pending := False\<rparr>"
  have c: "rs_codec ?s1 = 0" "rs_params ?s1 = [None, None, None]" unfolding st by (simp_all add: ex_armed_def zero_stream_def)
  have 5: "analyze_payload True (ev_data ?ev1) ?s1 = (?s1, False)"
    using c by (simp add: ex_packet_def ex_analysis)
  obtain s2 where 6: "analyze_payload True (ev_data ?ev2) ?t = (s2, True)" "params_ready s2"
    using c by (simp add: ex_packet_def ex_analysis)
  have 7: "rs_fp ?s1 = Some ''/rec/raw/old.tmp''" "''/rec/raw/old.tmp'' \<in> set (rw_open ex_lost)"
    unfolding st by (simp_all add: ex_lost_def)
  from remount_abandons_segment [OF 1 2 3 4 5 6 7] show ?thesis
    by (auto simp: Let_def ex_late_def) (auto simp: ex_lost_def)
qed

end
