(* ===== verification/StreamLife.thy ===== *)
theory StreamLife
  imports StreamRes StreamRoute
begin

text \<open>
  The stream manager over its life: the stress test, the reachable states, what is left when
  the manager is destroyed, and the routing of streams to decoder backends.
\<close>

section \<open>The stress test\<close>

lemma start_virtual_ok:
  "start_virtual env es now b source src i k mgr w = (ids, mgr', w') \<Longrightarrow> mgr_ok mgr w \<Longrightarrow>
   mgr_ok mgr' w' \<and> sm_max_streams mgr' = sm_max_streams mgr \<and> sm_locked mgr' = sm_locked mgr"
proof (induction env es now b source src i k mgr w arbitrary: ids rule: start_virtual.induct)
  case (2 env es now b source src i k mgr w)
  let ?v = "virtual_id source i"
  show ?case
  proof (cases "?v > unat (sm_max_streams mgr)")
    case False
    show ?thesis
    proof (cases "stream_manager_get mgr (of_nat ?v)")
      case None
      then show ?thesis using "2.prems" "2.IH"(1) [OF refl False None] False by (simp add: Let_def)
    next
      case (Some j)
      let ?s = "(sm_streams mgr j)\<lparr>st_info := st_info (sm_streams mgr src), st_info_received := True,
          st_state := STREAM_STATE_ACTIVE\<rparr>"
      note lt = stream_manager_get_lt [OF Some]
      obtain rc s1 w1 where ini: "stream_init_decoder env (es i) now b ?s w = (rc, s1, w1)"
        by (metis prod_cases3)
      obtain ids2 mgr2 w2 where rest: "start_virtual env es now b source src (Suc i) k (put_stream j s1 mgr) w1 =
          (ids2, mgr2, w2)" by (metis prod_cases3)
      have rest': "start_virtual env es now b source src (Suc i) k (put_stream j s1 mgr) w1 = (ids2, mgr', w')"
        using "2.prems"(1) False Some ini rest by (simp add: Let_def)
      note ss = slot_move_same [of "sm_streams mgr j" ?s]
      have same: "same_slot (sm_streams mgr j) ?s" by (simp add: same_slot_def)
      have "slot_move ?s w s1 w1"
        using init_decoder_move(1) [OF ini] mgr_ok_slot [OF "2.prems"(2) lt] ss(3,4) [OF same] by blast
      then have "mgr_ok (put_stream j s1 mgr) w1"
        using mgr_ok_put [OF "2.prems"(2) lt] ss(1) [OF same] by blast
      then show ?thesis
        using "2.IH"(2) [OF refl False Some refl ini [symmetric] refl rest'] by simp
    qed
  qed (use 2 in \<open>auto simp: Let_def\<close>)
qed simp

lemma start_stress_ok:
  assumes "stream_manager_start_stress_test env es now mok source n b mgr w = Some (rc, mgr', w')"
    and "mgr_ok mgr w" and "\<not> sm_locked mgr"
  shows "mgr_ok mgr' w'" "\<not> sm_locked mgr'" "sm_max_streams mgr' = sm_max_streams mgr"
proof -
  have lk: "mgr_lock mgr = Some (mgr\<lparr>sm_locked := True\<rparr>)" using assms(3) by (simp add: mgr_lock_def)
  have off: "\<not> ss_enabled (sm_stress_test mgr)" if "1 \<le> n" "n \<le> uint (sm_max_streams mgr)"
    using assms(1) lk that
    by (auto simp: stream_manager_start_stress_test_def stream_manager_stop_stress_test_def mgr_lock_def)
  let ?m = "mgr\<lparr>sm_locked := True\<rparr>"
  have m: "mgr_ok ?m w" using assms(2) by simp
  have "mgr_ok mgr' w' \<and> \<not> sm_locked mgr' \<and> sm_max_streams mgr' = sm_max_streams mgr"
  proof (cases "n < 1 \<or> n > uint (sm_max_streams mgr)")
    case True
    then show ?thesis using assms by (simp add: stream_manager_start_stress_test_def)
  next
    case False
    then have eq: "stream_manager_start_stress_test env es now mok source n b mgr w =
      (case stream_manager_get ?m source of
          None \<Rightarrow> Some (- 1, mgr_unlock ?m, w)
        | Some src \<Rightarrow>
            if \<not> st_info_received (sm_streams ?m src) \<or> \<not> mok then Some (- 1, mgr_unlock ?m, w)
            else case start_virtual env es now b source src 0 (nat n) ?m w of (ids, mgr2, w2) \<Rightarrow>
              if ids = [] then
                Some (- 1, mgr_unlock (set_stress (\<lambda>c. c\<lparr>ss_virtual_stream_ids := []\<rparr>) mgr2), w2)
              else
                Some (0, mgr_unlock (set_stress (\<lambda>c. \<lparr>ss_enabled = True, ss_source_stream_id = source,
                  ss_num_virtual_streams = length ids, ss_virtual_stream_ids = ids, ss_backend = b,
                  ss_start_time = now, ss_end_time = 0,
                  ss_queues = replicate (length ids) \<lparr>sq_data = [], sq_room = 256 * 1024, sq_ready = False\<rparr>,
                  ss_threads_running = True\<rparr>) mgr2), w2))"
      using off lk by (simp add: stream_manager_start_stress_test_def)
    show ?thesis
    proof (cases "stream_manager_get ?m source")
      case (Some src)
      obtain ids mgr2 w2 where st: "start_virtual env es now b source src 0 (nat n) ?m w = (ids, mgr2, w2)"
        by (metis prod_cases3)
      show ?thesis using assms(1) unfolding eq Some option.case st prod.case
        using start_virtual_ok [OF st m] assms(2) by (auto split: if_splits)
    qed (use assms(1,2) eq in auto)
  qed
  then show "mgr_ok mgr' w'" "\<not> sm_locked mgr'" "sm_max_streams mgr' = sm_max_streams mgr" by auto
qed

lemma stress_worker_ok:
  assumes "stress_decode_worker rok ans now k mgr w = Some (mgr', w')" and "mgr_ok mgr w"
  shows "mgr_ok mgr' w'" "sm_locked mgr' = sm_locked mgr" "sm_max_streams mgr' = sm_max_streams mgr"
proof -
  let ?m = "set_stress (\<lambda>c. c\<lparr>ss_queues := (ss_queues c)[k := (ss_queues (sm_stress_test mgr) ! k)\<lparr>sq_ready := False\<rparr>]\<rparr>) mgr"
  have "(mgr', w') = (mgr, w) \<or> (mgr', w') = (?m, w) \<or>
    (\<exists>i ret s data. stream_manager_get ?m (of_nat (ss_virtual_stream_ids (sm_stress_test mgr) ! k)) = Some i \<and>
       stream_decode_video ans now data (sm_streams ?m i) w = Some (ret, s, w') \<and> mgr' = put_stream i s ?m)"
    using assms(1) by (auto simp: stress_decode_worker_def Let_def split: if_splits option.splits)
  then have "mgr_ok mgr' w' \<and> sm_locked mgr' = sm_locked mgr \<and> sm_max_streams mgr' = sm_max_streams mgr"
  proof (elim disjE exE conjE)
    fix i ret s data
    assume i: "stream_manager_get ?m (of_nat (ss_virtual_stream_ids (sm_stress_test mgr) ! k)) = Some i"
      and d: "stream_decode_video ans now data (sm_streams ?m i) w = Some (ret, s, w')"
      and mgr': "mgr' = put_stream i s ?m"
    have m: "mgr_ok ?m w" using assms(2) by simp
    note lt = stream_manager_get_lt [OF i]
    have "slot_move (sm_streams ?m i) w s w'"
      using decode_video_move(1) [OF d] mgr_ok_slot [OF m lt] by blast
    then show ?thesis using mgr_ok_put [OF m lt] mgr' by simp
  qed (use assms(2) in auto)
  then show "mgr_ok mgr' w'" "sm_locked mgr' = sm_locked mgr" "sm_max_streams mgr' = sm_max_streams mgr"
    by blast+
qed

section \<open>Reachable states\<close>

text \<open>
  What the server's threads do to the manager, one operation under its locks at a time. A
  \<open>bookkeeping\<close> step changes counters, states, stream information or watchdog fields of a slot.
\<close>

inductive mgr_step :: "StreamManager \<Rightarrow> av_world \<Rightarrow> StreamManager \<Rightarrow> av_world \<Rightarrow> bool" where
  bookkeeping: "stream_manager_get mgr v = Some i \<Longrightarrow> same_slot (sm_streams mgr i) s \<Longrightarrow>
     mgr_step mgr w (put_stream i s mgr) w"
| init_decoder: "stream_manager_get mgr v = Some i \<Longrightarrow>
     stream_init_decoder env es now b (sm_streams mgr i) w = (rc, s, w') \<Longrightarrow>
     mgr_step mgr w (put_stream i s mgr) w'"
| close_decoder: "stream_manager_get mgr v = Some i \<Longrightarrow>
     stream_close_decoder (sm_streams mgr i) w = (s, w') \<Longrightarrow> mgr_step mgr w (put_stream i s mgr) w'"
| decode: "stream_manager_get mgr v = Some i \<Longrightarrow>
     stream_decode_video ans now data (sm_streams mgr i) w = Some (rc, s, w') \<Longrightarrow>
     mgr_step mgr w (put_stream i s mgr) w'"
| start_stress: "stream_manager_start_stress_test env es2 now mok source n b mgr w = Some (rc, mgr', w') \<Longrightarrow>
     mgr_step mgr w mgr' w'"
| stop_stress: "stream_manager_stop_stress_test now mgr w = Some (mgr', w') \<Longrightarrow> mgr_step mgr w mgr' w'"
| stress_data: "stream_stress_test_decode rok source data mgr = (rc, mgr') \<Longrightarrow> mgr_step mgr w mgr' w"
| stress_worker: "stress_decode_worker ok ans now k mgr w = Some (mgr', w') \<Longrightarrow> mgr_step mgr w mgr' w'"

inductive mgr_reachable :: "StreamManager \<Rightarrow> av_world \<Rightarrow> bool" where
  start: "stream_manager_init n = Some mgr \<Longrightarrow> mgr_reachable mgr av_world_init"
| step: "mgr_reachable mgr w \<Longrightarrow> mgr_step mgr w mgr' w' \<Longrightarrow> mgr_reachable mgr' w'"

definition mgr_inv :: "StreamManager \<Rightarrow> av_world \<Rightarrow> bool" where
  "mgr_inv mgr w \<longleftrightarrow> mgr_ok mgr w \<and> \<not> sm_locked mgr"

lemma slot_step_inv:
  assumes "mgr_inv mgr w" and "stream_manager_get mgr v = Some i" and "slot_move (sm_streams mgr i) w s w'"
  shows "mgr_inv (put_stream i s mgr) w'"
  using assms(1) mgr_ok_put [OF _ stream_manager_get_lt [OF assms(2)] assms(3)] by (simp add: mgr_inv_def)

lemma mgr_step_inv:
  assumes "mgr_step mgr w mgr' w'" and "mgr_inv mgr w"
  shows "mgr_inv mgr' w'"
  using assms
proof cases
  case (bookkeeping v i s)
  note sl = mgr_ok_slot [OF conjunct1 [OF assms(2) [unfolded mgr_inv_def]] stream_manager_get_lt [OF bookkeeping(3)]]
  show ?thesis unfolding bookkeeping(1,2)
    by (rule slot_step_inv [OF assms(2) bookkeeping(3) slot_move_frame [OF sl(1,2) bookkeeping(4)]])
next
  case (init_decoder v i env es now b rc s)
  note sl = mgr_ok_slot [OF conjunct1 [OF assms(2) [unfolded mgr_inv_def]] stream_manager_get_lt [OF init_decoder(2)]]
  show ?thesis unfolding init_decoder(1)
    by (rule slot_step_inv [OF assms(2) init_decoder(2) init_decoder_move(1) [OF init_decoder(3) sl]])
next
  case (close_decoder v i s)
  note sl = mgr_ok_slot [OF conjunct1 [OF assms(2) [unfolded mgr_inv_def]] stream_manager_get_lt [OF close_decoder(2)]]
  show ?thesis unfolding close_decoder(1)
    by (rule slot_step_inv [OF assms(2) close_decoder(2) close_decoder_move(1) [OF close_decoder(3) sl(1,2)]])
next
  case (decode v i ans now data rc s)
  note sl = mgr_ok_slot [OF conjunct1 [OF assms(2) [unfolded mgr_inv_def]] stream_manager_get_lt [OF decode(2)]]
  show ?thesis unfolding decode(1)
    by (rule slot_step_inv [OF assms(2) decode(2) decode_video_move(1) [OF decode(3) sl(1,2)]])
next
  case start_stress
  then show ?thesis using assms(2) start_stress_ok unfolding mgr_inv_def by (metis (no_types))
next
  case stop_stress
  then show ?thesis using assms(2) stop_stress_ok unfolding mgr_inv_def by blast
next
  case (stress_data rok source data rc)
  then show ?thesis using assms(2)
    by (auto simp: mgr_inv_def stream_stress_test_decode_def Let_def split: if_splits)
next
  case stress_worker
  then show ?thesis using assms(2) stress_worker_ok unfolding mgr_inv_def by blast
qed

lemma mgr_reachable_inv: "mgr_reachable mgr w \<Longrightarrow> mgr_inv mgr w"
proof (induction rule: mgr_reachable.induct)
  case (start n mgr)
  then show ?case using stream_manager_init_ok by (simp add: mgr_inv_def)
qed (rule mgr_step_inv)

section \<open>Destruction\<close>

lemma close_all_ok:
  "close_all ks mgr w = (mgr', w') \<Longrightarrow> mgr_ok mgr w \<Longrightarrow> \<forall>i \<in> set ks. i < unat (sm_max_streams mgr) \<Longrightarrow>
   mgr_ok mgr' w' \<and> sm_max_streams mgr' = sm_max_streams mgr \<and>
   (\<forall>i. i \<in> set ks \<or> st_decoder_ctx (sm_streams mgr i) = None \<longrightarrow> st_decoder_ctx (sm_streams mgr' i) = None)"
proof (induction ks mgr w rule: close_all.induct)
  case (2 i js mgr w)
  obtain s w1 where cl: "stream_close_decoder (sm_streams mgr i) w = (s, w1)" by fastforce
  have lt: "i < unat (sm_max_streams mgr)" using "2.prems"(3) by simp
  note c = close_decoder_move [OF cl mgr_ok_slot(1,2) [OF "2.prems"(2) lt]]
  have "mgr_ok (put_stream i s mgr) w1" by (rule mgr_ok_put [OF "2.prems"(2) lt c(1)])
  moreover have "close_all js (put_stream i s mgr) w1 = (mgr', w')" using "2.prems"(1) cl by simp
  ultimately have ih: "mgr_ok mgr' w' \<and> sm_max_streams mgr' = sm_max_streams mgr \<and>
    (\<forall>j. j \<in> set js \<or> st_decoder_ctx (sm_streams (put_stream i s mgr) j) = None \<longrightarrow>
       st_decoder_ctx (sm_streams mgr' j) = None)"
    using "2.IH" [OF cl [symmetric]] "2.prems"(3) by simp
  have "st_decoder_ctx (sm_streams (put_stream i s mgr) j) = None"
    if "j = i \<or> st_decoder_ctx (sm_streams mgr j) = None" for j
    using that c(2) by (auto simp: put_stream_def)
  then show ?case using ih by auto
qed simp

lemma no_decoder_nothing_owned:
  assumes "mgr_ok mgr w" and "\<And>i. i < MAX_STREAMS \<Longrightarrow> st_decoder_ctx (sm_streams mgr i) = None"
  shows "w_frames w = 0 \<and> w_avframes w = 0 \<and> w_device_refs w = 0 \<and> (\<forall>a. w_stats w a = None) \<and>
    \<not> g_cuda_device_master w \<and> g_cuda_device_users w = 0"
proof -
  have none: "st_last_frame (sm_streams mgr i) = None" if "i < MAX_STREAMS" for i
    using assms that by (auto simp: mgr_ok_def slot_ok_def)
  have "(\<Sum>i < MAX_STREAMS. slot_shared (sm_streams mgr i)) = 0" "(\<Sum>i < MAX_STREAMS. slot_va (sm_streams mgr i)) = 0"
    "(\<Sum>i < MAX_STREAMS. slot_avs (sm_streams mgr i)) = 0"
    "(\<Sum>i < MAX_STREAMS. frame_count (st_last_frame (sm_streams mgr i))) = 0"
    using assms(2) none by (simp_all add: slot_defs frame_amounts)
  moreover have "w_stats w a = None" for a
    using assms by (fastforce simp: mgr_ok_def slot_addr_def)
  ultimately show ?thesis using assms(1) by (simp add: mgr_ok_def device_ok_def unat_eq_zero)
qed

text \<open>C7: nothing leaks: whatever the server's threads did to the streams before, with any
  failure of FFmpeg, of the drivers or of the allocator, destroying the stream manager returns and leaves no
  frame, no \<open>AVFrame\<close>, no device reference and no transfer statistics behind, and the shared
  CUDA device is closed.\<close>

theorem destroy_leaves_nothing:
  assumes "mgr_reachable mgr w"
  shows "\<exists>mgr' w'. stream_manager_destroy now mgr w = Some (mgr', w') \<and>
    w_frames w' = 0 \<and> w_avframes w' = 0 \<and> w_device_refs w' = 0 \<and> (\<forall>a. w_stats w' a = None) \<and>
    \<not> g_cuda_device_master w' \<and> g_cuda_device_users w' = 0"
proof -
  have inv: "mgr_ok mgr w" "\<not> sm_locked mgr" using mgr_reachable_inv [OF assms] by (simp_all add: mgr_inv_def)
  have "\<exists>m1 w1. stream_manager_stop_stress_test now mgr w = Some (m1, w1)"
    using inv(2) by (auto simp: stream_manager_stop_stress_test_def mgr_lock_def Let_def split: prod.split)
  then obtain m1 w1 where m1: "(if ss_enabled (sm_stress_test mgr) then stream_manager_stop_stress_test now mgr w
      else Some (mgr, w)) = Some (m1, w1)" by (cases "ss_enabled (sm_stress_test mgr)") auto
  then have ok1: "mgr_ok m1 w1" using inv(1) stop_stress_ok(1) by (auto split: if_splits)
  obtain mgr' w' where cl: "close_all [0..<unat (sm_max_streams m1)] m1 w1 = (mgr', w')" by fastforce
  note c = close_all_ok [OF cl ok1]
  have "st_decoder_ctx (sm_streams mgr' i) = None" if "i < MAX_STREAMS" for i
    using c that ok1 by (cases "i < unat (sm_max_streams m1)") (auto simp: mgr_ok_def)
  then show ?thesis using no_decoder_nothing_owned [of mgr' w'] c cl m1
    by (simp add: stream_manager_destroy_def)
qed

text \<open>A manager with one stream, decoding on the graphics card.\<close>

lemma ex_cuda_init:
  assumes "\<not> st_decoder_initialized s"
  shows "\<exists>s' w'. stream_init_decoder env (\<lambda>_. ex_av True) 0 DECODE_BACKEND_NVIDIA s av_world_init = (0, s', w') \<and>
    w_device_refs w' = 2 \<and> w_avframes w' = 1 \<and> g_cuda_device_users w' = 1"
proof -
  let ?config = "stream_decoder_config env (st_info s) DECODE_BACKEND_NVIDIA"
  have cfg: "?config\<lparr>dc_backend := DECODE_BACKEND_NVIDIA\<rparr> = ?config" "dc_backend ?config = DECODE_BACKEND_NVIDIA"
    by (simp_all add: stream_decoder_config_def)
  obtain ctx w1 where c: "decoder_create (ex_av True) ?config av_world_init = (Some ctx, w1)"
    "\<not> dx_initialized ctx" "dc_backend (dx_config ctx) = DECODE_BACKEND_NVIDIA"
    "\<not> g_cuda_device_master w1" "g_cuda_device_users w1 = 0" "w_device_refs w1 = 0" "w_avframes w1 = 1"
    using ex_av_create [of ?config True av_world_init] cfg(2) by (simp add: av_world_init_def fresh_ctx_def)
  obtain ctx1 w2 where i: "decoder_init (ex_av True) None ctx w1 = (0, ctx1, w2)"
    "g_cuda_device_users w2 = 1" "w_device_refs w2 = 2" "w_avframes w2 = 1"
    using c(2-) by (simp add: decoder_init_def init_cuda_def acquire_shared_cuda_device_def ex_av_def
        acquire_existing_def acquire_install_def take_shared_def Let_def)
  have "try_backends (\<lambda>_. ex_av True) 0 (attempted_backends DECODE_BACKEND_NVIDIA) ?config av_world_init = (Some ctx1, w2)"
    by (simp add: attempted_backends_def cfg c(1) i(1))
  then show ?thesis using assms i by (simp add: stream_init_decoder_def adjust_chosen)
qed

theorem destroy_leaves_nothing_witness:
  "\<exists>mgr w mgr' w'. mgr_reachable mgr w \<and> w_device_refs w = 2 \<and> w_avframes w = 1 \<and>
     stream_manager_destroy 0 mgr w = Some (mgr', w') \<and> w_device_refs w' = 0 \<and> w_avframes w' = 0"
proof -
  obtain mgr where m: "stream_manager_init 1 = Some mgr" "stream_manager_get mgr 1 = Some 0"
    "\<not> st_decoder_initialized (sm_streams mgr 0)"
    by (simp add: stream_manager_init_def stream_manager_get_def MAX_STREAMS_def zero_stream_ctx_def)
  obtain s' w' where i: "stream_init_decoder (\<lambda>_. None) (\<lambda>_. ex_av True) 0 DECODE_BACKEND_NVIDIA
      (sm_streams mgr 0) av_world_init = (0, s', w')" "w_device_refs w' = 2" "w_avframes w' = 1"
    using ex_cuda_init [OF m(3)] by blast
  have "mgr_reachable (put_stream 0 s' mgr) w'"
    using mgr_reachable.step [OF mgr_reachable.start [OF m(1)] mgr_step.init_decoder [OF m(2) i(1)]] .
  then show ?thesis using destroy_leaves_nothing [of "put_stream 0 s' mgr" w' 0] i(2,3) by blast
qed

end
