(* ===== verification/ServerCtl.thy ===== *)
theory ServerCtl
  imports Stream MlCtl Recorder
begin

text \<open>
  How \<open>stream_server\<close> asks a worker for a keyframe (\<open>stream_server/src/server.c\<close>): the map from
  streams to the workers' control endpoints, the request datagram, the limiter of one request
  a second, and the two watchdogs that look at a slot after each video packet. Log lines and
  the reasons they print are left out.
\<close>

section \<open>Endpoints\<close>

record WorkerCtrlEndpoint =
  we_valid :: bool
  we_ip :: string
  we_port :: u16

type_synonym ctrl_map = "nat \<Rightarrow> WorkerCtrlEndpoint"

definition empty_ctrl_map :: ctrl_map where
  "empty_ctrl_map = (\<lambda>_. \<lparr>we_valid = False, we_ip = [], we_port = 0\<rparr>)"

definition server_runtime_max_streams :: "c_env \<Rightarrow> int" where
  "server_runtime_max_streams env = (case env ''STREAM_MAX_STREAMS'' of
     None \<Rightarrow> int DEFAULT_MAX_STREAMS
   | Some v \<Rightarrow>
       if v = [] then int DEFAULT_MAX_STREAMS
       else (case strtol10 v of (parsed, rest, some) \<Rightarrow>
         if \<not> some \<or> rest \<noteq> [] then int DEFAULT_MAX_STREAMS
         else if parsed < 1 then 1
         else if parsed > int MAX_STREAMS then int MAX_STREAMS
         else parsed))"

definition trim_ascii :: "string \<Rightarrow> string" where
  "trim_ascii s = trim_right c_isspace (dropWhile c_isspace s)"

definition set_worker_ctrl_endpoint :: "c_env \<Rightarrow> u32 \<Rightarrow> string \<Rightarrow> int \<Rightarrow> ctrl_map \<Rightarrow> ctrl_map" where
  "set_worker_ctrl_endpoint env stream_id ip port m =
     (if stream_id = 0 \<or> uint stream_id > server_runtime_max_streams env \<or> ip = [] \<or> port \<le> 0 \<or> port > 65535
      then m
      else m(unat stream_id := \<lparr>we_valid = True, we_ip = snprintf_s 64 ip, we_port = word_of_int port\<rparr>))"

text \<open>The two formats of an entry: \<open>%u:%63[^:]:%d\<close> and \<open>%u %63s %d\<close>.\<close>

definition scan_colons :: "string \<Rightarrow> (u32 \<times> string \<times> int) option" where
  "scan_colons s =
     Option.bind (scan_u s) (\<lambda>(sid, r1).
     Option.bind (scan_lit '':'' r1) (\<lambda>r2.
     Option.bind (scan_set 63 (\<lambda>c. c \<noteq> CHR '':'') r2) (\<lambda>(ip, r3).
     Option.bind (scan_lit '':'' r3) (\<lambda>r4.
     map_option (\<lambda>(port, _). (sid, ip, port)) (scan_d r4)))))"

definition scan_blanks :: "string \<Rightarrow> (u32 \<times> string \<times> int) option" where
  "scan_blanks s =
     Option.bind (scan_u s) (\<lambda>(sid, r1).
     Option.bind (scan_set 63 (\<lambda>c. \<not> c_isspace c) (dropWhile c_isspace r1)) (\<lambda>(ip, r2).
     map_option (\<lambda>(port, _). (sid, ip, port)) (scan_d r2)))"

definition set_scanned :: "c_env \<Rightarrow> (u32 \<times> string \<times> int) option \<Rightarrow> ctrl_map \<Rightarrow> ctrl_map" where
  "set_scanned env p m = (case p of None \<Rightarrow> m
     | Some (sid, ip, port) \<Rightarrow> set_worker_ctrl_endpoint env sid ip port m)"

definition parse_worker_ctrl_map_string :: "c_env \<Rightarrow> string option \<Rightarrow> ctrl_map \<Rightarrow> ctrl_map" where
  "parse_worker_ctrl_map_string env map_str m = (case map_str of None \<Rightarrow> m | Some s \<Rightarrow>
     fold (\<lambda>item m. let it = trim_ascii item in if it = [] then m else set_scanned env (scan_colons it) m)
       (strtok_comma s) m)"

text \<open>\<open>fgets\<close> with a buffer of \<open>n + 1\<close> characters: a line, or a piece of a longer one.\<close>

function fgets_pieces :: "nat \<Rightarrow> string \<Rightarrow> string list" where
  "fgets_pieces n s =
     (if s = [] \<or> n = 0 then []
      else
        let upto = takeWhile (\<lambda>c. c \<noteq> CHR 0x0A) s;
            len = min n (length upto + 1)
        in take len s # fgets_pieces n (drop len s))"
  by pat_completeness auto
termination
  by (relation "measure (\<lambda>(n, s). length s)") (auto simp: Let_def)

declare fgets_pieces.simps [simp del]

definition parse_ctrl_line :: "c_env \<Rightarrow> string \<Rightarrow> ctrl_map \<Rightarrow> ctrl_map" where
  "parse_ctrl_line env line m =
     (let l = trim_ascii (c_str line) in
      if l = [] \<or> hd l = CHR ''#'' then m
      else set_scanned env (case scan_blanks l of None \<Rightarrow> scan_colons l | Some e \<Rightarrow> Some e) m)"

text \<open>The content of the file, None when it cannot be opened.\<close>

definition parse_worker_ctrl_map_file ::
  "c_env \<Rightarrow> (string \<Rightarrow> string option) \<Rightarrow> string option \<Rightarrow> ctrl_map \<Rightarrow> ctrl_map" where
  "parse_worker_ctrl_map_file env files path m = (case path of None \<Rightarrow> m | Some p \<Rightarrow>
     if p = [] then m
     else (case files p of None \<Rightarrow> m | Some content \<Rightarrow> fold (parse_ctrl_line env) (fgets_pieces 255 content) m))"

text \<open>The map as the first request finds it; it never changes afterwards.\<close>

definition init_worker_ctrl_map_once :: "c_env \<Rightarrow> (string \<Rightarrow> string option) \<Rightarrow> ctrl_map" where
  "init_worker_ctrl_map_once env files =
     parse_worker_ctrl_map_file env files (env ''ML_WORKER_CTRL_MAP_FILE'')
       (parse_worker_ctrl_map_string env (env ''ML_WORKER_CTRL_MAP'') empty_ctrl_map)"

section \<open>The request\<close>

record ctrl_env =
  ce_socket_ok :: bool
  ce_pton :: "string \<Rightarrow> bool"
  ce_sent :: int

type_synonym datagram = "string \<times> u16 \<times> u8 list"

definition req_idr_bytes :: "u64 \<Rightarrow> u8 list" where
  "req_idr_bytes now = cmd_bytes \<lparr>mc_magic = ML_CTRL_MAGIC, mc_version = ML_CTRL_VERSION, mc_type = 10,
     mc_a = 0, mc_b = 0, mc_c = 0, mc_d = 0, mc_seq = now\<rparr>"

text \<open>The code and the datagrams handed to the kernel.\<close>

definition send_req_idr_to_endpoint :: "ctrl_env \<Rightarrow> u64 \<Rightarrow> string \<Rightarrow> u16 \<Rightarrow> int \<times> datagram list" where
  "send_req_idr_to_endpoint e now ip port =
     (if ip = [] \<or> port = 0 then (- 1, [])
      else if \<not> ce_socket_ok e then (- 1, [])
      else if \<not> ce_pton e ip then (- 1, [])
      else (if ce_sent e = int sizeof_MlControlCmd then 0 else - 1, [(ip, port, req_idr_bytes now)]))"

definition request_idr_best_effort_main_path ::
  "c_env \<Rightarrow> ctrl_map \<Rightarrow> ctrl_env \<Rightarrow> u64 \<Rightarrow> u16 \<Rightarrow> int \<times> datagram list" where
  "request_idr_best_effort_main_path env m e now stream_id =
     (if stream_id > 0 \<and> uint stream_id \<le> server_runtime_max_streams env \<and> we_valid (m (unat stream_id))
      then send_req_idr_to_endpoint e now (we_ip (m (unat stream_id))) (we_port (m (unat stream_id)))
      else (- 1, []))"

definition request_interval_ns :: u64 where "request_interval_ns = 1000 * 1000 * 1000"

text \<open>The part of \<open>request_idr_for_stream\<close> under the lock: the limiter.\<close>

definition idr_gate :: "u64 \<Rightarrow> StreamContext \<Rightarrow> bool \<times> StreamContext" where
  "idr_gate now s =
     (if st_last_idr_request_ns s = 0 \<or> now - st_last_idr_request_ns s \<ge> request_interval_ns
      then (True, s\<lparr>st_last_idr_request_ns := now\<rparr>) else (False, s))"

text \<open>The whole: \<open>now\<close> is the limiter's clock reading, \<open>seq\<close> the datagram's.\<close>

definition request_idr_for_stream ::
  "c_env \<Rightarrow> ctrl_map \<Rightarrow> ctrl_env \<Rightarrow> u64 \<Rightarrow> u64 \<Rightarrow> StreamContext \<Rightarrow> StreamContext \<times> datagram list" where
  "request_idr_for_stream env m e now seq s =
     (case idr_gate now s of (should_request, s1) \<Rightarrow>
        (s1, if should_request then snd (request_idr_best_effort_main_path env m e seq (st_stream_id s)) else []))"

section \<open>The watchdogs\<close>

definition maybe_request_idr_for_no_decode :: "u64 \<Rightarrow> StreamContext \<Rightarrow> bool" where
  "maybe_request_idr_for_no_decode now s \<longleftrightarrow>
     st_state s = STREAM_STATE_ACTIVE \<and> st_decoder_initialized s \<and>
     ds_frames_decoded (st_decode_stats s) = 0 \<and> st_frames_received s \<ge> 30 \<and>
     (st_last_idr_request_ns s = 0 \<or> now - st_last_idr_request_ns s \<ge> request_interval_ns)"

definition stall_idle_ns :: u64 where "stall_idle_ns = 2 * 1000 * 1000 * 1000"

definition backoff_ns :: "StreamContext \<Rightarrow> u64" where
  "backoff_ns s = (if st_decode_stall_count s = 1 then 5 * 1000 * 1000 * 1000
     else if st_decode_stall_count s \<ge> 2 then 10 * 1000 * 1000 * 1000 else 2 * 1000 * 1000 * 1000)"

definition watch :: "u64 \<Rightarrow> StreamContext \<Rightarrow> StreamContext" where
  "watch now s = s\<lparr>st_watchdog_last_received := st_frames_received s,
     st_watchdog_last_decoded := ds_frames_decoded (st_decode_stats s),
     st_watchdog_last_decoded_change_ns := now\<rparr>"

text \<open>Whether to ask, and the slot afterwards.\<close>

definition maybe_request_idr_for_decode_stall :: "u64 \<Rightarrow> StreamContext \<Rightarrow> bool \<times> StreamContext" where
  "maybe_request_idr_for_decode_stall now s =
     (let decoded = ds_frames_decoded (st_decode_stats s) in
      if st_state s \<noteq> STREAM_STATE_ACTIVE \<or> \<not> st_decoder_initialized s \<or> decoded = 0 then (False, watch now s)
      else if st_watchdog_last_decoded_change_ns s = 0 then (False, watch now s)
      else if decoded \<noteq> st_watchdog_last_decoded s then (False, (watch now s)\<lparr>st_decode_stall_count := 0\<rparr>)
      else
        let received_delta = st_frames_received s - st_watchdog_last_received s in
        if received_delta \<ge> 30 \<and> now - st_watchdog_last_decoded_change_ns s \<ge> stall_idle_ns \<and>
           (st_decode_stall_last_idr_ns s = 0 \<or> now - st_decode_stall_last_idr_ns s \<ge> backoff_ns s)
        then (True, s\<lparr>st_decode_stall_last_idr_ns := now,
                      st_decode_stall_count := st_decode_stall_count s + 1\<rparr>)
        else (False, s))"

text \<open>
  The two watchdogs after a video packet, with the six clock readings they take: each reads
  the clock itself, and each request reads it for the limiter and for the datagram.
\<close>

definition watchdogs ::
  "c_env \<Rightarrow> ctrl_map \<Rightarrow> (nat \<Rightarrow> ctrl_env) \<Rightarrow> (nat \<Rightarrow> u64) \<Rightarrow> StreamContext \<Rightarrow> StreamContext \<times> datagram list" where
  "watchdogs env m e clock s =
     (case (if maybe_request_idr_for_no_decode (clock 0) s
            then request_idr_for_stream env m (e 0) (clock 1) (clock 2) s else (s, [])) of (s1, d1) \<Rightarrow>
      case maybe_request_idr_for_decode_stall (clock 3) s1 of (should_request, s2) \<Rightarrow>
      case (if should_request then request_idr_for_stream env m (e 1) (clock 4) (clock 5) s2 else (s2, []))
        of (s3, d2) \<Rightarrow> (s3, d1 @ d2))"

end
