(* ===== verification/Server.thy ===== *)
theory Server
  imports ServerCtl Tap Wire
begin

text \<open>
  The TCP server of \<open>stream_server\<close> (\<open>stream_server/src/server.c\<close>,
  \<open>stream_server/include/server.h\<close>): the handler of one packet, the loop of a client thread,
  the list of clients, start and stop. The handler drives the stream manager, the tap and the
  recorder's producers, each through its own model.
\<close>

section \<open>State\<close>

text \<open>
  \<open>cl_id\<close> is the address of the structure. Its \<open>active\<close> and \<open>current_stream_id\<close> are written but
  never read, \<open>should_remove\<close> and \<open>recv_buf_len\<close> stay zero.
\<close>

record ClientConn =
  cl_id :: nat
  cl_fd :: int
  cl_recv_buf_size :: nat

record TcpServer =
  sv_max_connections :: int
  sv_listen_fd :: int
  sv_clients :: "ClientConn list"
  sv_client_count :: int
  sv_running :: bool
  sv_total_connections :: u64
  sv_total_packets :: u64
  sv_total_bytes :: u64

text \<open>What the server's threads share, and the requests that left for the workers.\<close>

record server_state =
  ss_server :: TcpServer
  ss_mgr :: StreamManager
  ss_world :: av_world
  ss_tap :: tap
  ss_tap_net :: tap_net
  ss_rec :: rec_state
  g_stress_test_enabled :: bool
  g_stress_test_copies :: int
  g_h264_tap_started :: bool
  ss_requests :: "datagram list"

text \<open>
  What one packet meets: the process environment (which is the same for all), the answers of
  FFmpeg, of the tap's sockets, of the allocator, and the clock.
\<close>

record packet_env =
  pk_env :: c_env
  pk_map :: ctrl_map
  pk_ctrl :: "nat \<Rightarrow> ctrl_env"
  pk_clock :: "nat \<Rightarrow> u64"
  pk_time :: int
  pk_av :: "nat \<Rightarrow> av_env"
  pk_stress_av :: "nat \<Rightarrow> nat \<Rightarrow> av_env"
  pk_malloc :: bool
  pk_parse :: "parse_ans list"
  pk_tap_start :: tap_start_env
  pk_publish :: "nat \<Rightarrow> pub_env"
  pk_rec_alloc :: bool
  pk_rec_wall :: u64
  pk_rec_mono :: u64
  pk_realloc :: "nat \<Rightarrow> bool"

definition set_slot :: "nat \<Rightarrow> StreamContext \<Rightarrow> server_state \<Rightarrow> server_state" where
  "set_slot i s v = v\<lparr>ss_mgr := put_stream i s (ss_mgr v)\<rparr>"

definition slot :: "server_state \<Rightarrow> nat \<Rightarrow> StreamContext" where
  "slot v i = sm_streams (ss_mgr v) i"

section \<open>Helpers of the handler\<close>

definition get_decode_backend :: "c_env \<Rightarrow> DecodeBackend" where
  "get_decode_backend env = (case env ''DECODE_BACKEND'' of None \<Rightarrow> DECODE_BACKEND_AUTO | Some v \<Rightarrow>
     if v = [] then DECODE_BACKEND_AUTO
     else if strcaseeq v ''auto'' then DECODE_BACKEND_AUTO
     else if strcaseeq v ''nvidia'' \<or> strcaseeq v ''cuvid'' then DECODE_BACKEND_NVIDIA
     else if strcaseeq v ''intel'' \<or> strcaseeq v ''intel_va'' \<or> strcaseeq v ''vaapi'' \<or> strcaseeq v ''qsv''
       then DECODE_BACKEND_INTEL_VA
     else if strcaseeq v ''cpu'' then DECODE_BACKEND_CPU
     else DECODE_BACKEND_AUTO)"

definition maybe_start_h264_tap :: "packet_env \<Rightarrow> server_state \<Rightarrow> server_state" where
  "maybe_start_h264_tap e v =
     (if g_h264_tap_started v then v
      else (case pk_env e ''H264_TAP_PORT'' of None \<Rightarrow> v | Some p \<Rightarrow>
        let port = atoi p in
        if port \<le> 0 \<or> port > 65535 then v
        else
          let bind = (case pk_env e ''H264_TAP_BIND'' of None \<Rightarrow> ''127.0.0.1'' | Some b \<Rightarrow> b) in
          case h264_tap_start (pk_tap_start e) (Some bind) (word_of_int port) (ss_tap v) (ss_tap_net v) of
            (rc, t, n) \<Rightarrow> v\<lparr>ss_tap := t, ss_tap_net := n,
                            g_h264_tap_started := (rc = 0)\<rparr>))"

text \<open>The recorder's callback.\<close>

definition request_idr_for_stream_id :: "packet_env \<Rightarrow> u16 \<Rightarrow> server_state \<Rightarrow> server_state" where
  "request_idr_for_stream_id e stream_id v =
     (case stream_manager_get (ss_mgr v) stream_id of
        Some i \<Rightarrow>
          (case request_idr_for_stream (pk_env e) (pk_map e) (pk_ctrl e 0) (pk_clock e 0) (pk_clock e 1) (slot v i) of
             (s, ds) \<Rightarrow> (set_slot i s v)\<lparr>ss_requests := ss_requests v @ ds\<rparr>)
      | None \<Rightarrow> v\<lparr>ss_requests := ss_requests v @
          snd (request_idr_best_effort_main_path (pk_env e) (pk_map e) (pk_ctrl e 0) (pk_clock e 1) stream_id)\<rparr>)"

text \<open>The stress test is switched on by the first STREAM_START that finds it asked for.\<close>

definition stress_copies :: "packet_env \<Rightarrow> int \<Rightarrow> int" where
  "stress_copies e copies = (case pk_env e ''STRESS_COPIES'' of None \<Rightarrow> copies | Some c \<Rightarrow>
     let n = atoi c; n1 = (if n < 1 then int DEFAULT_MAX_STREAMS else n)
     in if n1 > server_runtime_max_streams (pk_env e) then server_runtime_max_streams (pk_env e) else n1)"

definition maybe_start_stress :: "packet_env \<Rightarrow> u16 \<Rightarrow> server_state \<Rightarrow> server_state option" where
  "maybe_start_stress e stream_id v =
     (if g_stress_test_enabled v then Some v
      else (case pk_env e ''STRESS_TEST'' of None \<Rightarrow> Some v | Some t \<Rightarrow>
        if \<not> atoi t > 0 then Some v
        else
          let copies = stress_copies e (g_stress_test_copies v) in
          (case stream_manager_start_stress_test (pk_env e) (pk_stress_av e) (pk_time e) (pk_malloc e)
                  stream_id copies (get_decode_backend (pk_env e)) (ss_mgr v) (ss_world v) of
             None \<Rightarrow> None
           | Some (rc, mgr, w) \<Rightarrow>
               Some (v\<lparr>ss_mgr := mgr, ss_world := w, g_stress_test_copies := copies,
                       g_stress_test_enabled := (rc \<ge> 0)\<rparr>))))"

section \<open>The packet handler\<close>

definition handle_stream_start :: "packet_env \<Rightarrow> nat \<Rightarrow> PacketHeader \<Rightarrow> u8 list option \<Rightarrow> server_state \<Rightarrow> server_state option" where
  "handle_stream_start e i hdr payload v =
     (if ph_length hdr < of_nat TCP_HEADER_SIZE + 16 then Some v
      else (case protocol_parse_stream_info payload (unat (ph_length hdr - of_nat TCP_HEADER_SIZE)) of
        None \<Rightarrow> Some v
      | Some info \<Rightarrow>
          let s1 = stream_set_state (pk_time e) STREAM_STATE_ACTIVE (stream_set_info info (slot v i));
              s2 = s1\<lparr>st_last_idr_request_ns := 0, st_watchdog_last_received := 0,
                      st_watchdog_last_decoded := 0, st_watchdog_last_decoded_change_ns := pk_clock e 0,
                      st_decode_stall_last_idr_ns := 0, st_decode_stall_count := 0\<rparr>
          in case stream_init_decoder (pk_env e) (pk_av e) (pk_time e) (get_decode_backend (pk_env e)) s2 (ss_world v)
               of (rc, s3, w) \<Rightarrow>
             case request_idr_for_stream (pk_env e) (pk_map e) (pk_ctrl e 0) (pk_clock e 1) (pk_clock e 2) s3
               of (s4, ds) \<Rightarrow>
             maybe_start_stress e (ph_stream_id hdr)
               ((set_slot i s4 v)\<lparr>ss_world := w, ss_requests := ss_requests v @ ds,
                  ss_rec := compressed_recorder_on_stream_start (pk_rec_alloc e) (pk_rec_wall e) (pk_rec_mono e)
                    (ph_stream_id hdr) (Some info) (ss_rec v)\<rparr>)))"

text \<open>The tap: started by the first video packet that finds a port configured.\<close>

definition publish_to_tap :: "packet_env \<Rightarrow> u16 \<Rightarrow> u8 list \<Rightarrow> server_state \<Rightarrow> server_state option" where
  "publish_to_tap e stream_id data v0 =
     (let v = maybe_start_h264_tap e v0 in
      if g_h264_tap_started v then
        map_option (\<lambda>(t, n). v\<lparr>ss_tap := t, ss_tap_net := n\<rparr>)
          (h264_tap_publish (pk_publish e) stream_id (Some data) (ss_tap v) (ss_tap_net v))
      else Some v)"

definition handle_video :: "packet_env \<Rightarrow> nat \<Rightarrow> PacketHeader \<Rightarrow> u8 list option \<Rightarrow> server_state \<Rightarrow> server_state option" where
  "handle_video e i hdr payload v0 =
     (let v = set_slot i (stream_update_stats (pk_time e) (ph_length hdr) True (slot v0 i)) v0 in
      case payload of None \<Rightarrow> Some v | Some data \<Rightarrow>
      if \<not> ph_length hdr > of_nat TCP_HEADER_SIZE then Some v
      else (case publish_to_tap e (ph_stream_id hdr) data v of None \<Rightarrow> None | Some v1 \<Rightarrow>
        let v2 = v1\<lparr>ss_rec := compressed_recorder_on_video (pk_rec_alloc e) (pk_rec_wall e) (pk_rec_mono e)
                      (ph_stream_id hdr) (Some data) (ss_rec v1)\<rparr>
        in case stream_decode_video (pk_parse e) (pk_time e) data (slot v2 i) (ss_world v2) of None \<Rightarrow> None
           | Some (ret, s, w) \<Rightarrow>
             case watchdogs (pk_env e) (pk_map e) (pk_ctrl e) (pk_clock e) s of (s1, ds) \<Rightarrow>
             let v3 = (set_slot i s1 v2)\<lparr>ss_world := w, ss_requests := ss_requests v2 @ ds\<rparr>
             in Some (if g_stress_test_enabled v3
                      then v3\<lparr>ss_mgr := snd (stream_stress_test_decode (pk_realloc e) (ph_stream_id hdr) data (ss_mgr v3))\<rparr>
                      else v3)))"

definition handle_stream_stop :: "packet_env \<Rightarrow> nat \<Rightarrow> PacketHeader \<Rightarrow> server_state \<Rightarrow> server_state" where
  "handle_stream_stop e i hdr v =
     (case stream_close_decoder (slot v i) (ss_world v) of (s, w) \<Rightarrow>
        (set_slot i (stream_set_state (pk_time e) STREAM_STATE_IDLE s) v)\<lparr>ss_world := w,
           ss_rec := compressed_recorder_on_stream_stop (pk_rec_alloc e) (pk_rec_wall e) (pk_rec_mono e)
             (ph_stream_id hdr) (ss_rec v)\<rparr>)"

definition count_packet :: "PacketHeader \<Rightarrow> server_state \<Rightarrow> server_state" where
  "count_packet hdr v = v\<lparr>ss_server := (ss_server v)
     \<lparr>sv_total_packets := sv_total_packets (ss_server v) + 1,
      sv_total_bytes := sv_total_bytes (ss_server v) + ucast (ph_length hdr)\<rparr>\<rparr>"

definition handle_packet :: "packet_env \<Rightarrow> PacketHeader \<Rightarrow> u8 list option \<Rightarrow> server_state \<Rightarrow> server_state option" where
  "handle_packet e hdr payload v =
     (case stream_manager_get (ss_mgr v) (ph_stream_id hdr) of None \<Rightarrow> Some v | Some i \<Rightarrow>
        map_option (count_packet hdr)
          (if ph_type hdr = TCP_MSG_TYPE_STREAM_START then handle_stream_start e i hdr payload v
           else if ph_type hdr = TCP_MSG_TYPE_VIDEO_DATA then handle_video e i hdr payload v
           else if ph_type hdr = TCP_MSG_TYPE_STREAM_STOP then Some (handle_stream_stop e i hdr v)
           else if ph_type hdr = TCP_MSG_TYPE_HEARTBEAT then
             Some (set_slot i (stream_update_stats (pk_time e) (ph_length hdr) False (slot v i)) v)
           else Some v))"

section \<open>The thread of a client\<close>

text \<open>
  The loop of \<open>client_handler\<close>: the state all packets left and the connection when the loop
  ended, None while it still waits. \<open>running i\<close> is the loop condition before packet \<open>i\<close>, \<open>grow i\<close>
  the answer to a reallocation of the buffer, whose size is \<open>sz\<close>.
\<close>

lemma server_recv_shorter:
  assumes "recv_exact n c = Some (rc, bs, c')" and "\<not> rc < 0"
  shows "length (c_pending c') + n = length (c_pending c)"
  using server_read.rd_conserves [OF assms(1)] server_read.rd_length [OF assms(1)] assms(2) by auto

function client_loop ::
  "(nat \<Rightarrow> packet_env) \<Rightarrow> (nat \<Rightarrow> bool) \<Rightarrow> (nat \<Rightarrow> bool) \<Rightarrow> nat \<Rightarrow> nat \<Rightarrow> conn \<Rightarrow> server_state \<Rightarrow>
   server_state \<times> conn option" where
  "client_loop e running grow i sz c v =
     (if \<not> running i then (v, Some c)
      else (case recv_exact TCP_HEADER_SIZE c of
        None \<Rightarrow> (v, None)
      | Some (rc, hdrb, c1) \<Rightarrow>
          if rc < 0 then (v, Some c1)
          else (case protocol_parse_header (Some hdrb) of
             None \<Rightarrow> (v, Some c1)
           | Some hdr \<Rightarrow>
               let payload_len = unat (ph_length hdr - of_nat TCP_HEADER_SIZE) in
               if payload_len > 0 then
                 (if payload_len > TCP_MAX_PACKET_SIZE then (v, Some c1)
                  else if payload_len > sz \<and> \<not> grow i then (v, Some c1)
                  else (case recv_exact payload_len c1 of
                          None \<Rightarrow> (v, None)
                        | Some (rc2, payload, c2) \<Rightarrow>
                            if rc2 < 0 then (v, Some c2)
                            else (case handle_packet (e i) hdr (Some payload) v of
                                    None \<Rightarrow> (v, None)
                                  | Some v' \<Rightarrow> client_loop e running grow (Suc i) (double_until sz payload_len) c2 v')))
               else (case handle_packet (e i) hdr None v of
                       None \<Rightarrow> (v, None)
                     | Some v' \<Rightarrow> client_loop e running grow (Suc i) sz c1 v'))))"
  by pat_completeness auto
termination
proof (relation "measure (\<lambda>(e, r, g, i, s, c, v). length (c_pending c))", goal_cases)
  case 2
  then show ?case by (auto dest!: server_recv_shorter simp: TCP_HEADER_SIZE_def)
next
  case 3
  then show ?case by (auto dest!: server_recv_shorter simp: TCP_HEADER_SIZE_def)
qed simp

declare client_loop.simps [simp del]

end
