(* ===== verification/ServerConns.thy ===== *)
theory ServerConns
  imports Server "HOL-Library.Multiset"
begin

text \<open>
  The connections of \<open>stream_server\<close> (\<open>stream_server/src/server.c\<close>): what the accept thread
  does with a new descriptor, how a client's thread leaves, start and stop. The list of
  clients is \<open>sv_clients\<close> with the newest in front; \<open>closed\<close> are the descriptors handed to
  \<open>close\<close>, in order.
\<close>

section \<open>Clients\<close>

record accept_env =
  ae_calloc :: bool
  ae_buffer :: bool
  ae_arg :: bool
  ae_thread :: bool

definition DEFAULT_RECV_BUF_SIZE :: nat where "DEFAULT_RECV_BUF_SIZE = 1024 * 1024"

definition client_create :: "accept_env \<Rightarrow> nat \<Rightarrow> int \<Rightarrow> ClientConn option" where
  "client_create e i fd = (if \<not> ae_calloc e \<or> \<not> ae_buffer e then None
     else Some \<lparr>cl_id = i, cl_fd = fd, cl_recv_buf_size = DEFAULT_RECV_BUF_SIZE\<rparr>)"

definition client_destroy :: "ClientConn \<Rightarrow> int list \<Rightarrow> int list" where
  "client_destroy c closed = (if cl_fd c \<ge> 0 then closed @ [cl_fd c] else closed)"

text \<open>The walk along the list that takes out one client, if it is there.\<close>

fun unlink_client :: "nat \<Rightarrow> ClientConn list \<Rightarrow> ClientConn list" where
  "unlink_client i [] = []"
| "unlink_client i (c # cs) = (if cl_id c = i then cs else c # unlink_client i cs)"

text \<open>The end of \<open>client_handler\<close>: the count goes down whether or not the client was found.\<close>

definition client_leave :: "ClientConn \<Rightarrow> TcpServer \<Rightarrow> int list \<Rightarrow> TcpServer \<times> int list" where
  "client_leave c sv closed =
     (sv\<lparr>sv_clients := unlink_client (cl_id c) (sv_clients sv), sv_client_count := sv_client_count sv - 1\<rparr>,
      client_destroy c closed)"

text \<open>One accepted descriptor; the new client gets the address \<open>i\<close>.\<close>

definition accept_client :: "accept_env \<Rightarrow> nat \<Rightarrow> int \<Rightarrow> TcpServer \<Rightarrow> int list \<Rightarrow> TcpServer \<times> int list" where
  "accept_client e i fd sv closed =
     (if sv_client_count sv \<ge> sv_max_connections sv then (sv, closed @ [fd])
      else case client_create e i fd of None \<Rightarrow> (sv, closed @ [fd]) | Some c \<Rightarrow>
        if \<not> ae_arg e then (sv, client_destroy c closed)
        else
          let sv1 = sv\<lparr>sv_clients := c # sv_clients sv, sv_client_count := sv_client_count sv + 1,
                       sv_total_connections := sv_total_connections sv + 1\<rparr>
          in if \<not> ae_thread e then
               (sv1\<lparr>sv_clients := unlink_client i (sv_clients sv1),
                    sv_client_count := (if i \<in> cl_id ` set (sv_clients sv1)
                      then sv_client_count sv1 - 1 else sv_client_count sv1)\<rparr>,
                client_destroy c closed)
             else (sv1, closed))"

text \<open>What \<open>accept\<close> answers; the loop ends on an error other than EAGAIN.\<close>

datatype accept_answer = Accepted int | AcceptAgain | AcceptFailed

fun accept_loop :: "(nat \<Rightarrow> accept_env) \<Rightarrow> nat \<Rightarrow> accept_answer list \<Rightarrow> TcpServer \<Rightarrow> int list \<Rightarrow> TcpServer \<times> int list" where
  "accept_loop e i [] sv closed = (sv, closed)"
| "accept_loop e i (a # as) sv closed =
     (if \<not> sv_running sv then (sv, closed)
      else (case a of
          Accepted fd \<Rightarrow> (case accept_client (e i) i fd sv closed of (sv1, closed1) \<Rightarrow>
            accept_loop e (Suc i) as sv1 closed1)
        | AcceptAgain \<Rightarrow> accept_loop e i as sv closed
        | AcceptFailed \<Rightarrow> (sv, closed)))"

section \<open>Start and stop\<close>

definition server_init :: "int \<Rightarrow> TcpServer" where
  "server_init max_connections = \<lparr>sv_max_connections = max_connections, sv_listen_fd = - 1, sv_clients = [],
     sv_client_count = 0, sv_running = False, sv_total_connections = 0, sv_total_packets = 0,
     sv_total_bytes = 0\<rparr>"

record start_env =
  st_socket :: int
  st_pton_ok :: bool
  st_bind_ok :: bool
  st_listen_ok :: bool
  st_thread_ok :: bool

definition server_start :: "start_env \<Rightarrow> TcpServer \<Rightarrow> int list \<Rightarrow> int \<times> TcpServer \<times> int list" where
  "server_start e sv closed =
     (let fd = st_socket e; sv1 = sv\<lparr>sv_listen_fd := fd\<rparr> in
      if fd < 0 then (- 1, sv1, closed)
      else if \<not> st_pton_ok e \<or> \<not> st_bind_ok e \<or> \<not> st_listen_ok e then (- 1, sv1, closed @ [fd])
      else
        let sv2 = sv1\<lparr>sv_running := True\<rparr>
        in if \<not> st_thread_ok e then (- 1, sv2, closed @ [fd]) else (0, sv2, closed))"

text \<open>The descriptors of all clients, which their threads then find gone.\<close>

definition close_client_fds :: "ClientConn list \<Rightarrow> int list" where
  "close_client_fds cs = filter (\<lambda>fd. fd \<ge> 0) (map cl_fd cs)"

definition forget_fd :: "ClientConn \<Rightarrow> ClientConn" where
  "forget_fd c = (if cl_fd c \<ge> 0 then c\<lparr>cl_fd := - 1\<rparr> else c)"

definition server_stop_close :: "TcpServer \<Rightarrow> int list \<Rightarrow> TcpServer \<times> int list" where
  "server_stop_close sv closed =
     (let closed1 = (if sv_listen_fd sv \<ge> 0 then closed @ [sv_listen_fd sv] else closed) in
      (sv\<lparr>sv_running := False, sv_listen_fd := (if sv_listen_fd sv \<ge> 0 then - 1 else sv_listen_fd sv),
          sv_clients := map forget_fd (sv_clients sv)\<rparr>,
       closed1 @ close_client_fds (sv_clients sv)))"

text \<open>
  The wait for the clients' threads: the list is looked at every 50 ms, for six seconds at
  most. The argument says, look by look, whether it was empty; the result is the time waited.
\<close>

definition RECV_TIMEOUT_SEC :: nat where "RECV_TIMEOUT_SEC = 5"

function stop_wait :: "(nat \<Rightarrow> bool) \<Rightarrow> nat \<Rightarrow> nat" where
  "stop_wait empty_at waited_ms =
     (if waited_ms < (RECV_TIMEOUT_SEC + 1) * 1000 \<and> \<not> empty_at waited_ms
      then stop_wait empty_at (waited_ms + 50) else waited_ms)"
  by pat_completeness auto
termination
  by (relation "measure (\<lambda>(e, w). (RECV_TIMEOUT_SEC + 1) * 1000 - w)") auto

declare stop_wait.simps [simp del]

text \<open>The end of \<open>server_stop\<close>: the tap.\<close>

definition server_stop_tap :: "server_state \<Rightarrow> server_state" where
  "server_stop_tap v =
     (if g_h264_tap_started v then
        (case h264_tap_stop (ss_tap v) (ss_tap_net v) of (t, n) \<Rightarrow>
           v\<lparr>ss_tap := t, ss_tap_net := n, g_h264_tap_started := False\<rparr>)
      else v)"

definition server_is_running :: "TcpServer option \<Rightarrow> bool" where
  "server_is_running p \<longleftrightarrow> (case p of None \<Rightarrow> False | Some sv \<Rightarrow> sv_running sv)"

definition server_get_stats :: "TcpServer \<Rightarrow> u64 \<times> u64 \<times> u64" where
  "server_get_stats sv = (sv_total_connections sv, sv_total_packets sv, sv_total_bytes sv)"

section \<open>Every interleaving of the accept thread, the clients and a stop\<close>

record conns =
  cn_server :: TcpServer
  cn_accepted :: "int list"
  cn_closed :: "int list"
  cn_next :: nat

text \<open>The kernel hands out descriptors that are not negative.\<close>

inductive conns_step :: "conns \<Rightarrow> conns \<Rightarrow> bool" where
  accept: "0 \<le> fd \<Longrightarrow> sv_running (cn_server s) \<Longrightarrow> accept_client e (cn_next s) fd (cn_server s) (cn_closed s) = (sv, closed) \<Longrightarrow>
     conns_step s (s\<lparr>cn_server := sv, cn_closed := closed, cn_accepted := cn_accepted s @ [fd], cn_next := cn_next s + 1\<rparr>)"
| leave: "c \<in> set (sv_clients (cn_server s)) \<Longrightarrow>
     client_leave c (cn_server s) (cn_closed s) = (sv, closed) \<Longrightarrow>
     conns_step s (s\<lparr>cn_server := sv, cn_closed := closed\<rparr>)"
| stop: "sv_listen_fd (cn_server s) = fd \<Longrightarrow> server_stop_close (cn_server s) (cn_closed s) = (sv, closed) \<Longrightarrow>
     conns_step s (s\<lparr>cn_server := sv, cn_closed := closed\<rparr>)"

inductive conns_reachable :: "conns \<Rightarrow> bool" where
  start: "server_start e (server_init n) [] = (0, sv, []) \<Longrightarrow> 0 \<le> n \<Longrightarrow>
     conns_reachable \<lparr>cn_server = sv, cn_accepted = [sv_listen_fd sv], cn_closed = [], cn_next = 0\<rparr>"
| step: "conns_reachable s \<Longrightarrow> conns_step s s' \<Longrightarrow> conns_reachable s'"

text \<open>The descriptors the server still has.\<close>

definition open_fds :: "TcpServer \<Rightarrow> int list" where
  "open_fds sv = close_client_fds (sv_clients sv) @ (if sv_listen_fd sv \<ge> 0 then [sv_listen_fd sv] else [])"

definition conns_inv :: "conns \<Rightarrow> bool" where
  "conns_inv s \<longleftrightarrow> (let sv = cn_server s in
     mset (cn_accepted s) = mset (cn_closed s) + mset (open_fds sv) \<and>
     sv_client_count sv = int (length (sv_clients sv)) \<and>
     sv_client_count sv \<le> sv_max_connections sv \<and>
     distinct (map cl_id (sv_clients sv)) \<and> (\<forall>c \<in> set (sv_clients sv). cl_id c < cn_next s))"

lemma close_client_fds_simps [simp]:
  "close_client_fds [] = []"
  "close_client_fds (c # cs) = (if cl_fd c \<ge> 0 then cl_fd c # close_client_fds cs else close_client_fds cs)"
  by (simp_all add: close_client_fds_def)

lemma unlink_client_split:
  assumes "c \<in> set cs" and "distinct (map cl_id cs)"
  obtains xs ys where "cs = xs @ c # ys" "unlink_client (cl_id c) cs = xs @ ys"
proof -
  have "\<exists>xs ys. cs = xs @ c # ys \<and> unlink_client (cl_id c) cs = xs @ ys"
    using assms
  proof (induction cs)
    case (Cons d cs)
    show ?case
    proof (cases "d = c")
      case True
      then show ?thesis by (intro exI [of _ "[]"] exI [of _ cs]) simp
    next
      case False
      then have "cl_id d \<noteq> cl_id c" "c \<in> set cs" using Cons.prems by (auto simp: image_iff)
      then obtain xs ys where "cs = xs @ c # ys" "unlink_client (cl_id c) cs = xs @ ys"
        using Cons.IH Cons.prems(2) by auto
      then show ?thesis using \<open>cl_id d \<noteq> cl_id c\<close> by (intro exI [of _ "d # xs"] exI [of _ ys]) simp
    qed
  qed simp
  then show ?thesis using that by blast
qed

lemma forget_fd_simps [simp]:
  "cl_id (forget_fd c) = cl_id c" "cl_id \<circ> forget_fd = cl_id" "close_client_fds (map forget_fd cs) = []"
  by (auto simp: forget_fd_def close_client_fds_def fun_eq_iff filter_empty_conv)

lemma close_client_fds_append [simp]: "close_client_fds (xs @ ys) = close_client_fds xs @ close_client_fds ys"
  by (simp add: close_client_fds_def)

lemma conns_step_inv:
  assumes "conns_step s s'" and "conns_inv s"
  shows "conns_inv s'"
  using assms
proof cases
  case (accept fd e sv closed)
  have fresh: "cn_next s \<notin> cl_id ` set (sv_clients (cn_server s))"
    using assms(2) by (auto simp: conns_inv_def Let_def)
  then show ?thesis using accept assms(2)
    by (auto simp: conns_inv_def Let_def accept_client_def client_create_def client_destroy_def open_fds_def
        less_Suc_eq split: if_splits)
next
  case (leave c sv closed)
  then obtain xs ys where cs: "sv_clients (cn_server s) = xs @ c # ys"
    "unlink_client (cl_id c) (sv_clients (cn_server s)) = xs @ ys"
    using unlink_client_split [of c "sv_clients (cn_server s)"] assms(2) by (auto simp: conns_inv_def Let_def)
  then show ?thesis using leave(1,3) assms(2)
    by (auto simp: conns_inv_def Let_def client_leave_def client_destroy_def open_fds_def)
next
  case (stop fd sv closed)
  then show ?thesis using assms(2)
    by (auto simp: conns_inv_def Let_def server_stop_close_def open_fds_def)
qed

lemma conns_reachable_inv: "conns_reachable s \<Longrightarrow> conns_inv s"
proof (induction rule: conns_reachable.induct)
  case (start e n sv)
  then show ?case
    by (auto simp: server_start_def server_init_def Let_def conns_inv_def open_fds_def split: if_splits)
qed (rule conns_step_inv)

text \<open>C35: connections are neither leaked nor closed twice, and their number stays within the limit:
  in every interleaving of the accept thread, of leaving clients and of a stop, the descriptors
  handed out are the closed ones and the ones still held, the count is the length of the list
  and never exceeds the configured maximum.\<close>

theorem server_connections:
  assumes "conns_reachable s"
  shows "mset (cn_accepted s) = mset (cn_closed s) + mset (open_fds (cn_server s)) \<and>
    sv_client_count (cn_server s) = int (length (sv_clients (cn_server s))) \<and>
    sv_client_count (cn_server s) \<le> sv_max_connections (cn_server s)"
  using conns_reachable_inv [OF assms] by (simp add: conns_inv_def Let_def)

text \<open>A server for one client, which is accepted; a second one is refused.\<close>

definition ex_started :: conns where
  "ex_started = \<lparr>cn_server = (server_init 1)\<lparr>sv_listen_fd := 5, sv_running := True\<rparr>,
     cn_accepted = [5], cn_closed = [], cn_next = 0\<rparr>"

definition ex_accepted :: conns where
  "ex_accepted = ex_started\<lparr>cn_server := (cn_server ex_started)
      \<lparr>sv_clients := [\<lparr>cl_id = 0, cl_fd = 7, cl_recv_buf_size = DEFAULT_RECV_BUF_SIZE\<rparr>],
       sv_client_count := 1, sv_total_connections := 1\<rparr>,
     cn_accepted := [5, 7], cn_next := 1\<rparr>"

definition ex_refused :: conns where
  "ex_refused = ex_accepted\<lparr>cn_accepted := [5, 7, 8], cn_closed := [8], cn_next := 2\<rparr>"

lemma ex_refused_reachable: "conns_reachable ex_refused"
proof -
  let ?e = "\<lparr>ae_calloc = True, ae_buffer = True, ae_arg = True, ae_thread = True\<rparr>"
  let ?st = "\<lparr>st_socket = 5, st_pton_ok = True, st_bind_ok = True, st_listen_ok = True, st_thread_ok = True\<rparr>"
  have "server_start ?st (server_init 1) [] = (0, cn_server ex_started, [])"
    by (simp add: server_start_def ex_started_def)
  from conns_reachable.start [OF this] have r0: "conns_reachable ex_started"
    by (simp add: ex_started_def)
  have "accept_client ?e 0 7 (cn_server ex_started) [] = (cn_server ex_accepted, [])"
    by (simp add: accept_client_def client_create_def ex_started_def ex_accepted_def server_init_def)
  then have "conns_step ex_started ex_accepted"
    using conns_step.accept [of 7 ex_started ?e] by (simp add: ex_accepted_def ex_started_def)
  then have r1: "conns_reachable ex_accepted" using r0 conns_reachable.step by blast
  have "accept_client ?e 1 8 (cn_server ex_accepted) [] = (cn_server ex_accepted, [8])"
    by (simp add: accept_client_def ex_started_def ex_accepted_def server_init_def)
  then have "conns_step ex_accepted ex_refused"
    using conns_step.accept [of 8 ex_accepted ?e] by (simp add: ex_refused_def ex_accepted_def ex_started_def numeral_2_eq_2)
  then show ?thesis using r1 conns_reachable.step by blast
qed

theorem server_connections_witness:
  "cn_closed ex_refused = [8] \<and> mset (cn_accepted ex_refused) = {#8#} + mset (open_fds (cn_server ex_refused)) \<and>
   sv_client_count (cn_server ex_refused) \<le> 1"
proof -
  have "cn_closed ex_refused = [8]" "sv_max_connections (cn_server ex_refused) = 1"
    by (simp_all add: ex_refused_def ex_accepted_def ex_started_def server_init_def)
  then show ?thesis using server_connections [OF ex_refused_reachable] by simp
qed

end
