(* ===== verification/BridgeText.thy ===== *)
theory BridgeText
  imports CText
begin

text \<open>
  The request texts of the ZeroMQ bridge (\<open>stream_server/src/zmq_bridge.c\<close>): the search for a
  key in a JSON text of given length, the integers, the region of interest, and what a client's
  request says.
\<close>

section \<open>Integers\<close>

definition INT_MAX :: int where "INT_MAX = 2147483647"

definition is_json_ws :: "char \<Rightarrow> bool" where
  "is_json_ws c \<longleftrightarrow> c = CHR '' '' \<or> c = CHR 0x09 \<or> c = CHR 0x0D \<or> c = CHR 0x0A"

text \<open>The text from the first occurrence of the key on.\<close>

fun find_json_key :: "string \<Rightarrow> string \<Rightarrow> string option" where
  "find_json_key key [] = None"
| "find_json_key key (c # cs) =
     (if key \<noteq> [] \<and> take (length key) (c # cs) = key then Some (c # cs) else find_json_key key cs)"

definition skip_json_ws :: "string \<Rightarrow> string" where
  "skip_json_ws p = dropWhile is_json_ws p"

text \<open>The loop over the digits: None on overflow, else whether there was one, and the value.\<close>

fun json_digits :: "bool \<Rightarrow> int \<Rightarrow> string \<Rightarrow> (bool \<times> int) option" where
  "json_digits some v [] = Some (some, v)"
| "json_digits some v (c # cs) =
     (if c_isdigit c then
        (let v1 = v * 10 + int (digit_val c) in
         if v1 > INT_MAX + 1 then None else json_digits True v1 cs)
      else Some (some, v))"

text \<open>The text behind the key and its colon.\<close>

definition json_value :: "string \<Rightarrow> string \<Rightarrow> string option" where
  "json_value key json = (case find_json_key key json of None \<Rightarrow> None | Some p \<Rightarrow>
     let p1 = skip_json_ws (drop (length key) p) in
     if p1 = [] \<or> hd p1 \<noteq> CHR '':'' then None else Some (skip_json_ws (tl p1)))"

definition json_int :: "string \<Rightarrow> int option" where
  "json_int p =
     (let neg = (p \<noteq> [] \<and> hd p = CHR ''-''); p1 = (if neg then tl p else p) in
      case json_digits False 0 p1 of None \<Rightarrow> None | Some (some, v) \<Rightarrow>
        if \<not> some then None
        else let signed_v = (if neg then - v else v) in
          if signed_v < - INT_MAX - 1 \<or> signed_v > INT_MAX then None else Some signed_v)"

definition parse_json_int_key :: "string \<Rightarrow> string \<Rightarrow> int option" where
  "parse_json_int_key json key = (if json = [] then None
     else case json_value key json of None \<Rightarrow> None | Some p \<Rightarrow> json_int p)"

definition key_of :: "string \<Rightarrow> string" where
  "key_of name = CHR 0x22 # name @ [CHR 0x22]"

definition parse_stream_id_from_json :: "string \<Rightarrow> int" where
  "parse_stream_id_from_json json = (case parse_json_int_key json (key_of ''stream_id'') of
     Some v \<Rightarrow> if v > 0 then v else 1 | None \<Rightarrow> 1)"

definition parse_timeout_ms_from_json :: "string \<Rightarrow> int \<Rightarrow> int" where
  "parse_timeout_ms_from_json json default_ms = (case parse_json_int_key json (key_of ''timeout_ms'') of
     Some v \<Rightarrow> v | None \<Rightarrow> default_ms)"

section \<open>The region of interest\<close>

record ZmqRoiRequest =
  rq_requested :: bool
  rq_x :: int
  rq_y :: int
  rq_w :: int
  rq_h :: int

definition no_roi :: ZmqRoiRequest where
  "no_roi = \<lparr>rq_requested = False, rq_x = 0, rq_y = 0, rq_w = 0, rq_h = 0\<rparr>"

text \<open>The object's text up to its closing brace; braces in strings do not count.\<close>

fun roi_object :: "nat \<Rightarrow> bool \<Rightarrow> bool \<Rightarrow> string \<Rightarrow> string option" where
  "roi_object depth in_string escaped [] = None"
| "roi_object depth in_string escaped (c # cs) =
     (if in_string then
        map_option ((#) c) (roi_object depth (escaped \<or> c \<noteq> CHR 0x22) (\<not> escaped \<and> c = CHR 0x5C) cs)
      else if c = CHR 0x22 then map_option ((#) c) (roi_object depth True escaped cs)
      else if c = CHR ''{'' then map_option ((#) c) (roi_object (depth + 1) False escaped cs)
      else if c = CHR ''}'' then
        (if depth = 1 then Some [] else map_option ((#) c) (roi_object (depth - 1) False escaped cs))
      else map_option ((#) c) (roi_object depth False escaped cs))"

definition either_key :: "string \<Rightarrow> string \<Rightarrow> string \<Rightarrow> int option" where
  "either_key json a b = (case parse_json_int_key json (key_of a) of
     Some v \<Rightarrow> Some v | None \<Rightarrow> parse_json_int_key json (key_of b))"

text \<open>The code (-1 bad, 0 none, 1 found) and the request.\<close>

definition parse_roi_from_json :: "string \<Rightarrow> int \<times> ZmqRoiRequest" where
  "parse_roi_from_json json =
     (if json = [] then (0, no_roi)
      else case find_json_key (key_of ''roi'') json of None \<Rightarrow> (0, no_roi) | Some _ \<Rightarrow>
        (case json_value (key_of ''roi'') json of None \<Rightarrow> (- 1, no_roi) | Some p \<Rightarrow>
          if take 4 p = ''null'' then (0, no_roi)
          else if p = [] \<or> hd p \<noteq> CHR ''{'' then (- 1, no_roi)
          else (case roi_object 1 False False (tl p) of None \<Rightarrow> (- 1, no_roi) | Some obj \<Rightarrow>
            (case (parse_json_int_key obj (key_of ''x''), parse_json_int_key obj (key_of ''y''),
                   either_key obj ''w'' ''width'', either_key obj ''h'' ''height'') of
               (Some x, Some y, Some w, Some h) \<Rightarrow>
                 (1, \<lparr>rq_requested = True, rq_x = x, rq_y = y, rq_w = w, rq_h = h\<rparr>)
             | _ \<Rightarrow> (- 1, no_roi)))))"

section \<open>Reading back what a client wrote\<close>

definition digits_from :: "int \<Rightarrow> string \<Rightarrow> int" where
  "digits_from v ds = foldl (\<lambda>v c. v * 10 + int (digit_val c)) v ds"

lemma digits_from_simps [simp]:
  "digits_from v [] = v" "digits_from v (c # cs) = digits_from (v * 10 + int (digit_val c)) cs"
  by (simp_all add: digits_from_def)

lemma digits_from_ge: "0 \<le> v \<Longrightarrow> v \<le> digits_from v ds"
proof (induction ds arbitrary: v)
  case (Cons c cs)
  show ?case using Cons.IH [of "v * 10 + int (digit_val c)"] Cons.prems by simp
qed simp

lemma digits_from_nat: "digits_from (int n) ds = int (foldl (\<lambda>n c. 10 * n + digit_val c) n ds)"
proof (induction ds arbitrary: n)
  case (Cons c cs)
  show ?case using Cons.IH [of "10 * n + digit_val c"] by (simp add: mult.commute)
qed simp

lemma json_digits_run:
  assumes "list_all c_isdigit ds" and "rest = [] \<or> \<not> c_isdigit (hd rest)" and "0 \<le> v"
    and "digits_from v ds \<le> INT_MAX + 1"
  shows "json_digits some v (ds @ rest) = Some (some \<or> ds \<noteq> [], digits_from v ds)"
  using assms
proof (induction ds arbitrary: some v)
  case Nil
  then show ?case by (cases rest) auto
next
  case (Cons c cs)
  have "v * 10 + int (digit_val c) \<le> INT_MAX + 1"
    using digits_from_ge [of "v * 10 + int (digit_val c)" cs] Cons.prems by simp
  then show ?case using Cons by (simp add: Let_def)
qed

lemma json_digits_show_nat:
  assumes "int n \<le> INT_MAX + 1" and "rest = [] \<or> \<not> c_isdigit (hd rest)"
  shows "json_digits False 0 (show_nat n @ rest) = Some (True, int n)"
proof -
  have "digits_from 0 (show_nat n) = int n"
    using digits_from_nat [of 0 "show_nat n"] nat_of_digits_show_nat [of n] by (simp add: nat_of_digits_def)
  then show ?thesis
    using json_digits_run [of "show_nat n" rest 0 False] show_nat_digits [of n] assms by simp
qed

lemma json_int_show:
  assumes "- INT_MAX - 1 \<le> n" and "n \<le> INT_MAX" and "rest = [] \<or> \<not> c_isdigit (hd rest)"
  shows "json_int (show_int n @ rest) = Some n"
proof (cases "n < 0")
  case True
  have "json_digits False 0 (show_nat (nat (- n)) @ rest) = Some (True, - n)"
    using json_digits_show_nat [of "nat (- n)" rest] True assms by simp
  then show ?thesis using True assms(1,2) by (simp add: json_int_def show_int_def Let_def)
next
  case False
  have "hd (show_nat (nat n) @ rest) \<noteq> CHR ''-''"
    using show_nat_digits [of "nat n"] by (cases "show_nat (nat n)") (auto simp: c_isdigit_def)
  moreover have "json_digits False 0 (show_nat (nat n) @ rest) = Some (True, n)"
    using json_digits_show_nat [of "nat n" rest] False assms by simp
  ultimately show ?thesis using False assms(1,2) by (simp add: json_int_def show_int_def Let_def)
qed

text \<open>Characters of a printed number are none of those the scans stop at.\<close>

lemma show_int_chars:
  assumes "c \<in> set (show_int n)"
  shows "c \<noteq> CHR 0x22" "c \<noteq> CHR ''{''" "c \<noteq> CHR ''}''" "\<not> is_json_ws c"
  using assms show_nat_digits [of "nat n"] show_nat_digits [of "nat (- n)"]
  by (auto simp: show_int_def list_all_iff c_isdigit_def is_json_ws_def split: if_splits)

lemma find_key_show [simp]:
  "find_json_key (CHR 0x22 # key) (show_int n @ rest) = find_json_key (CHR 0x22 # key) rest"
proof -
  have "CHR 0x22 \<notin> set xs \<Longrightarrow> find_json_key (CHR 0x22 # key) (xs @ rest) = find_json_key (CHR 0x22 # key) rest" for xs
    by (induction xs) auto
  then show ?thesis using show_int_chars(1) by blast
qed

lemma roi_object_plain:
  "\<forall>c \<in> set xs. c \<noteq> CHR 0x22 \<and> c \<noteq> CHR ''{'' \<and> c \<noteq> CHR ''}'' \<Longrightarrow>
   roi_object d False False (xs @ rest) = map_option ((@) xs) (roi_object d False False rest)"
proof (induction xs)
  case Nil
  then show ?case by (cases "roi_object d False False rest") simp_all
next
  case (Cons c xs)
  then show ?case by (cases "roi_object d False False rest") simp_all
qed

lemma roi_object_show [simp]:
  "roi_object d False False (show_int n @ rest) = map_option ((@) (show_int n)) (roi_object d False False rest)"
  by (rule roi_object_plain) (use show_int_chars in blast)

lemma skip_ws_show [simp]: "skip_json_ws (show_int n @ rest) = show_int n @ rest"
proof -
  have "show_int n \<noteq> []" using show_nat_digits by (simp add: show_int_def)
  then obtain c cs where "show_int n = c # cs" by (cases "show_int n") auto
  then show ?thesis using show_int_chars(4) [of c n] by (simp add: skip_json_ws_def)
qed

text \<open>The request a client writes, in the compact form, without spaces, that the deployment documents show.\<close>

definition roi_text :: "int \<Rightarrow> int \<Rightarrow> int \<Rightarrow> int \<Rightarrow> string" where
  "roi_text x y w h = key_of ''x'' @ '':'' @ show_int x @ '','' @ key_of ''y'' @ '':'' @ show_int y @ '','' @
     key_of ''w'' @ '':'' @ show_int w @ '','' @ key_of ''h'' @ '':'' @ show_int h"

definition request_text :: "int \<Rightarrow> int \<Rightarrow> (int \<times> int \<times> int \<times> int) \<Rightarrow> string" where
  "request_text sid timeout roi = (case roi of (x, y, w, h) \<Rightarrow>
     ''{'' @ key_of ''stream_id'' @ '':'' @ show_int sid @ '','' @ key_of ''timeout_ms'' @ '':'' @ show_int timeout @
     '','' @ key_of ''roi'' @ '':{'' @ roi_text x y w h @ ''}}'')"

definition c_int :: "int \<Rightarrow> bool" where
  "c_int n \<longleftrightarrow> - INT_MAX - 1 \<le> n \<and> n \<le> INT_MAX"

lemma json_int_shown: "c_int n \<Longrightarrow> rest = [] \<or> \<not> c_isdigit (hd rest) \<Longrightarrow> json_int (show_int n @ rest) = Some n"
  using json_int_show [of n rest] by (simp add: c_int_def)

lemma not_digit: "\<not> c_isdigit CHR '',''" "\<not> c_isdigit CHR ''}''"
  by (simp_all add: c_isdigit_def)

lemma skip_ws_char [simp]: "\<not> is_json_ws c \<Longrightarrow> skip_json_ws (c # cs) = c # cs"
  by (simp add: skip_json_ws_def)

lemma not_ws [simp]: "\<not> is_json_ws CHR '':''" "\<not> is_json_ws CHR ''{''"
  by (simp_all add: is_json_ws_def)

lemma stream_id_read:
  assumes "c_int sid" and "0 < sid"
  shows "parse_stream_id_from_json (request_text sid t roi) = sid"
  using assms json_int_shown [of sid] not_digit
  by (cases roi) (simp add: parse_stream_id_from_json_def parse_json_int_key_def json_value_def request_text_def
      key_of_def Let_def)

lemma timeout_read:
  assumes "c_int t"
  shows "parse_timeout_ms_from_json (request_text sid t roi) d = t"
  using assms json_int_shown [of t] not_digit
  by (cases roi) (simp add: parse_timeout_ms_from_json_def parse_json_int_key_def json_value_def request_text_def
      key_of_def Let_def)

lemma roi_text_keys:
  assumes "c_int x" and "c_int y" and "c_int w" and "c_int h"
  shows "parse_json_int_key (roi_text x y w h) (key_of ''x'') = Some x"
    "parse_json_int_key (roi_text x y w h) (key_of ''y'') = Some y"
    "either_key (roi_text x y w h) ''w'' ''width'' = Some w"
    "either_key (roi_text x y w h) ''h'' ''height'' = Some h"
  using assms json_int_shown [of x] json_int_shown [of y] json_int_shown [of w] json_int_shown [of h "[]"] not_digit
    find_key_show [of _ h "[]"] skip_ws_show [of h "[]"]
  by (simp_all add: either_key_def parse_json_int_key_def json_value_def roi_text_def key_of_def Let_def)

lemma roi_object_text: "roi_object 1 False False (roi_text x y w h @ ''}}'') = Some (roi_text x y w h)"
  by (simp add: roi_text_def key_of_def)

lemma roi_value:
  "find_json_key (key_of ''roi'') (request_text sid t (x, y, w, h)) =
     Some (key_of ''roi'' @ '':{'' @ roi_text x y w h @ ''}}'')"
  "request_text sid t (x, y, w, h) \<noteq> []"
  by (simp_all add: request_text_def key_of_def)

lemma roi_read:
  assumes "c_int x" and "c_int y" and "c_int w" and "c_int h"
  shows "parse_roi_from_json (request_text sid t (x, y, w, h)) =
    (1, \<lparr>rq_requested = True, rq_x = x, rq_y = y, rq_w = w, rq_h = h\<rparr>)"
proof -
  have v: "json_value (key_of ''roi'') (request_text sid t (x, y, w, h)) = Some (CHR ''{'' # roi_text x y w h @ ''}}'')"
    by (simp add: json_value_def roi_value Let_def)
  have n: "take 4 (CHR ''{'' # roi_text x y w h @ ''}}'') \<noteq> ''null''" by simp
  show ?thesis
    using roi_value v n roi_object_text roi_text_keys [OF assms]
    by (simp add: parse_roi_from_json_def)
qed

text \<open>C27: a client's numbers arrive: the stream, the timeout and the four numbers of the region
  that a client prints into its request are the ones the bridge acts on, for all values of a
  C \<open>int\<close>, negative ones included.\<close>

theorem request_roundtrip:
  assumes "c_int sid" and "0 < sid" and "list_all c_int [t, x, y, w, h]"
  shows "parse_stream_id_from_json (request_text sid t (x, y, w, h)) = sid \<and>
    parse_timeout_ms_from_json (request_text sid t (x, y, w, h)) d = t \<and>
    parse_roi_from_json (request_text sid t (x, y, w, h)) =
      (1, \<lparr>rq_requested = True, rq_x = x, rq_y = y, rq_w = w, rq_h = h\<rparr>)"
  using assms stream_id_read timeout_read roi_read by simp

theorem request_roundtrip_witness:
  "parse_stream_id_from_json (request_text 7 (- 1) (- 5, 0, 2147483647, 10)) = 7 \<and>
   parse_timeout_ms_from_json (request_text 7 (- 1) (- 5, 0, 2147483647, 10)) 1000 = - 1"
  using request_roundtrip [of 7 "- 1" "- 5" 0 2147483647 10 1000] by (simp add: c_int_def INT_MAX_def)

end
