(* ===== verification/Vuyx.thy ===== *)
theory Vuyx
  imports Decoder
begin

text \<open>
  The conversion of packed VUYX pixels to BGR24 in \<open>stream_server/src/decoder.c\<close>: the
  coefficients, the scalar loop, and the AVX2 loop that does eight pixels at a time. The
  scalar code computes with \<open>int\<close>, whose values stay far from overflow; the AVX2 code with
  32-bit lanes that wrap, whose intrinsics are modelled as Intel documents them. The main
  result is that both write the same bytes.
\<close>

section \<open>Coefficients\<close>

definition STREAM_COLORSPACE_REC_601 :: u32 where "STREAM_COLORSPACE_REC_601 = 0"
definition STREAM_COLORSPACE_REC_709 :: u32 where "STREAM_COLORSPACE_REC_709 = 1"
definition STREAM_COLOR_RANGE_LIMITED :: u32 where "STREAM_COLOR_RANGE_LIMITED = 0"
definition STREAM_COLOR_RANGE_FULL :: u32 where "STREAM_COLOR_RANGE_FULL = 1"

record VuyxBgrCoeffs =
  vc_y_offset :: int
  vc_y_mul :: int
  vc_vr_mul :: int
  vc_gu_mul :: int
  vc_gv_mul :: int
  vc_bu_mul :: int

definition vuyx_bgr_coeffs_from_info :: "StreamInfo option \<Rightarrow> VuyxBgrCoeffs" where
  "vuyx_bgr_coeffs_from_info info =
     (let color_space = (case info of Some i \<Rightarrow> si_color_space i | None \<Rightarrow> STREAM_COLORSPACE_REC_709);
          color_range = (case info of Some i \<Rightarrow> si_color_range i | None \<Rightarrow> STREAM_COLOR_RANGE_LIMITED)
      in if color_space = STREAM_COLORSPACE_REC_601 then
           (if color_range = STREAM_COLOR_RANGE_FULL
            then \<lparr>vc_y_offset = 0, vc_y_mul = 256, vc_vr_mul = 359, vc_gu_mul = 88, vc_gv_mul = 183, vc_bu_mul = 454\<rparr>
            else \<lparr>vc_y_offset = 16, vc_y_mul = 298, vc_vr_mul = 409, vc_gu_mul = 100, vc_gv_mul = 208, vc_bu_mul = 516\<rparr>)
         else if color_range = STREAM_COLOR_RANGE_FULL
         then \<lparr>vc_y_offset = 0, vc_y_mul = 256, vc_vr_mul = 403, vc_gu_mul = 48, vc_gv_mul = 120, vc_bu_mul = 475\<rparr>
         else \<lparr>vc_y_offset = 16, vc_y_mul = 298, vc_vr_mul = 459, vc_gu_mul = 55, vc_gv_mul = 136, vc_bu_mul = 541\<rparr>)"

section \<open>The scalar loop\<close>

definition clamp_u8_from_int :: "int \<Rightarrow> u8" where
  "clamp_u8_from_int value = (if value < 0 then 0 else if value > 255 then 255 else word_of_int value)"

text \<open>The right shift of a negative \<open>int\<close> is arithmetic on the compilers the project uses.\<close>

definition vuyx_pixel :: "VuyxBgrCoeffs \<Rightarrow> u8 \<Rightarrow> u8 \<Rightarrow> u8 \<Rightarrow> u8 list" where
  "vuyx_pixel c vb ub yb =
     (let v = uint vb; u = uint ub; y_sample = uint yb - vc_y_offset c; du = u - 128; dv = v - 128;
          y_term = vc_y_mul c * (if y_sample < 0 then 0 else y_sample);
          b = drop_bit 8 (y_term + vc_bu_mul c * du + 128);
          g = drop_bit 8 (y_term - vc_gu_mul c * du - vc_gv_mul c * dv + 128);
          r = drop_bit 8 (y_term + vc_vr_mul c * dv + 128)
      in [clamp_u8_from_int b, clamp_u8_from_int g, clamp_u8_from_int r])"

text \<open>\<open>n\<close> pixels from the front of \<open>src\<close>.\<close>

fun vuyx_pixels :: "VuyxBgrCoeffs \<Rightarrow> nat \<Rightarrow> u8 list \<Rightarrow> u8 list" where
  "vuyx_pixels c 0 src = []"
| "vuyx_pixels c (Suc n) src = vuyx_pixel c (src ! 0) (src ! 1) (src ! 2) @ vuyx_pixels c n (drop 4 src)"

section \<open>The intrinsics\<close>

text \<open>
  A 256-bit register is its 32 bytes, or its eight 32-bit lanes; the code never looks at one
  register in both ways.
\<close>

definition mm256_set1_epi32 :: "int \<Rightarrow> u32 list" where
  "mm256_set1_epi32 n = replicate 8 (word_of_int n)"

text \<open>Within each half, mask bytes with the top bit set give 0, others pick a byte.\<close>

definition mm256_shuffle_epi8 :: "u8 list \<Rightarrow> int list \<Rightarrow> u8 list" where
  "mm256_shuffle_epi8 a picks =
     (let pick = \<lambda>half k. if k < 0 then 0 else half ! nat (k mod 16)
      in map (pick (take 16 a)) (take 16 picks) @ map (pick (drop 16 a)) (drop 16 picks))"

definition mm_unpacklo_epi32 :: "u8 list \<Rightarrow> u8 list \<Rightarrow> u8 list" where
  "mm_unpacklo_epi32 a b = take 4 a @ take 4 b @ take 4 (drop 4 a) @ take 4 (drop 4 b)"

definition mm256_cvtepu8_epi32 :: "u8 list \<Rightarrow> u32 list" where
  "mm256_cvtepu8_epi32 a = map ucast (take 8 a)"

definition mm256_add_epi32 :: "u32 list \<Rightarrow> u32 list \<Rightarrow> u32 list" where
  "mm256_add_epi32 = map2 (+)"

definition mm256_sub_epi32 :: "u32 list \<Rightarrow> u32 list \<Rightarrow> u32 list" where
  "mm256_sub_epi32 = map2 (-)"

definition mm256_mullo_epi32 :: "u32 list \<Rightarrow> u32 list \<Rightarrow> u32 list" where
  "mm256_mullo_epi32 = map2 (*)"

definition mm256_srai_epi32 :: "u32 list \<Rightarrow> nat \<Rightarrow> u32 list" where
  "mm256_srai_epi32 a n = map (signed_drop_bit n) a"

definition mm256_max_epi32 :: "u32 list \<Rightarrow> u32 list \<Rightarrow> u32 list" where
  "mm256_max_epi32 = map2 (\<lambda>a b. if sint a > sint b then a else b)"

definition mm256_min_epi32 :: "u32 list \<Rightarrow> u32 list \<Rightarrow> u32 list" where
  "mm256_min_epi32 = map2 (\<lambda>a b. if sint a < sint b then a else b)"

definition sat_u16 :: "u32 \<Rightarrow> u16" where
  "sat_u16 a = (if sint a < 0 then 0 else if sint a > 65535 then 65535 else ucast a)"

definition sat_u8 :: "u16 \<Rightarrow> u8" where
  "sat_u8 a = (if sint a < 0 then 0 else if sint a > 255 then 255 else ucast a)"

definition mm_packus_epi32 :: "u32 list \<Rightarrow> u32 list \<Rightarrow> u16 list" where
  "mm_packus_epi32 a b = map sat_u16 (a @ b)"

definition mm_packus_epi16 :: "u16 list \<Rightarrow> u16 list \<Rightarrow> u8 list" where
  "mm_packus_epi16 a b = map sat_u8 (a @ b)"

section \<open>The AVX2 loop\<close>

definition pick_mask :: "int \<Rightarrow> int list" where
  "pick_mask k = (let half = [k, k + 4, k + 8, k + 12] @ replicate 12 (- 1) in half @ half)"

definition gather_bytes :: "u8 list \<Rightarrow> int \<Rightarrow> u8 list" where
  "gather_bytes raw k =
     (let shuf = mm256_shuffle_epi8 raw (pick_mask k) in mm_unpacklo_epi32 (take 16 shuf) (drop 16 shuf))"

text \<open>Clamping and packing of one channel, down to the eight bytes that are stored.\<close>

definition channel_bytes :: "u32 list \<Rightarrow> u8 list" where
  "channel_bytes x32 =
     (let clamped = mm256_min_epi32 (mm256_max_epi32 x32 (mm256_set1_epi32 0)) (mm256_set1_epi32 255);
          x16 = mm_packus_epi32 (take 4 clamped) (drop 4 clamped)
      in take 8 (mm_packus_epi16 x16 x16))"

definition avx2_block :: "VuyxBgrCoeffs \<Rightarrow> u8 list \<Rightarrow> u8 list" where
  "avx2_block c raw =
     (let v32 = mm256_sub_epi32 (mm256_cvtepu8_epi32 (gather_bytes raw 0)) (mm256_set1_epi32 128);
          u32 = mm256_sub_epi32 (mm256_cvtepu8_epi32 (gather_bytes raw 1)) (mm256_set1_epi32 128);
          y0 = mm256_sub_epi32 (mm256_cvtepu8_epi32 (gather_bytes raw 2)) (mm256_set1_epi32 (vc_y_offset c));
          y32 = mm256_max_epi32 y0 (mm256_set1_epi32 0);
          c128 = mm256_set1_epi32 128;
          y_term = mm256_mullo_epi32 y32 (mm256_set1_epi32 (vc_y_mul c));
          b32 = mm256_srai_epi32 (mm256_add_epi32 (mm256_add_epi32 y_term
                  (mm256_mullo_epi32 u32 (mm256_set1_epi32 (vc_bu_mul c)))) c128) 8;
          g32 = mm256_srai_epi32 (mm256_add_epi32 (mm256_sub_epi32 (mm256_sub_epi32 y_term
                  (mm256_mullo_epi32 u32 (mm256_set1_epi32 (vc_gu_mul c))))
                  (mm256_mullo_epi32 v32 (mm256_set1_epi32 (vc_gv_mul c)))) c128) 8;
          r32 = mm256_srai_epi32 (mm256_add_epi32 (mm256_add_epi32 y_term
                  (mm256_mullo_epi32 v32 (mm256_set1_epi32 (vc_vr_mul c)))) c128) 8
      in concat (map (\<lambda>i. [channel_bytes b32 ! i, channel_bytes g32 ! i, channel_bytes r32 ! i]) [0..<8]))"

text \<open>The number of pixels done and the bytes written; \<open>n\<close> pixels are left from \<open>src\<close> on.\<close>

function avx2_row :: "VuyxBgrCoeffs \<Rightarrow> nat \<Rightarrow> u8 list \<Rightarrow> nat \<times> u8 list" where
  "avx2_row c n src =
     (if 8 \<le> n then (case avx2_row c (n - 8) (drop 32 src) of (x, out) \<Rightarrow>
        (x + 8, avx2_block c (take 32 src) @ out))
      else (0, []))"
  by pat_completeness auto
termination by (relation "measure (\<lambda>(c, n, src). n)") auto

declare avx2_row.simps [simp del]

text \<open>One row: the AVX2 loop when the processor has it, then the scalar loop for the rest.\<close>

definition vuyx_row :: "bool \<Rightarrow> VuyxBgrCoeffs \<Rightarrow> nat \<Rightarrow> u8 list \<Rightarrow> u8 list" where
  "vuyx_row can_use_avx2 c width src_row =
     (if can_use_avx2 then (case avx2_row c width src_row of (x, out) \<Rightarrow>
        out @ vuyx_pixels c (width - x) (drop (4 * x) src_row))
      else vuyx_pixels c width src_row)"

section \<open>The lanes compute what the scalar code computes\<close>

lemma sint_small: "- (2 ^ 31) \<le> i \<Longrightarrow> i < 2 ^ 31 \<Longrightarrow> sint (word_of_int i :: u32) = i"
  by (simp add: sint_sbintrunc' signed_take_bit_int_eq_self)

lemma sint_near: "- 1000000 \<le> i \<Longrightarrow> i \<le> 1000000 \<Longrightarrow> sint (word_of_int i :: u32) = i"
  by (rule sint_small) simp_all

lemma sar_small:
  assumes "- (2 ^ 31) \<le> i" and "i < 2 ^ 31"
  shows "(signed_drop_bit 8 (word_of_int i) :: u32) = word_of_int (drop_bit 8 i)"
proof (rule signed_word_eqI)
  have "- (2 ^ 31) \<le> drop_bit 8 i \<and> drop_bit 8 i < 2 ^ 31"
    using assms by (auto simp: drop_bit_eq_div)
  then show "sint (signed_drop_bit 8 (word_of_int i) :: u32) = sint (word_of_int (drop_bit 8 i) :: u32)"
    using assms by (simp add: sint_signed_drop_bit_eq sint_small)
qed

text \<open>One lane, from the sum to the stored byte.\<close>

definition lane_byte :: "u32 \<Rightarrow> u8" where
  "lane_byte x = (let a = signed_drop_bit 8 x; b = (if sint a > sint (0 :: u32) then a else 0);
     d = (if sint b < sint (255 :: u32) then b else 255) in sat_u8 (sat_u16 d))"

lemma pack_byte:
  assumes "0 \<le> j" and "j \<le> 255"
  shows "sat_u8 (sat_u16 (word_of_int j)) = word_of_int j"
proof -
  have "sint (word_of_int j :: u32) = j" using assms by (intro sint_small) auto
  then have "sat_u16 (word_of_int j) = word_of_int j" using assms by (simp add: sat_u16_def unsigned_of_int take_bit_int_eq_self)
  moreover have "sint (word_of_int j :: u16) = j"
    using assms by (simp add: sint_sbintrunc' signed_take_bit_int_eq_self)
  ultimately show ?thesis using assms by (simp add: sat_u8_def unsigned_of_int take_bit_int_eq_self)
qed

lemma lane_byte_clamp:
  assumes "- (2 ^ 31) \<le> i" and "i < 2 ^ 31"
  shows "lane_byte (word_of_int i) = clamp_u8_from_int (drop_bit 8 i)"
proof -
  define j where "j = drop_bit 8 i"
  have r: "- (2 ^ 31) \<le> j" "j < 2 ^ 31" using assms by (auto simp: drop_bit_eq_div j_def)
  note s = sint_small [OF r] and shift = sar_small [OF assms, folded j_def]
  have c: "sint (255 :: u32) = 255" using sint_small [of 255] by simp
  consider "j < 0" | "0 \<le> j" "j \<le> 255" | "j > 255" by linarith
  then have "lane_byte (word_of_int i) = clamp_u8_from_int j"
  proof cases
    case 1
    then show ?thesis using pack_byte [of 0] s c shift
      by (simp add: lane_byte_def Let_def clamp_u8_from_int_def)
  next
    case 2
    then show ?thesis using pack_byte [of j] pack_byte [of 0] pack_byte [of 255] s c shift
      by (auto simp: lane_byte_def Let_def clamp_u8_from_int_def)
  next
    case 3
    then show ?thesis using pack_byte [of 255] s c shift
      by (simp add: lane_byte_def Let_def clamp_u8_from_int_def)
  qed
  then show ?thesis by (simp only: j_def)
qed

lemma lane_byte_near:
  "- 1000000 \<le> i \<Longrightarrow> i \<le> 1000000 \<Longrightarrow> lane_byte (word_of_int i) = clamp_u8_from_int (drop_bit 8 i)"
  by (rule lane_byte_clamp) simp_all

text \<open>The coefficients are small, so no lane overflows.\<close>

definition small_coeffs :: "VuyxBgrCoeffs \<Rightarrow> bool" where
  "small_coeffs c \<longleftrightarrow> 0 \<le> vc_y_offset c \<and> vc_y_offset c \<le> 255 \<and>
     (\<forall>m \<in> {vc_y_mul c, vc_vr_mul c, vc_gu_mul c, vc_gv_mul c, vc_bu_mul c}. 0 \<le> m \<and> m \<le> 1000)"

lemma coeffs_small: "small_coeffs (vuyx_bgr_coeffs_from_info info)"
  by (simp add: vuyx_bgr_coeffs_from_info_def small_coeffs_def Let_def)

lemma scaled_small:
  assumes "0 \<le> m" and "m \<le> 1000" and "- 255 \<le> d" and "d \<le> (255 :: int)"
  shows "- 255000 \<le> m * d" "m * d \<le> 255000"
proof -
  have "\<bar>m * d\<bar> \<le> 1000 * 255" unfolding abs_mult by (rule mult_mono) (use assms in auto)
  then show "- 255000 \<le> m * d" "m * d \<le> 255000" by linarith+
qed

lemma uint_u8: "0 \<le> uint (x :: u8)" "uint (x :: u8) \<le> 255"
  using uint_bounded [of x] by simp_all

definition lane_y :: "int \<Rightarrow> u8 \<Rightarrow> u32" where
  "lane_y k y = (let a = ucast y - word_of_int k in if sint a > sint (0 :: u32) then a else 0)"

lemma lane_y_eq:
  assumes "0 \<le> k" and "k \<le> 255"
  shows "lane_y k y = word_of_int (if uint y - k < 0 then 0 else uint y - k)"
proof -
  have u: "ucast y - word_of_int k = (word_of_int (uint y - k) :: u32)" by simp
  have "sint (word_of_int (uint y - k) :: u32) = uint y - k"
    using assms uint_u8 [of y] by (intro sint_near) linarith+
  then show ?thesis unfolding lane_y_def Let_def u by auto
qed

lemma lane_pixel:
  assumes "small_coeffs c"
  shows "vuyx_pixel c v u y =
    [lane_byte (lane_y (vc_y_offset c) y * word_of_int (vc_y_mul c) + (ucast u - 128) * word_of_int (vc_bu_mul c) + 128),
     lane_byte (lane_y (vc_y_offset c) y * word_of_int (vc_y_mul c) - (ucast u - 128) * word_of_int (vc_gu_mul c)
       - (ucast v - 128) * word_of_int (vc_gv_mul c) + 128),
     lane_byte (lane_y (vc_y_offset c) y * word_of_int (vc_y_mul c) + (ucast v - 128) * word_of_int (vc_vr_mul c) + 128)]"
proof -
  define ys where "ys = (if uint y - vc_y_offset c < 0 then 0 else uint y - vc_y_offset c)"
  let ?du = "uint u - 128" and ?dv = "uint v - 128"
  have ks: "0 \<le> vc_y_offset c" "vc_y_offset c \<le> 255" using assms by (simp_all add: small_coeffs_def)
  have lu: "(ucast u - 128 :: u32) = word_of_int ?du" "(ucast v - 128 :: u32) = word_of_int ?dv" by simp_all
  have yb: "- 255 \<le> ys" "ys \<le> 255" using ks uint_u8 [of y] by (auto simp: ys_def)
  have db: "- 255 \<le> ?du" "?du \<le> 255" "- 255 \<le> ?dv" "?dv \<le> 255" using uint_u8 [of u] uint_u8 [of v] by auto
  have m: "0 \<le> m \<and> m \<le> 1000" if "m \<in> {vc_y_mul c, vc_vr_mul c, vc_gu_mul c, vc_gv_mul c, vc_bu_mul c}" for m
    using assms that unfolding small_coeffs_def by blast
  have b: "- 255000 \<le> vc_y_mul c * ys" "vc_y_mul c * ys \<le> 255000"
    "- 255000 \<le> vc_bu_mul c * ?du" "vc_bu_mul c * ?du \<le> 255000"
    "- 255000 \<le> vc_gu_mul c * ?du" "vc_gu_mul c * ?du \<le> 255000"
    "- 255000 \<le> vc_gv_mul c * ?dv" "vc_gv_mul c * ?dv \<le> 255000"
    "- 255000 \<le> vc_vr_mul c * ?dv" "vc_vr_mul c * ?dv \<le> 255000"
    using scaled_small [OF _ _ yb] scaled_small [OF _ _ db(1,2)] scaled_small [OF _ _ db(3,4)] m by auto
  have blue: "lane_byte (word_of_int (vc_y_mul c * ys + vc_bu_mul c * ?du + 128)) =
      clamp_u8_from_int (drop_bit 8 (vc_y_mul c * ys + vc_bu_mul c * ?du + 128))"
    by (rule lane_byte_near) (use b in linarith)+
  have green: "lane_byte (word_of_int (vc_y_mul c * ys - vc_gu_mul c * ?du - vc_gv_mul c * ?dv + 128)) =
      clamp_u8_from_int (drop_bit 8 (vc_y_mul c * ys - vc_gu_mul c * ?du - vc_gv_mul c * ?dv + 128))"
    by (rule lane_byte_near) (use b in linarith)+
  have red: "lane_byte (word_of_int (vc_y_mul c * ys + vc_vr_mul c * ?dv + 128)) =
      clamp_u8_from_int (drop_bit 8 (vc_y_mul c * ys + vc_vr_mul c * ?dv + 128))"
    by (rule lane_byte_near) (use b in linarith)+
  have hom: "(word_of_int a * word_of_int b :: u32) = word_of_int (b * a)" for a b
    by (simp add: mult.commute)
  show ?thesis
    unfolding vuyx_pixel_def Let_def lane_y_eq [OF ks] ys_def [symmetric] lu hom blue [symmetric] green [symmetric] red [symmetric]
    by simp
qed

section \<open>A block is eight pixels\<close>

lemma upt_8: "[0..<8] = [0, 1, 2, 3, 4, 5, 6, 7 :: nat]"
  by (simp add: upt_rec)

lemma gather_bytes_eq:
  assumes "length raw = 32" and "0 \<le> k" and "k \<le> 3"
  shows "take 8 (gather_bytes raw k) = map (\<lambda>i. raw ! (nat k + 4 * i)) [0..<8]"
proof -
  let ?half = "[k, k + 4, k + 8, k + 12] @ replicate 12 (- 1)"
  have t: "take 16 (?half @ ?half) = ?half" "drop 16 (?half @ ?half) = ?half" by simp_all
  have pos: "\<not> k < 0" "\<not> k + 4 < 0" "\<not> k + 8 < 0" "\<not> k + 12 < 0" using assms(2) by auto
  have m: "nat (k mod 16) = nat k" "nat ((k + 4) mod 16) = nat k + 4" "nat ((k + 8) mod 16) = nat k + 8"
    "nat ((k + 12) mod 16) = nat k + 12"
    using assms(2,3) by (simp_all add: nat_add_distrib)
  have l: "nat k < 4" using assms(3) by simp
  show ?thesis
    unfolding gather_bytes_def mm256_shuffle_epi8_def pick_mask_def mm_unpacklo_epi32_def Let_def t upt_8
    using assms(1) l by (simp add: pos m nth_take ac_simps)
qed

lemma channel_bytes_nth:
  assumes "length x = 8" and "i < 8"
  shows "channel_bytes (mm256_srai_epi32 x 8) ! i = lane_byte (x ! i)"
proof -
  obtain a b c d e f g h where x: "x = [a, b, c, d, e, f, g, h]"
    using assms(1) by (auto simp: length_Suc_conv numeral_eq_Suc)
  have eight: "replicate 8 z = [z, z, z, z, z, z, z, z]" for z :: u32 by (simp add: numeral_eq_Suc)
  have "channel_bytes (mm256_srai_epi32 x 8) = map lane_byte x"
    by (simp add: channel_bytes_def Let_def x mm256_srai_epi32_def mm256_max_epi32_def mm256_min_epi32_def
        mm256_set1_epi32_def eight mm_packus_epi32_def mm_packus_epi16_def lane_byte_def)
  then show ?thesis using assms by simp
qed

lemmas lanewise = mm256_add_epi32_def mm256_sub_epi32_def mm256_mullo_epi32_def mm256_max_epi32_def
  mm256_set1_epi32_def mm256_cvtepu8_epi32_def

lemma avx2_block_pixels:
  assumes "length raw = 32" and "small_coeffs c"
  shows "avx2_block c raw =
    concat (map (\<lambda>i. vuyx_pixel c (raw ! (4 * i)) (raw ! (4 * i + 1)) (raw ! (4 * i + 2))) [0..<8])"
proof -
  have g: "take 8 (gather_bytes raw k) = map (\<lambda>i. raw ! (nat k + 4 * i)) [0..<8]" if "k \<in> {0, 1, 2}" for k
    using gather_bytes_eq [OF assms(1), of k] that by auto
  show ?thesis
    unfolding avx2_block_def Let_def
    by (intro arg_cong [where f = concat] map_cong refl)
      (use g [of 0] g [of 1] g [of 2] in
        \<open>simp add: channel_bytes_nth lanewise lane_pixel [OF assms(2)] lane_y_def Let_def\<close>)
qed

section \<open>Rows\<close>

definition pixel_at :: "VuyxBgrCoeffs \<Rightarrow> u8 list \<Rightarrow> nat \<Rightarrow> u8 list" where
  "pixel_at c src i = vuyx_pixel c (src ! (4 * i)) (src ! (4 * i + 1)) (src ! (4 * i + 2))"

lemma length_vuyx_pixel [simp]: "length (vuyx_pixel c v u y) = 3"
  by (simp add: vuyx_pixel_def Let_def)

lemma length_pixel_at [simp]: "length (pixel_at c src i) = 3"
  by (simp add: pixel_at_def)

lemma pixel_at_drop: "4 * (k + i) + 4 \<le> length src \<Longrightarrow> pixel_at c (drop (4 * k) src) i = pixel_at c src (k + i)"
  by (simp add: pixel_at_def distrib_left add.assoc)

lemma pixel_at_take: "4 * i + 4 \<le> k \<Longrightarrow> pixel_at c (take k src) i = pixel_at c src i"
  by (simp add: pixel_at_def)

lemma pixels_shift:
  assumes "4 * (k + n) \<le> length src"
  shows "concat (map (pixel_at c (drop (4 * k) src)) [0..<n]) = concat (map (pixel_at c src) [k..<k + n])"
proof -
  have "map (pixel_at c (drop (4 * k) src)) [0..<n] = map (\<lambda>i. pixel_at c src (k + i)) [0..<n]"
    using assms by (intro map_cong refl pixel_at_drop) simp
  also have "\<dots> = map (pixel_at c src) (map ((+) k) [0..<n])" by simp
  also have "map ((+) k) [0..<n] = [k..<k + n]" by (induction n) simp_all
  finally show ?thesis by simp
qed

lemma vuyx_pixels_eq:
  "4 * n \<le> length src \<Longrightarrow> vuyx_pixels c n src = concat (map (pixel_at c src) [0..<n])"
proof (induction n arbitrary: src)
  case (Suc n)
  have "vuyx_pixels c n (drop 4 src) = concat (map (pixel_at c (drop (4 * 1) src)) [0..<n])"
    using Suc.IH [of "drop 4 src"] Suc.prems by simp
  also have "\<dots> = concat (map (pixel_at c src) [1..<1 + n])"
    using Suc.prems by (intro pixels_shift) simp
  finally show ?case by (simp add: upt_conv_Cons pixel_at_def [of c src 0] numeral_2_eq_2 del: upt_Suc)
qed simp

lemma avx2_row_eq:
  assumes "avx2_row c n src = (x, out)" and "4 * n \<le> length src" and "small_coeffs c"
  shows "x \<le> n \<and> out = concat (map (pixel_at c src) [0..<x])"
  using assms
proof (induction c n src arbitrary: x out rule: avx2_row.induct)
  case (1 c n src)
  show ?case
  proof (cases "8 \<le> n")
    case True
    obtain x1 out1 where r: "avx2_row c (n - 8) (drop 32 src) = (x1, out1)" by fastforce
    have ih: "x1 \<le> n - 8" "out1 = concat (map (pixel_at c (drop 32 src)) [0..<x1])"
      using "1.IH" [OF True r] "1.prems"(2,3) by auto
    have out: "x = x1 + 8" "out = avx2_block c (take 32 src) @ out1"
      using "1.prems"(1) True r by (simp_all add: avx2_row.simps [of c n])
    have "avx2_block c (take 32 src) = concat (map (pixel_at c (take 32 src)) [0..<8])"
      unfolding pixel_at_def using "1.prems"(2,3) True
      by (intro avx2_block_pixels) simp_all
    also have "\<dots> = concat (map (pixel_at c src) [0..<8])"
      by (intro arg_cong [where f = concat] map_cong refl pixel_at_take) simp
    finally have b: "avx2_block c (take 32 src) = concat (map (pixel_at c src) [0..<8])" .
    have "out1 = concat (map (pixel_at c src) [8..<8 + x1])"
      using pixels_shift [of 8 x1 src c] ih "1.prems"(2) True by simp
    then show ?thesis using out b ih(1) True upt_add_eq_append [of 0 8 x1]
      by (simp add: add.commute)
  next
    case False
    then show ?thesis using "1.prems"(1) by (simp add: avx2_row.simps [of c n])
  qed
qed

lemma vuyx_row_eq:
  assumes "4 * width \<le> length src" and "small_coeffs c"
  shows "vuyx_row avx c width src = concat (map (pixel_at c src) [0..<width])"
proof (cases avx)
  case True
  obtain x out where r: "avx2_row c width src = (x, out)" by fastforce
  note a = avx2_row_eq [OF r assms]
  have "vuyx_pixels c (width - x) (drop (4 * x) src) = concat (map (pixel_at c (drop (4 * x) src)) [0..<width - x])"
    using assms(1) a by (intro vuyx_pixels_eq) (auto simp: diff_mult_distrib2)
  also have "\<dots> = concat (map (pixel_at c src) [x..<x + (width - x)])"
    using assms(1) a by (intro pixels_shift) simp
  finally show ?thesis using True r a upt_add_eq_append [of 0 x "width - x"]
    by (simp add: vuyx_row_def)
qed (simp add: vuyx_row_def vuyx_pixels_eq assms(1))

section \<open>Images\<close>

text \<open>The fields of a fresh system-memory frame with one plane.\<close>

definition bgr_frame :: "DecodedFrame \<Rightarrow> DecodeFormat \<Rightarrow> int \<Rightarrow> u8 list option \<Rightarrow> DecodedFrame" where
  "bgr_frame src fmt linesize plane = \<lparr>df_av_frame = None, df_data = [plane, None, None, None],
     df_linesize = [linesize, 0, 0, 0], df_width = df_width src, df_height = df_height src, df_format = fmt,
     df_storage = DECODE_STORAGE_CPU, df_pts = df_pts src, df_key_frame = df_key_frame src, df_stats = None\<rparr>"

definition vuyx_rows :: "bool \<Rightarrow> VuyxBgrCoeffs \<Rightarrow> nat \<Rightarrow> nat \<Rightarrow> nat \<Rightarrow> u8 list \<Rightarrow> u8 list" where
  "vuyx_rows can_use_avx2 c width height linesize plane =
     concat (map (\<lambda>y. vuyx_row can_use_avx2 c width (drop (y * linesize) plane)) [0..<height])"

definition decoder_fast_convert_vuyx_to_bgr24 ::
  "bool \<Rightarrow> bool \<Rightarrow> DecodedFrame \<Rightarrow> StreamInfo option \<Rightarrow> DecodedFrame \<Rightarrow> int \<times> DecodedFrame" where
  "decoder_fast_convert_vuyx_to_bgr24 can_use_avx2 malloc_ok src info dst =
     (case df_data src ! 0 of None \<Rightarrow> (- 1, dst) | Some plane \<Rightarrow>
        if df_width src \<le> 0 \<or> df_height src \<le> 0 \<or> df_linesize src ! 0 < df_width src * 4 then (- 1, dst)
        else if \<not> malloc_ok then (- 1, bgr_frame src DECODE_FMT_BGR24 (df_width src * 3) None)
        else (0, bgr_frame src DECODE_FMT_BGR24 (df_width src * 3)
               (Some (vuyx_rows can_use_avx2 (vuyx_bgr_coeffs_from_info info)
                  (nat (df_width src)) (nat (df_height src)) (nat (df_linesize src ! 0)) plane))))"

lemma length_concat_const: "\<forall>x \<in> set xs. length (f x) = k \<Longrightarrow> length (concat (map f xs)) = length xs * k"
  by (induction xs) auto

lemma nth_concat_const:
  "\<forall>i < n. length (f i) = k \<Longrightarrow> i < n \<Longrightarrow> j < k \<Longrightarrow> concat (map f [0..<n]) ! (i * k + j) = f i ! j"
proof (induction n)
  case (Suc n)
  have len: "length (concat (map f [0..<n])) = n * k"
    using length_concat_const [of "[0..<n]" f k] Suc.prems(1) by simp
  show ?case
  proof (cases "i < n")
    case True
    have "i * k + j < n * k"
      using mult_le_mono1 [of "Suc i" n k] True Suc.prems(3) by simp
    then show ?thesis using Suc True len by (simp add: nth_append)
  next
    case False
    then show ?thesis using Suc.prems len by (simp add: nth_append less_Suc_eq)
  qed
qed simp

lemma vuyx_rows_eq:
  assumes "4 * width \<le> linesize" and "height * linesize \<le> length plane" and "small_coeffs c"
  shows "vuyx_rows avx c width height linesize plane =
    concat (map (\<lambda>y. concat (map (pixel_at c (drop (y * linesize) plane)) [0..<width])) [0..<height])"
  unfolding vuyx_rows_def
proof (intro arg_cong [where f = concat] map_cong refl)
  fix y
  assume "y \<in> set [0..<height]"
  then have "Suc y * linesize \<le> height * linesize" by (intro mult_le_mono1) simp
  then have "4 * width \<le> length (drop (y * linesize) plane)" using assms(1,2) by simp
  then show "vuyx_row avx c width (drop (y * linesize) plane) =
      concat (map (pixel_at c (drop (y * linesize) plane)) [0..<width])"
    by (rule vuyx_row_eq [OF _ assms(3)])
qed

lemma vuyx_rows_nth:
  assumes "4 * width \<le> linesize" and "height * linesize \<le> length plane" and "small_coeffs c"
    and "x < width" and "y < height" and "k < 3"
  shows "vuyx_rows avx c width height linesize plane ! (y * (width * 3) + (x * 3 + k)) =
    vuyx_pixel c (plane ! (y * linesize + 4 * x)) (plane ! (y * linesize + 4 * x + 1)) (plane ! (y * linesize + 4 * x + 2)) ! k"
proof -
  let ?row = "\<lambda>y. concat (map (pixel_at c (drop (y * linesize) plane)) [0..<width])"
  have len: "length (?row y) = width * 3" for y
    using length_concat_const [of "[0..<width]" "pixel_at c (drop (y * linesize) plane)" 3] by simp
  have "Suc x * 3 \<le> width * 3" using assms(4) by (intro mult_le_mono1) simp
  then have in_row: "x * 3 + k < width * 3" using assms(6) by simp
  have "vuyx_rows avx c width height linesize plane ! (y * (width * 3) + (x * 3 + k)) = ?row y ! (x * 3 + k)"
    unfolding vuyx_rows_eq [OF assms(1-3)]
    using nth_concat_const [of height ?row "width * 3" y "x * 3 + k"] len assms(5) in_row by simp
  also have "\<dots> = pixel_at c (drop (y * linesize) plane) x ! k"
    using nth_concat_const [of width "pixel_at c (drop (y * linesize) plane)" 3 x k] assms(4,6) by simp
  also have "\<dots> = vuyx_pixel c (plane ! (y * linesize + 4 * x)) (plane ! (y * linesize + 4 * x + 1))
      (plane ! (y * linesize + 4 * x + 2)) ! k"
  proof -
    have "Suc y * linesize \<le> height * linesize" using assms(5) by (intro mult_le_mono1) simp
    then have "y * linesize \<le> length plane" using assms(2) by simp
    then show ?thesis by (simp add: pixel_at_def add.assoc)
  qed
  finally show ?thesis .
qed

text \<open>C6: the AVX2 loop is exact: on every processor a VUYX frame becomes the same BGR24 image, of
  three bytes a pixel without padding, in which every pixel is the scalar conversion of its
  own four source bytes; the 32-bit lanes never overflow and the rest of a row that is no
  multiple of eight pixels is not lost.\<close>

theorem vuyx_conversion_exact:
  assumes "df_data src ! 0 = Some plane" and "0 < df_width src" and "0 < df_height src"
    and "df_width src * 4 \<le> df_linesize src ! 0"
    and "nat (df_height src) * nat (df_linesize src ! 0) \<le> length plane"
  shows "\<exists>bgr. (\<forall>avx. decoder_fast_convert_vuyx_to_bgr24 avx True src info dst =
        (0, bgr_frame src DECODE_FMT_BGR24 (df_width src * 3) (Some bgr))) \<and>
    length bgr = nat (df_height src) * (nat (df_width src) * 3) \<and>
    (\<forall>x < nat (df_width src). \<forall>y < nat (df_height src). \<forall>k < 3.
       let at = y * nat (df_linesize src ! 0) + 4 * x in
       bgr ! (y * (nat (df_width src) * 3) + (x * 3 + k)) =
       vuyx_pixel (vuyx_bgr_coeffs_from_info info) (plane ! at) (plane ! (at + 1)) (plane ! (at + 2)) ! k)"
proof -
  let ?c = "vuyx_bgr_coeffs_from_info info" and ?w = "nat (df_width src)" and ?h = "nat (df_height src)"
    and ?l = "nat (df_linesize src ! 0)"
  let ?bgr = "vuyx_rows True ?c ?w ?h ?l plane"
  have w: "4 * ?w \<le> ?l" using assms(4) by simp
  note eq = vuyx_rows_eq [OF w assms(5) coeffs_small]
  have "length ?bgr = ?h * (?w * 3)"
    unfolding eq by (subst length_concat_const [where k = "?w * 3"])
      (auto simp: length_concat_const [where k = 3])
  then show ?thesis
    using assms(1-4) eq vuyx_rows_nth [OF w assms(5) coeffs_small]
    by (intro exI [of _ ?bgr]) (simp add: decoder_fast_convert_vuyx_to_bgr24_def Let_def)
qed

text \<open>Nine white pixels: one AVX2 block and one scalar pixel.\<close>

definition ex_vuyx :: DecodedFrame where
  "ex_vuyx = zero_frame\<lparr>df_data := [Some (concat (replicate 9 [128, 128, 235, 0])), None, None, None],
     df_linesize := [36, 0, 0, 0], df_width := 9, df_height := 1, df_format := DECODE_FMT_VUYX\<rparr>"

theorem vuyx_conversion_exact_witness:
  "\<exists>bgr. (\<forall>avx. decoder_fast_convert_vuyx_to_bgr24 avx True ex_vuyx None zero_frame =
      (0, bgr_frame ex_vuyx DECODE_FMT_BGR24 27 (Some bgr))) \<and> length bgr = 27 \<and> bgr ! 24 = 255"
proof -
  let ?plane = "concat (replicate 9 [128, 128, 235, 0]) :: u8 list"
  have f: "df_data ex_vuyx ! 0 = Some ?plane" "0 < df_width ex_vuyx" "0 < df_height ex_vuyx"
    "df_width ex_vuyx * 4 \<le> df_linesize ex_vuyx ! 0"
    "nat (df_height ex_vuyx) * nat (df_linesize ex_vuyx ! 0) \<le> length ?plane"
    "nat (df_width ex_vuyx) = 9" "nat (df_height ex_vuyx) = 1" "nat (df_linesize ex_vuyx ! 0) = 36"
    by (simp_all add: ex_vuyx_def numeral_eq_Suc)
  obtain bgr where r: "\<forall>avx. decoder_fast_convert_vuyx_to_bgr24 avx True ex_vuyx None zero_frame =
      (0, bgr_frame ex_vuyx DECODE_FMT_BGR24 (df_width ex_vuyx * 3) (Some bgr))" "length bgr = 27"
    and px: "\<forall>x < 9. \<forall>y < 1. \<forall>k < 3. bgr ! (y * 27 + (x * 3 + k)) =
       vuyx_pixel (vuyx_bgr_coeffs_from_info None) (?plane ! (y * 36 + 4 * x)) (?plane ! (y * 36 + 4 * x + 1))
         (?plane ! (y * 36 + 4 * x + 2)) ! k"
    using vuyx_conversion_exact [OF f(1-5), of None zero_frame] unfolding f(6-8) Let_def by auto
  have "bgr ! (0 * 27 + (8 * 3 + 0)) = vuyx_pixel (vuyx_bgr_coeffs_from_info None) (?plane ! (0 * 36 + 4 * 8))
      (?plane ! (0 * 36 + 4 * 8 + 1)) (?plane ! (0 * 36 + 4 * 8 + 2)) ! 0"
    using px [rule_format, of 8 0 0] by simp
  also have "\<dots> = vuyx_pixel (vuyx_bgr_coeffs_from_info None) 128 128 235 ! 0"
    by (simp add: numeral_eq_Suc)
  also have "\<dots> = 255"
    by (simp add: vuyx_pixel_def vuyx_bgr_coeffs_from_info_def STREAM_COLORSPACE_REC_709_def
        STREAM_COLORSPACE_REC_601_def STREAM_COLOR_RANGE_LIMITED_def STREAM_COLOR_RANGE_FULL_def
        clamp_u8_from_int_def drop_bit_eq_div)
  finally have "bgr ! 24 = 255" by simp
  then show ?thesis using r by (auto simp: ex_vuyx_def)
qed

end
