(* ===== verification/Convert.thy ===== *)
theory Convert
  imports Vuyx DecoderFrames
begin

text \<open>
  The format conversion of \<open>stream_server/src/decoder.c\<close>: the fast paths to BGR24, the
  fallback through swscale with its cached context, the counters, and the download of frames
  in hardware memory. libyuv and swscale are arguments; what swscale does with the context it
  is handed is its documented behaviour.
\<close>

section \<open>Library calls\<close>

datatype YuvConstants = kYvuJPEGConstants | kYvuI601Constants | kYvuF709Constants | kYvuH709Constants

datatype AVColorSpace =
  AVCOL_SPC_BT709 | AVCOL_SPC_BT470BG | AVCOL_SPC_SMPTE170M | AVCOL_SPC_FCC | AVCOL_SPC_other nat

datatype AVColorRange = AVCOL_RANGE_UNSPECIFIED | AVCOL_RANGE_MPEG | AVCOL_RANGE_JPEG

datatype sws_cs = SWS_CS_ITU601 | SWS_CS_ITU709

text \<open>
  \<open>cv_yuv\<close> and \<open>cv_scale\<close> are the conversions of libyuv and swscale: their code and the bytes
  they leave in the destination, a block whose rows are \<open>3 * width\<close> bytes for libyuv and as
  long as the argument behind the height says for swscale. \<open>cv_libyuv\<close> is the build option.
\<close>

record conv_env =
  cv_libyuv :: bool
  cv_avx2 :: bool
  cv_malloc_fast :: bool
  cv_yuv :: "DecodeFormat \<Rightarrow> YuvConstants \<Rightarrow> u8 list option list \<Rightarrow> int list \<Rightarrow> int \<Rightarrow> int \<Rightarrow> int \<times> u8 list"
  cv_avf_color :: "AVFrame \<Rightarrow> AVColorSpace \<times> AVColorRange"
  cv_sws_context :: bool
  cv_sws_details :: "sws_cs \<Rightarrow> bool \<Rightarrow> int"
  cv_malloc_sws :: bool
  cv_scale :: "u8 list option list \<Rightarrow> int list \<Rightarrow> int \<Rightarrow> int \<Rightarrow> DecodeFormat \<Rightarrow> sws_cs \<Rightarrow> bool \<Rightarrow> int \<times> u8 list"
  cv_download :: recv_ans
  cv_malloc_planes :: "nat \<Rightarrow> bool"

section \<open>The swscale context\<close>

text \<open>
  A context is known by its address and remembers its geometry. It is kept in the decoder
  context, or in the thread when there is none, or nowhere when the thread has no key for it.
\<close>

type_synonym sws_params = "int \<times> int \<times> AVPixelFormat \<times> AVPixelFormat"

datatype sws_owner = OwnerCtx | OwnerThread | OwnerNone

record sws_state =
  sw_live :: "nat \<Rightarrow> sws_params option"
  sw_next :: nat
  sw_cached :: "nat option"

definition decoder_get_cached_sws_ctx :: "sws_owner \<Rightarrow> sws_state \<Rightarrow> nat option" where
  "decoder_get_cached_sws_ctx owner w = (if owner = OwnerNone then None else sw_cached w)"

definition decoder_store_cached_sws_ctx :: "sws_owner \<Rightarrow> nat \<Rightarrow> sws_state \<Rightarrow> sws_state" where
  "decoder_store_cached_sws_ctx owner p w = (if owner = OwnerNone then w else w\<lparr>sw_cached := Some p\<rparr>)"

definition sws_freeContext :: "nat \<Rightarrow> sws_state \<Rightarrow> sws_state" where
  "sws_freeContext p w = w\<lparr>sw_live := (sw_live w)(p := None)\<rparr>"

text \<open>
  \<open>sws_getCachedContext\<close>: the context itself when its geometry is the one asked for; otherwise
  it is freed and a new one is made, which may fail.
\<close>

definition sws_getCachedContext :: "bool \<Rightarrow> nat option \<Rightarrow> sws_params \<Rightarrow> sws_state \<Rightarrow> nat option \<times> sws_state" where
  "sws_getCachedContext ok p params w =
     (case p of
        Some a \<Rightarrow> if sw_live w a = Some params then (Some a, w)
          else (let w1 = sws_freeContext a w in
                if ok then (Some (sw_next w1), w1\<lparr>sw_live := (sw_live w1)(sw_next w1 \<mapsto> params), sw_next := sw_next w1 + 1\<rparr>)
                else (None, w1))
      | None \<Rightarrow> if ok then (Some (sw_next w), w\<lparr>sw_live := (sw_live w)(sw_next w \<mapsto> params), sw_next := sw_next w + 1\<rparr>)
          else (None, w))"

text \<open>
  What \<open>decoder_destroy\<close> does with the context kept in the decoder: the rest of that function,
  which works on the objects of FFmpeg, is in the theory \<open>Decoder\<close>.
\<close>

definition decoder_destroy_sws :: "sws_state \<Rightarrow> sws_state" where
  "decoder_destroy_sws w = (case sw_cached w of None \<Rightarrow> w | Some p \<Rightarrow> sws_freeContext p w)"

section \<open>Color details\<close>

definition bgr_yuv_constants_from_info :: "StreamInfo option \<Rightarrow> YuvConstants" where
  "bgr_yuv_constants_from_info info =
     (let color_space = (case info of Some i \<Rightarrow> si_color_space i | None \<Rightarrow> STREAM_COLORSPACE_REC_709);
          color_range = (case info of Some i \<Rightarrow> si_color_range i | None \<Rightarrow> STREAM_COLOR_RANGE_LIMITED)
      in if color_space = STREAM_COLORSPACE_REC_601
         then (if color_range = STREAM_COLOR_RANGE_FULL then kYvuJPEGConstants else kYvuI601Constants)
         else if color_range = STREAM_COLOR_RANGE_FULL then kYvuF709Constants else kYvuH709Constants)"

definition infer_sws_color_details ::
  "(AVFrame \<Rightarrow> AVColorSpace \<times> AVColorRange) \<Rightarrow> StreamInfo option \<Rightarrow> DecodedFrame \<Rightarrow> sws_cs \<times> bool" where
  "infer_sws_color_details color info src = (case info of
     Some i \<Rightarrow> (if si_color_space i = STREAM_COLORSPACE_REC_601 then SWS_CS_ITU601 else SWS_CS_ITU709,
                si_color_range i = STREAM_COLOR_RANGE_FULL)
   | None \<Rightarrow> (case df_av_frame src of
       Some avf \<Rightarrow> (case color avf of (cs, rng) \<Rightarrow>
         (if cs = AVCOL_SPC_BT470BG \<or> cs = AVCOL_SPC_SMPTE170M \<or> cs = AVCOL_SPC_FCC then SWS_CS_ITU601
          else SWS_CS_ITU709, rng = AVCOL_RANGE_JPEG))
     | None \<Rightarrow> (SWS_CS_ITU709, False)))"

section \<open>The two ways\<close>

definition decoder_fast_convert_to_bgr24 ::
  "conv_env \<Rightarrow> DecodedFrame \<Rightarrow> StreamInfo option \<Rightarrow> DecodedFrame \<Rightarrow> int \<times> DecodedFrame" where
  "decoder_fast_convert_to_bgr24 e src info dst =
     (if df_data src ! 0 = None \<or> df_width src \<le> 0 \<or> df_height src \<le> 0 then (- 1, dst)
      else if df_format src = DECODE_FMT_VUYX then
        decoder_fast_convert_vuyx_to_bgr24 (cv_avx2 e) (cv_malloc_fast e) src info dst
      else if \<not> cv_malloc_fast e then (- 1, bgr_frame src DECODE_FMT_BGR24 (df_width src * 3) None)
      else
        let planes = (if df_format src = DECODE_FMT_NV12 then 2
              else if df_format src = DECODE_FMT_YUV420P \<or> df_format src = DECODE_FMT_YUV444P then 3 else 0 :: nat);
            r = (if planes = 0 then (- 1, [])
              else cv_yuv e (df_format src) (bgr_yuv_constants_from_info info) (take planes (df_data src))
                     (take planes (df_linesize src)) (df_width src) (df_height src))
        in if fst r \<noteq> 0 then (- 1, bgr_frame src DECODE_FMT_BGR24 0 None)
           else (0, bgr_frame src DECODE_FMT_BGR24 (df_width src * 3) (Some (snd r))))"

definition sws_planes :: "DecodedFrame \<Rightarrow> nat" where
  "sws_planes src = (if df_format src = DECODE_FMT_YUV420P \<or> df_format src = DECODE_FMT_YUV444P then 3
     else if df_format src = DECODE_FMT_NV12 then 2 else 1)"

definition decoder_convert_with_sws ::
  "conv_env \<Rightarrow> sws_owner \<Rightarrow> DecodedFrame \<Rightarrow> StreamInfo option \<Rightarrow> DecodedFrame \<Rightarrow> DecodeFormat \<Rightarrow> sws_state \<Rightarrow>
   int \<times> DecodedFrame \<times> sws_state" where
  "decoder_convert_with_sws e owner src info dst target w =
     (let src_fmt = av_format_from_decode (df_format src); dst_fmt = av_format_from_decode target;
          bpp = int (decode_format_bytes_per_pixel target);
          cached = decoder_get_cached_sws_ctx owner w;
          release = (\<lambda>p v. if owner = OwnerNone then sws_freeContext p v else v)
      in if src_fmt = AV_PIX_FMT_NONE \<or> dst_fmt = AV_PIX_FMT_NONE \<or> bpp \<le> 0 then (- 1, dst, w)
         else (case sws_getCachedContext (cv_sws_context e) cached (df_width src, df_height src, src_fmt, dst_fmt) w of
             (None, w1) \<Rightarrow> (- 1, dst, w1)
           | (Some p, w1) \<Rightarrow>
               let w2 = decoder_store_cached_sws_ctx owner p w1 in
               (case infer_sws_color_details (cv_avf_color e) info src of (coeffs, src_range) \<Rightarrow>
                  if cv_sws_details e coeffs src_range < 0 then (- 1, dst, release p w2)
                  else if \<not> cv_malloc_sws e then
                    (- 1, bgr_frame src target (df_width src * bpp) None, release p w2)
                  else (case cv_scale e (take (sws_planes src) (df_data src)) (take (sws_planes src) (df_linesize src))
                               (df_height src) (df_width src * bpp) target coeffs src_range of
                      (scaled, bytes) \<Rightarrow>
                        if scaled \<le> 0 then (- 1, bgr_frame src target 0 None, release p w2)
                        else (0, bgr_frame src target (df_width src * bpp) (Some bytes), release p w2)))))"

section \<open>The conversion\<close>

record ConvertStats =
  cs_bgr24_request_count :: u64
  cs_libyuv_bgr24_count :: u64
  cs_vuyx_bgr24_count :: u64
  cs_swscale_count :: u64

datatype DecoderConvertPathKind =
  DECODER_CONVERT_PATH_LIBYUV_BGR24 | DECODER_CONVERT_PATH_VUYX_BGR24 | DECODER_CONVERT_PATH_SWSCALE

definition record_bgr24_request :: "ConvertStats \<Rightarrow> ConvertStats" where
  "record_bgr24_request s = s\<lparr>cs_bgr24_request_count := cs_bgr24_request_count s + 1\<rparr>"

definition record_convert_path_time :: "DecoderConvertPathKind \<Rightarrow> ConvertStats \<Rightarrow> ConvertStats" where
  "record_convert_path_time kind s = (case kind of
     DECODER_CONVERT_PATH_LIBYUV_BGR24 \<Rightarrow> s\<lparr>cs_libyuv_bgr24_count := cs_libyuv_bgr24_count s + 1\<rparr>
   | DECODER_CONVERT_PATH_VUYX_BGR24 \<Rightarrow> s\<lparr>cs_vuyx_bgr24_count := cs_vuyx_bgr24_count s + 1\<rparr>
   | DECODER_CONVERT_PATH_SWSCALE \<Rightarrow> s\<lparr>cs_swscale_count := cs_swscale_count s + 1\<rparr>)"

text \<open>What a conversion works on beside the frame: the owned objects, the contexts, the counters.\<close>

record conv_state =
  co_world :: av_world
  co_sws :: sws_state
  co_stats :: ConvertStats

text \<open>The frame that is converted: a downloaded copy of a frame in hardware memory.\<close>

definition conv_source ::
  "conv_env \<Rightarrow> DecodedFrame \<Rightarrow> conv_state \<Rightarrow> (DecodedFrame \<times> DecodedFrame option) option \<times> conv_state" where
  "conv_source e src g =
     (if df_storage src = DECODE_STORAGE_HW then
        (case decoder_materialize_frame (cv_download e) (cv_malloc_planes e) (Some src) (co_world g) of
           (rc, m, w) \<Rightarrow> (if rc \<noteq> 0 then None else map_option (\<lambda>f. (f, m)) m, g\<lparr>co_world := w\<rparr>))
      else (Some (src, None), g))"

definition decoder_convert_format_with_info ::
  "conv_env \<Rightarrow> sws_owner \<Rightarrow> DecodedFrame \<Rightarrow> StreamInfo option \<Rightarrow> DecodedFrame \<Rightarrow> DecodeFormat \<Rightarrow> conv_state \<Rightarrow>
   int \<times> DecodedFrame \<times> conv_state" where
  "decoder_convert_format_with_info e owner src info dst0 target g0 =
     (case conv_source e src g0 of (None, g1) \<Rightarrow> (- 1, dst0, g1) | (Some (conv_src, materialized), g1) \<Rightarrow>
        let free = (\<lambda>g. g\<lparr>co_world := decoder_free_frame materialized (co_world g)\<rparr>) in
        if target \<noteq> DECODE_FMT_BGRA \<and> target \<noteq> DECODE_FMT_BGR24 \<and> target \<noteq> DECODE_FMT_RGB24 then (- 1, dst0, free g1)
        else
          let g2 = (if target = DECODE_FMT_BGR24 then g1\<lparr>co_stats := record_bgr24_request (co_stats g1)\<rparr> else g1);
              fast = (if cv_libyuv e \<and> target = DECODE_FMT_BGR24
                      then decoder_fast_convert_to_bgr24 e conv_src info zero_frame else (- 1, zero_frame));
              kind = (if df_format conv_src = DECODE_FMT_VUYX then DECODER_CONVERT_PATH_VUYX_BGR24
                      else DECODER_CONVERT_PATH_LIBYUV_BGR24)
          in if fst fast = 0 then
               (0, snd fast, free (g2\<lparr>co_stats := record_convert_path_time kind (co_stats g2)\<rparr>))
             else (case decoder_convert_with_sws e owner conv_src info (snd fast) target (co_sws g2) of
                 (rc, dst, sw) \<Rightarrow>
                   let g3 = g2\<lparr>co_sws := sw\<rparr> in
                   if rc \<noteq> 0 then (- 1, dst, free g3)
                   else (0, dst, free (g3\<lparr>co_stats := record_convert_path_time DECODER_CONVERT_PATH_SWSCALE (co_stats g3)\<rparr>))))"

definition decoder_convert_format ::
  "conv_env \<Rightarrow> sws_owner \<Rightarrow> DecodedFrame \<Rightarrow> DecodedFrame \<Rightarrow> DecodeFormat \<Rightarrow> conv_state \<Rightarrow>
   int \<times> DecodedFrame \<times> conv_state" where
  "decoder_convert_format e owner src dst target g = decoder_convert_format_with_info e owner src None dst target g"

section \<open>What a conversion leaves behind\<close>

lemma bgr_frame_simps [simp]:
  "df_data (bgr_frame src fmt l p) ! 0 = p" "df_linesize (bgr_frame src fmt l p) ! 0 = l"
  "df_width (bgr_frame src fmt l p) = df_width src" "df_height (bgr_frame src fmt l p) = df_height src"
  "df_pts (bgr_frame src fmt l p) = df_pts src" "df_key_frame (bgr_frame src fmt l p) = df_key_frame src"
  "df_format (bgr_frame src fmt l p) = fmt" "df_av_frame (bgr_frame src fmt l p) = None"
  "df_stats (bgr_frame src fmt l p) = None"
  by (simp_all add: bgr_frame_def)

lemma zero_frame_simps [simp]:
  "df_data zero_frame ! 0 = None" "df_av_frame zero_frame = None" "df_stats zero_frame = None"
  by (simp_all add: zero_frame_def)

text \<open>A converted frame: one plane of full rows, without padding between them.\<close>

definition converted :: "DecodedFrame \<Rightarrow> DecodeFormat \<Rightarrow> DecodedFrame \<Rightarrow> bool" where
  "converted src target dst \<longleftrightarrow> (\<exists>plane. dst = bgr_frame src target
     (df_width src * int (decode_format_bytes_per_pixel target)) (Some plane))"

lemma fast_converted:
  assumes "decoder_fast_convert_to_bgr24 e src info zero_frame = (rc, dst)"
  shows "rc = 0 \<Longrightarrow> converted src DECODE_FMT_BGR24 dst" "rc \<noteq> 0 \<Longrightarrow> df_data dst ! 0 = None"
  using assms
  by (auto simp: decoder_fast_convert_to_bgr24_def decoder_fast_convert_vuyx_to_bgr24_def converted_def
      decode_format_bytes_per_pixel_def Let_def split: if_splits option.splits)

lemma sws_converted:
  assumes "decoder_convert_with_sws e owner src info dst0 target w = (rc, dst, w')" and "df_data dst0 ! 0 = None"
  shows "rc = 0 \<Longrightarrow> converted src target dst" "rc \<noteq> 0 \<Longrightarrow> df_data dst ! 0 = None"
  using assms
  by (auto simp: decoder_convert_with_sws_def converted_def Let_def split: if_splits option.splits prod.splits)

lemma conv_source_cpu [simp]: "df_storage src = DECODE_STORAGE_CPU \<Longrightarrow> conv_source e src g = (Some (src, None), g)"
  by (simp add: conv_source_def)

text \<open>The three outcomes of the dispatch, for a source \<open>s\<close> and its downloaded copy \<open>m\<close>.\<close>

lemma convert_cases:
  assumes "decoder_convert_format_with_info e owner src info dst0 target g0 = (rc, dst, g)"
  obtains (no_source) "rc = - 1" "dst = dst0" "conv_source e src g0 = (None, g)"
  | (source) s m g1 where "conv_source e src g0 = (Some (s, m), g1)"
      "co_world g = decoder_free_frame m (co_world g1)"
      "rc = 0 \<Longrightarrow> converted s target dst" "rc \<noteq> 0 \<Longrightarrow> dst = dst0 \<or> df_data dst ! 0 = None"
proof (cases "conv_source e src g0")
  case (Pair p g1)
  show ?thesis
  proof (cases p)
    case None
    then show ?thesis using assms Pair no_source by (simp add: decoder_convert_format_with_info_def)
  next
    case (Some sm)
    obtain s m where sm: "sm = (s, m)" by fastforce
    let ?fast = "if cv_libyuv e \<and> target = DECODE_FMT_BGR24
        then decoder_fast_convert_to_bgr24 e s info zero_frame else (- 1, zero_frame)"
    obtain frc fdst where f: "?fast = (frc, fdst)" by fastforce
    have fast: "frc = 0 \<Longrightarrow> converted s target fdst" "frc \<noteq> 0 \<Longrightarrow> df_data fdst ! 0 = None"
      using f fast_converted [of e s info frc fdst] by (auto split: if_splits)
    have w: "co_world g = decoder_free_frame m (co_world g1)"
      using assms Pair Some sm
      by (auto simp: decoder_convert_format_with_info_def Let_def f split: if_splits prod.splits)
    have r: "(rc = 0 \<longrightarrow> converted s target dst) \<and> (rc \<noteq> 0 \<longrightarrow> dst = dst0 \<or> df_data dst ! 0 = None)"
    proof (cases "target \<noteq> DECODE_FMT_BGRA \<and> target \<noteq> DECODE_FMT_BGR24 \<and> target \<noteq> DECODE_FMT_RGB24")
      case True
      then show ?thesis using assms Pair Some sm by (simp add: decoder_convert_format_with_info_def Let_def)
    next
      case False
      show ?thesis
      proof (cases "frc = 0")
        case True
        then show ?thesis using assms Pair Some sm False fast
          unfolding decoder_convert_format_with_info_def Let_def by (simp add: f)
      next
        case nofast: False
        let ?g2 = "if target = DECODE_FMT_BGR24 then g1\<lparr>co_stats := record_bgr24_request (co_stats g1)\<rparr> else g1"
        obtain src2 d2 sw2 where sws: "decoder_convert_with_sws e owner s info fdst target (co_sws ?g2) = (src2, d2, sw2)"
          by (metis prod_cases3)
        have "(rc = 0 \<longleftrightarrow> src2 = 0) \<and> dst = d2"
          using assms Pair Some sm False nofast sws
          by (auto simp: decoder_convert_format_with_info_def Let_def f split: if_splits)
        then show ?thesis using sws_converted [OF sws fast(2) [OF nofast]] by auto
      qed
    qed
    show ?thesis using source [of s m g1] Pair Some sm w r by simp
  qed
qed

lemma convert_moved:
  assumes "decoder_convert_format_with_info e owner src info dst0 target g = (rc, dst, g')"
    and "frame_of a (Some src)" and "refs_room (co_world g) a"
  shows "moved a 0 0 0 (co_world g) (co_world g')"
  using assms(1)
proof (cases rule: convert_cases)
  case no_source
  show ?thesis
  proof (cases "df_storage src")
    case DECODE_STORAGE_HW
    obtain c m w where m: "decoder_materialize_frame (cv_download e) (cv_malloc_planes e) (Some src) (co_world g) = (c, m, w)"
      by (metis prod_cases3)
    then have "m = None" "co_world g' = w"
      using no_source(3) DECODE_STORAGE_HW decoder_materialize_frame_moved(3) [OF m assms(2,3)]
      by (auto simp: conv_source_def split: if_splits)
    then show ?thesis using decoder_materialize_frame_moved(2) [OF m assms(2,3)] by (simp add: frame_amounts)
  qed (use no_source in simp)
next
  case (source s m g1)
  show ?thesis
  proof (cases "df_storage src")
    case DECODE_STORAGE_HW
    obtain c where m: "decoder_materialize_frame (cv_download e) (cv_malloc_planes e) (Some src) (co_world g) = (c, m, co_world g1)"
      using source(1) DECODE_STORAGE_HW
      by (auto simp: conv_source_def split: if_splits prod.splits)
    note d = decoder_materialize_frame_moved [OF m assms(2,3)]
    have "frame_refs m \<le> int (stats_refs (co_world g1) a)" using moved_refs [OF d(2)] by simp
    from moved_trans [OF d(2) free_frame_moved [OF d(1) this]] show ?thesis using source(2) by simp
  qed (use source in \<open>auto simp: decoder_free_frame_def\<close>)
qed

section \<open>The context that is freed but kept\<close>

text \<open>C31: a failed change of geometry leaves a dangling context: when swscale frees the cached
  context to make one for another frame size and cannot make it, the address of the freed one
  stays in the cache, and the next conversion hands it to swscale again.\<close>

theorem sws_failure_dangles:
  assumes "owner \<noteq> OwnerNone" and "sw_cached w = Some p" and "\<not> cv_sws_context e"
    and "av_format_from_decode (df_format src) \<noteq> AV_PIX_FMT_NONE" and "decode_format_bytes_per_pixel target \<noteq> 0"
    and "sw_live w p \<noteq> Some (df_width src, df_height src, av_format_from_decode (df_format src), av_format_from_decode target)"
  shows "\<exists>w'. decoder_convert_with_sws e owner src info dst target w = (- 1, dst, w') \<and>
    decoder_get_cached_sws_ctx owner w' = Some p \<and> sw_live w' p = None"
  using assms
  by (auto simp: decoder_convert_with_sws_def decoder_get_cached_sws_ctx_def sws_getCachedContext_def
      sws_freeContext_def Let_def av_format_from_decode_def decode_format_bytes_per_pixel_def
      split: DecodeFormat.splits)

definition ex_sws :: sws_state where
  "ex_sws = \<lparr>sw_live = [5 \<mapsto> (1280, 720, AV_PIX_FMT_NV12, AV_PIX_FMT_BGR24)], sw_next = 6, sw_cached = Some 5\<rparr>"

theorem sws_failure_dangles_witness:
  "\<exists>e w'. decoder_convert_with_sws e OwnerThread (zero_frame\<lparr>df_format := DECODE_FMT_NV12, df_width := 640, df_height := 360\<rparr>)
     None zero_frame DECODE_FMT_BGR24 ex_sws = (- 1, zero_frame, w') \<and> sw_cached w' = Some 5 \<and> sw_live w' 5 = None"
proof -
  obtain e :: conv_env where e: "\<not> cv_sws_context e"
    using that [of "undefined\<lparr>cv_sws_context := False\<rparr>"] by simp
  let ?src = "zero_frame\<lparr>df_format := DECODE_FMT_NV12, df_width := 640, df_height := 360\<rparr>"
  have "\<exists>w'. decoder_convert_with_sws e OwnerThread ?src None zero_frame DECODE_FMT_BGR24 ex_sws = (- 1, zero_frame, w') \<and>
    decoder_get_cached_sws_ctx OwnerThread w' = Some 5 \<and> sw_live w' 5 = None"
    by (rule sws_failure_dangles [OF _ _ e])
      (simp_all add: ex_sws_def av_format_from_decode_def decode_format_bytes_per_pixel_def)
  then show ?thesis by (auto simp: decoder_get_cached_sws_ctx_def)
qed

end
