(* ===== verification/Bridge.thy ===== *)
theory Bridge
  imports BridgeText Convert Stream
begin

text \<open>
  The ZeroMQ bridge of \<open>stream_server\<close> (\<open>stream_server/src/zmq_bridge.c\<close>): BGR frames with
  their reference counts and cache, the region of interest, the request loop of its thread,
  start and shutdown. ZeroMQ is an argument: what its receives answer, whether the last part
  of a reply could be sent; the parts sent are the result.
\<close>

section \<open>BGR frames\<close>

record ZmqBgrFrame =
  zf_stream_id :: u16
  zf_width :: int
  zf_height :: int
  zf_stride :: int
  zf_source_width :: int
  zf_source_height :: int
  zf_roi_x :: int
  zf_roi_y :: int
  zf_pts :: int
  zf_key_frame :: bool
  zf_mono_ns :: u64
  zf_color_space :: u32
  zf_color_range :: u32
  zf_source_format :: DecodeFormat
  zf_bgr :: "u8 list"
  zf_bgr_sz :: int

text \<open>
  The bridge: the cache with an entry for each stream, the heap of frames with their
  reference counts, the frames ZeroMQ holds until it has sent them, and the state of the
  converter.
\<close>

record bridge =
  zb_cache :: "nat \<Rightarrow> nat option"
  zb_cache_count :: nat
  zb_heap :: "nat \<Rightarrow> (u32 \<times> ZmqBgrFrame) option"
  zb_next :: nat
  zb_sent :: "nat list"
  zb_conv :: conv_state

definition free_bgr_frame :: "nat \<Rightarrow> bridge \<Rightarrow> bridge" where
  "free_bgr_frame a b = (case zb_heap b a of None \<Rightarrow> b | Some (n, f) \<Rightarrow>
     if n \<noteq> 1 then b\<lparr>zb_heap := (zb_heap b)(a \<mapsto> (n - 1, f))\<rparr>
     else b\<lparr>zb_heap := (zb_heap b)(a := None)\<rparr>)"

definition retain_bgr_frame :: "nat \<Rightarrow> bridge \<Rightarrow> bridge" where
  "retain_bgr_frame a b = (case zb_heap b a of None \<Rightarrow> b | Some (n, f) \<Rightarrow>
     b\<lparr>zb_heap := (zb_heap b)(a \<mapsto> (n + 1, f))\<rparr>)"

text \<open>A frame just allocated, with one reference.\<close>

definition new_bgr_frame :: "ZmqBgrFrame \<Rightarrow> bridge \<Rightarrow> nat \<times> bridge" where
  "new_bgr_frame f b = (zb_next b, b\<lparr>zb_heap := (zb_heap b)(zb_next b \<mapsto> (1, f)), zb_next := zb_next b + 1\<rparr>)"

definition cached_bgr_frame_matches :: "ZmqBgrFrame \<Rightarrow> u16 \<Rightarrow> DecodedFrame \<Rightarrow> StreamInfo \<Rightarrow> bool" where
  "cached_bgr_frame_matches frame stream_id snapshot info \<longleftrightarrow>
     zf_stream_id frame = stream_id \<and> zf_width frame = df_width snapshot \<and>
     zf_height frame = df_height snapshot \<and> zf_pts frame = df_pts snapshot \<and>
     zf_key_frame frame = df_key_frame snapshot \<and> zf_color_space frame = si_color_space info \<and>
     zf_color_range frame = si_color_range info \<and> zf_source_format frame = df_format snapshot"

fun clear_entries :: "nat list \<Rightarrow> bridge \<Rightarrow> bridge" where
  "clear_entries [] b = b"
| "clear_entries (i # js) b = clear_entries js (case zb_cache b i of None \<Rightarrow> b
     | Some a \<Rightarrow> (free_bgr_frame a b)\<lparr>zb_cache := (zb_cache b)(i := None)\<rparr>)"

definition clear_cached_bgr_frames :: "bridge \<Rightarrow> bridge" where
  "clear_cached_bgr_frames b = (clear_entries [0..<zb_cache_count b] b)\<lparr>zb_cache := (\<lambda>_. None), zb_cache_count := 0\<rparr>"

section \<open>From the last frame to BGR\<close>

record attempt_env =
  ab_ref_calloc :: bool
  ab_ref_clone :: bool
  ab_ref_malloc :: "nat \<Rightarrow> bool"
  ab_owner :: sws_owner
  ab_conv :: conv_env
  ab_calloc :: bool
  ab_now :: u64

definition set_world :: "av_world \<Rightarrow> bridge \<Rightarrow> bridge" where
  "set_world w b = b\<lparr>zb_conv := (zb_conv b)\<lparr>co_world := w\<rparr>\<rparr>"

abbreviation bridge_world :: "bridge \<Rightarrow> av_world" where
  "bridge_world b \<equiv> co_world (zb_conv b)"

definition bgr_of_converted :: "attempt_env \<Rightarrow> u16 \<Rightarrow> StreamInfo \<Rightarrow> DecodeFormat \<Rightarrow> DecodedFrame \<Rightarrow> u8 list \<Rightarrow> ZmqBgrFrame" where
  "bgr_of_converted e stream_id info source_format c bytes =
     \<lparr>zf_stream_id = stream_id, zf_width = df_width c, zf_height = df_height c, zf_stride = df_linesize c ! 0,
      zf_source_width = df_width c, zf_source_height = df_height c, zf_roi_x = 0, zf_roi_y = 0,
      zf_pts = df_pts c, zf_key_frame = df_key_frame c, zf_mono_ns = ab_now e,
      zf_color_space = si_color_space info, zf_color_range = si_color_range info,
      zf_source_format = source_format, zf_bgr = bytes, zf_bgr_sz = df_linesize c ! 0 * df_height c\<rparr>"

definition cache_hit :: "u16 \<Rightarrow> DecodedFrame \<Rightarrow> StreamInfo \<Rightarrow> bridge \<Rightarrow> nat option" where
  "cache_hit stream_id snapshot info b =
     (if unat stream_id < zb_cache_count b then
        (case zb_cache b (unat stream_id) of None \<Rightarrow> None | Some a \<Rightarrow>
          (case zb_heap b a of None \<Rightarrow> None | Some (n, f) \<Rightarrow>
            if cached_bgr_frame_matches f stream_id snapshot info then Some a else None))
      else None)"

text \<open>The new frame takes the place of the cached one, with a reference of its own.\<close>

definition store_in_cache :: "u16 \<Rightarrow> nat \<Rightarrow> bridge \<Rightarrow> bridge" where
  "store_in_cache stream_id a b =
     (if unat stream_id < zb_cache_count b then
        (let old = zb_cache b (unat stream_id);
             b1 = retain_bgr_frame a (b\<lparr>zb_cache := (zb_cache b)(unat stream_id \<mapsto> a)\<rparr>)
         in case old of None \<Rightarrow> b1 | Some o' \<Rightarrow> free_bgr_frame o' b1)
      else b)"

definition convert_last_frame_to_bgr :: "attempt_env \<Rightarrow> StreamContext \<Rightarrow> bridge \<Rightarrow> int \<times> nat option \<times> bridge" where
  "convert_last_frame_to_bgr e s b =
     (case st_last_frame s of None \<Rightarrow> (- 1, None, b) | Some lf \<Rightarrow>
      if df_width lf \<le> 0 \<or> df_height lf \<le> 0 then (- 1, None, b)
      else case decoder_ref_frame (ab_ref_calloc e) (ab_ref_clone e) (ab_ref_malloc e) (Some lf) (bridge_world b) of
        (None, w) \<Rightarrow> (- 1, None, set_world w b)
      | (Some snapshot, w) \<Rightarrow>
          let b1 = set_world w b;
              free_snapshot = (\<lambda>v. set_world (decoder_free_frame (Some snapshot) (bridge_world v)) v)
          in case cache_hit (st_stream_id s) snapshot (st_info s) b1 of
              Some a \<Rightarrow> (0, Some a, free_snapshot (retain_bgr_frame a b1))
            | None \<Rightarrow>
                (case decoder_convert_format_with_info (ab_conv e) (ab_owner e) snapshot (Some (st_info s))
                        zero_frame DECODE_FMT_BGR24 (zb_conv b1) of
                   (rc, conv, g) \<Rightarrow>
                     let b2 = free_snapshot (b1\<lparr>zb_conv := g\<rparr>) in
                     if rc \<noteq> 0 then (- 1, None, b2)
                     else if \<not> ab_calloc e then (- 1, None, b2)
                     else (case df_data conv ! 0 of None \<Rightarrow> (- 1, None, b2) | Some bytes \<Rightarrow>
                       (case new_bgr_frame (bgr_of_converted e (st_stream_id s) (st_info s) (df_format snapshot) conv bytes) b2 of
                          (a, b3) \<Rightarrow> (0, Some a, store_in_cache (st_stream_id s) a b3)))))"

section \<open>The region of interest\<close>

record ZmqResolvedRoi =
  rr_x :: int
  rr_y :: int
  rr_w :: int
  rr_h :: int
  rr_source_width :: int
  rr_source_height :: int
  rr_applied :: bool

definition resolve_bgr_roi :: "ZmqBgrFrame \<Rightarrow> ZmqRoiRequest \<Rightarrow> ZmqResolvedRoi option" where
  "resolve_bgr_roi frame req =
     (if zf_width frame \<le> 0 \<or> zf_height frame \<le> 0 \<or> zf_stride frame < zf_width frame * 3 then None
      else if \<not> rq_requested req then
        Some \<lparr>rr_x = 0, rr_y = 0, rr_w = zf_width frame, rr_h = zf_height frame,
              rr_source_width = zf_width frame, rr_source_height = zf_height frame, rr_applied = False\<rparr>
      else if rq_w req \<le> 0 \<or> rq_h req \<le> 0 then None
      else
        let x = (if rq_x req < 0 then 0 else rq_x req); y = (if rq_y req < 0 then 0 else rq_y req);
            right0 = rq_x req + rq_w req; bottom0 = rq_y req + rq_h req;
            right = (if right0 > zf_width frame then zf_width frame else right0);
            bottom = (if bottom0 > zf_height frame then zf_height frame else bottom0)
        in if right \<le> x \<or> bottom \<le> y then None
           else Some \<lparr>rr_x = x, rr_y = y, rr_w = right - x, rr_h = bottom - y,
             rr_source_width = zf_width frame, rr_source_height = zf_height frame,
             rr_applied = (\<not> (x = 0 \<and> y = 0 \<and> right - x = zf_width frame \<and> bottom - y = zf_height frame))\<rparr>)"

text \<open>The rows of the region, one behind the other.\<close>

definition crop_rows :: "ZmqBgrFrame \<Rightarrow> ZmqResolvedRoi \<Rightarrow> u8 list" where
  "crop_rows src roi = concat (map (\<lambda>row. take (nat (rr_w roi * 3))
     (drop (nat (rr_y roi + int row) * nat (zf_stride src) + nat (rr_x roi) * 3) (zf_bgr src))) [0..<nat (rr_h roi)])"

definition crop_bgr_frame :: "bool \<Rightarrow> bool \<Rightarrow> ZmqBgrFrame \<Rightarrow> ZmqResolvedRoi \<Rightarrow> ZmqBgrFrame option" where
  "crop_bgr_frame malloc_ok calloc_ok src roi =
     (if rr_w roi \<le> 0 \<or> rr_h roi \<le> 0 \<or> zf_stride src < zf_width src * 3 then None
      else if \<not> malloc_ok \<or> \<not> calloc_ok then None
      else Some (src\<lparr>zf_width := rr_w roi, zf_height := rr_h roi, zf_stride := rr_w roi * 3,
        zf_source_width := rr_source_width roi, zf_source_height := rr_source_height roi,
        zf_roi_x := rr_x roi, zf_roi_y := rr_y roi, zf_bgr := crop_rows src roi,
        zf_bgr_sz := rr_w roi * 3 * rr_h roi\<rparr>))"

section \<open>The region is exact\<close>

text \<open>A frame as the converter makes it, and a pixel of it.\<close>

definition bgr_ok :: "ZmqBgrFrame \<Rightarrow> bool" where
  "bgr_ok f \<longleftrightarrow> 0 < zf_width f \<and> 0 < zf_height f \<and> zf_width f * 3 \<le> zf_stride f \<and>
     nat (zf_height f) * nat (zf_stride f) \<le> length (zf_bgr f)"

definition bgr_at :: "ZmqBgrFrame \<Rightarrow> int \<Rightarrow> int \<Rightarrow> nat \<Rightarrow> u8" where
  "bgr_at f px py c = zf_bgr f ! (nat py * nat (zf_stride f) + (nat px * 3 + c))"

text \<open>The pixels of the frame a client asked for.\<close>

definition wanted :: "ZmqBgrFrame \<Rightarrow> ZmqRoiRequest \<Rightarrow> int \<Rightarrow> int \<Rightarrow> bool" where
  "wanted f req px py \<longleftrightarrow> 0 \<le> px \<and> px < zf_width f \<and> 0 \<le> py \<and> py < zf_height f \<and>
     (rq_requested req \<longrightarrow> rq_x req \<le> px \<and> px < rq_x req + rq_w req \<and> rq_y req \<le> py \<and> py < rq_y req + rq_h req)"

lemma resolve_requested:
  assumes "bgr_ok f" and "rq_requested req"
  shows "resolve_bgr_roi f req =
    (let l = max 0 (rq_x req); t = max 0 (rq_y req);
         r = min (zf_width f) (rq_x req + rq_w req); u = min (zf_height f) (rq_y req + rq_h req)
     in if rq_w req \<le> 0 \<or> rq_h req \<le> 0 \<or> r \<le> l \<or> u \<le> t then None
        else Some \<lparr>rr_x = l, rr_y = t, rr_w = r - l, rr_h = u - t, rr_source_width = zf_width f,
          rr_source_height = zf_height f,
          rr_applied = (\<not> (l = 0 \<and> t = 0 \<and> r - l = zf_width f \<and> u - t = zf_height f))\<rparr>)"
proof -
  have l: "(if rq_x req < 0 then 0 else rq_x req) = max 0 (rq_x req)" "(if rq_y req < 0 then 0 else rq_y req) = max 0 (rq_y req)"
    by auto
  have r: "(if rq_x req + rq_w req > zf_width f then zf_width f else rq_x req + rq_w req) = min (zf_width f) (rq_x req + rq_w req)"
    "(if rq_y req + rq_h req > zf_height f then zf_height f else rq_y req + rq_h req) = min (zf_height f) (rq_y req + rq_h req)"
    by auto
  have ok: "\<not> (zf_width f \<le> 0 \<or> zf_height f \<le> 0 \<or> zf_stride f < zf_width f * 3)" using assms(1) by (auto simp: bgr_ok_def)
  show ?thesis
    unfolding resolve_bgr_roi_def Let_def l r using ok assms(2) by (simp only: if_False if_True not_True_eq_False) simp
qed

lemma resolve_some:
  assumes "resolve_bgr_roi f req = Some roi" and "bgr_ok f"
  shows "0 \<le> rr_x roi" "0 < rr_w roi" "rr_x roi + rr_w roi \<le> zf_width f" "0 \<le> rr_y roi" "0 < rr_h roi"
    "rr_y roi + rr_h roi \<le> zf_height f"
    "wanted f req px py \<longleftrightarrow> rr_x roi \<le> px \<and> px < rr_x roi + rr_w roi \<and> rr_y roi \<le> py \<and> py < rr_y roi + rr_h roi"
proof -
  have "0 \<le> rr_x roi \<and> 0 < rr_w roi \<and> rr_x roi + rr_w roi \<le> zf_width f \<and> 0 \<le> rr_y roi \<and> 0 < rr_h roi \<and>
    rr_y roi + rr_h roi \<le> zf_height f \<and>
    (wanted f req px py \<longleftrightarrow> rr_x roi \<le> px \<and> px < rr_x roi + rr_w roi \<and> rr_y roi \<le> py \<and> py < rr_y roi + rr_h roi)"
  proof (cases "rq_requested req")
    case False
    then have "roi = \<lparr>rr_x = 0, rr_y = 0, rr_w = zf_width f, rr_h = zf_height f,
        rr_source_width = zf_width f, rr_source_height = zf_height f, rr_applied = False\<rparr>"
      using assms(1) by (simp add: resolve_bgr_roi_def split: if_splits)
    then show ?thesis using assms(2) False by (auto simp: bgr_ok_def wanted_def)
  next
    case True
    obtain l t r u where at: "l = max 0 (rq_x req)" "t = max 0 (rq_y req)"
        "r = min (zf_width f) (rq_x req + rq_w req)" "u = min (zf_height f) (rq_y req + rq_h req)"
      by simp
    have "l < r" "t < u" "rr_x roi = l" "rr_y roi = t" "rr_w roi = r - l" "rr_h roi = u - t"
      using assms(1) unfolding resolve_requested [OF assms(2) True] Let_def at [symmetric] by (auto split: if_splits)
    moreover have "wanted f req px py \<longleftrightarrow> l \<le> px \<and> px < r \<and> t \<le> py \<and> py < u"
      using True unfolding at wanted_def by auto
    ultimately show ?thesis using at by auto
  qed
  then show "0 \<le> rr_x roi" "0 < rr_w roi" "rr_x roi + rr_w roi \<le> zf_width f" "0 \<le> rr_y roi" "0 < rr_h roi"
    "rr_y roi + rr_h roi \<le> zf_height f"
    "wanted f req px py \<longleftrightarrow> rr_x roi \<le> px \<and> px < rr_x roi + rr_w roi \<and> rr_y roi \<le> py \<and> py < rr_y roi + rr_h roi"
    by blast+
qed

lemma resolve_none:
  assumes "resolve_bgr_roi f req = None" and "bgr_ok f"
  shows "\<not> wanted f req px py"
proof (cases "rq_requested req")
  case False
  then show ?thesis using assms by (auto simp: resolve_bgr_roi_def bgr_ok_def)
next
  case True
  then show ?thesis using assms(1) unfolding resolve_requested [OF assms(2) True] Let_def
    by (auto simp: wanted_def split: if_splits)
qed

lemma crop_rows_nth:
  assumes "bgr_ok f" and "0 \<le> rr_x roi" and "0 < rr_w roi" and "rr_x roi + rr_w roi \<le> zf_width f"
    and "0 \<le> rr_y roi" and "rr_y roi + rr_h roi \<le> zf_height f"
  shows "length (crop_rows f roi) = nat (rr_h roi) * nat (rr_w roi * 3)"
    and "r < nat (rr_h roi) \<Longrightarrow> k < nat (rr_w roi * 3) \<Longrightarrow>
      crop_rows f roi ! (r * nat (rr_w roi * 3) + k) =
      zf_bgr f ! (nat (rr_y roi + int r) * nat (zf_stride f) + nat (rr_x roi) * 3 + k)"
proof -
  let ?at = "\<lambda>r. nat (rr_y roi + int r) * nat (zf_stride f) + nat (rr_x roi) * 3"
  let ?row = "\<lambda>r. take (nat (rr_w roi * 3)) (drop (?at r) (zf_bgr f))"
  have fits: "?at r + nat (rr_w roi * 3) \<le> length (zf_bgr f)" if "r < nat (rr_h roi)" for r
  proof -
    have "nat (rr_x roi) * 3 + nat (rr_w roi * 3) \<le> nat (zf_stride f)"
    proof -
      have "rr_x roi * 3 + rr_w roi * 3 \<le> zf_stride f"
        using assms(1,4) unfolding bgr_ok_def by linarith
      then have "nat (rr_x roi * 3 + rr_w roi * 3) \<le> nat (zf_stride f)" by (rule nat_mono)
      then show ?thesis using assms(2,3) by (simp add: nat_add_distrib nat_mult_distrib)
    qed
    moreover have "Suc (nat (rr_y roi + int r)) * nat (zf_stride f) \<le> nat (zf_height f) * nat (zf_stride f)"
      using that assms(5,6) by (intro mult_le_mono1) simp
    ultimately show ?thesis using assms(1) by (simp add: bgr_ok_def)
  qed
  have len: "length (?row r) = nat (rr_w roi * 3)" if "r < nat (rr_h roi)" for r
    using fits [OF that] by simp
  show "length (crop_rows f roi) = nat (rr_h roi) * nat (rr_w roi * 3)"
    unfolding crop_rows_def using length_concat_const [of "[0..<nat (rr_h roi)]" ?row "nat (rr_w roi * 3)"] len by simp
  assume r: "r < nat (rr_h roi)" and k: "k < nat (rr_w roi * 3)"
  have "crop_rows f roi ! (r * nat (rr_w roi * 3) + k) = ?row r ! k"
    unfolding crop_rows_def by (rule nth_concat_const) (use len r k in auto)
  also have "\<dots> = zf_bgr f ! (?at r + k)" using fits [OF r] k by simp
  finally show "crop_rows f roi ! (r * nat (rr_w roi * 3) + k) = zf_bgr f ! (?at r + k)" .
qed

lemma region_cropped:
  assumes "resolve_bgr_roi f req = Some roi" and "bgr_ok f"
  obtains g where "crop_bgr_frame True True f roi = Some g" "bgr_ok g" "zf_roi_x g = rr_x roi" "zf_roi_y g = rr_y roi"
    "zf_width g = rr_w roi" "zf_height g = rr_h roi"
    "\<forall>px py c. wanted f req px py \<and> c < 3 \<longrightarrow> bgr_at g (px - rr_x roi) (py - rr_y roi) c = bgr_at f px py c"
proof -
  note r = resolve_some [OF assms]
  let ?g = "f\<lparr>zf_width := rr_w roi, zf_height := rr_h roi, zf_stride := rr_w roi * 3,
        zf_source_width := rr_source_width roi, zf_source_height := rr_source_height roi,
        zf_roi_x := rr_x roi, zf_roi_y := rr_y roi, zf_bgr := crop_rows f roi,
        zf_bgr_sz := rr_w roi * 3 * rr_h roi\<rparr>"
  note rows = crop_rows_nth [OF assms(2) r(1-4,6)]
  have g: "crop_bgr_frame True True f roi = Some ?g"
    using r assms by (simp add: crop_bgr_frame_def bgr_ok_def)
  have ok: "bgr_ok ?g" using r rows(1) by (simp add: bgr_ok_def)
  have px: "bgr_at ?g (px - rr_x roi) (py - rr_y roi) c = bgr_at f px py c"
    if w: "wanted f req px py" and c: "c < 3" for px py c
  proof -
    have in_roi: "rr_x roi \<le> px" "px < rr_x roi + rr_w roi" "rr_y roi \<le> py" "py < rr_y roi + rr_h roi"
      using r(7) [of px py] w by auto
    then have k: "nat (px - rr_x roi) * 3 + c < nat (rr_w roi * 3)" "nat (py - rr_y roi) < nat (rr_h roi)"
      using c by linarith+
    have at: "nat (rr_y roi + int (nat (py - rr_y roi))) * nat (zf_stride f) + nat (rr_x roi) * 3 + (nat (px - rr_x roi) * 3 + c) =
        nat py * nat (zf_stride f) + (nat px * 3 + c)"
      using in_roi r(1) by (simp add: nat_diff_distrib)
    have "bgr_at ?g (px - rr_x roi) (py - rr_y roi) c = crop_rows f roi ! (nat (py - rr_y roi) * nat (rr_w roi * 3) + (nat (px - rr_x roi) * 3 + c))"
      by (simp add: bgr_at_def)
    also have "\<dots> = bgr_at f px py c" using rows(2) [OF k(2,1)] by (simp only: at bgr_at_def)
    finally show ?thesis .
  qed
  show thesis by (rule that [OF g ok]) (simp_all add: px)
qed

text \<open>a client gets exactly the region it asked for: the request is refused only when no pixel
  of the frame lies in the region; otherwise the reply's picture covers exactly the wanted
  pixels, negative offsets and overhanging edges included, each with the bytes it has in the
  source frame, and reading them stays inside the source buffer.\<close>

theorem region_exact:
  assumes "bgr_ok f"
  shows "case resolve_bgr_roi f req of
      None \<Rightarrow> \<forall>px py. \<not> wanted f req px py
    | Some roi \<Rightarrow> \<exists>g. crop_bgr_frame True True f roi = Some g \<and> bgr_ok g \<and>
        (\<forall>px py. wanted f req px py = (0 \<le> px - zf_roi_x g \<and> px - zf_roi_x g < zf_width g \<and>
           0 \<le> py - zf_roi_y g \<and> py - zf_roi_y g < zf_height g)) \<and>
        (\<forall>px py c. wanted f req px py \<and> c < 3 \<longrightarrow>
           bgr_at g (px - zf_roi_x g) (py - zf_roi_y g) c = bgr_at f px py c)"
proof (cases "resolve_bgr_roi f req")
  case None
  then show ?thesis using resolve_none [OF None assms] by simp
next
  case (Some roi)
  obtain g where g: "crop_bgr_frame True True f roi = Some g" "bgr_ok g" "zf_roi_x g = rr_x roi" "zf_roi_y g = rr_y roi"
    "zf_width g = rr_w roi" "zf_height g = rr_h roi"
    "\<forall>px py c. wanted f req px py \<and> c < 3 \<longrightarrow> bgr_at g (px - rr_x roi) (py - rr_y roi) c = bgr_at f px py c"
    by (rule region_cropped [OF Some assms])
  show ?thesis using g resolve_some(7) [OF Some assms] Some by (auto intro!: exI [of _ g])
qed

definition two_by_two :: ZmqBgrFrame where
  "two_by_two = \<lparr>zf_stream_id = 1, zf_width = 2, zf_height = 2, zf_stride = 8, zf_source_width = 2, zf_source_height = 2,
     zf_roi_x = 0, zf_roi_y = 0, zf_pts = 7, zf_key_frame = True, zf_mono_ns = 0, zf_color_space = 0, zf_color_range = 0,
     zf_source_format = DECODE_FMT_VUYX, zf_bgr = map word_of_nat [0..<16], zf_bgr_sz = 16\<rparr>"

lemma region_exact_witness:
  "bgr_ok two_by_two \<and>
   (case resolve_bgr_roi two_by_two \<lparr>rq_requested = True, rq_x = 1, rq_y = - 1, rq_w = 9, rq_h = 2\<rparr> of None \<Rightarrow> False
    | Some roi \<Rightarrow> \<exists>g. crop_bgr_frame True True two_by_two roi = Some g \<and> bgr_ok g)"
proof -
  have ok: "bgr_ok two_by_two" by (simp add: two_by_two_def bgr_ok_def)
  show ?thesis using ok region_exact [OF ok, of "\<lparr>rq_requested = True, rq_x = 1, rq_y = - 1, rq_w = 9, rq_h = 2\<rparr>"]
    by (auto simp: resolve_bgr_roi_def two_by_two_def)
qed

end
