(* ===== verification/BridgeLoop.thy ===== *)
theory BridgeLoop
  imports Bridge
begin

text \<open>
  The thread of the ZeroMQ bridge (\<open>zmq_bridge_thread\<close> in \<open>stream_server/src/zmq_bridge.c\<close>):
  receiving a request, answering it, the loop, and start and shutdown of the bridge.
\<close>

section \<open>Receiving\<close>

text \<open>One answer of a receive: a part with the mark whether more of its message follow, or an error.\<close>

datatype zmq_event = Recv string bool | RecvError

text \<open>None while the receive blocks.\<close>

fun recv_frame :: "zmq_event list \<Rightarrow> ((string \<times> bool) option \<times> zmq_event list) option" where
  "recv_frame [] = None"
| "recv_frame (Recv p cont # es) = Some (Some (p, cont), es)"
| "recv_frame (RecvError # es) = Some (None, es)"

datatype request = Blocked | Skip "zmq_event list" | Request string bool string string "zmq_event list"

text \<open>The parts behind the command: the JSON text, or an empty object when there is none.\<close>

definition read_json :: "string \<Rightarrow> bool \<Rightarrow> string \<Rightarrow> bool \<Rightarrow> zmq_event list \<Rightarrow> request" where
  "read_json f0 delim cmd cont es =
     (if cont then (case recv_frame es of None \<Rightarrow> Blocked | Some (None, es1) \<Rightarrow> Skip es1
        | Some (Some (json, _), es1) \<Rightarrow> Request f0 delim cmd json es1)
      else Request f0 delim cmd ''{}'' es)"

definition read_request :: "zmq_event list \<Rightarrow> request" where
  "read_request es = (case recv_frame es of None \<Rightarrow> Blocked | Some (None, es1) \<Rightarrow> Skip es1
   | Some (Some (f0, more0), es1) \<Rightarrow>
       if \<not> more0 then Skip es1
       else (case recv_frame es1 of None \<Rightarrow> Blocked | Some (None, es2) \<Rightarrow> Skip es2
         | Some (Some (f1, more1), es2) \<Rightarrow>
             if f1 = [] then
               (case recv_frame es2 of None \<Rightarrow> Blocked | Some (None, es3) \<Rightarrow> Skip es3
                | Some (Some (cmd, cont), es3) \<Rightarrow> read_json f0 True cmd cont es3)
             else read_json f0 False f1 more1 es2))"

section \<open>Answering\<close>

datatype zpart = Text string | Image nat

type_synonym zout = "zpart \<times> bool"

datatype send_answer = Sent | SendFails | InitFails

text \<open>The frame is ZeroMQ's from the initialisation of the message on, which frees it when sending fails.\<close>

definition send_bgr_frame_owned :: "send_answer \<Rightarrow> nat \<Rightarrow> bridge \<Rightarrow> zout list \<times> bridge" where
  "send_bgr_frame_owned answer a b = (case answer of
     Sent \<Rightarrow> ([(Image a, False)], b\<lparr>zb_sent := a # zb_sent b\<rparr>)
   | SendFails \<Rightarrow> ([], free_bgr_frame a b)
   | InitFails \<Rightarrow> ([], free_bgr_frame a b))"

definition send_error :: "string \<Rightarrow> zout list" where
  "send_error what = [(Text ''ERR'', True), (Text what, False)]"

definition color_space_name :: "u32 \<Rightarrow> string" where
  "color_space_name c = (if c = STREAM_COLORSPACE_REC_601 then ''bt601''
     else if c = STREAM_COLORSPACE_REC_709 then ''bt709'' else ''unknown'')"

definition color_range_name :: "u32 \<Rightarrow> string" where
  "color_range_name c = (if c = STREAM_COLOR_RANGE_LIMITED then ''limited''
     else if c = STREAM_COLOR_RANGE_FULL then ''full'' else ''unknown'')"

definition json_field :: "string \<Rightarrow> string \<Rightarrow> string" where
  "json_field name v = key_of name @ '':'' @ v"

definition join_comma :: "string list \<Rightarrow> string" where
  "join_comma fs = concat (map (\<lambda>f. f @ '','') (butlast fs)) @ last fs"

definition meta_text :: "ZmqBgrFrame \<Rightarrow> bool \<Rightarrow> string" where
  "meta_text f applied = snprintf_s 512 (''{'' @ join_comma
     [json_field ''stream_id'' (show_nat (unat (zf_stream_id f))),
      json_field ''width'' (show_int (zf_width f)), json_field ''height'' (show_int (zf_height f)),
      json_field ''stride'' (show_int (zf_stride f)),
      json_field ''source_width'' (show_int (zf_source_width f)),
      json_field ''source_height'' (show_int (zf_source_height f)),
      json_field ''roi_x'' (show_int (zf_roi_x f)), json_field ''roi_y'' (show_int (zf_roi_y f)),
      json_field ''roi_width'' (show_int (zf_width f)), json_field ''roi_height'' (show_int (zf_height f)),
      json_field ''roi_applied'' (if applied then ''true'' else ''false''),
      json_field ''pts'' (show_int (zf_pts f)), json_field ''mono_ns'' (show_nat (unat (zf_mono_ns f))),
      json_field ''key_frame'' (if zf_key_frame f then ''1'' else ''0''),
      json_field ''pixfmt'' (key_of ''bgr24''),
      json_field ''color_space'' (key_of (color_space_name (zf_color_space f) @ ''#'' @ show_nat (unat (zf_color_space f)))),
      json_field ''color_range'' (key_of (color_range_name (zf_color_range f) @ ''#'' @ show_nat (unat (zf_color_range f))))] @ ''}'')"

text \<open>
  One turn of the wait: the clock reading of its condition, what other threads did to the
  streams meanwhile, and the attempt.
\<close>

type_synonym shared = "StreamManager \<times> bridge"

record wait_step =
  wt_now :: u64
  wt_others :: "shared \<Rightarrow> shared"
  wt_try :: attempt_env

record request_env =
  rq_first :: attempt_env
  rq_clock :: u64
  rq_waits :: "wait_step list"
  rq_crop_malloc :: bool
  rq_crop_calloc :: bool
  rq_send :: send_answer

text \<open>None while it still waits.\<close>

fun wait_frame :: "int \<Rightarrow> u64 \<Rightarrow> nat \<Rightarrow> wait_step list \<Rightarrow> shared \<Rightarrow> (nat option \<times> shared) option" where
  "wait_frame timeout deadline i [] g = None"
| "wait_frame timeout deadline i (t # ts) g =
     (if timeout < 0 \<or> wt_now t < deadline then
        (case wt_others t g of (mgr, b) \<Rightarrow>
         case convert_last_frame_to_bgr (wt_try t) (sm_streams mgr i) b of (rc, p, b1) \<Rightarrow>
           if rc = 0 then Some (p, mgr, b1) else wait_frame timeout deadline i ts (mgr, b1))
      else Some (None, g))"

definition wait_deadline :: "u64 \<Rightarrow> int \<Rightarrow> u64" where
  "wait_deadline now timeout = now + word_of_int (if timeout > 0 then timeout else 0) * 1000000"

definition get_frame :: "request_env \<Rightarrow> int \<Rightarrow> nat \<Rightarrow> shared \<Rightarrow> (nat option \<times> shared) option" where
  "get_frame e timeout i g = (case g of (mgr, b) \<Rightarrow>
     case convert_last_frame_to_bgr (rq_first e) (sm_streams mgr i) b of (rc, p, b1) \<Rightarrow>
       if rc \<noteq> 0 \<and> timeout \<noteq> 0
       then wait_frame timeout (wait_deadline (rq_clock e) timeout) i (rq_waits e) (mgr, b1)
       else Some (p, mgr, b1))"

text \<open>The reply for a frame in hand, whose reference is given up on every path.\<close>

definition reply_frame :: "request_env \<Rightarrow> ZmqRoiRequest \<Rightarrow> nat \<Rightarrow> bridge \<Rightarrow> zout list \<times> bridge" where
  "reply_frame e req a b = (case zb_heap b a of None \<Rightarrow> ([], b) | Some (n, frame) \<Rightarrow>
     (case resolve_bgr_roi frame req of
        None \<Rightarrow> (send_error ''bad roi'', free_bgr_frame a b)
      | Some roi \<Rightarrow>
          let send = (\<lambda>r f v. (case send_bgr_frame_owned (rq_send e) r v of (out, v1) \<Rightarrow>
                ([(Text ''OK'', True), (Text (meta_text f (rr_applied roi)), True)] @ out, v1)))
          in if rr_applied roi then
               (case crop_bgr_frame (rq_crop_malloc e) (rq_crop_calloc e) frame roi of
                  None \<Rightarrow> (send_error ''roi crop failed'', free_bgr_frame a b)
                | Some cropped \<Rightarrow>
                    (case new_bgr_frame cropped b of (r, b1) \<Rightarrow> send r cropped (free_bgr_frame a b1)))
             else send a frame b))"

definition get_latest_bgr :: "request_env \<Rightarrow> string \<Rightarrow> shared \<Rightarrow> (zout list \<times> shared) option" where
  "get_latest_bgr e json g =
     (case parse_roi_from_json json of (roi_parse, req) \<Rightarrow>
        if roi_parse < 0 then Some (send_error ''bad roi'', g)
        else (case stream_manager_get (fst g) (word_of_int (parse_stream_id_from_json json)) of
            None \<Rightarrow> Some (send_error ''bad stream_id'', g)
          | Some i \<Rightarrow>
              (case get_frame e (parse_timeout_ms_from_json json 1000) i g of None \<Rightarrow> None
               | Some (None, g1) \<Rightarrow> Some (send_error ''no frame yet'', g1)
               | Some (Some a, mgr, b) \<Rightarrow> (case reply_frame e req a b of (out, b1) \<Rightarrow> Some (out, mgr, b1)))))"

definition answer :: "request_env \<Rightarrow> string \<Rightarrow> string \<Rightarrow> shared \<Rightarrow> (zout list \<times> shared) option" where
  "answer e cmd json g =
     (if cmd = ''PING'' then Some ([(Text ''OK'', True), (Text ''{}'', False)], g)
      else if cmd = ''GET_LATEST_BGR'' then get_latest_bgr e json g
      else Some (send_error ''unknown cmd'', g))"

definition envelope :: "string \<Rightarrow> bool \<Rightarrow> zout list" where
  "envelope f0 delim = (Text f0, True) # (if delim then [(Text [], True)] else [])"

section \<open>The loop\<close>

lemma recv_frame_shorter: "recv_frame es = Some (r, es') \<Longrightarrow> length es' < length es"
  by (cases es rule: recv_frame.cases) auto

lemma read_json_shorter:
  "read_json f0 d c m es = Skip es' \<Longrightarrow> length es' < length es"
  "read_json f0 d c m es = Request a b c' j es' \<Longrightarrow> length es' \<le> length es"
  using recv_frame_shorter [of es]
  by (fastforce simp: read_json_def split: if_splits option.splits prod.splits)+

lemma read_request_shorter:
  "read_request es = Skip es' \<Longrightarrow> length es' < length es"
  "read_request es = Request a b c j es' \<Longrightarrow> length es' < length es"
  unfolding read_request_def
  by (auto split: option.splits prod.splits if_splits dest!: recv_frame_shorter read_json_shorter)

text \<open>What was sent, the streams and the bridge, and whether the loop has ended.\<close>

function bridge_loop :: "(nat \<Rightarrow> request_env) \<Rightarrow> (nat \<Rightarrow> bool) \<Rightarrow> nat \<Rightarrow> zmq_event list \<Rightarrow> shared \<Rightarrow>
   zout list \<times> shared \<times> bool" where
  "bridge_loop e running k es g =
     (if \<not> running k then ([], g, True)
      else (case read_request es of
        Blocked \<Rightarrow> ([], g, False)
      | Skip es1 \<Rightarrow> bridge_loop e running (Suc k) es1 g
      | Request f0 delim cmd json es1 \<Rightarrow>
          (case answer (e k) cmd json g of
             None \<Rightarrow> (envelope f0 delim, g, False)
           | Some (out, g1) \<Rightarrow> (case bridge_loop e running (Suc k) es1 g1 of
               (outs, r) \<Rightarrow> (envelope f0 delim @ out @ outs, r)))))"
  by pat_completeness auto
termination
  by (relation "measure (\<lambda>(e, r, k, es, g). length es)") (auto dest: read_request_shorter)

declare bridge_loop.simps [simp del]

section \<open>Start and shutdown\<close>

definition has_bind_addr :: "string option \<Rightarrow> bool" where
  "has_bind_addr addr \<longleftrightarrow> (case addr of None \<Rightarrow> False | Some a \<Rightarrow> a \<noteq> [])"

definition ipc_path_from_bind_addr :: "string option \<Rightarrow> string option" where
  "ipc_path_from_bind_addr addr = (case addr of None \<Rightarrow> None
     | Some a \<Rightarrow> if take 6 a \<noteq> ''ipc://'' then None else Some (drop 6 a))"

text \<open>The paths unlinked, in order.\<close>

definition cleanup_ipc_bind_addr :: "string option \<Rightarrow> string list \<Rightarrow> string list" where
  "cleanup_ipc_bind_addr addr unlinked = (case ipc_path_from_bind_addr addr of None \<Rightarrow> unlinked
     | Some path \<Rightarrow> if path = [] then unlinked else unlinked @ [path])"

definition bind_router_endpoint :: "(string \<Rightarrow> bool) \<Rightarrow> string option \<Rightarrow> string list \<Rightarrow> int \<times> string list" where
  "bind_router_endpoint zmq_bind addr unlinked =
     (if \<not> has_bind_addr addr then (0, unlinked)
      else let u1 = cleanup_ipc_bind_addr addr unlinked in
        if zmq_bind (the addr) then (0, u1) else (- 1, cleanup_ipc_bind_addr addr u1))"

record bridge_env =
  be_calloc :: bool
  be_cache :: bool
  be_thread :: bool
  be_context :: bool
  be_socket :: bool
  be_bind :: "string \<Rightarrow> bool"

text \<open>The thread up to its loop: whether it came to serve.\<close>

definition bridge_open :: "bridge_env \<Rightarrow> string option \<Rightarrow> string option \<Rightarrow> string list \<Rightarrow> bool \<times> string list" where
  "bridge_open e addr ipc u =
     (if \<not> be_context e \<or> \<not> be_socket e then (False, u)
      else case bind_router_endpoint (be_bind e) addr u of (rc1, u1) \<Rightarrow>
        case (if rc1 \<noteq> 0 then (rc1, u1) else bind_router_endpoint (be_bind e) ipc u1) of (rc2, u2) \<Rightarrow>
        if rc2 \<noteq> 0 then (False, cleanup_ipc_bind_addr ipc (cleanup_ipc_bind_addr addr u2)) else (True, u2))"

text \<open>\<open>strncpy\<close> into the 256 bytes of the argument.\<close>

definition bridge_addr :: "string option \<Rightarrow> string option" where
  "bridge_addr addr = (if has_bind_addr addr then map_option (take 255) addr else Some [])"

definition zmq_bridge_start ::
  "bridge_env \<Rightarrow> bool \<Rightarrow> u16 \<Rightarrow> string option \<Rightarrow> string option \<Rightarrow> conv_state \<Rightarrow> string list \<Rightarrow>
   int \<times> bridge option \<times> string list" where
  "zmq_bridge_start e started max_streams addr ipc g u =
     (if \<not> has_bind_addr addr \<and> \<not> has_bind_addr ipc then (- 1, None, u)
      else if started then (- 1, None, u)
      else if \<not> be_calloc e \<or> \<not> be_cache e \<or> \<not> be_thread e then (- 1, None, u)
      else case bridge_open e (bridge_addr addr) (bridge_addr ipc) u of
        (ok, u1) \<Rightarrow> if \<not> ok then (- 1, None, u1)
          else (0, Some \<lparr>zb_cache = (\<lambda>_. None), zb_cache_count = unat max_streams + 1, zb_heap = (\<lambda>_. None),
                   zb_next = 0, zb_sent = [], zb_conv = g\<rparr>, u1))"

text \<open>The end of the thread.\<close>

definition bridge_close :: "string option \<Rightarrow> string option \<Rightarrow> bridge \<Rightarrow> string list \<Rightarrow> bridge \<times> string list" where
  "bridge_close addr ipc b u =
     (clear_cached_bgr_frames b, cleanup_ipc_bind_addr ipc (cleanup_ipc_bind_addr addr u))"

text \<open>
  Shutdown: from now on every receive of the thread fails, and the thread is joined. None while
  \<open>n\<close> failing receives have not ended its loop; otherwise the bridge is not started any more,
  and the thread has cleaned up behind itself.
\<close>

definition zmq_bridge_shutdown ::
  "(nat \<Rightarrow> request_env) \<Rightarrow> (nat \<Rightarrow> bool) \<Rightarrow> nat \<Rightarrow> nat \<Rightarrow> bool \<Rightarrow> string option \<Rightarrow> string option \<Rightarrow> shared \<Rightarrow> string list \<Rightarrow>
   (bool \<times> shared \<times> string list) option" where
  "zmq_bridge_shutdown e running k n started addr ipc g u =
     (if \<not> started then Some (started, g, u)
      else (case bridge_loop e running k (replicate n RecvError) g of (out, (mgr, b), ended) \<Rightarrow>
        if ended then (case bridge_close addr ipc b u of (b1, u1) \<Rightarrow> Some (False, (mgr, b1), u1)) else None))"

end
