(* ===== verification/ServerMain.thy ===== *)
theory ServerMain
  imports ServerConns BridgeLoop
begin

text \<open>
  The main program of \<open>stream_server\<close> (\<open>src/main.c\<close>): its options, the environment variables
  through which it hands them to the other parts, and the order in which it starts and stops
  those parts. \<open>getopt_long\<close> belongs to the C library: its answers, an option's number and its
  argument, are a list. The starts are those of the components' own theories; the calls the
  program makes are recorded as a list of \<open>server_call\<close>.
\<close>

section \<open>Options\<close>

record main_config =
  mn_bind_host :: string
  mn_bind_port :: u16
  mn_connections :: int
  mn_runtime_max :: int
  mn_stats_interval :: int
  mn_daemon :: bool
  mn_decode_backend :: string
  mn_zmq_bind :: string
  mn_zmq_ipc_bind :: string
  mn_stress_test :: bool
  mn_stress_copies :: int
  mn_tap_port :: int
  mn_tap_bind :: string
  mn_tap_stall_ms :: int
  mn_tap_drop_idr :: int
  mn_ctrl_map :: string
  mn_ctrl_map_file :: string
  mn_recorder :: CompressedRecorderConfig
  mn_idr_cli :: bool

definition kDefaultZmqBridgeIpcBind :: string where
  "kDefaultZmqBridgeIpcBind = ''ipc:///tmp/stream_server_bgr.sock''"

definition parse_int_env_clamped_local :: "c_env \<Rightarrow> string \<Rightarrow> int \<Rightarrow> int \<Rightarrow> int \<Rightarrow> int" where
  "parse_int_env_clamped_local env name default_value min_value max_value = (case env name of
     None \<Rightarrow> default_value
   | Some v \<Rightarrow>
       if v = [] then default_value
       else (case strtol10 v of (parsed, rest, some) \<Rightarrow>
         if \<not> some \<or> rest \<noteq> [] then default_value
         else if parsed < min_value then min_value
         else if parsed > max_value then max_value
         else parsed))"

definition main_defaults :: "c_env \<Rightarrow> main_config" where
  "main_defaults env =
     \<lparr>mn_bind_host = ''0.0.0.0'', mn_bind_port = of_nat DEFAULT_LISTEN_PORT, mn_connections = int DEFAULT_MAX_STREAMS,
      mn_runtime_max = parse_int_env_clamped_local env ''STREAM_MAX_STREAMS'' (int DEFAULT_MAX_STREAMS) 1 (int MAX_STREAMS),
      mn_stats_interval = 10, mn_daemon = False, mn_decode_backend = [], mn_zmq_bind = [], mn_zmq_ipc_bind = [],
      mn_stress_test = False, mn_stress_copies = 0, mn_tap_port = 0, mn_tap_bind = [], mn_tap_stall_ms = 0,
      mn_tap_drop_idr = - 1, mn_ctrl_map = [], mn_ctrl_map_file = [],
      mn_recorder = compressed_recorder_config_defaults, mn_idr_cli = False\<rparr>"

definition clamp_runtime :: "int \<Rightarrow> int" where
  "clamp_runtime n = (let n1 = (if n < 1 then int DEFAULT_MAX_STREAMS else n) in
     if n1 > int MAX_STREAMS then int MAX_STREAMS else n1)"

definition segment_arg :: "string \<Rightarrow> u32" where
  "segment_arg v = (let s = (word_of_int (atoi v) :: u32) in if s < 1 then 1800 else s)"

definition queue_arg :: "string \<Rightarrow> nat" where
  "queue_arg v = (let mb = atoi v in (if mb < 1 then 256 else nat mb) * 1024 * 1024)"

definition idr_arg :: "string \<Rightarrow> u32" where
  "idr_arg v = (let sec = atoi v in if sec > 0 then word_of_int sec else 0)"

text \<open>One answer of \<open>getopt_long\<close>: Inl is the exit code of a return inside the switch.\<close>

definition apply_server_opt :: "int \<Rightarrow> string \<Rightarrow> main_config \<Rightarrow> int + main_config" where
  "apply_server_opt opt v c =
     (if opt = 104 then Inr (c\<lparr>mn_bind_host := snprintf_s 64 v\<rparr>)
      else if opt = 112 then Inr (c\<lparr>mn_bind_port := word_of_int (atoi v)\<rparr>)
      else if opt = 99 then Inr (c\<lparr>mn_connections := atoi v\<rparr>)
      else if opt = 1001 then Inr (c\<lparr>mn_runtime_max := clamp_runtime (atoi v)\<rparr>)
      else if opt = 115 then Inr (c\<lparr>mn_stats_interval := atoi v\<rparr>)
      else if opt = 100 then Inr (c\<lparr>mn_daemon := True\<rparr>)
      else if opt = 118 then Inr c
      else if opt = 0 then Inl 0
      else if opt = 1000 then Inr (c\<lparr>mn_decode_backend := snprintf_s 32 v\<rparr>)
      else if opt = 1003 then Inr (c\<lparr>mn_zmq_bind := snprintf_s 256 v\<rparr>)
      else if opt = 1014 then Inr (c\<lparr>mn_zmq_ipc_bind := snprintf_s 256 v\<rparr>)
      else if opt = 1004 then Inr (c\<lparr>mn_stress_test := True\<rparr>)
      else if opt = 1005 then Inr (c\<lparr>mn_stress_copies := (if atoi v < 0 then 0 else atoi v)\<rparr>)
      else if opt = 1006 then Inr (c\<lparr>mn_tap_port := atoi v\<rparr>)
      else if opt = 1007 then Inr (c\<lparr>mn_tap_bind := snprintf_s 64 v\<rparr>)
      else if opt = 1008 then Inr (c\<lparr>mn_tap_stall_ms := atoi v\<rparr>)
      else if opt = 1009 then Inr (c\<lparr>mn_tap_drop_idr := (if atoi v > 0 then 1 else 0)\<rparr>)
      else if opt = 1012 then Inr (c\<lparr>mn_ctrl_map := snprintf_s 2048 v\<rparr>)
      else if opt = 1013 then Inr (c\<lparr>mn_ctrl_map_file := snprintf_s 512 v\<rparr>)
      else if opt = 1015 then Inr (c\<lparr>mn_recorder := (mn_recorder c)\<lparr>rc_record_dir := snprintf_s 512 v\<rparr>\<rparr>)
      else if opt = 1016 then Inr (c\<lparr>mn_recorder := (mn_recorder c)\<lparr>rc_streams_spec := snprintf_s 256 v\<rparr>\<rparr>)
      else if opt = 1017 then Inr (c\<lparr>mn_recorder := (mn_recorder c)\<lparr>rc_segment_sec := segment_arg v\<rparr>\<rparr>)
      else if opt = 1018 then Inr (c\<lparr>mn_recorder := (mn_recorder c)\<lparr>rc_queue_bytes := queue_arg v\<rparr>\<rparr>)
      else if opt = 1019 then
        Inr (c\<lparr>mn_recorder := (mn_recorder c)\<lparr>rc_idr_interval_sec := idr_arg v\<rparr>, mn_idr_cli := True\<rparr>)
      else Inl 1)"

fun server_opts :: "(int \<times> string) list \<Rightarrow> main_config \<Rightarrow> int + main_config" where
  "server_opts [] c = Inr c"
| "server_opts ((opt, v) # as) c = (case apply_server_opt opt v c of Inl rc \<Rightarrow> Inl rc | Inr c1 \<Rightarrow> server_opts as c1)"

definition clamp_connections :: "main_config \<Rightarrow> main_config" where
  "clamp_connections c =
     (let r1 = (if mn_connections c < 1 then int DEFAULT_MAX_STREAMS else mn_connections c);
          r2 = (if r1 > int MAX_STREAMS then int MAX_STREAMS else r1);
          r3 = (if r2 < mn_runtime_max c then mn_runtime_max c else r2)
      in c\<lparr>mn_connections := r3\<rparr>)"

section \<open>The environment\<close>

definition setenv_if :: "bool \<Rightarrow> string \<Rightarrow> string \<Rightarrow> c_env \<Rightarrow> c_env" where
  "setenv_if b name v env = (if b then env(name := Some v) else env)"

definition export_env :: "main_config \<Rightarrow> c_env \<Rightarrow> c_env" where
  "export_env c =
     setenv_if (mn_ctrl_map_file c \<noteq> []) ''ML_WORKER_CTRL_MAP_FILE'' (mn_ctrl_map_file c) \<circ>
     setenv_if (mn_ctrl_map c \<noteq> []) ''ML_WORKER_CTRL_MAP'' (mn_ctrl_map c) \<circ>
     setenv_if (mn_tap_drop_idr c \<noteq> - 1) ''H264_TAP_DROP_IDR'' (if mn_tap_drop_idr c \<noteq> 0 then ''1'' else ''0'') \<circ>
     setenv_if (mn_tap_stall_ms c > 0) ''H264_TAP_STALL_MS'' (show_int (mn_tap_stall_ms c)) \<circ>
     setenv_if (mn_tap_bind c \<noteq> []) ''H264_TAP_BIND'' (mn_tap_bind c) \<circ>
     setenv_if (mn_tap_port c > 0) ''H264_TAP_PORT'' (show_int (mn_tap_port c)) \<circ>
     setenv_if (mn_stress_copies c > 0) ''STRESS_COPIES'' (show_int (mn_stress_copies c)) \<circ>
     setenv_if (mn_stress_test c) ''STRESS_TEST'' ''1'' \<circ>
     setenv_if (mn_zmq_ipc_bind c \<noteq> []) ''ZMQ_BRIDGE_IPC_BIND'' (mn_zmq_ipc_bind c) \<circ>
     setenv_if (mn_zmq_bind c \<noteq> []) ''ZMQ_BRIDGE_BIND'' (mn_zmq_bind c) \<circ>
     setenv_if (mn_decode_backend c \<noteq> []) ''DECODE_BACKEND'' (mn_decode_backend c) \<circ>
     setenv_if True ''STREAM_MAX_STREAMS'' (show_int (mn_runtime_max c))"

text \<open>The recorder's settings: what the command line left at its default comes from the environment.\<close>

definition recorder_settings :: "c_env \<Rightarrow> main_config \<Rightarrow> CompressedRecorderConfig" where
  "recorder_settings env c =
     (let r = mn_recorder c;
          dir = env ''COMPRESSED_RECORD_DIR''; streams = env ''COMPRESSED_RECORD_STREAMS'';
          segment = env ''COMPRESSED_RECORD_SEGMENT_SEC''; queue = env ''COMPRESSED_RECORD_QUEUE_MB'';
          idr = env ''COMPRESSED_RECORD_IDR_INTERVAL_SEC''; nfs = env ''COMPRESSED_RECORD_REQUIRE_NFS'';
          r1 = (if rc_record_dir r = [] \<and> env_nonempty dir then r\<lparr>rc_record_dir := snprintf_s 512 (the dir)\<rparr> else r);
          r2 = (if rc_streams_spec r1 = [] \<and> env_nonempty streams
                then r1\<lparr>rc_streams_spec := snprintf_s 256 (the streams)\<rparr> else r1);
          r3 = (if env_nonempty segment \<and> rc_segment_sec r2 = 1800 \<and> atoi (the segment) > 0
                then r2\<lparr>rc_segment_sec := word_of_int (atoi (the segment))\<rparr> else r2);
          r4 = (if env_nonempty queue \<and> rc_queue_bytes r3 = 256 * 1024 * 1024 \<and> atoi (the queue) > 0
                then r3\<lparr>rc_queue_bytes := nat (atoi (the queue)) * 1024 * 1024\<rparr> else r3);
          r5 = (if \<not> mn_idr_cli c \<and> env_nonempty idr then r4\<lparr>rc_idr_interval_sec := idr_arg (the idr)\<rparr> else r4);
          r6 = (if env_nonempty nfs then r5\<lparr>rc_require_nfs_mount := (atoi (the nfs) > 0)\<rparr> else r5)
      in r6\<lparr>rc_max_streams := word_of_int (mn_runtime_max c)\<rparr>)"

text \<open>A bridge with a TCP endpoint gets an IPC endpoint as well.\<close>

definition default_ipc :: "main_config \<Rightarrow> c_env \<Rightarrow> c_env" where
  "default_ipc c env =
     setenv_if (\<not> env_nonempty (env ''ZMQ_BRIDGE_IPC_BIND'') \<and> (mn_zmq_bind c \<noteq> [] \<or> env_nonempty (env ''ZMQ_BRIDGE_BIND'')))
       ''ZMQ_BRIDGE_IPC_BIND'' kDefaultZmqBridgeIpcBind env"

section \<open>Starting and stopping\<close>

text \<open>\<open>ServerStop\<close> has whether clients' threads are left when \<open>server_stop\<close> returns.\<close>

datatype server_call =
    MgrInit u16
  | BridgeStart "string option" "string option" int
  | ServerInit int
  | RecorderStart CompressedRecorderConfig int
  | ServerStart int
  | PrintStats
  | ServerStop bool
  | RecorderStop
  | StressReport
  | BridgeShutdown
  | MgrDestroy

text \<open>
  What the starts meet. \<open>me_looks\<close> is what the condition of the main loop sees, look by look
  (\<open>g_running\<close> and the server's flag), \<open>me_times\<close> the two clock readings of each round.
  \<open>me_clients_gone w\<close> says whether the server's list of clients is empty \<open>w\<close> milliseconds after
  \<open>server_stop\<close> began to wait, \<open>me_late_signal\<close> whether a signal that comes after the main loop
  clears \<open>g_running\<close>.
\<close>

record main_env =
  me_daemon :: int
  me_bridge :: bridge_env
  me_conv :: conv_state
  me_rec :: rec_env
  me_rec_thread :: bool
  me_rec_state :: rec_state
  me_start :: start_env
  me_time0 :: int
  me_looks :: "(bool \<times> bool) list"
  me_times :: "(int \<times> int) list"
  me_clients_gone :: "nat \<Rightarrow> bool"
  me_late_signal :: bool

text \<open>The main loop: the calls it makes, and \<open>g_running\<close> as it found it in its last look.\<close>

fun main_loop :: "int \<Rightarrow> int \<Rightarrow> (bool \<times> bool) list \<Rightarrow> (int \<times> int) list \<Rightarrow> (server_call list \<times> bool) option" where
  "main_loop interval last_stats [] ts = None"
| "main_loop interval last_stats ((g_running, is_running) # looks) ts =
     (if \<not> (g_running \<and> is_running) then Some ([], g_running)
      else case ts of [] \<Rightarrow> None | (now, after) # ts' \<Rightarrow>
        if interval > 0 \<and> now - last_stats \<ge> interval
        then map_option (apfst ((#) PrintStats)) (main_loop interval after looks ts')
        else main_loop interval last_stats looks ts')"

definition stress_wanted :: "c_env \<Rightarrow> bool" where
  "stress_wanted env = (case env ''STRESS_TEST'' of None \<Rightarrow> False | Some v \<Rightarrow> atoi v > 0)"

text \<open>The server's wait for its clients is over: whether some are left.\<close>

definition handlers_left :: "main_env \<Rightarrow> bool" where
  "handlers_left e = (\<not> me_clients_gone e (stop_wait (me_clients_gone e) 0))"

text \<open>
  From the main loop on, once everything has started; \<open>bridge\<close> says whether the bridge has.
  Its shutdown joins a thread that ends only when it finds \<open>g_running\<close> cleared
  (\<open>shutdown_needs_cleared_flag\<close>): until then the program does not return.
\<close>

definition serve_until_stopped :: "main_env \<Rightarrow> main_config \<Rightarrow> c_env \<Rightarrow> bool \<Rightarrow> server_call list option" where
  "serve_until_stopped e c env bridge =
     (case main_loop (mn_stats_interval c) (me_time0 e) (me_looks e) (me_times e) of
        None \<Rightarrow> None
      | Some (ev, g_running) \<Rightarrow>
          if bridge \<and> g_running \<and> \<not> me_late_signal e then None
          else Some (ev @ [ServerStop (handlers_left e), RecorderStop] @
            (if stress_wanted env then [StressReport] else []) @ [BridgeShutdown, MgrDestroy]))"

definition start_and_serve :: "main_env \<Rightarrow> main_config \<Rightarrow> c_env \<Rightarrow> CompressedRecorderConfig \<Rightarrow> (int \<times> server_call list) option" where
  "start_and_serve e c env rcfg =
     (let max_streams = word_of_int (mn_runtime_max c) :: u16;
          tcp = env ''ZMQ_BRIDGE_BIND''; ipc = env ''ZMQ_BRIDGE_IPC_BIND'' in
      case stream_manager_init max_streams of
        None \<Rightarrow> Some (1, [MgrInit max_streams])
      | Some mgr \<Rightarrow>
          let enabled = (env_nonempty tcp \<or> env_nonempty ipc);
              bridge_rc = fst (zmq_bridge_start (me_bridge e) False max_streams tcp ipc (me_conv e) []);
              bridge = (if enabled then [BridgeStart tcp ipc bridge_rc] else []);
              sv = server_init (mn_connections c);
              ev = [MgrInit max_streams] @ bridge @ [ServerInit (mn_connections c)];
              recording = rc_record_dir rcfg \<noteq> [];
              rec_rc = fst (compressed_recorder_start (me_rec e) (me_rec_thread e) (Some rcfg) False (me_rec_state e));
              ev1 = (if recording then ev @ [RecorderStart rcfg rec_rc] else ev)
          in if recording \<and> rec_rc \<noteq> 0 then Some (1, ev1 @ [MgrDestroy])
             else
               let rc = fst (server_start (me_start e) sv []); ev2 = ev1 @ [ServerStart rc] in
               if rc < 0 then Some (1, ev2 @ [RecorderStop])
               else map_option (\<lambda>ev3. (0, ev2 @ ev3)) (serve_until_stopped e c env (enabled \<and> bridge_rc = 0)))"

definition server_main :: "main_env \<Rightarrow> c_env \<Rightarrow> (int \<times> string) list \<Rightarrow> (int \<times> server_call list) option" where
  "server_main e env0 answers =
     (case server_opts answers (main_defaults env0) of
        Inl rc \<Rightarrow> Some (rc, [])
      | Inr c0 \<Rightarrow>
          let c = clamp_connections c0;
              env1 = export_env c env0;
              rcfg = recorder_settings env1 c;
              env2 = default_ipc c env1
          in if mn_daemon c \<and> me_daemon e < 0 then Some (1, [])
             else start_and_serve e c env2 rcfg)"

section \<open>Limits\<close>

definition main_inv :: "main_config \<Rightarrow> bool" where
  "main_inv c \<longleftrightarrow> 1 \<le> mn_runtime_max c \<and> mn_runtime_max c \<le> 256 \<and> length (mn_bind_host c) < 64 \<and>
     rc_segment_sec (mn_recorder c) \<noteq> 0 \<and> 1048576 \<le> rc_queue_bytes (mn_recorder c) \<and>
     length (rc_record_dir (mn_recorder c)) < 512 \<and> length (rc_streams_spec (mn_recorder c)) < 256"

text \<open>A predicate of the configuration a step leaves, if it leaves one.\<close>

definition on_inr :: "('a \<Rightarrow> bool) \<Rightarrow> int + 'a \<Rightarrow> bool" where
  "on_inr P r \<longleftrightarrow> (case r of Inl _ \<Rightarrow> True | Inr c \<Rightarrow> P c)"

lemma on_inr_intros:
  "on_inr P x \<Longrightarrow> on_inr P y \<Longrightarrow> on_inr P (if b then x else y)"
  "P c \<Longrightarrow> on_inr P (Inr c)"
  "on_inr P (Inl rc)"
  by (simp_all add: on_inr_def)

lemma clamp_runtime_range: "1 \<le> clamp_runtime n" "clamp_runtime n \<le> 256"
  by (simp_all add: clamp_runtime_def Let_def MAX_STREAMS_def DEFAULT_MAX_STREAMS_def)

lemma env_clamped_range:
  "lo \<le> hi \<Longrightarrow> lo \<le> d \<Longrightarrow> d \<le> hi \<Longrightarrow>
   lo \<le> parse_int_env_clamped_local env name d lo hi \<and> parse_int_env_clamped_local env name d lo hi \<le> hi"
  by (auto simp: parse_int_env_clamped_local_def split: option.splits prod.splits)

lemma segment_arg_pos: "segment_arg v \<noteq> 0"
  by (auto simp: segment_arg_def Let_def)

lemma queue_arg_min: "1048576 \<le> queue_arg v"
  by (auto simp: queue_arg_def Let_def)

lemma main_inv_upd:
  assumes "main_inv c"
  shows "main_inv (c\<lparr>mn_bind_host := snprintf_s 64 v\<rparr>)" "main_inv (c\<lparr>mn_bind_port := p\<rparr>)" "main_inv (c\<lparr>mn_connections := n\<rparr>)"
    "main_inv (c\<lparr>mn_runtime_max := clamp_runtime n\<rparr>)" "main_inv (c\<lparr>mn_stats_interval := n\<rparr>)" "main_inv (c\<lparr>mn_daemon := b\<rparr>)"
    "main_inv (c\<lparr>mn_decode_backend := v\<rparr>)" "main_inv (c\<lparr>mn_zmq_bind := v\<rparr>)" "main_inv (c\<lparr>mn_zmq_ipc_bind := v\<rparr>)"
    "main_inv (c\<lparr>mn_stress_test := b\<rparr>)" "main_inv (c\<lparr>mn_stress_copies := n\<rparr>)" "main_inv (c\<lparr>mn_tap_port := n\<rparr>)"
    "main_inv (c\<lparr>mn_tap_bind := v\<rparr>)" "main_inv (c\<lparr>mn_tap_stall_ms := n\<rparr>)" "main_inv (c\<lparr>mn_tap_drop_idr := n\<rparr>)"
    "main_inv (c\<lparr>mn_ctrl_map := v\<rparr>)" "main_inv (c\<lparr>mn_ctrl_map_file := v\<rparr>)"
    "main_inv (c\<lparr>mn_recorder := (mn_recorder c)\<lparr>rc_record_dir := snprintf_s 512 v\<rparr>\<rparr>)"
    "main_inv (c\<lparr>mn_recorder := (mn_recorder c)\<lparr>rc_streams_spec := snprintf_s 256 v\<rparr>\<rparr>)"
    "main_inv (c\<lparr>mn_recorder := (mn_recorder c)\<lparr>rc_segment_sec := segment_arg v\<rparr>\<rparr>)"
    "main_inv (c\<lparr>mn_recorder := (mn_recorder c)\<lparr>rc_queue_bytes := queue_arg v\<rparr>\<rparr>)"
    "main_inv (c\<lparr>mn_recorder := (mn_recorder c)\<lparr>rc_idr_interval_sec := x\<rparr>, mn_idr_cli := b\<rparr>)"
  using assms length_snprintf_s [of 64 v] length_snprintf_s [of 512 v] length_snprintf_s [of 256 v] clamp_runtime_range [of n]
    segment_arg_pos [of v] queue_arg_min [of v]
  by (simp_all add: main_inv_def)

lemma apply_server_opt_inv: "main_inv c \<Longrightarrow> on_inr main_inv (apply_server_opt opt v c)"
  unfolding apply_server_opt_def by (intro on_inr_intros main_inv_upd) assumption+

lemma server_opts_inv: "main_inv c \<Longrightarrow> on_inr main_inv (server_opts as c)"
proof (induction as arbitrary: c)
  case (Cons a as)
  obtain opt v where a: "a = (opt, v)" by (cases a)
  show ?case
  proof (cases "apply_server_opt opt v c")
    case (Inl rc)
    then show ?thesis by (simp add: a on_inr_def)
  next
    case (Inr c1)
    then have "main_inv c1" using apply_server_opt_inv [OF Cons.prems, of opt v] by (simp add: on_inr_def)
    then show ?thesis using Cons.IH Inr by (simp add: a)
  qed
qed (simp add: on_inr_def)

lemma main_defaults_inv: "main_inv (main_defaults env)"
  using env_clamped_range [of 1 256 20 env "''STREAM_MAX_STREAMS''"]
  by (simp add: main_inv_def main_defaults_def MAX_STREAMS_def DEFAULT_MAX_STREAMS_def compressed_recorder_config_defaults_def
      DEFAULT_SEGMENT_SEC_def DEFAULT_QUEUE_BYTES_def)

lemma parsed_inv: "server_opts as (main_defaults env) = Inr c \<Longrightarrow> main_inv c"
  using server_opts_inv [OF main_defaults_inv, of as env] by (simp add: on_inr_def)

lemma clamp_connections_inv:
  assumes "main_inv c"
  shows "mn_runtime_max (clamp_connections c) = mn_runtime_max c" "mn_runtime_max c \<le> mn_connections (clamp_connections c)"
    "mn_connections (clamp_connections c) \<le> 256" "mn_recorder (clamp_connections c) = mn_recorder c"
    "mn_zmq_bind (clamp_connections c) = mn_zmq_bind c" "mn_idr_cli (clamp_connections c) = mn_idr_cli c"
  using assms by (simp_all add: clamp_connections_def Let_def MAX_STREAMS_def DEFAULT_MAX_STREAMS_def main_inv_def)

lemma setenv_if_other: "name \<noteq> other \<Longrightarrow> setenv_if b name v env other = env other"
  by (simp add: setenv_if_def)

lemma exported_max_streams: "export_env c env ''STREAM_MAX_STREAMS'' = Some (show_int (mn_runtime_max c))"
  unfolding export_env_def comp_apply by (simp add: setenv_if_other) (simp add: setenv_if_def)

lemma default_ipc_other: "name \<noteq> ''ZMQ_BRIDGE_IPC_BIND'' \<Longrightarrow> default_ipc c env name = env name"
  by (simp add: default_ipc_def setenv_if_def)

lemma runtime_max_read:
  assumes "env ''STREAM_MAX_STREAMS'' = Some (show_int n)" and "1 \<le> n" and "n \<le> 256"
  shows "server_runtime_max_streams env = n"
proof -
  obtain k where n: "n = int k" using zero_le_imp_eq_int [of n] assms(2) by auto
  then have k: "n = int k" "k \<le> 256" using assms(3) by simp_all
  have "strtol10 (show_nat k) = (int k, [], True)"
    using scan_signed_show_nat [of "[]" k] k by (simp add: strtol10_def clamp_long_id)
  then show ?thesis using assms k show_nat_digits [of k]
    by (simp add: server_runtime_max_streams_def show_int_def MAX_STREAMS_def)
qed

text \<open>C12: all parts agree on the number of streams: whatever the command line and the environment say, the
  number is between 1 and the hard limit, the manager is made with it, the server reads the
  same number back from the environment, the recorder is given it, and there are at least as
  many connections as streams, within the hard limit.\<close>

theorem limits_agree:
  assumes "server_opts answers (main_defaults env) = Inr c0" and "c = clamp_connections c0"
    and "env1 = export_env c env"
  shows "1 \<le> mn_runtime_max c \<and> mn_runtime_max c \<le> mn_connections c \<and> mn_connections c \<le> int MAX_STREAMS \<and>
    (\<exists>mgr. stream_manager_init (word_of_int (mn_runtime_max c)) = Some mgr \<and> uint (sm_max_streams mgr) = mn_runtime_max c) \<and>
    server_runtime_max_streams (default_ipc c env1) = mn_runtime_max c \<and>
    uint (rc_max_streams (recorder_settings env1 c)) = mn_runtime_max c"
proof -
  let ?n = "mn_runtime_max c"
  have inv: "main_inv c0" by (rule parsed_inv [OF assms(1)])
  have n: "1 \<le> ?n" "?n \<le> 256" "?n \<le> mn_connections c" "mn_connections c \<le> 256"
    using clamp_connections_inv [OF inv] inv assms(2) by (simp_all add: main_inv_def)
  have u: "uint (word_of_int ?n :: u16) = ?n" using n by (simp add: uint_word_of_int)
  then have un: "unat (word_of_int ?n :: u16) = nat ?n" by (simp add: unat_eq_nat_uint)
  have "\<not> (word_of_int ?n :: u16) < 1" using n u by (simp add: word_less_def)
  then have "\<exists>mgr. stream_manager_init (word_of_int ?n) = Some mgr \<and> uint (sm_max_streams mgr) = ?n"
    using n u un by (simp add: stream_manager_init_def MAX_STREAMS_def)
  moreover have "server_runtime_max_streams (default_ipc c env1) = ?n"
    using n by (intro runtime_max_read) (simp_all add: default_ipc_other exported_max_streams assms(3))
  ultimately show ?thesis using n u by (simp add: MAX_STREAMS_def recorder_settings_def Let_def)
qed

lemma ex_atoi: "atoi ''300'' = 300" "atoi ''1800'' = 1800" "atoi ''60'' = 60"
  by (simp_all add: atoi_def strtol10_def scan_signed_def c_isspace_def c_isdigit_def digit_val_def nat_of_digits_def
      clamp_long_def LONG_MAX_def to_int32_id)

theorem limits_agree_witness:
  "\<exists>c0. server_opts [(1001, ''300'')] (main_defaults (\<lambda>_. None)) = Inr c0 \<and> mn_runtime_max c0 = 256 \<and>
     server_runtime_max_streams (default_ipc (clamp_connections c0) (export_env (clamp_connections c0) (\<lambda>_. None))) =
       mn_runtime_max (clamp_connections c0)"
proof -
  obtain c0 where c0: "server_opts [(1001, ''300'')] (main_defaults (\<lambda>_. None)) = Inr c0" "mn_runtime_max c0 = 256"
    by (simp add: apply_server_opt_def ex_atoi clamp_runtime_def Let_def MAX_STREAMS_def)
  from limits_agree [OF c0(1) refl refl] show ?thesis using c0 by blast
qed

section \<open>The endpoints of the bridge\<close>

text \<open>a bridge that listens on TCP also listens on the local socket, and there is a bridge exactly when
  the command line or the environment names an endpoint.\<close>

theorem bridge_endpoints:
  assumes "env2 = default_ipc c (export_env c env)"
  shows "(env_nonempty (env2 ''ZMQ_BRIDGE_BIND'') \<longrightarrow> env_nonempty (env2 ''ZMQ_BRIDGE_IPC_BIND'')) \<and>
    (env_nonempty (env2 ''ZMQ_BRIDGE_BIND'') \<or> env_nonempty (env2 ''ZMQ_BRIDGE_IPC_BIND'') \<longleftrightarrow>
     mn_zmq_bind c \<noteq> [] \<or> mn_zmq_ipc_bind c \<noteq> [] \<or>
     env_nonempty (env ''ZMQ_BRIDGE_BIND'') \<or> env_nonempty (env ''ZMQ_BRIDGE_IPC_BIND''))"
proof -
  let ?env1 = "export_env c env"
  have tcp: "?env1 ''ZMQ_BRIDGE_BIND'' = (if mn_zmq_bind c \<noteq> [] then Some (mn_zmq_bind c) else env ''ZMQ_BRIDGE_BIND'')"
    unfolding export_env_def comp_apply by (simp add: setenv_if_other) (simp add: setenv_if_def)
  have ipc: "?env1 ''ZMQ_BRIDGE_IPC_BIND'' = (if mn_zmq_ipc_bind c \<noteq> [] then Some (mn_zmq_ipc_bind c) else env ''ZMQ_BRIDGE_IPC_BIND'')"
    unfolding export_env_def comp_apply by (simp add: setenv_if_other) (simp add: setenv_if_def)
  have tcp2: "env2 ''ZMQ_BRIDGE_BIND'' = ?env1 ''ZMQ_BRIDGE_BIND''"
    unfolding assms by (rule default_ipc_other) simp
  have ipc2: "env2 ''ZMQ_BRIDGE_IPC_BIND'' =
      (if \<not> env_nonempty (?env1 ''ZMQ_BRIDGE_IPC_BIND'') \<and> (mn_zmq_bind c \<noteq> [] \<or> env_nonempty (?env1 ''ZMQ_BRIDGE_BIND''))
       then Some kDefaultZmqBridgeIpcBind else ?env1 ''ZMQ_BRIDGE_IPC_BIND'')"
    unfolding assms default_ipc_def setenv_if_def by simp
  have some: "env_nonempty (Some v) \<longleftrightarrow> v \<noteq> []" for v :: string by (simp add: env_nonempty_def)
  have "kDefaultZmqBridgeIpcBind \<noteq> []" by (simp add: kDefaultZmqBridgeIpcBind_def)
  then show ?thesis unfolding tcp2 ipc2 tcp ipc by (simp add: some)
qed

theorem bridge_endpoints_witness:
  "let env2 = default_ipc ((main_defaults (\<lambda>_. None))\<lparr>mn_zmq_bind := ''tcp://0.0.0.0:5566''\<rparr>)
      (export_env ((main_defaults (\<lambda>_. None))\<lparr>mn_zmq_bind := ''tcp://0.0.0.0:5566''\<rparr>) (\<lambda>_. None)) in
    env_nonempty (env2 ''ZMQ_BRIDGE_BIND'') \<or> env_nonempty (env2 ''ZMQ_BRIDGE_IPC_BIND'')"
  unfolding Let_def bridge_endpoints [OF refl, THEN conjunct2] by simp

section \<open>Who uses the manager\<close>

text \<open>
  The manager is a variable of \<open>main\<close>; the bridge's thread, the server's threads and the
  recorder work while it lives. What is alive, and the calls that are allowed then: the
  manager may be destroyed only when the server and the bridge no longer use it. The server
  is alive after its stop when threads of clients are left; a bridge whose shutdown has
  returned has been joined.
\<close>

record lives =
  lv_mgr :: bool
  lv_bridge :: bool
  lv_server :: bool
  lv_recorder :: bool

definition nothing_alive :: lives where
  "nothing_alive = \<lparr>lv_mgr = False, lv_bridge = False, lv_server = False, lv_recorder = False\<rparr>"

fun live_step :: "lives \<Rightarrow> server_call \<Rightarrow> lives option" where
  "live_step l (MgrInit n) = (if lv_mgr l then None else Some (l\<lparr>lv_mgr := True\<rparr>))"
| "live_step l (BridgeStart tcp ipc rc) = (if lv_mgr l then Some (l\<lparr>lv_bridge := (rc = 0)\<rparr>) else None)"
| "live_step l (ServerInit n) = (if lv_mgr l then Some l else None)"
| "live_step l (RecorderStart cfg rc) = Some (l\<lparr>lv_recorder := (rc = 0)\<rparr>)"
| "live_step l (ServerStart rc) = (if lv_mgr l then Some (l\<lparr>lv_server := (rc = 0)\<rparr>) else None)"
| "live_step l PrintStats = (if lv_mgr l then Some l else None)"
| "live_step l (ServerStop left) = Some (l\<lparr>lv_server := (lv_server l \<and> left)\<rparr>)"
| "live_step l RecorderStop = Some (l\<lparr>lv_recorder := False\<rparr>)"
| "live_step l StressReport = (if lv_mgr l then Some l else None)"
| "live_step l BridgeShutdown = Some (l\<lparr>lv_bridge := False\<rparr>)"
| "live_step l MgrDestroy = (if lv_mgr l \<and> \<not> lv_bridge l \<and> \<not> lv_server l then Some (l\<lparr>lv_mgr := False\<rparr>) else None)"

fun live_calls :: "lives \<Rightarrow> server_call list \<Rightarrow> lives option" where
  "live_calls l [] = Some l"
| "live_calls l (c # cs) = (case live_step l c of None \<Rightarrow> None | Some l' \<Rightarrow> live_calls l' cs)"

lemma live_calls_append:
  "live_calls l (xs @ ys) = (case live_calls l xs of None \<Rightarrow> None | Some l' \<Rightarrow> live_calls l' ys)"
  by (induction xs arbitrary: l) (simp_all split: option.splits)

lemma main_loop_stats: "main_loop i t looks ts = Some (ev, r) \<Longrightarrow> set ev \<subseteq> {PrintStats}"
proof (induction i t looks ts arbitrary: ev rule: main_loop.induct)
  case (2 i t g sv looks ts)
  show ?case
  proof (cases "g \<and> sv \<and> ts \<noteq> []")
    case False
    then show ?thesis using 2 by (auto split: if_splits)
  next
    case True
    then obtain now after ts' where ts: "ts = (now, after) # ts'" by (cases ts) auto
    show ?thesis using 2 True by (fastforce simp: ts split: if_splits)
  qed
qed simp





text \<open>Up to the start of the recorder.\<close>

lemma starts_calls:
  assumes "\<not> (recording \<and> rr \<noteq> 0)" and "ev0 = [MgrInit n] @ (if b then [BridgeStart tcp ipc rc] else []) @ [ServerInit k]"
  shows "live_calls nothing_alive (if recording then ev0 @ [RecorderStart cfg rr] else ev0) =
    Some \<lparr>lv_mgr = True, lv_bridge = (b \<and> rc = 0), lv_server = False, lv_recorder = recording\<rparr>"
  using assms(1) unfolding assms(2) by (cases recording; cases b) (simp_all add: nothing_alive_def)





lemma server_main_runs:
  assumes "server_main e env answers = Some (rc, ev)" and "ev \<noteq> []"
  obtains c0 where "server_opts answers (main_defaults env) = Inr c0"
    "start_and_serve e (clamp_connections c0) (default_ipc (clamp_connections c0) (export_env (clamp_connections c0) env))
      (recorder_settings (export_env (clamp_connections c0) env) (clamp_connections c0)) = Some (rc, ev)"
  using assms by (cases "server_opts answers (main_defaults env)") (auto simp: server_main_def Let_def split: if_splits)


lemma exported_other:
  assumes "name \<notin> set [''ML_WORKER_CTRL_MAP_FILE'', ''ML_WORKER_CTRL_MAP'', ''H264_TAP_DROP_IDR'', ''H264_TAP_STALL_MS'',
    ''H264_TAP_BIND'', ''H264_TAP_PORT'', ''STRESS_COPIES'', ''STRESS_TEST'', ''ZMQ_BRIDGE_IPC_BIND'', ''ZMQ_BRIDGE_BIND'',
    ''DECODE_BACKEND'', ''STREAM_MAX_STREAMS'']"
  shows "export_env c env name = env name"
  using assms unfolding export_env_def comp_apply by (simp add: setenv_if_other [OF not_sym])

lemma recorder_settings_exported: "recorder_settings (export_env c env) c' = recorder_settings env c'"
proof -
  have "export_env c env name = env name"
    if "name \<in> {''COMPRESSED_RECORD_DIR'', ''COMPRESSED_RECORD_STREAMS'', ''COMPRESSED_RECORD_SEGMENT_SEC'',
      ''COMPRESSED_RECORD_QUEUE_MB'', ''COMPRESSED_RECORD_IDR_INTERVAL_SEC'', ''COMPRESSED_RECORD_REQUIRE_NFS''}" for name
    using that by (intro exported_other) (elim insertE emptyE; simp)
  then show ?thesis by (simp add: recorder_settings_def)
qed

section \<open>Settings of the recorder\<close>

lemma server_opts_append:
  "server_opts (as @ bs) c = (case server_opts as c of Inl rc \<Rightarrow> Inl rc | Inr c1 \<Rightarrow> server_opts bs c1)"
proof (induction as arbitrary: c)
  case (Cons a as)
  then show ?case by (cases a) (simp split: sum.splits)
qed simp

text \<open>the command line overrides the environment, except that it cannot ask for the default: a segment
  length on the command line is the one that is used, unless it comes to 1800 seconds; then
  the environment's wins.\<close>

theorem segment_length_used:
  assumes "server_opts (answers @ [(1017, a)]) (main_defaults env) = Inr c0" and "c = clamp_connections c0"
    and "env ''COMPRESSED_RECORD_SEGMENT_SEC'' = Some v" and "0 < atoi v"
  shows "rc_segment_sec (recorder_settings (export_env c env) c) =
    (if segment_arg a = 1800 then word_of_int (atoi v) else segment_arg a)"
proof -
  obtain c1 where "server_opts answers (main_defaults env) = Inr c1"
    using assms(1) by (cases "server_opts answers (main_defaults env)") (simp_all add: server_opts_append)
  then have "c0 = c1\<lparr>mn_recorder := (mn_recorder c1)\<lparr>rc_segment_sec := segment_arg a\<rparr>\<rparr>"
    using assms(1) by (simp add: server_opts_append apply_server_opt_def)
  then have "rc_segment_sec (mn_recorder c) = segment_arg a"
    by (simp add: assms(2) clamp_connections_def Let_def)
  moreover have "v \<noteq> []"
  proof
    assume "v = []"
    then have "atoi v = 0" by (simp add: atoi_def strtol10_def scan_signed_def to_int32_id)
    then show False using assms(4) by simp
  qed
  ultimately show ?thesis using assms(3,4) unfolding recorder_settings_exported
    by (simp add: recorder_settings_def Let_def env_nonempty_def)
qed

theorem segment_length_used_witness:
  "\<exists>c0. server_opts ([] @ [(1017, ''1800'')]) (main_defaults (\<lambda>_. Some ''60'')) = Inr c0 \<and>
     rc_segment_sec (recorder_settings (export_env (clamp_connections c0) (\<lambda>_. Some ''60'')) (clamp_connections c0)) = 60"
proof -
  obtain c0 where c0: "server_opts ([] @ [(1017, ''1800'')]) (main_defaults (\<lambda>_. Some ''60'')) = Inr c0"
    by (simp add: apply_server_opt_def)
  have v: "0 < atoi ''60''" by (simp add: ex_atoi)
  have "segment_arg ''1800'' = 1800" by (simp add: segment_arg_def ex_atoi)
  then show ?thesis using c0 segment_length_used [OF c0 refl _ v] by (simp add: ex_atoi)
qed

section \<open>A recorder that does not start\<close>

lemma serve_events: "serve_until_stopped e c env b = Some ev \<Longrightarrow> RecorderStart cfg r \<notin> set ev"
  using main_loop_stats by (fastforce simp: serve_until_stopped_def split: option.splits if_splits)

lemma start_and_serve_failed:
  assumes "start_and_serve e c env rcfg = Some (rc, ev)" and "RecorderStart cfg r \<in> set ev" and "r \<noteq> 0"
  shows "\<exists>pre. rc = 1 \<and> ev = pre @ [RecorderStart cfg r, MgrDestroy] \<and> BridgeShutdown \<notin> set pre \<and>
    (\<forall>tcp ipc. BridgeStart tcp ipc 0 \<in> set pre \<longrightarrow>
      live_calls nothing_alive pre = Some \<lparr>lv_mgr = True, lv_bridge = True, lv_server = False, lv_recorder = False\<rparr>)"
proof (cases "stream_manager_init (word_of_int (mn_runtime_max c))")
  case None
  then show ?thesis using assms by (auto simp: start_and_serve_def Let_def)
next
  case (Some mgr)
  let ?n = "word_of_int (mn_runtime_max c) :: u16"
  let ?tcp = "env ''ZMQ_BRIDGE_BIND''" and ?ipc = "env ''ZMQ_BRIDGE_IPC_BIND''"
  let ?b = "env_nonempty ?tcp \<or> env_nonempty ?ipc"
  let ?brc = "fst (zmq_bridge_start (me_bridge e) False ?n ?tcp ?ipc (me_conv e) [])"
  let ?ev0 = "[MgrInit ?n] @ (if ?b then [BridgeStart ?tcp ?ipc ?brc] else []) @ [ServerInit (mn_connections c)]"
  let ?recording = "rc_record_dir rcfg \<noteq> []"
  let ?rr = "fst (compressed_recorder_start (me_rec e) (me_rec_thread e) (Some rcfg) False (me_rec_state e))"
  let ?ev1 = "if ?recording then ?ev0 @ [RecorderStart rcfg ?rr] else ?ev0"
  let ?src = "fst (server_start (me_start e) (server_init (mn_connections c)) [])"
  have run: "(if ?recording \<and> ?rr \<noteq> 0 then Some (1, ?ev1 @ [MgrDestroy])
      else if ?src < 0 then Some (1, ?ev1 @ [ServerStart ?src, RecorderStop])
      else map_option (\<lambda>ev3. (0, ?ev1 @ [ServerStart ?src] @ ev3)) (serve_until_stopped e c env (?b \<and> ?brc = 0))) = Some (rc, ev)"
    using assms(1) unfolding start_and_serve_def Let_def Some option.case by (simp only: append_assoc append_Cons append_Nil)
  have none: "RecorderStart cfg r \<notin> set ?ev0" by simp
  have failed: "?recording \<and> ?rr \<noteq> 0"
  proof (rule ccontr)
    assume ok: "\<not> (?recording \<and> ?rr \<noteq> 0)"
    then have "RecorderStart cfg r \<notin> set ?ev1" using none assms(3) by (cases ?recording) auto
    then show False using run ok assms(2) serve_events [of e c env _ _ cfg r] by (auto split: if_splits)
  qed
  then have ev: "rc = 1" "ev = ?ev0 @ [RecorderStart rcfg ?rr, MgrDestroy]" using run by simp_all
  then have eq: "cfg = rcfg" "r = ?rr" using assms(2) none by auto
  have "live_calls nothing_alive ?ev0 = Some \<lparr>lv_mgr = True, lv_bridge = True, lv_server = False, lv_recorder = False\<rparr>"
    if "BridgeStart tcp ipc 0 \<in> set ?ev0" for tcp ipc
    using that starts_calls [of False 0 ?ev0 ?n ?b ?tcp ?ipc ?brc "mn_connections c" rcfg] by (cases ?b) simp_all
  then show ?thesis using ev eq by (intro exI [of _ ?ev0]) simp
qed

text \<open>when the recorder cannot be started after the bridge was, the program destroys the manager while
  the bridge's thread still uses it: the bridge is never shut down on this path.\<close>

theorem recorder_failure_frees_in_use:
  assumes "server_main e env answers = Some (rc, ev)" and "RecorderStart cfg r \<in> set ev" and "r \<noteq> 0"
    and "BridgeStart tcp ipc 0 \<in> set ev"
  shows "rc = 1 \<and> last ev = MgrDestroy \<and> BridgeShutdown \<notin> set ev \<and> live_calls nothing_alive ev = None"
proof -
  have "ev \<noteq> []" using assms(2) by auto
  then obtain c0 where run: "start_and_serve e (clamp_connections c0)
      (default_ipc (clamp_connections c0) (export_env (clamp_connections c0) env))
      (recorder_settings (export_env (clamp_connections c0) env) (clamp_connections c0)) = Some (rc, ev)"
    using server_main_runs [OF assms(1)] by blast
  from start_and_serve_failed [OF run assms(2,3)] obtain pre where
    ev: "rc = 1" "ev = pre @ [RecorderStart cfg r, MgrDestroy]" "BridgeShutdown \<notin> set pre"
    and live: "BridgeStart tcp ipc 0 \<in> set pre \<longrightarrow>
      live_calls nothing_alive pre = Some \<lparr>lv_mgr = True, lv_bridge = True, lv_server = False, lv_recorder = False\<rparr>" by blast
  have "BridgeStart tcp ipc 0 \<in> set pre" using assms(4) ev(2) by simp
  then show ?thesis using ev live by (simp add: live_calls_append)
qed

section \<open>Runs\<close>

definition ex_main :: "conv_state \<Rightarrow> rec_env \<Rightarrow> main_env" where
  "ex_main g re =
     \<lparr>me_daemon = 0,
      me_bridge = \<lparr>be_calloc = True, be_cache = True, be_thread = True, be_context = True, be_socket = True, be_bind = (\<lambda>_. True)\<rparr>,
      me_conv = g, me_rec = re, me_rec_thread = True, me_rec_state = no_recorder,
      me_start = \<lparr>st_socket = 3, st_pton_ok = True, st_bind_ok = True, st_listen_ok = True, st_thread_ok = True\<rparr>,
      me_time0 = 0, me_looks = [(True, True), (False, True)], me_times = [(100, 100)],
      me_clients_gone = (\<lambda>w. 100 \<le> w), me_late_signal = False\<rparr>"

definition ex_conv_start :: conv_state where
  "ex_conv_start = \<lparr>co_world = av_world_init, co_sws = \<lparr>sw_live = (\<lambda>_. None), sw_next = 0, sw_cached = None\<rparr>,
     co_stats = \<lparr>cs_bgr24_request_count = 0, cs_libyuv_bgr24_count = 0, cs_vuyx_bgr24_count = 0, cs_swscale_count = 0\<rparr>\<rparr>"

definition ex_rec_start :: rec_env where
  "ex_rec_start = \<lparr>re_mounts = [], re_mkdir = \<lambda>_. True,
     re_localtime = \<lambda>_. \<lparr>tm_year = 2026, tm_mon = 0, tm_mday = 1, tm_hour = 0, tm_min = 0, tm_sec = 0\<rparr>,
     re_fopen = \<lambda>_. True, re_fwrite = \<lambda>_ n. n, re_fclose = \<lambda>_. None, re_rename = \<lambda>_. True,
     re_unlink = \<lambda>_. True, re_param_ok = True, re_now = 0\<rparr>"


lemma exported_endpoints:
  "export_env c (\<lambda>_. None) ''ZMQ_BRIDGE_BIND'' = (if mn_zmq_bind c \<noteq> [] then Some (mn_zmq_bind c) else None)"
  "export_env c (\<lambda>_. None) ''ZMQ_BRIDGE_IPC_BIND'' = (if mn_zmq_ipc_bind c \<noteq> [] then Some (mn_zmq_ipc_bind c) else None)"
  unfolding export_env_def comp_apply by (simp add: setenv_if_other, simp add: setenv_if_def)+

lemma ex_recorder_env: "recorder_settings (\<lambda>_. None) c = (mn_recorder c)\<lparr>rc_max_streams := word_of_int (mn_runtime_max c)\<rparr>"
  by (simp add: recorder_settings_def Let_def env_nonempty_def)





text \<open>A directory too long for \<open>/raw\<close> behind it.\<close>

lemma ex_failing_recorder:
  "\<exists>ev cfg tcp ipc. server_main (ex_main g re) (\<lambda>_. None) [(1003, ''tcp://*:1''), (1015, replicate 508 CHR ''r'')] = Some (1, ev) \<and>
     RecorderStart cfg (- 1) \<in> set ev \<and> BridgeStart tcp ipc 0 \<in> set ev"
proof -
  let ?dir = "replicate 508 CHR ''r''"
  let ?d = "main_defaults (\<lambda>_. None)"
  let ?conf = "?d\<lparr>mn_zmq_bind := ''tcp://*:1'', mn_recorder := compressed_recorder_config_defaults\<lparr>rc_record_dir := ?dir\<rparr>\<rparr>"
  let ?c = "clamp_connections ?conf"
  let ?env = "default_ipc ?c (export_env ?c (\<lambda>_. None))"
  have opts: "server_opts [(1003, ''tcp://*:1''), (1015, ?dir)] ?d = Inr ?conf"
    by (simp add: apply_server_opt_def snprintf_s_def main_defaults_def)
  have c: "mn_runtime_max ?c = 20" "mn_recorder ?c = compressed_recorder_config_defaults\<lparr>rc_record_dir := ?dir\<rparr>"
    "mn_zmq_bind ?c = ''tcp://*:1''" "mn_zmq_ipc_bind ?c = []" "\<not> mn_daemon ?c"
    by (simp_all add: clamp_connections_def main_defaults_def Let_def parse_int_env_clamped_local_def DEFAULT_MAX_STREAMS_def)
  have tcp: "?env ''ZMQ_BRIDGE_BIND'' = Some ''tcp://*:1''"
    using c exported_endpoints(1) [of ?c] default_ipc_other [of "''ZMQ_BRIDGE_BIND''" ?c] by simp
  have ipc: "?env ''ZMQ_BRIDGE_IPC_BIND'' = Some kDefaultZmqBridgeIpcBind"
    using c exported_endpoints [of ?c] by (simp add: default_ipc_def setenv_if_def env_nonempty_def)
  let ?rcfg = "recorder_settings (export_env ?c (\<lambda>_. None)) ?c"
  have dir: "rc_record_dir ?rcfg = ?dir" unfolding recorder_settings_exported ex_recorder_env by (simp add: c)
  have bridge: "fst (zmq_bridge_start (me_bridge (ex_main g re)) False 20 (Some ''tcp://*:1'') (Some kDefaultZmqBridgeIpcBind) g' []) = 0" for g'
    by (simp add: ex_main_def zmq_bridge_start_def bridge_open_def has_bind_addr_def bridge_addr_def bind_router_endpoint_def Let_def)
  have rec: "fst (compressed_recorder_start (me_rec (ex_main g re)) (me_rec_thread (ex_main g re)) (Some ?rcfg) False
      (me_rec_state (ex_main g re))) = - 1"
    using dir by (simp add: compressed_recorder_start_def ex_main_def no_recorder_def Let_def)
  obtain mgr where mgr: "stream_manager_init 20 = Some mgr"
    by (simp add: stream_manager_init_def MAX_STREAMS_def word_less_def)
  have ne: "?dir \<noteq> []" by simp
  have "start_and_serve (ex_main g re) ?c ?env ?rcfg =
      Some (1, [MgrInit 20, BridgeStart (Some ''tcp://*:1'') (Some kDefaultZmqBridgeIpcBind) 0, ServerInit (mn_connections ?c),
        RecorderStart ?rcfg (- 1), MgrDestroy])"
    unfolding start_and_serve_def Let_def tcp ipc c rec dir
    using ne by (simp add: mgr bridge env_nonempty_def)
  then show ?thesis using c unfolding server_main_def opts Let_def
    by (intro exI [of _ "[MgrInit 20, BridgeStart (Some ''tcp://*:1'') (Some kDefaultZmqBridgeIpcBind) 0, ServerInit (mn_connections ?c),
        RecorderStart ?rcfg (- 1), MgrDestroy]"] exI [of _ ?rcfg] exI [of _ "Some ''tcp://*:1''"] exI [of _ "Some kDefaultZmqBridgeIpcBind"])
      simp
qed

theorem recorder_failure_frees_in_use_witness:
  "\<exists>ev. server_main (ex_main ex_conv_start ex_rec_start) (\<lambda>_. None) [(1003, ''tcp://*:1''), (1015, replicate 508 CHR ''r'')] = Some (1, ev) \<and>
     last ev = MgrDestroy \<and> BridgeShutdown \<notin> set ev"
proof -
  obtain ev cfg tcp ipc where ev: "server_main (ex_main ex_conv_start ex_rec_start) (\<lambda>_. None)
      [(1003, ''tcp://*:1''), (1015, replicate 508 CHR ''r'')] = Some (1, ev)"
    "RecorderStart cfg (- 1) \<in> set ev" "BridgeStart tcp ipc 0 \<in> set ev" using ex_failing_recorder by blast
  from recorder_failure_frees_in_use [OF ev(1,2) _ ev(3)] show ?thesis using ev(1) by auto
qed

end
