(* ===== verification/ServerPace.thy ===== *)
theory ServerPace
  imports ServerCtl
begin

text \<open>
  How often the server asks a worker for a keyframe. The locale \<open>request_gate\<close> is the contract
  of a limiter: it remembers the time of its last grant and grants again only after a gap.
  The one-second limiter of \<open>request_idr_for_stream\<close> and the backoff of the stall watchdog
  both meet it.
\<close>

section \<open>The contract of a limiter\<close>

locale request_gate =
  fixes gate :: "u64 \<Rightarrow> 's \<Rightarrow> bool \<times> 's"
    and last_grant :: "'s \<Rightarrow> u64"
    and gap :: nat
  assumes gate_grant: "gate now s = (True, s') \<Longrightarrow>
      last_grant s' = now \<and> (last_grant s = 0 \<or> gap \<le> unat (now - last_grant s))"
    and gate_refuse: "gate now s = (False, s') \<Longrightarrow> last_grant s' = last_grant s"
begin

text \<open>
  A run with its clock readings: at some of them the gate is asked, others serve another
  purpose, and in between the state may change in any way that keeps the time of the last
  grant. \<open>asked s rs gs t\<close>: from \<open>s\<close> to \<open>t\<close> with the readings \<open>rs\<close>, granted at the times \<open>gs\<close>.
\<close>

inductive asked :: "'s \<Rightarrow> u64 list \<Rightarrow> u64 list \<Rightarrow> 's \<Rightarrow> bool" where
  ended: "asked s [] [] s"
| change: "last_grant s' = last_grant s \<Longrightarrow> asked s' rs gs t \<Longrightarrow> asked s rs gs t"
| skip: "asked s rs gs t \<Longrightarrow> asked s (now # rs) gs t"
| ask: "gate now s = (granted, s') \<Longrightarrow> asked s' rs gs t \<Longrightarrow>
    asked s (now # rs) (if granted then now # gs else gs) t"

lemma asked_append: "asked s rs gs t \<Longrightarrow> asked t rs' gs' u \<Longrightarrow> asked s (rs @ rs') (gs @ gs') u"
proof (induction rule: asked.induct)
  case (ask now s granted s' rs gs t)
  then show ?case using asked.ask [OF ask.hyps(1) ask.IH [OF ask.prems]] by (auto split: if_splits)
qed (auto intro: asked.intros)

lemma asked_same: "last_grant t = last_grant s \<Longrightarrow> asked s [] [] t"
  by (rule asked.change [OF _ asked.ended])

text \<open>Successive grants are at least the gap apart, on a clock that does not go back.\<close>

definition spaced :: "u64 list \<Rightarrow> bool" where
  "spaced ts \<longleftrightarrow> sorted_wrt (\<lambda>a b. unat a + gap \<le> unat b) ts"

lemma asked_spaced:
  assumes "asked s rs gs t" and "sorted_wrt (\<le>) rs" and "\<forall>r \<in> set rs. 0 < r \<and> last_grant s \<le> r"
  shows "spaced gs \<and> set gs \<subseteq> set rs \<and>
    (last_grant s \<noteq> 0 \<longrightarrow> (\<forall>g \<in> set gs. unat (last_grant s) + gap \<le> unat g))"
  using assms
proof (induction rule: asked.induct)
  case (ask now s granted s' rs gs t)
  have now: "0 < now" "last_grant s \<le> now" "\<forall>r \<in> set rs. now \<le> r" "sorted_wrt (\<le>) rs"
    using ask.prems by auto
  show ?case
  proof (cases granted)
    case True
    then have l: "last_grant s' = now" "last_grant s = 0 \<or> gap \<le> unat (now - last_grant s)"
      using gate_grant [of now s s'] ask.hyps(1) by auto
    have "\<forall>r \<in> set rs. 0 < r \<and> last_grant s' \<le> r" using now l(1) by (auto intro: less_le_trans)
    from ask.IH [OF now(4) this] have ih: "spaced gs" "set gs \<subseteq> set rs" "\<forall>g \<in> set gs. unat now + gap \<le> unat g"
      using l(1) now(1) by auto
    have "last_grant s \<noteq> 0 \<Longrightarrow> unat (last_grant s) + gap \<le> unat now"
      using l(2) now(2) by (simp add: unat_sub word_le_nat_alt)
    then show ?thesis using True ih by (fastforce simp: spaced_def)
  next
    case False
    then have l: "last_grant s' = last_grant s" using gate_refuse [of now s s'] ask.hyps(1) by simp
    have "\<forall>r \<in> set rs. 0 < r \<and> last_grant s' \<le> r" using ask.prems(2) l by simp
    from ask.IH [OF now(4) this] show ?thesis using False l by auto
  qed
qed (auto simp: spaced_def)

lemma one_in_gap:
  assumes "spaced gs" and "\<forall>g \<in> set gs. T \<le> unat g \<and> unat g < T + gap"
  shows "length gs \<le> 1"
proof (rule ccontr)
  assume "\<not> length gs \<le> 1"
  then obtain a b gs' where gs: "gs = a # b # gs'" by (cases gs rule: remdups_adj.cases) auto
  then have "unat a + gap \<le> unat b" using assms(1) by (simp add: spaced_def)
  then show False using assms(2) gs by auto
qed

end

section \<open>The limiters of the server\<close>

interpretation one_second: request_gate idr_gate st_last_idr_request_ns 1000000000
  by unfold_locales
    (auto simp: idr_gate_def request_interval_ns_def word_le_nat_alt split: if_splits)

lemma backoff_at_least: "2000000000 \<le> unat (backoff_ns s)"
  by (simp add: backoff_ns_def)

interpretation stall: request_gate maybe_request_idr_for_decode_stall st_decode_stall_last_idr_ns 2000000000
proof
  fix now s s'
  show "maybe_request_idr_for_decode_stall now s = (True, s') \<Longrightarrow>
      st_decode_stall_last_idr_ns s' = now \<and>
      (st_decode_stall_last_idr_ns s = 0 \<or> 2000000000 \<le> unat (now - st_decode_stall_last_idr_ns s))"
    using backoff_at_least [of s]
    by (auto simp: maybe_request_idr_for_decode_stall_def Let_def word_le_nat_alt split: if_splits)
  show "maybe_request_idr_for_decode_stall now s = (False, s') \<Longrightarrow>
      st_decode_stall_last_idr_ns s' = st_decode_stall_last_idr_ns s"
    by (auto simp: maybe_request_idr_for_decode_stall_def Let_def watch_def split: if_splits)
qed

section \<open>The watchdogs of a stream\<close>

text \<open>
  What happens to one slot over a run of video packets: a change of the slot (counting the
  packet, decoding it), then the watchdogs with their clock readings.
\<close>

type_synonym watched = "(nat \<Rightarrow> ctrl_env) \<times> (nat \<Rightarrow> u64) \<times> (StreamContext \<Rightarrow> StreamContext)"

fun watch_run :: "c_env \<Rightarrow> ctrl_map \<Rightarrow> watched list \<Rightarrow> StreamContext \<Rightarrow> StreamContext \<times> datagram list" where
  "watch_run env m [] s = (s, [])"
| "watch_run env m ((e, clock, f) # ps) s =
     (case watchdogs env m e clock (f s) of (s1, ds) \<Rightarrow>
      case watch_run env m ps s1 of (s2, ds2) \<Rightarrow> (s2, ds @ ds2))"

definition readings :: "watched list \<Rightarrow> u64 list" where
  "readings ps = concat (map (\<lambda>(e, clock, f). map clock [0..<6]) ps)"

definition steady :: "watched list \<Rightarrow> bool" where
  "steady ps \<longleftrightarrow> list_all (\<lambda>(e, clock, f). \<forall>s. st_last_idr_request_ns (f s) = st_last_idr_request_ns s) ps"

lemma best_effort_at_most_one: "length (snd (request_idr_best_effort_main_path env m e now sid)) \<le> 1"
  by (simp add: request_idr_best_effort_main_path_def send_req_idr_to_endpoint_def)

lemma request_asked:
  assumes "request_idr_for_stream env m e now seq s = (s', ds)"
  obtains gs where "one_second.asked s [now, seq] gs s'" "length ds \<le> length gs"
proof -
  obtain granted s1 where g: "idr_gate now s = (granted, s1)" by fastforce
  have a: "one_second.asked s [now, seq] (if granted then [now] else []) s1"
    by (intro one_second.ask [OF g] one_second.skip one_second.ended)
  have "s' = s1" "length ds \<le> length (if granted then [now] else [])"
    using assms g best_effort_at_most_one [of env m e seq] by (auto simp: request_idr_for_stream_def)
  then show ?thesis using that a by blast
qed

lemma stall_keeps_idr:
  "maybe_request_idr_for_decode_stall now s = (b, s') \<Longrightarrow> st_last_idr_request_ns s' = st_last_idr_request_ns s"
  by (auto simp: maybe_request_idr_for_decode_stall_def Let_def watch_def split: if_splits)

lemma two_skipped: "one_second.asked s [a, b] [] s"
  by (intro one_second.skip one_second.ended)

lemma perhaps_asked:
  assumes "(if c then request_idr_for_stream env m e now seq s else (s, [])) = (s', ds)"
  obtains gs where "one_second.asked s [now, seq] gs s'" "length ds \<le> length gs"
proof (cases c)
  case True
  then show ?thesis using assms request_asked [of env m e now seq s s' ds] that by auto
next
  case False
  then show ?thesis using assms two_skipped [of s now seq] that by auto
qed

lemma watchdogs_asked:
  assumes "watchdogs env m e clock s = (s', ds)"
  obtains gs where "one_second.asked s (map clock [0..<6]) gs s'" "length ds \<le> length gs"
proof -
  obtain s1 d1 where 1: "(if maybe_request_idr_for_no_decode (clock 0) s
      then request_idr_for_stream env m (e 0) (clock 1) (clock 2) s else (s, [])) = (s1, d1)" by fastforce
  obtain b s2 where 2: "maybe_request_idr_for_decode_stall (clock 3) s1 = (b, s2)" by fastforce
  obtain s3 d2 where 3: "(if b then request_idr_for_stream env m (e 1) (clock 4) (clock 5) s2 else (s2, [])) = (s3, d2)"
    by fastforce
  have out: "s' = s3" "ds = d1 @ d2" using assms 1 2 3 by (simp_all add: watchdogs_def)
  obtain g1 where g1: "one_second.asked s [clock 1, clock 2] g1 s1" "length d1 \<le> length g1"
    using perhaps_asked [OF 1] .
  obtain g2 where g2: "one_second.asked s2 [clock 4, clock 5] g2 s3" "length d2 \<le> length g2"
    using perhaps_asked [OF 3] .
  have "one_second.asked s1 [clock 3, clock 4, clock 5] g2 s3"
    by (rule one_second.change [OF stall_keeps_idr [OF 2] one_second.skip [OF g2(1)]])
  from one_second.asked_append [OF g1(1) this]
  have "one_second.asked s [clock 0, clock 1, clock 2, clock 3, clock 4, clock 5] (g1 @ g2) s3"
    by (auto intro: one_second.skip)
  moreover have "map clock [0..<6] = [clock 0, clock 1, clock 2, clock 3, clock 4, clock 5]"
    by (simp add: upt_rec numeral_nat)
  ultimately show ?thesis using that [of "g1 @ g2"] out g1(2) g2(2) by simp
qed

lemma watch_run_asked:
  assumes "watch_run env m ps s = (s', ds)" and "steady ps"
  shows "\<exists>gs. one_second.asked s (readings ps) gs s' \<and> length ds \<le> length gs"
  using assms
proof (induction ps arbitrary: s ds)
  case Nil
  then show ?case using one_second.ended by (auto simp: readings_def)
next
  case (Cons p ps)
  obtain e clock f where p: "p = (e, clock, f)" by (metis prod_cases3)
  obtain s1 d1 where w: "watchdogs env m e clock (f s) = (s1, d1)" by fastforce
  obtain d2 where r: "watch_run env m ps s1 = (s', d2)" "ds = d1 @ d2"
    using Cons.prems(1) p w by (auto split: prod.splits)
  obtain g1 where g1: "one_second.asked (f s) (map clock [0..<6]) g1 s1" "length d1 \<le> length g1"
    using watchdogs_asked [OF w] .
  have f: "st_last_idr_request_ns (f s) = st_last_idr_request_ns s" "steady ps"
    using Cons.prems(2) p by (simp_all add: steady_def)
  obtain g2 where g2: "one_second.asked s1 (readings ps) g2 s'" "length d2 \<le> length g2"
    using Cons.IH [OF r(1) f(2)] by blast
  have "one_second.asked s (map clock [0..<6] @ readings ps) (g1 @ g2) s'"
    by (rule one_second.change [OF f(1)], rule one_second.asked_append [OF g1(1) g2(1)])
  then show ?case using p r(2) g1(2) g2(2) by (intro exI [of _ "g1 @ g2"]) (simp add: readings_def)
qed

text \<open>C36: the server asks a worker for a keyframe at most once a second: over any run of video
  packets of a stream whose clock readings lie within one second, the two watchdogs together
  send one request datagram at most, whatever the packets do to the slot between them.\<close>

theorem one_request_a_second:
  assumes "watch_run env m ps s = (s', ds)" and "steady ps" and "sorted_wrt (\<le>) (readings ps)"
    and "\<forall>t \<in> set (readings ps). 0 < t \<and> st_last_idr_request_ns s \<le> t \<and>
           T \<le> unat t \<and> unat t < T + 1000000000"
  shows "length ds \<le> 1"
proof -
  obtain gs where gs: "one_second.asked s (readings ps) gs s'" "length ds \<le> length gs"
    using watch_run_asked [OF assms(1,2)] by blast
  have sp: "one_second.spaced gs \<and> set gs \<subseteq> set (readings ps)"
    using one_second.asked_spaced [OF gs(1) assms(3)] assms(4) by blast
  then have "length gs \<le> 1" using assms(4) by (intro one_second.one_in_gap [of gs T]) auto
  then show ?thesis using gs(2) by simp
qed

text \<open>A stream without a decoded frame, two packets, and a worker whose endpoint is known.\<close>

definition ex_waiting :: StreamContext where
  "ex_waiting = zero_stream_ctx\<lparr>st_stream_id := 1, st_state := STREAM_STATE_ACTIVE,
     st_decoder_initialized := True, st_frames_received := 40\<rparr>"

definition ex_ctrl_map :: ctrl_map where
  "ex_ctrl_map = empty_ctrl_map(1 := \<lparr>we_valid = True, we_ip = ''10.0.0.1'', we_port = 30001\<rparr>)"

definition ex_two_packets :: "watched list" where
  "ex_two_packets = replicate 2 (\<lambda>_. \<lparr>ce_socket_ok = True, ce_pton = (\<lambda>_. True), ce_sent = 36\<rparr>, \<lambda>_. 5000000000, \<lambda>s. s)"

lemma ex_request:
  "maybe_request_idr_for_no_decode 5000000000 ex_waiting"
  "snd (request_idr_for_stream (\<lambda>_. None) ex_ctrl_map \<lparr>ce_socket_ok = True, ce_pton = (\<lambda>_. True), ce_sent = 36\<rparr>
     5000000000 5000000000 ex_waiting) = [(''10.0.0.1'', 30001, req_idr_bytes 5000000000)]"
  by (simp_all add: maybe_request_idr_for_no_decode_def ex_waiting_def zero_stream_ctx_def zero_decode_stats_def
      request_idr_for_stream_def idr_gate_def request_idr_best_effort_main_path_def
      server_runtime_max_streams_def DEFAULT_MAX_STREAMS_def send_req_idr_to_endpoint_def ex_ctrl_map_def)

lemma ex_watch_run: "snd (watch_run (\<lambda>_. None) ex_ctrl_map ex_two_packets ex_waiting) \<noteq> []"
  using ex_request by (auto simp: ex_two_packets_def numeral_2_eq_2 watchdogs_def split: prod.splits)

theorem one_request_a_second_witness:
  "length (snd (watch_run (\<lambda>_. None) ex_ctrl_map ex_two_packets ex_waiting)) = 1"
proof -
  obtain s' ds where run: "watch_run (\<lambda>_. None) ex_ctrl_map ex_two_packets ex_waiting = (s', ds)" by fastforce
  have r: "readings ex_two_packets = replicate 6 5000000000 @ replicate 6 5000000000"
    by (simp add: readings_def ex_two_packets_def numeral_2_eq_2 map_replicate_const)
  have "steady ex_two_packets" by (simp add: steady_def ex_two_packets_def list_all_iff)
  moreover have "sorted_wrt (\<le>) (readings ex_two_packets)" 
    by (auto simp: r sorted_wrt_append)
  moreover have "\<forall>t \<in> set (readings ex_two_packets). 0 < t \<and> st_last_idr_request_ns ex_waiting \<le> t \<and>
      5000000000 \<le> unat t \<and> unat t < 5000000000 + 1000000000"
    by (auto simp: r ex_waiting_def zero_stream_ctx_def)
  ultimately have "length ds \<le> 1" by (rule one_request_a_second [OF run])
  moreover have "ds \<noteq> []" using ex_watch_run run by simp
  ultimately show ?thesis using run by (cases ds) auto
qed

end
