(* ===== verification/ServerIngest.thy ===== *)
theory ServerIngest
  imports Server
begin

text \<open>
  What a client's bytes do to the server: the loop of the client thread hands every frame of
  the wire to the packet handler, and on what is visible of a stream (its state, its announced
  format, its counters) the handler acts like a small specification.
\<close>

section \<open>The specification\<close>

record account =
  ac_state :: StreamState
  ac_info :: StreamInfo
  ac_info_received :: bool
  ac_frames :: u64
  ac_packets :: u64
  ac_bytes :: u64

definition account_of :: "StreamContext \<Rightarrow> account" where
  "account_of s = \<lparr>ac_state = st_state s, ac_info = st_info s, ac_info_received = st_info_received s,
     ac_frames = st_frames_received s, ac_packets = st_packets_received s, ac_bytes = st_bytes_received s\<rparr>"

definition frame_size :: "u8 list \<Rightarrow> u64" where
  "frame_size p = of_nat (TCP_HEADER_SIZE + length p)"

definition account_step :: "wire_frame \<Rightarrow> account \<Rightarrow> account" where
  "account_step f a = (case f of (sid, t, p) \<Rightarrow>
     if t = TCP_MSG_TYPE_STREAM_START then
       (case protocol_parse_stream_info (Some p) (length p) of None \<Rightarrow> a
        | Some info \<Rightarrow> a\<lparr>ac_state := STREAM_STATE_ACTIVE, ac_info := info, ac_info_received := True\<rparr>)
     else if t = TCP_MSG_TYPE_VIDEO_DATA then
       a\<lparr>ac_frames := ac_frames a + 1, ac_packets := ac_packets a + 1, ac_bytes := ac_bytes a + frame_size p\<rparr>
     else if t = TCP_MSG_TYPE_STREAM_STOP then a\<lparr>ac_state := STREAM_STATE_IDLE\<rparr>
     else a\<lparr>ac_packets := ac_packets a + 1, ac_bytes := ac_bytes a + frame_size p\<rparr>)"

text \<open>What the recorder is handed.\<close>

definition record_frame :: "packet_env \<Rightarrow> wire_frame \<Rightarrow> rec_state \<Rightarrow> rec_state" where
  "record_frame e f r = (case f of (sid, t, p) \<Rightarrow>
     if t = TCP_MSG_TYPE_STREAM_START then
       compressed_recorder_on_stream_start (pk_rec_alloc e) (pk_rec_wall e) (pk_rec_mono e) sid
         (protocol_parse_stream_info (Some p) (length p)) r
     else if t = TCP_MSG_TYPE_VIDEO_DATA then
       compressed_recorder_on_video (pk_rec_alloc e) (pk_rec_wall e) (pk_rec_mono e) sid (Some p) r
     else if t = TCP_MSG_TYPE_STREAM_STOP then
       compressed_recorder_on_stream_stop (pk_rec_alloc e) (pk_rec_wall e) (pk_rec_mono e) sid r
     else r)"

section \<open>Steps that a viewer of the stream does not see\<close>

named_theorems unseen

lemma account_of_simps [simp]:
  "account_of (s\<lparr>st_last_idr_request_ns := x\<rparr>) = account_of s"
  "account_of (s\<lparr>st_decode_stall_last_idr_ns := x\<rparr>) = account_of s"
  "account_of (s\<lparr>st_decode_stall_count := n\<rparr>) = account_of s"
  "account_of (s\<lparr>st_decoder_ctx := d\<rparr>) = account_of s"
  "account_of (s\<lparr>st_decoder_initialized := b\<rparr>) = account_of s"
  "account_of (s\<lparr>st_decode_stats := ds\<rparr>) = account_of s"
  "account_of (s\<lparr>st_last_frame := f\<rparr>) = account_of s"
  "account_of (s\<lparr>st_watchdog_last_received := x\<rparr>) = account_of s"
  "account_of (s\<lparr>st_watchdog_last_decoded := x\<rparr>) = account_of s"
  "account_of (s\<lparr>st_watchdog_last_decoded_change_ns := x\<rparr>) = account_of s"
  by (simp_all add: account_of_def)

lemma unseen_init [unseen]: "stream_init_decoder env es now b s w = (rc, s', w') \<Longrightarrow> account_of s' = account_of s"
  by (auto simp: stream_init_decoder_def Let_def split: if_splits prod.splits option.splits)

lemma unseen_close [unseen]: "stream_close_decoder s w = (s', w') \<Longrightarrow> account_of s' = account_of s"
  by (auto simp: stream_close_decoder_def Let_def)

lemma unseen_request [unseen]: "request_idr_for_stream env m e now seq s = (s', ds) \<Longrightarrow> account_of s' = account_of s"
  by (auto simp: request_idr_for_stream_def idr_gate_def split: if_splits prod.splits)

lemma unseen_stall [unseen]: "maybe_request_idr_for_decode_stall now s = (b, s') \<Longrightarrow> account_of s' = account_of s"
  by (auto simp: maybe_request_idr_for_decode_stall_def Let_def watch_def split: if_splits)

lemma unseen_watchdogs [unseen]: "watchdogs env m e clock s = (s', ds) \<Longrightarrow> account_of s' = account_of s"
  by (auto simp: watchdogs_def split: if_splits prod.splits dest!: unseen_request unseen_stall)

lemma unseen_decode [unseen]:
  "stream_decode_video ans now data s w = Some (rc, s', w') \<Longrightarrow> account_of s' = account_of s"
  by (auto simp: stream_decode_video_def Let_def split: if_splits option.splits)

lemma account_of_set_state [simp]:
  "account_of (stream_set_state now st s) = (account_of s)\<lparr>ac_state := st\<rparr>"
  by (simp add: stream_set_state_def account_of_def Let_def)

lemma account_of_set_info [simp]:
  "account_of (stream_set_info info s) = (account_of s)\<lparr>ac_info := info, ac_info_received := True\<rparr>"
  by (simp add: stream_set_info_def account_of_def)

lemma account_of_update_stats [simp]:
  "account_of (stream_update_stats now n b s) = (let a = account_of s;
     a1 = a\<lparr>ac_packets := ac_packets a + 1, ac_bytes := ac_bytes a + ucast n\<rparr>
     in if b then a1\<lparr>ac_frames := ac_frames a1 + 1\<rparr> else a1)"
  by (simp add: stream_update_stats_def account_of_def Let_def)

section \<open>One frame\<close>

lemmas msg_types = TCP_MSG_TYPE_VIDEO_DATA_def TCP_MSG_TYPE_HEARTBEAT_def TCP_MSG_TYPE_STREAM_START_def
  TCP_MSG_TYPE_STREAM_STOP_def

text \<open>
  A server without the stress test and without a tap port; both are chosen by the process
  environment. \<open>decodes\<close>: FFmpeg answers often enough for the decode call to return.
\<close>

definition plain_env :: "packet_env \<Rightarrow> bool" where
  "plain_env e \<longleftrightarrow> pk_env e ''STRESS_TEST'' = None \<and> pk_env e ''H264_TAP_PORT'' = None"

definition decodes :: "packet_env \<Rightarrow> u8 list \<Rightarrow> bool" where
  "decodes e p \<longleftrightarrow> (\<forall>ctx w. decoder_decode (pk_parse e) p ctx w \<noteq> None)"

definition frame_hdr :: "wire_frame \<Rightarrow> PacketHeader" where
  "frame_hdr f = (case f of (sid, t, p) \<Rightarrow>
     \<lparr>ph_length = of_nat (TCP_HEADER_SIZE + length p), ph_type = t, ph_stream_id = sid\<rparr>)"

definition frame_payload :: "wire_frame \<Rightarrow> u8 list option" where
  "frame_payload f = (case f of (sid, t, p) \<Rightarrow> if p = [] then None else Some p)"

definition server_frame_ok :: "wire_frame \<Rightarrow> bool" where
  "server_frame_ok f = (case f of (sid, t, p) \<Rightarrow> 1 \<le> unat sid \<and> unat sid \<le> MAX_STREAMS \<and>
     1 \<le> unat t \<and> unat t \<le> 4 \<and> TCP_HEADER_SIZE + length p \<le> TCP_MAX_PACKET_SIZE)"

lemma frame_length:
  assumes "server_frame_ok (sid, t, p)"
  shows "unat (ph_length (frame_hdr (sid, t, p))) = TCP_HEADER_SIZE + length p"
    "unat (ph_length (frame_hdr (sid, t, p)) - of_nat TCP_HEADER_SIZE) = length p"
    "ucast (ph_length (frame_hdr (sid, t, p))) = frame_size p"
    "ph_length (frame_hdr (sid, t, p)) > of_nat TCP_HEADER_SIZE \<longleftrightarrow> p \<noteq> []"
    "ph_length (frame_hdr (sid, t, p)) < of_nat TCP_HEADER_SIZE + 16 \<longleftrightarrow> length p < 16"
    "ph_type (frame_hdr (sid, t, p)) = t" "ph_stream_id (frame_hdr (sid, t, p)) = sid"
    "header_ok (frame_hdr (sid, t, p))"
proof -
  have len: "TCP_HEADER_SIZE + length p \<le> TCP_MAX_PACKET_SIZE" using assms by (simp add: server_frame_ok_def)
  note F = frame_header [OF len]
  show l: "unat (ph_length (frame_hdr (sid, t, p))) = TCP_HEADER_SIZE + length p"
    using F(2) by (simp add: frame_hdr_def)
  show "unat (ph_length (frame_hdr (sid, t, p)) - of_nat TCP_HEADER_SIZE) = length p"
    using F(3) by (simp add: frame_hdr_def)
  show "ucast (ph_length (frame_hdr (sid, t, p))) = frame_size p"
  proof -
    have "ucast (ph_length (frame_hdr (sid, t, p))) = (of_nat (unat (ph_length (frame_hdr (sid, t, p)))) :: u64)"
      by simp
    then show ?thesis unfolding l frame_size_def .
  qed
  show "ph_length (frame_hdr (sid, t, p)) > of_nat TCP_HEADER_SIZE \<longleftrightarrow> p \<noteq> []"
    using l by (simp add: word_less_nat_alt TCP_HEADER_SIZE_def)
  show "ph_length (frame_hdr (sid, t, p)) < of_nat TCP_HEADER_SIZE + 16 \<longleftrightarrow> length p < 16"
    using l by (simp add: word_less_nat_alt TCP_HEADER_SIZE_def)
  show "ph_type (frame_hdr (sid, t, p)) = t" "ph_stream_id (frame_hdr (sid, t, p)) = sid"
    by (simp_all add: frame_hdr_def)
  show "header_ok (frame_hdr (sid, t, p))"
    using assms l by (simp add: server_frame_ok_def header_ok_def frame_hdr_def TCP_HEADER_SIZE_def)
qed

text \<open>From \<open>v\<close> to \<open>v'\<close> the server served the frame \<open>f\<close>, whatever the decoders did.\<close>

definition addressed :: "server_state \<Rightarrow> wire_frame \<Rightarrow> bool" where
  "addressed v f \<longleftrightarrow> stream_manager_get (ss_mgr v) (fst f) \<noteq> None"

definition served :: "packet_env \<Rightarrow> wire_frame \<Rightarrow> server_state \<Rightarrow> server_state \<Rightarrow> bool" where
  "served e f v v' \<longleftrightarrow>
     sm_max_streams (ss_mgr v') = sm_max_streams (ss_mgr v) \<and> \<not> g_h264_tap_started v' \<and>
     (\<forall>i. account_of (slot v' i) =
        (if stream_manager_get (ss_mgr v) (fst f) = Some i then account_step f (account_of (slot v i))
         else account_of (slot v i))) \<and>
     ss_rec v' = (if addressed v f then record_frame e f (ss_rec v) else ss_rec v) \<and>
     sv_total_packets (ss_server v') = sv_total_packets (ss_server v) + (if addressed v f then 1 else 0) \<and>
     sv_total_bytes (ss_server v') = sv_total_bytes (ss_server v) +
       (if addressed v f then frame_size (snd (snd f)) else 0)"

lemma slot_simps [simp]:
  "slot (set_slot i s v) j = (if j = i then s else slot v j)"
  "slot (v\<lparr>ss_world := w\<rparr>) j = slot v j" "slot (v\<lparr>ss_requests := ds\<rparr>) j = slot v j"
  "slot (v\<lparr>ss_rec := r\<rparr>) j = slot v j" "slot (count_packet h v) j = slot v j"
  by (simp_all add: slot_def set_slot_def put_stream_def count_packet_def)

lemma set_slot_simps [simp]:
  "sm_max_streams (ss_mgr (set_slot i s v)) = sm_max_streams (ss_mgr v)"
  "ss_server (set_slot i s v) = ss_server v" "ss_rec (set_slot i s v) = ss_rec v"
  "ss_world (set_slot i s v) = ss_world v" "ss_requests (set_slot i s v) = ss_requests v"
  "g_h264_tap_started (set_slot i s v) = g_h264_tap_started v"
  "g_stress_test_enabled (set_slot i s v) = g_stress_test_enabled v"
  by (simp_all add: set_slot_def put_stream_def)

lemma count_packet_simps [simp]:
  "ss_mgr (count_packet h v) = ss_mgr v" "ss_rec (count_packet h v) = ss_rec v"
  "g_h264_tap_started (count_packet h v) = g_h264_tap_started v"
  "sv_total_packets (ss_server (count_packet h v)) = sv_total_packets (ss_server v) + 1"
  "sv_total_bytes (ss_server (count_packet h v)) = sv_total_bytes (ss_server v) + ucast (ph_length h)"
  by (simp_all add: count_packet_def)

text \<open>The branches of the handler, before the packet is counted.\<close>

definition acted :: "packet_env \<Rightarrow> wire_frame \<Rightarrow> nat \<Rightarrow> server_state \<Rightarrow> server_state \<Rightarrow> bool" where
  "acted e f i v v' \<longleftrightarrow>
     sm_max_streams (ss_mgr v') = sm_max_streams (ss_mgr v) \<and> \<not> g_h264_tap_started v' \<and>
     (\<forall>j. account_of (slot v' j) =
        (if j = i then account_step f (account_of (slot v j)) else account_of (slot v j))) \<and>
     ss_rec v' = record_frame e f (ss_rec v) \<and> ss_server v' = ss_server v"

lemma parse_info_none: "protocol_parse_stream_info (Some p) n = None \<longleftrightarrow> n < 16"
  by (simp add: protocol_parse_stream_info_def Let_def)

lemma start_acted:
  assumes "plain_env e" and "\<not> g_h264_tap_started v" and "server_frame_ok (sid, t, p)"
    and "t = TCP_MSG_TYPE_STREAM_START"
  shows "\<exists>v'. handle_stream_start e i (frame_hdr (sid, t, p)) (frame_payload (sid, t, p)) v = Some v' \<and>
    acted e (sid, t, p) i v v'"
proof (cases "length p < 16")
  case True
  then have "protocol_parse_stream_info (Some p) (length p) = None"
    by (simp add: parse_info_none)
  then show ?thesis using True assms
    by (simp add: handle_stream_start_def frame_length acted_def account_step_def record_frame_def
        compressed_recorder_on_stream_start_def)
next
  case False
  then obtain info where info: "protocol_parse_stream_info (Some p) (length p) = Some info"
    using parse_info_none [of p "length p"] by (cases "protocol_parse_stream_info (Some p) (length p)") simp_all
  have p: "frame_payload (sid, t, p) = Some p" using False by (auto simp: frame_payload_def)
  let ?s1 = "stream_set_state (pk_time e) STREAM_STATE_ACTIVE (stream_set_info info (slot v i))"
  let ?s2 = "?s1\<lparr>st_last_idr_request_ns := 0, st_watchdog_last_received := 0, st_watchdog_last_decoded := 0,
    st_watchdog_last_decoded_change_ns := pk_clock e 0, st_decode_stall_last_idr_ns := 0, st_decode_stall_count := 0\<rparr>"
  obtain rc s3 w where i: "stream_init_decoder (pk_env e) (pk_av e) (pk_time e) (get_decode_backend (pk_env e))
      ?s2 (ss_world v) = (rc, s3, w)" by (metis prod_cases3)
  obtain s4 ds where r: "request_idr_for_stream (pk_env e) (pk_map e) (pk_ctrl e 0) (pk_clock e 1) (pk_clock e 2) s3 =
      (s4, ds)" by fastforce
  have "account_of s4 = account_step (sid, t, p) (account_of (slot v i))"
    using unseen_init [OF i] unseen_request [OF r] assms(4) info by (simp add: account_step_def)
  then show ?thesis
    using False info p assms i r
    by (simp add: handle_stream_start_def frame_length Let_def maybe_start_stress_def plain_env_def
        acted_def record_frame_def)
qed

lemma stop_acted:
  assumes "\<not> g_h264_tap_started v" and "t = TCP_MSG_TYPE_STREAM_STOP"
  shows "acted e (sid, t, p) i v (handle_stream_stop e i (frame_hdr (sid, t, p)) v)"
proof -
  obtain s w where c: "stream_close_decoder (slot v i) (ss_world v) = (s, w)" by fastforce
  show ?thesis using c unseen_close [OF c] assms
    by (simp add: handle_stream_stop_def acted_def account_step_def record_frame_def frame_hdr_def msg_types)
qed

lemma heartbeat_acted:
  assumes "\<not> g_h264_tap_started v" and "server_frame_ok (sid, t, p)" and "t = TCP_MSG_TYPE_HEARTBEAT"
  shows "acted e (sid, t, p) i v
    (set_slot i (stream_update_stats (pk_time e) (ph_length (frame_hdr (sid, t, p))) False (slot v i)) v)"
  using assms by (simp add: acted_def account_step_def record_frame_def frame_length Let_def msg_types)

lemma decode_video_returns:
  assumes "decodes e p"
  shows "stream_decode_video (pk_parse e) now p s w \<noteq> None"
proof (cases "st_decoder_ctx s")
  case (Some ctx)
  have "decoder_decode (pk_parse e) p ctx w \<noteq> None" using assms by (simp add: decodes_def del: not_None_eq)
  then obtain r where "decoder_decode (pk_parse e) p ctx w = Some r" by (elim not_None_eq [THEN iffD1, THEN exE])
  then show ?thesis using Some by (auto simp: stream_decode_video_def Let_def split: prod.splits)
qed (simp add: stream_decode_video_def)

text \<open>The tail of the video branch: decoding, the watchdogs, the copies of the stress test.\<close>

lemma video_acted:
  assumes "plain_env e" and "\<not> g_h264_tap_started v" and "server_frame_ok (sid, t, p)"
    and "t = TCP_MSG_TYPE_VIDEO_DATA" and "p \<noteq> [] \<Longrightarrow> decodes e p"
  shows "\<exists>v'. handle_video e i (frame_hdr (sid, t, p)) (frame_payload (sid, t, p)) v = Some v' \<and>
    acted e (sid, t, p) i v v'"
proof (cases "p = []")
  case True
  then show ?thesis using assms
    by (simp add: handle_video_def frame_payload_def frame_length Let_def acted_def account_step_def record_frame_def
        compressed_recorder_on_video_def msg_types)
next
  case False
  let ?s0 = "stream_update_stats (pk_time e) (ph_length (frame_hdr (sid, t, p))) True (slot v i)"
  let ?v1 = "set_slot i ?s0 v"
  have pub: "publish_to_tap e sid p ?v1 = Some ?v1"
    using assms(1,2) by (simp add: publish_to_tap_def maybe_start_h264_tap_def plain_env_def Let_def)
  have "stream_decode_video (pk_parse e) (pk_time e) p ?s0 (ss_world v) \<noteq> None"
    using decode_video_returns [OF assms(5) [OF False]] .
  then obtain ret s w where d: "stream_decode_video (pk_parse e) (pk_time e) p ?s0 (ss_world v) = Some (ret, s, w)"
    by auto
  obtain s1 ds where wd: "watchdogs (pk_env e) (pk_map e) (pk_ctrl e) (pk_clock e) s = (s1, ds)" by fastforce
  have "account_of s1 = account_step (sid, t, p) (account_of (slot v i))"
    using unseen_watchdogs [OF wd] unseen_decode [OF d] assms(3,4)
    by (simp add: account_step_def frame_length Let_def msg_types)
  moreover have "sm_max_streams (snd (stream_stress_test_decode r x y m)) = sm_max_streams m"
    "sm_streams (snd (stream_stress_test_decode r x y m)) = sm_streams m" for r x y m
    by (simp_all add: stream_stress_test_decode_def Let_def set_stress_def)
  ultimately show ?thesis
    using False pub d wd assms
    by (simp add: handle_video_def frame_payload_def frame_length Let_def acted_def record_frame_def slot_def
        set_slot_def put_stream_def msg_types)
qed

lemma handle_frame:
  assumes "plain_env e" and "\<not> g_h264_tap_started v" and ok: "server_frame_ok (sid, t, p)"
    and "t = TCP_MSG_TYPE_VIDEO_DATA \<Longrightarrow> p \<noteq> [] \<Longrightarrow> decodes e p"
  shows "\<exists>v'. handle_packet e (frame_hdr (sid, t, p)) (frame_payload (sid, t, p)) v = Some v' \<and>
    served e (sid, t, p) v v'"
proof (cases "stream_manager_get (ss_mgr v) sid")
  case None
  then show ?thesis using assms(2) ok
    by (simp add: handle_packet_def frame_length served_def addressed_def)
next
  case (Some i)
  let ?r = "if t = TCP_MSG_TYPE_STREAM_START then handle_stream_start e i (frame_hdr (sid, t, p)) (frame_payload (sid, t, p)) v
       else if t = TCP_MSG_TYPE_VIDEO_DATA then handle_video e i (frame_hdr (sid, t, p)) (frame_payload (sid, t, p)) v
       else if t = TCP_MSG_TYPE_STREAM_STOP then Some (handle_stream_stop e i (frame_hdr (sid, t, p)) v)
       else if t = TCP_MSG_TYPE_HEARTBEAT then
         Some (set_slot i (stream_update_stats (pk_time e) (ph_length (frame_hdr (sid, t, p))) False (slot v i)) v)
       else Some v"
  have "t = TCP_MSG_TYPE_STREAM_START \<or> t = TCP_MSG_TYPE_VIDEO_DATA \<or> t = TCP_MSG_TYPE_STREAM_STOP \<or>
      t = TCP_MSG_TYPE_HEARTBEAT"
  proof -
    have "unat t = 1 \<or> unat t = 2 \<or> unat t = 3 \<or> unat t = 4" using ok by (auto simp: server_frame_ok_def)
    then show ?thesis by (auto simp: msg_types word_unat_eq_iff)
  qed
  then have "\<exists>v'. ?r = Some v' \<and> acted e (sid, t, p) i v v'"
  proof (elim disjE)
    assume t: "t = TCP_MSG_TYPE_STREAM_START"
    then show ?thesis using start_acted [OF assms(1,2) ok t] by simp
  next
    assume t: "t = TCP_MSG_TYPE_VIDEO_DATA"
    then show ?thesis using video_acted [OF assms(1,2) ok t assms(4) [OF t]] by (simp add: msg_types)
  next
    assume t: "t = TCP_MSG_TYPE_STREAM_STOP"
    then show ?thesis using stop_acted [OF assms(2) t] by (simp add: msg_types)
  next
    assume t: "t = TCP_MSG_TYPE_HEARTBEAT"
    then show ?thesis using heartbeat_acted [OF assms(2) ok t] by (simp add: msg_types)
  qed
  then obtain v1 where v1: "?r = Some v1" "acted e (sid, t, p) i v v1" by blast
  have "handle_packet e (frame_hdr (sid, t, p)) (frame_payload (sid, t, p)) v =
      Some (count_packet (frame_hdr (sid, t, p)) v1)"
    unfolding handle_packet_def frame_length(6,7) [OF ok] Some option.case v1(1) by simp
  moreover have "served e (sid, t, p) v (count_packet (frame_hdr (sid, t, p)) v1)"
    using v1(2) ok Some by (auto simp: acted_def served_def addressed_def frame_length)
  ultimately show ?thesis by blast
qed

section \<open>A connection\<close>

text \<open>
  The frames of a wire one after the other; frame number \<open>k\<close> meets the environment \<open>e k\<close>. A
  frame of an unknown stream is skipped.
\<close>

fun account_run :: "u16 \<Rightarrow> wire_frame list \<Rightarrow> account \<Rightarrow> account" where
  "account_run sid [] a = a"
| "account_run sid (f # fs) a = account_run sid fs (if fst f = sid then account_step f a else a)"

fun record_run :: "(nat \<Rightarrow> packet_env) \<Rightarrow> (wire_frame \<Rightarrow> bool) \<Rightarrow> nat \<Rightarrow> wire_frame list \<Rightarrow> rec_state \<Rightarrow> rec_state" where
  "record_run e known k [] r = r"
| "record_run e known k (f # fs) r = record_run e known (Suc k) fs (if known f then record_frame (e k) f r else r)"

fun wire_ok :: "(nat \<Rightarrow> packet_env) \<Rightarrow> nat \<Rightarrow> wire_frame list \<Rightarrow> bool" where
  "wire_ok e k [] = True"
| "wire_ok e k ((sid, t, p) # fs) = (server_frame_ok (sid, t, p) \<and> plain_env (e k) \<and>
     (t = TCP_MSG_TYPE_VIDEO_DATA \<and> p \<noteq> [] \<longrightarrow> decodes (e k) p) \<and> wire_ok e (Suc k) fs)"

lemma client_loop_frame:
  assumes c: "conn_full c" "c_pending c = frame sid t p @ rest" and ok: "server_frame_ok (sid, t, p)"
    and run: "running i" "\<And>k. grow k" and h: "handle_packet (e i) (frame_hdr (sid, t, p)) (frame_payload (sid, t, p)) v = Some v'"
  obtains c' sz' where "conn_full c'" "c_pending c' = rest"
    "client_loop e running grow i sz c v = client_loop e running grow (Suc i) sz' c' v'"
proof -
  let ?h = "frame_hdr (sid, t, p)"
  have len: "TCP_HEADER_SIZE + length p \<le> TCP_MAX_PACKET_SIZE" using ok by (simp add: server_frame_ok_def)
  have "c_pending c = header_bytes ?h @ p @ rest"
    using c(2) frame_header(1) [OF len] by (simp add: frame_hdr_def)
  then obtain c1 where 1: "recv_exact TCP_HEADER_SIZE c = Some (0, header_bytes ?h, c1)"
    "conn_full c1" "c_pending c1 = p @ rest"
    using recv_full [OF c(1), of "header_bytes ?h" "p @ rest" TCP_HEADER_SIZE] by auto
  have h2: "protocol_parse_header (Some (header_bytes ?h)) = Some ?h"
    using parse_header_bytes [of ?h "[]"] frame_length(8) [OF ok] by simp
  note F = frame_length(2) [OF ok]
  show ?thesis
  proof (cases "p = []")
    case True
    then have "client_loop e running grow i sz c v = client_loop e running grow (Suc i) sz c1 v'"
      using 1(1) h2 F run h by (subst client_loop.simps) (simp add: Let_def frame_payload_def)
    then show ?thesis using that [OF 1(2)] 1(3) True by simp
  next
    case False
    obtain c2 where 2: "recv_exact (length p) c1 = Some (0, p, c2)" "conn_full c2" "c_pending c2 = rest"
      using recv_full [OF 1(2,3) refl] .
    have le: "\<not> TCP_MAX_PACKET_SIZE < length p" using len by simp
    have "client_loop e running grow i sz c v = client_loop e running grow (Suc i) (double_until sz (length p)) c2 v'"
      using 1(1) h2 F run h 2(1) False le by (subst client_loop.simps) (simp add: Let_def frame_payload_def)
    then show ?thesis using that [OF 2(2,3)] by simp
  qed
qed

lemma client_loop_end:
  assumes "c_pending c = []"
  shows "fst (client_loop e running grow i sz c v) = v"
proof (cases "recv_exact TCP_HEADER_SIZE c")
  case (Some r)
  obtain rc bs c1 where r: "r = (rc, bs, c1)" by (metis prod.exhaust)
  have "rc < 0" using recv_exact_end [OF assms] Some r by (auto simp: TCP_HEADER_SIZE_def)
  then show ?thesis using Some r by (subst client_loop.simps) simp
qed (subst client_loop.simps, simp)

lemma stream_manager_get_cong: "sm_max_streams m' = sm_max_streams m \<Longrightarrow> stream_manager_get m' sid = stream_manager_get m sid"
  by (simp add: stream_manager_get_def)

lemma stream_manager_get_inj:
  "stream_manager_get m a = Some i \<Longrightarrow> stream_manager_get m b = Some i \<Longrightarrow> a = b"
  by (auto simp: stream_manager_get_def word_unat_eq_iff word_less_nat_alt split: if_splits)

lemma served_slot:
  assumes "served e f v v'" and "stream_manager_get (ss_mgr v) x = Some i"
  shows "account_of (slot v' i) = (if fst f = x then account_step f (account_of (slot v i)) else account_of (slot v i))"
proof (cases "fst f = x")
  case False
  then have "stream_manager_get (ss_mgr v) (fst f) \<noteq> Some i"
    using stream_manager_get_inj [OF assms(2), of "fst f"] by blast
  then show ?thesis using assms(1) False by (simp add: served_def)
qed (use assms in \<open>simp add: served_def\<close>)

lemma served_totals:
  assumes "served e f v v'"
  shows "ss_rec v' = (if addressed v f then record_frame e f (ss_rec v) else ss_rec v)"
    "sv_total_packets (ss_server v') = sv_total_packets (ss_server v) + (if addressed v f then 1 else 0)"
    "sv_total_bytes (ss_server v') = sv_total_bytes (ss_server v) +
       (if addressed v f then frame_size (snd (snd f)) else 0)"
  using assms by (simp_all add: served_def)

text \<open>The sum of what a wire adds to the server's totals.\<close>

definition total_size :: "wire_frame list \<Rightarrow> u64" where
  "total_size fs = sum_list (map (\<lambda>f. frame_size (snd (snd f))) fs)"

lemma client_loop_frames:
  assumes "c_pending c = wire fs" and "wire_ok e k fs" and "conn_full c" and "\<not> g_h264_tap_started v"
  shows "let v' = fst (client_loop e (\<lambda>_. True) (\<lambda>_. True) k sz c v); known = addressed v in
    (\<forall>sid i. stream_manager_get (ss_mgr v) sid = Some i \<longrightarrow>
       account_of (slot v' i) = account_run sid fs (account_of (slot v i))) \<and>
    ss_rec v' = record_run e known k fs (ss_rec v) \<and>
    sv_total_packets (ss_server v') = sv_total_packets (ss_server v) + of_nat (length (filter known fs)) \<and>
    sv_total_bytes (ss_server v') = sv_total_bytes (ss_server v) + total_size (filter known fs)"
  using assms
proof (induction fs arbitrary: c k v sz)
  case Nil
  then show ?case by (simp add: client_loop_end wire_def total_size_def Let_def)
next
  case (Cons f fs)
  obtain sid t p where f: "f = (sid, t, p)" by (metis prod.exhaust)
  have ok: "server_frame_ok (sid, t, p)" "plain_env (e k)"
    "t = TCP_MSG_TYPE_VIDEO_DATA \<Longrightarrow> p \<noteq> [] \<Longrightarrow> decodes (e k) p" "wire_ok e (Suc k) fs"
    using Cons.prems(2) f by simp_all
  obtain v1 where h: "handle_packet (e k) (frame_hdr (sid, t, p)) (frame_payload (sid, t, p)) v = Some v1"
    and sv: "served (e k) f v v1"
    using handle_frame [OF ok(2) Cons.prems(4) ok(1,3)] f by blast
  have "c_pending c = frame sid t p @ wire fs" using Cons.prems(1) f by (simp add: wire_def)
  from client_loop_frame [where e = e and i = k and sz = sz and running = "\<lambda>_. True" and grow = "\<lambda>_. True",
      OF Cons.prems(3) this ok(1) _ _ h]
  obtain c' sz' where c': "conn_full c'" "c_pending c' = wire fs"
    "client_loop e (\<lambda>_. True) (\<lambda>_. True) k sz c v = client_loop e (\<lambda>_. True) (\<lambda>_. True) (Suc k) sz' c' v1" by auto
  have known: "addressed v1 = addressed v" "stream_manager_get (ss_mgr v1) x = stream_manager_get (ss_mgr v) x" for x
    using sv stream_manager_get_cong [of "ss_mgr v1" "ss_mgr v"] by (auto simp: served_def addressed_def)
  have tap: "\<not> g_h264_tap_started v1" using sv by (simp add: served_def)
  note ih = Cons.IH [OF c'(2) ok(4) c'(1) tap, of sz', unfolded known c'(3) [symmetric] Let_def]
  note slots = served_slot [OF sv]
  note totals = served_totals [OF sv]
  show ?case unfolding Let_def
    using ih totals slots by (simp add: total_size_def add.assoc)
qed

section \<open>The run of one sender\<close>

text \<open>What a sender announces: its configuration, as the server reads it.\<close>

definition announced :: "TcpSenderConfig \<Rightarrow> StreamInfo" where
  "announced c = \<lparr>si_width = tc_width c, si_height = tc_height c, si_fps = tc_fps c, si_bitrate = tc_bitrate c,
     si_codec = tc_codec c, si_chroma = tc_chroma c, si_bitdepth = tc_bitdepth c,
     si_video_format = tc_video_format c, si_color_space = tc_color_space c, si_color_range = tc_color_range c\<rparr>"

definition sender_frames :: "TcpSenderConfig \<Rightarrow> u8 list list \<Rightarrow> wire_frame list" where
  "sender_frames c ds = (TcpSenderConfig.tc_stream_id c, TCP_MSG_TYPE_STREAM_START, stream_start_payload c) #
     map (\<lambda>d. (TcpSenderConfig.tc_stream_id c, TCP_MSG_TYPE_VIDEO_DATA, d)) ds"

fun record_videos :: "(nat \<Rightarrow> packet_env) \<Rightarrow> u16 \<Rightarrow> nat \<Rightarrow> u8 list list \<Rightarrow> rec_state \<Rightarrow> rec_state" where
  "record_videos e sid k [] r = r"
| "record_videos e sid k (d # ds) r = record_videos e sid (Suc k) ds
     (compressed_recorder_on_video (pk_rec_alloc (e k)) (pk_rec_wall (e k)) (pk_rec_mono (e k)) sid (Some d) r)"

lemma parse_announced:
  "protocol_parse_stream_info (Some (stream_start_payload c)) (length (stream_start_payload c)) = Some (announced c)"
  using parse_stream_info_bytes [of "announced c" "[]" 0]
  by (simp add: stream_start_payload_bytes announced_def)

lemma account_run_videos:
  "account_run sid (map (\<lambda>d. (sid, TCP_MSG_TYPE_VIDEO_DATA, d)) ds) a =
     a\<lparr>ac_frames := ac_frames a + of_nat (length ds), ac_packets := ac_packets a + of_nat (length ds),
       ac_bytes := ac_bytes a + sum_list (map frame_size ds)\<rparr>"
  by (induction ds arbitrary: a) (simp_all add: account_step_def msg_types add.assoc)

lemma account_run_sender:
  "account_run (TcpSenderConfig.tc_stream_id c) (sender_frames c ds) a =
     a\<lparr>ac_state := STREAM_STATE_ACTIVE, ac_info := announced c, ac_info_received := True,
       ac_frames := ac_frames a + of_nat (length ds), ac_packets := ac_packets a + of_nat (length ds),
       ac_bytes := ac_bytes a + sum_list (map frame_size ds)\<rparr>"
  unfolding sender_frames_def account_run.simps fst_conv account_run_videos
  by (simp only: account_step_def prod.case parse_announced) simp

lemma record_run_videos:
  "record_run e (\<lambda>_. True) k (map (\<lambda>d. (sid, TCP_MSG_TYPE_VIDEO_DATA, d)) ds) r = record_videos e sid k ds r"
  by (induction ds arbitrary: k r) (simp_all add: record_frame_def msg_types)

lemma record_run_known:
  "\<forall>f \<in> set fs. known f \<Longrightarrow> record_run e known k fs r = record_run e (\<lambda>_. True) k fs r"
  by (induction fs arbitrary: k r) auto

lemma wire_ok_videos:
  assumes "\<forall>j < length ds. plain_env (e (k + j)) \<and> decodes (e (k + j)) (ds ! j)"
    and "list_all (\<lambda>d. 7 + length d \<le> TCP_MAX_PACKET_SIZE) ds" and "1 \<le> unat sid" and "unat sid \<le> MAX_STREAMS"
  shows "wire_ok e k (map (\<lambda>d. (sid, TCP_MSG_TYPE_VIDEO_DATA, d)) ds)"
  using assms(1,2)
proof (induction ds arbitrary: k)
  case (Cons d ds)
  have "\<forall>j < length ds. plain_env (e (Suc k + j)) \<and> decodes (e (Suc k + j)) (ds ! j)"
  proof (intro allI impI)
    fix j
    assume "j < length ds"
    then show "plain_env (e (Suc k + j)) \<and> decodes (e (Suc k + j)) (ds ! j)"
      using Cons.prems(1) [rule_format, of "Suc j"] by simp
  qed
  moreover have "plain_env (e k) \<and> decodes (e k) d" using Cons.prems(1) [rule_format, of 0] by simp
  ultimately show ?case using Cons.IH [of "Suc k"] Cons.prems(2) assms(3,4)
    by (simp add: server_frame_ok_def msg_types TCP_HEADER_SIZE_def)
qed simp

lemma sender_served:
  assumes "c_pending c = wire (sender_frames cfg ds)" and "conn_full c" and "\<not> g_h264_tap_started v"
    and "\<forall>k \<le> length ds. plain_env (e k)" and "\<forall>k < length ds. decodes (e (Suc k)) (ds ! k)"
    and "list_all (\<lambda>d. 7 + length d \<le> TCP_MAX_PACKET_SIZE) ds"
    and "stream_manager_get (ss_mgr v) (TcpSenderConfig.tc_stream_id cfg) = Some i"
    and "unat (sm_max_streams (ss_mgr v)) \<le> MAX_STREAMS"
  shows "let v' = fst (client_loop e (\<lambda>_. True) (\<lambda>_. True) 0 sz c v) in
    account_of (slot v' i) = (account_of (slot v i))\<lparr>ac_state := STREAM_STATE_ACTIVE, ac_info := announced cfg,
       ac_info_received := True, ac_frames := ac_frames (account_of (slot v i)) + of_nat (length ds),
       ac_packets := ac_packets (account_of (slot v i)) + of_nat (length ds),
       ac_bytes := ac_bytes (account_of (slot v i)) + sum_list (map frame_size ds)\<rparr> \<and>
    ss_rec v' = record_videos e (TcpSenderConfig.tc_stream_id cfg) 1 ds
      (compressed_recorder_on_stream_start (pk_rec_alloc (e 0)) (pk_rec_wall (e 0)) (pk_rec_mono (e 0))
        (TcpSenderConfig.tc_stream_id cfg) (Some (announced cfg)) (ss_rec v)) \<and>
    sv_total_packets (ss_server v') = sv_total_packets (ss_server v) + 1 + of_nat (length ds)"
proof -
  let ?sid = "TcpSenderConfig.tc_stream_id cfg"
  have sid: "1 \<le> unat ?sid" "unat ?sid \<le> MAX_STREAMS"
    using assms(7,8) by (auto simp: stream_manager_get_def word_less_nat_alt word_le_nat_alt split: if_splits)
  have "wire_ok e 1 (map (\<lambda>d. (?sid, TCP_MSG_TYPE_VIDEO_DATA, d)) ds)"
    using assms(4-6) sid by (intro wire_ok_videos) (simp_all add: Suc_le_eq)
  then have ok: "wire_ok e 0 (sender_frames cfg ds)"
    using sid assms(4) by (simp add: sender_frames_def server_frame_ok_def msg_types TCP_HEADER_SIZE_def
        TCP_MAX_PACKET_SIZE_def)
  have known: "\<forall>f \<in> set (sender_frames cfg ds). addressed v f"
    using assms(7) by (auto simp: sender_frames_def addressed_def)
  have rec: "record_run e (addressed v) 0 (sender_frames cfg ds) r = record_videos e ?sid 1 ds
      (compressed_recorder_on_stream_start (pk_rec_alloc (e 0)) (pk_rec_wall (e 0)) (pk_rec_mono (e 0))
        ?sid (Some (announced cfg)) r)" for r
    unfolding record_run_known [OF known] unfolding sender_frames_def record_run.simps record_run_videos
    by (simp only: record_frame_def prod.case parse_announced) simp
  have "filter (addressed v) (sender_frames cfg ds) = sender_frames cfg ds"
    using known by (simp add: filter_id_conv)
  moreover have "length (sender_frames cfg ds) = Suc (length ds)" by (simp add: sender_frames_def)
  ultimately show ?thesis
    using client_loop_frames [OF assms(1) ok assms(2,3), of sz] assms(7)
    unfolding Let_def rec by (simp add: account_run_sender add.assoc)
qed

section \<open>The property\<close>

text \<open>C34: the server is its specification: whatever the decoders, the watchdogs and the network's
  segmentation do, after the bytes of a wire every stream's state, announced format and
  counters are those its own frames prescribe, the recorder was handed the frames of all known
  streams in order, and the totals count each of them once.\<close>

theorem server_accounts:
  assumes "c_pending c = wire fs" and "wire_ok e k fs" and "conn_full c" and "\<not> g_h264_tap_started v"
  shows "let v' = fst (client_loop e (\<lambda>_. True) (\<lambda>_. True) k sz c v); known = addressed v in
    (\<forall>sid i. stream_manager_get (ss_mgr v) sid = Some i \<longrightarrow>
       account_of (slot v' i) = account_run sid fs (account_of (slot v i))) \<and>
    ss_rec v' = record_run e known k fs (ss_rec v) \<and>
    sv_total_packets (ss_server v') = sv_total_packets (ss_server v) + of_nat (length (filter known fs)) \<and>
    sv_total_bytes (ss_server v') = sv_total_bytes (ss_server v) + total_size (filter known fs)"
  using assms by (rule client_loop_frames)

text \<open>A process environment without any variable, and a parser that takes three bytes.\<close>

lemma ex_packet_env: "\<exists>e :: packet_env. plain_env e \<and> decodes e [1, 2, 3]"
proof -
  obtain a :: parse_ans where a: "pa_parsed a = 3" "pa_packet a = []"
    using that [of "undefined\<lparr>pa_parsed := 3, pa_packet := []\<rparr>"] by simp
  obtain e :: packet_env where e: "pk_env e = (\<lambda>_. None)" "pk_parse e = [a]"
    using that [of "undefined\<lparr>pk_env := \<lambda>_. None, pk_parse := [a]\<rparr>"] by simp
  show ?thesis using e a
    by (intro exI [of _ e]) (simp add: plain_env_def decodes_def decoder_decode_def Let_def)
qed

lemma ex_server_state:
  "\<exists>v :: server_state. \<not> g_h264_tap_started v \<and> stream_manager_init 4 = Some (ss_mgr v) \<and> sv_total_packets (ss_server v) = 0"
proof -
  obtain mgr where m: "stream_manager_init 4 = Some mgr" by (simp add: stream_manager_init_def MAX_STREAMS_def)
  obtain sv :: TcpServer where "sv_total_packets sv = 0" using that [of "undefined\<lparr>sv_total_packets := 0\<rparr>"] by simp
  then show ?thesis using m
    by (intro exI [of _ "undefined\<lparr>g_h264_tap_started := False, ss_mgr := mgr, ss_server := sv\<rparr>"]) simp
qed

lemma ex_manager:
  assumes "stream_manager_init 4 = Some m"
  shows "stream_manager_get m sid = (if sid < 1 \<or> sid > 4 then None else Some (unat sid - 1))"
    "st_frames_received (sm_streams m i) = 0" "unat (sm_max_streams m) = 4"
  using assms by (auto simp: stream_manager_init_def stream_manager_get_def zero_stream_ctx_def split: if_splits)

theorem server_accounts_witness:
  "\<exists>e v. let fs = [(1, TCP_MSG_TYPE_HEARTBEAT, []), (1, TCP_MSG_TYPE_VIDEO_DATA, [1, 2, 3]), (9, TCP_MSG_TYPE_HEARTBEAT, [])];
     v' = fst (client_loop e (\<lambda>_. True) (\<lambda>_. True) 0 64 \<lparr>c_pending = wire fs, c_schedule = replicate 30 (Deliver 4)\<rparr> v)
   in st_frames_received (slot v' 0) = 1 \<and> sv_total_packets (ss_server v') = 2"
proof -
  let ?fs = "[(1, TCP_MSG_TYPE_HEARTBEAT, []), (1, TCP_MSG_TYPE_VIDEO_DATA, [1, 2, 3]),
    (9, TCP_MSG_TYPE_HEARTBEAT, [])] :: wire_frame list"
  let ?c = "\<lparr>c_pending = wire ?fs, c_schedule = replicate 30 (Deliver 4)\<rparr>"
  obtain e :: packet_env and v :: server_state where e: "plain_env e" "decodes e [1, 2, 3]"
    and v: "\<not> g_h264_tap_started v" "stream_manager_init 4 = Some (ss_mgr v)" "sv_total_packets (ss_server v) = 0"
    using ex_packet_env ex_server_state by blast
  note m = ex_manager [OF v(2)]
  let ?v = "fst (client_loop (\<lambda>_. e) (\<lambda>_. True) (\<lambda>_. True) 0 64 ?c v)"
  have ok: "wire_ok (\<lambda>_. e) 0 ?fs" using e
    by (simp add: server_frame_ok_def msg_types MAX_STREAMS_def TCP_HEADER_SIZE_def TCP_MAX_PACKET_SIZE_def)
  have full: "conn_full ?c"
    by (simp add: conn_full_def wire_def frame_def sender_header_def is_Deliver_def list_all_iff)
  have pend: "c_pending ?c = wire ?fs" by simp
  note r = server_accounts [OF pend ok full v(1), of 64, unfolded Let_def]
  have "account_of (slot ?v 0) = account_run 1 ?fs (account_of (slot v 0))" using r m(1) [of 1] by simp
  then have "ac_frames (account_of (slot ?v 0)) = 1"
    using m(2) [of 0] by (simp add: account_step_def msg_types account_of_def slot_def)
  moreover have "sv_total_packets (ss_server ?v) = 2" using r v(3) m(1) by (simp add: addressed_def)
  ultimately show ?thesis unfolding Let_def by (intro exI [of _ "\<lambda>_. e"] exI [of _ v]) (simp add: account_of_def)
qed

end
