(* ===== verification/BridgeRefs.thy ===== *)
theory BridgeRefs
  imports BridgeLoop
begin

text \<open>
  Who owns the BGR frames of the ZeroMQ bridge: the cache, ZeroMQ until it has sent a frame,
  and the thread for the request it is answering. Every frame is freed exactly when the last
  of them lets go of it, and every answered request gets one whole reply.
\<close>

section \<open>One conversion\<close>

lemma set_world_conv: "set_world w b = b\<lparr>zb_conv := (zb_conv b)\<lparr>co_world := w\<rparr>\<rparr>"
  by (simp add: set_world_def)

lemma frame_simps [simp]:
  "zb_cache (free_bgr_frame a b) = zb_cache b" "zb_sent (free_bgr_frame a b) = zb_sent b"
  "zb_cache_count (free_bgr_frame a b) = zb_cache_count b" "zb_next (free_bgr_frame a b) = zb_next b"
  "zb_cache (retain_bgr_frame a b) = zb_cache b" "zb_sent (retain_bgr_frame a b) = zb_sent b"
  "zb_cache_count (retain_bgr_frame a b) = zb_cache_count b" "zb_next (retain_bgr_frame a b) = zb_next b"
  by (simp_all add: free_bgr_frame_def retain_bgr_frame_def split: option.split)

lemma retain_conv: "retain_bgr_frame a b\<lparr>zb_conv := g\<rparr> = retain_bgr_frame a (b\<lparr>zb_conv := g\<rparr>)"
  by (simp add: retain_bgr_frame_def split: option.split)

text \<open>What a conversion can do: fail, serve the cached frame, or make a frame and cache it.\<close>

lemma cache_hit_some:
  "cache_hit sid snap info b = Some a \<Longrightarrow>
   unat sid < zb_cache_count b \<and> zb_cache b (unat sid) = Some a \<and> (\<exists>n f. zb_heap b a = Some (n, f) \<and>
     cached_bgr_frame_matches f sid snap info)"
  by (auto simp: cache_hit_def split: if_splits option.splits)

text \<open>A frame that comes out of a conversion of a stream's last frame.\<close>

definition made_by :: "attempt_env \<Rightarrow> StreamContext \<Rightarrow> ZmqBgrFrame \<Rightarrow> bool" where
  "made_by e s f \<longleftrightarrow> (\<exists>snap g conv g' bytes. decoder_convert_format_with_info (ab_conv e) (ab_owner e) snap (Some (st_info s))
       zero_frame DECODE_FMT_BGR24 g = (0, conv, g') \<and> df_data conv ! 0 = Some bytes \<and>
     f = bgr_of_converted e (st_stream_id s) (st_info s) (df_format snap) conv bytes)"

lemma convert_shape:
  assumes "convert_last_frame_to_bgr e s b = (rc, p, b')"
  shows "rc = - 1 \<and> p = None \<and> (\<exists>g. b' = b\<lparr>zb_conv := g\<rparr>) \<or>
    (\<exists>a n f g. rc = 0 \<and> p = Some a \<and> zb_heap b a = Some (n, f) \<and> zf_stream_id f = st_stream_id s \<and>
       zb_cache b (unat (st_stream_id s)) = Some a \<and> unat (st_stream_id s) < zb_cache_count b \<and>
       b' = retain_bgr_frame a (b\<lparr>zb_conv := g\<rparr>)) \<or>
    (\<exists>f g. rc = 0 \<and> p = Some (zb_next b) \<and> zf_stream_id f = st_stream_id s \<and> made_by e s f \<and>
       b' = store_in_cache (st_stream_id s) (zb_next b) (snd (new_bgr_frame f (b\<lparr>zb_conv := g\<rparr>))))"
proof (cases "st_last_frame s")
  case None
  then show ?thesis using assms by (auto simp: convert_last_frame_to_bgr_def intro!: exI [of _ "zb_conv b"])
next
  case (Some lf)
  show ?thesis
  proof (cases "df_width lf \<le> 0 \<or> df_height lf \<le> 0")
    case True
    then show ?thesis using assms Some by (auto simp: convert_last_frame_to_bgr_def intro!: exI [of _ "zb_conv b"])
  next
    case pos: False
    obtain r w where ref: "decoder_ref_frame (ab_ref_calloc e) (ab_ref_clone e) (ab_ref_malloc e) (Some lf) (bridge_world b) = (r, w)"
      by fastforce
    show ?thesis
    proof (cases r)
      case None
      then show ?thesis using assms Some pos ref by (auto simp: convert_last_frame_to_bgr_def set_world_conv)
    next
      case (Some snap)
      note start = \<open>st_last_frame s = Some lf\<close> pos ref Some
      show ?thesis
      proof (cases "cache_hit (st_stream_id s) snap (st_info s) (set_world w b)")
        case (Some a)
        obtain n f where hit: "zb_heap b a = Some (n, f)" "zf_stream_id f = st_stream_id s"
            "zb_cache b (unat (st_stream_id s)) = Some a" "unat (st_stream_id s) < zb_cache_count b"
          using cache_hit_some [OF Some] by (auto simp: set_world_conv cached_bgr_frame_matches_def)
        have "rc = 0" "p = Some a" "\<exists>g. b' = retain_bgr_frame a (b\<lparr>zb_conv := g\<rparr>)"
          using assms start Some
          by (simp_all add: convert_last_frame_to_bgr_def Let_def) (metis set_world_conv retain_conv bridge.surjective bridge.update_convs(6))
        then show ?thesis using hit by metis
      next
        case None
        obtain rc' conv g where fmt: "decoder_convert_format_with_info (ab_conv e) (ab_owner e) snap (Some (st_info s))
            zero_frame DECODE_FMT_BGR24 (zb_conv (set_world w b)) = (rc', conv, g)"
          by (metis prod_cases3)
        show ?thesis
        proof (cases "rc' = 0 \<and> ab_calloc e \<and> df_data conv ! 0 \<noteq> None")
          case False
          then show ?thesis using assms start None fmt
            by (auto simp: convert_last_frame_to_bgr_def set_world_conv Let_def split: if_splits)
        next
          case True
          then obtain bytes where "df_data conv ! 0 = Some bytes" by auto
          let ?f = "bgr_of_converted e (st_stream_id s) (st_info s) (df_format snap) conv bytes"
          have "rc = 0" "p = Some (zb_next b)"
            "b' = store_in_cache (st_stream_id s) (zb_next b) (snd (new_bgr_frame ?f
               (b\<lparr>zb_conv := g\<lparr>co_world := decoder_free_frame (Some snap) (co_world g)\<rparr>\<rparr>)))"
            using assms start None fmt True \<open>df_data conv ! 0 = Some bytes\<close>
            by (auto simp: convert_last_frame_to_bgr_def set_world_conv Let_def new_bgr_frame_def)
          moreover have "zf_stream_id ?f = st_stream_id s" by (simp add: bgr_of_converted_def)
          moreover have "made_by e s ?f" unfolding made_by_def using fmt True \<open>df_data conv ! 0 = Some bytes\<close> by blast
          ultimately show ?thesis by blast
        qed
      qed
    qed
  qed
qed

section \<open>Owners\<close>

text \<open>\<open>free_bgr_frame_msg\<close>: ZeroMQ has sent a frame and lets go of it.\<close>

definition free_bgr_frame_msg :: "nat \<Rightarrow> bridge \<Rightarrow> bridge" where
  "free_bgr_frame_msg a b =
     (if a \<in> set (zb_sent b) then (free_bgr_frame a b)\<lparr>zb_sent := remove1 a (zb_sent b)\<rparr> else b)"

text \<open>The owners of a frame: entries of the cache, messages of ZeroMQ, and the thread itself.\<close>

definition cached_refs :: "(nat \<Rightarrow> nat option) \<Rightarrow> nat \<Rightarrow> nat \<Rightarrow> nat" where
  "cached_refs c n a = (\<Sum>i<n. of_bool (c i = Some a))"

definition refs :: "nat list \<Rightarrow> bridge \<Rightarrow> nat \<Rightarrow> nat" where
  "refs held b a = cached_refs (zb_cache b) (zb_cache_count b) a + count_list (zb_sent b) a + count_list held a"

definition counted :: "(u32 \<times> ZmqBgrFrame) option \<Rightarrow> nat \<Rightarrow> bool" where
  "counted c r \<longleftrightarrow> (case c of None \<Rightarrow> r = 0 | Some (n, f) \<Rightarrow> 0 < r \<and> n = word_of_nat r)"

lemma counted_simps [simp]:
  "counted None r \<longleftrightarrow> r = 0"
  "counted (Some (n, f)) r \<longleftrightarrow> 0 < r \<and> n = word_of_nat r"
  by (simp_all add: counted_def)

definition owned :: "nat list \<Rightarrow> bridge \<Rightarrow> bool" where
  "owned held b \<longleftrightarrow> (\<forall>a. counted (zb_heap b a) (refs held b a)) \<and>
     (\<forall>a\<ge>zb_next b. zb_heap b a = None) \<and> zb_cache_count b \<le> 65536"

text \<open>No counter wraps: ZeroMQ holds far fewer than 2 to the 31 messages (its high-water mark is 2).\<close>

definition room :: "nat list \<Rightarrow> bridge \<Rightarrow> bool" where
  "room held b \<longleftrightarrow> length (zb_sent b) + length held < 4000000000"

lemma cached_refs_upd:
  assumes "i < n"
  shows "cached_refs (c(i := v)) n a + of_bool (c i = Some a) = cached_refs c n a + of_bool (v = Some a)"
proof -
  have "(\<Sum>j<n. of_bool ((c(i := v)) j = Some a)) =
      of_bool (v = Some a) + (\<Sum>j\<in>{..<n} - {i}. (of_bool (c j = Some a) :: nat))"
    using assms by (subst sum.remove [of _ i]) (auto intro: sum.cong)
  moreover have "(\<Sum>j<n. of_bool (c j = Some a)) =
      of_bool (c i = Some a) + (\<Sum>j\<in>{..<n} - {i}. (of_bool (c j = Some a) :: nat))"
    using assms by (subst sum.remove [of _ i]) auto
  ultimately show ?thesis unfolding cached_refs_def by (simp only: ac_simps)
qed

lemma cached_refs_le: "cached_refs c n a \<le> n"
proof -
  have "(\<Sum>i<n. of_bool (c i = Some a)) \<le> (\<Sum>i<n. (1 :: nat))" by (rule sum_mono) simp
  then show ?thesis by (simp add: cached_refs_def)
qed

lemma refs_small:
  assumes "owned held b" and "room held b"
  shows "refs held b a < 2 ^ 32"
proof -
  have "count_list (zb_sent b) a \<le> length (zb_sent b)" "count_list held a \<le> length held"
    by (rule count_le_length)+
  then show ?thesis
    using assms cached_refs_le [of "zb_cache b" "zb_cache_count b" a] by (simp add: refs_def owned_def room_def)
qed

lemma owned_some:
  "owned held b \<Longrightarrow> zb_heap b a = Some (n, f) \<Longrightarrow> 0 < refs held b a \<and> n = word_of_nat (refs held b a)"
  unfolding owned_def by (metis counted_simps(2))

lemma owned_live: "owned held b \<Longrightarrow> 0 < refs held b a \<Longrightarrow> \<exists>n f. zb_heap b a = Some (n, f)"
  unfolding owned_def by (metis counted_simps(1) option.exhaust prod.exhaust less_irrefl)

text \<open>References move between owners without a change of the heap.\<close>

lemma owned_move:
  assumes "owned held b" and "zb_heap b' = zb_heap b" and "zb_next b' = zb_next b"
    and "zb_cache_count b' = zb_cache_count b" and "\<And>a. refs held' b' a = refs held b a"
  shows "owned held' b'"
proof -
  have "refs held' b' = refs held b" using assms(5) by (rule ext)
  then show ?thesis using assms(1-4) by (simp add: owned_def)
qed

lemma refs_conv [simp]: "refs held (b\<lparr>zb_conv := g\<rparr>) = refs held b"
  by (simp add: refs_def fun_eq_iff)

lemma owned_conv [simp]: "owned held (b\<lparr>zb_conv := g\<rparr>) = owned held b"
  by (simp add: owned_def)

lemma unat_small: "m < 2 ^ 32 \<Longrightarrow> unat (word_of_nat m :: u32) = m"
  by (simp add: unat_of_nat)

lemma owned_free:
  assumes "owned (a # held) b" and "room (a # held) b"
  shows "owned held (free_bgr_frame a b)"
proof -
  obtain n f where live: "zb_heap b a = Some (n, f)"
    using owned_live [OF assms(1), of a] by (auto simp: refs_def)
  have n: "n = word_of_nat (refs (a # held) b a)" using owned_some [OF assms(1) live] by simp
  have r: "refs (a # held) b a = Suc (refs held b a)" by (simp add: refs_def)
  have small: "Suc (refs held b a) < 2 ^ 32" using refs_small [OF assms, of a] r by simp
  have one: "n = 1 \<longleftrightarrow> refs held b a = 0"
  proof -
    have "unat n = Suc (refs held b a)" using unat_small [OF small] n r by (simp only:)
    then show ?thesis by (metis One_nat_def old.nat.inject unat_1 word_unat_eq_iff)
  qed
  have other: "refs (a # held) b a' = refs held b a'" if "a' \<noteq> a" for a' using that by (simp add: refs_def)
  have same: "refs held (free_bgr_frame a b) = refs held b" by (simp add: refs_def fun_eq_iff)
  have heap: "zb_heap (free_bgr_frame a b) a' = (if a' = a then (if n \<noteq> 1 then Some (n - 1, f) else None) else zb_heap b a')" for a'
    using live by (simp add: free_bgr_frame_def)
  have pre: "\<forall>a'. counted (zb_heap b a') (refs (a # held) b a')"
    "\<forall>a'\<ge>zb_next b. zb_heap b a' = None" "zb_cache_count b \<le> 65536"
    using assms(1) unfolding owned_def by auto
  have "counted (zb_heap (free_bgr_frame a b) a') (refs held b a')" for a'
  proof (cases "a' = a")
    case True
    then show ?thesis using heap one n r by simp
  next
    case False
    then show ?thesis using heap [of a'] other [OF False] pre(1) by simp (metis other)
  qed
  moreover have "\<forall>a'\<ge>zb_next b. zb_heap (free_bgr_frame a b) a' = None" using heap pre(2) live by force
  ultimately show ?thesis using pre(3) by (simp add: owned_def same)
qed

lemma owned_retain:
  assumes "owned held b" and "zb_heap b a = Some (n, f)"
  shows "owned (a # held) (retain_bgr_frame a b)"
proof -
  have n: "0 < refs held b a" "n = word_of_nat (refs held b a)" using owned_some [OF assms] by auto
  have pre: "\<And>a'. counted (zb_heap b a') (refs held b a')" "\<And>a'. zb_next b \<le> a' \<Longrightarrow> zb_heap b a' = None"
    "zb_cache_count b \<le> 65536"
    using assms(1) unfolding owned_def by auto
  have refs: "refs (a # held) (retain_bgr_frame a b) a' = (if a' = a then Suc (refs held b a) else refs held b a')" for a'
    by (simp add: refs_def)
  have heap: "zb_heap (retain_bgr_frame a b) = (zb_heap b)(a \<mapsto> (n + 1, f))"
    using assms(2) by (simp add: retain_bgr_frame_def)
  have "counted (zb_heap (retain_bgr_frame a b) a') (refs (a # held) (retain_bgr_frame a b) a')" for a'
    using n pre(1) [of a'] by (simp add: refs heap)
  moreover have "zb_heap (retain_bgr_frame a b) a' = None" if "zb_next b \<le> a'" for a'
    using pre(2) [OF that] assms(2) by (auto simp: heap)
  ultimately show ?thesis using pre(3) by (simp add: owned_def)
qed

lemma refs_dead: "owned held b \<Longrightarrow> zb_heap b a = None \<Longrightarrow> refs held b a = 0"
  unfolding owned_def by (metis counted_simps(1))

lemma owned_new:
  assumes "owned held b"
  shows "owned (zb_next b # held) (snd (new_bgr_frame f b))"
proof -
  have pre: "\<And>a'. counted (zb_heap b a') (refs held b a')" "\<And>a'. zb_next b \<le> a' \<Longrightarrow> zb_heap b a' = None"
    "zb_cache_count b \<le> 65536"
    using assms unfolding owned_def by auto
  have zero: "refs held b (zb_next b) = 0" using refs_dead [OF assms pre(2)] by simp
  have refs: "refs (zb_next b # held) (snd (new_bgr_frame f b)) a' = (if a' = zb_next b then 1 else refs held b a')" for a'
    using zero by (simp add: refs_def new_bgr_frame_def)
  have "counted (zb_heap (snd (new_bgr_frame f b)) a') (refs (zb_next b # held) (snd (new_bgr_frame f b)) a')" for a'
    using pre(1) [of a'] by (simp add: refs) (simp add: new_bgr_frame_def)
  moreover have "zb_heap (snd (new_bgr_frame f b)) a' = None" if "Suc (zb_next b) \<le> a'" for a'
    using pre(2) [of a'] that by (simp add: new_bgr_frame_def)
  ultimately show ?thesis using pre(3) by (simp add: owned_def) (simp add: new_bgr_frame_def)
qed

lemma owned_cache_put:
  assumes "owned (a # held) b" and "i < zb_cache_count b"
  shows "owned ((case zb_cache b i of None \<Rightarrow> [] | Some a' \<Rightarrow> [a']) @ held) (b\<lparr>zb_cache := (zb_cache b)(i \<mapsto> a)\<rparr>)"
proof (rule owned_move [OF assms(1)])
  fix a'
  show "refs ((case zb_cache b i of None \<Rightarrow> [] | Some a' \<Rightarrow> [a']) @ held) (b\<lparr>zb_cache := (zb_cache b)(i \<mapsto> a)\<rparr>) a' =
      refs (a # held) b a'"
    using cached_refs_upd [OF assms(2), of "zb_cache b" "Some a" a'] by (auto simp: refs_def split: option.splits)
qed simp_all

lemma owned_cache_take:
  assumes "owned held b" and "i < zb_cache_count b" and "zb_cache b i = Some a"
  shows "owned (a # held) (b\<lparr>zb_cache := (zb_cache b)(i := None)\<rparr>)"
proof (rule owned_move [OF assms(1)])
  fix a'
  show "refs (a # held) (b\<lparr>zb_cache := (zb_cache b)(i := None)\<rparr>) a' = refs held b a'"
    using cached_refs_upd [OF assms(2), of "zb_cache b" None a'] assms(3) by (auto simp: refs_def)
qed simp_all

lemma owned_send:
  assumes "owned (a # held) b"
  shows "owned held (b\<lparr>zb_sent := a # zb_sent b\<rparr>)"
  by (rule owned_move [OF assms]) (simp_all add: refs_def)

lemma count_list_remove1: "a \<in> set xs \<Longrightarrow> count_list (remove1 a xs) a' + of_bool (a' = a) = count_list xs a'"
  by (induction xs) auto

lemma owned_unsend:
  assumes "owned held b" and "a \<in> set (zb_sent b)"
  shows "owned (a # held) (b\<lparr>zb_sent := remove1 a (zb_sent b)\<rparr>)"
proof (rule owned_move [OF assms(1)])
  fix a'
  show "refs (a # held) (b\<lparr>zb_sent := remove1 a (zb_sent b)\<rparr>) a' = refs held b a'"
    using count_list_remove1 [OF assms(2), of a'] by (auto simp: refs_def)
qed simp_all

lemma room_simps [simp]:
  "room held (free_bgr_frame a b) = room held b" "room held (retain_bgr_frame a b) = room held b"
  "room held (b\<lparr>zb_cache := c\<rparr>) = room held b" "room held (b\<lparr>zb_conv := g\<rparr>) = room held b"
  "room held (snd (new_bgr_frame f b)) = room held b"
  by (simp_all add: room_def new_bgr_frame_def)

lemma free_commutes:
  "free_bgr_frame a (b\<lparr>zb_sent := s\<rparr>) = (free_bgr_frame a b)\<lparr>zb_sent := s\<rparr>"
  "free_bgr_frame a (b\<lparr>zb_cache := c\<rparr>) = (free_bgr_frame a b)\<lparr>zb_cache := c\<rparr>"
  "retain_bgr_frame a (b\<lparr>zb_cache := c\<rparr>) = (retain_bgr_frame a b)\<lparr>zb_cache := c\<rparr>"
  by (simp_all add: free_bgr_frame_def retain_bgr_frame_def split: option.split)

lemma owned_release:
  assumes "owned held b" and "room held b"
  shows "owned held (free_bgr_frame_msg a b)"
proof (cases "a \<in> set (zb_sent b)")
  case True
  have "room (a # held) (b\<lparr>zb_sent := remove1 a (zb_sent b)\<rparr>)"
    using assms(2) length_pos_if_in_set [OF True] by (simp add: room_def length_remove1 True del: length_greater_0_conv)
  then show ?thesis using owned_free [OF owned_unsend [OF assms(1) True]] True
    by (simp add: free_bgr_frame_msg_def free_commutes)
qed (use assms in \<open>simp add: free_bgr_frame_msg_def\<close>)

lemma owned_store:
  assumes "owned (a # held) b" and "zb_heap b a = Some (n, f)" and "room (a # a # held) b"
  shows "owned (a # held) (store_in_cache sid a b)"
proof (cases "unat sid < zb_cache_count b")
  case True
  have put: "owned ((case zb_cache b (unat sid) of None \<Rightarrow> [] | Some a' \<Rightarrow> [a']) @ a # held)
      ((retain_bgr_frame a b)\<lparr>zb_cache := (zb_cache b)(unat sid \<mapsto> a)\<rparr>)"
    using owned_cache_put [OF owned_retain [OF assms(1,2)], of "unat sid"] True by simp
  show ?thesis
  proof (cases "zb_cache b (unat sid)")
    case None
    then show ?thesis using put True by (simp add: store_in_cache_def free_commutes)
  next
    case (Some old)
    have "room (old # a # held) ((retain_bgr_frame a b)\<lparr>zb_cache := (zb_cache b)(unat sid \<mapsto> a)\<rparr>)"
      using assms(3) by (simp add: room_def)
    then have "owned (a # held) (free_bgr_frame old ((retain_bgr_frame a b)\<lparr>zb_cache := (zb_cache b)(unat sid \<mapsto> a)\<rparr>))"
      using owned_free put Some by simp
    then show ?thesis using Some True by (simp add: store_in_cache_def free_commutes)
  qed
qed (use assms in \<open>simp add: store_in_cache_def\<close>)

section \<open>A request\<close>

definition few_sent :: "bridge \<Rightarrow> bool" where
  "few_sent b \<longleftrightarrow> length (zb_sent b) < 3000000000"

lemma few_room: "few_sent b \<Longrightarrow> length held < 9 \<Longrightarrow> room held b"
  by (simp add: few_sent_def room_def)

text \<open>While the thread waits, other threads change the streams, and ZeroMQ lets go of frames.\<close>

definition only_releases :: "wait_step \<Rightarrow> bool" where
  "only_releases t \<longleftrightarrow> (\<forall>mgr b. \<exists>as. snd (wt_others t (mgr, b)) = fold free_bgr_frame_msg as b)"

lemma owned_releases:
  "owned [] b \<Longrightarrow> few_sent b \<Longrightarrow> owned [] (fold free_bgr_frame_msg as b) \<and> few_sent (fold free_bgr_frame_msg as b)"
proof (induction as arbitrary: b)
  case (Cons a as)
  have "few_sent (free_bgr_frame_msg a b)"
    using Cons.prems(2) by (auto simp: few_sent_def free_bgr_frame_msg_def length_remove1)
  then show ?case using Cons owned_release [OF Cons.prems(1) few_room [OF Cons.prems(2)]] by simp
qed simp

lemma free_keeps_frame: "zb_heap (free_bgr_frame o' b) a = Some (n, f) \<Longrightarrow> \<exists>m. zb_heap b a = Some (m, f)"
  by (auto simp: free_bgr_frame_def split: option.splits if_splits prod.splits)

lemma store_keeps_frame:
  "zb_heap (store_in_cache sid a' b) a = Some (n, f) \<Longrightarrow> \<exists>m. zb_heap b a = Some (m, f)"
  by (auto simp: store_in_cache_def Let_def retain_bgr_frame_def split: option.splits if_splits prod.splits
    dest!: free_keeps_frame)

lemma store_simps [simp]:
  "zb_sent (store_in_cache sid a b) = zb_sent b"
  by (simp add: store_in_cache_def Let_def split: option.split)

lemma owned_convert:
  assumes "owned [] b" and "few_sent b" and "convert_last_frame_to_bgr e s b = (rc, p, b')"
  shows "zb_sent b' = zb_sent b"
    and "rc = - 1 \<and> p = None \<and> owned [] b' \<or>
      (\<exists>a n f. rc = 0 \<and> p = Some a \<and> owned [a] b' \<and> zb_heap b' a = Some (n, f) \<and> zf_stream_id f = st_stream_id s)"
proof -
  consider (fails) g where "rc = - 1" "p = None" "b' = b\<lparr>zb_conv := g\<rparr>"
    | (cached) a n f g where "rc = 0" "p = Some a" "zb_heap b a = Some (n, f)" "zf_stream_id f = st_stream_id s"
       "b' = retain_bgr_frame a (b\<lparr>zb_conv := g\<rparr>)"
    | (made) f g where "rc = 0" "p = Some (zb_next b)" "zf_stream_id f = st_stream_id s"
       "b' = store_in_cache (st_stream_id s) (zb_next b) (snd (new_bgr_frame f (b\<lparr>zb_conv := g\<rparr>)))"
    using convert_shape [OF assms(3)] by blast
  then have "zb_sent b' = zb_sent b \<and> (rc = - 1 \<and> p = None \<and> owned [] b' \<or>
      (\<exists>a n f. rc = 0 \<and> p = Some a \<and> owned [a] b' \<and> zb_heap b' a = Some (n, f) \<and> zf_stream_id f = st_stream_id s))"
  proof cases
    case fails
    then show ?thesis using assms(1) by simp
  next
    case cached
    have "owned [a] b'" using owned_retain [of "[]" "b\<lparr>zb_conv := g\<rparr>"] cached assms(1) by simp
    then show ?thesis using cached by (auto simp: retain_bgr_frame_def)
  next
    case made
    let ?b1 = "snd (new_bgr_frame f (b\<lparr>zb_conv := g\<rparr>))"
    have own: "owned [zb_next b] ?b1" using owned_new [of "[]" "b\<lparr>zb_conv := g\<rparr>" f] assms(1) by simp
    have at: "zb_heap ?b1 (zb_next b) = Some (1, f)" by (simp add: new_bgr_frame_def)
    have "owned [zb_next b] b'"
      unfolding made(4) by (rule owned_store [OF own at]) (use few_room [OF assms(2)] in simp)
    moreover obtain n f' where n: "zb_heap b' (zb_next b) = Some (n, f')"
      using owned_live [OF calculation, of "zb_next b"] by (auto simp: refs_def)
    moreover have "f' = f"
    proof -
      obtain m where "zb_heap ?b1 (zb_next b) = Some (m, f')" using store_keeps_frame n made(4) by blast
      then show ?thesis using at by simp
    qed
    moreover have "zb_sent b' = zb_sent b" using made(4) by (simp add: new_bgr_frame_def)
    ultimately show ?thesis using made by auto
  qed
  then show "zb_sent b' = zb_sent b"
    and "rc = - 1 \<and> p = None \<and> owned [] b' \<or>
      (\<exists>a n f. rc = 0 \<and> p = Some a \<and> owned [a] b' \<and> zb_heap b' a = Some (n, f) \<and> zf_stream_id f = st_stream_id s)"
    by auto
qed

text \<open>The frame a request ends its wait with, held by the thread.\<close>

definition in_hand :: "nat \<Rightarrow> nat option \<Rightarrow> StreamManager \<Rightarrow> bridge \<Rightarrow> bool" where
  "in_hand i p mgr b \<longleftrightarrow> (case p of None \<Rightarrow> owned [] b | Some a \<Rightarrow> owned [a] b \<and>
     (\<exists>n f. zb_heap b a = Some (n, f) \<and> zf_stream_id f = st_stream_id (sm_streams mgr i)))"

lemma convert_in_hand:
  assumes "owned [] b" and "few_sent b" and "convert_last_frame_to_bgr e (sm_streams mgr i) b = (rc, p, b')"
  shows "in_hand i p mgr b' \<and> few_sent b' \<and> (rc = 0 \<longleftrightarrow> p \<noteq> None)"
  using owned_convert [OF assms] assms(2) by (auto simp: in_hand_def few_sent_def)

lemma wait_in_hand:
  assumes "wait_frame timeout deadline i ts (mgr, b) = Some (p, mgr', b')" and "owned [] b" and "few_sent b"
    and "\<And>t. t \<in> set ts \<Longrightarrow> only_releases t"
  shows "in_hand i p mgr' b' \<and> few_sent b'"
  using assms
proof (induction ts arbitrary: mgr b)
  case (Cons t ts)
  show ?case
  proof (cases "timeout < 0 \<or> wt_now t < deadline")
    case False
    then show ?thesis using Cons.prems by (auto simp: in_hand_def)
  next
    case True
    obtain m1 b1 where g1: "wt_others t (mgr, b) = (m1, b1)" by fastforce
    obtain as where "b1 = fold free_bgr_frame_msg as b"
      using Cons.prems(4) [of t] g1 unfolding only_releases_def by (metis list.set_intros(1) snd_conv)
    then have b1: "owned [] b1" "few_sent b1" using owned_releases [OF Cons.prems(2,3)] by auto
    obtain rc q b2 where c: "convert_last_frame_to_bgr (wt_try t) (sm_streams m1 i) b1 = (rc, q, b2)"
      by (metis prod_cases3)
    note h = convert_in_hand [OF b1 c]
    show ?thesis
    proof (cases "rc = 0")
      case True
      then show ?thesis using Cons.prems(1) \<open>timeout < 0 \<or> wt_now t < deadline\<close> g1 c h by auto
    next
      case False
      then have "owned [] b2" using h by (auto simp: in_hand_def)
      then show ?thesis using Cons False \<open>timeout < 0 \<or> wt_now t < deadline\<close> g1 c h by simp
    qed
  qed
qed simp

lemma get_in_hand:
  assumes "get_frame e timeout i (mgr, b) = Some (p, mgr', b')" and "owned [] b" and "few_sent b"
    and "\<And>t. t \<in> set (rq_waits e) \<Longrightarrow> only_releases t"
  shows "in_hand i p mgr' b' \<and> few_sent b'"
proof -
  obtain rc q b1 where c: "convert_last_frame_to_bgr (rq_first e) (sm_streams mgr i) b = (rc, q, b1)"
    by (metis prod_cases3)
  note h = convert_in_hand [OF assms(2,3) c]
  show ?thesis
  proof (cases "rc \<noteq> 0 \<and> timeout \<noteq> 0")
    case True
    then have "owned [] b1" using h by (auto simp: in_hand_def)
    then show ?thesis using wait_in_hand [OF _ _ _ assms(4)] assms(1) c h True by (simp add: get_frame_def)
  next
    case False
    then show ?thesis using assms(1) c h by (auto simp: get_frame_def)
  qed
qed

lemma send_owned:
  assumes "send_bgr_frame_owned ans r v = (out, v')" and "owned [r] v" and "few_sent v" and "zb_heap v r = Some (n, f)"
  shows "owned [] v'" and "length (zb_sent v') \<le> Suc (length (zb_sent v))"
    and "if ans = Sent then out = [(Image r, False)] \<and> zb_heap v' r = Some (n, f) \<and> r \<in> set (zb_sent v') else out = []"
  using assms owned_send [OF assms(2)] owned_free [OF assms(2) few_room [OF assms(3)]]
  by (auto simp: send_bgr_frame_owned_def split: send_answer.splits)

text \<open>The frame a reply carries: the frame of the stream, or the asked region of it.\<close>

definition carried :: "ZmqBgrFrame \<Rightarrow> ZmqRoiRequest \<Rightarrow> ZmqResolvedRoi \<Rightarrow> ZmqBgrFrame \<Rightarrow> bool" where
  "carried F req roi f \<longleftrightarrow> resolve_bgr_roi F req = Some roi \<and>
     (if rr_applied roi then crop_bgr_frame True True F roi = Some f else f = F)"

definition whole_reply :: "send_answer \<Rightarrow> ZmqBgrFrame \<Rightarrow> ZmqResolvedRoi \<Rightarrow> zout list \<Rightarrow> bridge \<Rightarrow> bool" where
  "whole_reply ans f roi out b \<longleftrightarrow> (\<exists>img. out = [(Text ''OK'', True), (Text (meta_text f (rr_applied roi)), True)] @ img \<and>
     (if ans = Sent then \<exists>a n. img = [(Image a, False)] \<and> zb_heap b a = Some (n, f) \<and> a \<in> set (zb_sent b) else img = []))"

lemma crop_some: "crop_bgr_frame m c F roi = Some f \<Longrightarrow> crop_bgr_frame True True F roi = Some f"
  by (auto simp: crop_bgr_frame_def split: if_splits)

lemma reply_owned:
  assumes "reply_frame e req a b = (out, b')" and "owned [a] b" and "few_sent b" and F: "zb_heap b a = Some (n, F)"
  shows "owned [] b' \<and> length (zb_sent b') \<le> Suc (length (zb_sent b)) \<and>
    (out \<in> {send_error ''bad roi'', send_error ''roi crop failed''} \<or>
     (\<exists>roi f. carried F req roi f \<and> whole_reply (rq_send e) f roi out b'))"
proof -
  note freed = owned_free [OF assms(2) few_room [OF assms(3)]]
  show ?thesis
  proof (cases "resolve_bgr_roi F req")
    case None
    then show ?thesis using assms freed by (auto simp: reply_frame_def)
  next
    case (Some roi)
    show ?thesis
    proof (cases "rr_applied roi")
      case False
      obtain img v where s: "send_bgr_frame_owned (rq_send e) a b = (img, v)" by fastforce
      then have "out = [(Text ''OK'', True), (Text (meta_text F (rr_applied roi)), True)] @ img" "b' = v"
        using assms(1) Some False F by (auto simp: reply_frame_def)
      then show ?thesis using send_owned [OF s assms(2,3) F] Some False
        by (auto simp: carried_def whole_reply_def split: if_splits)
    next
      case True
      show ?thesis
      proof (cases "crop_bgr_frame (rq_crop_malloc e) (rq_crop_calloc e) F roi")
        case None
        then show ?thesis using assms freed Some True by (auto simp: reply_frame_def)
      next
        case (Some f)
        let ?b1 = "snd (new_bgr_frame f b)"
        let ?r = "zb_next b"
        obtain img v where s: "send_bgr_frame_owned (rq_send e) ?r (free_bgr_frame a ?b1) = (img, v)" by fastforce
        then have out: "out = [(Text ''OK'', True), (Text (meta_text f (rr_applied roi)), True)] @ img" "b' = v"
          using assms(1) Some True F \<open>resolve_bgr_roi F req = Some roi\<close>
          by (auto simp: reply_frame_def new_bgr_frame_def)
        have "owned [?r, a] ?b1" by (rule owned_new [OF assms(2)])
        then have "owned [a, ?r] ?b1" by (rule owned_move) (auto simp: refs_def)
        then have own: "owned [?r] (free_bgr_frame a ?b1)"
          by (rule owned_free) (use few_room [OF assms(3)] in simp)
        have few: "few_sent (free_bgr_frame a ?b1)" using assms(3) by (simp add: few_sent_def new_bgr_frame_def)
        have "a \<noteq> ?r" using assms(2) F by (auto simp: owned_def)
        then have at: "zb_heap (free_bgr_frame a ?b1) ?r = Some (1, f)"
          by (auto simp: free_bgr_frame_def new_bgr_frame_def split: option.splits)
        have sent: "zb_sent (free_bgr_frame a ?b1) = zb_sent b" by (simp add: new_bgr_frame_def)
        have "carried F req roi f"
          using crop_some [OF Some] True \<open>resolve_bgr_roi F req = Some roi\<close> by (simp add: carried_def)
        then show ?thesis using send_owned [OF s own few at] out sent
          by (auto simp: whole_reply_def split: if_splits)
      qed
    qed
  qed
qed

text \<open>The replies to a request.\<close>

definition bridge_errors :: "string set" where
  "bridge_errors = {''unknown cmd'', ''bad roi'', ''bad stream_id'', ''no frame yet'', ''roi crop failed''}"

definition replies :: "request_env \<Rightarrow> string \<Rightarrow> string \<Rightarrow> StreamManager \<Rightarrow> StreamManager \<Rightarrow> bridge \<Rightarrow> zout list \<Rightarrow> bool" where
  "replies e cmd json mgr mgr' b' out \<longleftrightarrow>
     cmd = ''PING'' \<and> out = [(Text ''OK'', True), (Text ''{}'', False)] \<or>
     out \<in> send_error ` bridge_errors \<or>
     cmd = ''GET_LATEST_BGR'' \<and>
     (\<exists>i F roi f. stream_manager_get mgr (word_of_int (parse_stream_id_from_json json)) = Some i \<and>
        zf_stream_id F = st_stream_id (sm_streams mgr' i) \<and>
        carried F (snd (parse_roi_from_json json)) roi f \<and> whole_reply (rq_send e) f roi out b')"

lemma answer_owned:
  assumes "answer e cmd json (mgr, b) = Some (out, mgr', b')" and "owned [] b" and "few_sent b"
    and "\<forall>t\<in>set (rq_waits e). only_releases t"
  shows "owned [] b' \<and> replies e cmd json mgr mgr' b' out"
proof (cases "cmd = ''GET_LATEST_BGR'' \<and> \<not> fst (parse_roi_from_json json) < 0")
  case False
  then show ?thesis using assms(1,2)
    by (auto simp: replies_def bridge_errors_def answer_def get_latest_bgr_def split: if_splits prod.splits)
next
  case True
  then have get: "get_latest_bgr e json (mgr, b) = Some (out, mgr', b')" using assms(1) by (simp add: answer_def)
  show ?thesis
  proof (cases "stream_manager_get mgr (word_of_int (parse_stream_id_from_json json))")
    case None
    then show ?thesis using get True assms(2) by (auto simp: replies_def bridge_errors_def get_latest_bgr_def split: prod.splits)
  next
    case (Some i)
    obtain p m1 b1 where g: "get_frame e (parse_timeout_ms_from_json json 1000) i (mgr, b) = Some (p, m1, b1)"
      using get True Some by (auto simp: get_latest_bgr_def split: prod.splits option.splits)
    have h: "in_hand i p m1 b1" "few_sent b1" using get_in_hand [OF g assms(2,3)] assms(4) by auto
    show ?thesis
    proof (cases p)
      case None
      then show ?thesis using get True Some g h \<open>stream_manager_get mgr _ = Some i\<close>
        by (auto simp: replies_def bridge_errors_def get_latest_bgr_def in_hand_def split: prod.splits)
    next
      case (Some a)
      obtain n F where F: "owned [a] b1" "zb_heap b1 a = Some (n, F)" "zf_stream_id F = st_stream_id (sm_streams m1 i)"
        using h Some by (auto simp: in_hand_def)
      have r: "reply_frame e (snd (parse_roi_from_json json)) a b1 = (out, b')" "mgr' = m1"
        using get True Some g \<open>stream_manager_get mgr _ = Some i\<close> by (auto simp: get_latest_bgr_def split: prod.splits)
      note h2 = reply_owned [OF r(1) F(1) h(2) F(2)]
      have "replies e cmd json mgr mgr' b' out"
      proof (cases "out \<in> {send_error ''bad roi'', send_error ''roi crop failed''}")
        case True
        then have "out \<in> send_error ` bridge_errors" by (auto simp: bridge_errors_def)
        then show ?thesis unfolding replies_def by (rule disjI2 [OF disjI1])
      next
        case False
        then obtain roi f where "carried F (snd (parse_roi_from_json json)) roi f" "whole_reply (rq_send e) f roi out b'"
          using h2 by blast
        moreover have "zf_stream_id F = st_stream_id (sm_streams mgr' i)" using F(3) r(2) by simp
        moreover have "cmd = ''GET_LATEST_BGR''" using \<open>cmd = _ \<and> _\<close> by simp
        ultimately show ?thesis using \<open>stream_manager_get mgr _ = Some i\<close> unfolding replies_def
          by (intro disjI2 conjI exI [of _ i] exI [of _ F] exI [of _ roi] exI [of _ f])
      qed
      then show ?thesis using h2 by simp
    qed
  qed
qed

section \<open>The life of a bridge\<close>

inductive bridge_runs :: "bridge \<Rightarrow> bool" where
  started: "zmq_bridge_start e False max_streams addr ipc g u = (0, Some b, u') \<Longrightarrow> bridge_runs b"
| request: "bridge_runs b \<Longrightarrow> few_sent b \<Longrightarrow> \<forall>t\<in>set (rq_waits e). only_releases t \<Longrightarrow>
    answer e cmd json (mgr, b) = Some (out, mgr', b') \<Longrightarrow> bridge_runs b'"
| sent: "bridge_runs b \<Longrightarrow> few_sent b \<Longrightarrow> bridge_runs (free_bgr_frame_msg a b)"

lemma start_owned: "zmq_bridge_start e st max_streams addr ipc g u = (0, Some b, u') \<Longrightarrow> owned [] b"
proof -
  assume "zmq_bridge_start e st max_streams addr ipc g u = (0, Some b, u')"
  then have b: "zb_heap b = (\<lambda>_. None)" "zb_cache b = (\<lambda>_. None)" "zb_sent b = []" "zb_cache_count b = unat max_streams + 1"
    by (auto simp: zmq_bridge_start_def split: if_splits prod.splits)
  have "unat max_streams < 65536" using unsigned_less [of max_streams] by simp
  then show ?thesis using b by (simp add: owned_def refs_def cached_refs_def)
qed

lemma runs_owned: "bridge_runs b \<Longrightarrow> owned [] b"
proof (induction rule: bridge_runs.induct)
  case (started e max_streams addr ipc g u b u')
  then show ?case by (rule start_owned)
next
  case (request b e cmd json mgr out mgr' b')
  then show ?case using answer_owned by blast
next
  case (sent b a)
  then show ?case using owned_release few_room by simp
qed

section \<open>The end of the bridge\<close>

lemma clear_keeps:
  "owned [] b \<Longrightarrow> few_sent b \<Longrightarrow> set js \<subseteq> {..<zb_cache_count b} \<Longrightarrow>
   owned [] (clear_entries js b) \<and> zb_sent (clear_entries js b) = zb_sent b \<and>
   zb_cache_count (clear_entries js b) = zb_cache_count b \<and>
   zb_cache (clear_entries js b) = (\<lambda>i. if i \<in> set js then None else zb_cache b i)"
proof (induction js arbitrary: b)
  case (Cons i js)
  show ?case
  proof (cases "zb_cache b i")
    case None
    then show ?thesis using Cons by (auto simp: fun_eq_iff)
  next
    case (Some a)
    let ?b1 = "(free_bgr_frame a b)\<lparr>zb_cache := (zb_cache b)(i := None)\<rparr>"
    have "owned [a] (b\<lparr>zb_cache := (zb_cache b)(i := None)\<rparr>)"
      using owned_cache_take [OF Cons.prems(1) _ Some] Cons.prems(3) by simp
    then have "owned [] (free_bgr_frame a (b\<lparr>zb_cache := (zb_cache b)(i := None)\<rparr>))"
      by (rule owned_free) (use few_room [OF Cons.prems(2)] in simp)
    then have "owned [] ?b1" by (simp only: free_commutes)
    moreover have "few_sent ?b1" using Cons.prems(2) by (simp add: few_sent_def)
    moreover have "set js \<subseteq> {..<zb_cache_count ?b1}" using Cons.prems(3) by simp
    ultimately have "owned [] (clear_entries js ?b1) \<and> zb_sent (clear_entries js ?b1) = zb_sent ?b1 \<and>
       zb_cache_count (clear_entries js ?b1) = zb_cache_count ?b1 \<and>
       zb_cache (clear_entries js ?b1) = (\<lambda>i. if i \<in> set js then None else zb_cache ?b1 i)"
      by (rule Cons.IH)
    then show ?thesis using Some by (auto simp: fun_eq_iff)
  qed
qed simp

lemma clear_owned:
  assumes "owned [] b" and "few_sent b"
  shows "owned [] (clear_cached_bgr_frames b)" and "zb_sent (clear_cached_bgr_frames b) = zb_sent b"
    and "zb_cache_count (clear_cached_bgr_frames b) = 0"
proof -
  let ?c = "clear_entries [0..<zb_cache_count b] b"
  have sub: "set [0..<zb_cache_count b] \<subseteq> {..<zb_cache_count b}" by auto
  have k: "owned [] ?c" "zb_sent ?c = zb_sent b" "zb_cache_count ?c = zb_cache_count b" "\<forall>i<zb_cache_count b. zb_cache ?c i = None"
    using clear_keeps [OF assms sub] by auto
  have "refs [] (clear_cached_bgr_frames b) a = refs [] ?c a" for a
    using k by (auto simp: refs_def clear_cached_bgr_frames_def cached_refs_def)
  then have "refs [] (clear_cached_bgr_frames b) = refs [] ?c" by (rule ext)
  moreover have "owned [] ?c" using k by auto
  ultimately show "owned [] (clear_cached_bgr_frames b)"
    by (simp add: owned_def) (simp add: clear_cached_bgr_frames_def)
  show "zb_sent (clear_cached_bgr_frames b) = zb_sent b" using k by (auto simp: clear_cached_bgr_frames_def)
  show "zb_cache_count (clear_cached_bgr_frames b) = 0" by (simp add: clear_cached_bgr_frames_def)
qed

lemma all_sent:
  "owned [] b \<Longrightarrow> few_sent b \<Longrightarrow> zb_sent b = as \<Longrightarrow>
   owned [] (fold free_bgr_frame_msg as b) \<and> zb_sent (fold free_bgr_frame_msg as b) = [] \<and>
   zb_cache_count (fold free_bgr_frame_msg as b) = zb_cache_count b"
proof (induction as arbitrary: b)
  case (Cons a as)
  have s: "zb_sent (free_bgr_frame_msg a b) = as" "zb_cache_count (free_bgr_frame_msg a b) = zb_cache_count b"
    using Cons.prems(3) by (simp_all add: free_bgr_frame_msg_def)
  have "few_sent (free_bgr_frame_msg a b)" using Cons.prems(2,3) s by (simp add: few_sent_def)
  then show ?case using Cons.IH [of "free_bgr_frame_msg a b"] owned_release [OF Cons.prems(1) few_room [OF Cons.prems(2)]] s
    by simp
qed simp

text \<open>C5: no frame of the bridge is freed twice, used after it was freed, or leaked: at every moment of its
  life the counter of a frame is the number of cache entries and unsent messages that hold it, a
  freed frame is held by nobody, and once the bridge has closed and ZeroMQ has let go of the
  messages it still held, no frame is left, whatever the requests, failures and streams were.\<close>

theorem bridge_frames_owned:
  assumes "bridge_runs b" and "few_sent b"
  shows "(\<forall>a. case zb_heap b a of
      None \<Rightarrow> a \<notin> set (zb_sent b) \<and> (\<forall>i<zb_cache_count b. zb_cache b i \<noteq> Some a)
    | Some (n, f) \<Rightarrow> unat n = cached_refs (zb_cache b) (zb_cache_count b) a + count_list (zb_sent b) a \<and> 0 < unat n) \<and>
    (let closed = fst (bridge_close addr ipc b u) in zb_heap (fold free_bgr_frame_msg (zb_sent closed) closed) = (\<lambda>_. None))"
proof
  note own = runs_owned [OF assms(1)]
  show "\<forall>a. case zb_heap b a of
      None \<Rightarrow> a \<notin> set (zb_sent b) \<and> (\<forall>i<zb_cache_count b. zb_cache b i \<noteq> Some a)
    | Some (n, f) \<Rightarrow> unat n = cached_refs (zb_cache b) (zb_cache_count b) a + count_list (zb_sent b) a \<and> 0 < unat n"
  proof
    fix a
    have small: "refs [] b a < 2 ^ 32" by (rule refs_small [OF own few_room [OF assms(2)]]) simp
    show "case zb_heap b a of
      None \<Rightarrow> a \<notin> set (zb_sent b) \<and> (\<forall>i<zb_cache_count b. zb_cache b i \<noteq> Some a)
    | Some (n, f) \<Rightarrow> unat n = cached_refs (zb_cache b) (zb_cache_count b) a + count_list (zb_sent b) a \<and> 0 < unat n"
    proof (cases "zb_heap b a")
      case None
      then have "refs [] b a = 0" by (rule refs_dead [OF own])
      then show ?thesis using None by (auto simp: refs_def cached_refs_def count_list_0_iff)
    next
      case (Some c)
      then obtain n f where c: "zb_heap b a = Some (n, f)" by (cases c) simp
      then have "unat n = refs [] b a \<and> 0 < refs [] b a"
        using owned_some [OF own c] unat_small [OF small] by simp
      then show ?thesis using c by (simp add: refs_def)
    qed
  qed
  let ?closed = "fst (bridge_close addr ipc b u)"
  have few: "few_sent ?closed" using clear_owned(2) [OF own assms(2)] assms(2) by (simp add: bridge_close_def few_sent_def)
  let ?e = "fold free_bgr_frame_msg (zb_sent ?closed) ?closed"
  have e: "owned [] ?e" "zb_sent ?e = []" "zb_cache_count ?e = 0"
    using all_sent [OF _ few refl] clear_owned [OF own assms(2)] by (simp_all add: bridge_close_def)
  have "zb_heap ?e a = None" for a
  proof (cases "zb_heap ?e a")
    case (Some c)
    then show ?thesis using owned_some [OF e(1), of a "fst c" "snd c"] e by (simp add: refs_def cached_refs_def)
  qed
  then show "let closed = ?closed in zb_heap (fold free_bgr_frame_msg (zb_sent closed) closed) = (\<lambda>_. None)"
    by (simp add: fun_eq_iff)
qed

section \<open>A bridge that serves a picture\<close>

definition ex_conv :: conv_env where
  "ex_conv = \<lparr>cv_libyuv = True, cv_avx2 = False, cv_malloc_fast = True, cv_yuv = (\<lambda>_ _ _ _ _ _. (- 1, [])),
     cv_avf_color = (\<lambda>_. (AVCOL_SPC_BT709, AVCOL_RANGE_MPEG)), cv_sws_context = True, cv_sws_details = (\<lambda>_ _. 0),
     cv_malloc_sws = True, cv_scale = (\<lambda>_ _ _ _ _ _ _. (0, [])), cv_download = undefined, cv_malloc_planes = (\<lambda>_. True)\<rparr>"

definition ex_attempt :: attempt_env where
  "ex_attempt = \<lparr>ab_ref_calloc = True, ab_ref_clone = True, ab_ref_malloc = (\<lambda>_. True), ab_owner = OwnerThread,
     ab_conv = ex_conv, ab_calloc = True, ab_now = 5\<rparr>"

definition ex_request :: request_env where
  "ex_request = \<lparr>rq_first = ex_attempt, rq_clock = 0, rq_waits = [], rq_crop_malloc = True, rq_crop_calloc = True,
     rq_send = Sent\<rparr>"

definition ex_conv_state :: conv_state where
  "ex_conv_state = \<lparr>co_world = av_world_init, co_sws = \<lparr>sw_live = (\<lambda>_. None), sw_next = 0, sw_cached = None\<rparr>,
     co_stats = \<lparr>cs_bgr24_request_count = 0, cs_libyuv_bgr24_count = 0, cs_vuyx_bgr24_count = 0, cs_swscale_count = 0\<rparr>\<rparr>"

definition ex_bridge :: bridge where
  "ex_bridge = \<lparr>zb_cache = (\<lambda>_. None), zb_cache_count = 3, zb_heap = (\<lambda>_. None), zb_next = 0, zb_sent = [],
     zb_conv = ex_conv_state\<rparr>"

definition ex_frame :: DecodedFrame where
  "ex_frame = zero_frame\<lparr>df_data := [Some [128, 128, 16, 0, 128, 128, 235, 0], None, None, None],
     df_linesize := [8, 0, 0, 0], df_width := 2, df_height := 1, df_format := DECODE_FMT_VUYX, df_pts := 9\<rparr>"

definition ex_mgr :: StreamManager where
  "ex_mgr = \<lparr>sm_streams = (\<lambda>i. zero_stream_ctx\<lparr>st_stream_id := of_nat i + 1, st_last_frame := Some ex_frame\<rparr>),
     sm_max_streams = 2, sm_locked = False, sm_stress_test = zero_stress\<rparr>"

lemma ex_bridge_runs: "bridge_runs ex_bridge" "few_sent ex_bridge"
proof -
  let ?e = "\<lparr>be_calloc = True, be_cache = True, be_thread = True, be_context = True, be_socket = True, be_bind = (\<lambda>_. True)\<rparr>"
  have "zmq_bridge_start ?e False 2 (Some ''tcp://*:5555'') None ex_conv_state [] = (0, Some ex_bridge, [])"
    by (simp add: zmq_bridge_start_def bridge_open_def bridge_addr_def has_bind_addr_def bind_router_endpoint_def
      cleanup_ipc_bind_addr_def ipc_path_from_bind_addr_def ex_bridge_def)
  then show "bridge_runs ex_bridge" by (rule bridge_runs.started)
  show "few_sent ex_bridge" by (simp add: few_sent_def ex_bridge_def)
qed

lemma ex_snapshot:
  "decoder_ref_frame True True (\<lambda>_. True) (Some ex_frame) w = (Some ex_frame, w\<lparr>w_frames := w_frames w + 1\<rparr>)"
  by (simp add: decoder_ref_frame_def ex_frame_def zero_frame_def copy_cpu_frame_data_def Let_def
    av_format_from_decode_def plane_height_for_pix_fmt_def)

definition ex_bgr :: "u8 list" where
  "ex_bgr = vuyx_rows False (vuyx_bgr_coeffs_from_info (Some zero_info)) 2 1 8 [128, 128, 16, 0, 128, 128, 235, 0]"

lemma ex_converted:
  "\<exists>g'. decoder_convert_format_with_info ex_conv OwnerThread ex_frame (Some zero_info) zero_frame DECODE_FMT_BGR24 g =
    (0, bgr_frame ex_frame DECODE_FMT_BGR24 6 (Some ex_bgr), g')"
proof -
  have "decoder_fast_convert_to_bgr24 ex_conv ex_frame (Some zero_info) zero_frame =
      (0, bgr_frame ex_frame DECODE_FMT_BGR24 6 (Some ex_bgr))"
    by (simp add: decoder_fast_convert_to_bgr24_def decoder_fast_convert_vuyx_to_bgr24_def ex_frame_def zero_frame_def
      ex_conv_def ex_bgr_def)
  moreover have "df_storage ex_frame = DECODE_STORAGE_CPU" by (simp add: ex_frame_def zero_frame_def)
  moreover have "cv_libyuv ex_conv" by (simp add: ex_conv_def)
  ultimately show ?thesis by (simp add: decoder_convert_format_with_info_def Let_def)
qed

lemma ex_converts:
  "\<exists>b'. convert_last_frame_to_bgr ex_attempt (sm_streams ex_mgr 0) ex_bridge = (0, Some 0, b') \<and>
    zb_heap b' 0 = Some (2, bgr_of_converted ex_attempt 1 zero_info DECODE_FMT_VUYX (bgr_frame ex_frame DECODE_FMT_BGR24 6 (Some ex_bgr)) ex_bgr)"
proof -
  let ?w = "\<lambda>b. set_world ((bridge_world b)\<lparr>w_frames := w_frames (bridge_world b) + 1\<rparr>) b"
  obtain g' where c: "decoder_convert_format_with_info ex_conv OwnerThread ex_frame (Some zero_info) zero_frame
      DECODE_FMT_BGR24 (zb_conv (?w ex_bridge)) = (0, bgr_frame ex_frame DECODE_FMT_BGR24 6 (Some ex_bgr), g')"
    using ex_converted by blast
  have s: "st_last_frame (sm_streams ex_mgr 0) = Some ex_frame" "st_stream_id (sm_streams ex_mgr 0) = 1"
    "st_info (sm_streams ex_mgr 0) = zero_info"
    by (simp_all add: ex_mgr_def zero_stream_ctx_def)
  have f: "df_width ex_frame = 2" "df_height ex_frame = 1" "df_format ex_frame = DECODE_FMT_VUYX" by (simp_all add: ex_frame_def)
  have a: "ab_ref_calloc ex_attempt" "ab_ref_clone ex_attempt" "ab_ref_malloc ex_attempt = (\<lambda>_. True)"
    "ab_owner ex_attempt = OwnerThread" "ab_conv ex_attempt = ex_conv" "ab_calloc ex_attempt"
    by (simp_all add: ex_attempt_def)
  have h: "cache_hit 1 ex_frame zero_info (?w ex_bridge) = None" by (simp add: cache_hit_def ex_bridge_def set_world_conv)
  show ?thesis
    using c h by (simp add: convert_last_frame_to_bgr_def s f a ex_snapshot Let_def new_bgr_frame_def store_in_cache_def
      retain_bgr_frame_def ex_bridge_def set_world_def)
qed

lemma ex_served:
  "\<exists>meta img b'. answer ex_request ''GET_LATEST_BGR'' (request_text 1 0 (1, - 4, 5, 9)) (ex_mgr, ex_bridge) =
     Some ([(Text ''OK'', True), (Text meta, True), (Image img, False)], ex_mgr, b') \<and> zb_sent b' = [img]"
proof -
  let ?json = "request_text 1 0 (1, - 4, 5, 9)"
  let ?F = "bgr_of_converted ex_attempt 1 zero_info DECODE_FMT_VUYX (bgr_frame ex_frame DECODE_FMT_BGR24 6 (Some ex_bgr)) ex_bgr"
  let ?req = "\<lparr>rq_requested = True, rq_x = 1, rq_y = - 4, rq_w = 5, rq_h = 9\<rparr>"
  have read: "parse_stream_id_from_json ?json = 1" "parse_timeout_ms_from_json ?json 1000 = 0" "parse_roi_from_json ?json = (1, ?req)"
    using stream_id_read [of 1] timeout_read [of 0] roi_read [of 1 "- 4" 5 9] by (simp_all add: c_int_def INT_MAX_def)
  obtain b1 where c: "convert_last_frame_to_bgr ex_attempt (sm_streams ex_mgr 0) ex_bridge = (0, Some 0, b1)"
    "zb_heap b1 0 = Some (2, ?F)" using ex_converts by blast
  have sent: "zb_sent b1 = []"
    using owned_convert(1) [OF runs_owned [OF ex_bridge_runs(1)] ex_bridge_runs(2) c(1)] by (simp add: ex_bridge_def)
  have i: "stream_manager_get ex_mgr 1 = Some 0" by (simp add: stream_manager_get_def ex_mgr_def)
  have F: "zf_width ?F = 2" "zf_height ?F = 1" "zf_stride ?F = 6"
    by (simp_all add: bgr_of_converted_def ex_frame_def)
  have r: "\<exists>roi. resolve_bgr_roi ?F ?req = Some roi \<and> rr_applied roi \<and> rr_w roi = 1 \<and> rr_h roi = 1"
    by (simp add: resolve_bgr_roi_def F)
  show ?thesis
    using r read c i F sent
    by (auto simp: answer_def get_latest_bgr_def get_frame_def ex_request_def reply_frame_def crop_bgr_frame_def
        new_bgr_frame_def send_bgr_frame_owned_def)
qed

lemma bridge_frames_owned_witness:
  "\<exists>b. zb_sent b \<noteq> [] \<and> (let closed = fst (bridge_close (Some ''ipc:///tmp/z'') None b []) in
     zb_heap (fold free_bgr_frame_msg (zb_sent closed) closed) = (\<lambda>_. None))"
proof -
  obtain meta img b' where served: "answer ex_request ''GET_LATEST_BGR'' (request_text 1 0 (1, - 4, 5, 9)) (ex_mgr, ex_bridge) =
     Some ([(Text ''OK'', True), (Text meta, True), (Image img, False)], ex_mgr, b')" and sent: "zb_sent b' = [img]"
    using ex_served by blast
  have w: "\<forall>t\<in>set (rq_waits ex_request). only_releases t" by (simp add: ex_request_def)
  have "bridge_runs b'" by (rule bridge_runs.request [OF ex_bridge_runs w served])
  moreover have "few_sent b'" using sent by (simp add: few_sent_def)
  ultimately have "let closed = fst (bridge_close (Some ''ipc:///tmp/z'') None b' []) in
     zb_heap (fold free_bgr_frame_msg (zb_sent closed) closed) = (\<lambda>_. None)"
    using bridge_frames_owned [of b' "Some ''ipc:///tmp/z''" None "[]"] by blast
  then show ?thesis using sent by (intro exI [of _ b']) simp
qed

end
