(* ===== verification/BridgeFilled.thy ===== *)
theory BridgeFilled
  imports BridgeRefs
begin

text \<open>
  The pictures of the ZeroMQ bridge: every frame it keeps has all its rows, and a frame in the
  cache is a whole picture. Both hold along the bridge's life when libyuv and swscale fill the
  destinations they are given.
\<close>

section \<open>Conversions\<close>

lemma length_vuyx_pixels: "length (vuyx_pixels c n src) = n * 3"
  by (induction n arbitrary: src) simp_all

lemma length_avx2_row: "avx2_row c n src = (x, out) \<Longrightarrow> x \<le> n \<and> length out = x * 3"
proof (induction c n src arbitrary: x out rule: avx2_row.induct)
  case (1 c n src)
  have block: "length (avx2_block c raw) = 24" for raw
    unfolding avx2_block_def Let_def by (simp add: length_concat_const [where k = 3])
  show ?case
  proof (cases "8 \<le> n")
    case True
    obtain x1 out1 where r: "avx2_row c (n - 8) (drop 32 src) = (x1, out1)" by fastforce
    then have "x = x1 + 8" "out = avx2_block c (take 32 src) @ out1"
      using 1(2) True by (simp_all add: avx2_row.simps [of c n])
    then show ?thesis using 1(1) [OF True r] True block [of "take 32 src"] by auto
  next
    case False
    then show ?thesis using 1(2) by (simp add: avx2_row.simps [of c n])
  qed
qed

lemma length_vuyx_rows: "length (vuyx_rows avx c width height linesize plane) = height * (width * 3)"
proof -
  have "length (vuyx_row avx c width src) = width * 3" for src
    by (auto simp: vuyx_row_def length_vuyx_pixels simp flip: add_mult_distrib dest: length_avx2_row split: prod.split)
  then show ?thesis
    using length_concat_const [of "[0..<height]" "\<lambda>y. vuyx_row avx c width (drop (y * linesize) plane)" "width * 3"]
    by (simp add: vuyx_rows_def)
qed

text \<open>
  What libyuv and swscale are relied on for: a conversion that succeeds leaves a destination of
  as many rows as asked for, each of the length it was given.
\<close>

definition fills_destination :: "conv_env \<Rightarrow> bool" where
  "fills_destination e \<longleftrightarrow>
     (\<forall>fmt k ps ls w h. fst (cv_yuv e fmt k ps ls w h) = 0 \<longrightarrow>
        nat h * nat (w * 3) \<le> length (snd (cv_yuv e fmt k ps ls w h))) \<and>
     (\<forall>ps ls h stride fmt cs full. 0 < fst (cv_scale e ps ls h stride fmt cs full) \<longrightarrow>
        nat h * nat stride \<le> length (snd (cv_scale e ps ls h stride fmt cs full)))"

text \<open>A converted frame with all its rows, without padding.\<close>

definition full_plane :: "DecodedFrame \<Rightarrow> bool" where
  "full_plane f \<longleftrightarrow> df_linesize f ! 0 = df_width f * 3 \<and>
     (\<exists>bytes. df_data f ! 0 = Some bytes \<and> nat (df_height f) * nat (df_width f * 3) \<le> length bytes)"

lemma full_frame:
  "full_plane (bgr_frame src DECODE_FMT_BGR24 (df_width src * 3) (Some bytes)) \<longleftrightarrow>
     nat (df_height src) * nat (df_width src * 3) \<le> length bytes"
  by (simp add: full_plane_def)

lemma fast_full:
  assumes "decoder_fast_convert_to_bgr24 e src info dst0 = (0, dst)" and "fills_destination e"
  shows "full_plane dst"
proof -
  have fills: "fst (cv_yuv e fmt k ps ls w h) = 0 \<Longrightarrow> nat h * nat (w * 3) \<le> length (snd (cv_yuv e fmt k ps ls w h))"
    for fmt k ps ls w h using assms(2) unfolding fills_destination_def by blast
  consider (vuyx) "decoder_fast_convert_vuyx_to_bgr24 (cv_avx2 e) (cv_malloc_fast e) src info dst0 = (0, dst)"
    | (yuv) fmt k ps ls where "fst (cv_yuv e fmt k ps ls (df_width src) (df_height src)) = 0"
        "dst = bgr_frame src DECODE_FMT_BGR24 (df_width src * 3) (Some (snd (cv_yuv e fmt k ps ls (df_width src) (df_height src))))"
    using assms(1) unfolding decoder_fast_convert_to_bgr24_def Let_def by (simp split: if_splits)
  then show ?thesis
  proof cases
    case vuyx
    then show ?thesis
      by (auto simp: decoder_fast_convert_vuyx_to_bgr24_def full_frame length_vuyx_rows nat_mult_distrib
          split: if_splits option.splits)
  next
    case yuv
    then show ?thesis using fills by (simp only: full_frame)
  qed
qed

lemma sws_full:
  assumes "decoder_convert_with_sws e owner src info dst0 DECODE_FMT_BGR24 w = (0, dst, w')" and "fills_destination e"
  shows "full_plane dst"
proof -
  have bpp: "int (decode_format_bytes_per_pixel DECODE_FMT_BGR24) = 3" by (simp add: decode_format_bytes_per_pixel_def)
  obtain ps ls cs full scaled bytes where
    s: "cv_scale e ps ls (df_height src) (df_width src * 3) DECODE_FMT_BGR24 cs full = (scaled, bytes)" "0 < scaled"
      "dst = bgr_frame src DECODE_FMT_BGR24 (df_width src * 3) (Some bytes)"
    using assms(1) unfolding decoder_convert_with_sws_def Let_def bpp
    by (auto split: if_splits option.splits prod.splits)
  have "0 < fst (cv_scale e ps ls (df_height src) (df_width src * 3) DECODE_FMT_BGR24 cs full)" using s by simp
  then have "nat (df_height src) * nat (df_width src * 3) \<le> length bytes"
    using assms(2) s(1) unfolding fills_destination_def by (metis snd_conv)
  then show ?thesis unfolding s(3) full_frame .
qed

lemma convert_full:
  assumes "decoder_convert_format_with_info e owner src info dst0 DECODE_FMT_BGR24 g = (0, dst, g')"
    and "fills_destination e"
  shows "full_plane dst"
proof -
  obtain p g1 where src: "conv_source e src g = (p, g1)" by fastforce
  show ?thesis
  proof (cases p)
    case None
    then show ?thesis using assms(1) src by (simp add: decoder_convert_format_with_info_def)
  next
    case (Some sm)
    obtain s m where sm: "sm = (s, m)" by fastforce
    obtain frc fdst where f: "(if cv_libyuv e then decoder_fast_convert_to_bgr24 e s info zero_frame else (- 1, zero_frame)) = (frc, fdst)"
      by fastforce
    let ?g2 = "g1\<lparr>co_stats := record_bgr24_request (co_stats g1)\<rparr>"
    obtain rc d sw where sws: "decoder_convert_with_sws e owner s info fdst DECODE_FMT_BGR24 (co_sws ?g2) = (rc, d, sw)"
      by (metis prod_cases3)
    note run = assms(1) [unfolded decoder_convert_format_with_info_def Let_def src Some sm prod.case option.case]
    show ?thesis
    proof (cases "frc = 0")
      case True
      then have "dst = fdst" using run f by simp
      moreover have "decoder_fast_convert_to_bgr24 e s info zero_frame = (0, fdst)" using f True by (simp split: if_splits)
      ultimately show ?thesis using fast_full assms(2) by blast
    next
      case False
      then have "rc = 0 \<and> dst = d" using run f sws by (simp split: if_splits)
      then show ?thesis using sws_full sws assms(2) by blast
    qed
  qed
qed

section \<open>Frames\<close>

definition filled :: "ZmqBgrFrame \<Rightarrow> bool" where
  "filled f \<longleftrightarrow> zf_width f * 3 \<le> zf_stride f \<and> nat (zf_height f) * nat (zf_stride f) \<le> length (zf_bgr f)"

definition whole :: "ZmqBgrFrame \<Rightarrow> bool" where
  "whole f \<longleftrightarrow> filled f \<and> zf_roi_x f = 0 \<and> zf_roi_y f = 0"

lemma made_whole: "made_by e s f \<Longrightarrow> fills_destination (ab_conv e) \<Longrightarrow> whole f"
  using convert_full by (fastforce simp: made_by_def whole_def filled_def bgr_of_converted_def full_plane_def)

lemma resolved_ok: "filled f \<Longrightarrow> resolve_bgr_roi f req = Some roi \<Longrightarrow> bgr_ok f"
  by (auto simp: bgr_ok_def filled_def resolve_bgr_roi_def split: if_splits)

lemma unresolved_unwanted: "filled f \<Longrightarrow> resolve_bgr_roi f req = None \<Longrightarrow> \<not> wanted f req px py"
proof (cases "bgr_ok f")
  case False
  assume "filled f"
  then have "zf_width f \<le> 0 \<or> zf_height f \<le> 0" using False by (auto simp: bgr_ok_def filled_def)
  then show ?thesis by (auto simp: wanted_def)
qed (use resolve_none in blast)

lemma crop_filled:
  assumes "filled F" and "resolve_bgr_roi F req = Some roi" and "crop_bgr_frame m c F roi = Some f"
  shows "filled f"
proof -
  have "\<exists>g. crop_bgr_frame True True F roi = Some g \<and> bgr_ok g"
    by (rule region_cropped [OF assms(2) resolved_ok [OF assms(1,2)]]) simp
  then show ?thesis using crop_some [OF assms(3)] by (auto simp: bgr_ok_def filled_def)
qed

section \<open>The bridge\<close>

text \<open>Every frame has its rows, and the cache holds whole pictures.\<close>

definition pictures :: "bridge \<Rightarrow> bool" where
  "pictures b \<longleftrightarrow> (\<forall>a n f. zb_heap b a = Some (n, f) \<longrightarrow> filled f) \<and>
     (\<forall>i a. zb_cache b i = Some a \<longrightarrow> a < zb_next b \<and> (\<forall>n f. zb_heap b a = Some (n, f) \<longrightarrow> whole f))"

lemma pictures_upd [simp]:
  "pictures (b\<lparr>zb_conv := g\<rparr>) = pictures b" "pictures (b\<lparr>zb_sent := x\<rparr>) = pictures b"
  by (simp_all add: pictures_def)

lemma pictures_free: "pictures b \<Longrightarrow> pictures (free_bgr_frame a b)"
  unfolding pictures_def using free_keeps_frame by simp blast

lemma retain_keeps_frame: "zb_heap (retain_bgr_frame o' b) a = Some (n, f) \<Longrightarrow> \<exists>m. zb_heap b a = Some (m, f)"
  by (auto simp: retain_bgr_frame_def split: option.splits if_splits prod.splits)

lemma pictures_retain: "pictures b \<Longrightarrow> pictures (retain_bgr_frame a b)"
  unfolding pictures_def using retain_keeps_frame by simp blast

lemma pictures_new: "pictures b \<Longrightarrow> filled f \<Longrightarrow> pictures (snd (new_bgr_frame f b))"
  by (fastforce simp: pictures_def new_bgr_frame_def)

lemma pictures_cached:
  "pictures b \<Longrightarrow> a < zb_next b \<Longrightarrow> (\<And>n f. zb_heap b a = Some (n, f) \<Longrightarrow> whole f) \<Longrightarrow>
   pictures (b\<lparr>zb_cache := (zb_cache b)(i \<mapsto> a)\<rparr>)"
  by (auto simp: pictures_def)

lemma pictures_store:
  assumes "pictures b" and "a < zb_next b" and "\<And>n f. zb_heap b a = Some (n, f) \<Longrightarrow> whole f"
  shows "pictures (store_in_cache sid a b)"
proof -
  have "pictures (retain_bgr_frame a (b\<lparr>zb_cache := (zb_cache b)(unat sid \<mapsto> a)\<rparr>))"
    by (rule pictures_retain [OF pictures_cached [OF assms]])
  then show ?thesis using assms(1) pictures_free by (simp add: store_in_cache_def Let_def split: option.split)
qed

lemma pictures_release: "pictures b \<Longrightarrow> pictures (free_bgr_frame_msg a b)"
  using pictures_free by (simp add: free_bgr_frame_msg_def)

lemma pictures_releases: "pictures b \<Longrightarrow> pictures (fold free_bgr_frame_msg as b)"
  by (induction as arbitrary: b) (simp_all add: pictures_release)

section \<open>A request\<close>

lemma convert_pictures:
  assumes "convert_last_frame_to_bgr e s b = (rc, p, b')" and "pictures b" and "fills_destination (ab_conv e)"
  shows "pictures b' \<and> (\<forall>a n f. p = Some a \<longrightarrow> zb_heap b' a = Some (n, f) \<longrightarrow> whole f)"
proof -
  consider (fails) g where "p = None" "b' = b\<lparr>zb_conv := g\<rparr>"
    | (cached) a n f g where "p = Some a" "zb_heap b a = Some (n, f)" "zb_cache b (unat (st_stream_id s)) = Some a"
       "b' = retain_bgr_frame a (b\<lparr>zb_conv := g\<rparr>)"
    | (made) f g where "p = Some (zb_next b)" "made_by e s f"
       "b' = store_in_cache (st_stream_id s) (zb_next b) (snd (new_bgr_frame f (b\<lparr>zb_conv := g\<rparr>)))"
    using convert_shape [OF assms(1)] by blast
  then show ?thesis
  proof cases
    case cached
    have "pictures b'" using pictures_retain [of "b\<lparr>zb_conv := g\<rparr>" a] assms(2) cached(4) by simp
    moreover have "whole f" using assms(2) cached(2,3) unfolding pictures_def by blast
    moreover have "zb_heap b' a = Some (n + 1, f)" using cached(2,4) by (simp add: retain_bgr_frame_def)
    ultimately show ?thesis using cached(1) by auto
  next
    case made
    let ?b1 = "snd (new_bgr_frame f (b\<lparr>zb_conv := g\<rparr>))"
    have w: "whole f" by (rule made_whole [OF made(2) assms(3)])
    have b1: "zb_heap ?b1 (zb_next b) = Some (1, f)" "zb_next ?b1 = zb_next b + 1" by (simp_all add: new_bgr_frame_def)
    have "pictures ?b1" using pictures_new [of "b\<lparr>zb_conv := g\<rparr>" f] assms(2) w by (simp add: whole_def)
    then have "pictures b'" unfolding made(3) by (rule pictures_store) (use b1 w in auto)
    moreover have "whole f'" if h: "zb_heap b' (zb_next b) = Some (n, f')" for n f'
      using store_keeps_frame [OF h [unfolded made(3)]] b1(1) w by auto
    ultimately show ?thesis using made(1) by blast
  qed (use assms(2) in simp)
qed

definition fills_request :: "request_env \<Rightarrow> bool" where
  "fills_request e \<longleftrightarrow> fills_destination (ab_conv (rq_first e)) \<and>
     (\<forall>t\<in>set (rq_waits e). fills_destination (ab_conv (wt_try t)))"

lemma wait_pictures:
  assumes "wait_frame timeout deadline i ts (mgr, b) = Some (p, mgr', b')" and "pictures b"
    and "\<And>t. t \<in> set ts \<Longrightarrow> only_releases t \<and> fills_destination (ab_conv (wt_try t))"
  shows "pictures b' \<and> (\<forall>a n f. p = Some a \<longrightarrow> zb_heap b' a = Some (n, f) \<longrightarrow> whole f)"
  using assms
proof (induction ts arbitrary: mgr b)
  case (Cons t ts)
  show ?case
  proof (cases "timeout < 0 \<or> wt_now t < deadline")
    case False
    then show ?thesis using Cons.prems by auto
  next
    case True
    obtain m1 b1 where g1: "wt_others t (mgr, b) = (m1, b1)" by fastforce
    obtain as where "b1 = fold free_bgr_frame_msg as b"
      using Cons.prems(3) [of t] g1 unfolding only_releases_def by (metis list.set_intros(1) snd_conv)
    then have b1: "pictures b1" using pictures_releases [OF Cons.prems(2)] by simp
    obtain rc q b2 where c: "convert_last_frame_to_bgr (wt_try t) (sm_streams m1 i) b1 = (rc, q, b2)"
      by (metis prod_cases3)
    have h: "pictures b2 \<and> (\<forall>a n f. q = Some a \<longrightarrow> zb_heap b2 a = Some (n, f) \<longrightarrow> whole f)"
      using convert_pictures [OF c b1] Cons.prems(3) [of t] by simp
    show ?thesis
    proof (cases "rc = 0")
      case True
      then have "p = q \<and> b' = b2" using Cons.prems(1) \<open>timeout < 0 \<or> wt_now t < deadline\<close> g1 c by auto
      then show ?thesis using h by blast
    next
      case False
      then have "wait_frame timeout deadline i ts (m1, b2) = Some (p, mgr', b')"
        using Cons.prems(1) \<open>timeout < 0 \<or> wt_now t < deadline\<close> g1 c by simp
      then show ?thesis by (rule Cons.IH) (use h Cons.prems(3) in auto)
    qed
  qed
qed simp

lemma get_pictures:
  assumes "get_frame e timeout i (mgr, b) = Some (p, mgr', b')" and "pictures b"
    and "\<forall>t\<in>set (rq_waits e). only_releases t" and "fills_request e"
  shows "pictures b' \<and> (\<forall>a n f. p = Some a \<longrightarrow> zb_heap b' a = Some (n, f) \<longrightarrow> whole f)"
proof -
  obtain rc q b1 where c: "convert_last_frame_to_bgr (rq_first e) (sm_streams mgr i) b = (rc, q, b1)"
    by (metis prod_cases3)
  have h: "pictures b1 \<and> (\<forall>a n f. q = Some a \<longrightarrow> zb_heap b1 a = Some (n, f) \<longrightarrow> whole f)"
    using convert_pictures [OF c assms(2)] assms(4) by (simp add: fills_request_def)
  show ?thesis
  proof (cases "rc \<noteq> 0 \<and> timeout \<noteq> 0")
    case True
    then have "wait_frame timeout (wait_deadline (rq_clock e) timeout) i (rq_waits e) (mgr, b1) = Some (p, mgr', b')"
      using assms(1) c by (simp add: get_frame_def)
    then show ?thesis by (rule wait_pictures) (use h assms(3,4) in \<open>auto simp: fills_request_def\<close>)
  next
    case False
    then show ?thesis using assms(1) c h by (auto simp: get_frame_def)
  qed
qed

lemma send_pictures: "send_bgr_frame_owned ans r v = (out, v') \<Longrightarrow> pictures v \<Longrightarrow> pictures v'"
  using pictures_free by (auto simp: send_bgr_frame_owned_def split: send_answer.splits)

lemma reply_pictures:
  assumes "reply_frame e req a b = (out, b')" and "pictures b"
  shows "pictures b'"
proof (cases "zb_heap b a")
  case None
  then show ?thesis using assms by (simp add: reply_frame_def)
next
  case (Some c)
  then obtain n F where F: "zb_heap b a = Some (n, F)" by (cases c) simp
  then have ok: "filled F" using assms(2) unfolding pictures_def by blast
  show ?thesis
  proof (cases "resolve_bgr_roi F req")
    case None
    then show ?thesis using assms F pictures_free by (auto simp: reply_frame_def)
  next
    case roi: (Some roi)
    show ?thesis
    proof (cases "rr_applied roi")
      case False
      then show ?thesis using assms F roi send_pictures by (auto simp: reply_frame_def split: prod.splits)
    next
      case True
      show ?thesis
      proof (cases "crop_bgr_frame (rq_crop_malloc e) (rq_crop_calloc e) F roi")
        case None
        then show ?thesis using assms F roi True pictures_free by (auto simp: reply_frame_def)
      next
        case (Some f)
        have "pictures (free_bgr_frame a (snd (new_bgr_frame f b)))"
          by (intro pictures_free pictures_new assms(2) crop_filled [OF ok roi Some])
        then show ?thesis using assms(1) F roi True Some send_pictures
          by (auto simp: reply_frame_def new_bgr_frame_def split: prod.splits)
      qed
    qed
  qed
qed

lemma answer_pictures:
  assumes "answer e cmd json (mgr, b) = Some (out, mgr', b')" and "pictures b"
    and "\<forall>t\<in>set (rq_waits e). only_releases t" and "fills_request e"
  shows "pictures b'"
proof (cases "cmd = ''GET_LATEST_BGR''")
  case False
  then show ?thesis using assms by (auto simp: answer_def split: if_splits)
next
  case True
  then have get: "get_latest_bgr e json (mgr, b) = Some (out, mgr', b')" using assms(1) by (simp add: answer_def)
  then show ?thesis using assms(2) get_pictures [OF _ assms(2-4)] reply_pictures
    by (fastforce simp: get_latest_bgr_def split: if_splits prod.splits option.splits)
qed

section \<open>The life of a bridge whose conversions are sound\<close>

inductive picture_runs :: "bridge \<Rightarrow> bool" where
  started: "zmq_bridge_start e False max_streams addr ipc g u = (0, Some b, u') \<Longrightarrow> picture_runs b"
| request: "picture_runs b \<Longrightarrow> few_sent b \<Longrightarrow> \<forall>t\<in>set (rq_waits e). only_releases t \<Longrightarrow> fills_request e \<Longrightarrow>
    answer e cmd json (mgr, b) = Some (out, mgr', b') \<Longrightarrow> picture_runs b'"
| sent: "picture_runs b \<Longrightarrow> few_sent b \<Longrightarrow> picture_runs (free_bgr_frame_msg a b)"

lemma picture_runs_bridge: "picture_runs b \<Longrightarrow> bridge_runs b"
  by (induction rule: picture_runs.induct) (blast intro: bridge_runs.intros)+

lemma picture_runs_pictures: "picture_runs b \<Longrightarrow> pictures b"
proof (induction rule: picture_runs.induct)
  case (started e max_streams addr ipc g u b u')
  then have "zb_heap b = (\<lambda>_. None)" "zb_cache b = (\<lambda>_. None)"
    by (auto simp: zmq_bridge_start_def split: if_splits prod.splits)
  then show ?case by (simp add: pictures_def)
next
  case (request b e cmd json mgr out mgr' b')
  then show ?case using answer_pictures by blast
next
  case (sent b a)
  then show ?case using pictures_release by blast
qed

end
