(* ===== verification/BridgeServe.thy ===== *)
theory BridgeServe
  imports BridgeFilled
begin

text \<open>
  The loop of the ZeroMQ bridge, which receives single parts, against a server of whole
  messages; what it does with a message that has too many parts; and how long it waits.
\<close>

section \<open>A server of messages\<close>

text \<open>A message of a client: its identity, an empty delimiter (REQ sockets send one), the command, and the JSON text.\<close>

record client_msg =
  cm_identity :: string
  cm_delim :: bool
  cm_cmd :: string
  cm_json :: "string option"

definition msg_parts :: "client_msg \<Rightarrow> string list" where
  "msg_parts m = [cm_identity m] @ (if cm_delim m then [[]] else []) @ [cm_cmd m] @
     (case cm_json m of None \<Rightarrow> [] | Some j \<Rightarrow> [j])"

text \<open>The parts of a message as ZeroMQ hands them over.\<close>

fun parts_in :: "string list \<Rightarrow> zmq_event list" where
  "parts_in [] = []"
| "parts_in [p] = [Recv p False]"
| "parts_in (p # ps) = Recv p True # parts_in ps"

definition msg_json :: "client_msg \<Rightarrow> string" where
  "msg_json m = (case cm_json m of None \<Rightarrow> ''{}'' | Some j \<Rightarrow> j)"

text \<open>One message after the other, each answered under the identity of its sender.\<close>

fun serve :: "(nat \<Rightarrow> request_env) \<Rightarrow> (nat \<Rightarrow> bool) \<Rightarrow> nat \<Rightarrow> client_msg list \<Rightarrow> shared \<Rightarrow> zout list \<times> shared \<times> bool" where
  "serve e running k [] g = ([], g, \<not> running k)"
| "serve e running k (m # ms) g =
     (if \<not> running k then ([], g, True)
      else case answer (e k) (cm_cmd m) (msg_json m) g of
        None \<Rightarrow> (envelope (cm_identity m) (cm_delim m), g, False)
      | Some (out, g1) \<Rightarrow> (case serve e running (Suc k) ms g1 of
          (outs, r) \<Rightarrow> (envelope (cm_identity m) (cm_delim m) @ out @ outs, r)))"

lemma read_message:
  assumes "cm_delim m \<or> cm_cmd m \<noteq> []"
  shows "read_request (parts_in (msg_parts m) @ es) = Request (cm_identity m) (cm_delim m) (cm_cmd m) (msg_json m) es"
  using assms by (cases "cm_delim m"; cases "cm_json m")
    (simp_all add: msg_parts_def read_request_def read_json_def msg_json_def)

lemma loop_empty: "bridge_loop e running k [] g = ([], g, \<not> running k)"
  by (simp add: bridge_loop.simps [of e running k "[]"] read_request_def)

lemma loop_message:
  assumes "cm_delim m \<or> cm_cmd m \<noteq> []"
  shows "bridge_loop e running k (parts_in (msg_parts m) @ es) g =
     (if \<not> running k then ([], g, True)
      else case answer (e k) (cm_cmd m) (msg_json m) g of
        None \<Rightarrow> (envelope (cm_identity m) (cm_delim m), g, False)
      | Some (out, g1) \<Rightarrow> (case bridge_loop e running (Suc k) es g1 of
          (outs, r) \<Rightarrow> (envelope (cm_identity m) (cm_delim m) @ out @ outs, r)))"
  by (subst bridge_loop.simps) (simp add: read_message [OF assms])

text \<open>C26: the loop, which receives part by part, is the server of whole messages as long as every client
  sends messages of the expected shape, with or without delimiter and JSON text: each is answered
  once, in order, under its own identity, until the flag is cleared or a request waits for ever.\<close>

theorem bridge_serves_messages:
  assumes "\<forall>m\<in>set ms. cm_delim m \<or> cm_cmd m \<noteq> []"
  shows "bridge_loop e running k (concat (map (\<lambda>m. parts_in (msg_parts m)) ms)) g = serve e running k ms g"
  using assms
proof (induction ms arbitrary: k g)
  case Nil
  then show ?case by (simp add: loop_empty)
next
  case (Cons m ms)
  then have "cm_delim m \<or> cm_cmd m \<noteq> []" by simp
  from loop_message [OF this] Cons show ?case
    by (auto split: option.split prod.split)
qed

lemma bridge_serves_messages_witness:
  "\<exists>g'. bridge_loop (\<lambda>_. ex_request) (\<lambda>k. k < 2) 0
      ([Recv ''a'' True, Recv ''PING'' False] @ [Recv ''b'' True, Recv [] True, Recv ''NOP'' True, Recv ''{}'' False])
      (ex_mgr, ex_bridge) =
    ([(Text ''a'', True), (Text ''OK'', True), (Text ''{}'', False),
      (Text ''b'', True), (Text [], True), (Text ''ERR'', True), (Text ''unknown cmd'', False)], g', True)"
proof -
  let ?ms = "[\<lparr>cm_identity = ''a'', cm_delim = False, cm_cmd = ''PING'', cm_json = None\<rparr>,
     \<lparr>cm_identity = ''b'', cm_delim = True, cm_cmd = ''NOP'', cm_json = Some ''{}''\<rparr>]"
  show ?thesis
    using bridge_serves_messages [of ?ms "\<lambda>_. ex_request" "\<lambda>k. k < 2" 0 "(ex_mgr, ex_bridge)"]
    by (simp add: msg_parts_def answer_def envelope_def send_error_def)
qed

section \<open>A client's request\<close>

text \<open>The pixels a reply carries, at the place in the frame that the reply's own fields give.\<close>

definition shows_pixels :: "ZmqBgrFrame \<Rightarrow> ZmqRoiRequest \<Rightarrow> ZmqBgrFrame \<Rightarrow> bool" where
  "shows_pixels F req f \<longleftrightarrow> (\<forall>px py c. wanted F req px py \<and> c < 3 \<longrightarrow>
     bgr_at f (px - zf_roi_x f) (py - zf_roi_y f) c = bgr_at F px py c \<and>
     0 \<le> px - zf_roi_x f \<and> px - zf_roi_x f < zf_width f \<and> 0 \<le> py - zf_roi_y f \<and> py - zf_roi_y f < zf_height f)"

lemma carried_pixels:
  assumes "carried F req roi f" and "bgr_ok F" and "zf_roi_x F = 0" and "zf_roi_y F = 0"
  shows "shows_pixels F req f"
proof (cases "rr_applied roi")
  case True
  have roi: "resolve_bgr_roi F req = Some roi" using assms(1) by (simp add: carried_def)
  obtain g where g: "crop_bgr_frame True True F roi = Some g" "bgr_ok g" "zf_roi_x g = rr_x roi" "zf_roi_y g = rr_y roi"
    "zf_width g = rr_w roi" "zf_height g = rr_h roi"
    "\<forall>px py c. wanted F req px py \<and> c < 3 \<longrightarrow> bgr_at g (px - rr_x roi) (py - rr_y roi) c = bgr_at F px py c"
    by (rule region_cropped [OF roi assms(2)])
  have f: "f = g" using g(1) True assms(1) by (simp add: carried_def)
  show ?thesis unfolding shows_pixels_def f
  proof (intro allI impI)
    fix px py :: int and c :: nat assume w: "wanted F req px py \<and> c < 3"
    then have "rr_x roi \<le> px \<and> px < rr_x roi + rr_w roi \<and> rr_y roi \<le> py \<and> py < rr_y roi + rr_h roi"
      using resolve_some(7) [OF roi assms(2), of px py] by simp
    then show "bgr_at g (px - zf_roi_x g) (py - zf_roi_y g) c = bgr_at F px py c \<and>
        0 \<le> px - zf_roi_x g \<and> px - zf_roi_x g < zf_width g \<and> 0 \<le> py - zf_roi_y g \<and> py - zf_roi_y g < zf_height g"
      using g(3-6) g(7) w by simp
  qed
next
  case False
  then have "f = F" using assms(1) by (simp add: carried_def)
  then show ?thesis using assms(3,4) by (simp add: wanted_def shows_pixels_def)
qed

text \<open>The reply for a frame in hand, by the frame.\<close>

lemma reply_shows:
  assumes "reply_frame e req a b = (out, b')" and "owned [a] b" and "few_sent b" and F: "zb_heap b a = Some (n, F)" "whole F"
    and "rq_send e = Sent"
  shows "if \<forall>px py. \<not> wanted F req px py then out = send_error ''bad roi''
    else out = send_error ''roi crop failed'' \<and> \<not> (rq_crop_malloc e \<and> rq_crop_calloc e) \<or>
      (\<exists>applied f img m. out = [(Text ''OK'', True), (Text (meta_text f applied), True), (Image img, False)] \<and>
         zb_heap b' img = Some (m, f) \<and> shows_pixels F req f)"
proof (cases "resolve_bgr_roi F req")
  case None
  then show ?thesis using assms(1) F unresolved_unwanted [of F req] by (auto simp: reply_frame_def whole_def)
next
  case (Some roi)
  have ok: "bgr_ok F" using resolved_ok [OF _ Some] F(2) by (simp add: whole_def)
  note r = resolve_some [OF Some ok]
  have wanted: "wanted F req (rr_x roi) (rr_y roi)" using r(7) [of "rr_x roi" "rr_y roi"] r(2,5) by simp
  have crop: "crop_bgr_frame (rq_crop_malloc e) (rq_crop_calloc e) F roi = None \<longrightarrow> \<not> (rq_crop_malloc e \<and> rq_crop_calloc e)"
    by (rule region_cropped [OF Some ok]) (auto intro: ccontr)
  have "out \<noteq> send_error ''bad roi''"
    using assms(1) Some F(1) assms(6)
    by (auto simp: reply_frame_def send_error_def send_bgr_frame_owned_def split: if_splits option.splits prod.splits)
  moreover have "out = send_error ''roi crop failed'' \<longrightarrow> \<not> (rq_crop_malloc e \<and> rq_crop_calloc e)"
    using assms(1) Some F(1) assms(6) crop
    by (auto simp: reply_frame_def send_error_def send_bgr_frame_owned_def split: if_splits option.splits prod.splits)
  moreover have "shows_pixels F req f" if "carried F req roi' f" for roi' f
    using carried_pixels [OF that ok] F(2) by (simp add: whole_def)
  ultimately show ?thesis
    using reply_owned [OF assms(1-4)] wanted assms(6) unfolding whole_reply_def by (auto 0 4)
qed

text \<open>C4: a client sees the pixels it asked for. A request that a client prints for a stream and a region
  names a stream that exists, or is refused; without a frame in time it is answered so. With
  the frame \<open>F\<close> it ended its wait with, the reply is an error exactly when the region misses
  the frame (or the crop has no memory); otherwise it is a picture that has, for every pixel of
  the region that lies in \<open>F\<close>, the bytes of \<open>F\<close> at the place its metadata give.\<close>

theorem client_gets_region:
  assumes "picture_runs b" and "few_sent b" and "\<forall>t\<in>set (rq_waits e). only_releases t" and "fills_request e"
    and "rq_send e = Sent" and "list_all c_int [sid, t, x, y, w, h]" and "0 < sid"
    and "answer e ''GET_LATEST_BGR'' (request_text sid t (x, y, w, h)) (mgr, b) = Some (out, mgr', b')"
    and "req = \<lparr>rq_requested = True, rq_x = x, rq_y = y, rq_w = w, rq_h = h\<rparr>"
  shows "case stream_manager_get mgr (word_of_int sid) of
      None \<Rightarrow> out = send_error ''bad stream_id''
    | Some i \<Rightarrow> (\<exists>b0. get_frame e t i (mgr, b) = Some (None, mgr', b0) \<and> out = send_error ''no frame yet'') \<or>
        (\<exists>a b0 n F. get_frame e t i (mgr, b) = Some (Some a, mgr', b0) \<and> zb_heap b0 a = Some (n, F) \<and>
           zf_stream_id F = st_stream_id (sm_streams mgr' i) \<and>
           (if \<forall>px py. \<not> wanted F req px py then out = send_error ''bad roi''
            else out = send_error ''roi crop failed'' \<and> \<not> (rq_crop_malloc e \<and> rq_crop_calloc e) \<or>
              (\<exists>applied f img m. out = [(Text ''OK'', True), (Text (meta_text f applied), True), (Image img, False)] \<and>
                 zb_heap b' img = Some (m, f) \<and> shows_pixels F req f)))"
proof -
  let ?json = "request_text sid t (x, y, w, h)"
  have sid: "parse_stream_id_from_json ?json = sid" using stream_id_read assms(6,7) by simp
  have timeout: "parse_timeout_ms_from_json ?json 1000 = t" using timeout_read assms(6) by simp
  have roi: "parse_roi_from_json ?json = (1, req)" using roi_read [of x y w h] assms(6,9) by simp
  have get: "get_latest_bgr e ?json (mgr, b) = Some (out, mgr', b')" using assms(8) by (simp add: answer_def)
  show ?thesis
  proof (cases "stream_manager_get mgr (word_of_int sid)")
    case None
    then show ?thesis using get by (simp add: get_latest_bgr_def roi sid)
  next
    case (Some i)
    obtain p m1 b0 where g: "get_frame e t i (mgr, b) = Some (p, m1, b0)"
      using get Some by (auto simp: get_latest_bgr_def roi sid timeout split: option.splits)
    have own: "in_hand i p m1 b0" "few_sent b0"
      using get_in_hand [OF g runs_owned [OF picture_runs_bridge [OF assms(1)]] assms(2)] assms(3) by auto
    note pics = get_pictures [OF g picture_runs_pictures [OF assms(1)] assms(3,4)]
    show ?thesis
    proof (cases p)
      case None
      then show ?thesis using get Some g by (auto simp: get_latest_bgr_def roi sid timeout)
    next
      case a: (Some a)
      obtain n F where F: "owned [a] b0" "zb_heap b0 a = Some (n, F)" "zf_stream_id F = st_stream_id (sm_streams m1 i)"
        using own a by (auto simp: in_hand_def)
      have r: "reply_frame e req a b0 = (out, b')" "mgr' = m1"
        using get Some g a by (auto simp: get_latest_bgr_def roi sid timeout split: prod.splits)
      have "whole F" using pics a F(2) by blast
      from reply_shows [OF r(1) F(1) own(2) F(2) this assms(5)]
      show ?thesis unfolding Some option.case r(2) g a
        using F(2,3) by (intro disjI2 exI [of _ a] exI [of _ b0] exI [of _ n] exI [of _ F] conjI refl) simp_all
    qed
  qed
qed

text \<open>The example's frame has a black and a white pixel; the region asked for covers the white one only.\<close>

lemma ex_fills: "fills_request ex_request"
  by (simp add: fills_request_def fills_destination_def ex_request_def ex_attempt_def ex_conv_def)

lemma ex_picture_runs: "picture_runs ex_bridge"
proof -
  let ?e = "\<lparr>be_calloc = True, be_cache = True, be_thread = True, be_context = True, be_socket = True, be_bind = (\<lambda>_. True)\<rparr>"
  have "zmq_bridge_start ?e False 2 (Some ''tcp://*:5555'') None ex_conv_state [] = (0, Some ex_bridge, [])"
    by (simp add: zmq_bridge_start_def bridge_open_def bridge_addr_def has_bind_addr_def bind_router_endpoint_def
      cleanup_ipc_bind_addr_def ipc_path_from_bind_addr_def ex_bridge_def)
  then show ?thesis by (rule picture_runs.started)
qed

lemma ex_bgr_bytes: "ex_bgr = [0, 0, 0, 255, 255, 255]"
  by code_simp

lemma client_gets_region_witness:
  "\<exists>meta img b' m f. answer ex_request ''GET_LATEST_BGR'' (request_text 1 0 (1, - 4, 5, 9)) (ex_mgr, ex_bridge) =
       Some ([(Text ''OK'', True), (Text meta, True), (Image img, False)], ex_mgr, b') \<and>
     zb_heap b' img = Some (m, f) \<and> (\<forall>c<3. bgr_at f (1 - zf_roi_x f) (0 - zf_roi_y f) c = 255)"
proof -
  let ?req = "\<lparr>rq_requested = True, rq_x = 1, rq_y = - 4, rq_w = 5, rq_h = 9\<rparr>"
  let ?F = "bgr_of_converted ex_attempt 1 zero_info DECODE_FMT_VUYX (bgr_frame ex_frame DECODE_FMT_BGR24 6 (Some ex_bgr)) ex_bgr"
  obtain meta img b' where served: "answer ex_request ''GET_LATEST_BGR'' (request_text 1 0 (1, - 4, 5, 9)) (ex_mgr, ex_bridge) =
     Some ([(Text ''OK'', True), (Text meta, True), (Image img, False)], ex_mgr, b')"
    using ex_served by blast
  have w: "\<forall>t\<in>set (rq_waits ex_request). only_releases t" and s: "rq_send ex_request = Sent"
    by (simp_all add: ex_request_def)
  have i: "stream_manager_get ex_mgr (word_of_int 1) = Some 0" by (simp add: stream_manager_get_def ex_mgr_def)
  obtain b1 where b1: "get_frame ex_request 0 0 (ex_mgr, ex_bridge) = Some (Some 0, ex_mgr, b1)" "zb_heap b1 0 = Some (2, ?F)"
    using ex_converts by (auto simp: get_frame_def ex_request_def)
  have want: "wanted ?F ?req 1 0" and px: "\<forall>c<3. bgr_at ?F 1 0 c = 255"
    by (auto simp: wanted_def bgr_of_converted_def ex_frame_def bgr_at_def ex_bgr_bytes less_Suc_eq numeral_3_eq_3)
  have ints: "list_all c_int [1, 0, 1, - 4, 5, 9]" by (simp add: c_int_def INT_MAX_def)
  have some: "\<not> (\<forall>px py. \<not> wanted ?F ?req px py)" using want by blast
  obtain f m where f: "zb_heap b' img = Some (m, f)" "shows_pixels ?F ?req f"
    using client_gets_region [OF ex_picture_runs ex_bridge_runs(2) w ex_fills s ints _ served refl]
    by (auto simp: i [simplified] b1 some send_error_def)
  then have "\<forall>c<3. bgr_at f (1 - zf_roi_x f) (0 - zf_roi_y f) c = 255"
    using want px unfolding shows_pixels_def by metis
  then show ?thesis using served f(1) by blast
qed

section \<open>A part too many\<close>

text \<open>C30: the parts behind the JSON text are not skipped but read as the next request: a client
  decides whom the bridge answers next, and the victim gets a reply it never asked for.\<close>

theorem extra_parts_reroute:
  assumes "running k" and "running (Suc k)"
  shows "bridge_loop e running k (parts_in [attacker, ''PING'', json, victim, ''PING''] @ es) g =
    (case bridge_loop e running (Suc (Suc k)) es g of (outs, r) \<Rightarrow>
       ([(Text attacker, True), (Text ''OK'', True), (Text ''{}'', False),
         (Text victim, True), (Text ''OK'', True), (Text ''{}'', False)] @ outs, r))"
proof -
  have one: "read_request (parts_in [attacker, ''PING'', json, victim, ''PING''] @ es) =
      Request attacker False ''PING'' json (parts_in [victim, ''PING''] @ es)"
    by (simp add: read_request_def read_json_def)
  have two: "read_request (parts_in [victim, ''PING''] @ es) = Request victim False ''PING'' ''{}'' es"
    by (simp add: read_request_def read_json_def)
  have pong: "answer e' ''PING'' j g = Some ([(Text ''OK'', True), (Text ''{}'', False)], g)" for e' j
    by (simp add: answer_def)
  have "bridge_loop e running (Suc k) (parts_in [victim, ''PING''] @ es) g =
      (case bridge_loop e running (Suc (Suc k)) es g of (outs, r) \<Rightarrow>
        (envelope victim False @ [(Text ''OK'', True), (Text ''{}'', False)] @ outs, r))"
    using assms(2) by (subst bridge_loop.simps) (simp only: two pong request.case option.case prod.case not_True_eq_False if_False)
  moreover have "bridge_loop e running k (parts_in [attacker, ''PING'', json, victim, ''PING''] @ es) g =
      (case bridge_loop e running (Suc k) (parts_in [victim, ''PING''] @ es) g of (outs, r) \<Rightarrow>
        (envelope attacker False @ [(Text ''OK'', True), (Text ''{}'', False)] @ outs, r))"
    using assms(1) by (subst bridge_loop.simps) (simp only: one pong request.case option.case prod.case not_True_eq_False if_False)
  ultimately show ?thesis by (simp add: envelope_def split: prod.split)
qed

lemma extra_parts_reroute_witness:
  "\<exists>r. bridge_loop (\<lambda>_. ex_request) (\<lambda>k. k < 2) 0
      (parts_in [''mallory'', ''PING'', ''{}'', ''alice'', ''PING''] @ []) (ex_mgr, ex_bridge) =
    ([(Text ''mallory'', True), (Text ''OK'', True), (Text ''{}'', False),
      (Text ''alice'', True), (Text ''OK'', True), (Text ''{}'', False)], r)"
  using extra_parts_reroute [of "\<lambda>k. k < 2" 0 "\<lambda>_. ex_request" "''mallory''" "''{}''" "''alice''" "[]" "(ex_mgr, ex_bridge)"]
  by (auto simp: loop_empty)

section \<open>How long a request waits\<close>

lemma no_frame_fails:
  "st_last_frame s = None \<Longrightarrow> convert_last_frame_to_bgr a s b = (- 1, None, b)"
  by (simp add: convert_last_frame_to_bgr_def)

definition idle :: "nat \<Rightarrow> shared \<Rightarrow> bool" where
  "idle i g \<longleftrightarrow> st_last_frame (sm_streams (fst g) i) = None"

text \<open>A stream that gets no frame while the thread sleeps.\<close>

definition stays_idle :: "nat \<Rightarrow> wait_step \<Rightarrow> bool" where
  "stays_idle i t \<longleftrightarrow> (\<forall>g. idle i g \<longrightarrow> idle i (wt_others t g))"

lemma wait_for_ever:
  assumes "timeout < 0" and "\<forall>t\<in>set ts. stays_idle i t" and "idle i g"
  shows "wait_frame timeout deadline i ts g = None"
  using assms
proof (induction ts arbitrary: g)
  case (Cons t ts)
  obtain m b where "wt_others t g = (m, b)" by fastforce
  moreover have "idle i (m, b)" using Cons.prems(2,3) calculation unfolding stays_idle_def by (metis list.set_intros(1))
  ultimately show ?case using Cons by (simp add: no_frame_fails idle_def)
qed simp

lemma wait_until:
  assumes "0 \<le> timeout" and "\<exists>t\<in>set ts. deadline \<le> wt_now t"
  shows "wait_frame timeout deadline i ts g \<noteq> None"
  using assms(2)
proof (induction ts arbitrary: g)
  case (Cons t ts)
  show ?case
  proof (cases "wt_now t < deadline")
    case True
    then have "\<exists>t\<in>set ts. deadline \<le> wt_now t" using Cons.prems by auto
    then have "wait_frame timeout deadline i ts g' \<noteq> None" for g' by (rule Cons.IH)
    then show ?thesis by (simp split: prod.split)
  next
    case False
    then show ?thesis using assms(1) by simp
  qed
qed simp

text \<open>C28: with a timeout of zero or more a request is answered, at the latest when the clock has passed its
  deadline: no stream without frames and no failing conversion can hold the bridge.\<close>

theorem bridge_answers_in_time:
  assumes "0 \<le> parse_timeout_ms_from_json json 1000"
    and "\<exists>t\<in>set (rq_waits e). wait_deadline (rq_clock e) (parse_timeout_ms_from_json json 1000) \<le> wt_now t"
  shows "answer e cmd json g \<noteq> None"
proof -
  have "get_frame e (parse_timeout_ms_from_json json 1000) i g \<noteq> None" for i
    using wait_until [OF assms] by (auto simp: get_frame_def split: prod.splits)
  then have got: "\<exists>r. get_frame e (parse_timeout_ms_from_json json 1000) i g = Some r" for i by blast
  have "get_latest_bgr e json g \<noteq> None"
  proof (cases "stream_manager_get (fst g) (word_of_int (parse_stream_id_from_json json))")
    case None
    then show ?thesis by (simp add: get_latest_bgr_def split: prod.split)
  next
    case (Some i)
    then show ?thesis using got [of i] by (auto simp: get_latest_bgr_def split: prod.split option.split)
  qed
  then show ?thesis by (simp add: answer_def)
qed

definition ex_wait :: wait_step where
  "ex_wait = \<lparr>wt_now = 5000000, wt_others = (\<lambda>g. g), wt_try = ex_attempt\<rparr>"

definition ex_waits :: request_env where
  "ex_waits = ex_request\<lparr>rq_waits := [ex_wait\<lparr>wt_now := 1000000\<rparr>, ex_wait]\<rparr>"

definition ex_idle :: StreamManager where
  "ex_idle = ex_mgr\<lparr>sm_streams := (\<lambda>i. zero_stream_ctx\<lparr>st_stream_id := of_nat i + 1\<rparr>)\<rparr>"

lemma bridge_answers_in_time_witness:
  "answer ex_waits ''GET_LATEST_BGR'' (request_text 1 3 (0, 0, 1, 1)) (ex_idle, ex_bridge) \<noteq> None"
proof -
  have t: "parse_timeout_ms_from_json (request_text 1 3 (0, 0, 1, 1)) 1000 = 3"
    using timeout_read [of 3] by (simp add: c_int_def INT_MAX_def)
  show ?thesis
    by (rule bridge_answers_in_time) (simp_all add: t ex_waits_def ex_request_def ex_wait_def wait_deadline_def)
qed

text \<open>C29: a negative timeout waits without end, and the wait looks at neither the clock nor the running
  flag: a client that asks for a stream without frames stops the bridge for every other client,
  and the loop does not end when the server clears the flag to shut down.\<close>

theorem negative_timeout_blocks:
  assumes "running k" and "t < 0" and "c_int t" and "0 < sid" and "sid \<le> uint (sm_max_streams (fst g))"
    and "idle (nat sid - 1) g" and "\<forall>s\<in>set (rq_waits (e k)). stays_idle (nat sid - 1) s"
    and "list_all c_int [x, y, w, h]"
  shows "bridge_loop e running k (parts_in [client, ''GET_LATEST_BGR'', request_text sid t (x, y, w, h)] @ es) g =
    ([(Text client, True)], g, False)"
proof -
  let ?json = "request_text sid t (x, y, w, h)"
  have small: "uint (sm_max_streams (fst g)) < 65536" using uint_lt2p [of "sm_max_streams (fst g)"] by simp
  have c: "c_int sid" using assms(4,5) small by (simp add: c_int_def INT_MAX_def)
  have read: "parse_stream_id_from_json ?json = sid" "parse_timeout_ms_from_json ?json 1000 = t"
    "fst (parse_roi_from_json ?json) = 1"
    using stream_id_read [OF c assms(4)] timeout_read [OF assms(3)] roi_read [of x y w h] assms(8) by simp_all
  have "uint (word_of_int sid :: u16) = sid" using assms(4,5) small by (simp add: uint_word_of_int)
  then have "stream_manager_get (fst g) (word_of_int sid) = Some (nat sid - 1)"
    using assms(4,5) by (auto simp: stream_manager_get_def word_less_def unat_eq_nat_uint)
  moreover have "get_frame (e k) t (nat sid - 1) g = None"
    using wait_for_ever [OF assms(2,7,6)] no_frame_fails assms(2,6)
    by (cases g) (simp add: get_frame_def idle_def)
  ultimately have "answer (e k) ''GET_LATEST_BGR'' ?json g = None"
    using read by (auto simp: answer_def get_latest_bgr_def split: prod.splits)
  then show ?thesis
    using assms(1) by (subst bridge_loop.simps) (simp add: read_request_def read_json_def envelope_def)
qed

lemma negative_timeout_blocks_witness:
  "bridge_loop (\<lambda>_. ex_waits) (\<lambda>k. k < 1) 0
      (parts_in [''slow'', ''GET_LATEST_BGR'', request_text 1 (- 1) (0, 0, 1, 1)] @ parts_in [''other'', ''PING''])
      (ex_idle, ex_bridge) = ([(Text ''slow'', True)], (ex_idle, ex_bridge), False)"
proof -
  show ?thesis
    by (rule negative_timeout_blocks) (simp_all add: c_int_def INT_MAX_def idle_def stays_idle_def ex_idle_def ex_mgr_def zero_stream_ctx_def ex_waits_def ex_wait_def)
qed

section \<open>Shutdown\<close>

lemma loop_fails:
  "bridge_loop e running k (replicate n RecvError) g = ([], g, \<exists>j\<le>n. \<not> running (k + j))"
proof (induction n arbitrary: k)
  case 0
  then show ?case by (simp add: loop_empty)
next
  case (Suc n)
  have split: "(\<exists>j\<le>Suc n. \<not> running (k + j)) \<longleftrightarrow> \<not> running k \<or> (\<exists>j\<le>n. \<not> running (Suc k + j))"
    by (auto simp: less_Suc_eq_0_disj le_simps(3) intro: exI [of _ 0]) (metis Suc_le_mono add_Suc_right not0_implies_Suc add_0_right)+
  show ?case
    by (subst bridge_loop.simps) (simp add: read_request_def Suc split)
qed

lemma clear_sent: "zb_sent (clear_entries js b) = zb_sent b"
  by (induction js arbitrary: b) (auto split: option.split)

text \<open>A shutdown that follows the clearing of the running flag returns after at most one failing
  receive, with the cache empty and the socket files unlinked; without it the thread spins on
  failing receives and is never joined.\<close>

theorem shutdown_needs_cleared_flag:
  "(\<not> running (k + 1) \<longrightarrow> (\<exists>b' u'. zmq_bridge_shutdown e running k 1 True addr ipc (mgr, b) u = Some (False, (mgr, b'), u') \<and>
      zb_cache b' = (\<lambda>_. None) \<and> zb_sent b' = zb_sent b)) \<and>
   ((\<forall>j\<le>n. running (k + j)) \<longrightarrow> zmq_bridge_shutdown e running k n True addr ipc (mgr, b) u = None)"
proof
  show "\<not> running (k + 1) \<longrightarrow> (\<exists>b' u'. zmq_bridge_shutdown e running k 1 True addr ipc (mgr, b) u = Some (False, (mgr, b'), u') \<and>
      zb_cache b' = (\<lambda>_. None) \<and> zb_sent b' = zb_sent b)"
    using loop_fails [of e running k 1 "(mgr, b)"]
    by (auto simp: zmq_bridge_shutdown_def bridge_close_def clear_cached_bgr_frames_def clear_sent)
  show "(\<forall>j\<le>n. running (k + j)) \<longrightarrow> zmq_bridge_shutdown e running k n True addr ipc (mgr, b) u = None"
    by (auto simp: zmq_bridge_shutdown_def loop_fails)
qed

lemma shutdown_needs_cleared_flag_witness:
  "(\<exists>b' u'. zmq_bridge_shutdown (\<lambda>_. ex_request) (\<lambda>k. k < 5) 4 1 True (Some ''ipc:///tmp/z'') None (ex_mgr, ex_bridge) [] =
      Some (False, (ex_mgr, b'), u') \<and> zb_cache b' = (\<lambda>_. None)) \<and>
   zmq_bridge_shutdown (\<lambda>_. ex_request) (\<lambda>_. True) 4 100 True None None (ex_mgr, ex_bridge) [] = None"
  using shutdown_needs_cleared_flag [of "\<lambda>k. k < 5" 4 "\<lambda>_. ex_request" "Some ''ipc:///tmp/z''" None ex_mgr ex_bridge "[]" 0]
    shutdown_needs_cleared_flag [of "\<lambda>_. True" 4 "\<lambda>_. ex_request" None None ex_mgr ex_bridge "[]" 100]
  by (simp del: One_nat_def) blast

end
