(* ===== verification/Spec2Isabelle.thy ===== *)
theory Spec2Isabelle
  imports SenderWire WorkerStop ControlSocket AgentThreads Receiver Nv12 RecHandles StreamLife ServerMain ServerPace ServerIngest BridgeServe
begin

text \<open>
  The repository turns a GameStream session into video that other programs can read.
  \<open>ml_worker\<close> (\<open>src/\<close>) runs the session on top of the Limelight library: its video callbacks
  hand every decode unit to a TLV sender, and its control socket turns UDP datagrams into
  input calls. \<open>stream_server\<close> (\<open>stream_server/\<close>) and the agent (\<open>strem_agent_server/\<close>) receive
  the TLV connection; both offer the raw H.264 stream to TCP subscribers (the tap), and the
  agent carries control commands back to the worker.

  The theories and the code they model:
    \<^item> Prelude: word types, byte layouts, shared lemmas.
    \<^item> Protocol: \<open>protocol.c\<close>; MlCtl: the command struct of \<open>control_socket.h\<close>.
    \<^item> TcpSender, SenderWire: \<open>src/tcp_sender.c\<close>, its state machine and its wire.
    \<^item> Worker: \<open>src/video_callbacks.c\<close> and the fatal codes of \<open>connection_callbacks.c\<close>.
    \<^item> ControlSocket: \<open>src/control_socket.c\<close>.
    \<^item> WorkerOpts, WorkerMain, WorkerStop: \<open>src/main.c\<close>, its options, its commands with the streaming
      session, and why a session ends.
    \<^item> Sockets: the two copies of \<open>recv_exact\<close>, behind the locale \<open>byte_reader\<close>.
    \<^item> CText: the C text functions (\<open>sscanf\<close>, \<open>atoi\<close>, \<open>snprintf\<close>) as far as they are used.
    \<^item> Nal: the start code scans, behind the locale \<open>nal_detector\<close>.
    \<^item> TapClients, Tap, AgentTap: the subscriber slots both taps share, \<open>stream_server\<close>'s tap,
      and the agent's tap with its handshake.
    \<^item> Agent, AgentThreads: the ingest and control threads, authentication and options of the agent,
      and the loops that accept its connections.
    \<^item> Receiver: \<open>stream_receiver_decode.c\<close>, the stand-alone receiver.
    \<^item> Nv12: \<open>python_dir/nv12_to_bgr_libyuv.c\<close>, the wrapper around libyuv.
    \<^item> RecorderStore, Recorder: \<open>compressed_recorder.c\<close>; the lock-free parts of the writer thread,
      its queue and the producers. Recording, RecHandles: what its files contain, its queue behind
      the locale \<open>bounded_queue\<close>, its deadlines, and the ownership of its FILE handles.
    \<^item> Wire: frames on a connection and the reads that take them off.
    \<^item> Decoder: \<open>decoder.c\<close> up to its format conversion; DecoderFrames: who owns the frames it
      makes; CudaShare: the CUDA device that all decoders share, with threads that race for it.
      Vuyx, Convert: the format conversion, with its AVX2 path and the cached swscale context.
    \<^item> Stream: \<open>stream.c\<close>; StreamRes, StreamLife: the resources of its slots, its reachable
      states and its destruction; StreamRoute: the choice of a backend.
    \<^item> ServerCtl, Server, ServerConns: \<open>server.c\<close>, the keyframe requests to the workers, the
      packet handler with the loop of a client's thread, and the list of connections.
      ServerPace: the rate of the requests, behind the locale \<open>request_gate\<close>; ServerIngest: the
      specification of what a wire does to a stream.
    \<^item> ServerMain: \<open>stream_server/src/main.c\<close>, its options, the environment through which it hands them
      on, and the order in which it starts and stops the other parts.
    \<^item> BridgeText, Bridge, BridgeLoop: \<open>zmq_bridge.c\<close>, its request texts, its BGR frames and
      regions, and its thread. BridgeRefs: who owns the frames; BridgeServe: the request loop
      against a server of whole messages, its waits and its shutdown.
    \<^item> This theory: the properties that span components.

  Correspondence. A C struct is a record with the same fields; a function that changes state
  takes and returns the record. What the kernel, the clock and the allocator answer is an
  explicit argument: an environment record, or a list of answers consumed in order. A call
  that needs more answers than the list holds has not returned, and its result is None; so
  no fuel is needed, and a claim that a call returns says which answers suffice. Log lines
  and socket options that do not change the modelled state are left out. Threads appear as
  steps: what a thread does under a lock is one operation, and the tap's accept and publish
  threads interleave freely in the relation \<open>tap_step\<close>.

  What is shown: the wire formats round trip; a live connection carries whole frames and the
  agent publishes exactly the units sent; publishing to a subscriber appends one whole unit or
  nothing; descriptors are neither leaked nor closed twice; authentication and subscription
  lines are honoured however TCP cuts them; control commands reach the worker in order; a
  segment file is its parameter sets and every packet from the first usable keyframe on; the
  server's streams have the state, format and counters their frames prescribe; the manager
  gives back every frame, device reference and statistics block; the shared device is counted
  exactly under any interleaving; keyframe requests leave at most once a second; the AVX2
  conversion equals the scalar one; a client of the ZeroMQ bridge gets the pixels it asked for,
  and every BGR frame is freed when its last owner lets go of it; accepted options are usable and
  survive the command line; a session keeps to Limelight's protocol, says by its exit code how far
  it came, and ends once it is told to; the dump of the receiver is the stream that was sent; all parts of the server agree on the number of streams,
  and the manager outlives those that use it. The
  negative results are theorems too: \<open>oversize_frame_refused\<close>, \<open>lost_slot_keeps_unit\<close>,
  \<open>recovery_persists\<close>, \<open>agent_token_window\<close>, \<open>agent_auth_spins\<close>, \<open>auto_falls_back_to_cpu\<close>,
  \<open>extra_parts_reroute\<close>, \<open>negative_timeout_blocks\<close>, \<open>sws_failure_dangles\<close>,
  \<open>empty_host_not_asked\<close>, \<open>segment_length_used\<close>, \<open>recorder_failure_frees_in_use\<close>,
  \<open>signal_leaves_read_waiting\<close>, \<open>receiver_refuses_large_unit\<close>, \<open>batch_odd_height\<close>, \<open>batch_offset_wraps\<close>
  and \<open>remount_abandons_segment\<close> state what the code does
  where that is not what it means to do.

  Ghost state. The tallies \<open>w_frames\<close>, \<open>w_avframes\<close> and \<open>w_device_refs\<close> of \<open>av_world\<close> count what
  the program owns of FFmpeg's objects; they have no counterpart in the code.

  Not modelled: decoder timings and averages, which are doubles, and the printed reports; what
  swscale and libyuv do to the pixels, which are arguments of the conversion; the GPU statistics,
  which run shell commands; usage and log texts; the vendored
  Limelight and moonlight sources; the tests, which are programs beside this one.
\<close>

section \<open>From the sender to the agent\<close>

lemma frames_of_wire: "frames_of sid msgs = wire (map (Pair sid) msgs)"
  by (simp add: frames_of_def wire_def comp_def case_prod_beta)

lemma videos_of_messages:
  "videos (map (Pair sid) ((TCP_MSG_TYPE_STREAM_START, p) # map (Pair TCP_MSG_TYPE_VIDEO_DATA) ds)) =
     map (Pair sid) (filter (\<lambda>d. d \<noteq> []) ds)"
  by (induction ds) (auto simp: videos_def protocol_consts)

text \<open>What a fresh connection carries after the decode units \<open>ds\<close> were sent with success.\<close>

lemma connection_wire:
  assumes "tcp_sender_connect e s w = Some (rc, s1, w1)" and "ts_state s \<noteq> TCP_STATE_CONNECTED"
    and "ts_state s1 = TCP_STATE_CONNECTED" and "47 \<le> ts_send_buffer_size s"
    and "send_videos ds s1 w1 = Some (s2, w2)"
  shows "net_out w2 = frames_of (TcpSenderConfig.tc_stream_id (ts_config s))
    ((TCP_MSG_TYPE_STREAM_START, stream_start_payload (ts_config s)) #
      map (Pair TCP_MSG_TYPE_VIDEO_DATA) ds)"
proof -
  have "TCP_HEADER_SIZE + 40 \<le> ts_send_buffer_size s" using assms(4) by (simp add: TCP_HEADER_SIZE_def)
  from connect_wire [OF assms(1-3) this] send_videos_wire [OF assms(5)]
  show ?thesis by (simp add: frames_of_def)
qed

text \<open>C1: frames travel unchanged from the worker's sender to the agent's tap: after a successful
  connection and a run of successful sends the agent, reading the bytes in whatever pieces
  they arrive, publishes exactly the units sent, in order, under the sender's stream.\<close>

theorem sender_to_agent:
  assumes "tcp_sender_connect e s w = Some (rc, s1, w1)" and "ts_state s \<noteq> TCP_STATE_CONNECTED"
    and "ts_state s1 = TCP_STATE_CONNECTED" and "47 \<le> ts_send_buffer_size s"
    and "send_videos ds s1 w1 = Some (s2, w2)"
    and "1 \<le> unat (TcpSenderConfig.tc_stream_id (ts_config s))"
    and "unat (TcpSenderConfig.tc_stream_id (ts_config s)) \<le> 20"
    and "list_all (\<lambda>d. 7 + length d \<le> TCP_MAX_PACKET_SIZE) ds"
    and "c_pending c = net_out w2" and "conn_full c"
  shows "fst (agent_ingest (\<lambda>_. True) 0 c) =
    map (Pair (TcpSenderConfig.tc_stream_id (ts_config s))) (filter (\<lambda>d. d \<noteq> []) ds)"
proof -
  let ?sid = "TcpSenderConfig.tc_stream_id (ts_config s)"
  let ?msgs = "(TCP_MSG_TYPE_STREAM_START, stream_start_payload (ts_config s)) #
      map (Pair TCP_MSG_TYPE_VIDEO_DATA) ds"
  have "list_all agent_frame_ok (map (Pair ?sid) ?msgs)"
    using assms(6-8) by (auto simp: agent_frame_ok_def AGENT_MAX_STREAMS_def TCP_HEADER_SIZE_def
        TCP_MAX_PACKET_SIZE_def list_all_iff)
  moreover have "c_pending c = wire (map (Pair ?sid) ?msgs)"
    using assms(9) connection_wire [OF assms(1-5)] frames_of_wire by simp
  ultimately show ?thesis
    using agent_ingest_frames [of c _ 0] assms(10) videos_of_messages by metis
qed

text \<open>One unit on a fresh connection.\<close>

lemma ex_sent:
  "\<exists>s2 w2. send_videos [[1, 2, 3]] ex_connected
      (net_of (frame 3 TCP_MSG_TYPE_STREAM_START (stream_start_payload ex_config)) [SendN 10]) = Some (s2, w2) \<and>
    conn_full \<lparr>c_pending = net_out w2, c_schedule = replicate 60 (Deliver 12)\<rparr>"
proof -
  let ?f = "frame 3 TCP_MSG_TYPE_STREAM_START (stream_start_payload ex_config)"
  have "ts_state ex_connected = TCP_STATE_CONNECTED" "TcpSenderConfig.tc_stream_id (ts_config ex_connected) = 3"
    by (simp_all add: ex_connected_def ex_sender_def ex_config_def)
  then obtain s2 where "tcp_sender_send_video True (Some [1, 2, 3]) 0 ex_connected (net_of ?f [SendN 10]) =
      Some (0, s2, net_of (?f @ frame 3 TCP_MSG_TYPE_VIDEO_DATA [1, 2, 3]) [])"
    using send_video_at_once [of ex_connected "[1, 2, 3]" 0 ?f "[]"] by (auto simp: TCP_MAX_PACKET_SIZE_def)
  then show ?thesis
    by (simp add: conn_full_def net_of_def frame_def sender_header_def list_all_iff is_Deliver_def)
qed

theorem sender_to_agent_witness:
  "\<exists>s2 w2. send_videos [[1, 2, 3]] ex_connected
      (net_of (frame 3 TCP_MSG_TYPE_STREAM_START (stream_start_payload ex_config)) [SendN 10]) = Some (s2, w2) \<and>
    fst (agent_ingest (\<lambda>_. True) 0 \<lparr>c_pending = net_out w2, c_schedule = replicate 60 (Deliver 12)\<rparr>) =
      [(3, [1, 2, 3])]"
proof -
  obtain s2 w2 where run: "send_videos [[1, 2, 3]] ex_connected
      (net_of (frame 3 TCP_MSG_TYPE_STREAM_START (stream_start_payload ex_config)) [SendN 10]) = Some (s2, w2)"
    and full: "conn_full \<lparr>c_pending = net_out w2, c_schedule = replicate 60 (Deliver 12)\<rparr>"
    using ex_sent by blast
  have st: "ts_state ex_connected = TCP_STATE_CONNECTED" "ts_state ex_sender \<noteq> TCP_STATE_CONNECTED"
    by (simp_all add: ex_connected_def ex_sender_def zero_sender_def)
  from sender_to_agent [OF ex_connect st(2,1) _ run _ _ _ _ full]
  have "fst (agent_ingest (\<lambda>_. True) 0 \<lparr>c_pending = net_out w2, c_schedule = replicate 60 (Deliver 12)\<rparr>) =
      [(3, [1, 2, 3])]"
    by (simp add: ex_sender_def ex_config_def DEFAULT_SEND_BUFFER_SIZE_def TCP_MAX_PACKET_SIZE_def)
  with run show ?thesis by blast
qed

lemma frames_of_sender:
  "frames_of (TcpSenderConfig.tc_stream_id cfg)
     ((TCP_MSG_TYPE_STREAM_START, stream_start_payload cfg) # map (Pair TCP_MSG_TYPE_VIDEO_DATA) ds) =
   wire (sender_frames cfg ds)"
  by (simp add: frames_of_wire sender_frames_def comp_def)

section \<open>From the sender to the receiver\<close>

text \<open>C3: the dump of the stand-alone receiver is the sender's stream: after a successful connection and
  a run of successful sends of units that fit its buffer, a receiver that could be started exits
  with code 0 and its file is exactly the units sent, one behind the other.\<close>

theorem sender_to_receiver:
  assumes "tcp_sender_connect e s w = Some (rc, s1, w1)" and "ts_state s \<noteq> TCP_STATE_CONNECTED"
    and "ts_state s1 = TCP_STATE_CONNECTED" and "47 \<le> ts_send_buffer_size s"
    and "send_videos ds s1 w1 = Some (s2, w2)"
    and "1 \<le> unat (TcpSenderConfig.tc_stream_id (ts_config s))"
    and "unat (TcpSenderConfig.tc_stream_id (ts_config s)) \<le> MAX_STREAMS"
    and "list_all (\<lambda>d. length d \<le> 2 * 1024 * 1024) ds"
    and "receiver_opts opts receiver_defaults = Inr a" and "rg_dump_file a = Some name"
    and "receiver_create ce (rg_width a) (rg_height a) (Some name) v = (Some rcv, v1)" and "fresh_world (vw_av v)"
    and "run_serves re (rg_port a) (rg_duration a) (sender_frames (ts_config s) ds)"
    and "c_pending (re_conn re) = net_out w2" and "conn_full (re_conn re)"
  shows "\<exists>v'. receiver_main ce re opts v = Some (0, Some (concat ds), v')"
proof -
  let ?fs = "sender_frames (ts_config s) ds"
  note cr = receiver_create_cases(3) [OF assms(11,12) refl]
  have "list_all (recv_frame_ok (sr_buffer_size rcv)) ?fs" "\<forall>f \<in> set ?fs. fst (snd f) \<noteq> TCP_MSG_TYPE_STREAM_STOP"
    using cr assms(6-8) by (auto simp: sender_frames_def recv_frame_ok_def protocol_consts list_all_iff)
  moreover have "c_pending (re_conn re) = wire ?fs @ []"
    using assms(14) connection_wire [OF assms(1-5)] frames_of_sender by simp
  ultimately obtain r1 v2 where run: "receiver_run re rcv (rg_port a) (rg_duration a) v1 = Some (0, r1, v2)"
    "sr_dump_file r1 = map_option (\<lambda>f. f @ unit_bytes ?fs) (sr_dump_file rcv)"
    using receiver_run_until [OF assms(13) _ _ assms(15)] by metis
  have "unit_bytes ?fs = concat ds"
    by (simp add: unit_bytes_def sender_frames_def protocol_consts comp_def)
  then show ?thesis using run cr assms(9-11) by (simp add: receiver_main_def)
qed

theorem sender_to_receiver_witness:
  "\<exists>s2 w2 re v'. send_videos [[1, 2, 3]] ex_connected
      (net_of (frame 3 TCP_MSG_TYPE_STREAM_START (stream_start_payload ex_config)) [SendN 10]) = Some (s2, w2) \<and>
    c_pending (re_conn re) = net_out w2 \<and>
    receiver_main ex_create re [(CHR ''o'', ''v.h264'')] ex_recv_world = Some (0, Some [1, 2, 3], v')"
proof -
  obtain s2 w2 where run: "send_videos [[1, 2, 3]] ex_connected
      (net_of (frame 3 TCP_MSG_TYPE_STREAM_START (stream_start_payload ex_config)) [SendN 10]) = Some (s2, w2)"
    and full: "conn_full \<lparr>c_pending = net_out w2, c_schedule = replicate 60 (Deliver 12)\<rparr>"
    using ex_sent by blast
  obtain rcv v1 where c: "receiver_create ex_create 1280 720 (Some ''v.h264'') ex_recv_world = (Some rcv, v1)"
    using ex_receiver by blast
  let ?t = "\<lparr>tn_running = True, tn_now = 101, tn_written = 40,
    tn_parse = [\<lparr>pa_parsed = 40, pa_packet = [], pa_send = 0, pa_resend = 0, pa_received = []\<rparr>]\<rparr>"
  let ?re = "\<lparr>re_socket = 3, re_bind = \<lambda>_. True, re_listen = True, re_accept = 4, re_start = 100,
      re_conn = \<lparr>c_pending = net_out w2, c_schedule = replicate 60 (Deliver 12)\<rparr>,
      re_turns = [?t, ?t] @ ?t\<lparr>tn_running := False\<rparr> # []\<rparr>"
  have st: "ts_state ex_connected = TCP_STATE_CONNECTED" "ts_state ex_sender \<noteq> TCP_STATE_CONNECTED"
    by (simp_all add: ex_connected_def ex_sender_def zero_sender_def)
  have fresh: "fresh_world (vw_av ex_recv_world)" by (simp add: ex_recv_world_def fresh_world_def av_world_init_def)
  have serves: "run_serves ?re 19000 30 (sender_frames (ts_config ex_sender) [[1, 2, 3]])"
    unfolding run_serves_def
    by (intro conjI exI [of _ "[?t, ?t]"] exI [of _ "?t\<lparr>tn_running := False\<rparr>"] exI [of _ "[]"])
      (simp_all add: turn_due_def receiver_end_time_def sender_frames_def turn_serves_def decode_consumed)
  have o: "receiver_opts [(CHR ''o'', ''v.h264'')] receiver_defaults = Inr (receiver_defaults\<lparr>rg_dump_file := Some ''v.h264''\<rparr>)"
    by simp
  have "\<exists>v'. receiver_main ex_create ?re [(CHR ''o'', ''v.h264'')] ex_recv_world = Some (0, Some (concat [[1, 2, 3]]), v')"
    by (rule sender_to_receiver [OF ex_connect st(2,1) _ run _ _ _ o _ _ fresh])
      (use c serves full in \<open>simp_all add: receiver_defaults_def ex_sender_def ex_config_def DEFAULT_SEND_BUFFER_SIZE_def
        MAX_STREAMS_def\<close>)
  with run show ?thesis by (intro exI [of _ s2] exI [of _ w2] exI [of _ ?re]) simp
qed

section \<open>From the sender to the server\<close>

text \<open>C2: a stream arrives as it was announced: after a successful connection and a run of
  successful sends the server, reading the bytes in whatever pieces they arrive, has the
  sender's stream active with exactly the announced format, has counted every unit once, and
  has handed the announcement and every unit unchanged and in order to the recorder.\<close>

theorem sender_to_server:
  assumes "tcp_sender_connect e s w = Some (rc, s1, w1)" and "ts_state s \<noteq> TCP_STATE_CONNECTED"
    and "ts_state s1 = TCP_STATE_CONNECTED" and "47 \<le> ts_send_buffer_size s"
    and "send_videos ds s1 w1 = Some (s2, w2)"
    and "list_all (\<lambda>d. 7 + length d \<le> TCP_MAX_PACKET_SIZE) ds"
    and "stream_manager_get (ss_mgr v) (TcpSenderConfig.tc_stream_id (ts_config s)) = Some i"
    and "unat (sm_max_streams (ss_mgr v)) \<le> MAX_STREAMS" and "\<not> g_h264_tap_started v"
    and "\<forall>k \<le> length ds. plain_env (pe k)" and "\<forall>k < length ds. decodes (pe (Suc k)) (ds ! k)"
    and "c_pending c = net_out w2" and "conn_full c"
  shows "let v' = fst (client_loop pe (\<lambda>_. True) (\<lambda>_. True) 0 sz c v);
      sid = TcpSenderConfig.tc_stream_id (ts_config s); info = announced (ts_config s) in
    st_state (slot v' i) = STREAM_STATE_ACTIVE \<and> st_info (slot v' i) = info \<and>
    st_frames_received (slot v' i) = st_frames_received (slot v i) + of_nat (length ds) \<and>
    sv_total_packets (ss_server v') = sv_total_packets (ss_server v) + 1 + of_nat (length ds) \<and>
    ss_rec v' = record_videos pe sid 1 ds
      (compressed_recorder_on_stream_start (pk_rec_alloc (pe 0)) (pk_rec_wall (pe 0)) (pk_rec_mono (pe 0))
        sid (Some info) (ss_rec v))"
proof -
  have "c_pending c = wire (sender_frames (ts_config s) ds)"
    using assms(12) connection_wire [OF assms(1-5)] frames_of_sender by simp
  from sender_served [OF this assms(13,9,10,11,6,7,8), of sz] show ?thesis
    unfolding Let_def account_of_def by simp
qed

theorem sender_to_server_witness:
  "\<exists>pe s2 w2 v. send_videos [[1, 2, 3]] ex_connected
      (net_of (frame 3 TCP_MSG_TYPE_STREAM_START (stream_start_payload ex_config)) [SendN 10]) = Some (s2, w2) \<and>
    (let v' = fst (client_loop pe (\<lambda>_. True) (\<lambda>_. True) 0 64
        \<lparr>c_pending = net_out w2, c_schedule = replicate 60 (Deliver 12)\<rparr> v) in
     st_state (slot v' 2) = STREAM_STATE_ACTIVE \<and> sv_total_packets (ss_server v') = 2)"
proof -
  obtain s2 w2 where run: "send_videos [[1, 2, 3]] ex_connected
      (net_of (frame 3 TCP_MSG_TYPE_STREAM_START (stream_start_payload ex_config)) [SendN 10]) = Some (s2, w2)"
    and full: "conn_full \<lparr>c_pending = net_out w2, c_schedule = replicate 60 (Deliver 12)\<rparr>"
    using ex_sent by blast
  obtain pe :: packet_env and v :: server_state where e: "plain_env pe" "decodes pe [1, 2, 3]"
    and v: "\<not> g_h264_tap_started v" "stream_manager_init 4 = Some (ss_mgr v)" "sv_total_packets (ss_server v) = 0"
    using ex_packet_env ex_server_state by blast
  note m = ex_manager [OF v(2)]
  have get: "stream_manager_get (ss_mgr v) (TcpSenderConfig.tc_stream_id (ts_config ex_sender)) = Some 2"
    by (simp add: m(1) ex_sender_def ex_config_def)
  have st: "ts_state ex_connected = TCP_STATE_CONNECTED" "ts_state ex_sender \<noteq> TCP_STATE_CONNECTED"
    "47 \<le> ts_send_buffer_size ex_sender"
    by (simp_all add: ex_connected_def ex_sender_def zero_sender_def DEFAULT_SEND_BUFFER_SIZE_def)
  from sender_to_server [OF ex_connect st(2,1,3) run _ get _ v(1) _ _ _ full, of "\<lambda>_. pe" 64] v(3) m(3) e run
  show ?thesis
    by (intro exI [of _ "\<lambda>_. pe"] exI [of _ s2] exI [of _ w2] exI [of _ v])
      (simp add: Let_def TCP_MAX_PACKET_SIZE_def MAX_STREAMS_def)
qed

section \<open>From the agent to the worker\<close>

text \<open>the IDR request of the agent reaches the encoder: the datagram that is sent for a new
  subscriber is well formed for the worker's control socket, and draining the socket asks
  Limelight for exactly one IDR frame.\<close>

theorem idr_request_arrives:
  assumes "request_idr_best_effort now t = Some (ip, port, d)" and "0 \<le> cs_fd s"
  shows "control_socket_process_all li [Datagram d, RecvfromAgain] s rw rh = Some (1, [LiRequestIdrFrame], [])"
proof -
  let ?cmd = "\<lparr>mc_magic = ML_CTRL_MAGIC, mc_version = ML_CTRL_VERSION, mc_type = 10,
          mc_a = 0, mc_b = 0, mc_c = 0, mc_d = 0, mc_seq = now\<rparr>"
  have "d = cmd_bytes ?cmd" using assms(1) by (auto simp: request_idr_best_effort_def split: if_splits)
  moreover have "datagram_cmds (cmd_bytes ?cmd) = [(?cmd, [])]"
    using datagram_cmds_cmd_bytes [of ?cmd "[]"] by simp
  moreover have "dispatch_cmd li ?cmd [] rw rh = (0, [LiRequestIdrFrame])"
    by (rule dispatch_req_idr) (simp add: ML_CTRL_CMD_REQ_IDR_def)
  ultimately show ?thesis
    using assms(2) by (simp add: control_socket_process_all_def control_socket_loop_datagram
        del: control_socket_loop.simps(4))
qed

theorem idr_request_arrives_witness:
  "\<exists>t d. request_idr_best_effort 77 t = Some (''10.0.0.1'', 30001, d) \<and>
     control_socket_process_all (\<lambda>_. 0) [Datagram d, RecvfromAgain] \<lparr>cs_fd = 4, cs_port = 30001\<rparr> 0 0 =
       Some (1, [LiRequestIdrFrame], [])"
proof -
  obtain t :: agent_tap where t: "at_worker_ip t = ''10.0.0.1''" "at_worker_port t = 30001"
    using that [of "undefined\<lparr>at_worker_ip := ''10.0.0.1'', at_worker_port := 30001\<rparr>"] by simp
  then obtain d where d: "request_idr_best_effort 77 t = Some (''10.0.0.1'', 30001, d)"
    by (simp add: request_idr_best_effort_def)
  have fd: "0 \<le> cs_fd \<lparr>cs_fd = 4, cs_port = 30001\<rparr>" by simp
  show ?thesis using d idr_request_arrives [OF d fd] by blast
qed

text \<open>C23: commands tunnelled over the control channel reach the worker in order: the datagrams the
  agent forwards drive the worker's control socket exactly as if the client's commands had
  been delivered to it one by one.\<close>

theorem ctrl_commands_arrive:
  assumes "c_pending c = ctrl_wire (map (\<lambda>(m, p). cmd_bytes m @ p) cmds)" and "conn_full c"
    and "list_all (\<lambda>(m, p). mc_magic m = ML_CTRL_MAGIC \<and> mc_version m = ML_CTRL_VERSION \<and>
           length p \<le> 2016) cmds"
    and "0 \<le> cs_fd s"
  shows "control_socket_process_all li (map Datagram (fst (ctrl_forward c)) @ [RecvfromAgain]) s rw rh =
    Some (int (length cmds), concat (map (\<lambda>(m, p). snd (dispatch_cmd li m p rw rh)) cmds), [])"
proof -
  let ?ds = "map (\<lambda>(m, p). cmd_bytes m @ p) cmds"
  have "list_all (\<lambda>d. d \<noteq> [] \<and> length d \<le> 4096) ?ds"
    using assms(3) by (auto simp: list_all_iff sizeof_MlControlCmd_def dest!: arg_cong [where f = length])
  then have ds: "fst (ctrl_forward c) = ?ds"
    using ctrl_forward_frames [OF assms(1)] assms(2) by blast
  have "control_socket_loop li rw rh (map Datagram ?ds @ [RecvfromAgain]) k calls =
      Some (k + int (length cmds), calls @ concat (map (\<lambda>(m, p). snd (dispatch_cmd li m p rw rh)) cmds), [])"
    for k calls
    using assms(3)
  proof (induction cmds arbitrary: k calls)
    case (Cons mp cmds)
    obtain m p where mp: "mp = (m, p)" by (metis prod.exhaust)
    have "datagram_cmds (cmd_bytes m @ p) = [(m, p)]"
      using Cons.prems mp by (intro datagram_cmds_cmd_bytes)
        (simp_all add: ML_CTRL_MAX_PACKET_def sizeof_MlControlCmd_def)
    with Cons mp show ?case
      by (simp add: control_socket_loop_datagram del: control_socket_loop.simps(4))
  qed simp
  from this [of 0 "[]"] show ?thesis using ds assms(4) by (simp add: control_socket_process_all_def)
qed

theorem ctrl_commands_arrive_witness:
  "control_socket_process_all (\<lambda>_. 0) (map Datagram (fst (ctrl_forward
      \<lparr>c_pending = ctrl_wire [cmd_bytes ex_req_idr], c_schedule = replicate 40 (Deliver 3)\<rparr>)) @ [RecvfromAgain])
      \<lparr>cs_fd = 4, cs_port = 30001\<rparr> 0 0 = Some (1, [LiRequestIdrFrame], [])"
proof -
  let ?c = "\<lparr>c_pending = ctrl_wire [cmd_bytes ex_req_idr], c_schedule = replicate 40 (Deliver 3)\<rparr>"
  have "length (ctrl_wire [cmd_bytes ex_req_idr]) = 36"
    by (simp add: ctrl_wire_def sizeof_MlControlCmd_def)
  then have "conn_full ?c" by (simp add: conn_full_def list_all_iff is_Deliver_def)
  from ctrl_commands_arrive [of ?c "[(ex_req_idr, [])]", OF _ this, of "\<lparr>cs_fd = 4, cs_port = 30001\<rparr>"]
  show ?thesis
    by (simp add: ex_req_idr_def dispatch_req_idr)
qed

end
